(* ===== verification/Trace_Prelude.thy ===== *)
theory Trace_Prelude
  imports
    Main
    "HOL-Library.Word"
    "HOL-Library.Char_ord"
    "HOL-Library.List_Lexorder"
    "HOL-Library.Product_Lexorder"
    "HOL-Library.Signed_Division"
    "HOL-Library.Multiset"
begin

text \<open>
  Prelude of the Trace development: the fragment of Go that the modelled packages use.

  Go strings are byte sequences, so a Go string is a \<open>string\<close> (a list of 8-bit characters)
  and Go's \<open><\<close> on strings is the bytewise lexicographic order that \<open>List_Lexorder\<close> and
  \<open>Char_ord\<close> give.  Here are the functions of the packages \<open>strings\<close>, \<open>strconv\<close>,
  \<open>fmt\<close>, \<open>path/filepath\<close> and \<open>sort\<close> that the code calls, integer conversions, the
  \<open>m[k] = append(m[k], x)\<close> grouping idiom, the keep-first deduplication of adjacent
  elements, and the lemmas on them that the components share.
\<close>

named_theorems go_simps "defining facts of the Go primitives, for unfolding"
named_theorems inv_intros "operations keep the invariant of their component"

type_synonym 'a result = "string + 'a"

section \<open>Integers\<close>

text \<open>\<open>int64\<close> timestamps and counters are \<open>int\<close>; Go's \<open>%\<close> has the sign of the dividend.\<close>

definition go_rem :: "int \<Rightarrow> int \<Rightarrow> int" where
  "go_rem a b = a smod b"

definition go_quot :: "int \<Rightarrow> int \<Rightarrow> int" where
  "go_quot a b = a sdiv b"

text \<open>The conversion \<open>int32(x)\<close> keeps the low 32 bits, read as two's complement.\<close>

definition to_int32 :: "int \<Rightarrow> int" where
  "to_int32 x = signed_take_bit 31 x"

lemma go_rem_nonneg: "0 \<le> a \<Longrightarrow> 0 < b \<Longrightarrow> go_rem a b = a mod b"
  by (simp add: go_rem_def signed_modulo_int_def signed_divide_int_def sgn_if mod_div_mult_eq
      minus_div_mult_eq_mod)

lemma to_int32_id: "- (2 ^ 31) \<le> x \<Longrightarrow> x < 2 ^ 31 \<Longrightarrow> to_int32 x = x"
  by (simp add: to_int32_def signed_take_bit_int_eq_self)

section \<open>Strings\<close>

definition HasPrefix :: "string \<Rightarrow> string \<Rightarrow> bool" where
  [go_simps]: "HasPrefix s p \<longleftrightarrow> take (length p) s = p"

definition TrimPrefix :: "string \<Rightarrow> string \<Rightarrow> string" where
  [go_simps]: "TrimPrefix s p = (if HasPrefix s p then drop (length p) s else s)"

fun Contains :: "string \<Rightarrow> string \<Rightarrow> bool" where
  "Contains [] sub = (sub = [])"
| "Contains (c # cs) sub = (HasPrefix (c # cs) sub \<or> Contains cs sub)"

text \<open>\<open>strings.SplitN(s, c, 2)\<close> for a one-byte separator: the part before the first separator
  and, if there is one, the part after it.\<close>

fun SplitN2 :: "char \<Rightarrow> string \<Rightarrow> string \<times> string option" where
  "SplitN2 c [] = ([], None)"
| "SplitN2 c (x # xs) =
     (if x = c then ([], Some xs)
      else (let (l, r) = SplitN2 c xs in (x # l, r)))"

text \<open>\<open>strings.LastIndex(s, c)\<close> for a one-byte pattern.\<close>

fun LastIndexByte :: "string \<Rightarrow> char \<Rightarrow> nat option" where
  "LastIndexByte [] c = None"
| "LastIndexByte (x # xs) c =
     (case LastIndexByte xs c of Some i \<Rightarrow> Some (Suc i)
      | None \<Rightarrow> if x = c then Some 0 else None)"

definition is_space :: "char \<Rightarrow> bool" where
  [go_simps]: "is_space c \<longleftrightarrow> of_char c \<in> {9, 10, 11, 12, 13, 32 :: nat}"

text \<open>\<open>strings.Fields\<close>: the maximal runs of non-space bytes.  The accumulator is the field
  being read.\<close>

fun fields_acc :: "string \<Rightarrow> string \<Rightarrow> string list" where
  "fields_acc acc [] = (if acc = [] then [] else [rev acc])"
| "fields_acc acc (c # cs) =
     (if is_space c then (if acc = [] then fields_acc [] cs else rev acc # fields_acc [] cs)
      else fields_acc (c # acc) cs)"

definition Fields :: "string \<Rightarrow> string list" where
  "Fields s = fields_acc [] s"

definition TrimSpace :: "string \<Rightarrow> string" where
  "TrimSpace s = rev (dropWhile is_space (rev (dropWhile is_space s)))"

definition lower_char :: "char \<Rightarrow> char" where
  "lower_char c = (if 65 \<le> (of_char c :: nat) \<and> (of_char c :: nat) \<le> 90
     then char_of ((of_char c :: nat) + 32) else c)"

definition ToLower :: "string \<Rightarrow> string" where
  "ToLower s = map lower_char s"

text \<open>\<open>strings.EqualFold\<close> on ASCII strings.\<close>

definition EqualFold :: "string \<Rightarrow> string \<Rightarrow> bool" where
  "EqualFold s t \<longleftrightarrow> ToLower s = ToLower t"

fun Join :: "string list \<Rightarrow> string \<Rightarrow> string" where
  "Join [] sep = []"
| "Join [x] sep = x"
| "Join (x # y # ys) sep = x @ sep @ Join (y # ys) sep"

lemma SplitN2_append:
  "c \<notin> set k \<Longrightarrow> SplitN2 c (k @ c # v) = (k, Some v)"
  by (induction k) auto

lemma SplitN2_None: "c \<notin> set k \<Longrightarrow> SplitN2 c k = (k, None)"
  by (induction k) auto

lemma Contains_prefix: "HasPrefix s sub \<Longrightarrow> Contains s sub"
  by (cases s) (auto simp: HasPrefix_def)

lemma Contains_append: "Contains s sub \<Longrightarrow> Contains (t @ s) sub"
  by (induction t) auto

lemma Contains_infix: "Contains (t @ sub @ u) sub"
  by (intro Contains_append Contains_prefix) (simp add: HasPrefix_def)

lemma fields_acc_word:
  "\<forall>c\<in>set w. \<not> is_space c \<Longrightarrow> fields_acc acc (w @ s) = fields_acc (rev w @ acc) s"
  by (induction w arbitrary: acc) auto

lemma Fields_cons:
  assumes "w \<noteq> []" "\<forall>c\<in>set w. \<not> is_space c" "is_space b"
  shows "Fields (w @ b # s) = w # Fields s"
  using assms by (simp add: Fields_def fields_acc_word)

lemma Fields_single:
  assumes "w \<noteq> []" "\<forall>c\<in>set w. \<not> is_space c"
  shows "Fields w = [w]"
  using fields_acc_word [of w "[]" "[]"] assms by (simp add: Fields_def)

section \<open>Decimal and hexadecimal numerals\<close>

definition digit_char :: "nat \<Rightarrow> char" where
  "digit_char d = (if d < 10 then char_of (48 + d) else char_of (87 + d))"

fun digits :: "nat \<Rightarrow> nat \<Rightarrow> string" where
  "digits b n = (if b < 2 \<or> n < b then [digit_char n] else digits b (n div b) @ [digit_char (n mod b)])"

declare digits.simps [simp del]

text \<open>\<open>%d\<close> of an unsigned value, \<open>%x\<close> of an unsigned value, \<open>%d\<close> of a signed one.\<close>

definition show_nat :: "nat \<Rightarrow> string" where
  "show_nat n = digits 10 n"

definition show_hex :: "nat \<Rightarrow> string" where
  "show_hex n = digits 16 n"

definition show_int :: "int \<Rightarrow> string" where
  "show_int i = (if i < 0 then CHR ''-'' # show_nat (nat (- i)) else show_nat (nat i))"

definition is_digit :: "char \<Rightarrow> bool" where
  "is_digit c \<longleftrightarrow> 48 \<le> (of_char c :: nat) \<and> (of_char c :: nat) \<le> 57"

definition digit_val :: "char \<Rightarrow> nat" where
  "digit_val c = of_char c - 48"

definition dec_val :: "string \<Rightarrow> nat" where
  "dec_val s = foldl (\<lambda>a c. 10 * a + digit_val c) 0 s"

definition parse_dec :: "string \<Rightarrow> nat option" where
  "parse_dec s = (if s \<noteq> [] \<and> (\<forall>c\<in>set s. is_digit c) then Some (dec_val s) else None)"

lemma digit_char_10 [simp]:
  assumes "d < 10"
  shows "is_digit (digit_char d)" "digit_val (digit_char d) = d"
  using assms by (auto simp: digit_char_def is_digit_def digit_val_def)

lemma dec_val_snoc: "dec_val (s @ [c]) = 10 * dec_val s + digit_val c"
  by (simp add: dec_val_def)

lemma show_nat_simps:
  "show_nat n = (if n < 10 then [digit_char n] else show_nat (n div 10) @ [digit_char (n mod 10)])"
  unfolding show_nat_def by (subst digits.simps) simp

lemma show_nat_props:
  "show_nat n \<noteq> [] \<and> (\<forall>c\<in>set (show_nat n). is_digit c) \<and> dec_val (show_nat n) = n"
proof (induction n rule: less_induct)
  case (less n)
  show ?case
  proof (cases "n < 10")
    case True
    then show ?thesis
      by (subst (1 2 3) show_nat_simps) (simp add: dec_val_def)
  next
    case False
    with less [of "n div 10"] show ?thesis
      by (subst (1 2 3) show_nat_simps) (auto simp: dec_val_snoc)
  qed
qed

lemma parse_show_nat [simp]: "parse_dec (show_nat n) = Some n"
  using show_nat_props [of n] by (simp add: parse_dec_def)

lemma is_digit_not_space: "is_digit c \<Longrightarrow> \<not> is_space c"
  by (auto simp: is_digit_def is_space_def)

lemma show_nat_no_space: "c \<in> set (show_nat n) \<Longrightarrow> \<not> is_space c"
  using show_nat_props [of n] is_digit_not_space by blast

lemma show_nat_not_Nil [simp]: "show_nat n \<noteq> []"
  using show_nat_props by blast

text \<open>Zero padding to a minimum width, as in the format verbs of package \<open>time\<close>.\<close>

definition pad :: "nat \<Rightarrow> string \<Rightarrow> string" where
  "pad w s = replicate (w - length s) (CHR ''0'') @ s"

lemma dec_val_zeros: "dec_val (replicate k (CHR ''0'') @ s) = dec_val s"
  by (induction k) (simp_all add: dec_val_def digit_val_def)

lemma length_show_nat: "n < 10 ^ k \<Longrightarrow> 0 < k \<Longrightarrow> length (show_nat n) \<le> k"
proof (induction k arbitrary: n)
  case 0
  then show ?case by simp
next
  case (Suc k)
  show ?case
  proof (cases "n < 10")
    case True
    then show ?thesis by (subst show_nat_simps) simp
  next
    case False
    from False Suc.prems have k: "0 < k" by (cases k) auto
    have "n div 10 < 10 ^ k" using Suc.prems by (simp add: less_mult_imp_div_less mult.commute)
    with Suc.IH [of "n div 10"] k False show ?thesis by (subst show_nat_simps) simp
  qed
qed

lemma pad_props:
  assumes "n < 10 ^ k" "0 < k"
  shows "length (pad k (show_nat n)) = k"
    and "\<forall>c\<in>set (pad k (show_nat n)). is_digit c"
    and "dec_val (pad k (show_nat n)) = n"
  using length_show_nat [OF assms] show_nat_props [of n]
  by (auto simp: pad_def dec_val_zeros is_digit_def)

section \<open>Paths\<close>

text \<open>\<open>filepath.Join\<close> on Unix: join the non-empty elements with a slash and clean the
  result lexically.\<close>

fun split_on :: "char \<Rightarrow> string \<Rightarrow> string list" where
  "split_on c [] = [[]]"
| "split_on c (x # xs) =
     (if x = c then [] # split_on c xs
      else (case split_on c xs of [] \<Rightarrow> [[x]] | y # ys \<Rightarrow> (x # y) # ys))"

fun clean_comps :: "bool \<Rightarrow> string list \<Rightarrow> string list \<Rightarrow> string list" where
  "clean_comps rooted acc [] = rev acc"
| "clean_comps rooted acc (p # ps) =
     (if p = [] \<or> p = ''.'' then clean_comps rooted acc ps
      else if p = ''..'' then
        (case acc of
           a # as \<Rightarrow> if a = ''..'' then clean_comps rooted (p # acc) ps
                     else clean_comps rooted as ps
         | [] \<Rightarrow> if rooted then clean_comps rooted [] ps else clean_comps rooted [p] ps)
      else clean_comps rooted (p # acc) ps)"

definition filepath_Clean :: "string \<Rightarrow> string" where
  "filepath_Clean s =
     (let rooted = HasPrefix s ''/'';
          body = Join (clean_comps rooted [] (split_on (CHR ''/'') s)) ''/''
      in if rooted then CHR ''/'' # body else if body = [] then ''.'' else body)"

definition filepath_Join :: "string list \<Rightarrow> string" where
  "filepath_Join ps =
     (let qs = filter (\<lambda>p. p \<noteq> []) ps in
      if qs = [] then [] else filepath_Clean (Join qs ''/''))"

section \<open>Grouping: the idiom m[k] = append(m[k], x)\<close>

text \<open>A Go map that is only ever extended by appending to the slice stored under a key.  The
  association list keeps the keys in the order of their first occurrence; Go's iteration order
  is unspecified, so users of the map must not depend on it.\<close>

fun group_add :: "'k \<Rightarrow> 'a \<Rightarrow> ('k \<times> 'a list) list \<Rightarrow> ('k \<times> 'a list) list" where
  "group_add k x [] = [(k, [x])]"
| "group_add k x ((k', xs) # g) =
     (if k = k' then (k', xs @ [x]) # g else (k', xs) # group_add k x g)"

definition group_into :: "('a \<Rightarrow> 'k) \<Rightarrow> 'a list \<Rightarrow> ('k \<times> 'a list) list" where
  "group_into f xs = foldl (\<lambda>g x. group_add (f x) x g) [] xs"

lemma group_into_Nil [simp]: "group_into f [] = []"
  by (simp add: group_into_def)

lemma group_into_snoc: "group_into f (xs @ [x]) = group_add (f x) x (group_into f xs)"
  by (simp add: group_into_def)

lemma keys_group_add: "fst ` set (group_add k x g) = insert k (fst ` set g)"
  by (induction k x g rule: group_add.induct) auto

lemma distinct_group_add:
  "distinct (map fst g) \<Longrightarrow> distinct (map fst (group_add k x g))"
proof (induction k x g rule: group_add.induct)
  case (2 k x k' xs g)
  then show ?case using keys_group_add [of k x g] by auto
qed simp

lemma map_of_group_add:
  "map_of (group_add k x g) k' =
     (if k' = k then Some (case map_of g k of None \<Rightarrow> [x] | Some xs \<Rightarrow> xs @ [x]) else map_of g k')"
  by (induction k x g rule: group_add.induct) auto

lemma distinct_group_into [simp]: "distinct (map fst (group_into f xs))"
  by (induction xs rule: rev_induct) (simp_all add: group_into_snoc distinct_group_add)

lemma keys_group_into: "fst ` set (group_into f xs) = f ` set xs"
  by (induction xs rule: rev_induct) (simp_all add: group_into_snoc keys_group_add)

lemma map_of_group_into:
  "map_of (group_into f xs) k = (if k \<in> f ` set xs then Some (filter (\<lambda>x. f x = k) xs) else None)"
proof (induction xs rule: rev_induct)
  case (snoc x xs)
  have "filter (\<lambda>x. f x = k) xs = []" if "k \<notin> f ` set xs"
    using that by (auto simp: filter_empty_conv)
  with snoc show ?case by (auto simp: group_into_snoc map_of_group_add)
qed simp

text \<open>The groups are exactly the non-empty fibres of the key function.\<close>

lemma group_into_mem:
  "(k, g) \<in> set (group_into f xs) \<longleftrightarrow> k \<in> f ` set xs \<and> g = filter (\<lambda>x. f x = k) xs"
  using map_of_eq_Some_iff [OF distinct_group_into, of f xs k g] map_of_group_into [of f xs k]
  by (auto split: if_splits)

section \<open>Keeping the first of a run of equal keys\<close>

text \<open>\<open>dedup_from f p xs\<close> drops every element whose key equals the key of its predecessor,
  where \<open>p\<close> is the key before the first element.\<close>

fun dedup_from :: "('a \<Rightarrow> 'k) \<Rightarrow> 'k \<Rightarrow> 'a list \<Rightarrow> 'a list" where
  "dedup_from f p [] = []"
| "dedup_from f p (x # xs) =
     (if f x = p then dedup_from f p xs else x # dedup_from f (f x) xs)"

fun dedup_by :: "('a \<Rightarrow> 'k) \<Rightarrow> 'a list \<Rightarrow> 'a list" where
  "dedup_by f [] = []"
| "dedup_by f (x # xs) = x # dedup_from f (f x) xs"

lemma set_dedup_from: "set (dedup_from f p xs) \<subseteq> set xs"
  by (induction f p xs rule: dedup_from.induct) auto

lemma set_dedup_by: "set (dedup_by f xs) \<subseteq> set xs"
  using set_dedup_from by (cases xs) fastforce+

lemma keys_dedup_from: "insert p (f ` set (dedup_from f p xs)) = insert p (f ` set xs)"
proof (induction xs arbitrary: p)
  case (Cons x xs)
  show ?case
  proof (cases "f x = p")
    case False
    with Cons [of "f x"] show ?thesis by auto
  qed (use Cons in auto)
qed simp

lemma keys_dedup_by: "f ` set (dedup_by f xs) = f ` set xs"
proof (cases xs)
  case (Cons x ys)
  then show ?thesis using keys_dedup_from [of "f x" f ys] by auto
qed simp

lemma strict_dedup_from:
  fixes f :: "'a \<Rightarrow> 'k::linorder"
  assumes "sorted (map f xs)" "\<forall>x\<in>set xs. p \<le> f x"
  shows "sorted_wrt (<) (map f (dedup_from f p xs)) \<and> (\<forall>x\<in>set (dedup_from f p xs). p < f x)"
  using assms
proof (induction xs arbitrary: p)
  case (Cons x xs)
  show ?case
  proof (cases "f x = p")
    case True
    with Cons show ?thesis by auto
  next
    case False
    with Cons.prems have lt: "p < f x" by auto
    from Cons.IH [of "f x"] Cons.prems
    have "sorted_wrt (<) (map f (dedup_from f (f x) xs))"
      and "\<forall>y\<in>set (dedup_from f (f x) xs). f x < f y" by auto
    with lt False show ?thesis by force
  qed
qed simp

lemma strict_dedup_by:
  fixes f :: "'a \<Rightarrow> 'k::linorder"
  assumes "sorted (map f xs)"
  shows "sorted_wrt (<) (map f (dedup_by f xs))"
proof (cases xs)
  case (Cons x ys)
  with assms strict_dedup_from [of f ys "f x"] show ?thesis by auto
qed simp

lemma strict_sorted_unique:
  fixes xs :: "'k::linorder list"
  assumes "sorted_wrt (<) xs"
  shows "xs = sorted_list_of_set (set xs)"
  using assms by (simp add: strict_sorted_iff sorted_list_of_set.idem_if_sorted_distinct)

lemma keys_dedup_sorted:
  fixes f :: "'a \<Rightarrow> 'k::linorder"
  assumes "sorted (map f xs)"
  shows "map f (dedup_by f xs) = sorted_list_of_set (f ` set xs)"
  using strict_sorted_unique [OF strict_dedup_by [OF assms]] by (simp add: keys_dedup_by)

end
