(* ===== verification/Go_Time.thy ===== *)
theory Go_Time
  imports Trace_Prelude
begin

text \<open>
  The part of Go's package \<open>time\<close> that the storage engine uses: durations, instants in epoch
  microseconds, the proleptic Gregorian calendar, and the layout \<open>2006010215\<close>
  (year, month, day and hour without separators) in both directions.
  \<open>time.UnixMicro(us).Format(layout)\<close> prints in the local zone, so formatting takes the zone
  offset (in seconds, at a given Unix second) as an argument; \<open>time.Parse\<close> reads in UTC.
\<close>

section \<open>Durations\<close>

text \<open>A \<open>time.Duration\<close> counts nanoseconds.\<close>

definition Microsecond :: int where "Microsecond = 1000"
definition Second :: int where "Second = 1000000000"
definition Minute :: int where "Minute = 60 * Second"
definition Hour :: int where "Hour = 60 * Minute"

lemmas duration_defs = Microsecond_def Second_def Minute_def Hour_def

definition hour_us :: int where "hour_us = go_quot Hour Microsecond"

lemma hour_us_eq [simp]: "hour_us = 3600000000"
  by (simp add: hour_us_def duration_defs go_quot_def)

section \<open>The calendar\<close>

definition leap :: "int \<Rightarrow> bool" where
  "leap y \<longleftrightarrow> y mod 4 = 0 \<and> (y mod 100 \<noteq> 0 \<or> y mod 400 = 0)"

text \<open>Days from 1 January of year 1 to 1 January of year \<open>y\<close>.\<close>

definition days_before_year :: "int \<Rightarrow> int" where
  "days_before_year y = 365 * (y - 1) + (y - 1) div 4 - (y - 1) div 100 + (y - 1) div 400"

definition month_lens :: "int \<Rightarrow> int list" where
  "month_lens y = [31, if leap y then 29 else 28, 31, 30, 31, 30, 31, 31, 30, 31, 30, 31]"

fun find_month :: "nat \<Rightarrow> int \<Rightarrow> int list \<Rightarrow> nat \<times> int" where
  "find_month m d [] = (m, d)"
| "find_month m d (l # ls) = (if d < l then (m, d) else find_month (Suc m) (d - l) ls)"

text \<open>The year of a day counted from 1 January of year 1: an estimate, off by at most one.\<close>

definition year_of :: "int \<Rightarrow> int" where
  "year_of n =
     (let y = 400 * n div 146097 + 1 in
      if n < days_before_year y then y - 1
      else if days_before_year (y + 1) \<le> n then y + 1 else y)"

definition epoch_days :: int where "epoch_days = 719162"

text \<open>Civil date of a day counted from 1 January 1970, and back.\<close>

definition civil_of_days :: "int \<Rightarrow> int \<times> nat \<times> int" where
  "civil_of_days d =
     (let n = d + epoch_days; y = year_of n;
          (m, r) = find_month 0 (n - days_before_year y) (month_lens y)
      in (y, Suc m, r + 1))"

definition days_of_civil :: "int \<Rightarrow> nat \<Rightarrow> int \<Rightarrow> int" where
  "days_of_civil y m d =
     days_before_year y + sum_list (take (m - 1) (month_lens y)) + (d - 1) - epoch_days"

lemma div_bounds:
  fixes x k :: int
  assumes "0 < k"
  shows "k * (x div k) \<le> x" "x < k * (x div k) + k"
  using pos_mod_sign [OF assms, of x] pos_mod_bound [OF assms, of x] mult_div_mod_eq [of k x]
  by linarith+

lemma div_pred:
  fixes y k :: int
  assumes "0 < k"
  shows "y div k = (y - 1) div k + (if k dvd y then 1 else 0)"
proof -
  define q r where "q = (y - 1) div k" and "r = (y - 1) mod k"
  have y: "y = (r + 1) + k * q" and r: "0 \<le> r" "r < k"
    using assms by (simp_all add: q_def r_def)
  have "y div k = (r + 1) div k + q"
    unfolding y using assms by (simp only: div_mult_self2)
  moreover have "k dvd y \<longleftrightarrow> k dvd r + 1"
    unfolding y by (rule dvd_add_left_iff) simp
  moreover have "(r + 1) div k = (if k dvd r + 1 then 1 else 0)"
  proof (cases "r + 1 = k")
    case True
    then show ?thesis using assms by simp
  next
    case False
    with r have "r + 1 < k" "0 < r + 1" by auto
    then show ?thesis using zdvd_not_zless [of "r + 1" k] by (simp add: div_pos_pos_trivial)
  qed
  ultimately show ?thesis by (simp add: q_def)
qed

lemma days_before_year_Suc:
  "days_before_year (y + 1) = days_before_year y + sum_list (month_lens y)"
proof -
  have a: "100 dvd y" if "400 dvd y" using that by (rule dvd_trans [rotated]) simp
  have b: "4 dvd y" if "100 dvd y" using that by (rule dvd_trans [rotated]) simp
  have "days_before_year (y + 1) = days_before_year y + 365 + (if 4 dvd y then 1 else 0)
      - (if 100 dvd y then 1 else 0) + (if 400 dvd y then 1 else 0)"
    using div_pred [of 4 y] div_pred [of 100 y] div_pred [of 400 y]
    by (simp only: days_before_year_def) simp
  also have "\<dots> = days_before_year y + 365 + (if leap y then 1 else 0)"
    using a b by (auto simp only: leap_def mod_eq_0_iff_dvd split: if_split)
  also have "\<dots> = days_before_year y + sum_list (month_lens y)"
    by (simp add: month_lens_def)
  finally show ?thesis .
qed

lemma year_of_bounds:
  "days_before_year (year_of n) \<le> n \<and> n < days_before_year (year_of n + 1)"
proof -
  define q where "q = 400 * n div 146097"
  have q: "146097 * q \<le> 400 * n" "400 * n < 146097 * q + 146097"
    unfolding q_def using div_bounds [of 146097 "400 * n"] by simp_all
  have dv: "\<And>k. 4 * (k div 4) \<le> k \<and> k < 4 * (k div 4) + 4 \<and> 100 * (k div 100) \<le> k
      \<and> k < 100 * (k div 100) + 100 \<and> 400 * (k div 400) \<le> k \<and> k < 400 * (k div 400) + (400::int)"
    using div_bounds [of 4] div_bounds [of 100] div_bounds [of 400] by simp
  have lo: "days_before_year q \<le> n"
    using q dv [of "q - 1"] by (simp add: days_before_year_def)
  have hi: "n < days_before_year (q + 3)"
    using q dv [of "q + 2"] by (simp add: days_before_year_def)
  show ?thesis
    using lo hi by (auto simp: year_of_def Let_def q_def [symmetric] add.commute)
qed

lemma find_month_spec:
  assumes "find_month m0 d ls = (m, r)" "0 \<le> d" "d < sum_list ls"
  shows "m0 \<le> m \<and> m < m0 + length ls \<and> 0 \<le> r \<and> r < ls ! (m - m0)
     \<and> sum_list (take (m - m0) ls) + r = d"
  using assms
proof (induction m0 d ls rule: find_month.induct)
  case (2 m0 d l ls)
  show ?case
  proof (cases "d < l")
    case False
    with 2 have "Suc m0 \<le> m \<and> m < Suc m0 + length ls \<and> 0 \<le> r \<and> r < ls ! (m - Suc m0)
        \<and> sum_list (take (m - Suc m0) ls) + r = d - l" by auto
    moreover from this have "m - m0 = Suc (m - Suc m0)" by auto
    ultimately show ?thesis by auto
  qed (use 2 in auto)
qed simp

lemma civil_of_days_spec:
  assumes "civil_of_days d = (y, m, day)"
  shows "days_of_civil y m day = d"
    and "1 \<le> m" "m \<le> 12" "1 \<le> day" "day \<le> month_lens y ! (m - 1)"
proof -
  define n where "n = d + epoch_days"
  define y' where "y' = year_of n"
  obtain k r where kr: "find_month 0 (n - days_before_year y') (month_lens y') = (k, r)"
    by (cases "find_month 0 (n - days_before_year y') (month_lens y')")
  from year_of_bounds [of n] days_before_year_Suc [of y']
  have b: "0 \<le> n - days_before_year y'" "n - days_before_year y' < sum_list (month_lens y')"
    by (auto simp: y'_def)
  from assms kr have eqs: "y = y'" "m = Suc k" "day = r + 1"
    by (auto simp: civil_of_days_def Let_def n_def [symmetric] y'_def [symmetric])
  from find_month_spec [OF kr b] have "k < length (month_lens y')" "0 \<le> r" "r < month_lens y' ! k"
    "sum_list (take k (month_lens y')) + r = n - days_before_year y'" by auto
  then show "days_of_civil y m day = d" "1 \<le> m" "m \<le> 12" "1 \<le> day" "day \<le> month_lens y ! (m - 1)"
    unfolding eqs by (auto simp: days_of_civil_def n_def month_lens_def)
qed

section \<open>The layout 2006010215\<close>

text \<open>The hour and the day of an instant in a zone.\<close>

definition local_sec :: "(int \<Rightarrow> int) \<Rightarrow> int \<Rightarrow> int" where
  "local_sec zone us = us div 1000000 + zone (us div 1000000)"

definition format_date :: "(int \<Rightarrow> int) \<Rightarrow> int \<Rightarrow> string" where
  "format_date zone us =
     (let (y, m, d) = civil_of_days (local_sec zone us div 86400) in
      pad 4 (show_nat (nat y)) @ ''-'' @ pad 2 (show_nat m) @ ''-'' @ pad 2 (show_nat (nat d)))"

definition format_hh :: "(int \<Rightarrow> int) \<Rightarrow> int \<Rightarrow> string" where
  "format_hh zone us = pad 2 (show_nat (nat (local_sec zone us mod 86400 div 3600)))"

definition format_hour :: "(int \<Rightarrow> int) \<Rightarrow> int \<Rightarrow> string" where
  "format_hour zone us =
     (let (y, m, d) = civil_of_days (local_sec zone us div 86400) in
      pad 4 (show_nat (nat y)) @ pad 2 (show_nat m) @ pad 2 (show_nat (nat d)) @ format_hh zone us)"

text \<open>\<open>time.Parse("2006010215", s)\<close> on a string of ten bytes, in epoch microseconds: digits only,
  month, day of month and hour in range.\<close>

definition parse_hour :: "string \<Rightarrow> int option" where
  "parse_hour s =
     (if length s = 10 \<and> (\<forall>c\<in>set s. is_digit c) then
        (let y = int (dec_val (take 4 s)); m = dec_val (take 2 (drop 4 s));
             d = int (dec_val (take 2 (drop 6 s))); h = int (dec_val (drop 8 s))
         in if m < 1 \<or> 12 < m \<or> 24 \<le> h \<or> d < 1 \<or> month_lens y ! (m - 1) < d then None
            else Some (((days_of_civil y m d * 24) + h) * 3600 * 1000000))
      else None)"

text \<open>The years that the four-digit layout can carry.\<close>

definition printable_instant :: "(int \<Rightarrow> int) \<Rightarrow> int \<Rightarrow> bool" where
  "printable_instant zone us \<longleftrightarrow>
     (case civil_of_days (local_sec zone us div 86400) of (y, _) \<Rightarrow> 0 \<le> y \<and> y \<le> 9999)"

lemma month_lens_le: "k < 12 \<Longrightarrow> month_lens y ! k \<le> 31"
  by (auto simp: month_lens_def nth_Cons' less_Suc_eq numeral_eq_Suc)

lemma format_hour_parts:
  assumes "printable_instant zone us"
  obtains y m d where
    "civil_of_days (local_sec zone us div 86400) = (y, m, d)"
    "format_hour zone us = pad 4 (show_nat (nat y)) @ pad 2 (show_nat m) @ pad 2 (show_nat (nat d))
       @ pad 2 (show_nat (nat (local_sec zone us mod 86400 div 3600)))"
    "nat y < 10 ^ 4" "0 \<le> y" "1 \<le> m" "m \<le> 12" "1 \<le> d" "d \<le> month_lens y ! (m - 1)" "nat d < 10 ^ 2"
proof -
  obtain y m d where c: "civil_of_days (local_sec zone us div 86400) = (y, m, d)"
    by (metis prod_cases3)
  note spec = civil_of_days_spec [OF c]
  have "d \<le> 31" using spec(3,5) month_lens_le [of "m - 1" y] spec(2) by fastforce
  then show thesis
    using that [OF c] assms c spec
    by (auto simp: format_hour_def format_hh_def printable_instant_def)
qed

lemma format_hour_length: "printable_instant zone us \<Longrightarrow> length (format_hour zone us) = 10"
  by (erule format_hour_parts) (simp add: pad_props(1))

lemma local_hour_bounds: "0 \<le> x mod 86400 div 3600" "x mod 86400 div 3600 < (24::int)"
  using div_bounds [of 3600 "x mod 86400"] pos_mod_sign [of 86400 x] pos_mod_bound [of 86400 x]
  by linarith+

text \<open>Reading back a formatted instant gives the start of its (local) hour, read as UTC.\<close>

theorem parse_format_hour:
  assumes p: "printable_instant zone us"
  shows "parse_hour (format_hour zone us) = Some (local_sec zone us div 3600 * 3600 * 1000000)"
proof -
  let ?s = "local_sec zone us"
  let ?h = "?s mod 86400 div 3600"
  obtain y m d where c: "civil_of_days (?s div 86400) = (y, m, d)"
    and f: "format_hour zone us = pad 4 (show_nat (nat y)) @ pad 2 (show_nat m)
       @ pad 2 (show_nat (nat d)) @ pad 2 (show_nat (nat ?h))"
    and b: "nat y < 10 ^ 4" "0 \<le> y" "1 \<le> m" "m \<le> 12" "1 \<le> d" "d \<le> month_lens y ! (m - 1)"
      "nat d < 10 ^ 2"
    using format_hour_parts [OF p] by metis
  have hb: "nat ?h < 10 ^ 2" "m < 10 ^ 2" using local_hour_bounds [of ?s] b(4) by auto
  note lens = pad_props(1) [OF b(1)] pad_props(1) [OF hb(2)] pad_props(1) [OF b(7)]
    pad_props(1) [OF hb(1)]
  note vals = pad_props(3) [OF b(1)] pad_props(3) [OF hb(2)] pad_props(3) [OF b(7)]
    pad_props(3) [OF hb(1)]
  have digs: "\<forall>c\<in>set (format_hour zone us). is_digit c"
    using pad_props(2) [OF b(1)] pad_props(2) [OF hb(2)] pad_props(2) [OF b(7)]
      pad_props(2) [OF hb(1)] by (auto simp: f)
  have parts: "dec_val (take 4 (format_hour zone us)) = nat y"
    "dec_val (take 2 (drop 4 (format_hour zone us))) = m"
    "dec_val (take 2 (drop 6 (format_hour zone us))) = nat d"
    "dec_val (drop 8 (format_hour zone us)) = nat ?h"
    using lens vals by (simp_all add: f)
  have "?s = 3600 * (?s div 86400 * 24) + ?s mod 86400" by simp
  then have "?s div 3600 = ?s div 86400 * 24 + ?h"
    by (metis div_mult_self4 zero_neq_numeral add.commute)
  then show ?thesis
    using digs format_hour_length [OF p] b local_hour_bounds [of ?s] civil_of_days_spec(1) [OF c]
    by (simp add: parse_hour_def Let_def parts)
qed

text \<open>In UTC this is the truncation of the instant to its hour.\<close>

abbreviation utc :: "int \<Rightarrow> int" where
  "utc \<equiv> (\<lambda>_. 0)"

lemma hour_start_utc: "local_sec utc us div 3600 * 3600 * 1000000 = us - us mod hour_us"
proof -
  have "us div 1000000 div 3600 = us div 3600000000"
    using zdiv_zmult2_eq [of 3600 us 1000000] by simp
  then show ?thesis by (simp add: local_sec_def minus_mod_eq_div_mult)
qed

lemmas parse_format_utc = parse_format_hour [of utc, unfolded hour_start_utc]

end
