(* ===== verification/Storage_Types.thy ===== *)
theory Storage_Types
  imports Go_Time
begin

text \<open>
  \<open>internal/storage/types.go\<close>: the event, the query with its limit cap, query results, the
  records of the manifest, and \<open>MergeSortDedupByID\<close>.  The deduplication of the source works
  in place on the sorted slice (the result slice aliases the input), so its loop is modelled on
  an array that is overwritten while it is read; it is then shown to equal the keep-first
  deduplication of the sorted list.
\<close>

section \<open>Data\<close>

text \<open>A Go map of annotations, in some order of its keys; its encoding is the parameter of the
  definitions that use it.\<close>

type_synonym annotations = "(string \<times> string) list"

record event =
  ID :: string
  TenantID :: string
  AgentID :: string
  Timestamp :: int
  IngestedAt :: int
  EventType :: string
  Severity :: int
  ProcessName :: string
  Cmdline :: string
  ParentPID :: int
  SHA256 :: string
  DestIP :: string
  SrcIP :: string
  UserName :: string
  Hostname :: string
  DataRaw :: string
  Annotations :: annotations

definition DefaultMaxLimit :: int where "DefaultMaxLimit = 100000"

record query =
  qTenantID :: string
  qAgentIDs :: "string list"
  qEventTypes :: "string list"
  qMinSeverity :: int
  qMinID :: string
  qMaxID :: string
  qSinceUs :: int
  qUntilUs :: int
  qLimit :: int
  qCursor :: string
  qOrderAsc :: bool

text \<open>Go's zero value of the struct.\<close>

definition empty_query :: query where
  "empty_query = \<lparr>qTenantID = [], qAgentIDs = [], qEventTypes = [], qMinSeverity = 0,
     qMinID = [], qMaxID = [], qSinceUs = 0, qUntilUs = 0, qLimit = 0, qCursor = [],
     qOrderAsc = False\<rparr>"

definition ApplyDefaults :: "query \<Rightarrow> query" where
  "ApplyDefaults q =
     (if qLimit q \<le> 0 \<or> qLimit q > DefaultMaxLimit then q\<lparr>qLimit := DefaultMaxLimit\<rparr> else q)"

text \<open>A query result; the warnings are kept as values of a type chosen by the producer.\<close>

record 'w qresult =
  rEvents :: "event list"
  rWarnings :: "'w list"
  rCursor :: string
  rTotal :: int

definition empty_result :: "'w qresult" where
  "empty_result = \<lparr>rEvents = [], rWarnings = [], rCursor = [], rTotal = 0\<rparr>"

record FileInfo =
  fiPath :: string
  fiFileID :: string
  fiStatus :: string
  fiLevel :: int
  fiTenantID :: string
  fiMinTS :: int
  fiMaxTS :: int

record ParquetFileRecord =
  pfFileID :: string
  pfPath :: string
  pfTenantID :: string
  pfLevel :: int
  pfMinTimestampUs :: int
  pfMaxTimestampUs :: int
  pfMinEventID :: string
  pfMaxEventID :: string
  pfRowCount :: int
  pfCompressedSize :: int
  pfUncompressedSize :: int
  pfSHA256 :: string
  pfCompression :: string
  pfSchemaVersion :: int
  pfStatus :: string
  pfCreatedAt :: int
  pfUpdatedAt :: int

record Watermark =
  LastID :: string
  LastTS :: int
  wmUpdatedAt :: int

record FileResult =
  frPath :: string
  frRowCount :: int
  frCompressedSize :: int
  frUncompressedSize :: int
  frSHA256 :: string
  frMinTimestampUs :: int
  frMaxTimestampUs :: int
  frMinEventID :: string
  frMaxEventID :: string

record HotTableRecord =
  htTableName :: string
  htHourStart :: int
  htStatus :: string

section \<open>Sorting and deduplicating by identifier\<close>

text \<open>
  The loop of \<open>MergeSortDedupByID\<close>: \<open>deduped\<close> is \<open>events[:n]\<close>, a prefix of the array it reads
  from, and \<open>append\<close> writes position \<open>n\<close> of that array.  The counter \<open>k\<close> is the number of
  iterations left, so the index of this iteration is \<open>length arr - k\<close>.
\<close>

fun dedup_loop :: "event list \<Rightarrow> nat \<Rightarrow> nat \<Rightarrow> event list \<times> nat" where
  "dedup_loop arr n 0 = (arr, n)"
| "dedup_loop arr n (Suc k) =
     (let i = length arr - Suc k in
      if ID (arr ! i) \<noteq> ID (arr ! (i - 1)) then dedup_loop (arr[n := arr ! i]) (Suc n) k
      else dedup_loop arr n k)"

definition MergeSortDedupByID :: "event list \<Rightarrow> event list" where
  "MergeSortDedupByID events =
     (if length events < 2 then events
      else let arr = sort_key ID events;
               (arr', n) = dedup_loop arr 1 (length arr - 1)
           in take n arr')"

text \<open>
  The array invariant: the cells from the predecessor of the current index on are still the
  sorted input, and the first \<open>n\<close> cells are the result so far.
\<close>

lemma dedup_loop_spec:
  assumes "length arr = length xs" "0 < n" "n \<le> length xs - k" "k < length xs"
    and "drop (length xs - k - 1) arr = drop (length xs - k - 1) xs"
  shows "case dedup_loop arr n k of (arr', m) \<Rightarrow>
     take m arr' = take n arr @ dedup_from ID (ID (xs ! (length xs - k - 1))) (drop (length xs - k) xs)"
  using assms
proof (induction arr n k rule: dedup_loop.induct)
  case (1 arr n)
  then show ?case by simp
next
  case (2 arr n k)
  let ?i = "length xs - Suc k"
  have i: "?i < length xs" "length xs - k = Suc ?i" "0 < ?i" "length xs - k - 1 = ?i"
    using 2(5,6) 2(4) by auto
  have same: "arr ! j = xs ! j" if "?i - 1 \<le> j" "j < length xs" for j
  proof -
    have "drop (?i - 1) arr ! (j - (?i - 1)) = drop (?i - 1) xs ! (j - (?i - 1))"
      using 2(7) by simp
    then show ?thesis using that 2(3) by simp
  qed
  have ai: "arr ! ?i = xs ! ?i" "arr ! (?i - 1) = xs ! (?i - 1)"
    using same [of ?i] same [of "?i - 1"] i by auto
  have dropxs: "drop ?i xs = xs ! ?i # drop (Suc ?i) xs" using i(1) by (simp add: Cons_nth_drop_Suc)
  have tail: "drop ?i arr = drop ?i xs"
    using 2(7) i by (metis drop_drop Suc_pred' add.commute plus_1_eq_Suc diff_diff_left)
  show ?case
  proof (cases "ID (xs ! ?i) = ID (xs ! (?i - 1))")
    case True
    have "dedup_loop arr n (Suc k) = dedup_loop arr n k" using True ai 2(3) by (simp add: Let_def)
    moreover have "case dedup_loop arr n k of (arr', m) \<Rightarrow>
       take m arr' = take n arr @ dedup_from ID (ID (xs ! (length xs - k - 1))) (drop (length xs - k) xs)"
      using 2(2) [OF refl] True ai 2(3-6) tail i by simp
    ultimately show ?thesis using True i dropxs by (simp split: prod.splits)
  next
    case False
    let ?arr = "arr[n := xs ! ?i]"
    have nle: "n \<le> ?i" using 2(5) by simp
    have step: "dedup_loop arr n (Suc k) = dedup_loop ?arr (Suc n) k"
      using False ai 2(3) by (simp add: Let_def)
    have tail': "drop ?i ?arr = drop ?i xs"
    proof (cases "n = ?i")
      case True
      then show ?thesis using tail dropxs 2(3) i(1)
        by (metis ai(1) list_update_id)
    next
      case False
      with nle tail show ?thesis by (simp add: drop_update_cancel)
    qed
    have "case dedup_loop ?arr (Suc n) k of (arr', m) \<Rightarrow>
       take m arr' = take (Suc n) ?arr @ dedup_from ID (ID (xs ! (length xs - k - 1))) (drop (length xs - k) xs)"
      using 2(1) [OF refl] False ai 2(3-6) tail' i nle by simp
    moreover have "take (Suc n) ?arr = take n arr @ [xs ! ?i]"
      using nle i(1) 2(3) by (simp add: take_Suc_conv_app_nth)
    ultimately show ?thesis using False i dropxs step by (simp split: prod.splits)
  qed
qed

text \<open>The in-place loop computes the keep-first deduplication of the sorted slice.\<close>

theorem MergeSortDedupByID_eq: "MergeSortDedupByID events = dedup_by ID (sort_key ID events)"
proof (cases "length events < 2")
  case True
  then consider "events = []" | e where "events = [e]"
    by (cases events rule: list.exhaust; cases "tl events") auto
  then show ?thesis by cases (simp_all add: MergeSortDedupByID_def)
next
  case False
  let ?xs = "sort_key ID events"
  have len: "2 \<le> length ?xs" using False by simp
  then obtain x ys where xs: "?xs = x # ys" by (cases ?xs) auto
  have "case dedup_loop ?xs 1 (length ?xs - 1) of (arr', m) \<Rightarrow>
     take m arr' = take 1 ?xs @ dedup_from ID (ID (?xs ! (length ?xs - (length ?xs - 1) - 1)))
       (drop (length ?xs - (length ?xs - 1)) ?xs)"
    by (rule dedup_loop_spec) (use len in auto)
  then show ?thesis using False len
    by (auto simp: MergeSortDedupByID_def xs Let_def split: prod.splits)
qed

lemma sorted_ids_sort: "sorted (map ID (sort_key ID events))"
  by (rule sorted_sort_key)

lemma set_MergeSortDedupByID: "set (MergeSortDedupByID events) \<subseteq> set events"
  using set_dedup_by [of ID "sort_key ID events"] by (simp add: MergeSortDedupByID_eq)

text \<open>
  Whatever permutation a sorting routine leaves behind (\<open>sort.Slice\<close> is not stable), the
  identifiers that survive are the same: the sorted set of the input's identifiers.
\<close>

lemma dedup_ids_any_sort:
  assumes "mset ys = mset events" "sorted (map ID ys)"
  shows "map ID (dedup_by ID ys) = sorted_list_of_set (ID ` set events)"
  using keys_dedup_sorted [OF assms(2)] mset_eq_setD [OF assms(1)] by simp

lemma ids_MergeSortDedupByID:
  "map ID (MergeSortDedupByID events) = sorted_list_of_set (ID ` set events)"
  unfolding MergeSortDedupByID_eq by (rule dedup_ids_any_sort) (simp_all add: sorted_ids_sort)

lemma ApplyDefaults_limit: "0 < qLimit (ApplyDefaults q) \<and> qLimit (ApplyDefaults q) \<le> DefaultMaxLimit"
  by (auto simp: ApplyDefaults_def DefaultMaxLimit_def)

lemma ApplyDefaults_frame [simp]:
  "qTenantID (ApplyDefaults q) = qTenantID q" "qAgentIDs (ApplyDefaults q) = qAgentIDs q"
  "qEventTypes (ApplyDefaults q) = qEventTypes q" "qMinSeverity (ApplyDefaults q) = qMinSeverity q"
  "qMinID (ApplyDefaults q) = qMinID q" "qMaxID (ApplyDefaults q) = qMaxID q"
  "qSinceUs (ApplyDefaults q) = qSinceUs q" "qUntilUs (ApplyDefaults q) = qUntilUs q"
  "qCursor (ApplyDefaults q) = qCursor q"
  by (simp_all add: ApplyDefaults_def)

lemma ApplyDefaults_idem [simp]: "ApplyDefaults (ApplyDefaults q) = ApplyDefaults q"
  by (auto simp: ApplyDefaults_def DefaultMaxLimit_def)

end
