(* ===== verification/Disk_Gate.thy ===== *)
theory Disk_Gate
  imports Storage_Types Complex_Main
begin

text \<open>
  \<open>internal/storage/disk.go\<close>: the 85\% warning and the 95\% write gate.  The usage ratio is a
  real number; the platform check and its test override are inputs; the time of the last warning
  is the state of \<open>LogDiskWarn\<close> (its compare-and-swap loop has no contention here).
\<close>

record DiskUsage =
  TotalBytes :: int
  FreeBytes :: int
  UsedRatio :: real

definition ErrDiskFull :: string where
  "ErrDiskFull = ''disk full: cannot accept more events''"

definition DiskWarnRatio :: real where "DiskWarnRatio = 85 / 100"
definition DiskFullRatio :: real where "DiskFullRatio = 95 / 100"

definition GetDiskUsage :: "(string \<Rightarrow> DiskUsage option) option \<Rightarrow> (string \<Rightarrow> DiskUsage option) \<Rightarrow>
    string \<Rightarrow> DiskUsage option" where
  "GetDiskUsage hook check path = (case hook of Some f \<Rightarrow> f path | None \<Rightarrow> check path)"

definition IsDiskFull :: "DiskUsage \<Rightarrow> bool" where
  "IsDiskFull u \<longleftrightarrow> UsedRatio u \<ge> DiskFullRatio"

definition IsDiskWarning :: "DiskUsage \<Rightarrow> bool" where
  "IsDiskWarning u \<longleftrightarrow> UsedRatio u \<ge> DiskWarnRatio"

definition LogDiskWarn :: "int \<Rightarrow> DiskUsage option \<Rightarrow> int \<Rightarrow> bool \<times> int" where
  "LogDiskWarn now usage last_warn =
     (case usage of None \<Rightarrow> (False, last_warn)
      | Some u \<Rightarrow> if \<not> IsDiskWarning u then (False, last_warn)
                  else if now - last_warn < 60 then (False, last_warn) else (True, now))"

text \<open>The gate at the head of the queue's and of the hot store's \<open>WriteBatch\<close>: \<open>path\<close> is the
  result of \<open>StoragePathFunc\<close>, absent when the function is not set; a failing check lets the
  batch pass.\<close>

definition disk_rejects :: "(string \<Rightarrow> DiskUsage option) option \<Rightarrow> (string \<Rightarrow> DiskUsage option) \<Rightarrow>
    string option \<Rightarrow> bool" where
  "disk_rejects hook check path =
     (case path of None \<Rightarrow> False
      | Some p \<Rightarrow> (case GetDiskUsage hook check p of None \<Rightarrow> False | Some u \<Rightarrow> IsDiskFull u))"

text \<open>Repeated calls of \<open>LogDiskWarn\<close> at the given times: the times at which a line is logged.\<close>

fun warn_log :: "(int \<times> DiskUsage option) list \<Rightarrow> int \<Rightarrow> int list" where
  "warn_log [] last_warn = []"
| "warn_log ((now, u) # calls) last_warn =
     (case LogDiskWarn now u last_warn of
        (True, l) \<Rightarrow> now # warn_log calls l | (False, l) \<Rightarrow> warn_log calls l)"

lemma warn_log_after:
  "t \<in> set (warn_log calls last_warn) \<Longrightarrow> sorted (map fst calls) \<Longrightarrow> last_warn + 60 \<le> t"
proof (induction calls arbitrary: last_warn)
  case (Cons c calls)
  obtain now u where c: "c = (now, u)" by fastforce
  from Cons.prems(2) have now: "\<forall>t\<in>set (map fst calls). now \<le> t" by (auto simp: c)
  show ?case
  proof (cases "fst (LogDiskWarn now u last_warn)")
    case True
    then have l: "LogDiskWarn now u last_warn = (True, now)" "60 \<le> now - last_warn"
      by (auto simp: LogDiskWarn_def split: option.splits if_splits)
    with Cons.prems(1) consider "t = now" | "t \<in> set (warn_log calls now)" by (auto simp: c)
    then show ?thesis
    proof cases
      case 2
      with Cons.IH [of now] Cons.prems(2) l(2) show ?thesis by simp
    qed (use l in simp)
  next
    case False
    then have "LogDiskWarn now u last_warn = (False, last_warn)"
      by (auto simp: LogDiskWarn_def split: option.splits if_splits)
    with Cons show ?thesis by (simp add: c)
  qed
qed simp

lemma warn_log_spaced:
  "sorted (map fst calls) \<Longrightarrow> sorted_wrt (\<lambda>a b. a + 60 \<le> b) (warn_log calls last_warn)"
proof (induction calls arbitrary: last_warn)
  case (Cons c calls)
  obtain now u where c: "c = (now, u)" by fastforce
  have "LogDiskWarn now u last_warn = (True, now) \<or> LogDiskWarn now u last_warn = (False, last_warn)"
    by (simp add: LogDiskWarn_def split: option.splits)
  then show ?case
    by (elim disjE) (use Cons warn_log_after [of _ calls now] in \<open>auto simp: c\<close>)
qed simp

end
