(* ===== verification/Parquet_Writer.thy ===== *)
theory Parquet_Writer
  imports Storage_Types
begin

text \<open>
  \<open>internal/storage/parquet\<close>: the row type, the conversion of events to rows, and
  \<open>ParquetWriter.WriteBatch\<close> with its temp file, rename and S3 upload.  The file system is a
  map from paths to complete Parquet files (their rows); which step of a write fails, the
  clock, the digest and the size of a file are inputs.  The encoding of annotation maps as
  JSON is a parameter.
\<close>

section \<open>Rows\<close>

record TraceEventParquet =
  pID :: string
  pTenantID :: string
  pAgentID :: string
  pTimestampUs :: int
  pIngestedAt :: int
  pEventType :: string
  pSeverity :: int
  pProcessName :: string
  pCmdline :: string
  pParentPID :: int
  pSHA256 :: string
  pDestIP :: string
  pSrcIP :: string
  pUserName :: string
  pHostname :: string
  pDataRaw :: string
  pAnnotations :: string

type_synonym json_enc = "annotations \<Rightarrow> string"

definition AnnotationsJSON :: "json_enc \<Rightarrow> annotations \<Rightarrow> string" where
  "AnnotationsJSON enc m = (if m = [] then [] else enc m)"

definition eventToParquet :: "json_enc \<Rightarrow> event \<Rightarrow> TraceEventParquet" where
  "eventToParquet enc e = \<lparr>pID = ID e, pTenantID = TenantID e, pAgentID = AgentID e,
     pTimestampUs = Timestamp e, pIngestedAt = IngestedAt e, pEventType = EventType e,
     pSeverity = to_int32 (Severity e), pProcessName = ProcessName e, pCmdline = Cmdline e,
     pParentPID = to_int32 (ParentPID e), pSHA256 = SHA256 e, pDestIP = DestIP e, pSrcIP = SrcIP e,
     pUserName = UserName e, pHostname = Hostname e, pDataRaw = DataRaw e,
     pAnnotations = AnnotationsJSON enc (Annotations e)\<rparr>"

text \<open>The size of the variable-length columns plus the fixed-width ones.\<close>

definition row_size :: "TraceEventParquet \<Rightarrow> int" where
  "row_size r = int (length (pID r) + length (pTenantID r) + length (pAgentID r) + 8 + 8 +
     length (pEventType r) + 4 + length (pProcessName r) + length (pCmdline r) + 4 +
     length (pSHA256 r) + length (pDestIP r) + length (pSrcIP r) + length (pUserName r) +
     length (pHostname r) + length (pDataRaw r))"

definition uncompressedSize :: "TraceEventParquet list \<Rightarrow> int" where
  "uncompressedSize rs = foldl (\<lambda>s r. s + row_size r) 0 rs"

datatype codec = Snappy | Gzip | LZ4 | Brotli | Uncompressed | Zstd

definition parquetCompression :: "string \<Rightarrow> codec" where
  "parquetCompression c =
     (if c = ''snappy'' then Snappy else if c = ''gzip'' then Gzip
      else if c = ''lz4raw'' \<or> c = ''lz4'' then LZ4 else if c = ''brotli'' then Brotli
      else if c = ''uncompressed'' \<or> c = ''none'' then Uncompressed else Zstd)"

section \<open>S3 paths\<close>

definition IsS3Path :: "string \<Rightarrow> bool" where
  "IsS3Path path \<longleftrightarrow> HasPrefix path ''s3://''"

definition ParseS3Path :: "string \<Rightarrow> string \<times> string" where
  "ParseS3Path path =
     (case SplitN2 (CHR ''/'') (TrimPrefix path ''s3://'') of
        (b, Some k) \<Rightarrow> (b, k) | (b, None) \<Rightarrow> (b, []))"

section \<open>Writing a batch\<close>

record ParquetWriter =
  pwTempDir :: string
  pwOutputDir :: string
  pwS3 :: "string option"

record fsys =
  local_files :: "string \<rightharpoonup> TraceEventParquet list"
  s3_objects :: "string \<rightharpoonup> TraceEventParquet list"

datatype write_step = MkOutputDir | CreateTemp | WriteRows | CloseWriter | Fsync | HashTemp
  | StatTemp | RenameTemp | OpenUpload | Upload

record write_env =
  weNow :: int
  wePid :: int
  weTempDir :: string
  weHash8 :: "string \<Rightarrow> string"
  weSha :: "TraceEventParquet list \<Rightarrow> string"
  weSize :: "TraceEventParquet list \<Rightarrow> int"
  weFail :: "write_step \<Rightarrow> string option"

definition row_key :: "TraceEventParquet \<Rightarrow> string \<times> int" where
  "row_key r = (pAgentID r, pTimestampUs r)"

definition sorted_rows :: "json_enc \<Rightarrow> event list \<Rightarrow> TraceEventParquet list" where
  "sorted_rows enc events = sort_key row_key (map (eventToParquet enc) events)"

definition part_name :: "write_env \<Rightarrow> string \<Rightarrow> nat \<Rightarrow> string" where
  "part_name env partitionKey n =
     ''part-'' @ show_hex (nat (weNow env)) @ ''-'' @
     weHash8 env (show_int (weNow env) @ ''-'' @ show_int (wePid env) @ ''-'' @ partitionKey @ ''-'' @ show_nat n)
     @ ''.parquet''"

definition temp_path :: "write_env \<Rightarrow> ParquetWriter \<Rightarrow> string \<Rightarrow> string" where
  "temp_path env w name =
     filepath_Join [if pwTempDir w = [] \<or> IsS3Path (pwTempDir w) then weTempDir env else pwTempDir w, name]"

definition file_result :: "write_env \<Rightarrow> string \<Rightarrow> TraceEventParquet list \<Rightarrow> FileResult" where
  "file_result env path rows = \<lparr>frPath = path, frRowCount = int (length rows),
     frCompressedSize = weSize env rows, frUncompressedSize = uncompressedSize rows,
     frSHA256 = weSha env rows, frMinTimestampUs = pTimestampUs (hd rows),
     frMaxTimestampUs = pTimestampUs (last rows), frMinEventID = pID (hd rows),
     frMaxEventID = pID (last rows)\<rparr>"

text \<open>The steps that run on the temp file after it was created, in order, with the prefix of the
  error each reports; a failing step removes the temp file.\<close>

definition temp_steps :: "(write_step \<times> string) list" where
  "temp_steps = [(WriteRows, ''write: ''), (CloseWriter, ''close writer: ''), (Fsync, ''fsync: ''),
     (HashTemp, ''sha256: ''), (StatTemp, ''stat: ''), (RenameTemp, ''rename: '')]"

fun first_failure :: "(write_step \<Rightarrow> string option) \<Rightarrow> (write_step \<times> string) list \<Rightarrow> string option" where
  "first_failure fl [] = None"
| "first_failure fl ((st, pre) # rest) =
     (case fl st of Some e \<Rightarrow> Some (pre @ e) | None \<Rightarrow> first_failure fl rest)"

definition upload_s3 :: "write_env \<Rightarrow> ParquetWriter \<Rightarrow> string \<Rightarrow> TraceEventParquet list \<Rightarrow> fsys \<Rightarrow>
    FileResult result \<times> fsys" where
  "upload_s3 env w finalPath rows fs =
     (case pwS3 w of
        None \<Rightarrow> (Inr (file_result env finalPath rows), fs)
      | Some bucket \<Rightarrow>
        (let s3Key = TrimPrefix finalPath (pwOutputDir w @ ''/'') in
         case weFail env OpenUpload of Some e \<Rightarrow> (Inl (''open for s3 upload: '' @ e), fs)
         | None \<Rightarrow> (case weFail env Upload of Some e \<Rightarrow> (Inl (''s3 upload: '' @ e), fs)
           | None \<Rightarrow> (Inr ((file_result env finalPath rows)\<lparr>frPath := ''s3://'' @ bucket @ ''/'' @ s3Key\<rparr>),
                fs\<lparr>s3_objects := (s3_objects fs)(s3Key \<mapsto> rows)\<rparr>))))"

definition WriteBatch :: "json_enc \<Rightarrow> write_env \<Rightarrow> ParquetWriter \<Rightarrow> event list \<Rightarrow> string \<Rightarrow> fsys \<Rightarrow>
    FileResult result \<times> fsys" where
  "WriteBatch enc env w events partitionKey fs =
     (if events = [] then (Inl ''empty batch'', fs)
      else
        let rows = sorted_rows enc events;
            fileName = part_name env partitionKey (length rows);
            tempPath = temp_path env w fileName;
            finalPath = filepath_Join [pwOutputDir w, partitionKey, fileName]
        in case weFail env MkOutputDir of Some e \<Rightarrow> (Inl (''output dir: '' @ e), fs)
        | None \<Rightarrow>
          (if local_files fs tempPath \<noteq> None then (Inl ''create temp: file exists'', fs)
           else case weFail env CreateTemp of Some e \<Rightarrow> (Inl (''create temp: '' @ e), fs)
           | None \<Rightarrow>
             (let withTemp = (local_files fs)(tempPath \<mapsto> rows) in
              case first_failure (weFail env) temp_steps of
                Some e \<Rightarrow> (Inl e, fs\<lparr>local_files := withTemp(tempPath := None)\<rparr>)
              | None \<Rightarrow> upload_s3 env w finalPath rows
                  (fs\<lparr>local_files := (withTemp(tempPath := None))(finalPath \<mapsto> rows)\<rparr>))))"

section \<open>What a write leaves behind\<close>

lemma eventToParquet_sel [simp]:
  "pID (eventToParquet enc e) = ID e" "pTenantID (eventToParquet enc e) = TenantID e"
  "pAgentID (eventToParquet enc e) = AgentID e" "pTimestampUs (eventToParquet enc e) = Timestamp e"
  "pEventType (eventToParquet enc e) = EventType e"
  "pSeverity (eventToParquet enc e) = to_int32 (Severity e)"
  by (simp_all add: eventToParquet_def)

lemma sorted_rows_mset: "mset (sorted_rows enc events) = image_mset (eventToParquet enc) (mset events)"
  by (simp add: sorted_rows_def)

lemma length_sorted_rows [simp]: "length (sorted_rows enc events) = length events"
  by (simp add: sorted_rows_def)

lemma set_sorted_rows [simp]: "set (sorted_rows enc events) = eventToParquet enc ` set events"
  by (simp add: sorted_rows_def)

lemma sorted_rows_Nil_iff [simp]: "sorted_rows enc events = [] \<longleftrightarrow> events = []"
  by (metis length_0_conv length_sorted_rows)

text \<open>A failed write leaves the file system as it was, except that a failed upload leaves the
  local copy behind; a successful write adds the final file (and the object).\<close>

lemma WriteBatch_error:
  assumes "WriteBatch enc env w events key fs = (Inl e, fs')"
  shows "fs' = fs \<or> (pwS3 w \<noteq> None \<and> s3_objects fs' = s3_objects fs)"
  using assms
  by (auto simp: WriteBatch_def Let_def upload_s3_def fun_upd_idem split: if_splits option.splits)

lemma WriteBatch_ok:
  assumes "WriteBatch enc env w events key fs = (Inr r, fs')"
  defines "rows \<equiv> sorted_rows enc events"
  defines "path \<equiv> filepath_Join [pwOutputDir w, key, part_name env key (length rows)]"
  shows "events \<noteq> []" "local_files fs' path = Some rows"
    "r = (file_result env path rows)\<lparr>frPath := frPath r\<rparr>"
    "pwS3 w = None \<Longrightarrow> frPath r = path \<and> s3_objects fs' = s3_objects fs"
    "\<And>p. p \<noteq> path \<Longrightarrow> local_files fs' p = local_files fs p"
  using assms
  by (auto simp: WriteBatch_def Let_def upload_s3_def file_result_def split: if_splits option.splits)

text \<open>
  The recorded minimum and maximum are those of the first and the last row in
  \<open>(agent_id, ts)\<close> order.  For the rows of one agent they bound every timestamp of the file.
\<close>

lemma sorted_last_ge:
  assumes "sorted (map f xs)" "x \<in> set xs"
  shows "f x \<le> f (last xs)" "f (hd xs) \<le> (f x :: 'b::linorder)"
proof -
  have "f x \<le> f (last xs) \<and> f (hd xs) \<le> f x"
    using assms by (induction xs) (auto split: if_splits)
  then show "f x \<le> f (last xs)" "f (hd xs) \<le> f x" by auto
qed

lemma single_agent_bounds:
  assumes "\<forall>e\<in>set events. AgentID e = a" "e \<in> set events"
  shows "pTimestampUs (hd (sorted_rows enc events)) \<le> Timestamp e
     \<and> Timestamp e \<le> pTimestampUs (last (sorted_rows enc events))"
proof -
  let ?rows = "sorted_rows enc events"
  have ag: "pAgentID r = a" if "r \<in> set ?rows" for r
    using that assms(1) by auto
  have s: "sorted (map row_key ?rows)"
    unfolding sorted_rows_def by (rule sorted_sort_key)
  have r: "eventToParquet enc e \<in> set ?rows" using assms(2) by simp
  then have "?rows \<noteq> []" by (metis list.set(1) empty_iff)
  then have ends: "pAgentID (hd ?rows) = a" "pAgentID (last ?rows) = a" "AgentID e = a"
    using ag [OF hd_in_set] ag [OF last_in_set] assms by blast+
  have "row_key (eventToParquet enc e) \<le> row_key (last ?rows)"
    "row_key (hd ?rows) \<le> row_key (eventToParquet enc e)"
    using sorted_last_ge [OF s r] by auto
  then show ?thesis
    by (simp add: row_key_def ends)
qed

end
