(* ===== verification/Manifest_Store.thy ===== *)
theory Manifest_Store
  imports Storage_Types
begin

text \<open>
  \<open>internal/storage/manifest/manifest.go\<close>: the catalogue of committed Parquet files, the
  watermark row and the registry of hot tables.  The SQLite database is the record
  \<open>Manifest\<close>, one field per table with the rows in insertion order; every SQL statement of
  the source is an update or a query of that record.  A statement may fail in the driver, so
  each operation takes the driver's error for its statement (\<open>None\<close> when it succeeds), and
  an operation returns the error it reports together with the new state.
\<close>

section \<open>State\<close>

type_synonym fault = "string option"

record Manifest =
  schema_migrations :: "(int \<times> int) list"
  parquet_files :: "ParquetFileRecord list"
  watermark_row :: "Watermark option"
  hot_tables :: "HotTableRecord list"

text \<open>A database file that does not exist yet.\<close>

definition fresh_manifest :: Manifest where
  "fresh_manifest = \<lparr>schema_migrations = [], parquet_files = [], watermark_row = None, hot_tables = []\<rparr>"

section \<open>Opening and migrating\<close>

text \<open>Statements run one after the other, each committed on its own; the first failing one stops
  the sequence.  Statement number \<open>i\<close> fails with \<open>flt i\<close>.\<close>

fun exec_all :: "(nat \<Rightarrow> fault) \<Rightarrow> nat \<Rightarrow> ('s \<Rightarrow> 's) list \<Rightarrow> 's \<Rightarrow> string option \<times> 's" where
  "exec_all flt i [] s = (None, s)"
| "exec_all flt i (f # fs) s =
     (case flt i of Some e \<Rightarrow> (Some e, s) | None \<Rightarrow> exec_all flt (Suc i) fs (f s))"

definition insert_or_ignore_watermark :: "Manifest \<Rightarrow> Manifest" where
  "insert_or_ignore_watermark m =
     (case watermark_row m of
        None \<Rightarrow> m\<lparr>watermark_row := Some \<lparr>LastID = [], LastTS = 0, wmUpdatedAt = 0\<rparr>\<rparr>
      | Some _ \<Rightarrow> m)"

text \<open>The statements of migration 1: the two table and index definitions that leave the rows of
  existing tables alone, the watermark table and its only row, the hot table registry.\<close>

definition migration1 :: "(Manifest \<Rightarrow> Manifest) list" where
  "migration1 = [id, id, id, id, insert_or_ignore_watermark, id]"

definition migrate :: "int \<Rightarrow> (nat \<Rightarrow> fault) \<Rightarrow> Manifest \<Rightarrow> string option \<times> Manifest" where
  "migrate now flt m =
     (case flt 0 of Some e \<Rightarrow> (Some (''migrate bootstrap: '' @ e), m)
      | None \<Rightarrow>
     (case flt 1 of Some e \<Rightarrow> (Some (''migrate check v1: '' @ e), m)
      | None \<Rightarrow>
        if 1 \<in> fst ` set (schema_migrations m) then (None, m)
        else (case exec_all flt 2 migration1 m of
            (Some e, m') \<Rightarrow> (Some (''migrate v1: '' @ e), m')
          | (None, m') \<Rightarrow>
            (case flt 8 of Some e \<Rightarrow> (Some (''migrate record v1: '' @ e), m')
             | None \<Rightarrow> (None, m'\<lparr>schema_migrations := schema_migrations m' @ [(1, now)]\<rparr>)))))"

definition NewManifest :: "fault \<Rightarrow> fault \<Rightarrow> (nat \<Rightarrow> fault) \<Rightarrow> int \<Rightarrow> (nat \<Rightarrow> fault) \<Rightarrow> Manifest \<Rightarrow>
    string option \<times> Manifest" where
  "NewManifest mkdir_flt open_flt pragma_flt now flt m =
     (case mkdir_flt of Some e \<Rightarrow> (Some (''manifest dir: '' @ e), m)
      | None \<Rightarrow>
     (case open_flt of Some e \<Rightarrow> (Some (''manifest open: '' @ e), m)
      | None \<Rightarrow>
     (case exec_all pragma_flt 0 [id, id, id] m of
        (Some e, m') \<Rightarrow> (Some (''manifest pragma: '' @ e), m')
      | (None, m') \<Rightarrow>
     (case migrate now flt m' of
        (Some e, m'') \<Rightarrow> (Some (''manifest migrate: '' @ e), m'')
      | (None, m'') \<Rightarrow> (None, m'')))))"

section \<open>Files\<close>

text \<open>\<open>INSERT INTO parquet_files\<close> with the constraints \<open>file_id PRIMARY KEY\<close> and \<open>path UNIQUE\<close>;
  the status column is the literal \<open>committed\<close>.\<close>

definition insert_file :: "ParquetFileRecord \<Rightarrow> Manifest \<Rightarrow> string option \<times> Manifest" where
  "insert_file f m =
     (if pfFileID f \<in> pfFileID ` set (parquet_files m)
      then (Some ''UNIQUE constraint failed: parquet_files.file_id'', m)
      else if pfPath f \<in> pfPath ` set (parquet_files m)
      then (Some ''UNIQUE constraint failed: parquet_files.path'', m)
      else (None, m\<lparr>parquet_files := parquet_files m @ [f\<lparr>pfStatus := ''committed''\<rparr>]\<rparr>))"

definition AddFile :: "fault \<Rightarrow> ParquetFileRecord \<Rightarrow> Manifest \<Rightarrow> string option \<times> Manifest" where
  "AddFile flt f m = (case flt of Some e \<Rightarrow> (Some e, m) | None \<Rightarrow> insert_file f m)"

definition AddFileTx :: "fault \<Rightarrow> ParquetFileRecord \<Rightarrow> Manifest \<Rightarrow> string option \<times> Manifest" where
  "AddFileTx flt f m = (case flt of Some e \<Rightarrow> (Some e, m) | None \<Rightarrow> insert_file f m)"

definition set_file_status :: "int \<Rightarrow> string \<Rightarrow> string \<Rightarrow> Manifest \<Rightarrow> Manifest" where
  "set_file_status now fid st m =
     m\<lparr>parquet_files := map (\<lambda>f. if pfFileID f = fid then f\<lparr>pfStatus := st, pfUpdatedAt := now\<rparr> else f)
        (parquet_files m)\<rparr>"

definition UpdateFileStatus :: "fault \<Rightarrow> int \<Rightarrow> string \<Rightarrow> string \<Rightarrow> Manifest \<Rightarrow> string option \<times> Manifest" where
  "UpdateFileStatus flt now fid st m =
     (case flt of Some e \<Rightarrow> (Some e, m) | None \<Rightarrow> (None, set_file_status now fid st m))"

definition UpdateFileStatusTx :: "fault \<Rightarrow> int \<Rightarrow> string \<Rightarrow> string \<Rightarrow> Manifest \<Rightarrow> string option \<times> Manifest" where
  "UpdateFileStatusTx flt now fid st m =
     (case flt of Some e \<Rightarrow> (Some e, m) | None \<Rightarrow> (None, set_file_status now fid st m))"

definition file_info :: "ParquetFileRecord \<Rightarrow> FileInfo" where
  "file_info f = \<lparr>fiPath = pfPath f, fiFileID = pfFileID f, fiStatus = pfStatus f, fiLevel = pfLevel f,
     fiTenantID = pfTenantID f, fiMinTS = pfMinTimestampUs f, fiMaxTS = pfMaxTimestampUs f\<rparr>"

text \<open>The \<open>WHERE\<close> clause that \<open>FilesFor\<close> builds.\<close>

definition files_where :: "string \<Rightarrow> int \<Rightarrow> int \<Rightarrow> string \<Rightarrow> ParquetFileRecord \<Rightarrow> bool" where
  "files_where tenantID sinceUs untilUs status f \<longleftrightarrow>
     (tenantID \<noteq> [] \<longrightarrow> pfTenantID f = tenantID) \<and>
     (sinceUs > 0 \<longrightarrow> pfMaxTimestampUs f \<ge> sinceUs) \<and>
     (untilUs > 0 \<longrightarrow> pfMinTimestampUs f \<le> untilUs) \<and>
     (if status \<noteq> [] then pfStatus f = status else pfStatus f = ''committed'')"

definition FilesFor :: "fault \<Rightarrow> string \<Rightarrow> int \<Rightarrow> int \<Rightarrow> string \<Rightarrow> Manifest \<Rightarrow> FileInfo list result" where
  "FilesFor flt tenantID sinceUs untilUs status m =
     (case flt of Some e \<Rightarrow> Inl (''files for: '' @ e)
      | None \<Rightarrow> Inr (map file_info (sort_key pfMinTimestampUs
          (filter (files_where tenantID sinceUs untilUs status) (parquet_files m)))))"

section \<open>Watermark\<close>

definition set_watermark :: "int \<Rightarrow> string \<Rightarrow> int \<Rightarrow> Manifest \<Rightarrow> Manifest" where
  "set_watermark now lastID lastTS m =
     m\<lparr>watermark_row := map_option (\<lambda>_. \<lparr>LastID = lastID, LastTS = lastTS, wmUpdatedAt = now\<rparr>)
        (watermark_row m)\<rparr>"

definition UpdateWatermarkTx :: "fault \<Rightarrow> int \<Rightarrow> string \<Rightarrow> int \<Rightarrow> Manifest \<Rightarrow> string option \<times> Manifest" where
  "UpdateWatermarkTx flt now lastID lastTS m =
     (case flt of Some e \<Rightarrow> (Some e, m) | None \<Rightarrow> (None, set_watermark now lastID lastTS m))"

definition UpdateWatermark :: "fault \<Rightarrow> int \<Rightarrow> string \<Rightarrow> int \<Rightarrow> Manifest \<Rightarrow> string option \<times> Manifest" where
  "UpdateWatermark flt now lastID lastTS m =
     (case flt of Some e \<Rightarrow> (Some e, m) | None \<Rightarrow> (None, set_watermark now lastID lastTS m))"

definition get_watermark :: "fault \<Rightarrow> Manifest \<Rightarrow> Watermark result" where
  "get_watermark flt m =
     (case flt of Some e \<Rightarrow> Inl (''watermark: '' @ e)
      | None \<Rightarrow> (case watermark_row m of
          None \<Rightarrow> Inl ''watermark: sql: no rows in result set''
        | Some w \<Rightarrow> Inr w))"

section \<open>Hot tables\<close>

definition RegisterHotTable :: "fault \<Rightarrow> string \<Rightarrow> int \<Rightarrow> Manifest \<Rightarrow> string option \<times> Manifest" where
  "RegisterHotTable flt t hourStart m =
     (case flt of Some e \<Rightarrow> (Some e, m)
      | None \<Rightarrow> (None, if t \<in> htTableName ` set (hot_tables m) then m
          else m\<lparr>hot_tables := hot_tables m @ [\<lparr>htTableName = t, htHourStart = hourStart, htStatus = ''active''\<rparr>]\<rparr>))"

definition set_hot_status :: "string \<Rightarrow> string \<Rightarrow> Manifest \<Rightarrow> Manifest" where
  "set_hot_status t st m =
     m\<lparr>hot_tables := map (\<lambda>h. if htTableName h = t then h\<lparr>htStatus := st\<rparr> else h) (hot_tables m)\<rparr>"

definition MarkHotTableFlushed :: "fault \<Rightarrow> string \<Rightarrow> Manifest \<Rightarrow> string option \<times> Manifest" where
  "MarkHotTableFlushed flt t m =
     (case flt of Some e \<Rightarrow> (Some e, m) | None \<Rightarrow> (None, set_hot_status t ''flushed'' m))"

definition DropHotTable :: "fault \<Rightarrow> string \<Rightarrow> Manifest \<Rightarrow> string option \<times> Manifest" where
  "DropHotTable flt t m =
     (case flt of Some e \<Rightarrow> (Some e, m) | None \<Rightarrow> (None, set_hot_status t ''dropped'' m))"

section \<open>Transactions\<close>

text \<open>\<open>fn\<close> works on the transaction's view; an error of \<open>fn\<close> or of the commit leaves the
  database as it was (the deferred rollback).\<close>

definition Transaction :: "fault \<Rightarrow> fault \<Rightarrow> (Manifest \<Rightarrow> string option \<times> Manifest) \<Rightarrow> Manifest \<Rightarrow>
    string option \<times> Manifest" where
  "Transaction begin_flt commit_flt fn m =
     (case begin_flt of Some e \<Rightarrow> (Some (''manifest tx begin: '' @ e), m)
      | None \<Rightarrow> (case fn m of
          (Some e, _) \<Rightarrow> (Some e, m)
        | (None, m') \<Rightarrow> (case commit_flt of Some e \<Rightarrow> (Some e, m) | None \<Rightarrow> (None, m'))))"

section \<open>Orphan collection\<close>

definition filepath_Ext :: "string \<Rightarrow> string" where
  "filepath_Ext s =
     (let base = rev (takeWhile (\<lambda>c. c \<noteq> CHR ''/'') (rev s)) in
      case LastIndexByte base (CHR ''.'') of None \<Rightarrow> [] | Some i \<Rightarrow> drop i base)"

definition tracked :: "Manifest \<Rightarrow> string \<Rightarrow> bool" where
  "tracked m path \<longleftrightarrow> (\<exists>f\<in>set (parquet_files m). pfPath f = path \<and>
     pfStatus f \<in> {''committed'', ''superseded'', ''expired''})"

text \<open>
  \<open>disk\<close> lists the files below the data directory.  The error of the counting query is ignored
  by the source, which leaves \<open>count\<close> at 0: \<open>qflt path\<close> says that the query for that path
  failed, \<open>rmflt path\<close> that the file could not be removed.  The result is what is left on disk.
\<close>

definition OrphanGC :: "(string \<Rightarrow> bool) \<Rightarrow> (string \<Rightarrow> bool) \<Rightarrow> string list \<Rightarrow> Manifest \<Rightarrow> string list" where
  "OrphanGC qflt rmflt disk m =
     (let onDisk = filter (\<lambda>p. filepath_Ext p = ''.parquet'') disk;
          orphans = filter (\<lambda>p. qflt p \<or> \<not> tracked m p) onDisk
      in filter (\<lambda>p. p \<notin> set orphans \<or> rmflt p) disk)"

section \<open>Invariant\<close>

definition manifest_wf :: "Manifest \<Rightarrow> bool" where
  "manifest_wf m \<longleftrightarrow> distinct (map pfFileID (parquet_files m)) \<and>
     distinct (map pfPath (parquet_files m)) \<and> distinct (map htTableName (hot_tables m)) \<and>
     watermark_row m \<noteq> None"

lemmas manifest_op_defs = AddFile_def AddFileTx_def UpdateFileStatus_def UpdateFileStatusTx_def
  UpdateWatermark_def UpdateWatermarkTx_def RegisterHotTable_def MarkHotTableFlushed_def DropHotTable_def

lemma set_file_status_keys [simp]:
  "map pfFileID (parquet_files (set_file_status now fid st m)) = map pfFileID (parquet_files m)"
  "map pfPath (parquet_files (set_file_status now fid st m)) = map pfPath (parquet_files m)"
  "hot_tables (set_file_status now fid st m) = hot_tables m"
  "watermark_row (set_file_status now fid st m) = watermark_row m"
  by (auto simp: set_file_status_def)

lemma set_hot_status_frame [simp]:
  "map htTableName (hot_tables (set_hot_status t st m)) = map htTableName (hot_tables m)"
  "parquet_files (set_hot_status t st m) = parquet_files m"
  "watermark_row (set_hot_status t st m) = watermark_row m"
  by (auto simp: set_hot_status_def)

lemma set_watermark_frame [simp]:
  "parquet_files (set_watermark now i ts m) = parquet_files m"
  "hot_tables (set_watermark now i ts m) = hot_tables m"
  by (simp_all add: set_watermark_def)

lemma insert_file_wf [inv_intros]: "manifest_wf m \<Longrightarrow> manifest_wf (snd (insert_file f m))"
  by (auto simp: insert_file_def manifest_wf_def)

lemma set_file_status_wf [inv_intros]: "manifest_wf m \<Longrightarrow> manifest_wf (set_file_status now fid st m)"
  by (simp add: manifest_wf_def)

lemma set_watermark_wf [inv_intros]: "manifest_wf m \<Longrightarrow> manifest_wf (set_watermark now i ts m)"
  by (simp add: manifest_wf_def) (simp add: set_watermark_def)

lemma set_hot_status_wf [inv_intros]: "manifest_wf m \<Longrightarrow> manifest_wf (set_hot_status t st m)"
  by (simp add: manifest_wf_def)

lemma AddFileTx_wf [inv_intros]: "manifest_wf m \<Longrightarrow> manifest_wf (snd (AddFileTx flt f m))"
  by (simp add: AddFileTx_def insert_file_wf split: option.splits)

lemma Transaction_wf [inv_intros]:
  assumes "manifest_wf m" "\<And>m'. manifest_wf m' \<Longrightarrow> manifest_wf (snd (fn m'))"
  shows "manifest_wf (snd (Transaction b c fn m))"
  using assms(1) assms(2) [of m]
  by (auto simp: Transaction_def split: option.splits prod.splits)

lemma Transaction_error: "Transaction b c fn m = (Some e, m') \<Longrightarrow> m' = m"
  by (auto simp: Transaction_def split: option.splits prod.splits)

lemma Transaction_ok: "Transaction b c fn m = (None, m') \<Longrightarrow> fn m = (None, m')"
  by (auto simp: Transaction_def split: option.splits prod.splits)

lemma FilesFor_mem:
  assumes "FilesFor flt ten since until st m = Inr fs"
  shows "fi \<in> set fs \<longleftrightarrow> (\<exists>f\<in>set (parquet_files m). files_where ten since until st f \<and> fi = file_info f)"
  using assms by (auto simp: FilesFor_def split: option.splits)

lemma FilesFor_sorted:
  assumes "FilesFor flt ten since until st m = Inr fs"
  shows "sorted (map fiMinTS fs)"
proof -
  have "fs = map file_info (sort_key pfMinTimestampUs (filter (files_where ten since until st) (parquet_files m)))"
    using assms by (simp add: FilesFor_def split: option.splits)
  moreover have "fiMinTS \<circ> file_info = pfMinTimestampUs" by (auto simp: file_info_def)
  ultimately show ?thesis by (simp add: sorted_sort_key)
qed

section \<open>Status updates as an interface\<close>

text \<open>
  The compactor, the garbage collector and the TTL manager change files only through status
  updates by file identifier.  The contract of such an update, and what a loop of updates does.
\<close>

locale status_catalog =
  fixes status_of :: "'m \<Rightarrow> string \<Rightarrow> string option"
    and set_status :: "string \<Rightarrow> string \<Rightarrow> 'm \<Rightarrow> 'm"
  assumes status_set:
    "status_of (set_status i st m) j = (if j = i then map_option (\<lambda>_. st) (status_of m j) else status_of m j)"
begin

lemma status_fold:
  "status_of (foldl (\<lambda>m i. set_status i st m) m is) j =
     (if j \<in> set is then map_option (\<lambda>_. st) (status_of m j) else status_of m j)"
  by (induction "is" arbitrary: m) (auto simp: status_set option.map_comp comp_def)

lemma status_fold_known:
  "status_of (foldl (\<lambda>m i. set_status i st m) m is) j = None \<longleftrightarrow> status_of m j = None"
  by (simp add: status_fold)

end

definition status_of :: "Manifest \<Rightarrow> string \<Rightarrow> string option" where
  "status_of m = map_of (map (\<lambda>f. (pfFileID f, pfStatus f)) (parquet_files m))"

lemma map_of_set_status:
  "map_of (map (\<lambda>f. (pfFileID f, pfStatus f))
      (map (\<lambda>f. if pfFileID f = i then f\<lparr>pfStatus := st, pfUpdatedAt := now\<rparr> else f) fs)) j =
   (if j = i then map_option (\<lambda>_. st) (map_of (map (\<lambda>f. (pfFileID f, pfStatus f)) fs) j)
    else map_of (map (\<lambda>f. (pfFileID f, pfStatus f)) fs) j)"
  by (induction fs) auto

interpretation mcat: status_catalog status_of "set_file_status now" for now
  by unfold_locales (simp add: status_of_def set_file_status_def map_of_set_status del: map_map)

lemma status_of_iff:
  assumes "manifest_wf m"
  shows "status_of m i = Some st \<longleftrightarrow> (\<exists>f\<in>set (parquet_files m). pfFileID f = i \<and> pfStatus f = st)"
proof -
  have "distinct (map fst (map (\<lambda>f. (pfFileID f, pfStatus f)) (parquet_files m)))"
    using assms by (simp add: manifest_wf_def comp_def)
  then have "status_of m i = Some st \<longleftrightarrow>
      (i, st) \<in> set (map (\<lambda>f. (pfFileID f, pfStatus f)) (parquet_files m))"
    unfolding status_of_def by (rule map_of_eq_Some_iff)
  then show ?thesis by auto
qed

section \<open>Reachable manifests\<close>

text \<open>The operations that run inside a transaction; a sequence of them stops at its first error.\<close>

datatype tx_op =
    TxAddFile fault ParquetFileRecord
  | TxStatus fault int string string
  | TxWatermark fault int string int

fun tx_step :: "tx_op \<Rightarrow> Manifest \<Rightarrow> string option \<times> Manifest" where
  "tx_step (TxAddFile flt f) m = AddFileTx flt f m"
| "tx_step (TxStatus flt now fid st) m = UpdateFileStatusTx flt now fid st m"
| "tx_step (TxWatermark flt now i ts) m = UpdateWatermarkTx flt now i ts m"

fun tx_run :: "tx_op list \<Rightarrow> Manifest \<Rightarrow> string option \<times> Manifest" where
  "tx_run [] m = (None, m)"
| "tx_run (x # xs) m = (case tx_step x m of (Some e, m') \<Rightarrow> (Some e, m') | (None, m') \<Rightarrow> tx_run xs m')"

text \<open>Everything that can happen to a manifest after it was opened: any operation, with any
  driver errors, in any order.\<close>

inductive manifest_step :: "Manifest \<Rightarrow> Manifest \<Rightarrow> bool" where
  add: "manifest_step m (snd (AddFile flt f m))"
| status: "manifest_step m (snd (UpdateFileStatus flt now fid st m))"
| watermark: "manifest_step m (snd (UpdateWatermark flt now i ts m))"
| register: "manifest_step m (snd (RegisterHotTable flt t h m))"
| mark: "manifest_step m (snd (MarkHotTableFlushed flt t m))"
| drop: "manifest_step m (snd (DropHotTable flt t m))"
| tx: "manifest_step m (snd (Transaction b c (tx_run ops) m))"
| reopen: "manifest_step m (snd (NewManifest mk op prag now flt m))"

inductive manifest_reachable :: "Manifest \<Rightarrow> bool" where
  opened: "NewManifest mk op prag now flt fresh_manifest = (None, m) \<Longrightarrow> manifest_reachable m"
| step: "manifest_reachable m \<Longrightarrow> manifest_step m m' \<Longrightarrow> manifest_reachable m'"

lemma tx_step_wf [inv_intros]: "manifest_wf m \<Longrightarrow> manifest_wf (snd (tx_step x m))"
  by (cases x) (auto simp: AddFileTx_def UpdateFileStatusTx_def UpdateWatermarkTx_def
      intro: inv_intros split: option.splits)

lemma tx_run_wf [inv_intros]: "manifest_wf m \<Longrightarrow> manifest_wf (snd (tx_run xs m))"
proof (induction xs arbitrary: m)
  case (Cons x xs)
  from tx_step_wf [OF Cons.prems, of x] show ?case
    using Cons.IH by (auto split: option.splits prod.splits)
qed simp

lemma exec_all_wf:
  assumes "\<And>f m. f \<in> set fs \<Longrightarrow> manifest_wf m \<Longrightarrow> manifest_wf (f m)" "manifest_wf m"
  shows "manifest_wf (snd (exec_all flt i fs m))"
  using assms by (induction flt i fs m rule: exec_all.induct) (auto split: option.splits)

lemma insert_or_ignore_watermark_wf: "manifest_wf m \<Longrightarrow> insert_or_ignore_watermark m = m"
  by (auto simp: insert_or_ignore_watermark_def manifest_wf_def)

lemma migrate_wf [inv_intros]:
  assumes "manifest_wf m"
  shows "manifest_wf (snd (migrate now flt m))"
proof -
  have "manifest_wf (snd (exec_all flt 2 migration1 m))"
    by (rule exec_all_wf) (auto simp: migration1_def insert_or_ignore_watermark_wf assms)
  then show ?thesis using assms
    by (auto simp: migrate_def manifest_wf_def split: option.splits prod.splits)
qed

lemma NewManifest_wf [inv_intros]:
  assumes "manifest_wf m"
  shows "manifest_wf (snd (NewManifest mk op prag now flt m))"
proof -
  have "manifest_wf (snd (exec_all prag 0 [id, id, id] m))"
    by (rule exec_all_wf) (auto simp: assms)
  then show ?thesis using assms migrate_wf
    by (auto simp: NewManifest_def split: option.splits prod.splits) (metis snd_conv)+
qed

lemma manifest_step_wf:
  assumes "manifest_step m m'" "manifest_wf m"
  shows "manifest_wf m'"
  using assms
proof (induction rule: manifest_step.induct)
  case (register m flt t h)
  then show ?case
    by (auto simp: RegisterHotTable_def manifest_wf_def split: option.splits)
qed (auto simp: AddFile_def UpdateFileStatus_def UpdateWatermark_def
    MarkHotTableFlushed_def DropHotTable_def intro: inv_intros split: option.splits)

lemma opened_wf:
  assumes "NewManifest mk op prag now flt fresh_manifest = (None, m)"
  shows "manifest_wf m"
proof -
  have "snd (exec_all prag 0 [id, id, id] m0) = m0" for m0 :: Manifest
    by (auto split: option.splits)
  moreover have "exec_all flt 2 migration1 fresh_manifest = (None, m0) \<Longrightarrow> manifest_wf m0" for m0
    by (auto simp: migration1_def fresh_manifest_def insert_or_ignore_watermark_def manifest_wf_def
        numeral_2_eq_2 split: option.splits)
  ultimately show ?thesis using assms
    by (auto simp: NewManifest_def migrate_def fresh_manifest_def manifest_wf_def
        split: option.splits prod.splits if_splits)
qed

end
