(* ===== verification/Hot_Store.thy ===== *)
theory Hot_Store
  imports Disk_Gate Parquet_Writer Manifest_Store
begin

text \<open>
  \<open>internal/storage/sqlite/hot_store.go\<close>: the hourly tables of the hot tier.  The database is an
  association list from table names to rows; every statement is an operation on it, with the
  driver's error as an input.  Table names carry the hour of the event in the local zone of the
  host (\<open>zone\<close>), while pruning reads them back as UTC.  The format \<open>edr_events_%s\<close> is kept as
  its prefix.
\<close>

section \<open>Rows\<close>

record hot_row =
  cId :: string
  cTenant :: string
  cAgent :: string
  cTs :: int
  cIngested :: int
  cType :: string
  cSeverity :: int
  cProcess :: "string option"
  cCmdline :: "string option"
  cParent :: "int option"
  cSha :: "string option"
  cDest :: "string option"
  cSrc :: "string option"
  cUser :: "string option"
  cHost :: "string option"
  cData :: string
  cAnnotations :: "string option"

definition nullableString :: "string \<Rightarrow> string option" where
  "nullableString s = (if s = [] then None else Some s)"

definition nullableInt :: "int \<Rightarrow> int option" where
  "nullableInt i = (if i = 0 then None else Some i)"

definition annotationsJSON :: "json_enc \<Rightarrow> event \<Rightarrow> string" where
  "annotationsJSON enc e = (if Annotations e = [] then [] else enc (Annotations e))"

definition to_row :: "json_enc \<Rightarrow> event \<Rightarrow> hot_row" where
  "to_row enc e = \<lparr>cId = ID e, cTenant = TenantID e, cAgent = AgentID e, cTs = Timestamp e,
     cIngested = IngestedAt e, cType = EventType e, cSeverity = Severity e,
     cProcess = nullableString (ProcessName e), cCmdline = nullableString (Cmdline e),
     cParent = nullableInt (ParentPID e), cSha = nullableString (SHA256 e),
     cDest = nullableString (DestIP e), cSrc = nullableString (SrcIP e),
     cUser = nullableString (UserName e), cHost = nullableString (Hostname e), cData = DataRaw e,
     cAnnotations = nullableString (annotationsJSON enc e)\<rparr>"

text \<open>\<open>sql.NullString.String\<close> is empty for NULL.\<close>

definition null_str :: "string option \<Rightarrow> string" where
  "null_str s = (case s of None \<Rightarrow> [] | Some v \<Rightarrow> v)"

definition scan_row :: "(string \<Rightarrow> annotations option) \<Rightarrow> hot_row \<Rightarrow> event" where
  "scan_row dec r = \<lparr>ID = cId r, TenantID = cTenant r, AgentID = cAgent r, Timestamp = cTs r,
     IngestedAt = cIngested r, EventType = cType r, Severity = cSeverity r,
     ProcessName = null_str (cProcess r), Cmdline = null_str (cCmdline r),
     ParentPID = (case cParent r of None \<Rightarrow> 0 | Some i \<Rightarrow> i), SHA256 = null_str (cSha r),
     DestIP = null_str (cDest r), SrcIP = null_str (cSrc r), UserName = null_str (cUser r),
     Hostname = null_str (cHost r), DataRaw = cData r,
     Annotations = (case cAnnotations r of None \<Rightarrow> []
       | Some a \<Rightarrow> if a = [] then []
                   else case dec a of None \<Rightarrow> [] | Some m \<Rightarrow> m)\<rparr>"

section \<open>The store\<close>

record HotStore =
  hsTables :: "(string \<times> hot_row list) list"
  liveTables :: "string list"
  ensured :: "string list"

definition table_stem :: string where
  "table_stem = ''edr_events_''"

definition hourlyTableName :: "(int \<Rightarrow> int) \<Rightarrow> int \<Rightarrow> string" where
  "hourlyTableName zone tsUs = table_stem @ format_hour zone tsUs"

text \<open>SQL \<open>LIKE\<close>: \<open>%\<close> matches any sequence, \<open>_\<close> any character, letters in either case.\<close>

fun sql_like :: "string \<Rightarrow> string \<Rightarrow> bool" where
  "sql_like [] s = (s = [])"
| "sql_like (p # ps) [] = (p = CHR ''%'' \<and> sql_like ps [])"
| "sql_like (p # ps) (c # cs) =
     (if p = CHR ''%'' then sql_like ps (c # cs) \<or> sql_like (p # ps) cs
      else if p = CHR ''_'' then sql_like ps cs
      else lower_char p = lower_char c \<and> sql_like ps cs)"

definition refreshLiveTables :: "fault \<Rightarrow> HotStore \<Rightarrow> string option \<times> HotStore" where
  "refreshLiveTables flt s =
     (case flt of Some e \<Rightarrow> (Some e, s)
      | None \<Rightarrow> (None, s\<lparr>liveTables :=
          sort (filter (sql_like ''edr_events_%'') (map fst (hsTables s)))\<rparr>))"

text \<open>Opening: the table contents are those of the database file.\<close>

definition NewSQLiteHotStore :: "fault \<Rightarrow> fault \<Rightarrow> (nat \<Rightarrow> fault) \<Rightarrow> fault \<Rightarrow>
    (string \<times> hot_row list) list \<Rightarrow> HotStore result" where
  "NewSQLiteHotStore mkdir_flt open_flt pragma_flt live_flt db =
     (case mkdir_flt of Some e \<Rightarrow> Inl (''hot store dir: '' @ e)
      | None \<Rightarrow>
     (case open_flt of Some e \<Rightarrow> Inl (''hot store open: '' @ e)
      | None \<Rightarrow>
     (case fst (exec_all pragma_flt 0 (replicate 5 id) ()) of
        Some e \<Rightarrow> Inl (''hot store pragma: '' @ e)
      | None \<Rightarrow>
     (case refreshLiveTables live_flt \<lparr>hsTables = db, liveTables = [], ensured = []\<rparr> of
        (Some e, _) \<Rightarrow> Inl (''hot store live tables: '' @ e)
      | (None, s) \<Rightarrow> Inr s))))"

section \<open>Creating tables\<close>

record ddl_env =
  ddlCreate :: "string \<Rightarrow> fault"
  ddlAlter :: "string \<Rightarrow> fault"
  ddlIndex :: "string \<Rightarrow> nat \<Rightarrow> fault"

definition create_table :: "string \<Rightarrow> HotStore \<Rightarrow> HotStore" where
  "create_table t s =
     (if t \<in> fst ` set (hsTables s) then s else s\<lparr>hsTables := hsTables s @ [(t, [])]\<rparr>)"

text \<open>The part of \<open>ensureTable\<close> after the DDL: the table is marked as ensured, then the three
  indexes are created, and only then is it added to the live tables.\<close>

definition ensure_rest :: "ddl_env \<Rightarrow> string \<Rightarrow> HotStore \<Rightarrow> string option \<times> HotStore" where
  "ensure_rest d t s =
     (let s1 = s\<lparr>ensured := t # ensured s\<rparr> in
      case fst (exec_all (ddlIndex d t) 0 (replicate 3 id) ()) of
        Some e \<Rightarrow> (Some e, s1)
      | None \<Rightarrow> (None, if t \<in> set (liveTables s1) then s1 else s1\<lparr>liveTables := liveTables s1 @ [t]\<rparr>))"

definition ensureTable :: "ddl_env \<Rightarrow> string \<Rightarrow> HotStore \<Rightarrow> string option \<times> HotStore" where
  "ensureTable d t s =
     (if t \<in> set (ensured s) then (None, s)
      else case ddlCreate d t of Some e \<Rightarrow> (Some e, s)
      | None \<Rightarrow>
        (let s1 = create_table t s in
         case ddlAlter d t of
           Some e \<Rightarrow> if Contains e ''duplicate column'' then ensure_rest d t s1 else (Some e, s1)
         | None \<Rightarrow> ensure_rest d t s1))"

fun ensure_all :: "ddl_env \<Rightarrow> string list \<Rightarrow> HotStore \<Rightarrow> string option \<times> HotStore" where
  "ensure_all d [] s = (None, s)"
| "ensure_all d (t # ts) s =
     (case ensureTable d t s of
        (Some e, s') \<Rightarrow> (Some (''ensure table: '' @ e), s')
      | (None, s') \<Rightarrow> ensure_all d ts s')"

text \<open>Dropping a table forgets it as a live table; the set of ensured tables is left alone.\<close>

definition DropTable :: "fault \<Rightarrow> string \<Rightarrow> HotStore \<Rightarrow> string option \<times> HotStore" where
  "DropTable flt t s =
     (case flt of Some e \<Rightarrow> (Some (''drop table '' @ t @ '': '' @ e), s)
      | None \<Rightarrow> (None, s\<lparr>hsTables := filter (\<lambda>(n, _). n \<noteq> t) (hsTables s),
          liveTables := filter (\<lambda>n. n \<noteq> t) (liveTables s)\<rparr>))"

definition LiveTables :: "HotStore \<Rightarrow> string list" where
  "LiveTables s = liveTables s"

section \<open>Writing a batch\<close>

type_synonym tables = "(string \<times> hot_row list) list"

definition insert_row :: "hot_row list \<Rightarrow> hot_row \<Rightarrow> hot_row list" where
  "insert_row rows r = (if cId r \<in> cId ` set rows then rows else rows @ [r])"

definition insert_rows :: "hot_row list \<Rightarrow> hot_row list \<Rightarrow> hot_row list" where
  "insert_rows rows new = foldl insert_row rows new"

definition upd_table :: "string \<Rightarrow> (hot_row list \<Rightarrow> hot_row list) \<Rightarrow> tables \<Rightarrow> tables" where
  "upd_table t f tabs = map (\<lambda>(n, rows). if n = t then (n, f rows) else (n, rows)) tabs"

definition insertChunkTx :: "json_enc \<Rightarrow> fault \<Rightarrow> string \<Rightarrow> event list \<Rightarrow> tables \<Rightarrow> string option \<times> tables" where
  "insertChunkTx enc flt t evs tabs =
     (case flt of Some e \<Rightarrow> (Some (''multi-row insert: '' @ e), tabs)
      | None \<Rightarrow>
        if t \<notin> fst ` set tabs then (Some (''multi-row insert: no such table: '' @ t), tabs)
        else (None, upd_table t (\<lambda>rows. insert_rows rows (map (to_row enc) evs)) tabs))"

text \<open>\<open>maxVars / varsPerEvent\<close> is \<open>999 / 17\<close>.\<close>

definition maxEventBatch :: nat where "maxEventBatch = 58"

function chunks :: "nat \<Rightarrow> 'a list \<Rightarrow> 'a list list" where
  "chunks n xs = (if xs = [] \<or> n = 0 then [] else take n xs # chunks n (drop n xs))"
  by pat_completeness auto
termination
  by (relation "measure (\<lambda>(n, xs). length xs)") auto

declare chunks.simps [simp del]

fun insert_chunks :: "json_enc \<Rightarrow> (nat \<Rightarrow> fault) \<Rightarrow> string \<Rightarrow> nat \<Rightarrow> event list list \<Rightarrow> tables \<Rightarrow>
    string option \<times> tables" where
  "insert_chunks enc flt t i [] tabs = (None, tabs)"
| "insert_chunks enc flt t i (c # cs) tabs =
     (case insertChunkTx enc (flt i) t c tabs of
        (Some e, tabs') \<Rightarrow> (Some e, tabs')
      | (None, tabs') \<Rightarrow> insert_chunks enc flt t (Suc i) cs tabs')"

fun insert_tables :: "json_enc \<Rightarrow> (string \<Rightarrow> nat \<Rightarrow> fault) \<Rightarrow> (string \<times> event list) list \<Rightarrow> tables \<Rightarrow>
    string option \<times> tables" where
  "insert_tables enc flt [] tabs = (None, tabs)"
| "insert_tables enc flt ((t, grp) # rest) tabs =
     (case insert_chunks enc (flt t) t 0 (chunks maxEventBatch grp) tabs of
        (Some e, tabs') \<Rightarrow> (Some e, tabs')
      | (None, tabs') \<Rightarrow> insert_tables enc flt rest tabs')"

record hot_env =
  heDiskFull :: bool
  heDDL :: ddl_env
  heBegin :: fault
  heChunk :: "string \<Rightarrow> nat \<Rightarrow> fault"
  heCommit :: fault

text \<open>Split by hour, tables in name order; the groups commit in one transaction.\<close>

definition by_hour :: "(int \<Rightarrow> int) \<Rightarrow> event list \<Rightarrow> (string \<times> event list) list" where
  "by_hour zone events =
     (let g = group_into (\<lambda>e. hourlyTableName zone (Timestamp e)) events in
      map (\<lambda>t. (t, the (map_of g t))) (sort (map fst g)))"

definition HotWriteBatch :: "json_enc \<Rightarrow> (int \<Rightarrow> int) \<Rightarrow> hot_env \<Rightarrow> event list \<Rightarrow> HotStore \<Rightarrow>
    string option \<times> HotStore" where
  "HotWriteBatch enc zone env events s =
     (if events = [] then (None, s)
      else if heDiskFull env then (Some ErrDiskFull, s)
      else
        let groups = by_hour zone events in
        case ensure_all (heDDL env) (map fst groups) s of
          (Some e, s1) \<Rightarrow> (Some e, s1)
        | (None, s1) \<Rightarrow>
          (case heBegin env of Some e \<Rightarrow> (Some (''begin tx: '' @ e), s1)
           | None \<Rightarrow>
             (case insert_tables enc (heChunk env) groups (hsTables s1) of
                (Some e, _) \<Rightarrow> (Some e, s1)
              | (None, tabs) \<Rightarrow>
                (case heCommit env of Some e \<Rightarrow> (Some e, s1)
                 | None \<Rightarrow> (None, s1\<lparr>hsTables := tabs\<rparr>)))))"

section \<open>Querying\<close>

definition keep_table :: "int \<Rightarrow> int \<Rightarrow> string \<Rightarrow> bool" where
  "keep_table sinceUs untilUs t =
     (let suffix = TrimPrefix t table_stem in
      if length suffix \<noteq> 10 then True
      else case parse_hour suffix of None \<Rightarrow> True
      | Some startUs \<Rightarrow>
        (let endUs = startUs + hour_us in
         \<not> (sinceUs > 0 \<and> endUs \<le> sinceUs) \<and> \<not> (untilUs > 0 \<and> startUs \<ge> untilUs)))"

definition pruneHotTables :: "string list \<Rightarrow> int \<Rightarrow> int \<Rightarrow> string list" where
  "pruneHotTables ts sinceUs untilUs =
     (if sinceUs \<le> 0 \<and> untilUs \<le> 0 then ts else filter (keep_table sinceUs untilUs) ts)"

text \<open>The \<open>WHERE\<close> clause of every branch of the compound query.\<close>

definition hot_where :: "query \<Rightarrow> hot_row \<Rightarrow> bool" where
  "hot_where q r \<longleftrightarrow>
     (qTenantID q \<noteq> [] \<longrightarrow> cTenant r = qTenantID q) \<and>
     (qMinID q \<noteq> [] \<longrightarrow> cId r > qMinID q) \<and>
     (qMaxID q \<noteq> [] \<longrightarrow> cId r \<le> qMaxID q) \<and>
     (qSinceUs q > 0 \<longrightarrow> cTs r \<ge> qSinceUs q) \<and>
     (qUntilUs q > 0 \<longrightarrow> cTs r < qUntilUs q) \<and>
     (qMinSeverity q > 0 \<longrightarrow> cSeverity r \<ge> qMinSeverity q) \<and>
     (qAgentIDs q \<noteq> [] \<longrightarrow> cAgent r \<in> set (qAgentIDs q)) \<and>
     (qEventTypes q \<noteq> [] \<longrightarrow> cType r \<in> set (qEventTypes q)) \<and>
     (qCursor q \<noteq> [] \<longrightarrow> cId r > qCursor q)"

text \<open>The compound \<open>SELECT ... UNION ALL ... ORDER BY id LIMIT n\<close>; it fails on a missing table.\<close>

definition run_hot_query :: "tables \<Rightarrow> string list \<Rightarrow> query \<Rightarrow> hot_row list result" where
  "run_hot_query tabs ts q =
     (case find (\<lambda>t. map_of tabs t = None) ts of
        Some t \<Rightarrow> Inl (''no such table: '' @ t)
      | None \<Rightarrow>
        (let rows = sort_key cId (concat (map (\<lambda>t. filter (hot_where q) (the (map_of tabs t))) ts))
         in Inr (if qLimit q > 0 then take (nat (qLimit q)) rows else rows)))"

definition HotQuery :: "(string \<Rightarrow> annotations option) \<Rightarrow> fault \<Rightarrow> fault \<Rightarrow> query \<Rightarrow> HotStore \<Rightarrow>
    string qresult" where
  "HotQuery dec flt scan_flt q0 s =
     (let q = ApplyDefaults q0; ts = pruneHotTables (liveTables s) (qSinceUs q) (qUntilUs q) in
      if ts = [] then empty_result
      else case (case flt of Some e \<Rightarrow> Inl e | None \<Rightarrow> run_hot_query (hsTables s) ts q) of
        Inl e \<Rightarrow> empty_result\<lparr>rWarnings := [''hot query: '' @ e]\<rparr>
      | Inr rows \<Rightarrow>
        (case (if rows = [] then None else scan_flt) of
           Some e \<Rightarrow> empty_result\<lparr>rWarnings := [''scan: '' @ e]\<rparr>
         | None \<Rightarrow>
           (let evs0 = map (scan_row dec) rows;
                evs = (if qLimit q > 0 \<and> int (length evs0) > qLimit q then take (nat (qLimit q)) evs0 else evs0)
            in \<lparr>rEvents = evs, rWarnings = [], rCursor = (if evs = [] then [] else ID (last evs)),
                rTotal = int (length evs)\<rparr>)))"

section \<open>Rows survive the store\<close>

text \<open>The annotations of an event can be written and read back by the JSON codec.\<close>

definition json_ok :: "json_enc \<Rightarrow> (string \<Rightarrow> annotations option) \<Rightarrow> event \<Rightarrow> bool" where
  "json_ok enc dec e \<longleftrightarrow> Annotations e = [] \<or>
     enc (Annotations e) \<noteq> [] \<and> dec (enc (Annotations e)) = Some (Annotations e)"

lemma null_nullable [simp]: "null_str (nullableString s) = s"
  by (simp add: null_str_def nullableString_def)

lemma null_nullable_int [simp]: "(case nullableInt i of None \<Rightarrow> 0 | Some j \<Rightarrow> j) = i"
  by (simp add: nullableInt_def)

lemma scan_to_row: "json_ok enc dec e \<Longrightarrow> scan_row dec (to_row enc e) = e"
  by (auto simp: scan_row_def to_row_def json_ok_def annotationsJSON_def nullableString_def [of "enc _"]
      nullableString_def [of "[]"] intro!: event.equality)

lemma to_row_sel [simp]:
  "cId (to_row enc e) = ID e" "cTs (to_row enc e) = Timestamp e" "cTenant (to_row enc e) = TenantID e"
  by (simp_all add: to_row_def)

lemma ID_scan_row [simp]: "ID (scan_row dec r) = cId r"
  by (simp add: scan_row_def)

section \<open>Inserting\<close>

lemma insert_rows_Nil [simp]: "insert_rows rows [] = rows"
  by (simp add: insert_rows_def)

lemma insert_rows_append: "insert_rows rows (xs @ ys) = insert_rows (insert_rows rows xs) ys"
  by (simp add: insert_rows_def)

lemma insert_rows_Cons: "insert_rows rows (x # xs) = insert_rows (insert_row rows x) xs"
  by (simp add: insert_rows_def)

lemma ids_insert_rows: "cId ` set (insert_rows rows new) = cId ` set rows \<union> cId ` set new"
  by (induction new arbitrary: rows) (auto simp: insert_rows_Cons insert_row_def)

lemma distinct_insert_rows:
  "distinct (map cId rows) \<Longrightarrow> distinct (map cId (insert_rows rows new))"
  by (induction new arbitrary: rows) (auto simp: insert_rows_Cons insert_row_def)

lemma insert_rows_known: "cId ` set new \<subseteq> cId ` set rows \<Longrightarrow> insert_rows rows new = rows"
  by (induction new) (auto simp: insert_rows_Cons insert_row_def)

lemma insert_rows_idem [simp]: "insert_rows (insert_rows rows new) new = insert_rows rows new"
  by (rule insert_rows_known) (simp add: ids_insert_rows)

lemma set_insert_rows_mono: "set rows \<subseteq> set (insert_rows rows new)"
proof (induction new arbitrary: rows)
  case (Cons x new)
  have "set rows \<subseteq> set (insert_row rows x)" by (auto simp: insert_row_def)
  with Cons [of "insert_row rows x"] show ?case by (simp add: insert_rows_Cons)
qed simp

lemma set_insert_rows: "set (insert_rows rows new) \<subseteq> set rows \<union> set new"
proof (induction new arbitrary: rows)
  case (Cons x new)
  have "set (insert_row rows x) \<subseteq> insert x (set rows)" by (auto simp: insert_row_def)
  with Cons [of "insert_row rows x"] show ?case by (auto simp: insert_rows_Cons)
qed simp

lemma map_of_upd_table: "map_of (upd_table t f tabs) k = (if k = t then map_option f (map_of tabs k) else map_of tabs k)"
  unfolding upd_table_def by (induction tabs) auto

lemma keys_upd_table [simp]: "map fst (upd_table t f tabs) = map fst tabs"
  by (auto simp: upd_table_def)

lemma concat_chunks: "0 < n \<Longrightarrow> concat (chunks n xs) = xs"
proof (induction n xs rule: chunks.induct)
  case (1 n xs)
  then show ?case by (cases "xs = []") (auto simp: chunks.simps [of n xs] chunks.simps [of n "[]"])
qed

lemma insert_chunks_ok:
  "insert_chunks enc flt t i cs tabs = (None, tabs') \<Longrightarrow>
   map fst tabs' = map fst tabs \<and> (cs \<noteq> [] \<longrightarrow> t \<in> fst ` set tabs) \<and>
   (\<forall>k. map_of tabs' k = (if k = t then map_option (\<lambda>rows. insert_rows rows (map (to_row enc) (concat cs))) (map_of tabs k)
      else map_of tabs k))"
proof (induction cs arbitrary: i tabs)
  case Nil
  then show ?case by (simp add: option.map_ident)
next
  case (Cons c cs)
  let ?tabs = "upd_table t (\<lambda>rows. insert_rows rows (map (to_row enc) c)) tabs"
  from Cons.prems have "t \<in> fst ` set tabs" and rest: "insert_chunks enc flt t (Suc i) cs ?tabs = (None, tabs')"
    by (auto simp: insertChunkTx_def split: option.splits if_splits prod.splits)
  with Cons.IH [OF rest] show ?case
    by (auto simp: map_of_upd_table option.map_comp comp_def insert_rows_append)
qed

lemma insert_tables_ok:
  "insert_tables enc flt groups tabs = (None, tabs') \<Longrightarrow> distinct (map fst groups) \<Longrightarrow>
   map fst tabs' = map fst tabs \<and> (\<forall>(t, g)\<in>set groups. g \<noteq> [] \<longrightarrow> t \<in> fst ` set tabs) \<and>
   (\<forall>k. map_of tabs' k = (case map_of groups k of None \<Rightarrow> map_of tabs k
      | Some g \<Rightarrow> map_option (\<lambda>rows. insert_rows rows (map (to_row enc) g)) (map_of tabs k)))"
proof (induction enc flt groups tabs rule: insert_tables.induct)
  case (2 enc flt t grp rest tabs)
  obtain tabs1 where one: "insert_chunks enc (flt t) t 0 (chunks maxEventBatch grp) tabs = (None, tabs1)"
    and rest: "insert_tables enc flt rest tabs1 = (None, tabs')"
    using "2.prems"(1) by (auto split: option.splits prod.splits)
  have c: "concat (chunks maxEventBatch grp) = grp" "grp \<noteq> [] \<Longrightarrow> chunks maxEventBatch grp \<noteq> []"
    by (simp add: concat_chunks maxEventBatch_def) (simp add: chunks.simps [of _ grp] maxEventBatch_def)
  note one' = insert_chunks_ok [OF one, unfolded c(1)]
  have IH: "map fst tabs' = map fst tabs1 \<and> (\<forall>(t, g)\<in>set rest. g \<noteq> [] \<longrightarrow> t \<in> fst ` set tabs1) \<and>
     (\<forall>k. map_of tabs' k = (case map_of rest k of None \<Rightarrow> map_of tabs1 k
      | Some g \<Rightarrow> map_option (\<lambda>rows. insert_rows rows (map (to_row enc) g)) (map_of tabs1 k)))"
    using "2.IH" [OF one [symmetric]] rest "2.prems"(2) by simp
  have keys: "fst ` set tabs1 = fst ` set tabs" using one' by (metis list.set_map)
  have "map_of rest t = None" using "2.prems"(2) by (simp add: map_of_eq_None_iff)
  with IH one' c keys show ?case by (auto split: option.splits)
qed simp

lemma by_hour_keys:
  "distinct (map fst (by_hour zone events))"
  "fst ` set (by_hour zone events) = (\<lambda>e. hourlyTableName zone (Timestamp e)) ` set events"
proof -
  let ?f = "\<lambda>e. hourlyTableName zone (Timestamp e)"
  have "map fst (by_hour zone events) = sort (map fst (group_into ?f events))"
    by (simp add: by_hour_def Let_def comp_def)
  then show "distinct (map fst (by_hour zone events))"
    and "fst ` set (by_hour zone events) = ?f ` set events"
    using keys_group_into [of ?f events]
    by (metis distinct_group_into distinct_sort, metis list.set_map set_sort)
qed

lemma map_of_by_hour:
  "map_of (by_hour zone events) t =
     (let g = filter (\<lambda>e. hourlyTableName zone (Timestamp e) = t) events in if g = [] then None else Some g)"
proof -
  let ?f = "\<lambda>e. hourlyTableName zone (Timestamp e)"
  let ?g = "group_into ?f events"
  have "map_of (by_hour zone events) t = (if t \<in> fst ` set ?g then Some (the (map_of ?g t)) else None)"
    unfolding by_hour_def Let_def by (simp add: map_of_map_keys map_of_map_restrict restrict_map_def)
  moreover have "filter (\<lambda>e. ?f e = t) events = [] \<longleftrightarrow> t \<notin> ?f ` set events"
    by (auto simp: filter_empty_conv)
  ultimately show ?thesis
    by (auto simp: Let_def keys_group_into map_of_group_into)
qed

section \<open>What a write does to the rows\<close>

definition rows_of :: "HotStore \<Rightarrow> string \<Rightarrow> hot_row list" where
  "rows_of s t = (case map_of (hsTables s) t of None \<Rightarrow> [] | Some rows \<Rightarrow> rows)"

lemma map_of_snoc_empty: "t \<notin> fst ` set tabs \<Longrightarrow>
    map_of (tabs @ [(t, [])]) k = (if k = t then Some [] else map_of tabs k)"
  by (auto simp: map_add_def map_of_eq_None_iff [symmetric] split: option.splits)

lemma rows_create_table: "rows_of (create_table t s) k = rows_of s k"
proof (cases "t \<in> fst ` set (hsTables s)")
  case False
  then have "map_of (hsTables s) t = None" by (simp add: map_of_eq_None_iff)
  with False show ?thesis by (simp add: rows_of_def create_table_def map_of_snoc_empty del: map_of_append)
qed (simp add: create_table_def)

lemma ensure_rest_tables [simp]: "hsTables (snd (ensure_rest d t s)) = hsTables s"
  by (simp add: ensure_rest_def Let_def split: option.splits)

lemma rows_ensureTable: "rows_of (snd (ensureTable d t s)) k = rows_of s k"
proof -
  have "rows_of (snd (ensure_rest d t s1)) k = rows_of s1 k" for s1
    by (simp add: rows_of_def)
  then show ?thesis by (simp add: ensureTable_def Let_def rows_create_table split: option.splits)
qed

lemma rows_ensure_all: "rows_of (snd (ensure_all d ts s)) k = rows_of s k"
proof (induction ts arbitrary: s)
  case (Cons t ts)
  with rows_ensureTable [of d t s k] show ?case by (auto split: prod.splits option.splits)
qed simp

theorem HotWriteBatch_rows:
  assumes "HotWriteBatch enc zone env events s = (None, s')"
  shows "rows_of s' t = insert_rows (rows_of s t)
     (map (to_row enc) (filter (\<lambda>e. hourlyTableName zone (Timestamp e) = t) events))"
proof (cases "events = []")
  case True
  with assms show ?thesis by (simp add: HotWriteBatch_def)
next
  case False
  let ?groups = "by_hour zone events"
  let ?g = "filter (\<lambda>e. hourlyTableName zone (Timestamp e) = t) events"
  obtain s1 tabs where ens: "ensure_all (heDDL env) (map fst ?groups) s = (None, s1)"
    and ins: "insert_tables enc (heChunk env) ?groups (hsTables s1) = (None, tabs)"
    and s': "s' = s1\<lparr>hsTables := tabs\<rparr>"
    using assms False by (auto simp: HotWriteBatch_def Let_def split: if_splits option.splits prod.splits)
  have r1: "rows_of s1 t = rows_of s t" using rows_ensure_all [of "heDDL env" "map fst ?groups" s t] ens by simp
  note ok = insert_tables_ok [OF ins by_hour_keys(1)]
  show ?thesis
  proof (cases "?g = []")
    case True
    then have "map_of tabs t = map_of (hsTables s1) t" using ok by (simp add: map_of_by_hour)
    with True r1 show ?thesis by (simp add: rows_of_def s')
  next
    case False
    then have g: "map_of ?groups t = Some ?g" by (simp add: map_of_by_hour)
    then have "t \<in> fst ` set (hsTables s1)" using ok map_of_SomeD [OF g] False by fastforce
    then obtain rows where rows: "map_of (hsTables s1) t = Some rows"
      by (metis map_of_eq_None_iff option.exhaust)
    with ok g have "map_of tabs t = Some (insert_rows rows (map (to_row enc) ?g))" by simp
    with rows r1 show ?thesis by (simp add: rows_of_def s')
  qed
qed

theorem HotWriteBatch_atomic:
  assumes "HotWriteBatch enc zone env events s = (Some e, s')"
  shows "rows_of s' t = rows_of s t"
  using assms rows_ensure_all [of "heDDL env" "map fst (by_hour zone events)" s t]
  by (auto simp: HotWriteBatch_def Let_def split: if_splits option.splits prod.splits)

section \<open>Pruning keeps every table that can hold a match\<close>

text \<open>A row lies in the table of its hour.\<close>

definition placed :: "(int \<Rightarrow> int) \<Rightarrow> string \<Rightarrow> hot_row \<Rightarrow> bool" where
  "placed zone t r \<longleftrightarrow> t = hourlyTableName zone (cTs r) \<and> printable_instant zone (cTs r)"

lemma keep_table_sound:
  assumes "placed utc t r" "sinceUs > 0 \<Longrightarrow> sinceUs \<le> cTs r" "untilUs > 0 \<Longrightarrow> cTs r < untilUs"
  shows "keep_table sinceUs untilUs t"
proof -
  let ?h = "format_hour utc (cTs r)"
  let ?start = "cTs r - cTs r mod hour_us"
  have t: "t = table_stem @ ?h" and p: "printable_instant utc (cTs r)"
    using assms(1) by (simp_all add: placed_def hourlyTableName_def)
  have suffix: "TrimPrefix t table_stem = ?h"
    by (simp add: t TrimPrefix_def HasPrefix_def)
  have "?start \<le> cTs r" "cTs r < ?start + hour_us"
    using pos_mod_sign [of hour_us "cTs r"] pos_mod_bound [of hour_us "cTs r"] by simp_all
  then show ?thesis
    using assms(2,3) parse_format_utc [OF p] format_hour_length [OF p]
    by (auto simp: keep_table_def suffix)
qed

definition hot_inv :: "HotStore \<Rightarrow> bool" where
  "hot_inv s \<longleftrightarrow> distinct (map fst (hsTables s)) \<and> distinct (liveTables s) \<and>
     set (liveTables s) \<subseteq> fst ` set (hsTables s) \<and> set (ensured s) \<subseteq> set (liveTables s) \<and>
     (\<forall>t. distinct (map cId (rows_of s t))) \<and> (\<forall>t. \<forall>r\<in>set (rows_of s t). placed utc t r)"

text \<open>The rows that a query without pruning would read.\<close>

definition live_rows :: "query \<Rightarrow> HotStore \<Rightarrow> hot_row list" where
  "live_rows q s = concat (map (\<lambda>t. filter (hot_where q) (rows_of s t)) (liveTables s))"

lemma pruned_table_empty:
  assumes "hot_inv s" "\<not> keep_table (qSinceUs q) (qUntilUs q) t"
  shows "filter (hot_where q) (rows_of s t) = []"
proof -
  have "\<not> hot_where q r" if "r \<in> set (rows_of s t)" for r
    using keep_table_sound [of t r "qSinceUs q" "qUntilUs q"] assms that
    by (auto simp: hot_inv_def hot_where_def)
  then show ?thesis by (simp add: filter_empty_conv)
qed

lemma concat_map_filter_Nil:
  assumes "\<And>x. x \<in> set xs \<Longrightarrow> \<not> P x \<Longrightarrow> f x = []"
  shows "concat (map f (filter P xs)) = concat (map f xs)"
  using assms by (induction xs) auto

lemma pruned_rows:
  assumes "hot_inv s"
  shows "concat (map (\<lambda>t. filter (hot_where q) (rows_of s t)) (pruneHotTables (liveTables s) (qSinceUs q) (qUntilUs q)))
     = live_rows q s"
  using concat_map_filter_Nil [of "liveTables s" "keep_table (qSinceUs q) (qUntilUs q)"
      "\<lambda>t. filter (hot_where q) (rows_of s t)"] pruned_table_empty [OF assms]
  by (simp add: pruneHotTables_def live_rows_def)

lemma run_hot_query_ok:
  assumes "hot_inv s" "set ts \<subseteq> set (liveTables s)"
  shows "run_hot_query (hsTables s) ts q =
    (let rows = sort_key cId (concat (map (\<lambda>t. filter (hot_where q) (rows_of s t)) ts))
     in Inr (if qLimit q > 0 then take (nat (qLimit q)) rows else rows))"
proof -
  have ex: "map_of (hsTables s) t \<noteq> None" if "t \<in> set ts" for t
    using assms that by (auto simp: hot_inv_def map_of_eq_None_iff)
  then have "find (\<lambda>t. map_of (hsTables s) t = None) ts = None"
    by (auto simp: find_None_iff)
  moreover have "the (map_of (hsTables s) t) = rows_of s t" if "t \<in> set ts" for t
    using ex [OF that] by (auto simp: rows_of_def)
  then have "map (\<lambda>t. filter (hot_where q) (the (map_of (hsTables s) t))) ts =
      map (\<lambda>t. filter (hot_where q) (rows_of s t)) ts"
    by simp
  ultimately show ?thesis by (simp add: run_hot_query_def cong: map_cong)
qed

theorem HotQuery_events:
  assumes "hot_inv s"
  shows "rEvents (HotQuery dec None None q s) = map (scan_row dec)
     (take (nat (qLimit (ApplyDefaults q))) (sort_key cId (live_rows (ApplyDefaults q) s)))"
proof -
  let ?q = "ApplyDefaults q"
  define ts where "ts = pruneHotTables (liveTables s) (qSinceUs q) (qUntilUs q)"
  have pos: "qLimit ?q > 0" using ApplyDefaults_limit by blast
  have sub: "set ts \<subseteq> set (liveTables s)" by (auto simp: ts_def pruneHotTables_def)
  have rows: "concat (map (\<lambda>t. filter (hot_where ?q) (rows_of s t)) ts) = live_rows ?q s"
    using pruned_rows [OF assms, of ?q] by (simp add: ts_def)
  show ?thesis
  proof (cases "ts = []")
    case True
    with rows have "live_rows ?q s = []" by simp
    with True show ?thesis by (simp add: HotQuery_def Let_def empty_result_def ts_def [symmetric])
  next
    case False
    then show ?thesis using pos
      by (simp add: HotQuery_def Let_def ts_def [symmetric] run_hot_query_ok [OF assms sub] rows)
  qed
qed

section \<open>The invariant is kept by writes\<close>

lemma create_table_inv: "hot_inv s \<Longrightarrow> hot_inv (create_table t s)"
  unfolding hot_inv_def rows_create_table by (auto simp: create_table_def)

lemma ensure_rest_inv:
  assumes "hot_inv s" "t \<in> fst ` set (hsTables s)" "\<forall>i. ddlIndex d t i = None"
  shows "hot_inv (snd (ensure_rest d t s))"
proof -
  have "exec_all (ddlIndex d t) 0 (replicate 3 id) () = (None, ())"
    using assms(3) by (simp add: numeral_3_eq_3)
  with assms show ?thesis
    by (auto simp: ensure_rest_def Let_def hot_inv_def rows_of_def)
qed

lemma ensureTable_inv:
  assumes "hot_inv s" "\<forall>i. ddlIndex d t i = None"
  shows "hot_inv (snd (ensureTable d t s))"
proof -
  have "t \<in> fst ` set (hsTables (create_table t s))" by (auto simp: create_table_def)
  then have "hot_inv (snd (ensure_rest d t (create_table t s)))"
    using ensure_rest_inv create_table_inv assms by blast
  then show ?thesis using assms create_table_inv
    by (auto simp: ensureTable_def Let_def split: option.splits)
qed

lemma ensure_all_inv:
  "hot_inv s \<Longrightarrow> \<forall>t i. ddlIndex d t i = None \<Longrightarrow> hot_inv (snd (ensure_all d ts s))"
proof (induction ts arbitrary: s)
  case (Cons t ts)
  with ensureTable_inv [of s d t] show ?case by (auto split: prod.splits option.splits)
qed simp

lemma HotWriteBatch_tables:
  assumes "HotWriteBatch enc zone env events s = (None, s')" "events \<noteq> []"
  obtains s1 where "ensure_all (heDDL env) (map fst (by_hour zone events)) s = (None, s1)"
    "map fst (hsTables s') = map fst (hsTables s1)" "liveTables s' = liveTables s1" "ensured s' = ensured s1"
proof -
  obtain s1 tabs where ens: "ensure_all (heDDL env) (map fst (by_hour zone events)) s = (None, s1)"
    and ins: "insert_tables enc (heChunk env) (by_hour zone events) (hsTables s1) = (None, tabs)"
    and s': "s' = s1\<lparr>hsTables := tabs\<rparr>"
    using assms by (auto simp: HotWriteBatch_def Let_def split: if_splits option.splits prod.splits)
  show thesis
    by (rule that [OF ens]) (use insert_tables_ok [OF ins by_hour_keys(1)] in \<open>simp_all add: s'\<close>)
qed

theorem HotWriteBatch_inv:
  assumes inv: "hot_inv s" and ok: "HotWriteBatch enc utc env events s = (None, s')"
    and idx: "\<forall>t i. ddlIndex (heDDL env) t i = None"
    and pr: "\<forall>e\<in>set events. printable_instant utc (Timestamp e)"
  shows "hot_inv s'"
proof (cases "events = []")
  case True
  with inv ok show ?thesis by (simp add: HotWriteBatch_def)
next
  case False
  obtain s1 where ens: "ensure_all (heDDL env) (map fst (by_hour utc events)) s = (None, s1)"
    and t: "map fst (hsTables s') = map fst (hsTables s1)" "liveTables s' = liveTables s1" "ensured s' = ensured s1"
    using HotWriteBatch_tables [OF ok False] .
  have inv1: "hot_inv s1" using ensure_all_inv [OF inv idx, of "map fst (by_hour utc events)"] ens by simp
  have "fst ` set (hsTables s') = fst ` set (hsTables s1)" using t(1) by (metis list.set_map)
  moreover have "placed utc k r" if "r \<in> set (rows_of s' k)" for k r
  proof -
    let ?g = "filter (\<lambda>e. hourlyTableName utc (Timestamp e) = k) events"
    have "r \<in> set (rows_of s k) \<union> set (map (to_row enc) ?g)"
      using that set_insert_rows [of "rows_of s k" "map (to_row enc) ?g"]
      unfolding HotWriteBatch_rows [OF ok] by auto
    then show ?thesis using inv pr by (auto simp: hot_inv_def placed_def)
  qed
  moreover have "distinct (map cId (rows_of s' k))" for k
    unfolding HotWriteBatch_rows [OF ok] using inv by (auto simp: hot_inv_def intro: distinct_insert_rows)
  ultimately show ?thesis using inv1 t by (auto simp: hot_inv_def)
qed

lemma ensure_all_ensured:
  "ensure_all d ts s = (None, s1) \<Longrightarrow> set ts \<union> set (ensured s) \<subseteq> set (ensured s1)"
proof (induction ts arbitrary: s)
  case (Cons t ts)
  obtain s2 where one: "ensureTable d t s = (None, s2)" and rest: "ensure_all d ts s2 = (None, s1)"
    using Cons.prems by (auto split: prod.splits option.splits)
  have "t \<in> set (ensured s2) \<and> set (ensured s) \<subseteq> set (ensured s2)"
    using one by (auto simp: ensureTable_def ensure_rest_def create_table_def Let_def
        split: if_splits option.splits)
  with Cons.IH [OF rest] show ?case by auto
qed simp

text \<open>An empty store in which nothing was dropped satisfies the invariant.\<close>

lemma hot_inv_empty: "hot_inv \<lparr>hsTables = [], liveTables = [], ensured = []\<rparr>"
  by (simp add: hot_inv_def rows_of_def)

lemma scan_row_ID [simp]: "ID (scan_row dec r) = cId r"
  by (simp add: scan_row_def)

end
