(* ===== verification/Sample_Data.thy ===== *)
theory Sample_Data
  imports Hot_Store
begin

text \<open>
  Concrete events, rows, file systems and fault-free inputs at which the properties of the storage
  engine are instantiated.  All timestamps are in UTC.
\<close>

definition sample_event :: "string \<Rightarrow> string \<Rightarrow> string \<Rightarrow> int \<Rightarrow> event" where
  "sample_event i ten agent ts = \<lparr>ID = i, TenantID = ten, AgentID = agent, Timestamp = ts, IngestedAt = ts,
     EventType = ''process'', Severity = 3, ProcessName = ''sh'', Cmdline = [], ParentPID = 1, SHA256 = [],
     DestIP = [], SrcIP = [], UserName = ''root'', Hostname = [], DataRaw = ''{}'', Annotations = []\<rparr>"

definition no_annotations :: json_enc where "no_annotations m = ''{}''"

definition no_hot_faults :: hot_env where
  "no_hot_faults = \<lparr>heDiskFull = False,
     heDDL = \<lparr>ddlCreate = (\<lambda>_. None), ddlAlter = (\<lambda>_. None), ddlIndex = (\<lambda>_ _. None)\<rparr>,
     heBegin = None, heChunk = (\<lambda>_ _. None), heCommit = None\<rparr>"

definition no_tables :: HotStore where
  "no_tables = \<lparr>hsTables = [], liveTables = [], ensured = []\<rparr>"

text \<open>A store whose tables hold the given events.\<close>

definition sample_hot :: "(string \<times> event list) list \<Rightarrow> HotStore" where
  "sample_hot ts = \<lparr>hsTables = map (\<lambda>(t, evs). (t, map (to_row no_annotations) evs)) ts,
     liveTables = map fst ts, ensured = map fst ts\<rparr>"

definition no_write_faults :: "int \<Rightarrow> write_env" where
  "no_write_faults now = \<lparr>weNow = now, wePid = 7, weTempDir = ''/tmp'', weHash8 = (\<lambda>_. ''0123abcd''),
     weSha = (\<lambda>rows. show_nat (length rows)), weSize = (\<lambda>rows. int (length rows)), weFail = (\<lambda>_. None)\<rparr>"

definition local_writer :: ParquetWriter where
  "local_writer = \<lparr>pwTempDir = ''/data/tmp'', pwOutputDir = ''/data'', pwS3 = None\<rparr>"

definition no_files :: fsys where
  "no_files = \<lparr>local_files = (\<lambda>_. None), s3_objects = (\<lambda>_. None)\<rparr>"

definition sample_manifest :: Manifest where
  "sample_manifest = snd (NewManifest None None (\<lambda>_. None) 0 (\<lambda>_. None) fresh_manifest)"

lemma rows_of_sample_hot:
  "rows_of (sample_hot ts) t = (case map_of ts t of None \<Rightarrow> [] | Some evs \<Rightarrow> map (to_row no_annotations) evs)"
  by (auto simp: rows_of_def sample_hot_def map_of_map split: option.splits)

lemma sample_hot_inv:
  assumes "distinct (map fst ts)"
    "\<forall>(t, evs)\<in>set ts. distinct (map ID evs) \<and>
       (\<forall>e\<in>set evs. t = hourlyTableName utc (Timestamp e) \<and> printable_instant utc (Timestamp e))"
  shows "hot_inv (sample_hot ts)"
proof -
  have "distinct (map cId (rows_of (sample_hot ts) t)) \<and> (\<forall>r\<in>set (rows_of (sample_hot ts) t). placed utc t r)" for t
  proof (cases "map_of ts t")
    case (Some evs)
    from assms(2) map_of_SomeD [OF Some]
    have "distinct (map ID evs)" "\<forall>e\<in>set evs. t = hourlyTableName utc (Timestamp e) \<and> printable_instant utc (Timestamp e)"
      by blast+
    then show ?thesis by (simp add: rows_of_sample_hot Some placed_def to_row_def comp_def)
  qed (simp add: rows_of_sample_hot)
  moreover have "map fst (hsTables (sample_hot ts)) = map fst ts"
    by (simp add: sample_hot_def comp_def case_prod_beta)
  ultimately show ?thesis
    using assms(1) by (simp add: hot_inv_def) (metis (no_types, lifting) HotStore.select_convs(2,3) list.set_map sample_hot_def subset_refl)
qed

end
