(* ===== verification/Flusher_Model.thy ===== *)
theory Flusher_Model
  imports Sample_Data
begin

text \<open>
  \<open>internal/storage/flusher\<close>: grouping by tenant and hour, the readiness test, and one flush
  cycle from reading the watermark to the manifest transaction.  The storage stack is the record
  \<open>tse\<close> (hot store, manifest, file system); clock readings, the digest and every failure of a
  statement or of a file operation are inputs collected in \<open>flush_env\<close>.
\<close>

section \<open>Groups\<close>

record groupKey =
  gkTenantID :: string
  gkHour :: int

definition truncateHour :: "int \<Rightarrow> int" where
  "truncateHour tsUs = tsUs - go_rem tsUs hour_us"

definition event_key :: "event \<Rightarrow> groupKey" where
  "event_key e = \<lparr>gkTenantID = TenantID e, gkHour = truncateHour (Timestamp e)\<rparr>"

definition groupEvents :: "event list \<Rightarrow> (groupKey \<times> event list) list" where
  "groupEvents events = group_into event_key events"

definition estimateSize :: "event list \<Rightarrow> int" where
  "estimateSize events = foldl (\<lambda>size e. size + (200 + int (length (ID e) + length (TenantID e) +
     length (AgentID e) + length (EventType e) + length (ProcessName e) + length (Cmdline e) +
     length (SHA256 e) + length (DestIP e) + length (SrcIP e) + length (UserName e) +
     length (Hostname e) + length (DataRaw e)))) 0 events"

text \<open>\<open>int64(5 * time.Minute)\<close> is a count of nanoseconds.\<close>

definition stragglerWindow :: int where "stragglerWindow = 5 * Minute"
definition minRowsReady :: int where "minRowsReady = 1000"
definition minBytesReady :: int where "minBytesReady = 2 ^ 20"

definition group_ready :: "int \<Rightarrow> int \<Rightarrow> groupKey \<Rightarrow> event list \<Rightarrow> bool" where
  "group_ready now targetSize key events =
     (let totalSize = estimateSize events;
          hourEnd = gkHour key + hour_us;
          aged = now > hourEnd + stragglerWindow;
          byVolume = int (length events) \<ge> minRowsReady \<or> totalSize \<ge> minBytesReady;
          byTarget = totalSize \<ge> targetSize
      in byTarget \<or> (byVolume \<and> aged) \<or> (aged \<and> length events > 0))"

definition readyGroups :: "int \<Rightarrow> (groupKey \<times> event list) list \<Rightarrow> int \<Rightarrow> groupKey list" where
  "readyGroups now groups targetSize =
     sort_key (\<lambda>k. (gkHour k, gkTenantID k))
       (map fst (filter (\<lambda>(k, evs). group_ready now targetSize k evs) groups))"

section \<open>The storage stack and the inputs of a flush\<close>

record tse =
  hot :: HotStore
  man :: Manifest
  fs :: fsys

record flusher_cfg =
  fcTargetSize :: int
  fcBatchLimit :: int
  fcWriter :: ParquetWriter

definition NewFlusher :: "int \<Rightarrow> int \<Rightarrow> ParquetWriter \<Rightarrow> flusher_cfg" where
  "NewFlusher targetSize batchLimit w =
     \<lparr>fcTargetSize = (if targetSize \<le> 0 then 268435456 else targetSize),
      fcBatchLimit = (if batchLimit \<le> 0 then 100000 else batchLimit), fcWriter = w\<rparr>"

record flush_env =
  fxEnc :: json_enc
  fxDec :: "string \<Rightarrow> annotations option"
  fxZone :: "int \<Rightarrow> int"
  fxSha :: "string \<Rightarrow> string"
  fxWatermark :: fault
  fxHotQuery :: fault
  fxHotScan :: fault
  fxReadyNow :: int
  fxWrite :: "nat \<Rightarrow> write_env"
  fxStamp :: "nat \<Rightarrow> int"
  fxReRead :: fault
  fxBegin :: fault
  fxAdd :: "nat \<Rightarrow> fault"
  fxUpdate :: fault
  fxUpdateNow :: int
  fxCommit :: fault

datatype flush_outcome = FlushOK | FlushErr string | FlushPanic

section \<open>Writing the ready groups\<close>

record committed =
  cmKey :: groupKey
  cmRecord :: ParquetFileRecord
  cmMaxID :: string
  cmMaxTS :: int
  cmMinID :: string

definition deterministicFileID :: "(string \<Rightarrow> string) \<Rightarrow> string \<Rightarrow> int \<Rightarrow> int \<Rightarrow> int \<Rightarrow> string \<Rightarrow> string \<Rightarrow> string" where
  "deterministicFileID sha tenant hour minTS maxTS minID maxID =
     take 32 (sha (tenant @ ''|'' @ show_int hour @ ''|'' @ show_int minTS @ ''|'' @ show_int maxTS
       @ ''|'' @ minID @ ''|'' @ maxID))"

definition isPKConflict :: "string option \<Rightarrow> bool" where
  "isPKConflict err =
     (case err of None \<Rightarrow> False
      | Some msg \<Rightarrow> Contains msg ''UNIQUE constraint'' \<or> Contains msg ''PRIMARY KEY''
          \<or> Contains msg ''constraint failed'')"

definition partition_key :: "(int \<Rightarrow> int) \<Rightarrow> groupKey \<Rightarrow> string" where
  "partition_key zone key =
     gkTenantID key @ ''/'' @ format_date zone (gkHour key) @ ''/'' @ format_hh zone (gkHour key)"

definition file_record :: "(string \<Rightarrow> string) \<Rightarrow> int \<Rightarrow> groupKey \<Rightarrow> FileResult \<Rightarrow> ParquetFileRecord" where
  "file_record sha now key r =
     \<lparr>pfFileID = deterministicFileID sha (gkTenantID key) (gkHour key) (frMinTimestampUs r)
        (frMaxTimestampUs r) (frMinEventID r) (frMaxEventID r),
      pfPath = frPath r, pfTenantID = gkTenantID key, pfLevel = 0,
      pfMinTimestampUs = frMinTimestampUs r, pfMaxTimestampUs = frMaxTimestampUs r,
      pfMinEventID = frMinEventID r, pfMaxEventID = frMaxEventID r, pfRowCount = frRowCount r,
      pfCompressedSize = frCompressedSize r, pfUncompressedSize = frUncompressedSize r,
      pfSHA256 = frSHA256 r, pfCompression = ''zstd'', pfSchemaVersion = 1, pfStatus = [],
      pfCreatedAt = now, pfUpdatedAt = now\<rparr>"

definition group_sort :: "event list \<Rightarrow> event list" where
  "group_sort g = sort_key (\<lambda>e. (AgentID e, Timestamp e)) g"

text \<open>The loop over the ready groups.  The log line slices the first eight bytes of both event
  identifiers, which panics on shorter ones.\<close>

fun write_groups :: "flush_env \<Rightarrow> ParquetWriter \<Rightarrow> (groupKey \<times> event list) list \<Rightarrow> groupKey list \<Rightarrow> nat \<Rightarrow>
    committed list \<Rightarrow> fsys \<Rightarrow> (flush_outcome + committed list) \<times> fsys" where
  "write_groups env w groups [] k acc f = (Inr acc, f)"
| "write_groups env w groups (key # keys) k acc f =
     (let grp = group_sort (the (map_of groups key)) in
      case WriteBatch (fxEnc env) (fxWrite env k) w grp (partition_key (fxZone env) key) f of
        (Inl e, f') \<Rightarrow> (Inl (FlushErr (''write parquet: '' @ e)), f')
      | (Inr r, f') \<Rightarrow>
        if length (frMinEventID r) < 8 \<or> length (frMaxEventID r) < 8 then (Inl FlushPanic, f')
        else write_groups env w groups keys (Suc k)
          (acc @ [\<lparr>cmKey = key, cmRecord = file_record (fxSha env) (fxStamp env k) key r,
             cmMaxID = frMaxEventID r, cmMaxTS = frMaxTimestampUs r, cmMinID = frMinEventID r\<rparr>]) f')"

section \<open>Advancing the watermark\<close>

definition unready_events :: "(groupKey \<times> event list) list \<Rightarrow> groupKey list \<Rightarrow> event list" where
  "unready_events groups ready = concat (map snd (filter (\<lambda>(k, _). k \<notin> set ready) groups))"

definition unreadyMax :: "(groupKey \<times> event list) list \<Rightarrow> groupKey list \<Rightarrow> string" where
  "unreadyMax groups ready =
     foldl (\<lambda>m e. if ID e > m then ID e else m) [] (unready_events groups ready)"

text \<open>The loop over the groups in the order of their first identifier: the last group before the
  first one whose last identifier exceeds \<open>unreadyMax\<close>.\<close>

fun advanceTo :: "string \<Rightarrow> committed list \<Rightarrow> committed option \<Rightarrow> committed option" where
  "advanceTo um [] best = best"
| "advanceTo um (d # ds) best =
     (if um \<noteq> [] \<and> um < cmMaxID d then best else advanceTo um ds (Some d))"

fun add_files :: "(nat \<Rightarrow> fault) \<Rightarrow> nat \<Rightarrow> committed list \<Rightarrow> Manifest \<Rightarrow> string option \<times> Manifest" where
  "add_files flt k [] m = (None, m)"
| "add_files flt k (d # ds) m =
     (case AddFileTx (flt k) (cmRecord d) m of
        (Some e, m') \<Rightarrow> if isPKConflict (Some e) then add_files flt (Suc k) ds m'
                         else (Some (''add file: '' @ e), m')
      | (None, m') \<Rightarrow> add_files flt (Suc k) ds m')"

definition commit_fn :: "flush_env \<Rightarrow> committed list \<Rightarrow> committed option \<Rightarrow> Manifest \<Rightarrow> string option \<times> Manifest" where
  "commit_fn env done_list best m =
     (case add_files (fxAdd env) 0 done_list m of
        (Some e, m') \<Rightarrow> (Some e, m')
      | (None, m') \<Rightarrow>
        (case best of None \<Rightarrow> (None, m')
         | Some d \<Rightarrow>
           (case UpdateWatermarkTx (fxUpdate env) (fxUpdateNow env) (cmMaxID d) (cmMaxTS d) m' of
              (Some e, m'') \<Rightarrow> (Some (''update watermark: '' @ e), m'')
            | (None, m'') \<Rightarrow> (None, m''))))"

section \<open>One flush cycle\<close>

definition flush_query :: "Watermark \<Rightarrow> int \<Rightarrow> query" where
  "flush_query wm n = empty_query\<lparr>qMinID := LastID wm, qLimit := n, qOrderAsc := True\<rparr>"

definition flush_batch :: "flush_env \<Rightarrow> flusher_cfg \<Rightarrow> Watermark \<Rightarrow> HotStore \<Rightarrow> event list" where
  "flush_batch env cfg wm h =
     rEvents (HotQuery (fxDec env) (fxHotQuery env) (fxHotScan env) (flush_query wm (fcBatchLimit cfg)) h)"

definition flush :: "flush_env \<Rightarrow> flusher_cfg \<Rightarrow> tse \<Rightarrow> flush_outcome \<times> tse" where
  "flush env cfg s =
     (case get_watermark (fxWatermark env) (man s) of
        Inl e \<Rightarrow> (FlushErr (''watermark: '' @ e), s)
      | Inr wm \<Rightarrow>
        (let batch = flush_batch env cfg wm (hot s) in
         if batch = [] then (FlushOK, s)
         else
           let groups = groupEvents batch;
               ready = readyGroups (fxReadyNow env) groups (fcTargetSize cfg)
           in case write_groups env (fcWriter cfg) groups ready 0 [] (fs s) of
             (Inl out, f') \<Rightarrow> (out, s\<lparr>fs := f'\<rparr>)
           | (Inr done_list, f') \<Rightarrow>
             if done_list = [] then (FlushOK, s\<lparr>fs := f'\<rparr>)
             else case get_watermark (fxReRead env) (man s) of
               Inl e \<Rightarrow> (FlushErr (''watermark re-read: '' @ e), s\<lparr>fs := f'\<rparr>)
             | Inr _ \<Rightarrow>
               (let contig = sort_key cmMinID done_list;
                    best = advanceTo (unreadyMax groups ready) contig None
                in case Transaction (fxBegin env) (fxCommit env) (commit_fn env contig best) (man s) of
                  (Some e, m') \<Rightarrow> (FlushErr (''manifest tx: '' @ e), s\<lparr>fs := f', man := m'\<rparr>)
                | (None, m') \<Rightarrow> (FlushOK, s\<lparr>fs := f', man := m'\<rparr>))))"

section \<open>Error tracking and the run loop\<close>

definition alertErrorThreshold :: int where "alertErrorThreshold = 5"

record err_state =
  errCount :: int
  errWindow :: int

text \<open>Times are in nanoseconds; the result says whether the alert was raised.\<close>

definition trackError :: "int \<Rightarrow> err_state \<Rightarrow> bool \<times> err_state" where
  "trackError now f =
     (let f1 = (if now - errWindow f > Minute then f\<lparr>errCount := 0, errWindow := now\<rparr> else f);
          f2 = f1\<lparr>errCount := errCount f1 + 1\<rparr>
      in if errCount f2 \<ge> alertErrorThreshold then (True, f2\<lparr>errCount := 0\<rparr>) else (False, f2))"

definition Run_tick :: "flush_env \<Rightarrow> flusher_cfg \<Rightarrow> int \<Rightarrow> tse \<times> err_state \<Rightarrow> tse \<times> err_state" where
  "Run_tick env cfg now st =
     (case flush env cfg (fst st) of
        (FlushErr e, s') \<Rightarrow> (s', snd (trackError now (snd st)))
      | (_, s') \<Rightarrow> (s', snd st))"

definition formatSize :: "int \<Rightarrow> string" where
  "formatSize bytes =
     (if bytes < 1024 then show_int bytes @ ''B''
      else if bytes < 1024 * 1024 then show_int (go_quot bytes 1024) @ ''KB''
      else show_int (go_quot bytes (1024 * 1024)) @ ''MB'')"

section \<open>Groups and readiness\<close>

lemma truncateHour_bounds:
  assumes "0 \<le> ts"
  shows "truncateHour ts \<le> ts" "ts < truncateHour ts + hour_us" "hour_us dvd truncateHour ts"
proof -
  have "truncateHour ts = ts - ts mod hour_us"
    using assms by (simp add: truncateHour_def go_rem_nonneg hour_us_def)
  moreover have "0 \<le> ts mod hour_us" "ts mod hour_us < hour_us" by (simp_all add: hour_us_def)
  ultimately show "truncateHour ts \<le> ts" "ts < truncateHour ts + hour_us" "hour_us dvd truncateHour ts"
    by (simp_all add: mod_eq_dvd_iff [symmetric])
qed

lemma readyGroups_iff:
  "k \<in> set (readyGroups now groups target) \<longleftrightarrow>
     (\<exists>evs. (k, evs) \<in> set groups \<and> group_ready now target k evs)"
  by (auto simp: readyGroups_def image_iff)

lemma group_ready_iff:
  "group_ready now target k evs \<longleftrightarrow>
     target \<le> estimateSize evs \<or> (evs \<noteq> [] \<and> gkHour k + hour_us + stragglerWindow < now)"
  by (auto simp: group_ready_def Let_def minRowsReady_def minBytesReady_def estimateSize_def)

lemma ready_group_events:
  assumes "k \<in> set (readyGroups now (groupEvents evs) target)"
  shows "the (map_of (groupEvents evs) k) = filter (\<lambda>e. event_key e = k) evs" "k \<in> event_key ` set evs"
  using assms by (auto simp: readyGroups_iff groupEvents_def group_into_mem map_of_group_into)

lemma distinct_readyGroups: "distinct (readyGroups now (groupEvents evs) target)"
proof -
  have "distinct (map fst (filter P (groupEvents evs)))" for P
    using distinct_group_into [of event_key evs] by (simp add: groupEvents_def distinct_map_filter)
  then show ?thesis by (simp add: readyGroups_def)
qed

section \<open>What the writing loop leaves\<close>

definition group_rows :: "flush_env \<Rightarrow> (groupKey \<times> event list) list \<Rightarrow> groupKey \<Rightarrow> TraceEventParquet list" where
  "group_rows env groups key = sorted_rows (fxEnc env) (group_sort (the (map_of groups key)))"

text \<open>The path of the \<open>k\<close>-th file of a cycle, as \<open>WriteBatch\<close> forms it.\<close>

definition group_path :: "flush_env \<Rightarrow> ParquetWriter \<Rightarrow> (groupKey \<times> event list) list \<Rightarrow> nat \<Rightarrow> groupKey \<Rightarrow> string" where
  "group_path env w groups k key =
     (let pk = partition_key (fxZone env) key in
      filepath_Join [pwOutputDir w, pk, part_name (fxWrite env k) pk (length (group_rows env groups key))])"

definition group_fileid :: "flush_env \<Rightarrow> (groupKey \<times> event list) list \<Rightarrow> groupKey \<Rightarrow> string" where
  "group_fileid env groups key =
     (let rows = group_rows env groups key in
      deterministicFileID (fxSha env) (gkTenantID key) (gkHour key) (pTimestampUs (hd rows))
        (pTimestampUs (last rows)) (pID (hd rows)) (pID (last rows)))"

fun group_paths :: "flush_env \<Rightarrow> ParquetWriter \<Rightarrow> (groupKey \<times> event list) list \<Rightarrow> groupKey list \<Rightarrow> nat \<Rightarrow> string list" where
  "group_paths env w groups [] k = []"
| "group_paths env w groups (key # keys) k = group_path env w groups k key # group_paths env w groups keys (Suc k)"

lemma write_groups_frame:
  assumes "write_groups env w groups keys k acc f = (Inr ds, f')" "pwS3 w = None" "p \<notin> set (group_paths env w groups keys k)"
  shows "local_files f' p = local_files f p"
  using assms
proof (induction env w groups keys k acc f arbitrary: ds f' rule: write_groups.induct)
  case (2 env w groups key keys k acc f)
  from "2.prems"(1) obtain r f1 where w1:
      "WriteBatch (fxEnc env) (fxWrite env k) w (group_sort (the (map_of groups key))) (partition_key (fxZone env) key) f = (Inr r, f1)"
    by (auto simp: Let_def split: prod.splits sum.splits)
  have "p \<noteq> group_path env w groups k key" using "2.prems"(3) by simp
  then have "local_files f1 p = local_files f p"
    using WriteBatch_ok(5) [OF w1] by (simp add: group_path_def group_rows_def Let_def)
  moreover have "local_files f' p = local_files f1 p"
    using "2.prems" w1 by (auto simp: Let_def split: if_splits intro!: "2.IH" [OF _ w1 [symmetric]])
  ultimately show ?case by simp
qed simp

lemma write_groups_ok:
  assumes "write_groups env w groups keys k acc f = (Inr ds, f')" "pwS3 w = None" "distinct (group_paths env w groups keys k)"
  shows "\<exists>rs. ds = acc @ rs \<and> map cmKey rs = keys \<and>
    map (\<lambda>d. pfFileID (cmRecord d)) rs = map (group_fileid env groups) keys \<and> map (\<lambda>d. pfPath (cmRecord d)) rs = group_paths env w groups keys k \<and>
    (\<forall>d\<in>set rs. local_files f' (pfPath (cmRecord d)) = Some (group_rows env groups (cmKey d)) \<and>
       group_rows env groups (cmKey d) \<noteq> [] \<and> cmMaxID d \<in> pID ` set (group_rows env groups (cmKey d)))"
  using assms
proof (induction env w groups keys k acc f arbitrary: ds f' rule: write_groups.induct)
  case (2 env w groups key keys k acc f)
  let ?grp = "group_sort (the (map_of groups key))"
  from "2.prems"(1) obtain r f1 where w1:
      "WriteBatch (fxEnc env) (fxWrite env k) w ?grp (partition_key (fxZone env) key) f = (Inr r, f1)"
    by (auto simp: Let_def split: prod.splits sum.splits)
  let ?c = "\<lparr>cmKey = key, cmRecord = file_record (fxSha env) (fxStamp env k) key r,
             cmMaxID = frMaxEventID r, cmMaxTS = frMaxTimestampUs r, cmMinID = frMinEventID r\<rparr>"
  have ne: "group_rows env groups key \<noteq> []" using WriteBatch_ok(1) [OF w1] by (simp add: group_rows_def)
  have path: "pfPath (cmRecord ?c) = group_path env w groups k key"
    using WriteBatch_ok(4) [OF w1 "2.prems"(2)] by (simp add: file_record_def group_path_def group_rows_def Let_def)
  have mx: "frMaxEventID r = pID (last (group_rows env groups key))"
    by (subst WriteBatch_ok(3) [OF w1]) (simp add: file_result_def group_rows_def)
  have short: "\<not> (length (frMinEventID r) < 8 \<or> length (frMaxEventID r) < 8)"
    using "2.prems"(1) w1 by (auto simp: Let_def split: if_splits)
  have rest: "write_groups env w groups keys (Suc k) (acc @ [?c]) f1 = (Inr ds, f')"
    using "2.prems"(1) w1 by (auto simp: Let_def split: if_splits)
  have fid: "pfFileID (cmRecord ?c) = group_fileid env groups key"
    unfolding group_fileid_def file_record_def Let_def
    by (simp, subst (1 2 3 4) WriteBatch_ok(3) [OF w1]) (simp add: file_result_def group_rows_def)
  obtain rs where rs: "ds = (acc @ [?c]) @ rs" "map cmKey rs = keys"
      "map (\<lambda>d. pfFileID (cmRecord d)) rs = map (group_fileid env groups) keys"
      "map (\<lambda>d. pfPath (cmRecord d)) rs = group_paths env w groups keys (Suc k)"
      "\<forall>d\<in>set rs. local_files f' (pfPath (cmRecord d)) = Some (group_rows env groups (cmKey d)) \<and>
       group_rows env groups (cmKey d) \<noteq> [] \<and> cmMaxID d \<in> pID ` set (group_rows env groups (cmKey d))"
    using "2.IH" [OF refl w1 [symmetric] refl short rest "2.prems"(2)] "2.prems"(3) by auto
  have "local_files f' (group_path env w groups k key) = local_files f1 (group_path env w groups k key)"
    using write_groups_frame [OF rest "2.prems"(2)] "2.prems"(3) by simp
  also have "\<dots> = Some (group_rows env groups key)"
    using WriteBatch_ok(2) [OF w1] by (simp add: group_path_def group_rows_def Let_def)
  finally have "local_files f' (pfPath (cmRecord ?c)) = Some (group_rows env groups key)" by (simp only: path)
  then show ?case using rs path fid ne mx last_in_set [OF ne] by (intro exI [of _ "?c # rs"]) auto
qed simp

section \<open>What the transaction commits\<close>

lemma add_files_ok:
  assumes "add_files flt k ds m = (None, m')" "\<forall>k. \<not> isPKConflict (flt k)"
    "distinct (map (\<lambda>d. pfFileID (cmRecord d)) ds)" "distinct (map (\<lambda>d. pfPath (cmRecord d)) ds)"
    "\<forall>d\<in>set ds. pfFileID (cmRecord d) \<notin> pfFileID ` set (parquet_files m) \<and> pfPath (cmRecord d) \<notin> pfPath ` set (parquet_files m)"
  shows "parquet_files m' = parquet_files m @ map (\<lambda>d. (cmRecord d)\<lparr>pfStatus := ''committed''\<rparr>) ds \<and>
    watermark_row m' = watermark_row m"
  using assms
proof (induction ds arbitrary: k m)
  case (Cons d ds)
  have nf: "flt k = None"
  proof (rule ccontr)
    assume "flt k \<noteq> None"
    then obtain e where e: "flt k = Some e" by blast
    with Cons.prems(2) have "\<not> isPKConflict (Some e)" by metis
    with e Cons.prems(1) show False by (simp add: AddFileTx_def)
  qed
  define m1 where "m1 = m\<lparr>parquet_files := parquet_files m @ [(cmRecord d)\<lparr>pfStatus := ''committed''\<rparr>]\<rparr>"
  have one: "AddFileTx (flt k) (cmRecord d) m = (None, m1)"
    using Cons.prems(5) by (simp add: AddFileTx_def nf insert_file_def m1_def)
  have rest: "add_files flt (Suc k) ds m1 = (None, m')" using Cons.prems(1) one by simp
  have "pfFileID (cmRecord e) \<notin> pfFileID ` set (parquet_files m1) \<and> pfPath (cmRecord e) \<notin> pfPath ` set (parquet_files m1)"
    if "e \<in> set ds" for e
  proof -
    have "pfFileID (cmRecord e) \<noteq> pfFileID (cmRecord d)" "pfPath (cmRecord e) \<noteq> pfPath (cmRecord d)"
      using Cons.prems(3,4) that by (metis (no_types, lifting) distinct.simps(2) image_eqI list.set_map list.simps(9))+
    then show ?thesis using Cons.prems(5) that by (simp add: m1_def)
  qed
  then have "parquet_files m' = parquet_files m1 @ map (\<lambda>d. (cmRecord d)\<lparr>pfStatus := ''committed''\<rparr>) ds \<and>
      watermark_row m' = watermark_row m1"
    using Cons.IH [OF rest Cons.prems(2)] Cons.prems(3,4) by simp
  then show ?case by (simp add: m1_def)
qed simp

lemma add_files_wf [inv_intros]: "manifest_wf m \<Longrightarrow> manifest_wf (snd (add_files flt k ds m))"
proof (induction ds arbitrary: k m)
  case (Cons d ds)
  from AddFileTx_wf [OF Cons.prems, of "flt k" "cmRecord d"] show ?case
    using Cons.IH by (auto split: prod.splits option.splits)
qed simp

lemma add_files_watermark: "watermark_row (snd (add_files flt k ds m)) = watermark_row m"
proof (induction ds arbitrary: k m)
  case (Cons d ds)
  have "watermark_row (snd (AddFileTx (flt k) (cmRecord d) m)) = watermark_row m"
    by (auto simp: AddFileTx_def insert_file_def split: option.splits)
  then show ?case using Cons.IH by (auto split: prod.splits option.splits)
qed simp

lemma commit_fn_wf [inv_intros]: "manifest_wf m \<Longrightarrow> manifest_wf (snd (commit_fn env ds best m))"
  using add_files_wf [of m "fxAdd env" 0 ds]
  by (auto simp: commit_fn_def UpdateWatermarkTx_def intro: inv_intros split: prod.splits option.splits)

lemma commit_fn_ok:
  assumes "commit_fn env ds best m = (None, m')"
  obtains m1 where "add_files (fxAdd env) 0 ds m = (None, m1)" "parquet_files m' = parquet_files m1"
    "watermark_row m' = (case best of None \<Rightarrow> watermark_row m
       | Some d \<Rightarrow> map_option (\<lambda>_. \<lparr>LastID = cmMaxID d, LastTS = cmMaxTS d, wmUpdatedAt = fxUpdateNow env\<rparr>) (watermark_row m))"
  using assms add_files_watermark [of "fxAdd env" 0 ds m]
  by (auto simp: commit_fn_def UpdateWatermarkTx_def set_watermark_def split: prod.splits option.splits)

lemma advanceTo_mem: "advanceTo um ds best = Some d \<Longrightarrow> d \<in> set ds \<or> best = Some d"
  by (induction um ds best rule: advanceTo.induct) (auto split: if_splits)

lemma flush_ok_cases:
  assumes "flush env cfg s = (FlushOK, s')" "watermark_row (man s) = Some wm"
  defines "groups \<equiv> groupEvents (flush_batch env cfg wm (hot s))"
  defines "ready \<equiv> readyGroups (fxReadyNow env) groups (fcTargetSize cfg)"
  obtains (idle) "man s' = man s" "hot s' = hot s"
  | (commit) ds f' where "write_groups env (fcWriter cfg) groups ready 0 [] (fs s) = (Inr ds, f')"
      "hot s' = hot s" "fs s' = f'" "ds \<noteq> []"
      "commit_fn env (sort_key cmMinID ds) (advanceTo (unreadyMax groups ready) (sort_key cmMinID ds) None) (man s)
        = (None, man s')"
proof -
  have wm: "get_watermark (fxWatermark env) (man s) = Inr wm" "get_watermark (fxReRead env) (man s) = Inr wm \<or>
      (\<exists>e. get_watermark (fxReRead env) (man s) = Inl e)"
    using assms(1,2) by (auto simp: get_watermark_def flush_def split: option.splits)
  show thesis
  proof (cases "flush_batch env cfg wm (hot s) = []")
    case True
    then show thesis using assms(1) wm(1) by (intro idle) (simp_all add: flush_def)
  next
    case False
    obtain w f' where w: "write_groups env (fcWriter cfg) groups ready 0 [] (fs s) = (w, f')" by force
    show thesis
    proof (cases w)
      case (Inl out)
      then have "s' = s\<lparr>fs := f'\<rparr>"
        using assms(1) wm(1) False w by (simp add: flush_def Let_def groups_def ready_def)
      then show thesis by (intro idle) simp_all
    next
      case (Inr ds)
      show thesis
      proof (cases "ds = []")
        case True
        then have "s' = s\<lparr>fs := f'\<rparr>"
          using assms(1) wm(1) False w Inr by (simp add: flush_def Let_def groups_def ready_def)
        then show thesis by (intro idle) simp_all
      next
        case ne: False
        let ?fn = "commit_fn env (sort_key cmMinID ds) (advanceTo (unreadyMax groups ready) (sort_key cmMinID ds) None)"
        have "\<exists>m'. Transaction (fxBegin env) (fxCommit env) ?fn (man s) = (None, m') \<and> s' = s\<lparr>fs := f', man := m'\<rparr>"
          using assms(1) wm False w Inr ne
          by (auto simp: flush_def Let_def groups_def ready_def split: prod.splits option.splits)
        then obtain m' where "Transaction (fxBegin env) (fxCommit env) ?fn (man s) = (None, m')"
          and s': "s' = s\<lparr>fs := f', man := m'\<rparr>" by blast
        from Transaction_ok [OF this(1)] show thesis
          using w Inr ne s' by (intro commit [of ds f']) simp_all
      qed
    qed
  qed
qed

section \<open>The batch\<close>

lemma flush_batch_eq:
  assumes "hot_inv h" "fxHotQuery env = None" "fxHotScan env = None"
  shows "flush_batch env cfg wm h = map (scan_row (fxDec env))
     (take (nat (qLimit (ApplyDefaults (flush_query wm (fcBatchLimit cfg)))))
        (sort_key cId (live_rows (ApplyDefaults (flush_query wm (fcBatchLimit cfg))) h)))"
  using HotQuery_events [OF assms(1)] assms(2,3) by (simp add: flush_batch_def)

lemma live_rows_flush_query:
  "set (live_rows (ApplyDefaults (flush_query wm n)) h) = {r \<in> set (live_rows empty_query h). LastID wm < cId r \<or> LastID wm = []}"
  by (auto simp: live_rows_def hot_where_def flush_query_def empty_query_def ApplyDefaults_def)

lemma sorted_take_below:
  assumes "sorted (map f xs)" "x \<in> set xs" "f x < f y" "y \<in> set (take n xs)"
  shows "(x::'a) \<in> set (take n xs)"
proof (rule ccontr)
  assume "x \<notin> set (take n xs)"
  then have "x \<in> set (drop n xs)" using assms(2) by (metis Un_iff append_take_drop_id set_append)
  moreover have "sorted (map f (take n xs) @ map f (drop n xs))"
    using assms(1) by (metis append_take_drop_id map_append)
  ultimately have "f y \<le> f x" using assms(4) by (auto simp: sorted_append)
  with assms(3) show False by simp
qed

text \<open>Every live row up to an identifier of the batch is in the batch.\<close>

lemma flush_batch_closed:
  assumes "hot_inv h" "fxHotQuery env = None" "fxHotScan env = None"
    "inj_on cId (set (live_rows empty_query h))"
    "r \<in> set (live_rows empty_query h)" "LastID wm < cId r" "cId r \<le> b"
    "b \<in> ID ` set (flush_batch env cfg wm h)"
  shows "scan_row (fxDec env) r \<in> set (flush_batch env cfg wm h)"
proof -
  let ?q = "ApplyDefaults (flush_query wm (fcBatchLimit cfg))"
  let ?xs = "sort_key cId (live_rows ?q h)" and ?n = "nat (qLimit ?q)"
  obtain y where y: "y \<in> set (take ?n ?xs)" "b = cId y"
    using assms(8) by (auto simp: flush_batch_eq [OF assms(1-3)])
  have ylive: "y \<in> set (live_rows empty_query h)"
    using set_take_subset [of ?n ?xs] y(1) by (auto simp: live_rows_flush_query)
  have rmem: "r \<in> set ?xs" using assms(5,6) by (simp add: live_rows_flush_query)
  have "r \<in> set (take ?n ?xs)"
  proof (cases "cId r = cId y")
    case True
    then show ?thesis using assms(4,5) ylive y(1) by (metis inj_onD)
  next
    case False
    then show ?thesis using sorted_take_below [OF sorted_sort_key rmem _ y(1)] assms(7) y(2) by simp
  qed
  then show ?thesis by (simp add: flush_batch_eq [OF assms(1-3)])
qed

lemma flush_batch_above:
  assumes "hot_inv h" "fxHotQuery env = None" "fxHotScan env = None" "e \<in> set (flush_batch env cfg wm h)"
  shows "LastID wm < ID e \<or> LastID wm = []"
proof -
  obtain r where "r \<in> set (live_rows (ApplyDefaults (flush_query wm (fcBatchLimit cfg))) h)" "ID e = cId r"
    using assms(4) set_take_subset by (fastforce simp: flush_batch_eq [OF assms(1-3)])
  then show ?thesis by (auto simp: live_rows_flush_query)
qed

section \<open>Properties of a cycle\<close>

lemma flush_fault_frame:
  assumes "flush env cfg s = (out, s')" "out \<noteq> FlushOK"
  shows "man s' = man s \<and> hot s' = hot s"
  using assms
  by (auto simp: flush_def Let_def dest: Transaction_error split: sum.splits if_splits prod.splits option.splits)

lemma flush_hot: "hot (snd (flush env cfg s)) = hot s"
  by (auto simp: flush_def Let_def split: sum.splits prod.splits option.splits)

lemma flush_manifest_wf [inv_intros]:
  assumes "manifest_wf (man s)"
  shows "manifest_wf (man (snd (flush env cfg s)))"
proof -
  obtain wm where wm: "watermark_row (man s) = Some wm" using assms by (auto simp: manifest_wf_def)
  obtain out s' where f: "flush env cfg s = (out, s')" by force
  show ?thesis
  proof (cases "out = FlushOK")
    case True
    from flush_ok_cases [OF f [unfolded True] wm] show ?thesis
      using f assms by (metis commit_fn_wf snd_conv)
  next
    case False
    then show ?thesis using flush_fault_frame [OF f] f assms by simp
  qed
qed

lemma group_rows_ids:
  assumes "k \<in> set (readyGroups now (groupEvents b) t)" "x \<in> pID ` set (group_rows env (groupEvents b) k)"
  shows "x \<in> ID ` set b"
  using assms ready_group_events [OF assms(1)] by (auto simp: group_rows_def group_sort_def)

lemma flush_watermark_step:
  assumes "flush env cfg s = (FlushOK, s')" "watermark_row (man s) = Some wm" "pwS3 (fcWriter cfg) = None"
    "watermark_row (man s') = Some wm'"
    "distinct (group_paths env (fcWriter cfg) (groupEvents (flush_batch env cfg wm (hot s)))
       (readyGroups (fxReadyNow env) (groupEvents (flush_batch env cfg wm (hot s))) (fcTargetSize cfg)) 0)"
  shows "wm' = wm \<or> LastID wm' \<in> ID ` set (flush_batch env cfg wm (hot s))"
  using assms(1,2)
proof (cases rule: flush_ok_cases)
  case idle
  then show ?thesis using assms(2,4) by simp
next
  case (commit ds f')
  let ?g = "groupEvents (flush_batch env cfg wm (hot s))"
  let ?best = "advanceTo (unreadyMax ?g (readyGroups (fxReadyNow env) ?g (fcTargetSize cfg))) (sort_key cmMinID ds) None"
  obtain rs where rs: "ds = [] @ rs" "map cmKey rs = readyGroups (fxReadyNow env) ?g (fcTargetSize cfg)"
    "\<forall>d\<in>set rs. cmMaxID d \<in> pID ` set (group_rows env ?g (cmKey d))"
    using write_groups_ok [OF commit(1) assms(3,5)] by blast
  show ?thesis
  proof (cases ?best)
    case None
    with commit_fn_ok [OF commit(5)] assms(2,4) show ?thesis by (metis option.case(1) option.inject)
  next
    case (Some d)
    then have "d \<in> set rs" using advanceTo_mem [OF Some] rs(1) by auto
    moreover from this have "cmKey d \<in> set (readyGroups (fxReadyNow env) ?g (fcTargetSize cfg))"
      using rs(2) by (metis image_eqI list.set_map)
    ultimately have "cmMaxID d \<in> ID ` set (flush_batch env cfg wm (hot s))"
      using rs(3) group_rows_ids by blast
    moreover obtain m1 where "watermark_row (man s') = map_option (\<lambda>_. \<lparr>LastID = cmMaxID d, LastTS = cmMaxTS d, wmUpdatedAt = fxUpdateNow env\<rparr>) (watermark_row (man s))"
      using commit_fn_ok [OF commit(5)] Some by (metis option.case(2))
    ultimately show ?thesis using assms(2,4) by auto
  qed
qed

lemma mem_sorted_group_rows:
  assumes "e \<in> set b" "event_key e \<in> set (readyGroups now (groupEvents b) t)"
  shows "eventToParquet (fxEnc env) e \<in> set (group_rows env (groupEvents b) (event_key e))"
  using assms(1) by (simp add: group_rows_def group_sort_def ready_group_events [OF assms(2)])

text \<open>The file names and identifiers of a cycle are new: the names carry the clock and a hash, the
  identifiers are a digest of the group's bounds.\<close>

definition fresh_names :: "flush_env \<Rightarrow> flusher_cfg \<Rightarrow> Watermark \<Rightarrow> tse \<Rightarrow> bool" where
  "fresh_names env cfg wm s =
     (let groups = groupEvents (flush_batch env cfg wm (hot s));
          ready = readyGroups (fxReadyNow env) groups (fcTargetSize cfg);
          paths = group_paths env (fcWriter cfg) groups ready 0;
          fids = map (group_fileid env groups) ready
      in distinct paths \<and> distinct fids \<and>
         (\<forall>f\<in>set (parquet_files (man s)). pfPath f \<notin> set paths \<and> pfFileID f \<notin> set fids))"

definition in_ready_group :: "flush_env \<Rightarrow> flusher_cfg \<Rightarrow> Watermark \<Rightarrow> tse \<Rightarrow> event \<Rightarrow> bool" where
  "in_ready_group env cfg wm s e \<longleftrightarrow>
     event_key e \<in> set (readyGroups (fxReadyNow env) (groupEvents (flush_batch env cfg wm (hot s))) (fcTargetSize cfg))"

lemma batch_event_stored:
  assumes ok: "flush env cfg s = (FlushOK, s')" and wm: "watermark_row (man s) = Some wm"
    and loc: "pwS3 (fcWriter cfg) = None" and fresh: "fresh_names env cfg wm s"
    and pk: "\<forall>k. \<not> isPKConflict (fxAdd env k)" and moved: "man s' \<noteq> man s"
    and e: "e \<in> set (flush_batch env cfg wm (hot s))" "in_ready_group env cfg wm s e"
  shows "\<exists>f\<in>set (parquet_files (man s')). \<exists>rows. pfStatus f = ''committed'' \<and>
    local_files (fs s') (pfPath f) = Some rows \<and> eventToParquet (fxEnc env) e \<in> set rows"
  using ok wm
proof (cases rule: flush_ok_cases)
  case idle
  then show ?thesis using moved by simp
next
  case (commit ds f')
  let ?g = "groupEvents (flush_batch env cfg wm (hot s))"
  let ?r = "readyGroups (fxReadyNow env) ?g (fcTargetSize cfg)"
  let ?paths = "group_paths env (fcWriter cfg) ?g ?r 0" and ?fids = "map (group_fileid env ?g) ?r"
  let ?best = "advanceTo (unreadyMax ?g ?r) (sort_key cmMinID ds) None"
  have fr: "distinct ?paths" "distinct ?fids"
      "\<And>f. f \<in> set (parquet_files (man s)) \<Longrightarrow> pfPath f \<notin> set ?paths \<and> pfFileID f \<notin> set ?fids"
    using fresh by (auto simp: fresh_names_def Let_def)
  obtain rs where "ds = [] @ rs" and rs: "map cmKey rs = ?r" "map (\<lambda>d. pfFileID (cmRecord d)) rs = ?fids"
    "map (\<lambda>d. pfPath (cmRecord d)) rs = ?paths"
    "\<forall>d\<in>set rs. local_files f' (pfPath (cmRecord d)) = Some (group_rows env ?g (cmKey d))"
    using write_groups_ok [OF commit(1) loc fr(1)] by blast
  then have ds: "ds = rs" by simp
  obtain m1 where add: "add_files (fxAdd env) 0 (sort_key cmMinID ds) (man s) = (None, m1)"
    and pf: "parquet_files (man s') = parquet_files m1"
    using commit_fn_ok [OF commit(5)] by metis
  have perm: "distinct (map g (sort_key cmMinID ds))" if "distinct (map g rs)" for g :: "committed \<Rightarrow> string"
    using that by (simp add: ds distinct_map)
  have "pfFileID (cmRecord d) \<in> set ?fids \<and> pfPath (cmRecord d) \<in> set ?paths" if "d \<in> set rs" for d
    using that rs(2,3) by (metis (no_types, lifting) image_eqI list.set_map)
  then have new: "\<forall>d\<in>set (sort_key cmMinID ds). pfFileID (cmRecord d) \<notin> pfFileID ` set (parquet_files (man s)) \<and>
      pfPath (cmRecord d) \<notin> pfPath ` set (parquet_files (man s))"
    using fr(3) unfolding ds by fastforce
  have files: "parquet_files m1 = parquet_files (man s) @
      map (\<lambda>d. (cmRecord d)\<lparr>pfStatus := ''committed''\<rparr>) (sort_key cmMinID ds)"
    using add_files_ok [OF add pk perm perm new] rs(2,3) fr(1,2) by simp
  obtain d where d: "d \<in> set rs" "cmKey d = event_key e"
    using e(2) rs(1) unfolding in_ready_group_def by (metis (no_types, lifting) image_iff list.set_map)
  let ?f = "(cmRecord d)\<lparr>pfStatus := ''committed''\<rparr>"
  have "?f \<in> set (parquet_files (man s'))" using d(1) by (simp add: pf files ds)
  moreover have "local_files (fs s') (pfPath ?f) = Some (group_rows env ?g (event_key e))"
    using rs(4) d commit(3) by simp
  ultimately show ?thesis
    using mem_sorted_group_rows [OF e(1)] e(2) by (intro bexI [of _ ?f]) (auto simp: in_ready_group_def)
qed

section \<open>Instances\<close>

definition sample_flush_env :: "int \<Rightarrow> flush_env" where
  "sample_flush_env now = \<lparr>fxEnc = no_annotations, fxDec = (\<lambda>_. None), fxZone = utc, fxSha = (\<lambda>s. s),
     fxWatermark = None, fxHotQuery = None, fxHotScan = None, fxReadyNow = now,
     fxWrite = (\<lambda>k. no_write_faults (int k)), fxStamp = (\<lambda>_. now), fxReRead = None, fxBegin = None,
     fxAdd = (\<lambda>_. None), fxUpdate = None, fxUpdateNow = now, fxCommit = None\<rparr>"

definition sample_cfg :: flusher_cfg where "sample_cfg = NewFlusher 0 10 local_writer"

definition sample_tse :: "(string \<times> event list) list \<Rightarrow> tse" where
  "sample_tse ts = \<lparr>hot = sample_hot ts, man = sample_manifest, fs = no_files\<rparr>"

text \<open>Two events of an early hour; and one event of an early hour between two of a late hour in
  identifier order.\<close>

definition early_events :: "(string \<times> event list) list" where
  "early_events = [(''edr_events_1970010100'', [sample_event ''00000001'' ''t'' ''a'' 1000,
     sample_event ''00000002'' ''t'' ''b'' 2000])]"

definition mixed_events :: "(string \<times> event list) list" where
  "mixed_events = [(''edr_events_1970010100'', [sample_event ''00000002'' ''t'' ''a'' 1000]),
     (''edr_events_1970010908'', [sample_event ''00000001'' ''t'' ''a'' 720000000000,
       sample_event ''00000003'' ''t'' ''a'' 720000000001])]"

definition sample_now :: int where "sample_now = 400000000000"

lemma early_inv: "hot_inv (sample_hot early_events)"
  by (rule sample_hot_inv; code_simp)

lemma mixed_inv: "hot_inv (sample_hot mixed_events)"
  by (rule sample_hot_inv; code_simp)

abbreviation sample_cycle :: "(string \<times> event list) list \<Rightarrow> tse" where
  "sample_cycle ts \<equiv> snd (flush (sample_flush_env sample_now) sample_cfg (sample_tse ts))"

definition start_watermark :: Watermark where
  "start_watermark = \<lparr>LastID = [], LastTS = 0, wmUpdatedAt = 0\<rparr>"

definition early_watermark :: Watermark where
  "early_watermark = \<lparr>LastID = ''00000002'', LastTS = 2000, wmUpdatedAt = sample_now\<rparr>"

lemma sample_env_sel [simp]:
  "fxHotQuery (sample_flush_env now) = None" "fxHotScan (sample_flush_env now) = None"
  "fxAdd (sample_flush_env now) k = None" "pwS3 (fcWriter sample_cfg) = None"
  "fxEnc (sample_flush_env now) = no_annotations" "fxDec (sample_flush_env now) = (\<lambda>_. None)"
  "hot (sample_tse ts) = sample_hot ts" "man (sample_tse ts) = sample_manifest"
  by (simp_all add: sample_flush_env_def sample_cfg_def NewFlusher_def local_writer_def sample_tse_def)

lemma early_flush:
  "flush (sample_flush_env sample_now) sample_cfg (sample_tse early_events) = (FlushOK, sample_cycle early_events)"
  "watermark_row (man (sample_cycle early_events)) = Some early_watermark"
proof -
  have "(case flush (sample_flush_env sample_now) sample_cfg (sample_tse early_events) of
      (out, s) \<Rightarrow> out = FlushOK \<and> watermark_row (man s) = Some early_watermark)"
    by code_simp
  then show "flush (sample_flush_env sample_now) sample_cfg (sample_tse early_events) = (FlushOK, sample_cycle early_events)"
    "watermark_row (man (sample_cycle early_events)) = Some early_watermark"
    by (auto split: prod.splits)
qed

lemma sample_watermark: "watermark_row sample_manifest = Some start_watermark"
  by code_simp

lemma early_facts:
  "fresh_names (sample_flush_env sample_now) sample_cfg start_watermark (sample_tse early_events)"
  "inj_on cId (set (live_rows empty_query (sample_hot early_events)))"
  "to_row no_annotations (sample_event ''00000001'' ''t'' ''a'' 1000) \<in> set (live_rows empty_query (sample_hot early_events))"
  "in_ready_group (sample_flush_env sample_now) sample_cfg start_watermark (sample_tse early_events)
     (scan_row (\<lambda>_. None) (to_row no_annotations (sample_event ''00000001'' ''t'' ''a'' 1000)))"
  by code_simp+

section \<open>Claims\<close>



text \<open>The watermark never moves back: a successful flush leaves it or raises its identifier.\<close>

theorem flush_watermark_monotone:
  assumes "hot_inv (hot s)" "fxHotQuery env = None" "fxHotScan env = None"
    and "flush env cfg s = (FlushOK, s')" "watermark_row (man s) = Some wm"
    and "pwS3 (fcWriter cfg) = None" "fresh_names env cfg wm s" "watermark_row (man s') = Some wm'"
  shows "LastID wm \<le> LastID wm'"
proof -
  from flush_watermark_step [OF assms(4-6,8)] assms(7)
  consider "wm' = wm" | e where "e \<in> set (flush_batch env cfg wm (hot s))" "LastID wm' = ID e"
    by (auto simp: fresh_names_def Let_def)
  then show ?thesis
  proof cases
    case (2 e)
    then show ?thesis using flush_batch_above [OF assms(1-3) 2(1)] by (cases "ID e") (auto intro: less_imp_le)
  qed simp
qed

theorem flush_watermark_monotone_witness: "LastID start_watermark \<le> LastID early_watermark"
  using flush_watermark_monotone [of "sample_tse early_events" "sample_flush_env sample_now" sample_cfg
      "sample_cycle early_events" start_watermark early_watermark]
    early_inv early_flush sample_watermark early_facts(1)
  by simp

text \<open>C40. A cycle that fails or panics leaves the manifest and the hot store as they were.\<close>

theorem flush_failure_keeps_state:
  assumes "flush env cfg s = (out, s')" "out \<noteq> FlushOK"
  shows "man s' = man s \<and> hot s' = hot s"
  using flush_fault_frame [OF assms] by simp

theorem flush_failure_keeps_state_witness:
  "man (snd (flush ((sample_flush_env sample_now)\<lparr>fxCommit := Some ''disk I/O error''\<rparr>) sample_cfg (sample_tse early_events)))
     = sample_manifest"
proof -
  let ?e = "(sample_flush_env sample_now)\<lparr>fxCommit := Some ''disk I/O error''\<rparr>"
  have "fst (flush ?e sample_cfg (sample_tse early_events)) \<noteq> FlushOK" by code_simp
  with flush_failure_keeps_state [of ?e sample_cfg "sample_tse early_events"
      "fst (flush ?e sample_cfg (sample_tse early_events))" "snd (flush ?e sample_cfg (sample_tse early_events))"]
  show ?thesis by simp
qed

text \<open>
  An event of an unready group can be passed by the watermark: with one ready event between
  two unready ones in identifier order, the watermark advances past the first of them, which is
  in no file and below every later batch.
\<close>

theorem flush_passes_unready:
  "map_option LastID (watermark_row (man (sample_cycle mixed_events))) = Some ''00000002'' \<and>
   map pID (concat (map (\<lambda>f. case local_files (fs (sample_cycle mixed_events)) (pfPath f) of None \<Rightarrow> [] | Some rows \<Rightarrow> rows)
     (parquet_files (man (sample_cycle mixed_events))))) = [''00000002''] \<and>
   ''00000001'' \<in> cId ` set (live_rows empty_query (sample_hot mixed_events))"
proof -
  have "(case sample_cycle mixed_events of s \<Rightarrow>
      map_option LastID (watermark_row (man s)) = Some ''00000002'' \<and>
      map pID (concat (map (\<lambda>f. case local_files (fs s) (pfPath f) of None \<Rightarrow> [] | Some rows \<Rightarrow> rows)
       (parquet_files (man s)))) = [''00000002''])"
    by code_simp
  moreover have "''00000001'' \<in> cId ` set (live_rows empty_query (sample_hot mixed_events))" by code_simp
  ultimately show ?thesis by simp
qed

text \<open>
  When a group is ready: its estimated size reaches the target, or more than 83 hours and 20
  minutes (the straggler window of \<open>5 * time.Minute\<close> nanoseconds read as microseconds) have
  passed since the end of its hour.  The row and byte minimums play no part.
\<close>

theorem readyGroups_spec:
  "k \<in> set (readyGroups now (groupEvents evs) target) \<longleftrightarrow> k \<in> event_key ` set evs \<and>
     (target \<le> estimateSize (filter (\<lambda>e. event_key e = k) evs) \<or> gkHour k + 3600000000 + 300000000000 < now)"
proof -
  have "filter (\<lambda>e. event_key e = k) evs \<noteq> []" if "k \<in> event_key ` set evs"
    using that by (auto simp: filter_empty_conv)
  then show ?thesis
    by (auto simp: readyGroups_iff groupEvents_def group_into_mem group_ready_iff stragglerWindow_def
        hour_us_def Minute_def Second_def Microsecond_def)
qed

end
