(* ===== verification/Cold_Reader.thy ===== *)
theory Cold_Reader
  imports Parquet_Writer
begin

text \<open>
  \<open>internal/storage/cold\<close>: \<open>ParquetReader.QueryFiles\<close> with its row-group pruning, row filter,
  early termination and final sort, and \<open>MergeResults\<close>.  What the Parquet library delivers
  for a file (its row groups, their column indexes and the outcomes of successive reads) and
  the outcome of opening or downloading a file are inputs; contexts are not cancelled.
\<close>

section \<open>What the library and the file system deliver\<close>

datatype read_err = NoErr | EOF | ReadErr string

text \<open>A column index: the read error, or the minimum and maximum of each page.\<close>

datatype 'v column_index = IndexError | Pages "('v \<times> 'v) list"

record rowgroup =
  rgColumns :: nat
  rgTs :: "int column_index"
  rgSev :: "int column_index"
  rgAgent :: "string column_index"
  rgReads :: "(TraceEventParquet list \<times> read_err) list"

datatype file_view = FileMissing | OpenError string | BadMagic | ReopenError string | RowGroups "rowgroup list"

datatype s3_outcome = DownloadErr string | StageErr string | Staged string

record cold_env =
  ceS3 :: "(string \<Rightarrow> s3_outcome) option"
  ceView :: "string \<Rightarrow> file_view"

datatype cold_warning =
    WS3NotConfigured string | WS3Download string string | WS3Stage string
  | WNotFound string | WOpen string string | WInvalid string | WReopen string string
  | WReadRG string string

section \<open>Rows to events\<close>

type_synonym json_dec = "string \<Rightarrow> annotations option"

text \<open>The composite literal of the source names neither \<open>TenantID\<close> nor \<open>Severity\<close>: they keep
  Go's zero values.\<close>

definition parquetToEvent :: "json_dec \<Rightarrow> TraceEventParquet \<Rightarrow> event" where
  "parquetToEvent dec r = \<lparr>ID = pID r, TenantID = [], AgentID = pAgentID r,
     Timestamp = pTimestampUs r, IngestedAt = pIngestedAt r, EventType = pEventType r, Severity = 0,
     ProcessName = pProcessName r, Cmdline = pCmdline r, ParentPID = pParentPID r, SHA256 = pSHA256 r,
     DestIP = pDestIP r, SrcIP = pSrcIP r, UserName = pUserName r, Hostname = pHostname r,
     DataRaw = pDataRaw r,
     Annotations = (if pAnnotations r = [] then []
       else case dec (pAnnotations r) of None \<Rightarrow> [] | Some m \<Rightarrow> m)\<rparr>"

definition contains_fold :: "string list \<Rightarrow> string \<Rightarrow> bool" where
  "contains_fold xs v \<longleftrightarrow> (\<exists>s\<in>set xs. EqualFold s v)"

definition row_matches :: "query \<Rightarrow> TraceEventParquet \<Rightarrow> bool" where
  "row_matches q r \<longleftrightarrow>
     \<not> (qTenantID q \<noteq> [] \<and> pTenantID r \<noteq> qTenantID q) \<and>
     \<not> (qSinceUs q > 0 \<and> pTimestampUs r < qSinceUs q) \<and>
     \<not> (qUntilUs q > 0 \<and> pTimestampUs r \<ge> qUntilUs q) \<and>
     \<not> (qMinSeverity q > 0 \<and> pSeverity r < qMinSeverity q) \<and>
     \<not> (qAgentIDs q \<noteq> [] \<and> \<not> contains_fold (qAgentIDs q) (pAgentID r)) \<and>
     \<not> (qEventTypes q \<noteq> [] \<and> \<not> contains_fold (qEventTypes q) (pEventType r)) \<and>
     \<not> (qMinID q \<noteq> [] \<and> pID r \<le> qMinID q) \<and>
     \<not> (qMaxID q \<noteq> [] \<and> pID r > qMaxID q) \<and>
     \<not> (qCursor q \<noteq> [] \<and> pID r \<le> qCursor q)"

section \<open>Row-group pruning\<close>

fun fold_pages :: "'v::linorder \<times> 'v \<Rightarrow> ('v \<times> 'v) list \<Rightarrow> 'v \<times> 'v" where
  "fold_pages (mn, mx) [] = (mn, mx)"
| "fold_pages (mn, mx) ((a, b) # ps) =
     fold_pages (if a < mn then a else mn, if b > mx then b else mx) ps"

fun columnMinMax :: "int column_index \<Rightarrow> int \<times> int" where
  "columnMinMax IndexError = (0, 0)"
| "columnMinMax (Pages []) = (0, 0)"
| "columnMinMax (Pages (p # ps)) = fold_pages p ps"

fun columnMinMaxStr :: "string column_index \<Rightarrow> string \<times> string" where
  "columnMinMaxStr IndexError = ([], [])"
| "columnMinMaxStr (Pages []) = ([], [])"
| "columnMinMaxStr (Pages (p # ps)) = fold_pages p ps"

definition ts_may_match :: "rowgroup \<Rightarrow> query \<Rightarrow> bool" where
  "ts_may_match rg q \<longleftrightarrow>
     (qSinceUs q > 0 \<or> qUntilUs q > 0 \<longrightarrow>
       (let (tsMin, tsMax) = columnMinMax (rgTs rg) in
        \<not> (qSinceUs q > 0 \<and> tsMax < qSinceUs q) \<and> \<not> (qUntilUs q > 0 \<and> tsMin \<ge> qUntilUs q)))"

definition sev_may_match :: "rowgroup \<Rightarrow> query \<Rightarrow> bool" where
  "sev_may_match rg q \<longleftrightarrow>
     (qMinSeverity q > 0 \<longrightarrow> \<not> (to_int32 (snd (columnMinMax (rgSev rg))) < to_int32 (qMinSeverity q)))"

definition agent_may_match :: "rowgroup \<Rightarrow> query \<Rightarrow> bool" where
  "agent_may_match rg q \<longleftrightarrow>
     (qAgentIDs q \<noteq> [] \<longrightarrow>
       (let (agMin, agMax) = columnMinMaxStr (rgAgent rg) in
        agMin \<noteq> [] \<and> agMax \<noteq> [] \<longrightarrow> (\<exists>agent\<in>set (qAgentIDs q). agent \<ge> agMin \<and> agent \<le> agMax)))"

definition rgMayMatch :: "rowgroup \<Rightarrow> query \<Rightarrow> bool" where
  "rgMayMatch rg q \<longleftrightarrow>
     (if rgColumns rg \<le> 6 then True
      else ts_may_match rg q \<and> sev_may_match rg q \<and> agent_may_match rg q)"

section \<open>Scanning\<close>

definition limit_reached :: "query \<Rightarrow> event list \<Rightarrow> bool" where
  "limit_reached q acc \<longleftrightarrow> qLimit q > 0 \<and> int (length acc) \<ge> qLimit q * 2"

text \<open>The rows of one read: filter, convert, stop as soon as twice the limit is reached.\<close>

fun scan_rows :: "json_dec \<Rightarrow> query \<Rightarrow> TraceEventParquet list \<Rightarrow> event list \<Rightarrow> event list \<times> bool" where
  "scan_rows dec q [] acc = (acc, False)"
| "scan_rows dec q (r # rs) acc =
     (if \<not> row_matches q r then scan_rows dec q rs acc
      else let acc' = acc @ [parquetToEvent dec r] in
           if limit_reached q acc' then (acc', True) else scan_rows dec q rs acc')"

text \<open>The read loop of a row group; a reader with nothing left to deliver returns \<open>n = 0\<close>.\<close>

fun scan_reads :: "json_dec \<Rightarrow> string \<Rightarrow> query \<Rightarrow> (TraceEventParquet list \<times> read_err) list \<Rightarrow>
    event list \<Rightarrow> cold_warning list \<Rightarrow> event list \<times> cold_warning list" where
  "scan_reads dec path q [] acc ws = (acc, ws)"
| "scan_reads dec path q ((rows, rerr) # rest) acc ws =
     (if limit_reached q acc then (acc, ws)
      else let (acc', done_flag) = scan_rows dec q rows acc in
        if rerr = EOF \<or> rows = [] then (acc', ws)
        else (case rerr of
            ReadErr e \<Rightarrow> (acc', ws @ [WReadRG path e])
          | _ \<Rightarrow> if done_flag then (acc', ws) else scan_reads dec path q rest acc' ws))"

fun scan_groups :: "json_dec \<Rightarrow> string \<Rightarrow> query \<Rightarrow> rowgroup list \<Rightarrow> event list \<Rightarrow>
    cold_warning list \<Rightarrow> event list \<times> cold_warning list" where
  "scan_groups dec path q [] acc ws = (acc, ws)"
| "scan_groups dec path q (rg # rgs) acc ws =
     (if \<not> rgMayMatch rg q then scan_groups dec path q rgs acc ws
      else let (acc', ws') = scan_reads dec path q (rgReads rg) acc ws in
        if limit_reached q acc' then (acc', ws') else scan_groups dec path q rgs acc' ws')"

definition resolve_path :: "cold_env \<Rightarrow> string \<Rightarrow> cold_warning + string" where
  "resolve_path env path =
     (if IsS3Path path then
        (case ceS3 env of
           None \<Rightarrow> Inl (WS3NotConfigured path)
         | Some dl \<Rightarrow> (case dl (snd (ParseS3Path path)) of
             DownloadErr e \<Rightarrow> Inl (WS3Download path e)
           | StageErr e \<Rightarrow> Inl (WS3Stage e)
           | Staged tmp \<Rightarrow> Inr tmp))
      else Inr path)"

fun scan_file :: "json_dec \<Rightarrow> cold_env \<Rightarrow> query \<Rightarrow> FileInfo \<Rightarrow> event list \<Rightarrow> cold_warning list \<Rightarrow>
    event list \<times> cold_warning list" where
  "scan_file dec env q fi acc ws =
     (case resolve_path env (fiPath fi) of
        Inl w \<Rightarrow> (acc, ws @ [w])
      | Inr p \<Rightarrow> (case ceView env p of
          FileMissing \<Rightarrow> (acc, ws @ [WNotFound p])
        | OpenError e \<Rightarrow> (acc, ws @ [WOpen (fiPath fi) e])
        | BadMagic \<Rightarrow> (acc, ws @ [WInvalid (fiPath fi)])
        | ReopenError e \<Rightarrow> (acc, ws @ [WReopen (fiPath fi) e])
        | RowGroups rgs \<Rightarrow> scan_groups dec (fiPath fi) q rgs acc ws))"

fun scan_files :: "json_dec \<Rightarrow> cold_env \<Rightarrow> query \<Rightarrow> FileInfo list \<Rightarrow> event list \<Rightarrow>
    cold_warning list \<Rightarrow> event list \<times> cold_warning list" where
  "scan_files dec env q [] acc ws = (acc, ws)"
| "scan_files dec env q (fi # fis) acc ws =
     (if limit_reached q acc then (acc, ws)
      else let (acc', ws') = scan_file dec env q fi acc ws in scan_files dec env q fis acc' ws')"

text \<open>The cursor is set from the deduplicated list before it is cut to the limit.\<close>

definition QueryFiles :: "json_dec \<Rightarrow> cold_env \<Rightarrow> FileInfo list \<Rightarrow> query \<Rightarrow> cold_warning qresult" where
  "QueryFiles dec env files q0 =
     (let q = ApplyDefaults q0;
          (allEvents, warnings) = scan_files dec env q files [] [];
          deduped = (if allEvents = [] then [] else MergeSortDedupByID allEvents);
          cursor = (if deduped = [] then [] else ID (last deduped));
          events = (if qLimit q > 0 \<and> int (length deduped) > qLimit q
                    then take (nat (qLimit q)) deduped else deduped)
      in \<lparr>rEvents = events, rWarnings = warnings, rCursor = cursor, rTotal = int (length events)\<rparr>)"

definition MergeResults :: "'w qresult list \<Rightarrow> 'w qresult" where
  "MergeResults results =
     (case results of [] \<Rightarrow> empty_result
      | [r] \<Rightarrow> r
      | _ \<Rightarrow> (let deduped = MergeSortDedupByID (concat (map rEvents results))
              in \<lparr>rEvents = deduped, rWarnings = concat (map rWarnings results),
                  rCursor = (if deduped = [] then [] else ID (last deduped)),
                  rTotal = int (length deduped)\<rparr>))"

definition clampQuery :: "query \<Rightarrow> string \<Rightarrow> string \<Rightarrow> query" where
  "clampQuery q minID maxID =
     (let q1 = (if qMinID q \<noteq> [] \<and> qMinID q < minID then q\<lparr>qMinID := minID\<rparr> else q)
      in if qMaxID q1 \<noteq> [] \<and> qMaxID q1 > maxID then q1\<lparr>qMaxID := maxID\<rparr> else q1)"

section \<open>Pruning is sound for complete statistics\<close>

lemma fold_pages_bounds:
  "fst (fold_pages p ps) \<le> fst p \<and> snd p \<le> snd (fold_pages p ps) \<and>
   (\<forall>(a, b)\<in>set ps. fst (fold_pages p ps) \<le> a \<and> b \<le> snd (fold_pages p ps))"
proof (induction p ps rule: fold_pages.induct)
  case (2 mn mx a b ps)
  then show ?case by (fastforce split: if_splits)
qed simp

text \<open>The statistics of a row group are complete when every row of it lies within a page.\<close>

definition covers :: "'v::linorder column_index \<Rightarrow> 'v \<Rightarrow> bool" where
  "covers ci v \<longleftrightarrow> (case ci of IndexError \<Rightarrow> False | Pages ps \<Rightarrow> (\<exists>(a, b)\<in>set ps. a \<le> v \<and> v \<le> b))"

definition rg_rows :: "rowgroup \<Rightarrow> TraceEventParquet list" where
  "rg_rows rg = concat (map fst (rgReads rg))"

definition stats_cover :: "rowgroup \<Rightarrow> bool" where
  "stats_cover rg \<longleftrightarrow> (\<forall>r\<in>set (rg_rows rg). covers (rgTs rg) (pTimestampUs r) \<and>
     covers (rgSev rg) (pSeverity r) \<and> covers (rgAgent rg) (pAgentID r))"

lemma fold_pages_covers:
  assumes "(a, b) \<in> set (p # ps)" "a \<le> v" "v \<le> b"
  shows "fst (fold_pages p ps) \<le> v \<and> v \<le> snd (fold_pages p ps)"
  using assms fold_pages_bounds [of p ps] by (cases p) force

lemma columnMinMax_covers:
  assumes "covers ci v"
  shows "fst (columnMinMax ci) \<le> v \<and> v \<le> snd (columnMinMax ci)"
  using assms fold_pages_covers
  by (cases ci rule: columnMinMax.cases) (fastforce simp: covers_def)+

lemma columnMinMaxStr_covers:
  assumes "covers ci v"
  shows "fst (columnMinMaxStr ci) \<le> v \<and> v \<le> snd (columnMinMaxStr ci)"
  using assms fold_pages_covers
  by (cases ci rule: columnMinMaxStr.cases) (fastforce simp: covers_def)+

text \<open>
  What pruning needs of a row group: complete statistics, a severity column of 32-bit values, and
  agent identifiers that the case-insensitive filter and the case-sensitive range check judge alike.
\<close>

definition prunable :: "query \<Rightarrow> rowgroup \<Rightarrow> bool" where
  "prunable q rg \<longleftrightarrow> stats_cover rg \<and>
     - (2 ^ 31) \<le> snd (columnMinMax (rgSev rg)) \<and> snd (columnMinMax (rgSev rg)) < 2 ^ 31 \<and>
     (\<forall>a\<in>set (qAgentIDs q). \<forall>r\<in>set (rg_rows rg). EqualFold a (pAgentID r) \<longrightarrow> a = pAgentID r)"

lemma row_matchesD:
  assumes "row_matches q r"
  shows "0 < qSinceUs q \<Longrightarrow> qSinceUs q \<le> pTimestampUs r"
    and "0 < qUntilUs q \<Longrightarrow> pTimestampUs r < qUntilUs q"
    and "0 < qMinSeverity q \<Longrightarrow> qMinSeverity q \<le> pSeverity r"
    and "qAgentIDs q \<noteq> [] \<Longrightarrow> contains_fold (qAgentIDs q) (pAgentID r)"
    and "qTenantID q \<noteq> [] \<Longrightarrow> pTenantID r = qTenantID q"
  using assms unfolding row_matches_def by (simp_all add: not_less)

lemma ts_prune_sound:
  assumes "covers (rgTs rg) (pTimestampUs r)" "row_matches q r"
  shows "ts_may_match rg q"
proof -
  obtain a b where ab: "columnMinMax (rgTs rg) = (a, b)" by fastforce
  with columnMinMax_covers [OF assms(1)] have "a \<le> pTimestampUs r" "pTimestampUs r \<le> b" by auto
  with row_matchesD(1,2) [OF assms(2)] show ?thesis by (auto simp: ts_may_match_def ab)
qed

lemma sev_prune_sound:
  assumes "covers (rgSev rg) (pSeverity r)" "row_matches q r"
    and "- (2 ^ 31) \<le> snd (columnMinMax (rgSev rg))" "snd (columnMinMax (rgSev rg)) < 2 ^ 31"
  shows "sev_may_match rg q"
proof (cases "qMinSeverity q > 0")
  case True
  from columnMinMax_covers [OF assms(1)] row_matchesD(3) [OF assms(2) True]
  have le: "qMinSeverity q \<le> snd (columnMinMax (rgSev rg))" by simp
  with True assms(3,4) have "to_int32 (qMinSeverity q) = qMinSeverity q"
    "to_int32 (snd (columnMinMax (rgSev rg))) = snd (columnMinMax (rgSev rg))"
    by (auto intro!: to_int32_id)
  with le show ?thesis by (simp add: sev_may_match_def)
qed (simp add: sev_may_match_def)

lemma agent_prune_sound:
  assumes "covers (rgAgent rg) (pAgentID r)" "row_matches q r"
    and "\<forall>a\<in>set (qAgentIDs q). EqualFold a (pAgentID r) \<longrightarrow> a = pAgentID r"
  shows "agent_may_match rg q"
proof (cases "qAgentIDs q = []")
  case False
  obtain a b where ab: "columnMinMaxStr (rgAgent rg) = (a, b)" by fastforce
  from row_matchesD(4) [OF assms(2) False] assms(3) have "pAgentID r \<in> set (qAgentIDs q)"
    by (auto simp: contains_fold_def)
  with columnMinMaxStr_covers [OF assms(1)] show ?thesis
    by (auto simp: agent_may_match_def ab)
qed (simp add: agent_may_match_def)

lemma rgMayMatch_sound:
  assumes "prunable q rg" "r \<in> set (rg_rows rg)" "row_matches q r"
  shows "rgMayMatch rg q"
proof -
  from assms have c: "covers (rgTs rg) (pTimestampUs r)" "covers (rgSev rg) (pSeverity r)"
      "covers (rgAgent rg) (pAgentID r)"
    and ag: "\<forall>a\<in>set (qAgentIDs q). EqualFold a (pAgentID r) \<longrightarrow> a = pAgentID r"
    and sev: "- (2 ^ 31) \<le> snd (columnMinMax (rgSev rg))" "snd (columnMinMax (rgSev rg)) < 2 ^ 31"
    by (auto simp: prunable_def stats_cover_def)
  show ?thesis
    using ts_prune_sound [OF c(1) assms(3)] sev_prune_sound [OF c(2) assms(3) sev]
      agent_prune_sound [OF c(3) assms(3) ag]
    by (simp add: rgMayMatch_def)
qed

section \<open>Scanning finds every matching row below the early-termination bound\<close>

text \<open>A row group whose reads deliver all rows without an error.\<close>

fun reads_ok :: "(TraceEventParquet list \<times> read_err) list \<Rightarrow> bool" where
  "reads_ok [] = True"
| "reads_ok [(rows, e)] = (e = NoErr \<or> e = EOF)"
| "reads_ok ((rows, e) # rest) = (e = NoErr \<and> rows \<noteq> [] \<and> reads_ok rest)"

definition file_groups :: "cold_env \<Rightarrow> FileInfo \<Rightarrow> rowgroup list option" where
  "file_groups env fi =
     (case resolve_path env (fiPath fi) of
        Inl _ \<Rightarrow> None
      | Inr p \<Rightarrow> (case ceView env p of RowGroups rgs \<Rightarrow> Some rgs | _ \<Rightarrow> None))"

definition file_rows :: "cold_env \<Rightarrow> FileInfo \<Rightarrow> TraceEventParquet list" where
  "file_rows env fi = (case file_groups env fi of None \<Rightarrow> [] | Some rgs \<Rightarrow> concat (map rg_rows rgs))"

definition readable :: "cold_env \<Rightarrow> query \<Rightarrow> FileInfo \<Rightarrow> bool" where
  "readable env q fi \<longleftrightarrow>
     (case file_groups env fi of None \<Rightarrow> False
      | Some rgs \<Rightarrow> (\<forall>rg\<in>set rgs. prunable q rg \<and> reads_ok (rgReads rg)))"

definition hits :: "json_dec \<Rightarrow> query \<Rightarrow> TraceEventParquet list \<Rightarrow> event list" where
  "hits dec q rows = map (parquetToEvent dec) (filter (row_matches q) rows)"

lemma hits_append [simp]: "hits dec q (xs @ ys) = hits dec q xs @ hits dec q ys"
  by (simp add: hits_def)

lemma hits_Nil [simp]: "hits dec q [] = []"
  by (simp add: hits_def)

lemma limit_reached_mono: "limit_reached q acc \<Longrightarrow> limit_reached q (acc @ ys)"
  by (auto simp: limit_reached_def)

lemma scan_rows_hits:
  "\<not> limit_reached q (acc @ hits dec q rows) \<Longrightarrow> scan_rows dec q rows acc = (acc @ hits dec q rows, False)"
proof (induction rows arbitrary: acc)
  case (Cons r rows)
  show ?case
  proof (cases "row_matches q r")
    case True
    let ?acc = "acc @ [parquetToEvent dec r]"
    from True Cons.prems have nl: "\<not> limit_reached q (?acc @ hits dec q rows)"
      by (simp add: hits_def)
    then have "\<not> limit_reached q ?acc" using limit_reached_mono by blast
    with True Cons.IH [OF nl] show ?thesis by (simp add: hits_def Let_def)
  next
    case False
    with Cons show ?thesis by (simp add: hits_def)
  qed
qed simp

lemma scan_reads_hits:
  "reads_ok reads \<Longrightarrow> \<not> limit_reached q (acc @ hits dec q (concat (map fst reads))) \<Longrightarrow>
   scan_reads dec path q reads acc ws = (acc @ hits dec q (concat (map fst reads)), ws)"
proof (induction reads arbitrary: acc rule: reads_ok.induct)
  case (2 rows e)
  then have "\<not> limit_reached q acc" using limit_reached_mono by auto
  with 2 show ?case by (auto simp: scan_rows_hits)
next
  case (3 rows e rd rest)
  let ?acc = "acc @ hits dec q rows"
  let ?more = "hits dec q (concat (map fst (rd # rest)))"
  from 3(3) have nl: "\<not> limit_reached q (?acc @ ?more)" by simp
  then have nl1: "\<not> limit_reached q ?acc" "\<not> limit_reached q acc" using limit_reached_mono by blast+
  from 3(2) have e: "e = NoErr" "rows \<noteq> []" "reads_ok (rd # rest)" by auto
  have "scan_reads dec path q ((rows, e) # rd # rest) acc ws = scan_reads dec path q (rd # rest) ?acc ws"
    using e nl1 by (simp add: scan_rows_hits)
  also have "\<dots> = (?acc @ ?more, ws)" by (rule 3(1) [OF e(3) nl])
  finally show ?case by simp
qed simp

lemma pruned_no_hits: "prunable q rg \<Longrightarrow> \<not> rgMayMatch rg q \<Longrightarrow> hits dec q (rg_rows rg) = []"
  using rgMayMatch_sound by (auto simp: hits_def filter_empty_conv)

lemma scan_groups_hits:
  assumes "\<forall>rg\<in>set rgs. prunable q rg \<and> reads_ok (rgReads rg)"
    and "\<not> limit_reached q (acc @ hits dec q (concat (map rg_rows rgs)))"
  shows "scan_groups dec path q rgs acc ws = (acc @ hits dec q (concat (map rg_rows rgs)), ws)"
  using assms
proof (induction rgs arbitrary: acc)
  case (Cons rg rgs)
  let ?acc = "acc @ hits dec q (rg_rows rg)"
  let ?more = "hits dec q (concat (map rg_rows rgs))"
  have nl: "\<not> limit_reached q (?acc @ ?more)" using Cons.prems(2) by simp
  then have nl1: "\<not> limit_reached q ?acc" using limit_reached_mono by blast
  have rest: "scan_groups dec path q rgs ?acc ws = (?acc @ ?more, ws)"
    using Cons.IH [OF _ nl] Cons.prems(1) by simp
  show ?case
  proof (cases "rgMayMatch rg q")
    case True
    have "scan_reads dec path q (rgReads rg) acc ws = (?acc, ws)"
      using scan_reads_hits [of "rgReads rg" q acc dec] Cons.prems(1) nl1 by (simp add: rg_rows_def)
    with True nl1 rest show ?thesis by simp
  next
    case False
    then have "hits dec q (rg_rows rg) = []" using Cons.prems(1) pruned_no_hits by simp
    with False rest show ?thesis by simp
  qed
qed simp

lemma scan_file_hits:
  assumes "readable env q fi" "\<not> limit_reached q (acc @ hits dec q (file_rows env fi))"
  shows "scan_file dec env q fi acc ws = (acc @ hits dec q (file_rows env fi), ws)"
  using assms scan_groups_hits
  by (auto simp: readable_def file_groups_def file_rows_def split: sum.splits file_view.splits)

lemma scan_files_hits:
  assumes "\<forall>fi\<in>set files. readable env q fi"
    and "\<not> limit_reached q (acc @ hits dec q (concat (map (file_rows env) files)))"
  shows "scan_files dec env q files acc ws = (acc @ hits dec q (concat (map (file_rows env) files)), ws)"
  using assms
proof (induction files arbitrary: acc)
  case (Cons fi files)
  let ?acc = "acc @ hits dec q (file_rows env fi)"
  let ?more = "hits dec q (concat (map (file_rows env) files))"
  have nl: "\<not> limit_reached q (?acc @ ?more)" using Cons.prems(2) by simp
  then have nl1: "\<not> limit_reached q ?acc" "\<not> limit_reached q acc" using limit_reached_mono by blast+
  have "scan_file dec env q fi acc ws = (?acc, ws)"
    using scan_file_hits [OF _ nl1(1)] Cons.prems(1) by simp
  moreover have "scan_files dec env q files ?acc ws = (?acc @ ?more, ws)"
    using Cons.IH [OF _ nl] Cons.prems(1) by simp
  ultimately show ?case using nl1 by simp
qed simp

lemma ID_parquetToEvent [simp]: "ID (parquetToEvent dec r) = pID r"
  by (simp add: parquetToEvent_def)

lemma take_map_ids: "map ID (take n xs) = take n (map ID xs)"
  by (simp add: take_map)

lemma dedup_ids_hits:
  "map ID (MergeSortDedupByID (hits dec q rows)) =
     sorted_list_of_set (pID ` {r \<in> set rows. row_matches q r})"
  by (simp add: ids_MergeSortDedupByID hits_def image_image)

lemma QueryFiles_hits:
  assumes "\<forall>fi\<in>set files. readable env (ApplyDefaults q) fi"
    and "int (length (hits dec (ApplyDefaults q) (concat (map (file_rows env) files)))) < 2 * qLimit (ApplyDefaults q)"
  shows "map ID (rEvents (QueryFiles dec env files q)) =
      take (nat (qLimit (ApplyDefaults q))) (sorted_list_of_set
        (pID ` {r \<in> set (concat (map (file_rows env) files)). row_matches (ApplyDefaults q) r}))"
    and "rWarnings (QueryFiles dec env files q) = []"
proof -
  let ?q = "ApplyDefaults q"
  let ?rows = "concat (map (file_rows env) files)"
  have nl: "\<not> limit_reached ?q ([] @ hits dec ?q ?rows)" using assms(2) by (simp add: limit_reached_def)
  have scan: "scan_files dec env ?q files [] [] = (hits dec ?q ?rows, [])"
    using scan_files_hits [OF assms(1) nl] by simp
  have pos: "0 < qLimit ?q" using ApplyDefaults_limit by blast
  have empty: "MergeSortDedupByID [] = []" by (simp add: MergeSortDedupByID_def)
  have ev: "rEvents (QueryFiles dec env files q) = take (nat (qLimit ?q)) (MergeSortDedupByID (hits dec ?q ?rows))"
    using pos by (auto simp: QueryFiles_def Let_def scan empty)
  then show "map ID (rEvents (QueryFiles dec env files q)) =
      take (nat (qLimit ?q)) (sorted_list_of_set (pID ` {r \<in> set ?rows. row_matches ?q r}))"
    by (simp only: ev take_map_ids dedup_ids_hits)
  show "rWarnings (QueryFiles dec env files q) = []" by (simp add: QueryFiles_def Let_def scan)
qed

lemma hits_of_QueryFiles_sorted:
  "sorted_wrt (<) (map ID (rEvents (QueryFiles dec env files q)))"
proof -
  have "sorted_wrt (<) (map ID (MergeSortDedupByID xs))" for xs
    by (simp add: MergeSortDedupByID_eq strict_dedup_by sorted_ids_sort)
  then show ?thesis
    by (auto simp: QueryFiles_def Let_def take_map [symmetric] sorted_wrt_take split: prod.splits)
qed

end
