(* ===== verification/Go_Heap.thy ===== *)
theory Go_Heap
  imports Trace_Prelude "HOL-Library.Multiset"
begin

text \<open>
  The binary heap of Go's \<open>container/heap\<close> over a slice, as the query router uses it: the sift-up
  and sift-down loops, \<open>heap.Push\<close> and \<open>heap.Pop\<close>.  The order is given by a key.  The lemmas show
  that the heap order is kept and that \<open>Pop\<close> returns an element of least key.
\<close>

section \<open>Operations\<close>

definition swap_at :: "nat \<Rightarrow> nat \<Rightarrow> 'a list \<Rightarrow> 'a list" where
  "swap_at i j xs = xs[i := xs ! j, j := xs ! i]"

function heap_up :: "('a \<Rightarrow> 'k::linorder) \<Rightarrow> 'a list \<Rightarrow> nat \<Rightarrow> 'a list" where
  "heap_up f xs j =
     (let i = (j - 1) div 2 in
      if i = j \<or> \<not> f (xs ! j) < f (xs ! i) then xs else heap_up f (swap_at i j xs) i)"
  by auto
termination by (relation "measure (\<lambda>(f, xs, j). j)") (auto simp: Let_def)

definition smaller_child :: "('a \<Rightarrow> 'k::linorder) \<Rightarrow> 'a list \<Rightarrow> nat \<Rightarrow> nat \<Rightarrow> nat" where
  "smaller_child f xs i n =
     (let j1 = 2 * i + 1; j2 = j1 + 1
      in if j2 < n \<and> f (xs ! j2) < f (xs ! j1) then j2 else j1)"

function heap_down :: "('a \<Rightarrow> 'k::linorder) \<Rightarrow> 'a list \<Rightarrow> nat \<Rightarrow> nat \<Rightarrow> 'a list" where
  "heap_down f xs i n =
     (if 2 * i + 1 \<ge> n then xs
      else let j = smaller_child f xs i n in
        if \<not> f (xs ! j) < f (xs ! i) then xs else heap_down f (swap_at i j xs) j n)"
  by auto
termination
  by (relation "measure (\<lambda>(f, xs, i, n). n - i)") (auto simp: Let_def smaller_child_def)

declare heap_up.simps [simp del] heap_down.simps [simp del]

definition heap_Push :: "('a \<Rightarrow> 'k::linorder) \<Rightarrow> 'a \<Rightarrow> 'a list \<Rightarrow> 'a list" where
  "heap_Push f x h = heap_up f (h @ [x]) (length h)"

text \<open>\<open>Pop\<close> of an empty heap panics in Go; callers check the length first.\<close>

definition heap_Pop :: "('a \<Rightarrow> 'k::linorder) \<Rightarrow> 'a list \<Rightarrow> 'a \<times> 'a list" where
  "heap_Pop f h =
     (let n = length h - 1; h' = heap_down f (swap_at 0 n h) 0 n in (h' ! n, take n h'))"

section \<open>Contents\<close>

lemma length_swap_at [simp]: "length (swap_at i j xs) = length xs"
  by (simp add: swap_at_def)

lemma mset_swap_at [simp]: "i < length xs \<Longrightarrow> j < length xs \<Longrightarrow> mset (swap_at i j xs) = mset xs"
  unfolding swap_at_def by (rule mset_swap)

lemma nth_swap_at:
  "i < length xs \<Longrightarrow> j < length xs \<Longrightarrow> k < length xs \<Longrightarrow>
     swap_at i j xs ! k = (if k = j then xs ! i else if k = i then xs ! j else xs ! k)"
  by (simp add: swap_at_def nth_list_update)

lemma smaller_child_bounds:
  assumes "2 * i + 1 < n"
  shows "i < smaller_child f xs i n" "smaller_child f xs i n < n" "(smaller_child f xs i n - 1) div 2 = i"
  using assms by (auto simp: smaller_child_def Let_def)

lemma smaller_child_least:
  assumes "k < n" "0 < k" "(k - 1) div 2 = i"
  shows "f (xs ! smaller_child f xs i n) \<le> f (xs ! k)"
proof -
  from assms(2,3) have "k = 2 * i + 1 \<or> k = 2 * i + 2" by linarith
  with assms(1) show ?thesis by (auto simp: smaller_child_def Let_def)
qed

lemma mset_heap_up: "j < length xs \<Longrightarrow> mset (heap_up f xs j) = mset xs"
proof (induction f xs j rule: heap_up.induct)
  case (1 f xs j)
  have "(j - 1) div 2 < length xs" using "1.prems" by linarith
  then show ?case using 1 by (subst heap_up.simps) (auto simp: Let_def)
qed

lemma mset_heap_down: "i < length xs \<Longrightarrow> n \<le> length xs \<Longrightarrow> mset (heap_down f xs i n) = mset xs"
proof (induction f xs i n rule: heap_down.induct)
  case (1 f xs i n)
  then show ?case
    using smaller_child_bounds [of i n f xs] by (subst heap_down.simps) (auto simp: Let_def)
qed

lemma heap_down_beyond:
  "i < n \<Longrightarrow> n \<le> length xs \<Longrightarrow> n \<le> k \<Longrightarrow> k < length xs \<Longrightarrow> heap_down f xs i n ! k = xs ! k"
proof (induction f xs i n rule: heap_down.induct)
  case (1 f xs i n)
  let ?j = "smaller_child f xs i n"
  show ?case
  proof (cases "2 * i + 1 \<ge> n \<or> \<not> f (xs ! ?j) < f (xs ! i)")
    case True
    then show ?thesis by (subst heap_down.simps) (auto simp: Let_def)
  next
    case False
    then have b: "i < ?j" "?j < n" using smaller_child_bounds [of i n f xs] by auto
    then have "heap_down f (swap_at i ?j xs) ?j n ! k = swap_at i ?j xs ! k"
      using 1 False by (auto simp: Let_def)
    moreover have "swap_at i ?j xs ! k = xs ! k"
      using b "1.prems" by (subst nth_swap_at) auto
    ultimately show ?thesis using False by (subst heap_down.simps) (auto simp: Let_def)
  qed
qed

section \<open>Order\<close>

definition heap_order :: "('a \<Rightarrow> 'k::linorder) \<Rightarrow> 'a list \<Rightarrow> nat \<Rightarrow> bool" where
  "heap_order f xs n \<longleftrightarrow> (\<forall>k<n. 0 < k \<longrightarrow> f (xs ! ((k - 1) div 2)) \<le> f (xs ! k))"

text \<open>Only the edge above \<open>j\<close> may be out of order, and the children of \<open>j\<close> are above \<open>j\<close>'s parent.\<close>

definition up_order :: "('a \<Rightarrow> 'k::linorder) \<Rightarrow> 'a list \<Rightarrow> nat \<Rightarrow> bool" where
  "up_order f xs j \<longleftrightarrow>
     (\<forall>k<length xs. 0 < k \<longrightarrow> k \<noteq> j \<longrightarrow> f (xs ! ((k - 1) div 2)) \<le> f (xs ! k)) \<and>
     (\<forall>k<length xs. 0 < k \<longrightarrow> 0 < j \<longrightarrow> (k - 1) div 2 = j \<longrightarrow> f (xs ! ((j - 1) div 2)) \<le> f (xs ! k))"

text \<open>Only the edges below \<open>i\<close> may be out of order.\<close>

definition down_order :: "('a \<Rightarrow> 'k::linorder) \<Rightarrow> 'a list \<Rightarrow> nat \<Rightarrow> nat \<Rightarrow> bool" where
  "down_order f xs i n \<longleftrightarrow>
     (\<forall>k<n. 0 < k \<longrightarrow> (k - 1) div 2 \<noteq> i \<longrightarrow> f (xs ! ((k - 1) div 2)) \<le> f (xs ! k)) \<and>
     (\<forall>k<n. 0 < k \<longrightarrow> 0 < i \<longrightarrow> (k - 1) div 2 = i \<longrightarrow> f (xs ! ((i - 1) div 2)) \<le> f (xs ! k))"

lemma up_order_swap:
  assumes "up_order f xs j" "j < length xs" "0 < j" "f (xs ! j) < f (xs ! ((j - 1) div 2))"
  shows "up_order f (swap_at ((j - 1) div 2) j xs) ((j - 1) div 2)"
proof -
  let ?i = "(j - 1) div 2"
  let ?ys = "swap_at ?i j xs"
  have i: "?i < length xs" "?i < j" using assms(2,3) by linarith+
  have nth: "?ys ! k = (if k = j then xs ! ?i else if k = ?i then xs ! j else xs ! k)" if "k < length xs" for k
    using nth_swap_at [OF i(1) assms(2) that] .
  have e1: "f (xs ! ((k - 1) div 2)) \<le> f (xs ! k)" if "k < length xs" "0 < k" "k \<noteq> j" for k
    using assms(1) that by (auto simp: up_order_def)
  have e2: "f (xs ! ?i) \<le> f (xs ! k)" if "k < length xs" "0 < k" "(k - 1) div 2 = j" for k
    using assms(1,3) that by (auto simp: up_order_def)
  have par: "(k - 1) div 2 < length xs" if "k < length xs" for k using that by linarith
  have "f (?ys ! ((k - 1) div 2)) \<le> f (?ys ! k)" if k: "k < length xs" "0 < k" "k \<noteq> ?i" for k
  proof -
    consider "k = j" | "k \<noteq> j" "(k - 1) div 2 = j" | "k \<noteq> j" "(k - 1) div 2 = ?i" | "k \<noteq> j" "(k - 1) div 2 \<noteq> j" "(k - 1) div 2 \<noteq> ?i"
      by blast
    then show ?thesis
    proof cases
      case 1
      then show ?thesis using assms(4) i k nth [of j] nth [of ?i] by simp
    next
      case 2
      then show ?thesis using e2 [OF k(1,2) 2(2)] k nth [of k] nth [of j] assms(2) by simp
    next
      case 3
      then have "f (xs ! ?i) \<le> f (xs ! k)" using e1 [OF k(1,2) 3(1)] by simp
      then show ?thesis using 3 assms(4) i k nth [of k] nth [of ?i] by simp
    next
      case 4
      then show ?thesis using e1 [OF k(1,2) 4(1)] k nth [of k] nth [of "(k - 1) div 2"] par [OF k(1)] by simp
    qed
  qed
  moreover have "f (?ys ! ((?i - 1) div 2)) \<le> f (?ys ! k)"
    if k: "k < length xs" "0 < k" "0 < ?i" "(k - 1) div 2 = ?i" for k
  proof -
    have p: "(?i - 1) div 2 < ?i" using k(3) by linarith
    have ne: "k \<noteq> ?i" using k(2,4) by linarith
    have a: "f (xs ! ((?i - 1) div 2)) \<le> f (xs ! ?i)" using e1 [of ?i] i k(3) by simp
    have "?ys ! ((?i - 1) div 2) = xs ! ((?i - 1) div 2)" using nth [of "(?i - 1) div 2"] p i by simp
    moreover have "f (xs ! ?i) \<le> f (?ys ! k)"
    proof (cases "k = j")
      case True
      then show ?thesis using nth [of j] assms(2) by simp
    next
      case False
      then have "?ys ! k = xs ! k" using nth [OF k(1)] ne by simp
      then show ?thesis using e1 [OF k(1,2) False] k(4) by simp
    qed
    ultimately show ?thesis using order_trans [OF a] by simp
  qed
  ultimately show ?thesis by (simp add: up_order_def)
qed

lemma heap_up_order: "j < length xs \<Longrightarrow> up_order f xs j \<Longrightarrow> heap_order f (heap_up f xs j) (length xs)"
proof (induction f xs j rule: heap_up.induct)
  case (1 f xs j)
  let ?i = "(j - 1) div 2"
  show ?case
  proof (cases "?i = j \<or> \<not> f (xs ! j) < f (xs ! ?i)")
    case True
    then have "j = 0 \<or> f (xs ! ?i) \<le> f (xs ! j)" by (cases j) auto
    then have "heap_order f xs (length xs)" using "1.prems"(2) by (auto simp: heap_order_def up_order_def)
    with True show ?thesis by (subst heap_up.simps) (auto simp: Let_def)
  next
    case False
    then have j: "0 < j" by (cases j) auto
    have "heap_order f (heap_up f (swap_at ?i j xs) ?i) (length (swap_at ?i j xs))"
      using "1.IH" [OF refl False] up_order_swap [OF "1.prems"(2,1) j] False "1.prems"(1) by simp
    with False show ?thesis by (subst heap_up.simps) (auto simp: Let_def)
  qed
qed

lemma down_order_swap:
  assumes "down_order f xs i n" "n \<le> length xs" "2 * i + 1 < n"
  defines "j \<equiv> smaller_child f xs i n"
  assumes "f (xs ! j) < f (xs ! i)"
  shows "down_order f (swap_at i j xs) j n"
proof -
  let ?ys = "swap_at i j xs"
  have j: "i < j" "j < n" "(j - 1) div 2 = i" using smaller_child_bounds [OF assms(3)] by (auto simp: j_def)
  have nth: "?ys ! k = (if k = j then xs ! i else if k = i then xs ! j else xs ! k)" if "k < n" for k
    using nth_swap_at [of i xs j k] j that assms(2) by simp
  have e1: "f (xs ! ((k - 1) div 2)) \<le> f (xs ! k)" if "k < n" "0 < k" "(k - 1) div 2 \<noteq> i" for k
    using assms(1) that by (auto simp: down_order_def)
  have e2: "f (xs ! ((i - 1) div 2)) \<le> f (xs ! k)" if "k < n" "0 < k" "0 < i" "(k - 1) div 2 = i" for k
    using assms(1) that by (auto simp: down_order_def)
  have par: "(k - 1) div 2 < n" if "k < n" for k using that by linarith
  have "f (?ys ! ((k - 1) div 2)) \<le> f (?ys ! k)" if k: "k < n" "0 < k" "(k - 1) div 2 \<noteq> j" for k
  proof -
    consider "k = j" | "k = i" | "k \<noteq> j" "k \<noteq> i" "(k - 1) div 2 = i" | "k \<noteq> j" "k \<noteq> i" "(k - 1) div 2 \<noteq> i"
      by blast
    then show ?thesis
    proof cases
      case 1
      then show ?thesis using nth [of j] nth [of i] j assms(5) by simp
    next
      case 2
      then have "(k - 1) div 2 \<noteq> i" using k(2) by linarith
      then have "?ys ! ((k - 1) div 2) = xs ! ((k - 1) div 2)" using nth [OF par [OF k(1)]] k(3) by simp
      then show ?thesis using e2 [of j] 2 k j nth [of k] by simp
    next
      case 3
      then show ?thesis using smaller_child_least [OF k(1,2) 3(3), of f xs] nth [of k] nth [of i] k j
        by (simp add: j_def)
    next
      case 4
      then show ?thesis using e1 [OF k(1,2) 4(3)] nth [OF k(1)] nth [OF par [OF k(1)]] k(3) by simp
    qed
  qed
  moreover have "f (?ys ! ((j - 1) div 2)) \<le> f (?ys ! k)" if k: "k < n" "0 < k" "(k - 1) div 2 = j" for k
  proof -
    have ne: "k \<noteq> j" "k \<noteq> i" using k j(1) by linarith+
    then have "f (xs ! j) \<le> f (xs ! k)" using e1 [OF k(1,2)] k(3) j(1) by simp
    then show ?thesis using nth [OF k(1)] nth [of i] j ne by simp
  qed
  ultimately show ?thesis by (simp add: down_order_def)
qed

lemma heap_down_order:
  "i < n \<Longrightarrow> n \<le> length xs \<Longrightarrow> down_order f xs i n \<Longrightarrow> heap_order f (heap_down f xs i n) n"
proof (induction f xs i n rule: heap_down.induct)
  case (1 f xs i n)
  let ?j = "smaller_child f xs i n"
  consider "2 * i + 1 \<ge> n" | "2 * i + 1 < n" "\<not> f (xs ! ?j) < f (xs ! i)" | "2 * i + 1 < n" "f (xs ! ?j) < f (xs ! i)"
    by linarith
  then show ?case
  proof cases
    case 1
    have "(k - 1) div 2 \<noteq> i" if "k < n" "0 < k" for k using that 1 by linarith
    with "1.prems"(3) have "heap_order f xs n" by (auto simp: heap_order_def down_order_def)
    with 1 show ?thesis by (subst heap_down.simps) simp
  next
    case 2
    have "f (xs ! ((k - 1) div 2)) \<le> f (xs ! k)" if "k < n" "0 < k" for k
    proof (cases "(k - 1) div 2 = i")
      case True
      then show ?thesis using smaller_child_least [OF that True, of f xs] 2(2) by (metis leI order_trans)
    next
      case False
      then show ?thesis using "1.prems"(3) that by (simp add: down_order_def)
    qed
    then have "heap_order f xs n" by (simp add: heap_order_def)
    with 2 show ?thesis by (subst heap_down.simps) (simp add: Let_def)
  next
    case 3
    have "heap_order f (heap_down f (swap_at i ?j xs) ?j n) n"
      using "1.IH" [of ?j] down_order_swap [OF "1.prems"(3,2) 3] smaller_child_bounds [OF 3(1), of f xs] 3 "1.prems"(2) by simp
    with 3 show ?thesis by (subst heap_down.simps) (simp add: Let_def)
  qed
qed

lemma heap_least:
  assumes "heap_order f xs n" "k < n"
  shows "f (xs ! 0) \<le> f (xs ! k)"
  using assms(2)
proof (induction k rule: less_induct)
  case (less k)
  show ?case
  proof (cases "k = 0")
    case False
    then have "(k - 1) div 2 < k" by linarith
    then have "f (xs ! 0) \<le> f (xs ! ((k - 1) div 2))" using less.IH less.prems by simp
    also have "\<dots> \<le> f (xs ! k)" using assms(1) less.prems False by (simp add: heap_order_def)
    finally show ?thesis .
  qed simp
qed

section \<open>Push and Pop\<close>

abbreviation heap_ok :: "('a \<Rightarrow> 'k::linorder) \<Rightarrow> 'a list \<Rightarrow> bool" where
  "heap_ok f h \<equiv> heap_order f h (length h)"

lemma mset_heap_Push: "mset (heap_Push f x h) = add_mset x (mset h)"
  by (simp add: heap_Push_def mset_heap_up)

lemma set_heap_Push [simp]: "set (heap_Push f x h) = insert x (set h)"
  using mset_heap_Push [of f x h] by (metis set_mset_add_mset_insert set_mset_mset)

lemma heap_Push_ok: "heap_ok f h \<Longrightarrow> heap_ok f (heap_Push f x h)"
proof -
  assume "heap_ok f h"
  then have "up_order f (h @ [x]) (length h)"
    unfolding up_order_def heap_order_def by (auto simp: nth_append)
  then have "heap_order f (heap_Push f x h) (length (h @ [x]))"
    unfolding heap_Push_def by (intro heap_up_order) simp_all
  moreover have "length (heap_Push f x h) = length (h @ [x])"
    using mset_heap_Push [of f x h] by (metis length_append_singleton size_add_mset size_mset)
  ultimately show ?thesis by simp
qed

lemma heap_Pop_head:
  assumes "h \<noteq> []"
  shows "fst (heap_Pop f h) = h ! 0"
proof (cases "length h = 1")
  case True
  have "heap_down f xs 0 0 = xs" for xs :: "'a list" by (subst heap_down.simps) simp
  with True show ?thesis by (simp add: heap_Pop_def Let_def swap_at_def)
next
  case False
  let ?n = "length h - 1"
  have n: "0 < ?n" "?n < length h" using assms False by (cases h; simp)+
  then have "heap_down f (swap_at 0 ?n h) 0 ?n ! ?n = swap_at 0 ?n h ! ?n"
    by (intro heap_down_beyond) auto
  then show ?thesis using nth_swap_at [of 0 h ?n ?n] n assms by (simp add: heap_Pop_def Let_def)
qed

lemma heap_Pop_spec:
  assumes "h \<noteq> []" "heap_ok f h" "heap_Pop f h = (x, h')"
  shows "mset h = add_mset x (mset h')" "heap_ok f h'" "\<forall>y\<in>set h. f x \<le> f y"
proof -
  let ?n = "length h - 1"
  let ?d = "heap_down f (swap_at 0 ?n h) 0 ?n"
  have n: "?n < length h" "0 < length h" using assms(1) by (cases h; simp)+
  have md: "mset ?d = mset h" using mset_heap_down [of 0 "swap_at 0 ?n h" ?n f] n by simp
  then have len: "length ?d = length h" by (metis size_mset)
  have x: "x = ?d ! ?n" and h': "h' = take ?n ?d" using assms(3) by (auto simp: heap_Pop_def Let_def)
  have "take (Suc ?n) ?d = h' @ [x]" unfolding x h' using len n by (intro take_Suc_conv_app_nth) simp
  moreover have "take (Suc ?n) ?d = ?d" using len n by (intro take_all) simp
  ultimately have "h' @ [x] = ?d" by simp
  then have "mset ?d = add_mset x (mset h')" by (metis append_Nil2 mset_append mset.simps(1,2) add_mset_add_single union_mset_add_mset_right)
  then show "mset h = add_mset x (mset h')" using md by simp
  have "heap_order f ?d ?n"
  proof (cases "?n = 0")
    case False
    have same: "swap_at 0 ?n h ! k = h ! k" if "k < ?n" "k \<noteq> 0" for k
      using that nth_swap_at [of 0 h ?n k] n by simp
    have "f (swap_at 0 ?n h ! ((k - 1) div 2)) \<le> f (swap_at 0 ?n h ! k)" if "k < ?n" "0 < k" "(k - 1) div 2 \<noteq> 0" for k
    proof -
      have "(k - 1) div 2 < ?n" using that(1) by linarith
      then show ?thesis using assms(2) that same [of k] same [of "(k - 1) div 2"] by (simp add: heap_order_def)
    qed
    then have "down_order f (swap_at 0 ?n h) 0 ?n" by (simp add: down_order_def)
    then show ?thesis using False n by (intro heap_down_order) simp_all
  qed (simp add: heap_order_def)
  then show "heap_ok f h'" using len n by (auto simp: h' heap_order_def)
  have "x = h ! 0" using heap_Pop_head [OF assms(1), of f] assms(3) by simp
  then show "\<forall>y\<in>set h. f x \<le> f y" using heap_least [OF assms(2)] by (auto simp: in_set_conv_nth)
qed

lemma mset_heap_Pop:
  assumes "h \<noteq> []"
  shows "mset h = add_mset (fst (heap_Pop f h)) (mset (snd (heap_Pop f h)))"
proof -
  let ?n = "length h - 1"
  let ?d = "heap_down f (swap_at 0 ?n h) 0 ?n"
  have n: "?n < length h" "0 < length h" using assms by (cases h; simp)+
  have md: "mset ?d = mset h" using mset_heap_down [of 0 "swap_at 0 ?n h" ?n f] n by simp
  then have len: "length ?d = length h" by (metis size_mset)
  have "mset (take (Suc ?n) ?d) = add_mset (?d ! ?n) (mset (take ?n ?d))"
    using len n by (subst take_Suc_conv_app_nth) auto
  moreover have "take (Suc ?n) ?d = ?d" using len n by (intro take_all) simp
  ultimately show ?thesis using md by (simp add: heap_Pop_def Let_def)
qed

section \<open>The interface of a priority queue\<close>

locale min_queue =
  fixes key :: "'a \<Rightarrow> 'k::linorder"
    and push :: "'a \<Rightarrow> 'q \<Rightarrow> 'q"
    and pop :: "'q \<Rightarrow> 'a \<times> 'q"
    and content :: "'q \<Rightarrow> 'a multiset"
    and ok :: "'q \<Rightarrow> bool"
  assumes push_ok: "ok q \<Longrightarrow> ok (push x q)"
    and push_content: "content (push x q) = add_mset x (content q)"
    and pop_ok: "ok q \<Longrightarrow> content q \<noteq> {#} \<Longrightarrow> ok (snd (pop q))"
    and pop_content: "ok q \<Longrightarrow> content q \<noteq> {#} \<Longrightarrow> content q = add_mset (fst (pop q)) (content (snd (pop q)))"
    and pop_least: "ok q \<Longrightarrow> y \<in># content q \<Longrightarrow> key (fst (pop q)) \<le> key y"
begin

lemma pop_key_Min:
  assumes "ok q" "content q \<noteq> {#}"
  shows "key (fst (pop q)) = Min (key ` set_mset (content q))"
proof (rule Min_eqI [symmetric])
  show "key (fst (pop q)) \<in> key ` set_mset (content q)"
    by (subst pop_content [OF assms]) simp
qed (use pop_least [OF assms(1)] in auto)

lemma pop_member: "ok q \<Longrightarrow> content q \<noteq> {#} \<Longrightarrow> fst (pop q) \<in># content q"
  by (subst pop_content) auto

lemma pop_rest:
  assumes "ok q" "content q \<noteq> {#}"
  shows "content (snd (pop q)) = content q - {#fst (pop q)#}"
  using pop_content [OF assms] by (metis add_mset_remove_trivial)

end

interpretation goheap: min_queue f "heap_Push f" "heap_Pop f" mset "heap_ok f"
  for f :: "'a \<Rightarrow> 'k::linorder"
proof
  fix q :: "'a list" assume ok: "heap_ok f q" and "mset q \<noteq> {#}"
  then show "heap_ok f (snd (heap_Pop f q))" "mset q = add_mset (fst (heap_Pop f q)) (mset (snd (heap_Pop f q)))"
    using heap_Pop_spec(2) [of q f "fst (heap_Pop f q)" "snd (heap_Pop f q)"] mset_heap_Pop [of q f] by auto
next
  fix q y assume ok: "heap_ok f q" and "y \<in># mset q"
  then show "f (fst (heap_Pop f q)) \<le> f y"
    using heap_Pop_spec(3) [of q f "fst (heap_Pop f q)" "snd (heap_Pop f q)"] by force
qed (simp_all add: mset_heap_Push heap_Push_ok)

end
