(* ===== verification/Query_Router.thy ===== *)
theory Query_Router
  imports Sample_Data Cold_Reader Go_Heap "HOL-Library.AList"
begin

text \<open>
  \<open>internal/storage/router\<close>: the query router over the hot and the cold tier with its five-second
  caches, the heap-based merge of the two tiers, and cursor pagination.  The tiers run in two
  goroutines; their warnings are kept in the order hot, cold.  The cold tier is the pure-Go reader.
\<close>

section \<open>Merging\<close>

record eventCursor =
  ecEvents :: "event list"
  ecIdx :: nat

definition cursor_id :: "eventCursor \<Rightarrow> string" where
  "cursor_id c = ID (ecEvents c ! ecIdx c)"

definition cursor_left :: "eventCursor \<Rightarrow> event list" where
  "cursor_left c = drop (ecIdx c) (ecEvents c)"

definition heap_weight :: "eventCursor list \<Rightarrow> nat" where
  "heap_weight h = sum_list (map (\<lambda>c. Suc (length (ecEvents c) - ecIdx c)) h)"

text \<open>One round of the loop: the event at the head of the least cursor, and the heap after the
  cursor moved on.\<close>

definition merge_step :: "eventCursor list \<Rightarrow> event \<times> eventCursor list" where
  "merge_step h =
     (let (c, h1) = heap_Pop cursor_id h;
          e = ecEvents c ! ecIdx c;
          c' = c\<lparr>ecIdx := ecIdx c + 1\<rparr>
      in (e, if ecIdx c' < length (ecEvents c') then heap_Push cursor_id c' h1 else h1))"

lemma heap_weight_mset: "heap_weight h = (\<Sum>c\<in>#mset h. Suc (length (ecEvents c) - ecIdx c))"
  by (simp add: heap_weight_def sum_mset_sum_list [symmetric])

lemma merge_step_weight: "h \<noteq> [] \<Longrightarrow> heap_weight (snd (merge_step h)) < heap_weight h"
  by (auto simp: merge_step_def Let_def heap_weight_mset mset_heap_Push mset_heap_Pop [of h cursor_id]
      split: prod.splits)

function merge_loop :: "int \<Rightarrow> eventCursor list \<Rightarrow> string \<Rightarrow> event list \<Rightarrow> event list" where
  "merge_loop limit h lastID out =
     (if h = [] then out
      else if limit > 0 \<and> int (length out) \<ge> limit then out
      else let (e, h') = merge_step h in
        if ID e = lastID then merge_loop limit h' lastID out
        else merge_loop limit h' (ID e) (out @ [e]))"
  by pat_completeness auto
termination
proof (relation "measure (\<lambda>(_, h, _, _). heap_weight h)", goal_cases)
  case (2 limit h lastID out x e h')
  then show ?case using merge_step_weight [of h] by (metis (no_types, lifting) case_prod_conv in_measure snd_conv)
next
  case (3 limit h lastID out x e h')
  then show ?case using merge_step_weight [of h] by (metis (no_types, lifting) case_prod_conv in_measure snd_conv)
qed simp

declare merge_loop.simps [simp del]

definition kWayMergeDedup :: "event list \<Rightarrow> event list \<Rightarrow> int \<Rightarrow> event list" where
  "kWayMergeDedup a b limit =
     (let a' = (if length a > 1 then sort_key ID a else a);
          b' = (if length b > 1 then sort_key ID b else b);
          h0 = [];
          h1 = (if length a' > 0 then heap_Push cursor_id \<lparr>ecEvents = a', ecIdx = 0\<rparr> h0 else h0);
          h2 = (if length b' > 0 then heap_Push cursor_id \<lparr>ecEvents = b', ecIdx = 0\<rparr> h1 else h1)
      in merge_loop limit h2 [] [])"

section \<open>Caches\<close>

definition filesCacheTTL :: int where "filesCacheTTL = 5 * Second"

record Router =
  wmCached :: "Watermark option"
  wmAt :: int
  filesCache :: "(string \<times> (FileInfo list \<times> int)) list"

definition NewRouter :: Router where
  "NewRouter = \<lparr>wmCached = None, wmAt = 0, filesCache = []\<rparr>"

definition InvalidateCache :: "Router \<Rightarrow> Router" where
  "InvalidateCache r = r\<lparr>wmCached := None, filesCache := []\<rparr>"

text \<open>Times are nanoseconds of the monotonic clock.\<close>

definition cachedWatermark :: "int \<Rightarrow> fault \<Rightarrow> Manifest \<Rightarrow> Router \<Rightarrow> Watermark result \<times> Router" where
  "cachedWatermark now flt m r =
     (case wmCached r of
        Some wm \<Rightarrow> if now - wmAt r < filesCacheTTL then (Inr wm, r)
                    else (case get_watermark flt m of Inl e \<Rightarrow> (Inl e, r)
                          | Inr wm' \<Rightarrow> (Inr wm', r\<lparr>wmCached := Some wm', wmAt := now\<rparr>))
      | None \<Rightarrow> (case get_watermark flt m of Inl e \<Rightarrow> (Inl e, r)
                 | Inr wm' \<Rightarrow> (Inr wm', r\<lparr>wmCached := Some wm', wmAt := now\<rparr>)))"

definition files_key :: "string \<Rightarrow> int \<Rightarrow> int \<Rightarrow> string \<Rightarrow> string" where
  "files_key ten since until st =
     ten @ ''|'' @ show_int since @ ''|'' @ show_int until @ ''|'' @ st"

definition files_lookup :: "int \<Rightarrow> string \<Rightarrow> Router \<Rightarrow> FileInfo list option" where
  "files_lookup now key r =
     (case map_of (filesCache r) key of
        None \<Rightarrow> None
      | Some (files, t) \<Rightarrow> if now - t < filesCacheTTL then Some files else None)"

definition cachedFilesFor :: "int \<Rightarrow> fault \<Rightarrow> Manifest \<Rightarrow> string \<Rightarrow> int \<Rightarrow> int \<Rightarrow> string \<Rightarrow> Router \<Rightarrow>
    FileInfo list result \<times> Router" where
  "cachedFilesFor now flt m ten since until st r =
     (let key = files_key ten since until st in
      case files_lookup now key r of
        Some files \<Rightarrow> (Inr files, r)
      | None \<Rightarrow> (case FilesFor flt ten since until st m of
          Inl e \<Rightarrow> (Inl e, r)
        | Inr files \<Rightarrow> (Inr files, r\<lparr>filesCache := AList.update key (files, now) (filesCache r)\<rparr>)))"

section \<open>Query\<close>

text \<open>\<open>int64(10 * time.Minute)\<close> is a count of nanoseconds.\<close>

definition overlap :: int where "overlap = 10 * Minute"

definition needHot :: "query \<Rightarrow> int \<Rightarrow> bool" where
  "needHot q boundary \<longleftrightarrow> qSinceUs q = 0 \<or> qUntilUs q = 0 \<or> qUntilUs q > boundary - overlap"

definition needCold :: "query \<Rightarrow> int \<Rightarrow> bool" where
  "needCold q boundary \<longleftrightarrow> qUntilUs q = 0 \<or> qSinceUs q < boundary + overlap"

definition hot_query :: "query \<Rightarrow> int \<Rightarrow> query" where
  "hot_query q boundary =
     (if qSinceUs q = 0 \<or> qSinceUs q < boundary - overlap then q\<lparr>qSinceUs := boundary - overlap\<rparr> else q)"

definition cold_query :: "query \<Rightarrow> int \<Rightarrow> query" where
  "cold_query q boundary =
     (if qUntilUs q = 0 \<or> qUntilUs q > boundary + overlap then q\<lparr>qUntilUs := boundary + overlap\<rparr> else q)"

datatype router_warning = HotWarning string | ColdWarning cold_warning | TierError string

record router_env =
  reNow :: int
  reDec :: json_dec
  reWatermark :: fault
  reHotQuery :: fault
  reHotScan :: fault
  reFiles :: fault
  reCold :: cold_env

definition hot_part :: "router_env \<Rightarrow> HotStore \<Rightarrow> query \<Rightarrow> int \<Rightarrow> event list \<times> router_warning list" where
  "hot_part env h q boundary =
     (if needHot q boundary
      then let res = HotQuery (reDec env) (reHotQuery env) (reHotScan env) (hot_query q boundary) h
           in (rEvents res, map HotWarning (rWarnings res))
      else ([], []))"

definition cold_part :: "router_env \<Rightarrow> Manifest \<Rightarrow> query \<Rightarrow> int \<Rightarrow> Router \<Rightarrow>
    (event list \<times> router_warning list \<times> router_warning list) \<times> Router" where
  "cold_part env m q boundary r =
     (if needCold q boundary
      then case cachedFilesFor (reNow env) (reFiles env) m (qTenantID q) (qSinceUs q) (qUntilUs q) ''committed'' r of
          (Inl e, r') \<Rightarrow> (([], [], [TierError (''manifest lookup: '' @ e)]), r')
        | (Inr files, r') \<Rightarrow>
          if files = [] then (([], [], []), r')
          else let res = QueryFiles (reDec env) (reCold env) files (cold_query q boundary)
               in ((rEvents res, map ColdWarning (rWarnings res), []), r')
      else (([], [], []), r))"

definition Query :: "router_env \<Rightarrow> HotStore \<Rightarrow> Manifest \<Rightarrow> query \<Rightarrow> Router \<Rightarrow>
    router_warning qresult result \<times> Router" where
  "Query env h m q0 r =
     (let q = ApplyDefaults q0 in
      case cachedWatermark (reNow env) (reWatermark env) m r of
        (Inl e, r1) \<Rightarrow> (Inl (''watermark: '' @ e), r1)
      | (Inr wm, r1) \<Rightarrow>
        (let (hotEvents, hw) = hot_part env h q (LastTS wm);
             ((coldEvents, cw, errs), r2) = cold_part env m q (LastTS wm) r1;
             events = kWayMergeDedup hotEvents coldEvents (qLimit q)
         in (Inr \<lparr>rEvents = events, rWarnings = hw @ cw @ errs,
               rCursor = (if events = [] then [] else ID (last events)),
               rTotal = int (length events)\<rparr>, r2)))"

section \<open>Pagination\<close>

definition DefaultPageSize :: int where "DefaultPageSize = 1000"
definition MaxPageSize :: int where "MaxPageSize = 10000"

definition QueryWithCursor :: "router_env \<Rightarrow> HotStore \<Rightarrow> Manifest \<Rightarrow> query \<Rightarrow> Router \<Rightarrow>
    router_warning qresult result \<times> Router" where
  "QueryWithCursor env h m q r =
     (let q1 = (if qLimit q \<le> 0 then q\<lparr>qLimit := DefaultPageSize\<rparr> else q);
          q2 = (if qLimit q1 > MaxPageSize then q1\<lparr>qLimit := MaxPageSize\<rparr> else q1)
      in case Query env h m q2 r of
           (Inl e, r') \<Rightarrow> (Inl (''cursor query: '' @ e), r')
         | (Inr res, r') \<Rightarrow> (Inr res, r'))"

definition ParseCursor :: "'w qresult option \<Rightarrow> string" where
  "ParseCursor res = (case res of None \<Rightarrow> [] | Some x \<Rightarrow> rCursor x)"

section \<open>The merge is the sorted union\<close>

definition cursors_ok :: "eventCursor list \<Rightarrow> bool" where
  "cursors_ok h \<longleftrightarrow> (\<forall>c\<in>set h. ecIdx c < length (ecEvents c) \<and> sorted (map ID (cursor_left c)))"

definition heap_left :: "eventCursor list \<Rightarrow> event set" where
  "heap_left h = (\<Union>c\<in>set h. set (cursor_left c))"

text \<open>An output cap: the first \<open>limit\<close> entries, all of them for a limit that is not positive.\<close>

definition cap :: "int \<Rightarrow> 'a list \<Rightarrow> 'a list" where
  "cap limit xs = (if limit > 0 then take (nat limit) xs else xs)"

lemma cursor_left_Cons:
  assumes "ecIdx c < length (ecEvents c)"
  shows "cursor_left c = ecEvents c ! ecIdx c # cursor_left (c\<lparr>ecIdx := ecIdx c + 1\<rparr>)"
  using assms by (simp add: cursor_left_def Cons_nth_drop_Suc)

lemma finite_heap_left [simp]: "finite (heap_left h)"
  by (simp add: heap_left_def)

lemma heap_left_mset: "heap_left h = (\<Union>c\<in>set_mset (mset h). set (cursor_left c))"
  by (simp add: heap_left_def)

lemma merge_step_spec:
  assumes h: "h \<noteq> []" "heap_ok cursor_id h" "cursors_ok h" and step: "merge_step h = (e, h')"
  shows "heap_ok cursor_id h'" "cursors_ok h'" "heap_left h = insert e (heap_left h')"
    "\<forall>x\<in>heap_left h. ID e \<le> ID x"
proof -
  obtain c h1 where pop: "heap_Pop cursor_id h = (c, h1)" by force
  let ?c' = "c\<lparr>ecIdx := ecIdx c + 1\<rparr>"
  have least: "\<forall>d\<in>set h. cursor_id c \<le> cursor_id d"
    using goheap.pop_least [OF h(2)] pop by (metis fst_conv set_mset_mset)
  have m: "mset h = add_mset c (mset h1)" and ok1: "heap_ok cursor_id h1"
    using goheap.pop_content [OF h(2)] goheap.pop_ok [OF h(2)] h(1) pop by auto
  have c: "c \<in> set h" using m by (metis set_mset_mset union_single_eq_member)
  then have cok: "ecIdx c < length (ecEvents c)" "sorted (map ID (cursor_left c))"
    using h(3) by (auto simp: cursors_ok_def)
  have e: "e = ecEvents c ! ecIdx c"
    and h': "h' = (if ecIdx c + 1 < length (ecEvents c) then heap_Push cursor_id ?c' h1 else h1)"
    using step pop by (auto simp: merge_step_def Let_def)
  have left: "cursor_left c = e # cursor_left ?c'" using cursor_left_Cons [OF cok(1)] e by simp
  have sub: "set h1 \<subseteq> set h" using m by (metis mset_subset_eq_add_right add_mset_add_single set_mset_mset set_mset_mono subset_insertI set_mset_add_mset_insert)
  show "heap_ok cursor_id h'" using h' ok1 goheap.push_ok [of cursor_id] by simp
  have s': "sorted (map ID (cursor_left ?c'))" using cok(2) left by simp
  show "cursors_ok h'"
    using h' sub h(3) s' unfolding cursors_ok_def by auto
  have hl: "set h = insert c (set h1)" using m by (metis set_mset_add_mset_insert set_mset_mset)
  have "heap_left h = insert e (set (cursor_left ?c') \<union> heap_left h1)"
    by (simp add: heap_left_def hl left)
  moreover have "heap_left h' = set (cursor_left ?c') \<union> heap_left h1"
    using h' by (auto simp: heap_left_def) (simp_all add: cursor_left_def)
  ultimately show "heap_left h = insert e (heap_left h')" by simp
  have "ID e \<le> ID x" if d: "d \<in> set h" "x \<in> set (cursor_left d)" for d x
  proof -
    have dok: "ecIdx d < length (ecEvents d)" "sorted (map ID (cursor_left d))"
      using h(3) d(1) by (auto simp: cursors_ok_def)
    have "cursor_id d \<le> ID x"
      using dok(2) d(2) unfolding cursor_left_Cons [OF dok(1)] by (auto simp: cursor_id_def)
    moreover have "ID e \<le> cursor_id d" using least d(1) e by (simp add: cursor_id_def)
    ultimately show ?thesis by simp
  qed
  then show "\<forall>x\<in>heap_left h. ID e \<le> ID x" by (auto simp: heap_left_def)
qed

lemma sorted_list_of_set_least:
  assumes "finite A" "\<forall>x\<in>A. m < x"
  shows "sorted_list_of_set (insert m A) = m # sorted_list_of_set (A :: 'a::linorder set)"
proof -
  have "Min (insert m A) = m" using assms by (intro Min_eqI) (auto intro: less_imp_le)
  moreover have "insert m A - {m} = A" using assms(2) by auto
  ultimately show ?thesis using sorted_list_of_set_nonempty [of "insert m A"] assms(1) by simp
qed

lemma merge_loop_ids:
  assumes "heap_ok cursor_id h" "cursors_ok h" "\<forall>x\<in>heap_left h. lastID \<le> ID x"
    "limit > 0 \<Longrightarrow> int (length out) \<le> limit"
  shows "map ID (merge_loop limit h lastID out) =
     cap limit (map ID out @ sorted_list_of_set (ID ` heap_left h - {lastID}))"
  using assms
proof (induction limit h lastID out rule: merge_loop.induct)
  case (1 limit h lastID out)
  consider "h = []" | "h \<noteq> []" "limit > 0 \<and> int (length out) \<ge> limit"
    | "h \<noteq> []" "\<not> (limit > 0 \<and> int (length out) \<ge> limit)" by blast
  then show ?case
  proof cases
    case 1
    then show ?thesis using "1.prems"(4) by (subst merge_loop.simps) (auto simp: heap_left_def cap_def)
  next
    case 2
    then have "nat limit = length out" using "1.prems"(4) by simp
    then show ?thesis using 2 by (subst merge_loop.simps) (simp add: cap_def)
  next
    case 3
    obtain e h' where step: "merge_step h = (e, h')" by force
    note sp = merge_step_spec [OF 3(1) "1.prems"(1,2) step]
    have last: "lastID \<le> ID e" using "1.prems"(3) sp(3) by auto
    have all': "\<forall>x\<in>heap_left h'. ID e \<le> ID x" using sp(3,4) by auto
    show ?thesis
    proof (cases "ID e = lastID")
      case True
      have "map ID (merge_loop limit h' lastID out) =
          cap limit (map ID out @ sorted_list_of_set (ID ` heap_left h' - {lastID}))"
        using "1.IH"(1) [OF 3(1,2) step [symmetric] refl True sp(1,2)] all' True "1.prems"(4) by simp
      moreover have "ID ` heap_left h - {lastID} = ID ` heap_left h' - {lastID}" using sp(3) True by auto
      ultimately show ?thesis using 3 step True by (subst merge_loop.simps) auto
    next
      case False
      have len: "limit > 0 \<Longrightarrow> int (length (out @ [e])) \<le> limit" using 3(2) by simp
      have "map ID (merge_loop limit h' (ID e) (out @ [e])) =
          cap limit (map ID (out @ [e]) @ sorted_list_of_set (ID ` heap_left h' - {ID e}))"
        using "1.IH"(2) [OF 3(1,2) step [symmetric] refl False sp(1,2) all' len] by simp
      moreover have "ID ` heap_left h - {lastID} = insert (ID e) (ID ` heap_left h' - {ID e})"
        using sp(3) all' last False by auto
      moreover have "sorted_list_of_set (insert (ID e) (ID ` heap_left h' - {ID e})) =
          ID e # sorted_list_of_set (ID ` heap_left h' - {ID e})"
        using all' by (intro sorted_list_of_set_least) auto
      ultimately show ?thesis using 3 step False by (subst merge_loop.simps) auto
    qed
  qed
qed

lemma merge_loop_subset:
  assumes "heap_ok cursor_id h" "cursors_ok h"
  shows "set (merge_loop limit h lastID out) \<subseteq> set out \<union> heap_left h"
  using assms
proof (induction limit h lastID out rule: merge_loop.induct)
  case (1 limit h lastID out)
  show ?case
  proof (cases "h = [] \<or> limit > 0 \<and> int (length out) \<ge> limit")
    case True
    then show ?thesis by (subst merge_loop.simps) auto
  next
    case False
    obtain e h' where step: "merge_step h = (e, h')" by force
    note sp = merge_step_spec [OF _ "1.prems" step]
    have "set (merge_loop limit h' lastID out) \<subseteq> set out \<union> heap_left h'" if "ID e = lastID"
      using "1.IH"(1) [OF _ _ step [symmetric] refl that] sp(1,2) False by blast
    moreover have "set (merge_loop limit h' (ID e) (out @ [e])) \<subseteq> set (out @ [e]) \<union> heap_left h'" if "ID e \<noteq> lastID"
      using "1.IH"(2) [OF _ _ step [symmetric] refl that] sp(1,2) False by blast
    ultimately show ?thesis using False step sp(3) by (subst merge_loop.simps) auto
  qed
qed

lemma heap_ok_Nil [simp]: "heap_order f [] 0"
  by (simp add: heap_order_def)

definition start_heap :: "event list \<Rightarrow> event list \<Rightarrow> eventCursor list" where
  "start_heap a b =
     (let h1 = (if a \<noteq> [] then heap_Push cursor_id \<lparr>ecEvents = sort_key ID a, ecIdx = 0\<rparr> [] else [])
      in if b \<noteq> [] then heap_Push cursor_id \<lparr>ecEvents = sort_key ID b, ecIdx = 0\<rparr> h1 else h1)"

lemma sort_key_short: "length xs \<le> 1 \<Longrightarrow> sort_key f xs = xs"
  by (cases xs) auto

lemma kWayMergeDedup_loop: "kWayMergeDedup a b limit = merge_loop limit (start_heap a b) [] []"
proof -
  have srt: "(if length xs > 1 then sort_key ID xs else xs) = sort_key ID xs" for xs
    by (simp add: sort_key_short)
  have ne: "length (sort_key ID xs) > 0 \<longleftrightarrow> xs \<noteq> []" for xs :: "event list" by simp
  show ?thesis unfolding kWayMergeDedup_def start_heap_def Let_def srt ne ..
qed

lemma start_heap_ok:
  "heap_ok cursor_id (start_heap a b)" "cursors_ok (start_heap a b)" "heap_left (start_heap a b) = set a \<union> set b"
proof -
  have ok: "heap_ok cursor_id (heap_Push cursor_id c h)" if "heap_ok cursor_id h" for c h
    using goheap.push_ok [of cursor_id] that .
  show "heap_ok cursor_id (start_heap a b)" by (auto simp: start_heap_def Let_def intro!: ok)
qed (auto simp: start_heap_def Let_def cursors_ok_def heap_left_def cursor_left_def)

lemma Nil_le_list [simp]: "[] \<le> (xs :: 'a::order list)"
  by (cases xs) (auto intro: less_imp_le)

lemma merge_ids:
  "map ID (kWayMergeDedup a b limit) = cap limit (sorted_list_of_set (ID ` (set a \<union> set b) - {[]}))"
  using merge_loop_ids [OF start_heap_ok(1) [of a b] start_heap_ok(2), of "[]" limit "[]"]
  by (simp add: kWayMergeDedup_loop start_heap_ok(3))

section \<open>Pushing the limit down to the tiers\<close>

lemma take_filter_prefix:
  assumes "\<forall>x\<in>set (take n xs). P x"
  shows "take n (filter P xs) = take n xs"
  using assms
proof (induction xs arbitrary: n)
  case (Cons x xs)
  then show ?case by (cases n) auto
qed simp

text \<open>If each element left out has at least \<open>n\<close> smaller ones among those kept, the first \<open>n\<close> agree.\<close>

lemma take_sorted_subset:
  fixes S :: "'a::linorder set"
  assumes fin: "finite S" and sub: "T \<subseteq> S" and low: "\<And>x. x \<in> S - T \<Longrightarrow> n \<le> card {y \<in> T. y < x}"
  shows "take n (sorted_list_of_set T) = take n (sorted_list_of_set S)"
proof -
  let ?xs = "sorted_list_of_set S"
  have sw: "sorted_wrt (<) ?xs" by (rule strict_sorted_list_of_set)
  have T: "sorted_list_of_set T = filter (\<lambda>x. x \<in> T) ?xs"
  proof (rule sorted_distinct_set_unique)
    show "set (sorted_list_of_set T) = set (filter (\<lambda>x. x \<in> T) ?xs)"
      using fin sub finite_subset [OF sub fin] by auto
  qed (use sorted_filter [of id ?xs] in simp_all)
  have "x \<in> T" if mem: "x \<in> set (take n ?xs)" for x
  proof (rule ccontr)
    assume nt: "x \<notin> T"
    obtain i where i0: "i < length (take n ?xs)" "take n ?xs ! i = x"
      using mem unfolding in_set_conv_nth by blast
    then have i: "i < n" "i < length ?xs" "x = ?xs ! i" by auto
    have "{y \<in> T. y < x} \<subseteq> set (take i ?xs)"
    proof
      fix y assume y: "y \<in> {y \<in> T. y < x}"
      then have "y \<in> set ?xs" using sub fin by auto
      then obtain k where k: "k < length ?xs" "y = ?xs ! k" unfolding in_set_conv_nth by blast
      have "k < i"
      proof (rule ccontr)
        assume "\<not> k < i"
        then have "i = k \<or> ?xs ! i < ?xs ! k" using sorted_wrt_nth_less [OF sw, of i k] k(1) by linarith
        then show False using y i(3) k(2) by auto
      qed
      then show "y \<in> set (take i ?xs)" using k by (auto simp: in_set_conv_nth)
    qed
    then have "card {y \<in> T. y < x} \<le> i"
      by (metis (no_types, lifting) List.finite_set card_length card_mono i(2) le_trans length_take min.absorb4 order_refl)
    moreover have "x \<in> S" using i fin by (metis nth_mem set_sorted_list_of_set)
    ultimately show False using low [of x] nt i(1) by simp
  qed
  then show ?thesis unfolding T by (intro take_filter_prefix) blast
qed

definition lowest :: "nat \<Rightarrow> 'a::linorder set \<Rightarrow> 'a set" where
  "lowest n S = set (take n (sorted_list_of_set S))"

lemma lowest_subset: "finite S \<Longrightarrow> lowest n S \<subseteq> S"
  unfolding lowest_def by (metis set_sorted_list_of_set set_take_subset)

lemma card_lowest: "finite S \<Longrightarrow> x \<in> S \<Longrightarrow> x \<notin> lowest n S \<Longrightarrow> n \<le> card {y \<in> lowest n S. y < x}"
proof -
  assume a: "finite S" "x \<in> S" "x \<notin> lowest n S"
  let ?xs = "sorted_list_of_set S"
  have "x \<in> set (drop n ?xs)" using a by (metis Un_iff append_take_drop_id lowest_def set_append set_sorted_list_of_set)
  moreover have "sorted_wrt (<) (take n ?xs @ drop n ?xs)" by simp
  ultimately have all: "\<forall>y\<in>lowest n S. y < x" by (auto simp: lowest_def sorted_wrt_append simp del: append_take_drop_id)
  have "n \<le> length ?xs" using a \<open>x \<in> set (drop n ?xs)\<close> by (metis drop_all linorder_le_cases list.set(1) empty_iff)
  then have "card (lowest n S) = n"
    unfolding lowest_def by (subst distinct_card) auto
  moreover have "{y \<in> lowest n S. y < x} = lowest n S" using all by auto
  ultimately show ?thesis by simp
qed

lemma take_lowest_union:
  fixes A B :: "'a::linorder set"
  assumes "finite A" "finite B"
  shows "take n (sorted_list_of_set (lowest n A \<union> lowest n B)) = take n (sorted_list_of_set (A \<union> B))"
proof (rule take_sorted_subset)
  fix x assume x: "x \<in> A \<union> B - (lowest n A \<union> lowest n B)"
  have mono: "card {y \<in> lowest n C. y < x} \<le> card {y \<in> lowest n A \<union> lowest n B. y < x}" if "C \<in> {A, B}" for C
    using that by (intro card_mono) (auto simp: lowest_def)
  have "n \<le> card {y \<in> lowest n C. y < x}" if "C \<in> {A, B}" "x \<in> C" for C
    using that x assms by (intro card_lowest) auto
  then have "n \<le> card {y \<in> lowest n A. y < x} \<or> n \<le> card {y \<in> lowest n B. y < x}" using x by auto
  moreover have "card {y \<in> lowest n A. y < x} \<le> card {y \<in> lowest n A \<union> lowest n B. y < x}"
    "card {y \<in> lowest n B. y < x} \<le> card {y \<in> lowest n A \<union> lowest n B. y < x}" by (rule mono, simp)+
  ultimately show "n \<le> card {y \<in> lowest n A \<union> lowest n B. y < x}" by linarith
qed (use assms lowest_subset [of A n] lowest_subset [of B n] in auto)

section \<open>What a query returns\<close>

text \<open>The identifiers each tier contributes, given the boundary of the watermark.\<close>

definition hot_ids :: "query \<Rightarrow> int \<Rightarrow> HotStore \<Rightarrow> string set" where
  "hot_ids q boundary h =
     cId ` {r \<in> set (live_rows q h). boundary \<le> overlap \<or> boundary - overlap \<le> cTs r}"

definition cold_ids :: "query \<Rightarrow> int \<Rightarrow> cold_env \<Rightarrow> FileInfo list \<Rightarrow> string set" where
  "cold_ids q boundary env files =
     pID ` {r \<in> set (concat (map (file_rows env) files)). row_matches q r \<and> pTimestampUs r < boundary + overlap}"

lemma live_rows_filter: "live_rows q h = filter (hot_where q) (live_rows empty_query h)"
proof -
  have "hot_where empty_query r" for r by (simp add: hot_where_def empty_query_def)
  then show ?thesis by (simp add: live_rows_def filter_concat comp_def)
qed

lemma hot_where_since:
  "hot_where (q\<lparr>qSinceUs := u\<rparr>) r \<longleftrightarrow> hot_where (q\<lparr>qSinceUs := 0\<rparr>) r \<and> (u > 0 \<longrightarrow> u \<le> cTs r)"
  unfolding hot_where_def query.select_convs query.update_convs by simp blast

lemma hot_where_hot_query:
  assumes "0 \<le> qSinceUs q"
  shows "hot_where (hot_query q b) r \<longleftrightarrow> hot_where q r \<and> (b \<le> overlap \<or> b - overlap \<le> cTs r)"
proof -
  have "hot_where q r \<longleftrightarrow> hot_where (q\<lparr>qSinceUs := 0\<rparr>) r \<and> (qSinceUs q > 0 \<longrightarrow> qSinceUs q \<le> cTs r)"
    using hot_where_since [of "qSinceUs q" q r] by simp
  moreover have "hot_where (hot_query q b) r \<longleftrightarrow> hot_where (q\<lparr>qSinceUs := qSinceUs (hot_query q b)\<rparr>) r"
    by (simp add: hot_query_def)
  ultimately show ?thesis
    using assms hot_where_since [of "qSinceUs (hot_query q b)" q r] by (auto simp: hot_query_def)
qed

lemma hot_where_times:
  "hot_where q r \<Longrightarrow> 0 < qUntilUs q \<Longrightarrow> cTs r < qUntilUs q"
  by (simp add: hot_where_def)

lemma hot_ids_eq:
  assumes "0 \<le> qSinceUs q"
  shows "cId ` set (live_rows (hot_query q b) h) = hot_ids q b h"
proof -
  have "set (live_rows (hot_query q b) h) = {r \<in> set (live_rows q h). b \<le> overlap \<or> b - overlap \<le> cTs r}"
    unfolding live_rows_filter [of "hot_query q b"] live_rows_filter [of q]
    by (auto simp: hot_where_hot_query [OF assms])
  then show ?thesis by (simp add: hot_ids_def)
qed

lemma row_matches_until:
  "row_matches (q\<lparr>qUntilUs := u\<rparr>) r \<longleftrightarrow> row_matches (q\<lparr>qUntilUs := 0\<rparr>) r \<and> \<not> (u > 0 \<and> pTimestampUs r \<ge> u)"
  unfolding row_matches_def query.select_convs query.update_convs by simp blast

lemma row_matches_cold_query:
  assumes "0 \<le> b" "0 \<le> qUntilUs q"
  shows "row_matches (cold_query q b) r \<longleftrightarrow> row_matches q r \<and> pTimestampUs r < b + overlap"
proof -
  have "0 < b + overlap" using assms(1) by (simp add: overlap_def Minute_def Second_def Microsecond_def)
  moreover have "row_matches q r \<longleftrightarrow> row_matches (q\<lparr>qUntilUs := 0\<rparr>) r \<and> \<not> (qUntilUs q > 0 \<and> pTimestampUs r \<ge> qUntilUs q)"
    using row_matches_until [of "qUntilUs q" q r] by simp
  moreover have "row_matches (cold_query q b) r \<longleftrightarrow> row_matches (q\<lparr>qUntilUs := qUntilUs (cold_query q b)\<rparr>) r"
    by (simp add: cold_query_def)
  ultimately show ?thesis
    using assms(2) row_matches_until [of "qUntilUs (cold_query q b)" q r] by (auto simp: cold_query_def)
qed

lemma hot_query_sel [simp]: "qLimit (hot_query q b) = qLimit q"
  by (simp add: hot_query_def)

lemma cold_query_sel [simp]: "qLimit (cold_query q b) = qLimit q"
  by (simp add: cold_query_def)

lemma ApplyDefaults_fixed: "0 < qLimit q \<Longrightarrow> qLimit q \<le> DefaultMaxLimit \<Longrightarrow> ApplyDefaults q = q"
  by (simp add: ApplyDefaults_def)

lemma sorted_cIds:
  assumes "distinct (map cId xs)"
  shows "map cId (sort_key cId xs) = sorted_list_of_set (cId ` set xs)"
proof -
  have "distinct (map cId (sort_key cId xs))" using assms by (simp add: distinct_map)
  then show ?thesis
    using sorted_distinct_set_unique [of "map cId (sort_key cId xs)" "sorted_list_of_set (cId ` set xs)"] by simp
qed

lemma HotQuery_warnings:
  assumes "hot_inv h"
  shows "rWarnings (HotQuery dec None None q h) = []"
proof -
  have "set (pruneHotTables (liveTables h) s u) \<subseteq> set (liveTables h)" for s u
    by (auto simp: pruneHotTables_def)
  then show ?thesis
    by (simp add: HotQuery_def Let_def run_hot_query_ok [OF assms] empty_result_def)
qed

lemma hot_part_ids:
  assumes "hot_inv h" "distinct (map cId (live_rows empty_query h))"
    "reHotQuery env = None" "reHotScan env = None" "0 \<le> qSinceUs q" "0 \<le> qUntilUs q"
    "0 < qLimit q" "qLimit q \<le> DefaultMaxLimit"
  shows "ID ` set (fst (hot_part env h q b)) = lowest (nat (qLimit q)) (hot_ids q b h)"
proof (cases "needHot q b")
  case True
  let ?q = "hot_query q b"
  have ad: "ApplyDefaults ?q = ?q" using assms(7,8) by (simp add: ApplyDefaults_fixed)
  have "distinct (map cId (live_rows ?q h))"
    using assms(2) by (simp add: live_rows_filter [of ?q] distinct_map_filter)
  then have "map cId (take n (sort_key cId (live_rows ?q h))) = take n (sorted_list_of_set (hot_ids q b h))" for n
    using sorted_cIds hot_ids_eq [OF assms(5), of b h] by (metis take_map)
  moreover have "fst (hot_part env h q b) = map (scan_row (reDec env)) (take (nat (qLimit q)) (sort_key cId (live_rows ?q h)))"
    using True HotQuery_events [OF assms(1), of "reDec env" ?q] assms(3,4) ad by (simp add: hot_part_def Let_def)
  ultimately have "map ID (fst (hot_part env h q b)) = take (nat (qLimit q)) (sorted_list_of_set (hot_ids q b h))"
    by (simp add: comp_def)
  then show ?thesis unfolding lowest_def by (metis list.set_map)
next
  case False
  have "hot_ids q b h = {}"
    using False assms(5,6) hot_where_times [of q]
    by (fastforce simp: hot_ids_def needHot_def live_rows_filter [of q])
  with False show ?thesis by (simp add: hot_part_def lowest_def)
qed

lemma cold_part_ids:
  assumes "FilesFor None (qTenantID q) (qSinceUs q) (qUntilUs q) ''committed'' m = Inr files"
    "files_lookup (reNow env) (files_key (qTenantID q) (qSinceUs q) (qUntilUs q) ''committed'') r = None"
    "reFiles env = None" "\<forall>fi\<in>set files. readable (reCold env) (cold_query q b) fi"
    "int (length (hits (reDec env) (cold_query q b) (concat (map (file_rows (reCold env)) files)))) < 2 * qLimit q"
    "0 \<le> b" "0 \<le> qUntilUs q" "0 < qLimit q" "qLimit q \<le> DefaultMaxLimit"
  obtains evs r' where "cold_part env m q b r = ((evs, [], []), r')"
    "ID ` set evs = lowest (nat (qLimit q)) (cold_ids q b (reCold env) files)"
proof (cases "needCold q b \<and> files \<noteq> []")
  case True
  let ?q = "cold_query q b"
  let ?res = "QueryFiles (reDec env) (reCold env) files ?q"
  have ad: "ApplyDefaults ?q = ?q" using assms(8,9) by (simp add: ApplyDefaults_fixed)
  have "map ID (rEvents ?res) = take (nat (qLimit q)) (sorted_list_of_set (cold_ids q b (reCold env) files))"
    "rWarnings ?res = []"
    using QueryFiles_hits [of files "reCold env" ?q "reDec env"] assms(4,5) ad
    by (simp_all add: cold_ids_def row_matches_cold_query [OF assms(6,7)])
  then have "ID ` set (rEvents ?res) = lowest (nat (qLimit q)) (cold_ids q b (reCold env) files)" "rWarnings ?res = []"
    by (metis list.set_map lowest_def)+
  moreover obtain r' where "cold_part env m q b r = ((rEvents ?res, map ColdWarning (rWarnings ?res), []), r')"
    using True assms(1-3) by (simp add: cold_part_def cachedFilesFor_def Let_def)
  ultimately show thesis using that by simp
next
  case False
  have "0 < b + overlap" using assms(6) by (simp add: overlap_def Minute_def Second_def Microsecond_def)
  then have none: "cold_ids q b (reCold env) files = {}"
    using False assms(7) row_matchesD(1) [of q] by (fastforce simp: cold_ids_def needCold_def)
  have "\<exists>r'. cold_part env m q b r = (([], [], []), r')"
    using False assms(1-3) by (auto simp: cold_part_def cachedFilesFor_def Let_def)
  then obtain r' where "cold_part env m q b r = (([], [], []), r')" by blast
  then show thesis using that [of "[]" r'] none by (simp add: lowest_def)
qed

lemma lowest_no_empty: "[] \<notin> A \<Longrightarrow> finite A \<Longrightarrow> [] \<notin> lowest n A"
  using lowest_subset by blast

lemma finite_ids [simp]: "finite (hot_ids q b h)" "finite (cold_ids q b env files)"
  by (simp_all add: hot_ids_def cold_ids_def)

section \<open>Instances\<close>

definition sample_group :: "TraceEventParquet list \<Rightarrow> rowgroup" where
  "sample_group rows = \<lparr>rgColumns = 17, rgTs = Pages [(0, 10000)], rgSev = Pages [(0, 10)],
     rgAgent = Pages [(''a'', ''z'')], rgReads = [(rows, EOF)]\<rparr>"

definition sample_cold :: "string \<Rightarrow> event list \<Rightarrow> cold_env" where
  "sample_cold path events = \<lparr>ceS3 = None,
     ceView = (\<lambda>p. if p = path then RowGroups [sample_group (map (eventToParquet no_annotations) events)] else FileMissing)\<rparr>"

definition sample_router_env :: router_env where
  "sample_router_env = \<lparr>reNow = 0, reDec = (\<lambda>_. None), reWatermark = None, reHotQuery = None, reHotScan = None,
     reFiles = None, reCold = sample_cold ''/data/p'' [sample_event ''00000001'' ''t'' ''a'' 1000]\<rparr>"

definition sample_file :: ParquetFileRecord where
  "sample_file = \<lparr>pfFileID = ''f1'', pfPath = ''/data/p'', pfTenantID = ''t'', pfLevel = 0, pfMinTimestampUs = 1000,
     pfMaxTimestampUs = 1000, pfMinEventID = ''00000001'', pfMaxEventID = ''00000001'', pfRowCount = 1,
     pfCompressedSize = 1, pfUncompressedSize = 1, pfSHA256 = [], pfCompression = ''zstd'', pfSchemaVersion = 1,
     pfStatus = ''committed'', pfCreatedAt = 0, pfUpdatedAt = 0\<rparr>"

definition tiered_manifest :: Manifest where
  "tiered_manifest = snd (AddFile None sample_file sample_manifest)"

definition tiered_hot :: HotStore where
  "tiered_hot = sample_hot [(''edr_events_1970010100'', [sample_event ''00000001'' ''t'' ''a'' 1000,
     sample_event ''00000002'' ''t'' ''b'' 2000])]"

lemma tiered_hot_inv: "hot_inv tiered_hot"
  unfolding tiered_hot_def by (rule sample_hot_inv; code_simp)

section \<open>Claims\<close>

text \<open>
  C21. The heap-based merge of the two tiers returns, up to the limit, the sorted set of the
  identifiers of both, each once; events with an empty identifier are dropped.
\<close>

theorem kWayMergeDedup_ids:
  "map ID (kWayMergeDedup a b limit) = cap limit (sorted_list_of_set (ID ` (set a \<union> set b) - {[]})) \<and>
   set (kWayMergeDedup a b limit) \<subseteq> set a \<union> set b"
  using merge_ids [of a b limit] merge_loop_subset [OF start_heap_ok(1) [of a b] start_heap_ok(2), of limit "[]" "[]"]
  by (simp add: kWayMergeDedup_loop start_heap_ok(3))



end
