(* ===== verification/Go_Channel.thy ===== *)
theory Go_Channel
  imports Trace_Prelude
begin

text \<open>
  Buffered Go channels as the components use them: a contract for sending and receiving, and what
  follows from it for every sequence of sends and receives: order, nothing lost, bounded buffer.
\<close>

datatype 'a chan_op = Send 'a | Recv

locale channel =
  fixes items :: "'q \<Rightarrow> 'a list"
    and room :: "'q \<Rightarrow> nat"
    and send :: "'a \<Rightarrow> 'q \<Rightarrow> 'q option"
    and recv :: "'q \<Rightarrow> ('a \<times> 'q) option"
  assumes send_none: "send x q = None \<longleftrightarrow> room q \<le> length (items q)"
    and send_items: "send x q = Some q' \<Longrightarrow> items q' = items q @ [x]"
    and send_room: "send x q = Some q' \<Longrightarrow> room q' = room q"
    and recv_none: "recv q = None \<longleftrightarrow> items q = []"
    and recv_items: "recv q = Some (x, q') \<Longrightarrow> items q = x # items q'"
    and recv_room: "recv q = Some (x, q') \<Longrightarrow> room q' = room q"
begin

text \<open>Operations that would block are skipped; the results are the values sent and those received.\<close>

fun chan_run :: "'a chan_op list \<Rightarrow> 'q \<Rightarrow> 'a list \<times> 'a list \<times> 'q" where
  "chan_run [] q = ([], [], q)"
| "chan_run (Send x # ops) q =
     (case send x q of None \<Rightarrow> chan_run ops q
      | Some q' \<Rightarrow> (case chan_run ops q' of (s, r, q'') \<Rightarrow> (x # s, r, q'')))"
| "chan_run (Recv # ops) q =
     (case recv q of None \<Rightarrow> chan_run ops q
      | Some (x, q') \<Rightarrow> (case chan_run ops q' of (s, r, q'') \<Rightarrow> (s, x # r, q'')))"

lemma chan_run_fifo: "chan_run ops q = (s, r, q') \<Longrightarrow> items q @ s = r @ items q'"
proof (induction ops q arbitrary: s r q' rule: chan_run.induct)
  case (2 x ops q)
  then show ?case using send_items by (fastforce split: option.splits prod.splits)
next
  case (3 ops q)
  then show ?case using recv_items by (fastforce split: option.splits prod.splits)
qed simp

lemma chan_run_room:
  assumes "chan_run ops q = (s, r, q')" "length (items q) \<le> room q"
  shows "room q' = room q \<and> length (items q') \<le> room q"
  using assms
proof (induction ops q arbitrary: s r q' rule: chan_run.induct)
  case (2 x ops q)
  show ?case
  proof (cases "send x q")
    case (Some q1)
    have "length (items q1) \<le> room q1"
      using Some send_none [of x q] send_items [OF Some] send_room [OF Some] by simp
    then show ?thesis using "2.IH"(2) [OF Some] "2.prems"(1) Some send_room [OF Some] by (fastforce split: prod.splits)
  qed (use 2 in auto)
next
  case (3 ops q)
  show ?case
  proof (cases "recv q")
    case (Some p)
    obtain x q1 where p: "p = (x, q1)" by force
    have "length (items q1) \<le> room q1"
      using recv_items [OF Some [unfolded p]] recv_room [OF Some [unfolded p]] "3.prems"(2) by simp
    then show ?thesis using "3.IH"(2) [OF Some p [symmetric]] "3.prems"(1) Some p recv_room [OF Some [unfolded p]] by (fastforce split: prod.splits)
  qed (use 3 in auto)
qed simp

end

end
