(* ===== verification/Ingest_Queue.thy ===== *)
theory Ingest_Queue
  imports Sample_Data Go_Channel "HOL-Library.Word"
begin

text \<open>
  \<open>internal/storage/queue/queue.go\<close>: the bounded ingest queue with its disk spill.  A spill segment
  is a list of lines; the JSON encoding of an event is a parameter.  A call that waits for the
  spill's mutex, or for a channel, has no result: \<open>Blocked\<close>.  Which ready case a \<open>select\<close> takes is
  an input.
\<close>

datatype 'a call = Blocked | Returned 'a

section \<open>Disk spill\<close>

record DiskSpill =
  dsDir :: string
  dsLimit :: int
  dsLocked :: bool
  segments :: "string list"
  cur :: "string option"
  curSize :: int
  total :: int

type_synonym spill_files = "string \<rightharpoonup> string list"

definition segmentMaxBytes :: int where "segmentMaxBytes = 16 * 2 ^ 20"

definition NewDiskSpill :: "fault \<Rightarrow> string \<Rightarrow> int \<Rightarrow> DiskSpill result" where
  "NewDiskSpill flt dir n =
     (case flt of Some e \<Rightarrow> Inl (''spill dir: '' @ e)
      | None \<Rightarrow> Inr \<lparr>dsDir = dir, dsLimit = n, dsLocked = False, segments = [], cur = None, curSize = 0, total = 0\<rparr>)"

record spill_env =
  seMarshal :: "event \<Rightarrow> string result"
  seUuid :: string
  seCreate :: fault
  seWrite :: fault
  seSync :: fault

definition segment_name :: "spill_env \<Rightarrow> DiskSpill \<Rightarrow> string" where
  "segment_name env s = filepath_Join [dsDir s, ''spill-'' @ seUuid env @ ''.log'']"

definition rotateLocked :: "spill_env \<Rightarrow> DiskSpill \<Rightarrow> spill_files \<Rightarrow> string option \<times> DiskSpill \<times> spill_files" where
  "rotateLocked env s files =
     (let s0 = s\<lparr>cur := None\<rparr>; name = segment_name env s in
      if files name \<noteq> None then (Some ''spill create: file exists'', s0, files)
      else case seCreate env of Some e \<Rightarrow> (Some (''spill create: '' @ e), s0, files)
      | None \<Rightarrow> (None, s0\<lparr>cur := Some name, curSize := 0, segments := segments s0 @ [name]\<rparr>, files(name \<mapsto> [])))"

definition append_line :: "string \<Rightarrow> string \<Rightarrow> spill_files \<Rightarrow> spill_files" where
  "append_line name line files =
     files(name \<mapsto> (case files name of None \<Rightarrow> [] | Some ls \<Rightarrow> ls) @ [line])"

text \<open>The body of \<open>Write\<close> between lock and unlock, once a segment is open.  A failed \<open>fsync\<close> leaves
  the line in the file and the sizes unchanged.\<close>

definition write_line :: "spill_env \<Rightarrow> string \<Rightarrow> DiskSpill \<Rightarrow> spill_files \<Rightarrow> string option \<times> DiskSpill \<times> spill_files" where
  "write_line env line s files =
     (let n = int (length line) + 1; name = the (cur s) in
      case seWrite env of Some e \<Rightarrow> (Some (''spill write: '' @ e), s, files)
      | None \<Rightarrow> (case seSync env of Some e \<Rightarrow> (Some (''spill fsync: '' @ e), s, append_line name line files)
        | None \<Rightarrow> (None, s\<lparr>curSize := curSize s + n, total := total s + n\<rparr>, append_line name line files)))"

definition spill_Write :: "spill_env \<Rightarrow> event \<Rightarrow> DiskSpill \<Rightarrow> spill_files \<Rightarrow>
    (string option \<times> DiskSpill \<times> spill_files) call" where
  "spill_Write env e s files =
     (if dsLocked s then Blocked
      else Returned (case seMarshal env e of
          Inl err \<Rightarrow> (Some (''spill marshal: '' @ err), s, files)
        | Inr line \<Rightarrow>
          if dsLimit s > 0 \<and> total s + (int (length line) + 1) > dsLimit s
          then (Some (''spill full ('' @ show_int (total s) @ ''/'' @ show_int (dsLimit s) @ '' bytes)''), s, files)
          else if cur s = None \<or> curSize s \<ge> segmentMaxBytes
          then (case rotateLocked env s files of
                  (Some err, s1, files1) \<Rightarrow> (Some err, s1, files1)
                | (None, s1, files1) \<Rightarrow> write_line env line s1 files1)
          else write_line env line s files))"

text \<open>
  \<open>inject\<close> works on a state of its own.  A line of \<open>2^20\<close> bytes or more does not fit the scanner's
  buffer and ends the scan with an error.
\<close>

fun replay_lines :: "(string \<Rightarrow> event option) \<Rightarrow> (event \<Rightarrow> 's \<Rightarrow> string option \<times> 's) \<Rightarrow> string list \<Rightarrow> 's \<Rightarrow>
    string option \<times> 's" where
  "replay_lines dec inject [] st = (None, st)"
| "replay_lines dec inject (line # rest) st =
     (if int (length line) \<ge> 2 ^ 20 then (Some ''bufio.Scanner: token too long'', st)
      else case dec line of
        None \<Rightarrow> replay_lines dec inject rest st
      | Some e \<Rightarrow> (case inject e st of
          (Some err, st') \<Rightarrow> (Some err, st')
        | (None, st') \<Rightarrow> replay_lines dec inject rest st'))"

definition replaySegment :: "(string \<Rightarrow> event option) \<Rightarrow> fault \<Rightarrow> (event \<Rightarrow> 's \<Rightarrow> string option \<times> 's) \<Rightarrow> string \<Rightarrow>
    spill_files \<Rightarrow> 's \<Rightarrow> string option \<times> 's" where
  "replaySegment dec open_flt inject seg files st =
     (case files seg of
        None \<Rightarrow> (None, st)
      | Some ls \<Rightarrow> (case open_flt of Some e \<Rightarrow> (Some (''spill replay: '' @ e), st)
          | None \<Rightarrow> replay_lines dec inject ls st))"

fun replay_segments :: "(string \<Rightarrow> event option) \<Rightarrow> (string \<Rightarrow> fault) \<Rightarrow> (event \<Rightarrow> 's \<Rightarrow> string option \<times> 's) \<Rightarrow>
    string list \<Rightarrow> spill_files \<Rightarrow> 's \<Rightarrow> string option \<times> spill_files \<times> 's" where
  "replay_segments dec opn inject [] files st = (None, files, st)"
| "replay_segments dec opn inject (seg # rest) files st =
     (case replaySegment dec (opn seg) inject seg files st of
        (Some e, st') \<Rightarrow> (Some e, files, st')
      | (None, st') \<Rightarrow> replay_segments dec opn inject rest (files(seg := None)) st')"

definition Replay :: "(string \<Rightarrow> event option) \<Rightarrow> (string \<Rightarrow> fault) \<Rightarrow> (event \<Rightarrow> 's \<Rightarrow> string option \<times> 's) \<Rightarrow>
    DiskSpill \<Rightarrow> spill_files \<Rightarrow> 's \<Rightarrow> (string option \<times> DiskSpill \<times> spill_files \<times> 's) call" where
  "Replay dec opn inject s files st =
     (if dsLocked s then Blocked
      else let s0 = s\<lparr>cur := None\<rparr> in
        Returned (case replay_segments dec opn inject (segments s0) files st of
          (Some e, files', st') \<Rightarrow> (Some e, s0, files', st')
        | (None, files', st') \<Rightarrow> (None, s0\<lparr>segments := [], total := 0\<rparr>, files', st')))"

fun remove_segments :: "(string \<Rightarrow> fault) \<Rightarrow> string list \<Rightarrow> string option \<Rightarrow> spill_files \<Rightarrow> string option \<times> spill_files" where
  "remove_segments rm [] lastErr files = (lastErr, files)"
| "remove_segments rm (seg # rest) lastErr files =
     (if files seg = None then remove_segments rm rest lastErr files
      else case rm seg of
        Some e \<Rightarrow> remove_segments rm rest (Some e) files
      | None \<Rightarrow> remove_segments rm rest lastErr (files(seg := None)))"

text \<open>\<open>Close\<close> takes the mutex and does not release it.\<close>

definition spill_Close :: "(string \<Rightarrow> fault) \<Rightarrow> DiskSpill \<Rightarrow> spill_files \<Rightarrow>
    (string option \<times> DiskSpill \<times> spill_files) call" where
  "spill_Close rm s files =
     (if dsLocked s then Blocked
      else case remove_segments rm (segments s) None files of
        (err, files') \<Rightarrow> Returned (err,
          s\<lparr>dsLocked := True, cur := None, segments := [], total := 0, curSize := 0\<rparr>, files'))"

section \<open>The queue\<close>

definition DefaultQueueCapacity :: int where "DefaultQueueCapacity = 65536"

record IngestQueue =
  ch :: "event list"
  chCap :: nat
  spill :: "DiskSpill option"
  dropped :: "64 word"
  closed :: bool

definition NewIngestQueue :: "fault \<Rightarrow> int \<Rightarrow> (string \<times> int) option \<Rightarrow> IngestQueue result" where
  "NewIngestQueue flt capacity cfg =
     (let c = (if capacity \<le> 0 then DefaultQueueCapacity else capacity);
          q = \<lparr>ch = [], chCap = nat c, spill = None, dropped = 0, closed = False\<rparr>
      in case cfg of
           None \<Rightarrow> Inr q
         | Some (dir, n) \<Rightarrow>
           if dir = [] then Inr q
           else case NewDiskSpill flt dir n of
             Inl e \<Rightarrow> Inl (''queue: spill: '' @ e)
           | Inr s \<Rightarrow> Inr (q\<lparr>spill := Some s\<rparr>))"

datatype queue_error = ErrEventDropped | ErrQueueClosed | QueueDiskFull | ContextErr

text \<open>The ready case the \<open>select\<close> of \<open>Enqueue\<close> takes.\<close>

datatype pick = PickSend | PickTimeout | PickCancel | PickClosed

definition offer :: "event \<Rightarrow> IngestQueue \<Rightarrow> IngestQueue option" where
  "offer e q = (if length (ch q) < chCap q then Some (q\<lparr>ch := ch q @ [e]\<rparr>) else None)"

definition drop_event :: "IngestQueue \<Rightarrow> IngestQueue" where
  "drop_event q = q\<lparr>dropped := dropped q + 1\<rparr>"

definition Enqueue :: "spill_env \<Rightarrow> pick \<Rightarrow> event \<Rightarrow> IngestQueue \<times> spill_files \<Rightarrow>
    (queue_error option \<times> IngestQueue \<times> spill_files) call" where
  "Enqueue env pk e st =
     (case st of (q, files) \<Rightarrow>
      if closed q then Returned (Some ErrQueueClosed, q, files)
      else case pk of
        PickSend \<Rightarrow> (case offer e q of None \<Rightarrow> Blocked | Some q' \<Rightarrow> Returned (None, q', files))
      | PickTimeout \<Rightarrow>
        (case spill q of
           None \<Rightarrow> Returned (Some ErrEventDropped, drop_event q, files)
         | Some s \<Rightarrow>
           (case spill_Write env e s files of
              Blocked \<Rightarrow> Blocked
            | Returned (Some err, s', files') \<Rightarrow> Returned (Some ErrEventDropped, drop_event (q\<lparr>spill := Some s'\<rparr>), files')
            | Returned (None, s', files') \<Rightarrow> Returned (None, q\<lparr>spill := Some s'\<rparr>, files')))
      | PickCancel \<Rightarrow> Returned (Some ContextErr, q, files)
      | PickClosed \<Rightarrow> Returned (Some ErrQueueClosed, q, files))"

text \<open>A receive from the channel that \<open>Dequeue\<close> returns; \<open>None\<close> when it has to wait.\<close>

definition Dequeue :: "IngestQueue \<Rightarrow> (event \<times> IngestQueue) option" where
  "Dequeue q = (case ch q of [] \<Rightarrow> None | e # es \<Rightarrow> Some (e, q\<lparr>ch := es\<rparr>))"

definition Len :: "IngestQueue \<Rightarrow> nat" where
  "Len q = length (ch q)"

definition Dropped :: "IngestQueue \<Rightarrow> 64 word" where
  "Dropped q = dropped q"

definition queue_Close :: "(string \<Rightarrow> fault) \<Rightarrow> IngestQueue \<times> spill_files \<Rightarrow> (string option \<times> IngestQueue \<times> spill_files) call" where
  "queue_Close rm st =
     (case st of (q, files) \<Rightarrow>
      (let q' = q\<lparr>closed := True\<rparr> in
       case spill q' of
         None \<Rightarrow> Returned (None, q', files)
       | Some s \<Rightarrow>
         (case spill_Close rm s files of
            Blocked \<Rightarrow> Blocked
          | Returned (err, s', files') \<Rightarrow> Returned (err, q'\<lparr>spill := Some s'\<rparr>, files'))))"

fun enqueue_all :: "(nat \<Rightarrow> spill_env \<times> pick) \<Rightarrow> nat \<Rightarrow> event list \<Rightarrow> IngestQueue \<times> spill_files \<Rightarrow>
    (queue_error option \<times> IngestQueue \<times> spill_files) call" where
  "enqueue_all inp k [] st = Returned (None, st)"
| "enqueue_all inp k (e # es) st =
     (case Enqueue (fst (inp k)) (snd (inp k)) e st of
        Blocked \<Rightarrow> Blocked
      | Returned (Some err, st') \<Rightarrow> Returned (Some err, st')
      | Returned (None, st') \<Rightarrow> enqueue_all inp (Suc k) es st')"

definition queue_WriteBatch :: "bool \<Rightarrow> (nat \<Rightarrow> spill_env \<times> pick) \<Rightarrow> event list \<Rightarrow> IngestQueue \<times> spill_files \<Rightarrow>
    (queue_error option \<times> IngestQueue \<times> spill_files) call" where
  "queue_WriteBatch diskFull inp events st =
     (if events = [] then Returned (None, st)
      else if diskFull then Returned (Some QueueDiskFull, st)
      else enqueue_all inp 0 events st)"

section \<open>The channel of the queue\<close>

interpretation inq: channel ch chCap offer Dequeue
  by unfold_locales (auto simp: offer_def Dequeue_def split: if_splits list.splits)

section \<open>Spilled lines\<close>

definition seg_lines :: "spill_files \<Rightarrow> string \<Rightarrow> string list" where
  "seg_lines files seg = (case files seg of None \<Rightarrow> [] | Some ls \<Rightarrow> ls)"

definition spilled :: "DiskSpill \<Rightarrow> spill_files \<Rightarrow> string list" where
  "spilled s files = concat (map (seg_lines files) (segments s))"

definition spill_ok :: "DiskSpill \<Rightarrow> spill_files \<Rightarrow> bool" where
  "spill_ok s files \<longleftrightarrow> distinct (segments s) \<and> (\<forall>seg\<in>set (segments s). files seg \<noteq> None) \<and>
     (\<forall>n. cur s = Some n \<longrightarrow> segments s \<noteq> [] \<and> last (segments s) = n) \<and>
     0 \<le> total s \<and> (dsLimit s > 0 \<longrightarrow> total s \<le> dsLimit s)"

lemma append_line_spilled:
  assumes "spill_ok s files" "cur s = Some n" "segments s' = segments s"
  shows "spilled s' (append_line n line files) = spilled s files @ [line]"
proof -
  from assms obtain pre where pre: "segments s = pre @ [n]" "n \<notin> set pre"
    unfolding spill_ok_def by (metis append_butlast_last_id distinct_butlast not_distinct_conv_prefix distinct_append disjoint_insert(1) list.set(2))
  have "map (seg_lines (append_line n line files)) pre = map (seg_lines files) pre"
    using pre(2) by (auto simp: seg_lines_def append_line_def)
  moreover have "seg_lines (append_line n line files) n = seg_lines files n @ [line]"
    by (simp add: seg_lines_def append_line_def)
  ultimately show ?thesis using assms(3) pre(1) by (simp add: spilled_def del: map_eq_conv)
qed

lemma append_line_ok:
  assumes "spill_ok s files" "segments s' = segments s" "cur s' = cur s" "dsLimit s' = dsLimit s"
    "0 \<le> total s'" "dsLimit s > 0 \<Longrightarrow> total s' \<le> dsLimit s"
  shows "spill_ok s' (append_line n line files)"
  using assms by (auto simp: spill_ok_def append_line_def)

lemma rotate_ok:
  assumes "spill_ok s files" "rotateLocked env s files = (None, s1, files1)"
  shows "spill_ok s1 files1" "spilled s1 files1 = spilled s files" "\<exists>n. cur s1 = Some n"
    "total s1 = total s" "dsLimit s1 = dsLimit s" "dsLocked s1 = dsLocked s"
proof -
  have new: "files (segment_name env s) = None" and s1: "s1 = s\<lparr>cur := Some (segment_name env s), curSize := 0,
      segments := segments s @ [segment_name env s]\<rparr>" and f1: "files1 = files(segment_name env s \<mapsto> [])"
    using assms(2) by (auto simp: rotateLocked_def Let_def split: if_splits option.splits)
  have fresh: "segment_name env s \<notin> set (segments s)" using assms(1) new by (auto simp: spill_ok_def)
  then have "map (seg_lines files1) (segments s) = map (seg_lines files) (segments s)"
    by (auto simp: f1 seg_lines_def)
  moreover have "seg_lines files1 (segment_name env s) = []" by (simp add: f1 seg_lines_def)
  ultimately show "spilled s1 files1 = spilled s files" by (simp add: spilled_def s1 del: map_eq_conv)
  show "spill_ok s1 files1" using assms(1) fresh by (auto simp: spill_ok_def s1 f1)
  show "\<exists>n. cur s1 = Some n" "total s1 = total s" "dsLimit s1 = dsLimit s" "dsLocked s1 = dsLocked s" by (simp_all add: s1)
qed

lemma write_line_ok:
  assumes "spill_ok s files" "cur s = Some n" "write_line env line s files = (None, s', files')"
    "dsLimit s > 0 \<Longrightarrow> total s + (int (length line) + 1) \<le> dsLimit s"
  shows "spill_ok s' files'" "spilled s' files' = spilled s files @ [line]" "dsLocked s' = dsLocked s"
proof -
  have s': "s' = s\<lparr>curSize := curSize s + (int (length line) + 1), total := total s + (int (length line) + 1)\<rparr>"
    and f': "files' = append_line n line files"
    using assms(2,3) by (auto simp: write_line_def Let_def split: option.splits)
  have "0 \<le> total s" using assms(1) by (simp add: spill_ok_def)
  then show "spill_ok s' files'"
    unfolding f' using assms(1,4) by (intro append_line_ok [OF assms(1)]) (auto simp: s')
  show "spilled s' files' = spilled s files @ [line]"
    unfolding f' by (rule append_line_spilled [OF assms(1,2)]) (simp add: s')
  show "dsLocked s' = dsLocked s" by (simp add: s')
qed

lemma spill_Write_ok:
  assumes ok: "spill_ok s files" and w: "spill_Write env e s files = Returned (None, s', files')"
  obtains line where "seMarshal env e = Inr line" "spill_ok s' files'" "spilled s' files' = spilled s files @ [line]"
    "dsLocked s' = dsLocked s"
proof -
  obtain line where line: "seMarshal env e = Inr line"
    and lim: "dsLimit s > 0 \<Longrightarrow> total s + (int (length line) + 1) \<le> dsLimit s"
    using w by (auto simp: spill_Write_def split: if_splits sum.splits)
  show thesis
  proof (cases "cur s = None \<or> curSize s \<ge> segmentMaxBytes")
    case True
    then obtain s1 files1 where r: "rotateLocked env s files = (None, s1, files1)"
      and w1: "write_line env line s1 files1 = (None, s', files')"
      using w line by (auto simp: spill_Write_def split: if_splits prod.splits option.splits)
    obtain n where n: "cur s1 = Some n" using rotate_ok(3) [OF ok r] by blast
    have lim1: "dsLimit s1 > 0 \<Longrightarrow> total s1 + (int (length line) + 1) \<le> dsLimit s1"
      using lim rotate_ok(4,5) [OF ok r] by simp
    show thesis using that [OF line] write_line_ok [OF rotate_ok(1) [OF ok r] n w1 lim1] rotate_ok(2,6) [OF ok r] by simp
  next
    case False
    then obtain n where n: "cur s = Some n" by auto
    have w1: "write_line env line s files = (None, s', files')"
      using w line False by (auto simp: spill_Write_def split: if_splits)
    show thesis using that [OF line] write_line_ok [OF ok n w1 lim] by simp
  qed
qed

section \<open>Replay\<close>

definition collect :: "event \<Rightarrow> event list \<Rightarrow> string option \<times> event list" where
  "collect e st = (None, st @ [e])"

lemma replay_lines_collect:
  assumes "\<forall>line\<in>set ls. int (length line) < 2 ^ 20 \<and> dec line \<noteq> None"
  shows "replay_lines dec collect ls st = (None, st @ map (\<lambda>l. the (dec l)) ls)"
  using assms by (induction ls arbitrary: st) (auto simp: collect_def split: option.splits)

lemma replay_segments_collect:
  assumes "\<forall>line\<in>set (concat (map (seg_lines files) segs)). int (length line) < 2 ^ 20 \<and> dec line \<noteq> None"
    "distinct segs"
  shows "replay_segments dec (\<lambda>_. None) collect segs files st =
    (None, (\<lambda>p. if p \<in> set segs then None else files p),
      st @ map (\<lambda>l. the (dec l)) (concat (map (seg_lines files) segs)))"
  using assms
proof (induction segs arbitrary: files st)
  case (Cons seg segs)
  let ?f = "files(seg := None)"
  have one: "replaySegment dec None collect seg files st = (None, st @ map (\<lambda>l. the (dec l)) (seg_lines files seg))"
    using Cons.prems(1) replay_lines_collect [of _ dec st]
    by (auto simp: replaySegment_def seg_lines_def split: option.splits)
  have same: "map (seg_lines ?f) segs = map (seg_lines files) segs"
    using Cons.prems(2) by (auto simp: seg_lines_def)
  have cc: "concat (map (seg_lines ?f) segs) = concat (map (seg_lines files) segs)" by (simp only: same)
  have "\<forall>line\<in>set (concat (map (seg_lines ?f) segs)). int (length line) < 2 ^ 20 \<and> dec line \<noteq> None"
    unfolding cc using Cons.prems(1) by simp
  moreover have "distinct segs" using Cons.prems(2) by simp
  ultimately have "replay_segments dec (\<lambda>_. None) collect segs ?f (st @ map (\<lambda>l. the (dec l)) (seg_lines files seg)) =
      (None, (\<lambda>p. if p \<in> set segs then None else ?f p),
        st @ map (\<lambda>l. the (dec l)) (seg_lines files seg) @ map (\<lambda>l. the (dec l)) (concat (map (seg_lines files) segs)))"
    using Cons.IH [of ?f "st @ map (\<lambda>l. the (dec l)) (seg_lines files seg)"] unfolding cc append_assoc by blast
  moreover have "(\<lambda>p. if p \<in> set segs then None else ?f p) = (\<lambda>p. if p \<in> set (seg # segs) then None else files p)"
    by auto
  ultimately show ?case using one by simp
qed simp

text \<open>A sequence of successful writes, each with the inputs of its own.\<close>

fun spill_writes :: "(nat \<Rightarrow> spill_env) \<Rightarrow> nat \<Rightarrow> event list \<Rightarrow> DiskSpill \<Rightarrow> spill_files \<Rightarrow> (DiskSpill \<times> spill_files) option" where
  "spill_writes inp k [] s files = Some (s, files)"
| "spill_writes inp k (e # es) s files =
     (case spill_Write (inp k) e s files of
        Returned (None, s', files') \<Rightarrow> spill_writes inp (Suc k) es s' files'
      | _ \<Rightarrow> None)"

lemma spill_writes_ok:
  assumes "spill_writes inp k es s files = Some (s', files')" "spill_ok s files" "\<And>k. seMarshal (inp k) = enc"
  shows "spill_ok s' files' \<and> dsLocked s' = dsLocked s \<and>
    (\<exists>ls. spilled s' files' = spilled s files @ ls \<and> list_all2 (\<lambda>e l. enc e = Inr l) es ls)"
  using assms(1,2)
proof (induction es arbitrary: k s files)
  case (Cons e es)
  obtain s1 files1 where w: "spill_Write (inp k) e s files = Returned (None, s1, files1)"
    and rest: "spill_writes inp (Suc k) es s1 files1 = Some (s', files')"
    using Cons.prems(1) by (auto split: call.splits prod.splits option.splits)
  obtain line where line: "enc e = Inr line" and ok1: "spill_ok s1 files1"
    and sp: "spilled s1 files1 = spilled s files @ [line]" "dsLocked s1 = dsLocked s"
    using spill_Write_ok [OF Cons.prems(2) w] assms(3) by metis
  obtain ls where "spilled s' files' = spilled s1 files1 @ ls" "list_all2 (\<lambda>e l. enc e = Inr l) es ls"
    and ok': "spill_ok s' files'" "dsLocked s' = dsLocked s1"
    using Cons.IH [OF rest ok1] by blast
  then have "spilled s' files' = spilled s files @ (line # ls)" "list_all2 (\<lambda>e l. enc e = Inr l) (e # es) (line # ls)"
    using sp(1) line by simp_all
  with ok' sp(2) show ?case by auto
qed simp

lemma decode_lines:
  assumes "list_all2 (\<lambda>e l. enc e = Inr l) es ls" "\<forall>e l. enc e = Inr l \<longrightarrow> dec l = Some e"
  shows "map (\<lambda>l. the (dec l)) ls = es \<and> (\<forall>l\<in>set ls. \<exists>e. enc e = Inr l)"
  using assms(1)
proof (induction es ls rule: list_all2_induct)
  case (Cons e es l ls)
  then have "dec l = Some e" using assms(2) by blast
  with Cons show ?case by auto
qed simp

section \<open>Accounting over sequences of operations\<close>

datatype queue_op = QEnq spill_env pick event | QDeq

text \<open>What became of the events offered: taken by the channel, spilled, received, dropped.  An
  operation that would block is not performed.\<close>

record account =
  aMem :: "event list"
  aSpill :: "event list"
  aRecv :: "event list"
  aDrop :: nat

definition account0 :: account where
  "account0 = \<lparr>aMem = [], aSpill = [], aRecv = [], aDrop = 0\<rparr>"

definition queue_step :: "queue_op \<Rightarrow> account \<times> IngestQueue \<times> spill_files \<Rightarrow> account \<times> IngestQueue \<times> spill_files" where
  "queue_step x st =
     (case st of (a, q, files) \<Rightarrow>
      case x of
        QEnq env pk e \<Rightarrow>
          (case Enqueue env pk e (q, files) of
             Blocked \<Rightarrow> (a, q, files)
           | Returned (None, q', files') \<Rightarrow>
               ((if pk = PickSend then a\<lparr>aMem := aMem a @ [e]\<rparr> else a\<lparr>aSpill := aSpill a @ [e]\<rparr>), q', files')
           | Returned (Some ErrEventDropped, q', files') \<Rightarrow> (a\<lparr>aDrop := Suc (aDrop a)\<rparr>, q', files')
           | Returned (Some _, q', files') \<Rightarrow> (a, q', files'))
      | QDeq \<Rightarrow>
          (case Dequeue q of None \<Rightarrow> (a, q, files) | Some (e, q') \<Rightarrow> (a\<lparr>aRecv := aRecv a @ [e]\<rparr>, q', files)))"

definition queue_run :: "queue_op list \<Rightarrow> account \<times> IngestQueue \<times> spill_files \<Rightarrow> account \<times> IngestQueue \<times> spill_files" where
  "queue_run ops st = foldl (\<lambda>st x. queue_step x st) st ops"

definition balanced :: "(event \<Rightarrow> string result) \<Rightarrow> account \<times> IngestQueue \<times> spill_files \<Rightarrow> bool" where
  "balanced enc st \<longleftrightarrow>
     (case st of (a, q, files) \<Rightarrow>
        aMem a = aRecv a @ ch q \<and> length (ch q) \<le> chCap q \<and> dropped q = of_nat (aDrop a) \<and>
        (case spill q of None \<Rightarrow> aSpill a = []
         | Some s \<Rightarrow> spill_ok s files \<and> map enc (aSpill a) = map Inr (spilled s files)))"

definition op_ok :: "(event \<Rightarrow> string result) \<Rightarrow> queue_op \<Rightarrow> bool" where
  "op_ok enc x \<longleftrightarrow> (case x of QEnq env _ _ \<Rightarrow> seMarshal env = enc \<and> seSync env = None | QDeq \<Rightarrow> True)"

lemma spill_Write_failed:
  assumes "spill_ok s files" "spill_Write env e s files = Returned (Some err, s', files')" "seSync env = None"
  shows "spill_ok s' files' \<and> spilled s' files' = spilled s files"
proof -
  have rot_fail: "spill_ok s1 files1 \<and> spilled s1 files1 = spilled s files"
    if "rotateLocked env s files = (Some x, s1, files1)" for x s1 files1
    using that assms(1) by (auto simp: rotateLocked_def Let_def spill_ok_def spilled_def split: if_splits option.splits)
  have wr_fail: "s2 = s1 \<and> files2 = files1" if "write_line env line s1 files1 = (Some x, s2, files2)" for x line s1 files1 s2 files2
    using that assms(3) by (auto simp: write_line_def Let_def split: option.splits)
  have nl: "\<not> dsLocked s" using assms(2) by (auto simp: spill_Write_def)
  show ?thesis
  proof (cases "seMarshal env e")
    case (Inl x)
    then show ?thesis using assms(1,2) nl by (simp add: spill_Write_def)
  next
    case (Inr line)
    consider "dsLimit s > 0 \<and> total s + (int (length line) + 1) > dsLimit s"
      | "\<not> (dsLimit s > 0 \<and> total s + (int (length line) + 1) > dsLimit s)" "cur s = None \<or> curSize s \<ge> segmentMaxBytes"
      | "\<not> (dsLimit s > 0 \<and> total s + (int (length line) + 1) > dsLimit s)" "\<not> (cur s = None \<or> curSize s \<ge> segmentMaxBytes)"
      by blast
    then show ?thesis
    proof cases
      case 1
      then obtain m where "spill_Write env e s files = Returned (Some m, s, files)"
        using Inr nl by (simp add: spill_Write_def)
      then show ?thesis using assms(1,2) by simp
    next
      case 2
      obtain o1 s1 files1 where r: "rotateLocked env s files = (o1, s1, files1)" by (metis prod_cases3)
      show ?thesis
      proof (cases o1)
        case None
        then have "write_line env line s1 files1 = (Some err, s', files')"
          using assms(2) Inr 2 r nl by (simp add: spill_Write_def)
        then show ?thesis using rotate_ok(1,2) [OF assms(1) r [unfolded None]] wr_fail by blast
      next
        case (Some x)
        then have "rotateLocked env s files = (Some x, s', files')"
          using assms(2) Inr 2 r nl by (simp add: spill_Write_def)
        then show ?thesis using rot_fail by blast
      qed
    next
      case 3
      then have "spill_Write env e s files = Returned (write_line env line s files)"
        using Inr nl by (auto simp: spill_Write_def)
      then have "write_line env line s files = (Some err, s', files')" using assms(2) by simp
      then show ?thesis using wr_fail assms(1) by blast
    qed
  qed
qed

lemma Enqueue_balanced:
  assumes bal: "balanced enc (a, q, files)" and op: "seMarshal env = enc" "seSync env = None"
  shows "balanced enc (queue_step (QEnq env pk e) (a, q, files))"
proof (cases pk)
  case PickSend
  show ?thesis
  proof (cases "closed q \<or> offer e q = None")
    case True
    then have "queue_step (QEnq env pk e) (a, q, files) = (a, q, files)"
      using PickSend by (auto simp: queue_step_def Enqueue_def)
    then show ?thesis using bal by simp
  next
    case False
    then obtain q' where q': "offer e q = Some q'" by auto
    then have "queue_step (QEnq env pk e) (a, q, files) = (a\<lparr>aMem := aMem a @ [e]\<rparr>, q', files)"
      using PickSend False by (simp add: queue_step_def Enqueue_def)
    moreover have "length (ch q) < chCap q" "spill q' = spill q" "dropped q' = dropped q"
      using q' by (auto simp: offer_def split: if_splits)
    ultimately show ?thesis using bal inq.send_items [OF q'] inq.send_room [OF q'] by (cases "spill q") (simp_all add: balanced_def)
  qed
next
  case PickTimeout
  show ?thesis
  proof (cases "closed q")
    case True
    then show ?thesis using bal PickTimeout by (simp add: queue_step_def Enqueue_def)
  next
    case open_q: False
    show ?thesis
    proof (cases "spill q")
      case None
      then show ?thesis using bal PickTimeout open_q
        by (simp add: queue_step_def Enqueue_def balanced_def drop_event_def)
    next
      case (Some s)
      have ok: "spill_ok s files" "map enc (aSpill a) = map Inr (spilled s files)" using bal Some by (auto simp: balanced_def)
      consider "spill_Write env e s files = Blocked"
        | s' files' where "spill_Write env e s files = Returned (None, s', files')"
        | err s' files' where "spill_Write env e s files = Returned (Some err, s', files')"
        by (metis call.exhaust option.exhaust prod_cases3)
      then show ?thesis
      proof cases
        case 1
        then show ?thesis using bal PickTimeout open_q Some by (simp add: queue_step_def Enqueue_def)
      next
        case (2 s' files')
        obtain line where "enc e = Inr line" "spill_ok s' files'" "spilled s' files' = spilled s files @ [line]"
          using spill_Write_ok [OF ok(1) 2] op(1) by metis
        then show ?thesis using bal PickTimeout open_q Some 2 ok
          by (simp add: queue_step_def Enqueue_def balanced_def)
      next
        case (3 err s' files')
        then show ?thesis using bal PickTimeout open_q Some ok spill_Write_failed [OF ok(1) 3 op(2)]
          by (simp add: queue_step_def Enqueue_def balanced_def drop_event_def)
      qed
    qed
  qed
qed (use bal in \<open>simp_all add: queue_step_def Enqueue_def\<close>)

lemma queue_step_balanced:
  assumes "balanced enc st" "op_ok enc x"
  shows "balanced enc (queue_step x st)"
proof (cases x)
  case (QEnq env pk e)
  then show ?thesis using Enqueue_balanced assms by (cases st) (simp add: op_ok_def)
next
  case QDeq
  then show ?thesis using assms(1)
    by (cases st) (auto simp: queue_step_def balanced_def Dequeue_def split: list.splits option.splits)
qed

lemma queue_run_balanced:
  "balanced enc st \<Longrightarrow> \<forall>x\<in>set ops. op_ok enc x \<Longrightarrow> balanced enc (queue_run ops st)"
  unfolding queue_run_def by (induction ops arbitrary: st) (simp_all add: queue_step_balanced)

section \<open>Instances\<close>

definition plain_env :: "string \<Rightarrow> spill_env" where
  "plain_env u = \<lparr>seMarshal = (\<lambda>e. Inr (ID e)), seUuid = u, seCreate = None, seWrite = None, seSync = None\<rparr>"

definition sample_spill :: DiskSpill where
  "sample_spill = \<lparr>dsDir = ''/s'', dsLimit = 100, dsLocked = False, segments = [], cur = None, curSize = 0, total = 0\<rparr>"

definition sample_queue :: IngestQueue where
  "sample_queue = \<lparr>ch = [], chCap = 1, spill = Some sample_spill, dropped = 0, closed = False\<rparr>"

definition sample_queue_ops :: "queue_op list" where
  "sample_queue_ops = [QEnq (plain_env ''u1'') PickSend (sample_event ''1'' ''t'' ''a'' 1),
     QEnq (plain_env ''u1'') PickTimeout (sample_event ''2'' ''t'' ''a'' 2), QDeq]"

definition id_dec :: "string \<Rightarrow> event option" where
  "id_dec l = Some (sample_event l ''t'' ''a'' 1)"

definition id_enc :: "event \<Rightarrow> string result" where
  "id_enc e = (if e = sample_event (ID e) ''t'' ''a'' 1 \<and> length (ID e) < 100 then Inr (ID e) else Inl ''unsupported'')"

section \<open>Claims\<close>





text \<open>
  Closing the spill keeps its mutex: every later write, replay or close of it blocks forever,
  and so does a second \<open>Close\<close> of a queue that has a spill.
\<close>

theorem spill_Close_deadlock:
  assumes "spill_Close rm s files = Returned (err, s', files')"
  shows "spill_Write env e s' f = Blocked \<and> Replay dec opn inject s' f st = Blocked \<and> spill_Close rm' s' f = Blocked \<and>
    queue_Close rm' (q\<lparr>spill := Some s'\<rparr>, f) = Blocked"
proof -
  have "dsLocked s'" using assms by (auto simp: spill_Close_def split: if_splits prod.splits)
  then show ?thesis by (simp add: spill_Write_def Replay_def spill_Close_def queue_Close_def Let_def)
qed

theorem spill_Close_deadlock_witness:
  "case spill_Close (\<lambda>_. None) sample_spill (\<lambda>_. None) of
     Blocked \<Rightarrow> False
   | Returned (err, s', files') \<Rightarrow> spill_Close (\<lambda>_. None) s' files' = Blocked"
proof -
  obtain err s' files' where c: "spill_Close (\<lambda>_. None) sample_spill (\<lambda>_. None) = Returned (err, s', files')"
    by (simp add: spill_Close_def sample_spill_def)
  have "spill_Close (\<lambda>_. None) s' files' = Blocked"
    by (simp add: spill_Close_deadlock [OF c])
  with c show ?thesis by simp
qed

text \<open>
  A line that does not fit the scanner's buffer stops every replay of the spill: the call
  returns an error and keeps all segments, whatever the receiver does.
\<close>

theorem Replay_long_line:
  assumes "\<not> dsLocked s" "segments s = seg # rest" "files seg = Some (pre @ line # post)"
    and "2 ^ 20 \<le> int (length line)" "\<forall>l\<in>set pre. int (length l) < 2 ^ 20"
  shows "\<exists>err s' files' st'. Replay dec opn inject s files st = Returned (Some err, s', files', st') \<and>
    segments s' = segments s \<and> files' = files"
proof -
  have "\<exists>err st'. replay_lines dec inject (pre @ line # post) st = (Some err, st')" for st
    using assms(4,5) by (induction pre arbitrary: st) (auto split: option.splits prod.splits)
  then have "\<exists>err st'. replaySegment dec (opn seg) inject seg files st = (Some err, st')"
    using assms(3) by (cases "opn seg") (auto simp: replaySegment_def)
  then obtain err st' where "replaySegment dec (opn seg) inject seg files st = (Some err, st')" by blast
  then show ?thesis using assms(1,2) by (simp add: Replay_def Let_def)
qed

theorem Replay_long_line_witness:
  "\<exists>err s' files' st'. Replay id_dec (\<lambda>_. None) collect (sample_spill\<lparr>segments := [''/s/x'']\<rparr>)
     [''/s/x'' \<mapsto> [replicate (2 ^ 20) CHR ''x'']] [] = Returned (Some err, s', files', st') \<and> segments s' = [''/s/x'']"
proof -
  let ?s = "sample_spill\<lparr>segments := [''/s/x'']\<rparr>" and ?l = "replicate (2 ^ 20) CHR ''x''"
  have "\<not> dsLocked ?s" "segments ?s = [''/s/x'']" "[''/s/x'' \<mapsto> [?l]] ''/s/x'' = Some ([] @ ?l # [])" "2 ^ 20 \<le> int (length ?l)"
    "\<forall>l\<in>set ([] :: string list). int (length l) < 2 ^ 20"
    by (simp_all add: sample_spill_def)
  then show ?thesis
    using Replay_long_line [of ?s "''/s/x''" "[]" "[''/s/x'' \<mapsto> [?l]]" "[]" ?l "[]" id_dec "\<lambda>_. None" collect "[]"] by fastforce
qed

end
