(* ===== verification/Batch_Writer.thy ===== *)
theory Batch_Writer
  imports Sample_Data Go_Channel
begin

text \<open>
  \<open>internal/storage/batch\<close>: the batching loop between queue and store with its bounded retries, and
  the writer goroutine that serialises batches.  What the sink answers is an input of each step.
  Timers only decide when a step happens.
\<close>

section \<open>The batch writer\<close>

definition maxFlushAttempts :: int where "maxFlushAttempts = 5"

record BatchWriter =
  bwSize :: int
  batch :: "event list"
  flushing :: bool
  attempts :: int

definition NewBatchWriter :: "int \<Rightarrow> BatchWriter" where
  "NewBatchWriter batchSize =
     \<lparr>bwSize = (if batchSize \<le> 0 then 1000 else batchSize), batch = [], flushing = False, attempts = 0\<rparr>"

text \<open>What became of a batch: written by the sink, kept for a retry, or dropped.\<close>

datatype delivery = Idle | Written "event list" | Retry | DLQ "event list"

definition bw_flush :: "fault \<Rightarrow> BatchWriter \<Rightarrow> delivery \<times> BatchWriter" where
  "bw_flush sink w =
     (if batch w = [] then (Idle, w)
      else if flushing w then (Idle, w)
      else
        let b = batch w; w1 = w\<lparr>flushing := True, batch := []\<rparr> in
        case sink of
          Some err \<Rightarrow>
            (let n = attempts w1 + 1; w2 = w1\<lparr>attempts := n\<rparr> in
             if n \<ge> maxFlushAttempts then (DLQ b, w2\<lparr>attempts := 0, flushing := False\<rparr>)
             else (Retry, w2\<lparr>batch := b @ batch w2, flushing := False\<rparr>))
        | None \<Rightarrow> (Written b, w1\<lparr>attempts := 0, flushing := False\<rparr>))"

text \<open>The cases of the loop's \<open>select\<close>; the last two end the loop after a final flush.\<close>

datatype bw_input = Arrive event | Timer | InputClosed | Cancelled

definition bw_step :: "bw_input \<Rightarrow> fault \<Rightarrow> BatchWriter \<Rightarrow> delivery \<times> BatchWriter" where
  "bw_step inp sink w =
     (case inp of
        Arrive e \<Rightarrow>
          (let w1 = w\<lparr>batch := batch w @ [e]\<rparr>
           in if int (length (batch w1)) \<ge> bwSize w1 then bw_flush sink w1 else (Idle, w1))
      | _ \<Rightarrow> bw_flush sink w)"

definition ends :: "bw_input \<Rightarrow> bool" where
  "ends inp \<longleftrightarrow> (inp = InputClosed \<or> inp = Cancelled)"

fun bw_Run :: "(bw_input \<times> fault) list \<Rightarrow> BatchWriter \<Rightarrow> delivery list \<times> BatchWriter" where
  "bw_Run [] w = ([], w)"
| "bw_Run ((inp, sink) # rest) w =
     (case bw_step inp sink w of
        (d, w') \<Rightarrow> if ends inp then ([d], w')
                    else (case bw_Run rest w' of (ds, w'') \<Rightarrow> (d # ds, w'')))"

definition bw_Len :: "BatchWriter \<Rightarrow> nat" where
  "bw_Len w = length (batch w)"

section \<open>The writer goroutine\<close>

text \<open>
  The state shared by the submitters, the loop and \<open>Close\<close>: the buffered requests, whether the
  channel is closed, the closed flag, the finished flag of the loop, the once-only error and
  whether \<open>errOnce\<close> has run; \<open>wgLog\<close> lists the batches handed to the writer.
\<close>

record WriterGoroutine =
  wgCh :: "event list list"
  wgDepth :: nat
  wgChClosed :: bool
  wgClosed :: bool
  wgOnce :: bool
  wgErr :: fault
  wgLog :: "event list list"

definition NewWriterGoroutine :: "int \<Rightarrow> WriterGoroutine" where
  "NewWriterGoroutine queueDepth =
     \<lparr>wgCh = [], wgDepth = nat (if queueDepth \<le> 0 then 100 else queueDepth), wgChClosed = False,
      wgClosed = False, wgOnce = False, wgErr = None, wgLog = []\<rparr>"

text \<open>\<open>Submit\<close> reads the flag first and sends later; a send on a closed channel panics.\<close>

datatype submit_result = SubmitClosed | Checked
datatype send_result = Sent WriterGoroutine | SendBlocks | SendPanic

definition Submit_check :: "WriterGoroutine \<Rightarrow> submit_result" where
  "Submit_check w = (if wgClosed w then SubmitClosed else Checked)"

definition Submit_send :: "event list \<Rightarrow> WriterGoroutine \<Rightarrow> send_result" where
  "Submit_send b w =
     (if wgChClosed w then SendPanic
      else if length (wgCh w) < wgDepth w then Sent (w\<lparr>wgCh := wgCh w @ [b]\<rparr>)
      else SendBlocks)"

definition record_err :: "string \<Rightarrow> WriterGoroutine \<Rightarrow> WriterGoroutine" where
  "record_err e w = (if wgOnce w then w else w\<lparr>wgOnce := True, wgErr := Some e\<rparr>)"

text \<open>One round of \<open>loop\<close>: \<open>None\<close> when there is no request.\<close>

definition loop_step :: "fault \<Rightarrow> WriterGoroutine \<Rightarrow> (fault \<times> WriterGoroutine) option" where
  "loop_step res w =
     (case wgCh w of
        [] \<Rightarrow> None
      | b # bs \<Rightarrow>
        (let w1 = w\<lparr>wgCh := bs, wgLog := wgLog w @ [b]\<rparr>
         in Some (res, case res of None \<Rightarrow> w1 | Some e \<Rightarrow> record_err e w1)))"

text \<open>\<open>Err\<close> runs the once with an empty function.\<close>

definition wg_Err :: "WriterGoroutine \<Rightarrow> fault \<times> WriterGoroutine" where
  "wg_Err w = (wgErr w, w\<lparr>wgOnce := True\<rparr>)"

text \<open>The part of \<open>Close\<close> before it waits for the loop; \<open>False\<close> if it was closed before.\<close>

definition Close_begin :: "WriterGoroutine \<Rightarrow> bool \<times> WriterGoroutine" where
  "Close_begin w =
     (if wgClosed w then (False, w) else (True, w\<lparr>wgClosed := True, wgChClosed := True\<rparr>))"

text \<open>The wait: the loop drains what is buffered, with the answers of the writer.\<close>

fun drain :: "fault list \<Rightarrow> WriterGoroutine \<Rightarrow> WriterGoroutine" where
  "drain [] w = w"
| "drain (r # rs) w = (case loop_step r w of None \<Rightarrow> w | Some (_, w') \<Rightarrow> drain rs w')"

definition wg_offer :: "event list \<Rightarrow> WriterGoroutine \<Rightarrow> WriterGoroutine option" where
  "wg_offer b w = (if length (wgCh w) < wgDepth w then Some (w\<lparr>wgCh := wgCh w @ [b]\<rparr>) else None)"

definition wg_recv :: "WriterGoroutine \<Rightarrow> (event list \<times> WriterGoroutine) option" where
  "wg_recv w = (case wgCh w of [] \<Rightarrow> None | b # bs \<Rightarrow> Some (b, w\<lparr>wgCh := bs\<rparr>))"

interpretation wgc: channel wgCh wgDepth wg_offer wg_recv
  by unfold_locales (auto simp: wg_offer_def wg_recv_def split: if_splits list.splits)

section \<open>The batch writer loses nothing silently\<close>

fun arrived :: "bw_input \<Rightarrow> event list" where
  "arrived (Arrive e) = [e]"
| "arrived _ = []"

fun leaving :: "delivery \<Rightarrow> event list" where
  "leaving (Written b) = b"
| "leaving (DLQ b) = b"
| "leaving _ = []"

definition bw_inv :: "BatchWriter \<Rightarrow> bool" where
  "bw_inv w \<longleftrightarrow> \<not> flushing w \<and> 0 < bwSize w \<and> 0 \<le> attempts w \<and> attempts w < maxFlushAttempts \<and>
     int (length (batch w)) \<le> bwSize w - 1 + attempts w"

lemma bw_flush_inv:
  assumes "bw_flush sink w = (d, w')" "\<not> flushing w" "0 < bwSize w" "0 \<le> attempts w" "attempts w < maxFlushAttempts"
    "int (length (batch w)) \<le> bwSize w + attempts w"
  shows "batch w \<noteq> [] \<Longrightarrow> bw_inv w'" "leaving d @ batch w' = batch w" "bwSize w' = bwSize w"
  using assms by (auto simp: bw_flush_def Let_def bw_inv_def maxFlushAttempts_def split: if_splits option.splits)

lemma bw_flush_keeps:
  assumes "bw_inv w" "bw_flush sink w = (d, w')"
  shows "bw_inv w' \<and> leaving d @ batch w' = batch w \<and> bwSize w' = bwSize w"
proof (cases "batch w = []")
  case True
  then show ?thesis using assms by (auto simp: bw_flush_def)
next
  case False
  have pre: "\<not> flushing w" "0 < bwSize w" "0 \<le> attempts w" "attempts w < maxFlushAttempts"
    "int (length (batch w)) \<le> bwSize w + attempts w"
    using assms(1) by (simp_all add: bw_inv_def)
  show ?thesis using bw_flush_inv [OF assms(2) pre] False by simp
qed

lemma bw_step_inv:
  assumes "bw_inv w" "bw_step inp sink w = (d, w')"
  shows "bw_inv w' \<and> leaving d @ batch w' = batch w @ arrived inp \<and> bwSize w' = bwSize w"
proof (cases inp)
  case (Arrive e)
  let ?w1 = "w\<lparr>batch := batch w @ [e]\<rparr>"
  show ?thesis
  proof (cases "int (length (batch ?w1)) \<ge> bwSize w")
    case True
    then have "bw_flush sink ?w1 = (d, w')" using assms(2) Arrive by (simp add: bw_step_def Let_def)
    then have f: "bw_flush sink ?w1 = (d, w')" .
    have pre: "\<not> flushing ?w1" "0 < bwSize ?w1" "0 \<le> attempts ?w1" "attempts ?w1 < maxFlushAttempts"
      "int (length (batch ?w1)) \<le> bwSize ?w1 + attempts ?w1"
      using assms(1) by (simp_all add: bw_inv_def)
    show ?thesis using bw_flush_inv [OF f pre] Arrive by simp
  next
    case False
    then have "d = Idle" "w' = ?w1" using assms(2) Arrive by (simp_all add: bw_step_def Let_def)
    then show ?thesis using False assms(1) Arrive by (auto simp: bw_inv_def)
  qed
qed (use assms bw_flush_keeps in \<open>auto simp: bw_step_def\<close>)

text \<open>The inputs the loop consumed: everything up to the one that ends it.\<close>

fun consumed :: "(bw_input \<times> fault) list \<Rightarrow> bw_input list" where
  "consumed [] = []"
| "consumed ((inp, _) # rest) = (if ends inp then [inp] else inp # consumed rest)"

lemma bw_Run_inv:
  "bw_inv w \<Longrightarrow> bw_Run ins w = (ds, w') \<Longrightarrow>
     bw_inv w' \<and> concat (map leaving ds) @ batch w' = batch w @ concat (map arrived (consumed ins)) \<and> bwSize w' = bwSize w"
proof (induction ins w arbitrary: ds w' rule: bw_Run.induct)
  case (2 inp sink rest w)
  obtain d w1 where st: "bw_step inp sink w = (d, w1)" by force
  note s = bw_step_inv [OF "2.prems"(1) st]
  show ?case
  proof (cases "ends inp")
    case True
    then show ?thesis using "2.prems"(2) st s by auto
  next
    case False
    then obtain ds1 where r: "bw_Run rest w1 = (ds1, w')" and ds: "ds = d # ds1"
      using "2.prems"(2) st by (auto split: prod.splits)
    have "concat (map leaving ds1) @ batch w' = batch w1 @ concat (map arrived (consumed rest))" "bw_inv w'" "bwSize w' = bwSize w1"
      using "2.IH" [OF st [symmetric] False _ r] s by auto
    then have "leaving d @ concat (map leaving ds1) @ batch w' = batch w @ arrived inp @ concat (map arrived (consumed rest))"
      using s by (metis append.assoc)
    then show ?thesis using \<open>bw_inv w'\<close> \<open>bwSize w' = bwSize w1\<close> s ds False by simp
  qed
qed simp

lemma NewBatchWriter_inv: "bw_inv (NewBatchWriter n)"
  by (simp add: NewBatchWriter_def bw_inv_def maxFlushAttempts_def)

fun first_error :: "fault list \<Rightarrow> fault" where
  "first_error [] = None"
| "first_error (None # rs) = first_error rs"
| "first_error (Some e # rs) = Some e"

section \<open>Claims\<close>



text \<open>
  Closing the writer goroutine drains it: with an answer of the writer for each buffered
  batch, all of them reach the writer in the order of submission, and the first error among the
  answers is the one kept.
\<close>

theorem Close_drains:
  assumes "Close_begin w = (True, w1)" "length rs = length (wgCh w)"
  shows "wgLog (drain rs w1) = wgLog w @ wgCh w \<and> wgCh (drain rs w1) = [] \<and>
    (wgOnce w = False \<longrightarrow> wgErr w = None \<longrightarrow> wgErr (drain rs w1) = first_error rs)"
proof -
  have step: "wgLog (drain rs w) = wgLog w @ wgCh w \<and> wgCh (drain rs w) = [] \<and>
      (wgErr (drain rs w) = (if wgOnce w then wgErr w else if wgErr w = None then first_error rs else wgErr (drain rs w)))"
    if "length rs = length (wgCh w)" for rs w
    using that
  proof (induction rs w rule: drain.induct)
    case (2 r rs w)
    then obtain b bs where "wgCh w = b # bs" by (cases "wgCh w") auto
    then show ?case using 2
      by (cases r) (auto simp: loop_step_def record_err_def Let_def split: if_splits)
  qed simp
  have "w1 = w\<lparr>wgClosed := True, wgChClosed := True\<rparr>" using assms(1) by (auto simp: Close_begin_def split: if_splits)
  with step [of rs w1] assms(2) show ?thesis by simp
qed

definition busy_goroutine :: WriterGoroutine where
  "busy_goroutine = (NewWriterGoroutine 2)\<lparr>wgCh := [[sample_event ''1'' ''t'' ''a'' 1], [sample_event ''2'' ''t'' ''a'' 2]]\<rparr>"

theorem Close_drains_witness:
  "map (map ID) (wgLog (drain [None, Some ''locked''] (snd (Close_begin busy_goroutine)))) = [[''1''], [''2'']] \<and>
   wgErr (drain [None, Some ''locked''] (snd (Close_begin busy_goroutine))) = Some ''locked''"
proof -
  have "Close_begin busy_goroutine = (True, snd (Close_begin busy_goroutine))"
    by (simp add: Close_begin_def busy_goroutine_def NewWriterGoroutine_def)
  from Close_drains [OF this, of "[None, Some ''locked'']"] show ?thesis
    by (simp add: busy_goroutine_def NewWriterGoroutine_def sample_event_def)
qed

text \<open>
  \<open>Submit\<close> can panic: between its check of the closed flag and its send, a \<open>Close\<close> closes the
  channel; and a call of \<open>Err\<close> before the first failure makes every later failure invisible to it.
\<close>

theorem Submit_races_Close:
  "Submit_check (NewWriterGoroutine n) = Checked \<and>
   Submit_send b (snd (Close_begin (NewWriterGoroutine n))) = SendPanic \<and>
   (case loop_step (Some e) ((snd (wg_Err (NewWriterGoroutine n)))\<lparr>wgCh := [b]\<rparr>) of
      None \<Rightarrow> False | Some (r, w) \<Rightarrow> r = Some e \<and> fst (wg_Err w) = None)"
  by (simp add: Submit_check_def Submit_send_def Close_begin_def NewWriterGoroutine_def loop_step_def wg_Err_def
      record_err_def Let_def)

end
