(* ===== verification/Shard_Router.thy ===== *)
theory Shard_Router
  imports Query_Router "HOL-Library.Word"
begin

unbundle bit_operations_syntax

text \<open>
  \<open>internal/storage/shard/router.go\<close>: shards chosen by the 64-bit FNV-1a hash of tenant and agent,
  writes split by shard, queries fanned out and merged.  The goroutines of a call touch different
  shards; the order in which they finish is an input (\<open>order\<close>, \<open>arrival\<close>).
\<close>

section \<open>Hash and shard choice\<close>

definition fnv_offset :: "64 word" where "fnv_offset = 0xcbf29ce484222325"
definition fnv_prime :: "64 word" where "fnv_prime = 0x100000001b3"

definition byte_of :: "char \<Rightarrow> 64 word" where
  "byte_of c = of_nat (of_char c)"

definition fnv64a :: "string \<Rightarrow> 64 word" where
  "fnv64a s = foldl (\<lambda>h c. (h XOR byte_of c) * fnv_prime) fnv_offset s"

definition shard_index :: "nat \<Rightarrow> string \<Rightarrow> string \<Rightarrow> nat" where
  "shard_index n tenantID agentID = unat (fnv64a (tenantID @ '':'' @ agentID) mod of_nat n)"

section \<open>Shards\<close>

record Instance =
  shHot :: HotStore
  shManifest :: Manifest
  shRouter :: Router

record shard_config =
  scNumShards :: int
  scBaseDir :: string
  scFlushSize :: int
  scFlushMaxRows :: int
  scEventsDir :: string

definition fill_config :: "shard_config \<Rightarrow> shard_config result" where
  "fill_config cfg0 =
     (let cfg = (if scNumShards cfg0 < 1 then cfg0\<lparr>scNumShards := 1\<rparr> else cfg0) in
      if scBaseDir cfg = [] then Inl ''shard: BaseDir required''
      else Inr (cfg\<lparr>scEventsDir := (if scEventsDir cfg = [] then ''events'' else scEventsDir cfg),
             scFlushSize := (if scFlushSize cfg \<le> 0 then 256 * 2 ^ 20 else scFlushSize cfg),
             scFlushMaxRows := (if scFlushMaxRows cfg \<le> 0 then 100000 else scFlushMaxRows cfg)\<rparr>))"

text \<open>Opening the stores of shard \<open>i\<close> is an input: an error message or the opened store.\<close>

fun open_shards :: "(nat \<Rightarrow> HotStore result) \<Rightarrow> (nat \<Rightarrow> Manifest result) \<Rightarrow> nat \<Rightarrow> nat \<Rightarrow> Instance list result" where
  "open_shards oh om i 0 = Inr []"
| "open_shards oh om i (Suc n) =
     (case oh i of
        Inl e \<Rightarrow> Inl (''shard '' @ show_nat i @ '' hot store: '' @ e)
      | Inr h \<Rightarrow>
        (case om i of
           Inl e \<Rightarrow> Inl (''shard '' @ show_nat i @ '' manifest: '' @ e)
         | Inr m \<Rightarrow>
           (case open_shards oh om (Suc i) n of
              Inl e \<Rightarrow> Inl e
            | Inr ss \<Rightarrow> Inr (\<lparr>shHot = h, shManifest = m, shRouter = NewRouter\<rparr> # ss))))"

definition NewShards :: "(nat \<Rightarrow> HotStore result) \<Rightarrow> (nat \<Rightarrow> Manifest result) \<Rightarrow> shard_config \<Rightarrow> Instance list result" where
  "NewShards oh om cfg0 =
     (case fill_config cfg0 of Inl e \<Rightarrow> Inl e | Inr cfg \<Rightarrow> open_shards oh om 0 (nat (scNumShards cfg)))"

definition ShardFor :: "Instance list \<Rightarrow> string \<Rightarrow> string \<Rightarrow> nat" where
  "ShardFor shards tenantID agentID = shard_index (length shards) tenantID agentID"

definition event_shard :: "Instance list \<Rightarrow> event \<Rightarrow> nat" where
  "event_shard shards e = ShardFor shards (TenantID e) (AgentID e)"

section \<open>Writing\<close>

definition write_shard :: "json_enc \<Rightarrow> (int \<Rightarrow> int) \<Rightarrow> (nat \<Rightarrow> hot_env) \<Rightarrow> nat \<Rightarrow> event list \<Rightarrow> Instance list \<Rightarrow>
    string option \<times> Instance list" where
  "write_shard enc zone env i evts shards =
     (case HotWriteBatch enc zone (env i) evts (shHot (shards ! i)) of
        (err, h) \<Rightarrow> (err, shards[i := (shards ! i)\<lparr>shHot := h\<rparr>]))"

fun write_batches :: "json_enc \<Rightarrow> (int \<Rightarrow> int) \<Rightarrow> (nat \<Rightarrow> hot_env) \<Rightarrow> (nat \<times> event list) list \<Rightarrow> string option \<Rightarrow>
    Instance list \<Rightarrow> string option \<times> Instance list" where
  "write_batches enc zone env [] firstErr shards = (firstErr, shards)"
| "write_batches enc zone env ((i, evts) # rest) firstErr shards =
     (case write_shard enc zone env i evts shards of
        (err, shards') \<Rightarrow>
          write_batches enc zone env rest (if firstErr = None then err else firstErr) shards')"

text \<open>\<open>order\<close> rearranges the batches into the order in which their goroutines run.\<close>

definition WriteEvents :: "json_enc \<Rightarrow> (int \<Rightarrow> int) \<Rightarrow> (nat \<Rightarrow> hot_env) \<Rightarrow>
    ((nat \<times> event list) list \<Rightarrow> (nat \<times> event list) list) \<Rightarrow> event list \<Rightarrow> Instance list \<Rightarrow>
    string option \<times> Instance list" where
  "WriteEvents enc zone env order events shards =
     (if events = [] then (None, shards)
      else if length shards = 1 then write_shard enc zone env 0 events shards
      else write_batches enc zone env (order (group_into (event_shard shards) events)) None shards)"

section \<open>Querying\<close>

datatype shard_warning = ShardErr nat string | ShardWarning router_warning

type_synonym partial = "router_warning qresult result"

definition ask_shard :: "router_env \<Rightarrow> query \<Rightarrow> Instance \<Rightarrow> partial \<times> Instance" where
  "ask_shard env q s =
     (case Query env (shHot s) (shManifest s) q (shRouter s) of (res, r) \<Rightarrow> (res, s\<lparr>shRouter := r\<rparr>))"

fun ask_all :: "(nat \<Rightarrow> router_env) \<Rightarrow> nat \<Rightarrow> query \<Rightarrow> Instance list \<Rightarrow> partial list \<times> Instance list" where
  "ask_all env i q [] = ([], [])"
| "ask_all env i q (s # ss) =
     (case ask_shard (env i) q s of (p, s') \<Rightarrow>
      case ask_all env (Suc i) q ss of (ps, ss') \<Rightarrow> (p # ps, s' # ss'))"

text \<open>The index in a warning counts arrivals.\<close>

fun gather :: "nat \<Rightarrow> partial list \<Rightarrow> event list \<times> shard_warning list" where
  "gather i [] = ([], [])"
| "gather i (p # ps) =
     (case gather (Suc i) ps of (evs, ws) \<Rightarrow>
      case p of
        Inl e \<Rightarrow> (evs, ShardErr i e # ws)
      | Inr res \<Rightarrow> (rEvents res @ evs, map ShardWarning (rWarnings res) @ ws))"

definition shard_mergeSortDedupByID :: "event list \<Rightarrow> event list" where
  "shard_mergeSortDedupByID events =
     (if length events < 2 then events
      else let sorted_ev = sort_key ID events in
        case dedup_loop sorted_ev 1 (length sorted_ev - 1) of (arr, n) \<Rightarrow> take n arr)"

definition fan_in :: "int \<Rightarrow> partial list \<Rightarrow> shard_warning qresult" where
  "fan_in limit arrivals =
     (case gather 0 arrivals of (all0, warnings) \<Rightarrow>
      let merged = shard_mergeSortDedupByID all0;
          events = (if limit > 0 \<and> int (length merged) > limit then take (nat limit) merged else merged)
      in \<lparr>rEvents = events, rWarnings = warnings, rCursor = (if events = [] then [] else ID (last events)), rTotal = 0\<rparr>)"

definition relabel :: "router_warning qresult \<Rightarrow> shard_warning qresult" where
  "relabel res = \<lparr>rEvents = rEvents res, rWarnings = map ShardWarning (rWarnings res), rCursor = rCursor res, rTotal = rTotal res\<rparr>"

definition ShardQuery :: "(nat \<Rightarrow> router_env) \<Rightarrow> (partial list \<Rightarrow> partial list) \<Rightarrow> query \<Rightarrow> Instance list \<Rightarrow>
    shard_warning qresult result \<times> Instance list" where
  "ShardQuery env arrival q shards =
     (if length shards = 1
      then case ask_shard (env 0) q (shards ! 0) of
          (Inl e, s) \<Rightarrow> (Inl e, [s]) | (Inr res, s) \<Rightarrow> (Inr (relabel res), [s])
      else case ask_all env 0 q shards of
          (ps, shards') \<Rightarrow> (Inr (fan_in (qLimit q) (arrival ps)), shards'))"

section \<open>Shard choice\<close>

lemma shard_index_less:
  assumes "0 < n" "n < 2 ^ 64"
  shows "shard_index n t a < n"
proof -
  have u: "unat (of_nat n :: 64 word) = n" using assms(2) by (simp add: unat_of_nat take_bit_nat_eq_self)
  then have "shard_index n t a = unat (fnv64a (t @ '':'' @ a)) mod n"
    by (simp add: shard_index_def unat_mod_distrib)
  then show ?thesis using assms(1) by simp
qed

section \<open>Writes stay in their shard\<close>

lemma write_shard_spec:
  assumes "write_shard enc zone env i evts shards = (err, shards')"
  shows "length shards' = length shards" "j \<noteq> i \<Longrightarrow> shards' ! j = shards ! j"
    "i < length shards \<Longrightarrow> HotWriteBatch enc zone (env i) evts (shHot (shards ! i)) = (err, shHot (shards' ! i))"
  using assms by (auto simp: write_shard_def split: prod.splits)

lemma write_batches_spec:
  assumes "write_batches enc zone env bs e0 shards = (err, shards')" "distinct (map fst bs)" "\<forall>b\<in>set bs. fst b < length shards"
  shows "length shards' = length shards \<and>
    (\<forall>j. j \<notin> fst ` set bs \<longrightarrow> shards' ! j = shards ! j) \<and>
    (\<forall>(j, evts)\<in>set bs. \<exists>r. HotWriteBatch enc zone (env j) evts (shHot (shards ! j)) = (r, shHot (shards' ! j)) \<and>
        (err = None \<longrightarrow> r = None))"
  using assms
proof (induction bs arbitrary: e0 shards)
  case (Cons b bs)
  obtain i evts where b: "b = (i, evts)" by force
  obtain r s1 where w: "write_shard enc zone env i evts shards = (r, s1)" by force
  have rest: "write_batches enc zone env bs (if e0 = None then r else e0) s1 = (err, shards')"
    using Cons.prems(1) b w by simp
  note ws = write_shard_spec [OF w]
  have i: "i < length shards" "i \<notin> fst ` set bs" using Cons.prems(2,3) b by auto
  have IH: "length shards' = length s1" "\<And>j. j \<notin> fst ` set bs \<Longrightarrow> shards' ! j = s1 ! j"
    "\<And>j evts. (j, evts) \<in> set bs \<Longrightarrow> \<exists>r. HotWriteBatch enc zone (env j) evts (shHot (s1 ! j)) = (r, shHot (shards' ! j)) \<and> (err = None \<longrightarrow> r = None)"
    using Cons.IH [OF rest] Cons.prems(2,3) b ws(1) by auto
  have err: "err = None \<longrightarrow> r = None"
  proof -
    have "e \<noteq> None \<Longrightarrow> fst (write_batches enc zone env bs e s1) \<noteq> None" for e
      by (induction bs arbitrary: e s1) (auto split: prod.splits)
    then show ?thesis using rest by (metis fst_conv option.distinct(1))
  qed
  have "\<exists>r. HotWriteBatch enc zone (env j) ev (shHot (shards ! j)) = (r, shHot (shards' ! j)) \<and> (err = None \<longrightarrow> r = None)"
    if "(j, ev) \<in> set (b # bs)" for j ev
  proof (cases "(j, ev) \<in> set bs")
    case True
    then have "j \<noteq> i" using i(2) by force
    then show ?thesis using IH(3) [OF True] ws(2) by simp
  next
    case False
    then have "j = i" "ev = evts" using that b by auto
    then show ?thesis using ws(3) i IH(2) err by metis
  qed
  then have "\<forall>(j, ev)\<in>set (b # bs). \<exists>r. HotWriteBatch enc zone (env j) ev (shHot (shards ! j)) = (r, shHot (shards' ! j)) \<and> (err = None \<longrightarrow> r = None)"
    by blast
  moreover have "shards' ! j = shards ! j" if "j \<notin> fst ` set (b # bs)" for j
    using that IH(2) ws(2) b by auto
  moreover have "length shards' = length shards" using IH(1) ws(1) by simp
  ultimately show ?case by (intro conjI allI impI) blast+
qed simp

lemma event_shard_single:
  assumes "length shards = 1"
  shows "event_shard shards e = 0"
  using assms shard_index_less [of 1] by (simp add: event_shard_def ShardFor_def)

text \<open>The rows shard \<open>i\<close> has to take for table \<open>t\<close>.\<close>

definition shard_rows :: "json_enc \<Rightarrow> (int \<Rightarrow> int) \<Rightarrow> Instance list \<Rightarrow> event list \<Rightarrow> nat \<Rightarrow> string \<Rightarrow> hot_row list" where
  "shard_rows enc zone shards events i t =
     map (to_row enc) (filter (\<lambda>e. event_shard shards e = i \<and> hourlyTableName zone (Timestamp e) = t) events)"

lemma HotWriteBatch_all_or_nothing:
  assumes "HotWriteBatch enc zone env evts h = (r, h')"
  shows "rows_of h' t = rows_of h t \<and> r \<noteq> None \<or>
    rows_of h' t = insert_rows (rows_of h t) (map (to_row enc) (filter (\<lambda>e. hourlyTableName zone (Timestamp e) = t) evts)) \<and> r = None"
  using assms HotWriteBatch_rows [of enc zone env evts h h' t] HotWriteBatch_atomic [of enc zone env evts h _ h' t]
  by (cases r) auto

lemma WriteEvents_shard:
  assumes w: "WriteEvents enc zone env order events shards = (err, shards')"
    and n: "0 < length shards" "length shards < 2 ^ 64" and order: "\<And>xs. mset (order xs) = mset xs" and i: "i < length shards"
  shows "\<exists>r :: string option. (\<forall>t. rows_of (shHot (shards' ! i)) t = rows_of (shHot (shards ! i)) t \<and> r \<noteq> None \<or>
      rows_of (shHot (shards' ! i)) t = insert_rows (rows_of (shHot (shards ! i)) t) (shard_rows enc zone shards events i t) \<and> r = None) \<and>
    (err = None \<longrightarrow> r = None)"
proof (cases "events = []")
  case True
  then show ?thesis using w by (intro exI [of _ None]) (simp add: WriteEvents_def shard_rows_def)
next
  case ne: False
  show ?thesis
  proof (cases "length shards = 1")
    case True
    then have one: "write_shard enc zone env 0 events shards = (err, shards')" "i = 0" using w ne i by (simp_all add: WriteEvents_def)
    from write_shard_spec(3) [OF one(1)] n
    have "HotWriteBatch enc zone (env 0) events (shHot (shards ! 0)) = (err, shHot (shards' ! 0))" by simp
    note all = HotWriteBatch_all_or_nothing [OF this]
    have rows0: "shard_rows enc zone shards events 0 t = map (to_row enc) (filter (\<lambda>e. hourlyTableName zone (Timestamp e) = t) events)" for t
      by (simp add: shard_rows_def event_shard_single [OF True])
    show ?thesis unfolding one(2) rows0
      by (intro exI [where x = err] conjI allI) (use all in auto)
  next
    case False
    let ?g = "group_into (event_shard shards) events"
    have wb: "write_batches enc zone env (order ?g) None shards = (err, shards')" using w ne False by (simp add: WriteEvents_def)
    have set: "set (order ?g) = set ?g" using order by (metis set_mset_mset)
    have "distinct (map fst (order ?g))"
      using order [of ?g] distinct_group_into [of "event_shard shards" events] by (metis mset_eq_imp_distinct_iff mset_map)
    moreover have "\<forall>b\<in>set (order ?g). fst b < length shards"
      unfolding set using n shard_index_less by (auto simp: group_into_mem event_shard_def ShardFor_def)
    ultimately have sp: "\<And>j. j \<notin> fst ` set ?g \<Longrightarrow> shards' ! j = shards ! j"
      "\<And>j evts. (j, evts) \<in> set ?g \<Longrightarrow> \<exists>r. HotWriteBatch enc zone (env j) evts (shHot (shards ! j)) = (r, shHot (shards' ! j)) \<and>
        (err = None \<longrightarrow> r = None)"
      using write_batches_spec [OF wb] unfolding set by blast+
    show ?thesis
    proof (cases "i \<in> event_shard shards ` set events")
      case True
      then have "(i, filter (\<lambda>e. event_shard shards e = i) events) \<in> set ?g" by (simp add: group_into_mem)
      from sp(2) [OF this] obtain r where
        h: "HotWriteBatch enc zone (env i) (filter (\<lambda>e. event_shard shards e = i) events) (shHot (shards ! i)) = (r, shHot (shards' ! i))"
        and "err = None \<longrightarrow> r = None" by blast
      moreover have "shard_rows enc zone shards events i t = map (to_row enc)
          (filter (\<lambda>e. hourlyTableName zone (Timestamp e) = t) (filter (\<lambda>e. event_shard shards e = i) events))" for t
        by (simp add: shard_rows_def conj_commute)
      ultimately show ?thesis
        by (intro exI [where x = r] conjI allI) (use HotWriteBatch_all_or_nothing [OF h] in auto)
    next
      case False
      then have "shards' ! i = shards ! i" by (intro sp(1)) (simp add: keys_group_into)
      moreover have "shard_rows enc zone shards events i t = []" for t
        using False by (auto simp: shard_rows_def filter_empty_conv)
      ultimately show ?thesis by (intro exI [of _ None]) simp
    qed
  qed
qed

section \<open>Fan-in\<close>

fun partial_events :: "partial \<Rightarrow> event list" where
  "partial_events (Inl _) = []"
| "partial_events (Inr res) = rEvents res"

lemma gather_events: "fst (gather i ps) = concat (map partial_events ps)"
  by (induction i ps rule: gather.induct) (auto split: prod.splits sum.splits)

lemma shard_merge_eq: "shard_mergeSortDedupByID events = MergeSortDedupByID events"
  by (simp add: shard_mergeSortDedupByID_def MergeSortDedupByID_def Let_def)

lemma fan_in_ids:
  "map ID (rEvents (fan_in limit ps)) = cap limit (sorted_list_of_set (ID ` (\<Union>p\<in>set ps. set (partial_events p))))"
proof -
  obtain evs ws where g: "gather 0 ps = (evs, ws)" by force
  then have evs: "evs = concat (map partial_events ps)" using gather_events [of 0 ps] by simp
  have "map ID (shard_mergeSortDedupByID evs) = sorted_list_of_set (ID ` (\<Union>p\<in>set ps. set (partial_events p)))"
    by (simp add: shard_merge_eq ids_MergeSortDedupByID evs)
  moreover have "rEvents (fan_in limit ps) = cap limit (shard_mergeSortDedupByID evs)"
    using g by (auto simp: fan_in_def Let_def cap_def)
  ultimately show ?thesis by (simp add: cap_def take_map [symmetric])
qed

lemma take_lowest_UN:
  fixes A :: "'i \<Rightarrow> 'a::linorder set"
  assumes "finite I" "\<And>i. i \<in> I \<Longrightarrow> finite (A i)"
  shows "take n (sorted_list_of_set (\<Union>i\<in>I. lowest n (A i))) = take n (sorted_list_of_set (\<Union>i\<in>I. A i))"
proof (rule take_sorted_subset)
  show "finite (\<Union>i\<in>I. A i)" using assms by blast
  show "(\<Union>i\<in>I. lowest n (A i)) \<subseteq> (\<Union>i\<in>I. A i)" using lowest_subset assms(2) by fast
  fix x assume x: "x \<in> (\<Union>i\<in>I. A i) - (\<Union>i\<in>I. lowest n (A i))"
  then obtain i where i: "i \<in> I" "x \<in> A i" "x \<notin> lowest n (A i)" by blast
  have "finite (\<Union>i\<in>I. lowest n (A i))" using assms by (simp add: lowest_def)
  then have "card {y \<in> lowest n (A i). y < x} \<le> card {y \<in> (\<Union>i\<in>I. lowest n (A i)). y < x}"
    using i(1) by (intro card_mono finite_subset [of "{y \<in> (\<Union>i\<in>I. lowest n (A i)). y < x}" "\<Union>i\<in>I. lowest n (A i)"]) auto
  then show "n \<le> card {y \<in> (\<Union>i\<in>I. lowest n (A i)). y < x}"
    using card_lowest [OF assms(2) [OF i(1)] i(2,3)] by linarith
qed

section \<open>Instances\<close>

definition two_shards :: "Instance list" where
  "two_shards = replicate 2 \<lparr>shHot = no_tables, shManifest = sample_manifest, shRouter = NewRouter\<rparr>"

lemma length_two: "length two_shards = 2" by (simp add: two_shards_def)

definition sample_pair :: "event list" where
  "sample_pair = [sample_event ''00000001'' ''t'' ''a'' 1000, sample_event ''00000002'' ''t'' ''b'' 2000]"

section \<open>Claims\<close>

text \<open>
  The shard of an event is an index into the shard list, for every hash value; and the hash
  is 64-bit FNV-1a (the published values of the empty string and of \<open>a\<close>).
\<close>

theorem ShardFor_in_range:
  assumes "0 < length shards" "length shards < 2 ^ 64"
  shows "ShardFor shards tenantID agentID < length shards \<and> fnv64a [] = 0xcbf29ce484222325 \<and> fnv64a ''a'' = 0xaf63dc4c8601ec8c"
proof -
  have "fnv64a ''a'' = 0xaf63dc4c8601ec8c" by code_simp
  then show ?thesis using shard_index_less [OF assms] by (simp add: ShardFor_def fnv64a_def fnv_offset_def)
qed

theorem ShardFor_in_range_witness: "ShardFor two_shards ''t'' ''a'' < 2"
  using ShardFor_in_range [of two_shards "''t''" "''a''"] by (simp add: two_shards_def)

text \<open>
  C20. A write over several shards: whatever the order of the goroutines, each shard takes either
  none of the batch or exactly the rows of the events that hash to it; without an error every
  shard took its rows.
\<close>

theorem WriteEvents_per_shard:
  assumes "WriteEvents enc zone env order events shards = (err, shards')"
    and "0 < length shards" "length shards < 2 ^ 64" "\<forall>xs. mset (order xs) = mset xs" "i < length shards"
  shows "(\<forall>t. rows_of (shHot (shards' ! i)) t = rows_of (shHot (shards ! i)) t) \<and> err \<noteq> None \<or>
    (\<forall>t. rows_of (shHot (shards' ! i)) t = insert_rows (rows_of (shHot (shards ! i)) t) (shard_rows enc zone shards events i t))"
proof -
  from assms(4) have "\<And>xs. mset (order xs) = mset xs" by blast
  from WriteEvents_shard [OF assms(1-3) this assms(5)] obtain r :: "string option" where
    "\<And>t. rows_of (shHot (shards' ! i)) t = rows_of (shHot (shards ! i)) t \<and> r \<noteq> None \<or>
      rows_of (shHot (shards' ! i)) t = insert_rows (rows_of (shHot (shards ! i)) t) (shard_rows enc zone shards events i t) \<and> r = None"
    and "err = None \<longrightarrow> r = None" by blast
  then show ?thesis by (cases r) auto
qed

theorem WriteEvents_per_shard_witness:
  "rows_of (shHot (snd (WriteEvents no_annotations utc (\<lambda>_. no_hot_faults) id sample_pair two_shards) ! 0)) ''edr_events_1970010100''
     = insert_rows [] (shard_rows no_annotations utc two_shards sample_pair 0 ''edr_events_1970010100'')"
proof -
  let ?w = "WriteEvents no_annotations utc (\<lambda>_. no_hot_faults) id sample_pair two_shards"
  have "fst ?w = None" by code_simp
  then have "?w = (None, snd ?w)" by (metis prod.collapse)
  then have "rows_of (shHot (snd ?w ! 0)) t = insert_rows (rows_of (shHot (two_shards ! 0)) t)
      (shard_rows no_annotations utc two_shards sample_pair 0 t)" for t
    using WriteEvents_per_shard [of no_annotations utc "\<lambda>_. no_hot_faults" id sample_pair two_shards None "snd ?w" 0]
    by (simp add: length_two)
  then show ?thesis by (simp add: two_shards_def no_tables_def rows_of_def)
qed

text \<open>
  The fan-in of shard results does not depend on the order of their arrival and is complete:
  if each shard delivers the least \<open>n\<close> identifiers of its matches, the merged page is the least
  \<open>n\<close> identifiers of all matches.
\<close>

theorem fan_in_complete:
  assumes "0 < n" "mset arrivals = mset ps"
    and "\<forall>i<length ps. \<exists>res. ps ! i = Inr res \<and> map ID (rEvents res) = take n (sorted_list_of_set (A i)) \<and> finite (A i)"
  shows "map ID (rEvents (fan_in (int n) arrivals)) = take n (sorted_list_of_set (\<Union>i<length ps. A i))"
proof -
  have "ID ` set (partial_events (ps ! i)) = lowest n (A i)" if "i < length ps" for i
    using assms(3) that unfolding lowest_def by (metis list.set_map partial_events.simps(2))
  then have "(\<Union>i<length ps. ID ` set (partial_events (ps ! i))) = (\<Union>i<length ps. lowest n (A i))" by simp
  moreover have "set arrivals = (\<lambda>i. ps ! i) ` {..<length ps}"
    using assms(2) by (metis mset_eq_setD nth_image take_all_iff order_refl lessThan_atLeast0)
  then have "ID ` (\<Union>p\<in>set arrivals. set (partial_events p)) = (\<Union>i<length ps. ID ` set (partial_events (ps ! i)))"
    by (simp add: image_UN)
  ultimately have "map ID (rEvents (fan_in (int n) arrivals)) = take n (sorted_list_of_set (\<Union>i<length ps. lowest n (A i)))"
    using assms(1) by (simp add: fan_in_ids cap_def)
  then show ?thesis using assms(3) by (subst take_lowest_UN [symmetric]) auto
qed

theorem fan_in_complete_witness:
  "map ID (rEvents (fan_in 1 [Inr (empty_result\<lparr>rEvents := [sample_event ''2'' ''t'' ''b'' 2]\<rparr>),
      Inr (empty_result\<lparr>rEvents := [sample_event ''1'' ''t'' ''a'' 1]\<rparr>)])) = [''1'']"
proof -
  let ?p1 = "Inr (empty_result\<lparr>rEvents := [sample_event ''1'' ''t'' ''a'' 1]\<rparr>) :: partial"
  let ?p2 = "Inr (empty_result\<lparr>rEvents := [sample_event ''2'' ''t'' ''b'' 2]\<rparr>) :: partial"
  let ?A = "\<lambda>i::nat. if i = 0 then {''1''} else {''2''}"
  have "\<forall>i<length [?p1, ?p2]. \<exists>res. [?p1, ?p2] ! i = Inr res \<and> map ID (rEvents res) = take 1 (sorted_list_of_set (?A i)) \<and> finite (?A i)"
    by (auto simp: less_Suc_eq sample_event_def)
  from fan_in_complete [OF _ _ this, of "[?p2, ?p1]"]
  have "map ID (rEvents (fan_in 1 [?p2, ?p1])) = take 1 (sorted_list_of_set (\<Union>i<2. ?A i))" by (simp add: numeral_2_eq_2)
  also have "(\<Union>i<2. ?A i) = {''1'', ''2''}" by (auto simp: numeral_2_eq_2 less_Suc_eq)
  also have "take 1 (sorted_list_of_set {''1'', ''2''}) = [''1'']" by code_simp
  finally show ?thesis .
qed

end
