(* ===== verification/Cold_Lifecycle.thy ===== *)
theory Cold_Lifecycle
  imports Sample_Data
begin

text \<open>
  \<open>internal/storage/gc\<close>: garbage collection, TTL marking, hot-table retention and scrubbing, each as
  one cycle of its loop.  Clocks, directory listings and the failures of single statements and
  file removals are inputs.  Clock readings and durations are in nanoseconds, cutoffs and the
  times of files in microseconds.
\<close>

section \<open>Loops of status updates\<close>

text \<open>\<open>flt\<close> gives the failure of the update of a file identifier.\<close>

definition update_one :: "(string \<Rightarrow> fault) \<Rightarrow> int \<Rightarrow> string \<Rightarrow> string \<Rightarrow> Manifest \<Rightarrow> Manifest" where
  "update_one flt now st fid m = snd (UpdateFileStatus (flt fid) now fid st m)"

definition update_all :: "(string \<Rightarrow> fault) \<Rightarrow> int \<Rightarrow> string \<Rightarrow> string list \<Rightarrow> Manifest \<Rightarrow> Manifest" where
  "update_all flt now st fids m = foldl (\<lambda>m fid. update_one flt now st fid m) m fids"

definition list_files :: "fault \<Rightarrow> int \<Rightarrow> string \<Rightarrow> Manifest \<Rightarrow> FileInfo list" where
  "list_files flt until st m = (case FilesFor flt [] 0 until st m of Inl _ \<Rightarrow> [] | Inr files \<Rightarrow> files)"

definition old_ids :: "int \<Rightarrow> FileInfo list \<Rightarrow> string list" where
  "old_ids cutoff files = map fiFileID (filter (\<lambda>f. fiMaxTS f < cutoff) files)"

definition us_of :: "int \<Rightarrow> int" where
  "us_of ns = ns div Microsecond"

section \<open>Garbage collection\<close>

definition DefaultColdTTL :: int where "DefaultColdTTL = 365 * 24 * Hour"

record GC =
  gcDataDir :: string
  gcGrace :: int
  gcTTL :: int

definition NewGC :: "string \<Rightarrow> GC" where
  "NewGC dataDir = \<lparr>gcDataDir = dataDir, gcGrace = 7 * 24 * Hour, gcTTL = DefaultColdTTL\<rparr>"

definition WithColdTTL :: "int \<Rightarrow> GC \<Rightarrow> GC" where
  "WithColdTTL ttl g = (if ttl > 0 then g\<lparr>gcTTL := ttl\<rparr> else g)"

record gc_env =
  gxNow :: int
  gxListing :: "string list"
  gxCount :: "string \<Rightarrow> bool"
  gxRemove :: "string \<Rightarrow> fault"
  gxList :: "string \<Rightarrow> fault"
  gxUpdate :: "string \<Rightarrow> string \<Rightarrow> fault"

text \<open>The orphan sweep on the file system; \<open>gxListing\<close> is the walk of the data directory.\<close>

definition sweep :: "gc_env \<Rightarrow> Manifest \<Rightarrow> fsys \<Rightarrow> fsys" where
  "sweep env m fs =
     (let left = OrphanGC (gxCount env) (\<lambda>p. gxRemove env p \<noteq> None) (gxListing env) m
      in fs\<lparr>local_files := (\<lambda>p. if p \<in> set (gxListing env) \<and> p \<notin> set left then None else local_files fs p)\<rparr>)"

text \<open>Removing one file: a missing file counts as removed, another failure skips the update.\<close>

definition delete_one :: "gc_env \<Rightarrow> FileInfo \<Rightarrow> Manifest \<times> fsys \<Rightarrow> Manifest \<times> fsys" where
  "delete_one env f st =
     (case st of (m, fs) \<Rightarrow>
      if local_files fs (fiPath f) \<noteq> None \<and> gxRemove env (fiPath f) \<noteq> None then (m, fs)
      else (update_one (gxUpdate env ''deleted'') (us_of (gxNow env)) ''deleted'' (fiFileID f) m,
            fs\<lparr>local_files := (local_files fs)(fiPath f := None)\<rparr>))"

definition delete_all :: "gc_env \<Rightarrow> FileInfo list \<Rightarrow> Manifest \<times> fsys \<Rightarrow> Manifest \<times> fsys" where
  "delete_all env files st = foldl (\<lambda>st f. delete_one env f st) st files"

definition mark_expired :: "gc_env \<Rightarrow> int \<Rightarrow> Manifest \<Rightarrow> Manifest" where
  "mark_expired env cutoff m =
     (let m1 = update_all (gxUpdate env ''expired'') (us_of (gxNow env)) ''expired''
                 (old_ids cutoff (list_files (gxList env ''committed'') cutoff ''committed'' m)) m
      in update_all (gxUpdate env ''expired'') (us_of (gxNow env)) ''expired''
           (old_ids cutoff (list_files (gxList env ''superseded'') cutoff ''superseded'' m1)) m1)"

definition collectOnce :: "gc_env \<Rightarrow> GC \<Rightarrow> Manifest \<times> fsys \<Rightarrow> Manifest \<times> fsys" where
  "collectOnce env g st =
     (case st of (m, fs) \<Rightarrow>
      let fs1 = (if gcDataDir g \<noteq> [] then sweep env m fs else fs);
          ttlCutoff = us_of (gxNow env - gcTTL g);
          m1 = mark_expired env ttlCutoff m;
          gcCutoff = us_of (gxNow env - gcGrace g)
      in delete_all env (list_files (gxList env ''expired'') gcCutoff ''expired'' m1) (m1, fs1))"

section \<open>TTL policies\<close>

record TTLPolicy =
  Framework :: string
  Duration :: int

definition DefaultTTLPolicies :: "TTLPolicy list" where
  "DefaultTTLPolicies =
     [\<lparr>Framework = ''default'', Duration = 365 * 24 * Hour\<rparr>, \<lparr>Framework = ''pci_dss'', Duration = 365 * 24 * Hour\<rparr>,
      \<lparr>Framework = ''hipaa'', Duration = 6 * 365 * 24 * Hour\<rparr>, \<lparr>Framework = ''gdpr'', Duration = 365 * 24 * Hour\<rparr>]"

definition NewTTLManager :: "TTLPolicy list \<Rightarrow> TTLPolicy list" where
  "NewTTLManager policies = (if policies = [] then DefaultTTLPolicies else policies)"

definition apply_policy :: "(string \<Rightarrow> fault) \<Rightarrow> (string \<Rightarrow> fault) \<Rightarrow> int \<Rightarrow> TTLPolicy \<Rightarrow> Manifest \<Rightarrow> Manifest" where
  "apply_policy lst upd now p m =
     (let cutoff = us_of (now - Duration p)
      in update_all upd (us_of now) ''expired'' (old_ids cutoff (list_files (lst (Framework p)) cutoff ''committed'' m)) m)"

definition applyOnce :: "(string \<Rightarrow> fault) \<Rightarrow> (string \<Rightarrow> fault) \<Rightarrow> int \<Rightarrow> TTLPolicy list \<Rightarrow> Manifest \<Rightarrow> Manifest" where
  "applyOnce lst upd now policies m = foldl (\<lambda>m p. apply_policy lst upd now p m) m policies"

section \<open>Retention of hot tables\<close>

definition NewRetention :: "int \<Rightarrow> int" where
  "NewRetention hotWindow = (if hotWindow \<le> 0 then 2 * Hour else hotWindow)"

definition parseHourSuffix :: "string \<Rightarrow> int option" where
  "parseHourSuffix t =
     (case LastIndexByte t (CHR ''_'') of
        None \<Rightarrow> None
      | Some idx \<Rightarrow>
        if idx + 11 \<noteq> length t then None
        else let suffix = drop (idx + 1) t in
          if length suffix \<noteq> 10 then None
          else if \<exists>c\<in>set suffix. \<not> is_digit c then None
          else parse_hour suffix)"

definition droppable :: "int \<Rightarrow> int \<Rightarrow> int \<Rightarrow> string \<Rightarrow> bool" where
  "droppable lastTS window now t =
     (case parseHourSuffix t of
        None \<Rightarrow> False
      | Some hourStart \<Rightarrow>
        (let hourEnd = hourStart + us_of Hour
         in \<not> hourEnd \<ge> lastTS \<and> \<not> hourEnd + us_of window \<ge> now))"

definition retain_table :: "(string \<Rightarrow> fault) \<Rightarrow> (string \<Rightarrow> fault) \<Rightarrow> (string \<Rightarrow> fault) \<Rightarrow> string \<Rightarrow>
    HotStore \<times> Manifest \<Rightarrow> HotStore \<times> Manifest" where
  "retain_table drp mark hdrop t st =
     (case st of (h, m) \<Rightarrow>
      case DropTable (drp t) t h of
        (Some e, h') \<Rightarrow> (h', m)
      | (None, h') \<Rightarrow> (h', snd (DropHotTable (hdrop t) t (snd (MarkHotTableFlushed (mark t) t m)))))"

definition retainOnce :: "fault \<Rightarrow> (string \<Rightarrow> fault) \<Rightarrow> (string \<Rightarrow> fault) \<Rightarrow> (string \<Rightarrow> fault) \<Rightarrow> int \<Rightarrow> int \<Rightarrow>
    HotStore \<times> Manifest \<Rightarrow> HotStore \<times> Manifest" where
  "retainOnce wmflt drp mark hdrop window now st =
     (case st of (h, m) \<Rightarrow>
      case get_watermark wmflt m of
        Inl _ \<Rightarrow> (h, m)
      | Inr wm \<Rightarrow>
        foldl (\<lambda>st t. if droppable (LastTS wm) window now t then retain_table drp mark hdrop t st else st)
          (h, m) (LiveTables h))"

section \<open>Scrubbing\<close>

text \<open>
  What hashing a file can yield.  \<open>fileSHA256\<close> wraps the error of \<open>os.Open\<close>, and \<open>os.IsNotExist\<close>
  does not look through a wrapped error: it holds of no error that \<open>fileSHA256\<close> returns.
\<close>

datatype hash_result = Hashed string | HashErr string

definition IsNotExist_wrapped :: "string \<Rightarrow> bool" where
  "IsNotExist_wrapped err = False"

definition scrub_sha256 :: "(string \<Rightarrow> fault) \<Rightarrow> (TraceEventParquet list \<Rightarrow> string) \<Rightarrow> fsys \<Rightarrow> string \<Rightarrow> hash_result" where
  "scrub_sha256 rd sha fs path =
     (case local_files fs path of
        None \<Rightarrow> HashErr (''open: open '' @ path @ '': no such file or directory'')
      | Some rows \<Rightarrow> (case rd path of Some e \<Rightarrow> HashErr (''open: '' @ e) | None \<Rightarrow> Hashed (sha rows)))"

fun scrub_loop :: "(string \<Rightarrow> hash_result) \<Rightarrow> (string \<Rightarrow> fault) \<Rightarrow> int \<Rightarrow> FileInfo list \<Rightarrow> int \<Rightarrow> Manifest \<Rightarrow> int \<times> Manifest" where
  "scrub_loop hash upd now [] checked m = (checked, m)"
| "scrub_loop hash upd now (f # files) checked m =
     (if checked \<ge> 100 then (checked, m)
      else case hash (fiPath f) of
        HashErr e \<Rightarrow>
          if IsNotExist_wrapped e
          then scrub_loop hash upd now files (checked + 1) (update_one upd now ''corrupted'' (fiFileID f) m)
          else scrub_loop hash upd now files checked m
      | Hashed actualSHA \<Rightarrow> scrub_loop hash upd now files (checked + 1) m)"

definition scrubOnce :: "fault \<Rightarrow> (string \<Rightarrow> fault) \<Rightarrow> (TraceEventParquet list \<Rightarrow> string) \<Rightarrow> (string \<Rightarrow> fault) \<Rightarrow> int \<Rightarrow>
    fsys \<Rightarrow> Manifest \<Rightarrow> int \<times> Manifest" where
  "scrubOnce lst rd sha upd now fs m =
     (case FilesFor lst [] 0 0 ''committed'' m of
        Inl _ \<Rightarrow> (0, m)
      | Inr files \<Rightarrow> scrub_loop (scrub_sha256 rd sha fs) upd now files 0 m)"

section \<open>Status loops through the catalogue\<close>

lemma update_all_ok:
  assumes "\<forall>fid. flt fid = None"
  shows "update_all flt now st fids m = foldl (\<lambda>m fid. set_file_status now fid st m) m fids"
  using assms by (simp add: update_all_def update_one_def UpdateFileStatus_def)

lemma status_update_all:
  assumes "\<forall>fid. flt fid = None"
  shows "status_of (update_all flt now st fids m) j =
    (if j \<in> set fids then map_option (\<lambda>_. st) (status_of m j) else status_of m j)"
  unfolding update_all_ok [OF assms] by (rule mcat.status_fold)

text \<open>Everything of a file but its status and its update time.\<close>

definition file_core :: "ParquetFileRecord \<Rightarrow> string \<times> string \<times> int \<times> int" where
  "file_core f = (pfFileID f, pfPath f, pfMinTimestampUs f, pfMaxTimestampUs f)"

lemma core_set_file_status [simp]:
  "map file_core (parquet_files (set_file_status now fid st m)) = map file_core (parquet_files m)"
  by (simp add: set_file_status_def file_core_def comp_def)

lemma core_update_one [simp]:
  "map file_core (parquet_files (update_one flt now st fid m)) = map file_core (parquet_files m)"
  by (cases "flt fid") (simp_all add: update_one_def UpdateFileStatus_def)

lemma core_update_all [simp]:
  "map file_core (parquet_files (update_all flt now st fids m)) = map file_core (parquet_files m)"
  unfolding update_all_def by (induction fids arbitrary: m) simp_all

lemma wf_update_one [inv_intros]: "manifest_wf m \<Longrightarrow> manifest_wf (update_one flt now st fid m)"
  by (cases "flt fid") (simp_all add: update_one_def UpdateFileStatus_def set_file_status_wf)

lemma wf_update_all [inv_intros]: "manifest_wf m \<Longrightarrow> manifest_wf (update_all flt now st fids m)"
  unfolding update_all_def by (induction fids arbitrary: m) (simp_all add: wf_update_one)

text \<open>The times of a file, found by its identifier.\<close>

definition core_of :: "Manifest \<Rightarrow> string \<Rightarrow> (string \<times> int \<times> int) option" where
  "core_of m = map_of (map file_core (parquet_files m))"

lemma core_of_update_all [simp]: "core_of (update_all flt now st fids m) = core_of m"
  by (simp only: core_of_def core_update_all)

lemma core_of_update_one [simp]: "core_of (update_one flt now st fid m) = core_of m"
  by (simp only: core_of_def core_update_one)

lemma wf_core: "manifest_wf m \<Longrightarrow> distinct (map fst (map file_core (parquet_files m)))"
  by (simp add: manifest_wf_def file_core_def comp_def)

lemma core_of_mem:
  assumes "manifest_wf m" "f \<in> set (parquet_files m)"
  shows "core_of m (pfFileID f) = Some (pfPath f, pfMinTimestampUs f, pfMaxTimestampUs f)"
    "status_of m (pfFileID f) = Some (pfStatus f)"
proof -
  have "file_core f \<in> set (map file_core (parquet_files m))" using assms(2) by simp
  then show "core_of m (pfFileID f) = Some (pfPath f, pfMinTimestampUs f, pfMaxTimestampUs f)"
    unfolding core_of_def using wf_core [OF assms(1)] by (intro map_of_is_SomeI) (simp_all add: file_core_def)
  show "status_of m (pfFileID f) = Some (pfStatus f)" using assms status_of_iff by blast
qed

lemma core_of_SomeD:
  assumes "core_of m i = Some c"
  obtains f where "f \<in> set (parquet_files m)" "file_core f = (i, c)"
  using map_of_SomeD [OF assms [unfolded core_of_def]] by auto

text \<open>A file is due for a cutoff when the listing with that bound shows it and its data are older.\<close>

definition due :: "int \<Rightarrow> (string \<times> int \<times> int) \<Rightarrow> bool" where
  "due cutoff c \<longleftrightarrow> (case c of (_, mn, mx) \<Rightarrow> mx < cutoff \<and> (cutoff > 0 \<longrightarrow> mn \<le> cutoff))"

lemma list_files_mem:
  "fi \<in> set (list_files None until st m) \<longleftrightarrow> (\<exists>f\<in>set (parquet_files m). files_where [] 0 until st f \<and> fi = file_info f)"
proof -
  have "FilesFor None [] 0 until st m = Inr (list_files None until st m)" by (simp add: list_files_def FilesFor_def)
  from FilesFor_mem [OF this] show ?thesis .
qed

lemma listed_file:
  assumes "x \<in> set (list_files None until st m)"
  obtains f where "f \<in> set (parquet_files m)" "fiFileID x = pfFileID f" "fiPath x = pfPath f"
  using assms by (auto simp: list_files_mem file_info_def)

lemma old_ids_listed:
  assumes "manifest_wf m" "st \<noteq> []"
  shows "i \<in> set (old_ids cutoff (list_files None cutoff st m)) \<longleftrightarrow>
    status_of m i = Some st \<and> (\<exists>c. core_of m i = Some c \<and> due cutoff c)"
proof
  assume "i \<in> set (old_ids cutoff (list_files None cutoff st m))"
  then obtain f where f: "f \<in> set (parquet_files m)" "files_where [] 0 cutoff st f" "pfFileID f = i" "pfMaxTimestampUs f < cutoff"
    by (auto simp: old_ids_def list_files_mem file_info_def)
  then show "status_of m i = Some st \<and> (\<exists>c. core_of m i = Some c \<and> due cutoff c)"
    using core_of_mem [OF assms(1) f(1)] assms(2) by (auto simp: files_where_def due_def)
next
  assume a: "status_of m i = Some st \<and> (\<exists>c. core_of m i = Some c \<and> due cutoff c)"
  then obtain f where f: "f \<in> set (parquet_files m)" "pfFileID f = i" "pfStatus f = st"
    using status_of_iff [OF assms(1)] by blast
  then have "due cutoff (pfPath f, pfMinTimestampUs f, pfMaxTimestampUs f)"
    using a core_of_mem(1) [OF assms(1) f(1)] by auto
  then have d: "pfMaxTimestampUs f < cutoff" "cutoff > 0 \<longrightarrow> pfMinTimestampUs f \<le> cutoff" by (simp_all add: due_def)
  then have "file_info f \<in> set (list_files None cutoff st m)"
    using f assms(2) unfolding list_files_mem by (intro bexI [of _ f]) (auto simp: files_where_def)
  then have "file_info f \<in> set (filter (\<lambda>f. fiMaxTS f < cutoff) (list_files None cutoff st m))"
    using d(1) by (simp add: file_info_def)
  then show "i \<in> set (old_ids cutoff (list_files None cutoff st m))"
    unfolding old_ids_def using f(2) by (metis (no_types, lifting) FileInfo.select_convs(2) file_info_def image_eqI list.set_map)
qed

section \<open>Garbage collection\<close>

definition no_gc_faults :: "gc_env \<Rightarrow> bool" where
  "no_gc_faults env \<longleftrightarrow> (\<forall>p. \<not> gxCount env p) \<and> (\<forall>p. gxRemove env p = None) \<and> (\<forall>s. gxList env s = None) \<and>
     (\<forall>s fid. gxUpdate env s fid = None)"

lemma core_of_mark [simp]: "core_of (mark_expired env c m) = core_of m"
  by (simp add: mark_expired_def Let_def)

lemma wf_mark [inv_intros]: "manifest_wf m \<Longrightarrow> manifest_wf (mark_expired env c m)"
  by (simp add: mark_expired_def Let_def wf_update_all)

lemma status_mark_expired:
  assumes "no_gc_faults env" "manifest_wf m"
  shows "status_of (mark_expired env cutoff m) i =
    (if status_of m i \<in> {Some ''committed'', Some ''superseded''} \<and> (\<exists>c. core_of m i = Some c \<and> due cutoff c)
     then Some ''expired'' else status_of m i)"
proof -
  define m1 where "m1 = update_all (gxUpdate env ''expired'') (us_of (gxNow env)) ''expired''
      (old_ids cutoff (list_files (gxList env ''committed'') cutoff ''committed'' m)) m"
  have up: "\<forall>fid. gxUpdate env ''expired'' fid = None" and ls: "\<And>s. gxList env s = None"
    using assms(1) by (simp_all add: no_gc_faults_def)
  have wf1: "manifest_wf m1" by (simp add: m1_def wf_update_all assms(2))
  have s1: "status_of m1 i = (if status_of m i = Some ''committed'' \<and> (\<exists>c. core_of m i = Some c \<and> due cutoff c)
      then Some ''expired'' else status_of m i)" for i
    unfolding m1_def ls by (simp add: status_update_all [OF up] old_ids_listed [OF assms(2)])
  have c1: "core_of m1 = core_of m" by (simp add: m1_def)
  have "mark_expired env cutoff m = update_all (gxUpdate env ''expired'') (us_of (gxNow env)) ''expired''
      (old_ids cutoff (list_files None cutoff ''superseded'' m1)) m1"
    by (simp add: mark_expired_def Let_def m1_def ls)
  then have "status_of (mark_expired env cutoff m) i = (if status_of m1 i = Some ''superseded'' \<and> (\<exists>c. core_of m1 i = Some c \<and> due cutoff c)
      then Some ''expired'' else status_of m1 i)"
    using old_ids_listed [OF wf1, of "''superseded''" i cutoff] by (simp add: status_update_all [OF up])
  then have fin: "status_of (mark_expired env cutoff m) i =
      (if (if S = Some ''committed'' \<and> D then Some ''expired'' else S) = Some ''superseded'' \<and> D then Some ''expired''
       else (if S = Some ''committed'' \<and> D then Some ''expired'' else S))"
    if "S = status_of m i" "D = (\<exists>c. core_of m i = Some c \<and> due cutoff c)" for S D
    unfolding that s1 c1 .
  define S where "S = status_of m i"
  define D where "D \<longleftrightarrow> (\<exists>c. core_of m i = Some c \<and> due cutoff c)"
  show ?thesis
    unfolding fin [OF S_def D_def] S_def [symmetric] D_def [symmetric] by (cases D) auto
qed

lemma delete_all_ok:
  assumes "no_gc_faults env"
  shows "fst (delete_all env files (m, fs)) = update_all (\<lambda>_. None) (us_of (gxNow env)) ''deleted'' (map fiFileID files) m"
    "local_files (snd (delete_all env files (m, fs))) p = (if p \<in> fiPath ` set files then None else local_files fs p)"
proof -
  have rm: "\<And>p. gxRemove env p = None" and up: "\<And>s fid. gxUpdate env s fid = None"
    using assms by (simp_all add: no_gc_faults_def)
  have "fst (delete_all env files (m, fs)) = update_all (\<lambda>_. None) (us_of (gxNow env)) ''deleted'' (map fiFileID files) m \<and>
      local_files (snd (delete_all env files (m, fs))) p = (if p \<in> fiPath ` set files then None else local_files fs p)"
    by (induction files arbitrary: m fs)
      (simp_all add: delete_all_def update_all_def delete_one_def update_one_def rm up)
  then show "fst (delete_all env files (m, fs)) = update_all (\<lambda>_. None) (us_of (gxNow env)) ''deleted'' (map fiFileID files) m"
    "local_files (snd (delete_all env files (m, fs))) p = (if p \<in> fiPath ` set files then None else local_files fs p)"
    by blast+
qed

lemma sweep_keeps:
  assumes "no_gc_faults env" "f \<in> set (parquet_files m)" "pfStatus f \<in> {''committed'', ''superseded'', ''expired''}"
  shows "local_files (sweep env m fs) (pfPath f) = local_files fs (pfPath f)"
proof -
  have "tracked m (pfPath f)" using assms(2,3) by (auto simp: tracked_def)
  then show ?thesis using assms(1) by (auto simp: sweep_def OrphanGC_def Let_def no_gc_faults_def)
qed

text \<open>The listing of expired files in a collection cycle.\<close>

lemma expired_listing:
  assumes "no_gc_faults env" "manifest_wf m"
  shows "i \<in> fiFileID ` set (list_files (gxList env ''expired'') cutoff ''expired'' m) \<longleftrightarrow>
    status_of m i = Some ''expired'' \<and> (\<exists>p mn mx. core_of m i = Some (p, mn, mx) \<and> (cutoff > 0 \<longrightarrow> mn \<le> cutoff))"
proof
  assume "i \<in> fiFileID ` set (list_files (gxList env ''expired'') cutoff ''expired'' m)"
  then obtain f where f: "f \<in> set (parquet_files m)" "files_where [] 0 cutoff ''expired'' f" "pfFileID f = i"
    using assms(1) by (auto simp: list_files_mem no_gc_faults_def file_info_def)
  then show "status_of m i = Some ''expired'' \<and> (\<exists>p mn mx. core_of m i = Some (p, mn, mx) \<and> (cutoff > 0 \<longrightarrow> mn \<le> cutoff))"
    using core_of_mem [OF assms(2) f(1)] by (auto simp: files_where_def)
next
  assume a: "status_of m i = Some ''expired'' \<and> (\<exists>p mn mx. core_of m i = Some (p, mn, mx) \<and> (cutoff > 0 \<longrightarrow> mn \<le> cutoff))"
  then obtain f where f: "f \<in> set (parquet_files m)" "pfFileID f = i" "pfStatus f = ''expired''"
    using status_of_iff [OF assms(2)] by blast
  then have "files_where [] 0 cutoff ''expired'' f"
    using a core_of_mem(1) [OF assms(2) f(1)] by (auto simp: files_where_def)
  then have "file_info f \<in> set (list_files (gxList env ''expired'') cutoff ''expired'' m)"
    using f assms(1) by (auto simp: list_files_mem no_gc_faults_def)
  then show "i \<in> fiFileID ` set (list_files (gxList env ''expired'') cutoff ''expired'' m)"
    using f(2) by (force simp: file_info_def)
qed

lemma collectOnce_eq:
  "collectOnce env g (m, fs) =
     delete_all env (list_files (gxList env ''expired'') (us_of (gxNow env - gcGrace g)) ''expired''
         (mark_expired env (us_of (gxNow env - gcTTL g)) m))
       (mark_expired env (us_of (gxNow env - gcTTL g)) m, if gcDataDir g \<noteq> [] then sweep env m fs else fs)"
  by (simp add: collectOnce_def Let_def)

lemma us_of_mono: "a \<le> b \<Longrightarrow> us_of a \<le> us_of b"
  by (simp add: us_of_def Microsecond_def zdiv_mono1)

section \<open>TTL\<close>

lemma applyOnce_status:
  assumes "\<forall>s. lst s = None" "\<forall>fid. upd fid = None" "manifest_wf m"
  shows "status_of (applyOnce lst upd now ps m) i =
    (if status_of m i = Some ''committed'' \<and> (\<exists>p\<in>set ps. \<exists>c. core_of m i = Some c \<and> due (us_of (now - Duration p)) c)
     then Some ''expired'' else status_of m i)"
  using assms(3)
proof (induction ps arbitrary: m)
  case Nil
  then show ?case by (simp add: applyOnce_def)
next
  case (Cons p ps)
  let ?m1 = "apply_policy lst upd now p m" and ?c = "us_of (now - Duration p)"
  define D where "D \<longleftrightarrow> (\<exists>c. core_of m i = Some c \<and> due ?c c)"
  define E where "E \<longleftrightarrow> (\<exists>p\<in>set ps. \<exists>c. core_of m i = Some c \<and> due (us_of (now - Duration p)) c)"
  have wf1: "manifest_wf ?m1" and c1: "core_of ?m1 = core_of m"
    using Cons.prems by (simp_all add: apply_policy_def Let_def wf_update_all)
  have s1: "status_of ?m1 i = (if status_of m i = Some ''committed'' \<and> D then Some ''expired'' else status_of m i)"
    using assms(1,2) old_ids_listed [OF Cons.prems, of "''committed''" i ?c]
    by (simp add: apply_policy_def Let_def status_update_all D_def)
  have "status_of (applyOnce lst upd now (p # ps) m) i =
      (if status_of ?m1 i = Some ''committed'' \<and> E then Some ''expired'' else status_of ?m1 i)"
    using Cons.IH [OF wf1] by (simp add: applyOnce_def c1 E_def)
  moreover have "(\<exists>p\<in>set (p # ps). \<exists>c. core_of m i = Some c \<and> due (us_of (now - Duration p)) c) \<longleftrightarrow> D \<or> E"
    by (simp add: D_def E_def)
  ultimately show ?case unfolding s1 by (cases D) (auto simp del: list.set)
qed

section \<open>Retention\<close>

lemma LastIndexByte_None: "c \<notin> set xs \<Longrightarrow> LastIndexByte xs c = None"
  by (induction xs) auto

lemma LastIndexByte_append:
  assumes "c \<notin> set ys"
  shows "LastIndexByte (xs @ c # ys) c = Some (length xs)"
  using LastIndexByte_None [OF assms] by (induction xs) (auto split: option.splits)

lemma parseHourSuffix_name:
  assumes p: "printable_instant utc ts"
  shows "parseHourSuffix (hourlyTableName utc ts) = Some (ts - ts mod hour_us)"
proof -
  let ?h = "format_hour utc ts"
  have ph: "parse_hour ?h = Some (ts - ts mod hour_us)" using parse_format_utc [OF p] .
  then have dig: "\<forall>c\<in>set ?h. is_digit c" "length ?h = 10" by (auto simp: parse_hour_def split: if_splits)
  then have "CHR ''_'' \<notin> set ?h" by (auto simp: is_digit_def)
  then have "LastIndexByte (''edr_events'' @ CHR ''_'' # ?h) (CHR ''_'') = Some (length ''edr_events'')"
    by (rule LastIndexByte_append)
  moreover have n: "hourlyTableName utc ts = ''edr_events'' @ CHR ''_'' # ?h"
    by (simp add: hourlyTableName_def table_stem_def)
  ultimately show ?thesis using ph dig unfolding parseHourSuffix_def n by (simp add: Let_def)
qed

lemma rows_of_drop:
  "rows_of (snd (DropTable flt t h)) k = (if k = t \<and> flt = None then [] else rows_of h k)"
proof -
  have "map_of (filter (\<lambda>(n, _). n \<noteq> t) xs) k = (if k = t then None else map_of xs k)" for xs :: "(string \<times> hot_row list) list"
    by (induction xs) auto
  then show ?thesis by (auto simp: DropTable_def rows_of_def split: option.splits)
qed

definition retain_fold :: "(string \<Rightarrow> fault) \<Rightarrow> (string \<Rightarrow> fault) \<Rightarrow> (string \<Rightarrow> fault) \<Rightarrow> int \<Rightarrow> int \<Rightarrow> int \<Rightarrow> string list \<Rightarrow>
    HotStore \<times> Manifest \<Rightarrow> HotStore \<times> Manifest" where
  "retain_fold drp mark hdrop lastTS window now ts st =
     foldl (\<lambda>st t. if droppable lastTS window now t then retain_table drp mark hdrop t st else st) st ts"

lemma retain_fold_rows:
  "rows_of (fst (retain_fold drp mark hdrop lastTS window now ts st)) k =
     (if k \<in> set ts \<and> droppable lastTS window now k \<and> drp k = None then [] else rows_of (fst st) k)"
proof (induction ts arbitrary: st)
  case (Cons t ts)
  have one: "rows_of (fst (retain_table drp mark hdrop t st)) k = (if k = t \<and> drp t = None then [] else rows_of (fst st) k)"
    using rows_of_drop [of "drp t" t "fst st" k]
    by (cases "drp t"; cases st) (simp_all add: retain_table_def DropTable_def)
  show ?case using Cons [of "if droppable lastTS window now t then retain_table drp mark hdrop t st else st"] one
    by (auto simp: retain_fold_def)
qed (simp add: retain_fold_def)

lemma retainOnce_rows:
  assumes "watermark_row m = Some wm"
  shows "rows_of (fst (retainOnce None drp mark hdrop window now (h, m))) k =
     (if k \<in> set (liveTables h) \<and> droppable (LastTS wm) window now k \<and> drp k = None then [] else rows_of h k)"
  using retain_fold_rows [of drp mark hdrop "LastTS wm" window now "liveTables h" "(h, m)" k] assms
  by (simp add: retainOnce_def get_watermark_def LiveTables_def retain_fold_def)

section \<open>Instances\<close>

definition calm_env :: "int \<Rightarrow> gc_env" where
  "calm_env now = \<lparr>gxNow = now, gxListing = [''/data/p.parquet''], gxCount = (\<lambda>_. False), gxRemove = (\<lambda>_. None),
     gxList = (\<lambda>_. None), gxUpdate = (\<lambda>_ _. None)\<rparr>"

definition day_file :: "int \<Rightarrow> ParquetFileRecord" where
  "day_file ts = \<lparr>pfFileID = ''f1'', pfPath = ''/data/p.parquet'', pfTenantID = ''t'', pfLevel = 0, pfMinTimestampUs = ts,
     pfMaxTimestampUs = ts, pfMinEventID = ''00000001'', pfMaxEventID = ''00000001'', pfRowCount = 1,
     pfCompressedSize = 1, pfUncompressedSize = 1, pfSHA256 = [], pfCompression = ''zstd'', pfSchemaVersion = 1,
     pfStatus = ''committed'', pfCreatedAt = 0, pfUpdatedAt = 0\<rparr>"

definition one_file_manifest :: "int \<Rightarrow> Manifest" where
  "one_file_manifest ts = sample_manifest\<lparr>parquet_files := [day_file ts]\<rparr>"

definition one_file_fs :: fsys where
  "one_file_fs = no_files\<lparr>local_files := [''/data/p.parquet'' \<mapsto> []]\<rparr>"

lemma calm_ok [simp]: "no_gc_faults (calm_env now)"
  by (simp add: no_gc_faults_def calm_env_def)

lemma day_file_sel [simp]:
  "pfFileID (day_file ts) = ''f1''" "pfStatus (day_file ts) = ''committed''" "pfMinTimestampUs (day_file ts) = ts"
  "pfMaxTimestampUs (day_file ts) = ts" "pfPath (day_file ts) = ''/data/p.parquet''"
  by (simp_all add: day_file_def)

lemma one_file_mem [simp]: "day_file ts \<in> set (parquet_files (one_file_manifest ts))"
  by (simp add: one_file_manifest_def)

lemma one_file_wf [simp]: "manifest_wf (one_file_manifest ts)"
proof -
  have "hot_tables sample_manifest = [] \<and> watermark_row sample_manifest \<noteq> None" by code_simp
  then show ?thesis by (simp add: one_file_manifest_def manifest_wf_def)
qed

section \<open>Claims\<close>



text \<open>
  The grace period does not protect anything: with a TTL above the grace period, a committed
  file past the TTL is marked expired, removed from disk and marked deleted in the same cycle.
\<close>

theorem collectOnce_no_grace:
  assumes "no_gc_faults env" "manifest_wf m" "f \<in> set (parquet_files m)" "pfStatus f = ''committed''"
    and "pfMinTimestampUs f \<le> pfMaxTimestampUs f" "pfMaxTimestampUs f < us_of (gxNow env - gcTTL g)" "gcGrace g \<le> gcTTL g"
  shows "status_of (fst (collectOnce env g (m, fs))) (pfFileID f) = Some ''deleted'' \<and>
    local_files (snd (collectOnce env g (m, fs))) (pfPath f) = None"
proof -
  let ?c = "us_of (gxNow env - gcTTL g)" and ?gc = "us_of (gxNow env - gcGrace g)"
  let ?m1 = "mark_expired env ?c m"
  let ?files = "list_files (gxList env ''expired'') ?gc ''expired'' ?m1"
  have core: "core_of m (pfFileID f) = Some (pfPath f, pfMinTimestampUs f, pfMaxTimestampUs f)"
    and st: "status_of m (pfFileID f) = Some ''committed''"
    using core_of_mem [OF assms(2,3)] assms(4) by simp_all
  have le: "?c \<le> ?gc" using assms(7) by (intro us_of_mono) simp
  have s1: "status_of ?m1 (pfFileID f) = Some ''expired''"
    using status_mark_expired [OF assms(1,2), of ?c "pfFileID f"] core st assms(5,6) by (auto simp: due_def)
  have wf1: "manifest_wf ?m1" using assms(2) by (rule wf_mark)
  have mem: "pfFileID f \<in> fiFileID ` set ?files"
    using expired_listing [OF assms(1) wf1, of "pfFileID f" ?gc] s1 core assms(5,6) le by auto
  then obtain x where x: "x \<in> set ?files" "fiFileID x = pfFileID f" by auto
  have ls: "gxList env ''expired'' = None" using assms(1) by (simp add: no_gc_faults_def)
  obtain f' where f': "f' \<in> set (parquet_files ?m1)" "fiFileID x = pfFileID f'" "fiPath x = pfPath f'"
    using listed_file [OF x(1) [unfolded ls]] .
  then have "fiPath x = pfPath f" using core_of_mem(1) [OF wf1 f'(1)] core x(2) by simp
  then have "pfPath f \<in> fiPath ` set ?files" using x(1) by force
  then show ?thesis using mem s1
    unfolding collectOnce_eq delete_all_ok [OF assms(1)] by (simp add: status_update_all image_image)
qed

theorem collectOnce_no_grace_witness:
  "status_of (fst (collectOnce (calm_env (400 * 24 * Hour)) (NewGC ''/data'') (one_file_manifest 5, one_file_fs))) ''f1'' = Some ''deleted''"
proof -
  have "pfMaxTimestampUs (day_file 5) < us_of (gxNow (calm_env (400 * 24 * Hour)) - gcTTL (NewGC ''/data''))"
    "gcGrace (NewGC ''/data'') \<le> gcTTL (NewGC ''/data'')"
    by code_simp+
  then show ?thesis
    using collectOnce_no_grace [of "calm_env (400 * 24 * Hour)" "one_file_manifest 5" "day_file 5" "NewGC ''/data''" one_file_fs]
    by simp
qed

text \<open>
  The TTL manager expires a committed file exactly when it is past the cutoff of some policy:
  the shortest duration decides for every file, whatever its framework.
\<close>

theorem applyOnce_spec:
  assumes "\<forall>s. lst s = None" "\<forall>fid. upd fid = None" "manifest_wf m" "f \<in> set (parquet_files m)" "pfStatus f = ''committed''"
    and "pfMinTimestampUs f \<le> pfMaxTimestampUs f"
  shows "status_of (applyOnce lst upd now ps m) (pfFileID f) =
    Some (if \<exists>p\<in>set ps. pfMaxTimestampUs f < us_of (now - Duration p) then ''expired'' else ''committed'')"
  using applyOnce_status [OF assms(1-3), of now ps "pfFileID f"] core_of_mem [OF assms(3,4)] assms(5,6)
  by (auto simp: due_def)

theorem applyOnce_spec_witness:
  "status_of (applyOnce (\<lambda>_. None) (\<lambda>_. None) (400 * 24 * Hour) (NewTTLManager []) (one_file_manifest 5)) ''f1'' = Some ''expired''"
proof -
  have "\<exists>p\<in>set (NewTTLManager []). (5::int) < us_of (400 * 24 * Hour - Duration p)" by code_simp
  then show ?thesis
    using applyOnce_spec [of "\<lambda>_. None" "\<lambda>_. None" "one_file_manifest 5" "day_file 5" "400 * 24 * Hour" "NewTTLManager []"]
    by simp
qed

text \<open>
  Retention reads the hour back from the table name: for every instant of a four-digit year,
  the suffix of the name that the hot store gives to the table parses to the start of the hour.
\<close>

theorem parseHourSuffix_roundtrip:
  assumes "printable_instant utc ts"
  shows "parseHourSuffix (hourlyTableName utc ts) = Some (ts - ts mod hour_us)"
  using parseHourSuffix_name [OF assms] .

theorem parseHourSuffix_roundtrip_witness:
  "parseHourSuffix (hourlyTableName utc 1700000000000000) = Some (1700000000000000 - 1700000000000000 mod hour_us)"
  by (rule parseHourSuffix_roundtrip) code_simp

text \<open>
  What retention removes is old: every row that a cycle takes out of the hot store has a
  timestamp below that of the watermark and lies before the hot window; all other rows stay.
\<close>

theorem retainOnce_drops_old:
  assumes "hot_inv h" "watermark_row m = Some wm"
    and "r \<in> set (rows_of h k)" "r \<notin> set (rows_of (fst (retainOnce None drp mark hdrop window now (h, m))) k)"
  shows "cTs r < LastTS wm \<and> cTs r + us_of window < now"
proof -
  have drop: "droppable (LastTS wm) window now k"
    using assms(3,4) unfolding retainOnce_rows [OF assms(2)] by (auto split: if_splits)
  have "placed utc k r" using assms(1,3) by (auto simp: hot_inv_def)
  then have k: "k = hourlyTableName utc (cTs r)" "printable_instant utc (cTs r)" by (simp_all add: placed_def)
  have "us_of Hour = hour_us" by code_simp
  then have "cTs r - cTs r mod hour_us + hour_us < LastTS wm" "cTs r - cTs r mod hour_us + hour_us + us_of window < now"
    using drop k(1) parseHourSuffix_name [OF k(2)] by (simp_all add: droppable_def Let_def)
  moreover have "cTs r mod hour_us < hour_us" by (simp add: hour_us_def)
  ultimately show ?thesis by linarith
qed

definition late_hot :: HotStore where
  "late_hot = sample_hot [(''edr_events_1970010100'', [sample_event ''00000009'' ''t'' ''a'' 1000])]"

definition late_manifest :: Manifest where
  "late_manifest = sample_manifest\<lparr>watermark_row := Some \<lparr>LastID = ''00000005'', LastTS = 4000000000, wmUpdatedAt = 0\<rparr>\<rparr>"

theorem retainOnce_drops_old_witness:
  "cTs (to_row no_annotations (sample_event ''00000009'' ''t'' ''a'' 1000)) < 4000000000"
proof -
  let ?r = "to_row no_annotations (sample_event ''00000009'' ''t'' ''a'' 1000)"
  let ?wm = "\<lparr>LastID = ''00000005'', LastTS = 4000000000, wmUpdatedAt = 0\<rparr>"
  have "hot_inv late_hot" unfolding late_hot_def by (rule sample_hot_inv; code_simp)
  moreover have "watermark_row late_manifest = Some ?wm" by (simp add: late_manifest_def)
  moreover have "?r \<in> set (rows_of late_hot ''edr_events_1970010100'')" by code_simp
  moreover have "?r \<notin> set (rows_of (fst (retainOnce None (\<lambda>_. None) (\<lambda>_. None) (\<lambda>_. None) (2 * Hour) 20000000000 (late_hot, late_manifest))) ''edr_events_1970010100'')"
    by code_simp
  ultimately show ?thesis
    using retainOnce_drops_old [of late_hot late_manifest ?wm ?r "''edr_events_1970010100''" "\<lambda>_. None" "\<lambda>_. None" "\<lambda>_. None" "2 * Hour" 20000000000]
    by simp
qed

text \<open>
  Retention goes by timestamps, the flusher by identifiers: a late event, with an identifier
  above the watermark and so not yet flushed, is dropped with the table of its hour.
\<close>

theorem retainOnce_drops_unflushed:
  "''00000009'' > ''00000005'' \<and> map_option LastID (watermark_row late_manifest) = Some ''00000005'' \<and>
   map cId (live_rows empty_query late_hot) = [''00000009''] \<and>
   live_rows empty_query (fst (retainOnce None (\<lambda>_. None) (\<lambda>_. None) (\<lambda>_. None) (2 * Hour) 20000000000 (late_hot, late_manifest))) = []"
  by code_simp

text \<open>
  The orphan sweep removes a file below the data directory exactly when it is a Parquet file
  that no committed, superseded or expired row of the manifest names, or the counting query for it
  failed, and the removal succeeds: a failing query costs a committed file.
\<close>

lemma sweep_exact:
  "local_files (sweep env m fs) p =
     (if p \<in> set (gxListing env) \<and> filepath_Ext p = ''.parquet'' \<and> (gxCount env p \<or> \<not> tracked m p) \<and> gxRemove env p = None
      then None else local_files fs p)"
  by (auto simp: sweep_def OrphanGC_def Let_def)

lemma scrub_loop_frame:
  "snd (scrub_loop h upd now files n m) = m \<and> (n \<le> 100 \<longrightarrow> fst (scrub_loop h upd now files n m) \<le> 100)"
  by (induction files arbitrary: n) (auto simp: IsNotExist_wrapped_def split: hash_result.splits)

text \<open>
  The scrubber never changes the manifest, neither for a missing file nor for changed bytes,
  and reports at most one hundred files.
\<close>

theorem scrubOnce_no_effect:
  "snd (scrubOnce lst rd sha upd now fs m) = m \<and> fst (scrubOnce lst rd sha upd now fs m) \<le> 100"
  using scrub_loop_frame by (auto simp: scrubOnce_def split: sum.splits)

end
