(* ===== verification/Compactor_Model.thy ===== *)
theory Compactor_Model
  imports Cold_Lifecycle Cold_Reader
begin

text \<open>
  \<open>internal/storage/compactor/compactor.go\<close>: merging the hourly files of a tenant and day into one
  daily file, the manifest transaction that supersedes the hourly files, and the deletion of
  superseded files.  Files are read through the pure-Go cold reader.
\<close>

record compact_env =
  cxEnc :: json_enc
  cxDec :: json_dec
  cxCold :: cold_env
  cxWrite :: write_env
  cxUuid :: string
  cxNow :: int
  cxBegin :: fault
  cxAdd :: fault
  cxSup :: "string \<Rightarrow> fault"
  cxCommit :: fault

section \<open>One group\<close>

text \<open>The result's warnings are dropped; the query has no filter and gets the default limit.\<close>

definition read_hourly :: "compact_env \<Rightarrow> FileInfo list \<Rightarrow> event list" where
  "read_hourly env files = concat (map (\<lambda>f. rEvents (QueryFiles (cxDec env) (cxCold env) [f] empty_query)) files)"

definition daily_record :: "compact_env \<Rightarrow> string \<Rightarrow> FileResult \<Rightarrow> ParquetFileRecord" where
  "daily_record env tenantID r =
     \<lparr>pfFileID = cxUuid env, pfPath = frPath r, pfTenantID = tenantID, pfLevel = 1,
      pfMinTimestampUs = frMinTimestampUs r, pfMaxTimestampUs = frMaxTimestampUs r,
      pfMinEventID = frMinEventID r, pfMaxEventID = frMaxEventID r, pfRowCount = frRowCount r,
      pfCompressedSize = frCompressedSize r, pfUncompressedSize = frUncompressedSize r,
      pfSHA256 = frSHA256 r, pfCompression = ''zstd'', pfSchemaVersion = 1, pfStatus = [],
      pfCreatedAt = cxNow env, pfUpdatedAt = cxNow env\<rparr>"

fun supersede :: "(string \<Rightarrow> fault) \<Rightarrow> int \<Rightarrow> string list \<Rightarrow> Manifest \<Rightarrow> string option \<times> Manifest" where
  "supersede flt now [] m = (None, m)"
| "supersede flt now (fid # fids) m =
     (case UpdateFileStatusTx (flt fid) now fid ''superseded'' m of
        (Some e, m') \<Rightarrow> (Some (''supersede '' @ fid @ '': '' @ e), m')
      | (None, m') \<Rightarrow> supersede flt now fids m')"

definition compact_tx :: "compact_env \<Rightarrow> ParquetFileRecord \<Rightarrow> string list \<Rightarrow> Manifest \<Rightarrow> string option \<times> Manifest" where
  "compact_tx env daily fids m =
     (case AddFileTx (cxAdd env) daily m of
        (Some e, m') \<Rightarrow> (Some (''add daily: '' @ e), m')
      | (None, m') \<Rightarrow> supersede (cxSup env) (cxNow env) fids m')"

definition compactGroup :: "compact_env \<Rightarrow> ParquetWriter \<Rightarrow> string \<Rightarrow> string \<Rightarrow> FileInfo list \<Rightarrow> Manifest \<times> fsys \<Rightarrow>
    string option \<times> Manifest \<times> fsys" where
  "compactGroup env w tenantID date files0 st =
     (case st of (m, fs) \<Rightarrow>
      let files = sort_key fiMinTS files0; allEvents = read_hourly env files in
      if allEvents = [] then (None, m, fs)
      else
        let sorted_ev = sort_key (\<lambda>e. (AgentID e, Timestamp e)) allEvents;
            partitionKey = tenantID @ ''/'' @ date @ ''/compacted''
        in case WriteBatch (cxEnc env) (cxWrite env) w sorted_ev partitionKey fs of
          (Inl e, fs') \<Rightarrow> (Some (''write compacted: '' @ e), m, fs')
        | (Inr r, fs') \<Rightarrow>
          (case Transaction (cxBegin env) (cxCommit env)
                  (compact_tx env (daily_record env tenantID r) (map fiFileID files)) m of
             (Some e, m') \<Rightarrow> (Some e, m', fs')
           | (None, m') \<Rightarrow> (None, m', fs')))"

section \<open>One cycle\<close>

definition hourly_key :: "(int \<Rightarrow> int) \<Rightarrow> FileInfo \<Rightarrow> string \<times> string" where
  "hourly_key zone f = (fiTenantID f, format_date zone (fiMinTS f))"

definition compact_groups :: "(int \<Rightarrow> int) \<Rightarrow> FileInfo list \<Rightarrow> ((string \<times> string) \<times> FileInfo list) list" where
  "compact_groups zone files = group_into (hourly_key zone) (filter (\<lambda>f. fiLevel f = 0) files)"

text \<open>\<open>order\<close> is the iteration order of the map; the inputs of each group are those of its position.\<close>

fun compact_loop :: "(nat \<Rightarrow> compact_env) \<Rightarrow> ParquetWriter \<Rightarrow> nat \<Rightarrow> ((string \<times> string) \<times> FileInfo list) list \<Rightarrow>
    Manifest \<times> fsys \<Rightarrow> Manifest \<times> fsys" where
  "compact_loop env w k [] st = st"
| "compact_loop env w k (((tenantID, date), files) # rest) st =
     (if length files < 2 then compact_loop env w (Suc k) rest st
      else compact_loop env w (Suc k) rest (snd (compactGroup (env k) w tenantID date files st)))"

definition compactOnce :: "fault \<Rightarrow> int \<Rightarrow> (int \<Rightarrow> int) \<Rightarrow>
    (((string \<times> string) \<times> FileInfo list) list \<Rightarrow> ((string \<times> string) \<times> FileInfo list) list) \<Rightarrow>
    (nat \<Rightarrow> compact_env) \<Rightarrow> ParquetWriter \<Rightarrow> Manifest \<times> fsys \<Rightarrow> Manifest \<times> fsys" where
  "compactOnce lst now zone order env w st =
     (let cutoff = us_of (now - 48 * Hour) in
      case FilesFor lst [] 0 cutoff ''committed'' (fst st) of
        Inl _ \<Rightarrow> st
      | Inr files \<Rightarrow> compact_loop env w 0 (order (compact_groups zone files)) st)"

section \<open>Cleaning up\<close>

definition compactor_grace :: int where "compactor_grace = 1 * Hour"

definition CleanupSuperseded :: "gc_env \<Rightarrow> Manifest \<times> fsys \<Rightarrow> string option \<times> Manifest \<times> fsys" where
  "CleanupSuperseded env st =
     (case FilesFor (gxList env ''superseded'') [] 0 0 ''superseded'' (fst st) of
        Inl e \<Rightarrow> (Some e, st)
      | Inr files \<Rightarrow>
        (let cutoff = us_of (gxNow env - compactor_grace)
         in (None, delete_all env (filter (\<lambda>f. fiMaxTS f < cutoff) files) st)))"

definition formatBytes :: "int \<Rightarrow> string" where
  "formatBytes b =
     (if b < 1024 then show_int b @ ''B''
      else if b < 1024 * 1024 then show_int (go_quot b 1024) @ ''KB''
      else show_int (go_quot b (1024 * 1024)) @ ''MB'')"

section \<open>The transaction\<close>

lemma supersede_ok:
  assumes "supersede flt now fids m = (None, m')"
  shows "m' = foldl (\<lambda>m fid. set_file_status now fid ''superseded'' m) m fids"
  using assms
proof (induction fids arbitrary: m)
  case (Cons fid fids)
  then show ?case by (cases "flt fid") (auto simp: UpdateFileStatusTx_def)
qed simp

lemma supersede_wf [inv_intros]: "manifest_wf m \<Longrightarrow> manifest_wf (snd (supersede flt now fids m))"
proof (induction fids arbitrary: m)
  case (Cons fid fids)
  then show ?case using set_file_status_wf [OF Cons.prems]
    by (cases "flt fid") (auto simp: UpdateFileStatusTx_def)
qed simp

lemma compact_tx_wf [inv_intros]: "manifest_wf m \<Longrightarrow> manifest_wf (snd (compact_tx env d fids m))"
  using AddFileTx_wf [of m "cxAdd env" d] supersede_wf
  by (auto simp: compact_tx_def split: prod.splits option.splits)

lemma compact_tx_ok:
  assumes "compact_tx env d fids m = (None, m')" "manifest_wf m" "\<forall>fid\<in>set fids. status_of m fid \<noteq> None"
  shows "status_of m' (pfFileID d) = Some ''committed''"
    "\<forall>fid\<in>set fids. status_of m' fid = Some ''superseded''"
    "\<exists>f\<in>set (parquet_files m'). pfFileID f = pfFileID d \<and> pfPath f = pfPath d \<and> pfStatus f = ''committed''"
proof -
  obtain m1 where add: "AddFileTx (cxAdd env) d m = (None, m1)" and sup: "supersede (cxSup env) (cxNow env) fids m1 = (None, m')"
    using assms(1) by (auto simp: compact_tx_def split: prod.splits option.splits)
  have new: "pfFileID d \<notin> pfFileID ` set (parquet_files m)"
    and m1: "m1 = m\<lparr>parquet_files := parquet_files m @ [d\<lparr>pfStatus := ''committed''\<rparr>]\<rparr>"
    using add by (auto simp: AddFileTx_def insert_file_def split: option.splits if_splits)
  have wf1: "manifest_wf m1" using AddFileTx_wf [OF assms(2), of "cxAdd env" d] add by simp
  have nofid: "pfFileID d \<notin> set fids"
  proof
    assume "pfFileID d \<in> set fids"
    then obtain st where "status_of m (pfFileID d) = Some st" using assms(3) by blast
    then obtain f where "f \<in> set (parquet_files m)" "pfFileID f = pfFileID d"
      using status_of_iff [OF assms(2)] by blast
    then show False using new by (metis image_eqI)
  qed
  have st: "status_of m' j = (if j \<in> set fids then map_option (\<lambda>_. ''superseded'') (status_of m1 j) else status_of m1 j)" for j
    unfolding supersede_ok [OF sup] by (rule mcat.status_fold)
  have d1: "status_of m1 (pfFileID d) = Some ''committed''" using status_of_iff [OF wf1] m1 by auto
  then show sd: "status_of m' (pfFileID d) = Some ''committed''" using st nofid by simp
  have "status_of m1 fid \<noteq> None" if in_fids: "fid \<in> set fids" for fid
  proof -
    obtain s where "status_of m fid = Some s" using assms(3) in_fids by blast
    then obtain f where "f \<in> set (parquet_files m)" "pfFileID f = fid" "pfStatus f = s" using status_of_iff [OF assms(2)] by blast
    then have "f \<in> set (parquet_files m1)" "pfFileID f = fid" "pfStatus f = s" using m1 by simp_all
    then have "status_of m1 fid = Some s" using status_of_iff [OF wf1] by blast
    then show ?thesis by simp
  qed
  then show "\<forall>fid\<in>set fids. status_of m' fid = Some ''superseded''" using st by auto
  have "map file_core (parquet_files m') = map file_core (parquet_files m1)"
    unfolding supersede_ok [OF sup] by (induction fids arbitrary: m1) simp_all
  then have core: "core_of m' = core_of m1" by (simp only: core_of_def)
  have wf': "manifest_wf m'" using supersede_wf [OF wf1, of "cxSup env" "cxNow env" fids] sup by simp
  obtain f where f: "f \<in> set (parquet_files m')" "pfFileID f = pfFileID d" "pfStatus f = ''committed''"
    using sd status_of_iff [OF wf'] by blast
  have "core_of m1 (pfFileID d) = Some (pfPath d, pfMinTimestampUs d, pfMaxTimestampUs d)"
    using core_of_mem(1) [OF wf1, of "d\<lparr>pfStatus := ''committed''\<rparr>"] m1 by simp
  then have "pfPath f = pfPath d" using core_of_mem(1) [OF wf' f(1)] core f(2) by simp
  then show "\<exists>f\<in>set (parquet_files m'). pfFileID f = pfFileID d \<and> pfPath f = pfPath d \<and> pfStatus f = ''committed''"
    using f by blast
qed

section \<open>What is read\<close>

definition hourly_readable :: "compact_env \<Rightarrow> FileInfo \<Rightarrow> bool" where
  "hourly_readable env f \<longleftrightarrow> readable (cxCold env) (ApplyDefaults empty_query) f \<and>
     int (length (file_rows (cxCold env) f)) < DefaultMaxLimit"

lemma row_matches_all: "row_matches (ApplyDefaults empty_query) r"
  by (simp add: row_matches_def empty_query_def ApplyDefaults_def)

lemma read_hourly_ids:
  assumes "\<forall>f\<in>set files. hourly_readable env f"
  shows "ID ` set (read_hourly env files) = (\<Union>f\<in>set files. pID ` set (file_rows (cxCold env) f))"
proof -
  have "ID ` set (rEvents (QueryFiles (cxDec env) (cxCold env) [f] empty_query)) = pID ` set (file_rows (cxCold env) f)"
    if "f \<in> set files" for f
  proof -
    let ?q = "ApplyDefaults empty_query" and ?rows = "file_rows (cxCold env) f"
    have lim: "qLimit ?q = DefaultMaxLimit" by (simp add: ApplyDefaults_def empty_query_def DefaultMaxLimit_def)
    have "int (length (hits (cxDec env) ?q (concat (map (file_rows (cxCold env)) [f])))) < 2 * qLimit ?q"
      using assms that lim by (auto simp: hits_def row_matches_all hourly_readable_def DefaultMaxLimit_def)
    then have "map ID (rEvents (QueryFiles (cxDec env) (cxCold env) [f] empty_query)) =
        take (nat DefaultMaxLimit) (sorted_list_of_set (pID ` set ?rows))"
      using QueryFiles_hits(1) [of "[f]" "cxCold env" empty_query "cxDec env"] assms that lim
      by (simp add: row_matches_all hourly_readable_def)
    moreover have "card (pID ` set ?rows) \<le> length ?rows"
      by (metis card_image_le card_length le_trans List.finite_set)
    then have "length (sorted_list_of_set (pID ` set ?rows)) \<le> nat DefaultMaxLimit"
      using assms that by (auto simp: hourly_readable_def)
    ultimately have "map ID (rEvents (QueryFiles (cxDec env) (cxCold env) [f] empty_query)) = sorted_list_of_set (pID ` set ?rows)"
      by simp
    then show ?thesis by (metis List.finite_set finite_imageI list.set_map set_sorted_list_of_set)
  qed
  then show ?thesis by (simp add: read_hourly_def image_UN)
qed

lemma parquet_of_parquet:
  "pID (eventToParquet enc (parquetToEvent dec r)) = pID r"
  "pTenantID (eventToParquet enc (parquetToEvent dec r)) = []"
  by (simp_all add: parquetToEvent_def)

text \<open>Whatever a scan adds, it adds through \<open>parquetToEvent\<close>.\<close>

abbreviation no_tenant :: "event list \<Rightarrow> bool" where
  "no_tenant evs \<equiv> \<forall>e\<in>set evs. TenantID e = []"

lemma scan_rows_tenant: "no_tenant acc \<Longrightarrow> no_tenant (fst (scan_rows dec q rows acc))"
  by (induction dec q rows acc rule: scan_rows.induct) (auto simp: parquetToEvent_def Let_def)

lemma scan_reads_tenant: "no_tenant acc \<Longrightarrow> no_tenant (fst (scan_reads dec path q reads acc ws))"
proof (induction dec path q reads acc ws rule: scan_reads.induct)
  case (2 dec path q rows rerr rest acc ws)
  obtain acc' d where r: "scan_rows dec q rows acc = (acc', d)" by force
  have "no_tenant acc'" using scan_rows_tenant [OF "2.prems", of dec q rows] r by simp
  then show ?case using 2 r by (auto simp: Let_def split: read_err.splits)
qed simp

lemma scan_groups_tenant: "no_tenant acc \<Longrightarrow> no_tenant (fst (scan_groups dec path q rgs acc ws))"
proof (induction dec path q rgs acc ws rule: scan_groups.induct)
  case (2 dec path q rg rgs acc ws)
  obtain acc' ws' where r: "scan_reads dec path q (rgReads rg) acc ws = (acc', ws')" by force
  have "no_tenant acc'" using scan_reads_tenant [OF "2.prems", of dec path q "rgReads rg" ws] r by simp
  then show ?case using 2 r by (auto simp: Let_def)
qed simp

lemma scan_file_tenant: "no_tenant acc \<Longrightarrow> no_tenant (fst (scan_file dec env q fi acc ws))"
  using scan_groups_tenant [of acc dec "fiPath fi" q _ ws]
  by (simp split: sum.splits file_view.splits)

lemma scan_files_tenant: "no_tenant acc \<Longrightarrow> no_tenant (fst (scan_files dec env q fis acc ws))"
proof (induction fis arbitrary: acc ws)
  case (Cons fi fis)
  obtain acc' ws' where r: "scan_file dec env q fi acc ws = (acc', ws')" by force
  have "no_tenant acc'" using scan_file_tenant [OF Cons.prems, of dec env q fi ws] r by simp
  then show ?case using Cons r by (auto simp: Let_def simp del: scan_file.simps)
qed simp

lemma QueryFiles_no_tenant: "no_tenant (rEvents (QueryFiles dec env files q))"
proof -
  obtain evs ws where r: "scan_files dec env (ApplyDefaults q) files [] [] = (evs, ws)" by force
  have "no_tenant evs" using scan_files_tenant [of "[]" dec env "ApplyDefaults q" files "[]"] r by simp
  then have "no_tenant (MergeSortDedupByID evs)" using set_MergeSortDedupByID by blast
  then show ?thesis using r by (auto simp: QueryFiles_def Let_def dest: in_set_takeD)
qed

lemma read_hourly_no_tenant: "no_tenant (read_hourly env files)"
  using QueryFiles_no_tenant by (auto simp: read_hourly_def)

section \<open>Outcomes of a group\<close>

lemma compactGroup_ok:
  assumes ok: "compactGroup env w tenantID date files (m, fs) = (None, m', fs')" and ne: "read_hourly env (sort_key fiMinTS files) \<noteq> []"
  obtains r where "WriteBatch (cxEnc env) (cxWrite env) w (sort_key (\<lambda>e. (AgentID e, Timestamp e)) (read_hourly env (sort_key fiMinTS files)))
      (tenantID @ ''/'' @ date @ ''/compacted'') fs = (Inr r, fs')"
    "compact_tx env (daily_record env tenantID r) (map fiFileID (sort_key fiMinTS files)) m = (None, m')"
  using ok ne Transaction_ok
  by (auto simp: compactGroup_def Let_def split: prod.splits sum.splits option.splits if_splits)

section \<open>Instances\<close>

definition hour_file :: "string \<Rightarrow> ParquetFileRecord" where
  "hour_file i = \<lparr>pfFileID = i, pfPath = ''/data/'' @ i, pfTenantID = ''t'', pfLevel = 0, pfMinTimestampUs = 1000,
     pfMaxTimestampUs = 1000, pfMinEventID = ''00000001'', pfMaxEventID = ''00000001'', pfRowCount = 1,
     pfCompressedSize = 1, pfUncompressedSize = 1, pfSHA256 = [], pfCompression = ''zstd'', pfSchemaVersion = 1,
     pfStatus = ''committed'', pfCreatedAt = 0, pfUpdatedAt = 0\<rparr>"

definition two_hours :: Manifest where
  "two_hours = sample_manifest\<lparr>parquet_files := [hour_file ''h1'', hour_file ''h2'']\<rparr>"

definition hour_group :: "event list \<Rightarrow> file_view" where
  "hour_group evs = RowGroups [\<lparr>rgColumns = 17, rgTs = Pages [(0, 10000)], rgSev = Pages [(0, 10)],
     rgAgent = Pages [(''a'', ''z'')], rgReads = [(map (eventToParquet no_annotations) evs, EOF)]\<rparr>]"

text \<open>The second hourly file can be read or is missing.\<close>

definition hour_view :: "bool \<Rightarrow> cold_env" where
  "hour_view missing = \<lparr>ceS3 = None, ceView = (\<lambda>p.
     if p = ''/data/h1'' then hour_group [sample_event ''00000001'' ''t'' ''a'' 1000]
     else if p = ''/data/h2'' \<and> \<not> missing then hour_group [sample_event ''00000002'' ''t'' ''b'' 1000] else FileMissing)\<rparr>"

definition sample_compact :: "bool \<Rightarrow> compact_env" where
  "sample_compact missing = \<lparr>cxEnc = no_annotations, cxDec = (\<lambda>_. None), cxCold = hour_view missing,
     cxWrite = no_write_faults 5, cxUuid = ''daily'', cxNow = 9, cxBegin = None, cxAdd = None, cxSup = (\<lambda>_. None), cxCommit = None\<rparr>"

definition hour_infos :: "FileInfo list" where
  "hour_infos = map file_info (parquet_files two_hours)"

section \<open>Claims\<close>

text \<open>The rows of the daily file, and what a successful group leaves behind.\<close>

lemma compactGroup_rows:
  assumes ok: "compactGroup env w tenantID date files (m, fs) = (None, m', fs')"
    and ne: "read_hourly env (sort_key fiMinTS files) \<noteq> []"
    and wf: "manifest_wf m" and known: "\<forall>f\<in>set files. status_of m (fiFileID f) \<noteq> None" and loc: "pwS3 w = None"
  obtains d rows where "d \<in> set (parquet_files m')" "pfFileID d = cxUuid env" "pfStatus d = ''committed''"
    "local_files fs' (pfPath d) = Some rows" "set rows = eventToParquet (cxEnc env) ` set (read_hourly env (sort_key fiMinTS files))"
    "\<forall>f\<in>set files. status_of m' (fiFileID f) = Some ''superseded''"
proof -
  let ?ev = "sort_key (\<lambda>e. (AgentID e, Timestamp e)) (read_hourly env (sort_key fiMinTS files))"
  obtain r where wb: "WriteBatch (cxEnc env) (cxWrite env) w ?ev (tenantID @ ''/'' @ date @ ''/compacted'') fs = (Inr r, fs')"
    and tx: "compact_tx env (daily_record env tenantID r) (map fiFileID (sort_key fiMinTS files)) m = (None, m')"
    using compactGroup_ok [OF ok ne] by blast
  have "\<forall>fid\<in>set (map fiFileID (sort_key fiMinTS files)). status_of m fid \<noteq> None" using known by simp
  note t = compact_tx_ok [OF tx wf this]
  obtain d where d: "d \<in> set (parquet_files m')" "pfFileID d = cxUuid env" "pfPath d = frPath r" "pfStatus d = ''committed''"
    using t(3) by (auto simp: daily_record_def)
  have "local_files fs' (pfPath d) = Some (sorted_rows (cxEnc env) ?ev)"
    using WriteBatch_ok(2,4) [OF wb] loc d(3) by simp
  moreover have "\<forall>f\<in>set files. status_of m' (fiFileID f) = Some ''superseded''" using t(2) by simp
  ultimately show ?thesis using that [OF d(1,2,4)] by simp
qed

text \<open>
  C4. Compaction keeps the data.  When every hourly file of a group can be read (below the default
  limit) and the group is compacted without an error, a committed daily file is in the manifest,
  it is on disk, the identifiers of its rows are exactly those of the hourly files together, and
  every hourly file is superseded.
\<close>

theorem compactGroup_keeps_data:
  assumes "compactGroup env w tenantID date files (m, fs) = (None, m', fs')"
    and "\<forall>f\<in>set files. hourly_readable env f" and "\<exists>f\<in>set files. file_rows (cxCold env) f \<noteq> []"
    and "manifest_wf m" and "\<forall>f\<in>set files. status_of m (fiFileID f) \<noteq> None" and "pwS3 w = None"
  shows "(\<exists>d\<in>set (parquet_files m'). \<exists>rows. pfFileID d = cxUuid env \<and> pfStatus d = ''committed'' \<and>
      local_files fs' (pfPath d) = Some rows \<and> pID ` set rows = (\<Union>f\<in>set files. pID ` set (file_rows (cxCold env) f))) \<and>
    (\<forall>f\<in>set files. status_of m' (fiFileID f) = Some ''superseded'')"
proof -
  let ?h = "read_hourly env (sort_key fiMinTS files)"
  have ids: "ID ` set ?h = (\<Union>f\<in>set files. pID ` set (file_rows (cxCold env) f))"
    using read_hourly_ids [of "sort_key fiMinTS files" env] assms(2) by simp
  have "(\<Union>f\<in>set files. pID ` set (file_rows (cxCold env) f)) \<noteq> {}" using assms(3) by simp
  then have "?h \<noteq> []" using ids by (metis image_empty list.set(1))
  from compactGroup_rows [OF assms(1) this assms(4,5,6)]
  obtain d rows where d: "d \<in> set (parquet_files m')" "pfFileID d = cxUuid env" "pfStatus d = ''committed''"
      "local_files fs' (pfPath d) = Some rows" "set rows = eventToParquet (cxEnc env) ` set ?h"
    and sup: "\<forall>f\<in>set files. status_of m' (fiFileID f) = Some ''superseded''" by metis
  have "pID ` set rows = ID ` set ?h" using d(5) by (simp add: image_image)
  then show ?thesis using d(1-4) sup ids by auto
qed

definition compacted :: "bool \<Rightarrow> string option \<times> Manifest \<times> fsys" where
  "compacted missing = compactGroup (sample_compact missing) local_writer ''t'' ''2024-01-01'' hour_infos (two_hours, no_files)"

lemma compacted_ok: "fst (compacted False) = None" "fst (compacted True) = None"
  by code_simp+

lemma hour_infos_known: "\<forall>f\<in>set hour_infos. status_of two_hours (fiFileID f) \<noteq> None"
  by code_simp

lemma two_hours_wf: "manifest_wf two_hours"
  by code_simp

lemma hour_infos_readable: "\<forall>f\<in>set hour_infos. hourly_readable (sample_compact False) f"
  by code_simp

lemma compacted_eq:
  "compactGroup (sample_compact False) local_writer ''t'' ''2024-01-01'' hour_infos (two_hours, no_files) =
     (None, fst (snd (compacted False)), snd (snd (compacted False)))"
  using compacted_ok(1) by (simp add: compacted_def prod_eq_iff)

lemma hour_infos_nonempty: "\<exists>f\<in>set hour_infos. file_rows (cxCold (sample_compact False)) f \<noteq> []"
  "read_hourly (sample_compact False) (sort_key fiMinTS hour_infos) \<noteq> []"
  by code_simp+

lemma local_writer_no_s3: "pwS3 local_writer = None"
  by code_simp

theorem compactGroup_keeps_data_witness:
  "(\<exists>d\<in>set (parquet_files (fst (snd (compacted False)))). \<exists>rows. pfFileID d = cxUuid (sample_compact False) \<and>
      pfStatus d = ''committed'' \<and> local_files (snd (snd (compacted False))) (pfPath d) = Some rows \<and>
      pID ` set rows = (\<Union>f\<in>set hour_infos. pID ` set (file_rows (cxCold (sample_compact False)) f))) \<and>
    status_of (fst (snd (compacted False))) ''h1'' = Some ''superseded'' \<and> status_of (fst (snd (compacted False))) ''h2'' = Some ''superseded''"
proof -
  note k = compactGroup_keeps_data [OF compacted_eq hour_infos_readable hour_infos_nonempty(1) two_hours_wf
      hour_infos_known local_writer_no_s3]
  have "list_ex (\<lambda>f. fiFileID f = ''h1'') hour_infos" "list_ex (\<lambda>f. fiFileID f = ''h2'') hour_infos" by code_simp+
  then obtain f1 f2 where f: "f1 \<in> set hour_infos" "fiFileID f1 = ''h1''" "f2 \<in> set hour_infos" "fiFileID f2 = ''h2''"
    by (auto simp: list_ex_iff)
  have "status_of (fst (snd (compacted False))) (fiFileID f) = Some ''superseded''" if "f \<in> set hour_infos" for f
    using k that by blast
  then show ?thesis using k [THEN conjunct1] f by metis
qed

text \<open>
  A failed compaction leaves the manifest as it was: the hourly files stay committed.
\<close>

theorem compactGroup_failure_keeps_manifest:
  assumes "compactGroup env w tenantID date files (m, fs) = (Some e, m', fs')"
  shows "m' = m"
  using assms
  by (auto simp: compactGroup_def Let_def dest: Transaction_error split: prod.splits sum.splits option.splits if_splits)

theorem compactGroup_failure_keeps_manifest_witness:
  "fst (snd (compactGroup ((sample_compact False)\<lparr>cxCommit := Some ''disk I/O error''\<rparr>) local_writer ''t'' ''2024-01-01''
     hour_infos (two_hours, no_files))) = two_hours"
  (is "fst (snd ?c) = _")
proof -
  have "fst ?c \<noteq> None" by code_simp
  then obtain e where "fst ?c = Some e" by blast
  then show ?thesis
    using compactGroup_failure_keeps_manifest [of _ local_writer "''t''" "''2024-01-01''" hour_infos two_hours no_files e
        "fst (snd ?c)" "snd (snd ?c)"] by (metis prod.collapse)
qed

text \<open>
  Compaction loses the tenant.  No row of the daily file carries a tenant identifier, so a query
  for any tenant matches none of its rows, whatever the hourly files held.
\<close>

theorem compactGroup_drops_tenant:
  assumes "compactGroup env w tenantID date files (m, fs) = (None, m', fs')"
    and "read_hourly env (sort_key fiMinTS files) \<noteq> []"
    and "manifest_wf m" and "\<forall>f\<in>set files. status_of m (fiFileID f) \<noteq> None" and "pwS3 w = None" and "qTenantID q \<noteq> []"
  shows "\<exists>d\<in>set (parquet_files m'). \<exists>rows. pfFileID d = cxUuid env \<and> local_files fs' (pfPath d) = Some rows \<and>
    rows \<noteq> [] \<and> filter (row_matches q) rows = []"
proof -
  from compactGroup_rows [OF assms(1-5)] obtain d rows where d: "d \<in> set (parquet_files m')" "pfFileID d = cxUuid env"
    "local_files fs' (pfPath d) = Some rows"
    and rows: "set rows = eventToParquet (cxEnc env) ` set (read_hourly env (sort_key fiMinTS files))" by metis
  have "\<not> row_matches q r" if "r \<in> set rows" for r
    using that rows read_hourly_no_tenant [of env "sort_key fiMinTS files"] assms(6) by (auto simp: row_matches_def)
  then have "filter (row_matches q) rows = []" by (simp add: filter_empty_conv)
  moreover have "rows \<noteq> []" using rows assms(2) by auto
  ultimately show ?thesis using d by blast
qed

theorem compactGroup_drops_tenant_witness:
  "\<exists>d\<in>set (parquet_files (fst (snd (compacted False)))). \<exists>rows. pfFileID d = cxUuid (sample_compact False) \<and>
     local_files (snd (snd (compacted False))) (pfPath d) = Some rows \<and>
     rows \<noteq> [] \<and> filter (row_matches (empty_query\<lparr>qTenantID := ''t''\<rparr>)) rows = []"
  using compactGroup_drops_tenant [OF compacted_eq hour_infos_nonempty(2) two_hours_wf hour_infos_known local_writer_no_s3,
      of "empty_query\<lparr>qTenantID := ''t''\<rparr>"] by simp

text \<open>
  A missing hourly file is lost without an error.  Of two committed hourly files the second
  cannot be opened: compaction reports success, the daily file holds the first file's row only, and
  both hourly files are superseded.
\<close>

theorem compactGroup_loses_unreadable:
  "case compacted True of (err, m', fs') \<Rightarrow> err = None \<and>
     map (status_of m') [''h1'', ''h2'', ''daily''] = [Some ''superseded'', Some ''superseded'', Some ''committed''] \<and>
     [map_option (map pID) (local_files fs' (pfPath d)). d \<leftarrow> parquet_files m', pfFileID d = ''daily''] = [Some [''00000001'']]"
  by code_simp

end
