(* ===== verification/Storage_Engine.thy ===== *)
theory Storage_Engine
  imports Flusher_Model Query_Router Cold_Lifecycle Compactor_Model
begin

text \<open>
  The storage engine as a whole: writes, flushes and the background jobs on one state of hot store,
  manifest and file system.  A cycle of a job is one step; its failures are inputs, as in the theory
  of the job.
\<close>

section \<open>The invariant\<close>

definition on_disk :: "Manifest \<Rightarrow> fsys \<Rightarrow> bool" where
  "on_disk m f \<longleftrightarrow> (\<forall>r\<in>set (parquet_files m). pfStatus r = ''committed'' \<longrightarrow> local_files f (pfPath r) \<noteq> None)"

definition engine_ok :: "tse \<Rightarrow> bool" where
  "engine_ok s \<longleftrightarrow> manifest_wf (man s) \<and> on_disk (man s) (fs s)"

text \<open>What a job owes the engine, and what follows for a sequence of its cycles.\<close>

locale background_job =
  fixes job :: "'e \<Rightarrow> tse \<Rightarrow> tse" and fit :: "'e \<Rightarrow> bool"
  assumes keeps: "fit e \<Longrightarrow> engine_ok s \<Longrightarrow> engine_ok (job e s)"
begin

lemma cycles_keep: "list_all fit es \<Longrightarrow> engine_ok s \<Longrightarrow> engine_ok (foldl (\<lambda>s e. job e s) s es)"
  by (induction es arbitrary: s) (simp_all add: keeps)

end

section \<open>Files only grow while they are written\<close>

definition grows :: "fsys \<Rightarrow> fsys \<Rightarrow> bool" where
  "grows f f' \<longleftrightarrow> (\<forall>p. local_files f p \<noteq> None \<longrightarrow> local_files f' p \<noteq> None)"

lemma grows_refl [simp]: "grows f f"
  by (simp add: grows_def)

lemma grows_trans: "grows f g \<Longrightarrow> grows g h \<Longrightarrow> grows f h"
  by (simp add: grows_def)

lemma on_disk_grows: "on_disk m f \<Longrightarrow> grows f f' \<Longrightarrow> on_disk m f'"
  by (auto simp: on_disk_def grows_def)

lemma WriteBatch_grows:
  assumes "WriteBatch enc env w events key f = (r, f')" "pwS3 w = None"
  shows "grows f f'"
proof (cases r)
  case (Inl e)
  then show ?thesis using WriteBatch_error assms by fastforce
next
  case (Inr x)
  note ok = WriteBatch_ok(2,5) [OF assms(1) [unfolded Inr]]
  then show ?thesis unfolding grows_def by (metis option.distinct(1))
qed

lemma WriteBatch_path:
  assumes "WriteBatch enc env w events key f = (Inr r, f')" "pwS3 w = None"
  shows "local_files f' (frPath r) \<noteq> None"
  using WriteBatch_ok(2,4) [OF assms(1)] assms(2) by simp

section \<open>Flushing\<close>

lemma write_groups_disk:
  assumes "write_groups env w groups keys k acc f = (res, f')" "pwS3 w = None"
    "\<forall>d\<in>set acc. local_files f (pfPath (cmRecord d)) \<noteq> None"
  shows "grows f f' \<and> (\<forall>ds. res = Inr ds \<longrightarrow> (\<forall>d\<in>set ds. local_files f' (pfPath (cmRecord d)) \<noteq> None))"
  using assms
proof (induction keys arbitrary: k acc f)
  case (Cons key keys)
  obtain r f1 where w: "WriteBatch (fxEnc env) (fxWrite env k) w (group_sort (the (map_of groups key))) (partition_key (fxZone env) key) f = (r, f1)"
    by force
  have g: "grows f f1" by (rule WriteBatch_grows [OF w Cons.prems(2)])
  show ?case
  proof (cases r)
    case (Inl e)
    then show ?thesis using Cons.prems(1) w g by (auto simp: Let_def)
  next
    case (Inr x)
    let ?c = "\<lparr>cmKey = key, cmRecord = file_record (fxSha env) (fxStamp env k) key x,
             cmMaxID = frMaxEventID x, cmMaxTS = frMaxTimestampUs x, cmMinID = frMinEventID x\<rparr>"
    have "local_files f1 (pfPath (cmRecord ?c)) \<noteq> None"
      using WriteBatch_path [OF w [unfolded Inr] Cons.prems(2)] by (simp add: file_record_def)
    then have acc: "\<forall>d\<in>set (acc @ [?c]). local_files f1 (pfPath (cmRecord d)) \<noteq> None"
      using Cons.prems(3) g unfolding grows_def by auto
    show ?thesis
    proof (cases "length (frMinEventID x) < 8 \<or> length (frMaxEventID x) < 8")
      case True
      then show ?thesis using Cons.prems(1) w g Inr by (auto simp: Let_def)
    next
      case False
      then have "write_groups env w groups keys (Suc k) (acc @ [?c]) f1 = (res, f')"
        using Cons.prems(1) w Inr by (simp add: Let_def)
      from Cons.IH [OF this Cons.prems(2) acc] show ?thesis using grows_trans [OF g] by blast
    qed
  qed
qed auto

lemma AddFileTx_files:
  "set (parquet_files (snd (AddFileTx flt r m))) \<subseteq> insert (r\<lparr>pfStatus := ''committed''\<rparr>) (set (parquet_files m))"
  by (auto simp: AddFileTx_def insert_file_def split: option.splits)

lemma add_files_files:
  "set (parquet_files (snd (add_files flt k ds m))) \<subseteq>
     set (parquet_files m) \<union> (\<lambda>d. (cmRecord d)\<lparr>pfStatus := ''committed''\<rparr>) ` set ds"
proof (induction ds arbitrary: k m)
  case (Cons d ds)
  obtain e m1 where a: "AddFileTx (flt k) (cmRecord d) m = (e, m1)" by force
  have "set (parquet_files m1) \<subseteq> insert ((cmRecord d)\<lparr>pfStatus := ''committed''\<rparr>) (set (parquet_files m))"
    using AddFileTx_files [of "flt k" "cmRecord d" m] a by simp
  then show ?case using Cons.IH [of "Suc k" m1] a by (auto split: option.splits)
qed simp

lemma on_disk_subset:
  assumes "on_disk m f" "set (parquet_files m') \<subseteq> set (parquet_files m) \<union> new" "\<And>r. r \<in> new \<Longrightarrow> local_files f (pfPath r) \<noteq> None"
  shows "on_disk m' f"
  using assms unfolding on_disk_def by blast

lemma flush_grows:
  assumes "pwS3 (fcWriter cfg) = None"
  shows "grows (fs s) (fs (snd (flush env cfg s)))"
proof -
  have "grows (fs s) f'" if "write_groups env (fcWriter cfg) groups ready 0 [] (fs s) = (res, f')" for groups ready res f'
    using write_groups_disk [OF that assms] by simp
  then show ?thesis by (auto simp: flush_def Let_def split: sum.splits prod.splits option.splits)
qed

lemma flush_keeps:
  assumes "pwS3 (fcWriter cfg) = None" "engine_ok s"
  shows "engine_ok (snd (flush env cfg s))"
proof -
  obtain out s' where f: "flush env cfg s = (out, s')" by force
  have wf: "manifest_wf (man s')" using flush_manifest_wf [of s env cfg] assms(2) f by (simp add: engine_ok_def)
  have od: "on_disk (man s) (fs s)" using assms(2) by (simp add: engine_ok_def)
  obtain wm where wm: "watermark_row (man s) = Some wm" using assms(2) by (auto simp: engine_ok_def manifest_wf_def)
  have "on_disk (man s') (fs s')"
  proof (cases "out = FlushOK")
    case True
    from f [unfolded True] wm show ?thesis
    proof (cases rule: flush_ok_cases)
      case idle
      then show ?thesis using on_disk_grows [OF od] flush_grows [OF assms(1), of s env] f by simp
    next
      case (commit ds f')
      note w = write_groups_disk [OF commit(1) assms(1)]
      then have new: "\<forall>d\<in>set (sort_key cmMinID ds). local_files f' (pfPath (cmRecord d)) \<noteq> None" by simp
      from commit_fn_ok [OF commit(5)] obtain m1 where m1: "add_files (fxAdd env) 0 (sort_key cmMinID ds) (man s) = (None, m1)"
        "parquet_files (man s') = parquet_files m1" .
      show ?thesis
      proof (rule on_disk_subset)
        show "on_disk (man s) (fs s')" using on_disk_grows [OF od] w commit(3) by simp
        show "set (parquet_files (man s')) \<subseteq> set (parquet_files (man s)) \<union> (\<lambda>d. (cmRecord d)\<lparr>pfStatus := ''committed''\<rparr>) ` set (sort_key cmMinID ds)"
          using add_files_files [of "fxAdd env" 0 "sort_key cmMinID ds" "man s"] m1 by simp
      qed (use new commit(3) in auto)
    qed
  next
    case False
    then show ?thesis using flush_fault_frame [OF f False] on_disk_grows [OF od] flush_grows [OF assms(1), of s env] f by simp
  qed
  then show ?thesis using wf f by (simp add: engine_ok_def)
qed

section \<open>Status changes\<close>

text \<open>No committed file has one of the given paths.\<close>

definition retired :: "string set \<Rightarrow> Manifest \<Rightarrow> bool" where
  "retired P m \<longleftrightarrow> (\<forall>r\<in>set (parquet_files m). pfStatus r = ''committed'' \<longrightarrow> pfPath r \<notin> P)"

lemma set_file_status_keeps:
  assumes "st \<noteq> ''committed''"
  shows "on_disk m f \<Longrightarrow> on_disk (set_file_status now fid st m) f" "retired P m \<Longrightarrow> retired P (set_file_status now fid st m)"
  using assms by (auto simp: on_disk_def retired_def set_file_status_def)

lemma update_one_keeps:
  assumes "st \<noteq> ''committed''"
  shows "on_disk m f \<Longrightarrow> on_disk (update_one flt now st fid m) f" "retired P m \<Longrightarrow> retired P (update_one flt now st fid m)"
  using set_file_status_keeps [OF assms] by (auto simp: update_one_def UpdateFileStatus_def split: option.splits)

lemma update_all_keeps:
  assumes "st \<noteq> ''committed''" "on_disk m f"
  shows "on_disk (update_all flt now st fids m) f"
  using assms(2) unfolding update_all_def
  by (induction fids arbitrary: m) (simp_all add: update_one_keeps(1) [OF assms(1)])

lemma mark_expired_keeps: "on_disk m f \<Longrightarrow> on_disk (mark_expired env c m) f"
  by (simp add: mark_expired_def Let_def update_all_keeps)

lemma listed_retired:
  assumes "manifest_wf m" "st \<noteq> ''committed''" "st \<noteq> []"
  shows "retired (fiPath ` set (list_files flt until st m)) m"
proof (cases flt)
  case None
  have "pfPath r \<notin> fiPath ` set (list_files None until st m)" if r: "r \<in> set (parquet_files m)" "pfStatus r = ''committed''" for r
  proof
    assume "pfPath r \<in> fiPath ` set (list_files None until st m)"
    then obtain g where g: "g \<in> set (parquet_files m)" "files_where [] 0 until st g" "pfPath g = pfPath r"
      by (auto simp: list_files_mem file_info_def)
    have "g = r" using assms(1) g r by (auto simp: manifest_wf_def distinct_map dest: inj_onD)
    then show False using g(2) r(2) assms(2,3) by (simp add: files_where_def)
  qed
  then show ?thesis using None by (simp add: retired_def)
qed (simp add: list_files_def FilesFor_def retired_def)

lemma delete_one_keeps:
  assumes "manifest_wf m" "on_disk m f" "retired P m" "fiPath fi \<in> P"
  shows "case delete_one env fi (m, f) of (m', f') \<Rightarrow> manifest_wf m' \<and> on_disk m' f' \<and> retired P m'"
proof -
  let ?m' = "update_one (gxUpdate env ''deleted'') (us_of (gxNow env)) ''deleted'' (fiFileID fi) m"
  have m': "manifest_wf ?m'" "on_disk ?m' f" "retired P ?m'"
    using assms(1-3) by (simp_all add: wf_update_one update_one_keeps)
  moreover have "on_disk ?m' (f\<lparr>local_files := (local_files f)(fiPath fi := None)\<rparr>)"
    using m'(2,3) assms(4) by (auto simp: on_disk_def retired_def)
  ultimately show ?thesis using assms(1-3) by (simp add: delete_one_def)
qed

lemma delete_all_keeps:
  assumes "manifest_wf m" "on_disk m f" "retired P m" "fiPath ` set files \<subseteq> P"
  shows "case delete_all env files (m, f) of (m', f') \<Rightarrow> manifest_wf m' \<and> on_disk m' f'"
  using assms
proof (induction files arbitrary: m f)
  case (Cons fi files)
  obtain m1 f1 where d: "delete_one env fi (m, f) = (m1, f1)" by force
  have "manifest_wf m1 \<and> on_disk m1 f1 \<and> retired P m1"
    using delete_one_keeps [OF Cons.prems(1-3), of fi env] Cons.prems(4) d by simp
  then show ?case using Cons.IH [of m1 f1] Cons.prems(4) d by (simp add: delete_all_def)
qed (simp add: delete_all_def)

lemma sweep_disk:
  assumes "\<And>p. \<not> gxCount env p" "on_disk m f"
  shows "on_disk m (sweep env m f)"
  using assms by (auto simp: on_disk_def sweep_exact tracked_def)

lemma collectOnce_keeps:
  assumes "\<And>p. \<not> gxCount env p" "manifest_wf m" "on_disk m f"
  shows "case collectOnce env g (m, f) of (m', f') \<Rightarrow> manifest_wf m' \<and> on_disk m' f'"
proof -
  let ?f1 = "if gcDataDir g \<noteq> [] then sweep env m f else f"
    and ?m1 = "mark_expired env (us_of (gxNow env - gcTTL g)) m"
  have "on_disk m ?f1" using assms(3) sweep_disk [of env m f] assms(1) by simp
  then have "manifest_wf ?m1" "on_disk ?m1 ?f1" using assms(2) by (simp_all add: wf_mark mark_expired_keeps)
  from delete_all_keeps [OF this listed_retired [OF this(1), of "''expired''"] order.refl, of env]
  show ?thesis by (simp add: collectOnce_def Let_def)
qed

lemma CleanupSuperseded_keeps:
  assumes "manifest_wf m" "on_disk m f"
  shows "case CleanupSuperseded env (m, f) of (_, m', f') \<Rightarrow> manifest_wf m' \<and> on_disk m' f'"
proof (cases "FilesFor (gxList env ''superseded'') [] 0 0 ''superseded'' m")
  case (Inl e)
  then show ?thesis using assms by (simp add: CleanupSuperseded_def)
next
  case (Inr files)
  then have "list_files (gxList env ''superseded'') 0 ''superseded'' m = files" by (simp add: list_files_def)
  then have "retired (fiPath ` set files) m" using listed_retired [OF assms(1), of "''superseded''" "gxList env ''superseded''" 0] by simp
  moreover have "fiPath ` set (filter (\<lambda>f. fiMaxTS f < us_of (gxNow env - compactor_grace)) files) \<subseteq> fiPath ` set files" by auto
  ultimately show ?thesis using Inr delete_all_keeps [OF assms, of "fiPath ` set files" _ env] by (auto simp: CleanupSuperseded_def Let_def split: prod.splits)
qed

lemma applyOnce_keeps:
  assumes "manifest_wf m" "on_disk m f"
  shows "manifest_wf (applyOnce lst upd now ps m) \<and> on_disk (applyOnce lst upd now ps m) f"
  using assms unfolding applyOnce_def
  by (induction ps arbitrary: m) (simp_all add: apply_policy_def Let_def wf_update_all update_all_keeps)

section \<open>Compaction\<close>

lemma supersede_disk: "on_disk m f \<Longrightarrow> on_disk (snd (supersede flt now fids m)) f"
proof (induction fids arbitrary: m)
  case (Cons fid fids)
  then show ?case
    using set_file_status_keeps(1) [of "''superseded''" m f now fid] by (cases "flt fid") (simp_all add: UpdateFileStatusTx_def)
qed simp

lemma compact_tx_disk:
  assumes "on_disk m f" "local_files f (pfPath d) \<noteq> None"
  shows "on_disk (snd (compact_tx env d fids m)) f"
proof -
  obtain e m1 where a: "AddFileTx (cxAdd env) d m = (e, m1)" by force
  have "on_disk m1 f"
    by (rule on_disk_subset [OF assms(1), of _ "{d\<lparr>pfStatus := ''committed''\<rparr>}"]) (use AddFileTx_files [of "cxAdd env" d m] a assms(2) in auto)
  then show ?thesis using a supersede_disk [of m1 f] by (auto simp: compact_tx_def split: option.splits)
qed

lemma compactGroup_keeps:
  assumes "pwS3 w = None" "manifest_wf m" "on_disk m f"
  shows "case snd (compactGroup env w tenantID date files (m, f)) of (m', f') \<Rightarrow> manifest_wf m' \<and> on_disk m' f'"
proof (cases "read_hourly env (sort_key fiMinTS files) = []")
  case True
  then show ?thesis using assms by (simp add: compactGroup_def)
next
  case False
  let ?ev = "sort_key (\<lambda>e. (AgentID e, Timestamp e)) (read_hourly env (sort_key fiMinTS files))"
  obtain r f1 where w: "WriteBatch (cxEnc env) (cxWrite env) w ?ev (tenantID @ ''/'' @ date @ ''/compacted'') f = (r, f1)" by force
  have d: "on_disk m f1" by (rule on_disk_grows [OF assms(3) WriteBatch_grows [OF w assms(1)]])
  show ?thesis
  proof (cases r)
    case (Inl e)
    then show ?thesis using False w d assms(2) by (simp add: compactGroup_def Let_def)
  next
    case (Inr x)
    let ?tx = "compact_tx env (daily_record env tenantID x) (map fiFileID (sort_key fiMinTS files))"
    obtain e m1 where t: "Transaction (cxBegin env) (cxCommit env) ?tx m = (e, m1)" by force
    have "manifest_wf m1" using Transaction_wf [OF assms(2), of ?tx "cxBegin env" "cxCommit env"] compact_tx_wf t by simp
    moreover have "on_disk m1 f1"
    proof (cases e)
      case None
      have "local_files f1 (pfPath (daily_record env tenantID x)) \<noteq> None"
        using WriteBatch_path [OF w [unfolded Inr] assms(1)] by (simp add: daily_record_def)
      then show ?thesis using compact_tx_disk [OF d] Transaction_ok [OF t [unfolded None]] by (metis snd_conv)
    next
      case (Some err)
      then show ?thesis using Transaction_error t d by metis
    qed
    ultimately show ?thesis using False w Inr t by (simp add: compactGroup_def Let_def split: option.splits)
  qed
qed

lemma compact_loop_keeps:
  assumes "pwS3 w = None" "manifest_wf m" "on_disk m f"
  shows "case compact_loop env w k groups (m, f) of (m', f') \<Rightarrow> manifest_wf m' \<and> on_disk m' f'"
  using assms(2,3)
proof (induction groups arbitrary: k m f)
  case (Cons g rest)
  obtain tenantID date files where g: "g = ((tenantID, date), files)" by (metis prod.exhaust)
  obtain m1 f1 where c: "snd (compactGroup (env k) w tenantID date files (m, f)) = (m1, f1)" by force
  have "manifest_wf m1" "on_disk m1 f1"
    using compactGroup_keeps [OF assms(1) Cons.prems, of "env k" tenantID date files] c by simp_all
  then show ?case using Cons c by (simp add: g)
qed simp

lemma compactOnce_keeps:
  assumes "pwS3 w = None" "manifest_wf m" "on_disk m f"
  shows "case compactOnce lst now zone order env w (m, f) of (m', f') \<Rightarrow> manifest_wf m' \<and> on_disk m' f'"
  using compact_loop_keeps [OF assms] assms(2,3) by (simp add: compactOnce_def Let_def split: sum.splits)

section \<open>Retention\<close>

lemma retain_table_files:
  "parquet_files (snd (retain_table drp mark hdrop t st)) = parquet_files (snd st)"
  "manifest_wf (snd st) \<Longrightarrow> manifest_wf (snd (retain_table drp mark hdrop t st))"
  by (auto simp: retain_table_def MarkHotTableFlushed_def DropHotTable_def set_hot_status_wf split: prod.splits option.splits)

lemma retainOnce_keeps:
  assumes "manifest_wf m" "on_disk m f"
  shows "manifest_wf (snd (retainOnce wmflt drp mark hdrop window now (h, m))) \<and> on_disk (snd (retainOnce wmflt drp mark hdrop window now (h, m))) f"
proof -
  have "manifest_wf (snd (foldl (\<lambda>st t. if P t then retain_table drp mark hdrop t st else st) st ts)) \<and>
      on_disk (snd (foldl (\<lambda>st t. if P t then retain_table drp mark hdrop t st else st) st ts)) f"
    if "manifest_wf (snd st)" "on_disk (snd st) f" for P st ts
    using that
  proof (induction ts arbitrary: st)
    case (Cons t ts)
    let ?st = "if P t then retain_table drp mark hdrop t st else st"
    have "manifest_wf (snd ?st)" using Cons.prems(1) retain_table_files(2) by simp
    moreover have "parquet_files (snd ?st) = parquet_files (snd st)" using retain_table_files(1) by simp
    then have "on_disk (snd ?st) f" using Cons.prems(2) by (simp only: on_disk_def)
    ultimately show ?case using Cons.IH by (simp only: foldl_Cons)
  qed simp
  then show ?thesis using assms by (auto simp: retainOnce_def split: sum.splits)
qed

section \<open>The engine\<close>

datatype engine_op =
    WriteOp json_enc "int \<Rightarrow> int" hot_env "event list"
  | FlushOp flush_env flusher_cfg
  | CollectOp gc_env GC
  | TTLOp "string \<Rightarrow> fault" "string \<Rightarrow> fault" int "TTLPolicy list"
  | RetainOp fault "string \<Rightarrow> fault" "string \<Rightarrow> fault" "string \<Rightarrow> fault" int int
  | ScrubOp fault "string \<Rightarrow> fault" "TraceEventParquet list \<Rightarrow> string" "string \<Rightarrow> fault" int
  | CompactOp fault int "int \<Rightarrow> int"
      "((string \<times> string) \<times> FileInfo list) list \<Rightarrow> ((string \<times> string) \<times> FileInfo list) list" "nat \<Rightarrow> compact_env" ParquetWriter
  | CleanupOp gc_env

definition on_files :: "(Manifest \<times> fsys \<Rightarrow> Manifest \<times> fsys) \<Rightarrow> tse \<Rightarrow> tse" where
  "on_files g s = (case g (man s, fs s) of (m, f) \<Rightarrow> s\<lparr>man := m, fs := f\<rparr>)"

fun engine_exec :: "engine_op \<Rightarrow> tse \<Rightarrow> tse" where
  "engine_exec (WriteOp enc zone env events) s = s\<lparr>hot := snd (HotWriteBatch enc zone env events (hot s))\<rparr>"
| "engine_exec (FlushOp env cfg) s = snd (flush env cfg s)"
| "engine_exec (CollectOp env g) s = on_files (collectOnce env g) s"
| "engine_exec (TTLOp lst upd now ps) s = s\<lparr>man := applyOnce lst upd now ps (man s)\<rparr>"
| "engine_exec (RetainOp wmflt drp mark hdrop window now) s =
     (case retainOnce wmflt drp mark hdrop window now (hot s, man s) of (h, m) \<Rightarrow> s\<lparr>hot := h, man := m\<rparr>)"
| "engine_exec (ScrubOp lst rd sha upd now) s = s\<lparr>man := snd (scrubOnce lst rd sha upd now (fs s) (man s))\<rparr>"
| "engine_exec (CompactOp lst now zone order env w) s = on_files (compactOnce lst now zone order env w) s"
| "engine_exec (CleanupOp env) s = on_files (\<lambda>st. snd (CleanupSuperseded env st)) s"

text \<open>Files are written locally, and the counting query of the orphan sweep does not fail.\<close>

fun engine_fit :: "engine_op \<Rightarrow> bool" where
  "engine_fit (FlushOp env cfg) = (pwS3 (fcWriter cfg) = None)"
| "engine_fit (CollectOp env g) = (\<forall>p. \<not> gxCount env p)"
| "engine_fit (CompactOp lst now zone order env w) = (pwS3 w = None)"
| "engine_fit _ = True"

lemma on_files_keeps:
  assumes "case g (man s, fs s) of (m', f') \<Rightarrow> manifest_wf m' \<and> on_disk m' f'"
  shows "engine_ok (on_files g s)"
  using assms by (auto simp: on_files_def engine_ok_def split: prod.splits)

interpretation engine: background_job engine_exec engine_fit
proof (unfold_locales, goal_cases)
  case (1 e s)
  then have ok: "manifest_wf (man s)" "on_disk (man s) (fs s)" by (simp_all add: engine_ok_def)
  show ?case
  proof (cases e)
    case (FlushOp env cfg)
    then show ?thesis using 1 flush_keeps by simp
  next
    case (CollectOp env g)
    then show ?thesis using 1 collectOnce_keeps [OF _ ok, of env g] by (simp add: on_files_keeps)
  next
    case (TTLOp lst upd now ps)
    then show ?thesis using applyOnce_keeps [OF ok] by (simp add: engine_ok_def)
  next
    case (RetainOp wmflt drp mark hdrop window now)
    then show ?thesis using retainOnce_keeps [OF ok, of wmflt drp mark hdrop window now "hot s"]
      by (auto simp: engine_ok_def split: prod.splits)
  next
    case (ScrubOp lst rd sha upd now)
    then show ?thesis using ok scrub_loop_frame by (simp add: engine_ok_def scrubOnce_def split: sum.splits)
  next
    case (CompactOp lst now zone order env w)
    then show ?thesis using 1 compactOnce_keeps [OF _ ok, of w lst now zone order env] by (simp add: on_files_keeps)
  next
    case (CleanupOp env)
    have "case snd (CleanupSuperseded env (man s, fs s)) of (m', f') \<Rightarrow> manifest_wf m' \<and> on_disk m' f'"
      using CleanupSuperseded_keeps [OF ok, of env] by (auto split: prod.splits)
    then show ?thesis using CleanupOp by (simp add: on_files_keeps)
  qed (use ok in \<open>simp add: engine_ok_def\<close>)
qed

section \<open>Writes to a dropped hour\<close>

lemma ensureTable_absent:
  assumes "t \<in> set (ensured s)" "t \<notin> fst ` set (hsTables s)"
  shows "t \<in> set (ensured (snd (ensureTable d u s))) \<and> t \<notin> fst ` set (hsTables (snd (ensureTable d u s)))"
  using assms by (cases "u = t") (auto simp: ensureTable_def ensure_rest_def create_table_def Let_def split: option.splits)

lemma ensure_all_absent:
  "t \<in> set (ensured s) \<Longrightarrow> t \<notin> fst ` set (hsTables s) \<Longrightarrow> t \<notin> fst ` set (hsTables (snd (ensure_all d ts s)))"
proof (induction ts arbitrary: s)
  case (Cons u ts)
  obtain e s1 where o: "ensureTable d u s = (e, s1)" by force
  then have "t \<in> set (ensured s1)" "t \<notin> fst ` set (hsTables s1)" using ensureTable_absent [OF Cons.prems, of d u] by simp_all
  then show ?case using Cons.IH o by (cases e) simp_all
qed simp

lemma dropped_hour_rejected:
  assumes "t \<in> set (ensured h)" "t \<notin> fst ` set (hsTables h)" "e \<in> set events" "hourlyTableName zone (Timestamp e) = t"
  shows "fst (HotWriteBatch enc zone env events h) \<noteq> None"
proof
  assume "fst (HotWriteBatch enc zone env events h) = None"
  then obtain h' where ok: "HotWriteBatch enc zone env events h = (None, h')" by (metis prod.collapse)
  have ne: "events \<noteq> []" using assms(3) by auto
  let ?g = "by_hour zone events"
  obtain s1 tabs where ens: "ensure_all (heDDL env) (map fst ?g) h = (None, s1)"
    and ins: "insert_tables enc (heChunk env) ?g (hsTables s1) = (None, tabs)"
    using ok ne by (auto simp: HotWriteBatch_def Let_def split: if_splits option.splits prod.splits)
  have "filter (\<lambda>e. hourlyTableName zone (Timestamp e) = t) events \<noteq> []" using assms(3,4) by (auto simp: filter_empty_conv)
  then obtain g where g: "(t, g) \<in> set ?g" "g \<noteq> []" using map_of_by_hour [of zone events t] by (auto simp: Let_def dest: map_of_SomeD)
  have "t \<in> fst ` set (hsTables s1)" using insert_tables_ok [OF ins by_hour_keys(1)] g by blast
  then show False using ensure_all_absent [OF assms(1,2), of "heDDL env" "map fst ?g"] ens by simp
qed

text \<open>A table that a retention cycle drops is gone but still counts as ensured.\<close>

lemma retain_table_hot:
  "ensured (fst (retain_table drp mark hdrop t st)) = ensured (fst st)"
  "fst ` set (hsTables (fst (retain_table drp mark hdrop t st))) = fst ` set (hsTables (fst st)) - (if drp t = None then {t} else {})"
  by (cases "drp t"; cases st; force simp: retain_table_def DropTable_def)+

lemma retain_fold_hot:
  "ensured (fst (retain_fold drp mark hdrop lastTS window now ts st)) = ensured (fst st) \<and>
   fst ` set (hsTables (fst (retain_fold drp mark hdrop lastTS window now ts st))) =
     fst ` set (hsTables (fst st)) - {k \<in> set ts. droppable lastTS window now k \<and> drp k = None}"
proof (induction ts arbitrary: st)
  case (Cons t ts)
  let ?st = "if droppable lastTS window now t then retain_table drp mark hdrop t st else st"
  have step: "retain_fold drp mark hdrop lastTS window now (t # ts) st = retain_fold drp mark hdrop lastTS window now ts ?st"
    by (simp add: retain_fold_def)
  have "ensured (fst ?st) = ensured (fst st)"
    "fst ` set (hsTables (fst ?st)) = fst ` set (hsTables (fst st)) - (if droppable lastTS window now t \<and> drp t = None then {t} else {})"
    using retain_table_hot [of drp mark hdrop t st] by simp_all
  then show ?case unfolding step using Cons [of ?st] by auto
qed (simp add: retain_fold_def)

lemma retained_away:
  assumes "watermark_row m = Some wm" "t \<in> set (liveTables h)" "droppable (LastTS wm) window now t" "drp t = None"
  shows "ensured (fst (retainOnce None drp mark hdrop window now (h, m))) = ensured h"
    "t \<notin> fst ` set (hsTables (fst (retainOnce None drp mark hdrop window now (h, m))))"
  using retain_fold_hot [of drp mark hdrop "LastTS wm" window now "liveTables h" "(h, m)"] assms
  by (simp_all add: retainOnce_def get_watermark_def LiveTables_def retain_fold_def)

section \<open>A file between its write and its commit\<close>

lemma insert_after_sweep:
  assumes "WriteBatch enc env w events key f = (Inr r, f')" "pwS3 w = None"
    and "filepath_Ext (frPath r) = ''.parquet''" "frPath r \<in> set (gxListing g)" "gxRemove g (frPath r) = None"
    and "frPath r \<notin> pfPath ` set (parquet_files m)"
  shows "local_files (sweep g m f') (frPath r) = None"
proof -
  have "\<not> tracked m (frPath r)" using assms(6) unfolding tracked_def by (metis image_eqI)
  then show ?thesis using assms(3-5) by (simp add: sweep_exact)
qed

end
