(* ===== verification/Leader_Model.thy ===== *)
theory Leader_Model
  imports Go_Time
begin

text \<open>
  \<open>internal/storage/leader.go\<close>: leader election between storage nodes over two objects of a bucket,
  the fenced lease \<open>.leader/lease\<close> and the heartbeat \<open>.leader/ts\<close>.  Epochs are 64-bit words.
  Which downloads and uploads fail, and the clock, are inputs of a tick.
\<close>

section \<open>The bucket\<close>

record bucket =
  bkLease :: "string option"
  bkTs :: "string option"

text \<open>An upload may store the object, fail without storing it, or store it and still report an error.\<close>

datatype upload = Stored | NotStored string | StoredErr string

definition stores :: "upload \<Rightarrow> bool" where
  "stores u \<longleftrightarrow> (case u of NotStored _ \<Rightarrow> False | _ \<Rightarrow> True)"

definition upload_err :: "upload \<Rightarrow> string option" where
  "upload_err u = (case u of Stored \<Rightarrow> None | NotStored e \<Rightarrow> Some e | StoredErr e \<Rightarrow> Some e)"

datatype download = HeartbeatRead | PromoteRead | CasRead | CasReread | CasConfirm | WatchRead | TsRead

record leader_env =
  lxDown :: "download \<Rightarrow> bool"
  lxLease :: upload
  lxTs :: upload
  lxLeaseNow :: int
  lxNow :: int

section \<open>The lease object\<close>

text \<open>\<open>strconv.ParseUint\<close> and \<open>ParseInt\<close> with the error ignored: a value out of range
  is clamped, a malformed one gives 0.\<close>

definition ParseUint64 :: "string \<Rightarrow> 64 word" where
  "ParseUint64 s = (case parse_dec s of None \<Rightarrow> 0 | Some n \<Rightarrow> if n < 2 ^ 64 then of_nat n else - 1)"

definition ParseInt64 :: "string \<Rightarrow> int option" where
  "ParseInt64 s =
     (let (neg, body) = (case s of [] \<Rightarrow> (False, []) | c # cs \<Rightarrow> if c = CHR ''-'' then (True, cs) else if c = CHR ''+'' then (False, cs) else (False, s))
      in case parse_dec body of None \<Rightarrow> None
         | Some n \<Rightarrow> if neg then (if n \<le> 2 ^ 63 then Some (- int n) else None)
                     else (if n < 2 ^ 63 then Some (int n) else None))"

record lease =
  lsEpoch :: "64 word"
  lsHolder :: string

definition no_lease :: lease where
  "no_lease = \<lparr>lsEpoch = 0, lsHolder = []\<rparr>"

text \<open>The time stamp of the lease is parsed by the source and never used.\<close>

definition lease_field :: "lease \<Rightarrow> string \<Rightarrow> lease" where
  "lease_field l f =
     (case SplitN2 (CHR ''='') f of
        (_, None) \<Rightarrow> l
      | (k, Some v) \<Rightarrow>
          if k = ''epoch'' then l\<lparr>lsEpoch := ParseUint64 v\<rparr>
          else if k = ''node'' then l\<lparr>lsHolder := v\<rparr>
          else l)"

definition parse_lease :: "string \<Rightarrow> lease" where
  "parse_lease data = foldl lease_field no_lease (Fields data)"

definition readLease :: "bool \<Rightarrow> bucket \<Rightarrow> lease" where
  "readLease down b = (if down then no_lease else case bkLease b of None \<Rightarrow> no_lease | Some data \<Rightarrow> parse_lease data)"

definition lease_body :: "64 word \<Rightarrow> string \<Rightarrow> int \<Rightarrow> string" where
  "lease_body next node now = ''epoch='' @ show_nat (unat next) @ '' node='' @ node @ '' ts='' @ show_int now"

text \<open>The three phases of \<open>casLease\<close>: the epoch check, the upload, the confirming read.\<close>

definition cas_check :: "leader_env \<Rightarrow> 64 word \<Rightarrow> bucket \<Rightarrow> bool" where
  "cas_check env next b \<longleftrightarrow>
     (let cur = lsEpoch (readLease (lxDown env CasRead) b)
      in next = cur + 1 \<or> cur = 0 \<and> next = 1 \<or> next = lsEpoch (readLease (lxDown env CasReread) b) + 1)"

definition cas_upload :: "leader_env \<Rightarrow> 64 word \<Rightarrow> string \<Rightarrow> bucket \<Rightarrow> bucket" where
  "cas_upload env next node b =
     (if stores (lxLease env) then b\<lparr>bkLease := Some (lease_body next node (lxLeaseNow env))\<rparr> else b)"

definition cas_confirm :: "leader_env \<Rightarrow> 64 word \<Rightarrow> string \<Rightarrow> bucket \<Rightarrow> bool" where
  "cas_confirm env next node b \<longleftrightarrow>
     (let l = readLease (lxDown env CasConfirm) b in lsHolder l = node \<and> lsEpoch l = next)"

definition casLease :: "leader_env \<Rightarrow> 64 word \<Rightarrow> string \<Rightarrow> bucket \<Rightarrow> bool \<times> bucket" where
  "casLease env next node b =
     (if \<not> cas_check env next b then (False, b)
      else let b' = cas_upload env next node b
           in (upload_err (lxLease env) = None \<and> cas_confirm env next node b', b'))"

section \<open>The elector\<close>

text \<open>The role is a configured string; another value than the three named ones makes a tick do nothing.\<close>

datatype NodeRole = NodeRoleLeader | NodeRoleFollower | NodeRoleAuto | OtherRole string

record LeaderElector =
  leNodeID :: string
  leRole :: NodeRole
  leFailover :: int
  leIsLeader :: bool
  leEpoch :: "64 word"
  leKnownEpoch :: "64 word"

definition NewLeaderElector :: "string \<Rightarrow> nat \<Rightarrow> NodeRole \<Rightarrow> LeaderElector" where
  "NewLeaderElector hostname r role =
     \<lparr>leNodeID = hostname @ ''-'' @ show_nat r, leRole = role, leFailover = 15 * Second,
      leIsLeader = (role = NodeRoleLeader), leEpoch = 0, leKnownEpoch = 0\<rparr>"

definition demote :: "LeaderElector \<Rightarrow> LeaderElector" where
  "demote l = (if \<not> leIsLeader l then l else l\<lparr>leIsLeader := False\<rparr>)"

definition heartbeat :: "leader_env \<Rightarrow> LeaderElector \<Rightarrow> bucket \<Rightarrow> LeaderElector \<times> bucket" where
  "heartbeat env l b =
     (let r = readLease (lxDown env HeartbeatRead) b; epoch = lsEpoch r; holder = lsHolder r in
      if holder \<noteq> [] \<and> holder \<noteq> leNodeID l \<and> leIsLeader l \<and> leEpoch l \<le> epoch then (demote l, b)
      else
        let next = (if leIsLeader l \<and> leEpoch l > epoch then leEpoch l else epoch + 1)
        in case casLease env next (leNodeID l) b of
             (False, b') \<Rightarrow> (demote l, b')
           | (True, b') \<Rightarrow>
             (l\<lparr>leEpoch := next, leKnownEpoch := next, leIsLeader := True\<rparr>,
              if stores (lxTs env) then b'\<lparr>bkTs := Some (show_int (lxNow env))\<rparr> else b'))"

definition promote :: "leader_env \<Rightarrow> LeaderElector \<Rightarrow> bucket \<Rightarrow> LeaderElector \<times> bucket" where
  "promote env l b =
     (if leIsLeader l then (l, b)
      else
        let epoch = lsEpoch (readLease (lxDown env PromoteRead) b);
            next = (if epoch + 1 \<le> leKnownEpoch l then leKnownEpoch l + 1 else epoch + 1)
        in case casLease env next (leNodeID l) b of
             (False, b') \<Rightarrow> (l, b')
           | (True, b') \<Rightarrow> (l\<lparr>leIsLeader := True, leEpoch := next, leKnownEpoch := next\<rparr>, b'))"

text \<open>\<open>int64\<close> arithmetic on the heartbeat's age.\<close>

definition heartbeat_stale :: "leader_env \<Rightarrow> LeaderElector \<Rightarrow> bucket \<Rightarrow> bool" where
  "heartbeat_stale env l b =
     (if lxDown env TsRead then True
      else case bkTs b of None \<Rightarrow> True
      | Some data \<Rightarrow>
        (case ParseInt64 (TrimSpace data) of None \<Rightarrow> True
         | Some ts \<Rightarrow> signed_take_bit 63 (lxNow env - ts) > go_quot (leFailover l) 1000000))"

definition checkLeader :: "leader_env \<Rightarrow> LeaderElector \<Rightarrow> bucket \<Rightarrow> LeaderElector \<times> bucket" where
  "checkLeader env l b = (if heartbeat_stale env l b then promote env l b else (l, b))"

definition watch :: "leader_env \<Rightarrow> LeaderElector \<Rightarrow> bucket \<Rightarrow> LeaderElector" where
  "watch env l b =
     (if \<not> leIsLeader l then l
      else let r = readLease (lxDown env WatchRead) b
           in if lsHolder r \<noteq> leNodeID l \<or> lsEpoch r \<noteq> leEpoch l then demote l else l)"

definition tick :: "leader_env \<Rightarrow> LeaderElector \<Rightarrow> bucket \<Rightarrow> LeaderElector \<times> bucket" where
  "tick env l b =
     (case leRole l of
        NodeRoleLeader \<Rightarrow> (case heartbeat env l b of (l', b') \<Rightarrow> (watch env l' b', b'))
      | NodeRoleFollower \<Rightarrow> (case checkLeader env l b of (l', b') \<Rightarrow> (watch env l' b', b'))
      | NodeRoleAuto \<Rightarrow> (case checkLeader env l b of (l', b') \<Rightarrow> (watch env l' b', b'))
      | OtherRole _ \<Rightarrow> (l, b))"

section \<open>The lease as a register\<close>

text \<open>
  What the elector relies on: reading back a written lease gives its epoch and its holder, and an
  upload that does not store leaves the register as it was.
\<close>

locale lease_register =
  fixes read_reg :: "'s \<Rightarrow> 'e \<times> 'n" and write_reg :: "'e \<Rightarrow> 'n \<Rightarrow> 't \<Rightarrow> 's \<Rightarrow> 's"
    and valid :: "'n \<Rightarrow> bool"
  assumes read_write: "valid n \<Longrightarrow> read_reg (write_reg e n t s) = (e, n)"
begin

text \<open>Two writers that both passed their check both read their own write back.\<close>

lemma both_confirm:
  assumes "valid x" "valid y"
  shows "read_reg (write_reg e x t s) = (e, x)"
    "read_reg (write_reg e y t' (write_reg e x t s)) = (e, y)"
  using assms by (simp_all add: read_write)

end

definition valid_node :: "string \<Rightarrow> bool" where
  "valid_node n \<longleftrightarrow> n \<noteq> [] \<and> (\<forall>c\<in>set n. \<not> is_space c)"

lemma ParseUint64_show [simp]: "ParseUint64 (show_nat (unat (e :: 64 word))) = e"
proof -
  have "unat e < 2 ^ 64" using unsigned_less [of e] by simp
  then show ?thesis by (simp add: ParseUint64_def)
qed

lemma show_int_no_space: "c \<in> set (show_int i) \<Longrightarrow> \<not> is_space c"
  using show_nat_no_space by (auto simp: show_int_def is_space_def split: if_splits)

lemma Fields_lease_body:
  assumes "valid_node node"
  shows "Fields (lease_body next node now) = [''epoch='' @ show_nat (unat next), ''node='' @ node, ''ts='' @ show_int now]"
proof -
  let ?e = "''epoch='' @ show_nat (unat next)" and ?n = "''node='' @ node" and ?t = "''ts='' @ show_int now"
  have words: "\<forall>c\<in>set ?e. \<not> is_space c" "\<forall>c\<in>set ?n. \<not> is_space c" "\<forall>c\<in>set ?t. \<not> is_space c"
    using assms show_nat_no_space show_int_no_space by (auto simp: valid_node_def is_space_def)
  have "lease_body next node now = ?e @ CHR '' '' # ?n @ CHR '' '' # ?t" by (simp add: lease_body_def)
  moreover have "is_space (CHR '' '')" by (simp add: is_space_def)
  ultimately show ?thesis
    using Fields_cons [OF _ words(1), of "CHR '' ''" "?n @ CHR '' '' # ?t"] Fields_cons [OF _ words(2), of "CHR '' ''" ?t]
      Fields_single [OF _ words(3)] by simp
qed

lemma parse_lease_body:
  assumes "valid_node node"
  shows "parse_lease (lease_body next node now) = \<lparr>lsEpoch = next, lsHolder = node\<rparr>"
  using SplitN2_append [of "CHR ''=''" "''epoch''" "show_nat (unat next)"] SplitN2_append [of "CHR ''=''" "''node''" node]
    SplitN2_append [of "CHR ''=''" "''ts''" "show_int now"]
  by (simp add: parse_lease_def Fields_lease_body [OF assms] lease_field_def no_lease_def)

definition lease_of :: "bucket \<Rightarrow> 64 word \<times> string" where
  "lease_of b = (let l = readLease False b in (lsEpoch l, lsHolder l))"

definition put_lease :: "64 word \<Rightarrow> string \<Rightarrow> int \<Rightarrow> bucket \<Rightarrow> bucket" where
  "put_lease e n t b = b\<lparr>bkLease := Some (lease_body e n t)\<rparr>"

interpretation breg: lease_register lease_of put_lease valid_node
  by unfold_locales (simp add: lease_of_def put_lease_def readLease_def parse_lease_body)

section \<open>Fault-free ticks\<close>

definition reads_ok :: "leader_env \<Rightarrow> bool" where
  "reads_ok env \<longleftrightarrow> (\<forall>d. \<not> lxDown env d)"

lemma cas_upload_lease:
  "valid_node n \<Longrightarrow> lease_of (cas_upload env e n b) = (if stores (lxLease env) then (e, n) else lease_of b)"
  using breg.read_write [of n e "lxLeaseNow env" b] by (simp add: cas_upload_def put_lease_def)

lemma cas_confirm_iff: "\<not> lxDown env CasConfirm \<Longrightarrow> cas_confirm env e n b \<longleftrightarrow> lease_of b = (e, n)"
  by (auto simp: cas_confirm_def lease_of_def Let_def)

lemma casLease_next:
  assumes "reads_ok env" "valid_node n" "casLease env (fst (lease_of b) + 1) n b = (ok, b')"
  shows "ok \<longleftrightarrow> lxLease env = Stored"
    "lease_of b' = (if stores (lxLease env) then (fst (lease_of b) + 1, n) else lease_of b)"
    "bkTs b' = bkTs b"
proof -
  let ?next = "fst (lease_of b) + 1"
  have chk: "cas_check env ?next b" using assms(1) by (simp add: cas_check_def lease_of_def reads_ok_def Let_def)
  have eq: "b' = cas_upload env ?next n b" "ok \<longleftrightarrow> upload_err (lxLease env) = None \<and> cas_confirm env ?next n b'"
    using assms(3) chk by (auto simp: casLease_def Let_def)
  show l: "lease_of b' = (if stores (lxLease env) then (?next, n) else lease_of b)"
    unfolding eq(1) by (rule cas_upload_lease [OF assms(2)])
  show "ok \<longleftrightarrow> lxLease env = Stored"
    using eq(2) l cas_confirm_iff [of env ?next n b'] assms(1)
    by (cases "lxLease env") (auto simp: upload_err_def stores_def reads_ok_def)
  show "bkTs b' = bkTs b" using eq(1) by (simp add: cas_upload_def)
qed


text \<open>A tick of a node that is not behind the lease: it keeps its state up to the leader flag, or
  it takes the next epoch and holds the lease.\<close>

definition current :: "64 word \<Rightarrow> LeaderElector \<Rightarrow> bool" where
  "current e l \<longleftrightarrow> leEpoch l \<le> e \<and> leKnownEpoch l \<le> e"

definition took_lease :: "64 word \<Rightarrow> LeaderElector \<Rightarrow> LeaderElector \<Rightarrow> bucket \<Rightarrow> bool" where
  "took_lease e l l' b' \<longleftrightarrow> l' = l\<lparr>leEpoch := e, leKnownEpoch := e, leIsLeader := True\<rparr> \<and> lease_of b' = (e, leNodeID l)"

definition kept_state :: "LeaderElector \<Rightarrow> LeaderElector \<Rightarrow> bool" where
  "kept_state l l' \<longleftrightarrow> l' = l \<or> l' = l\<lparr>leIsLeader := False\<rparr>"

lemmas outcome_defs = took_lease_def kept_state_def

lemma demote_kept: "kept_state l (demote l)"
  by (simp add: demote_def kept_state_def)

lemma readLease_sel: "lsEpoch (readLease False b) = fst (lease_of b)" "lsHolder (readLease False b) = snd (lease_of b)"
  by (simp_all add: lease_of_def Let_def)

lemma epoch_succ:
  assumes "(e :: 64 word) + 1 \<noteq> 0"
  shows "unat (e + 1) = Suc (unat e)" "e < e + 1"
  using unatSuc [of e] assms by (simp_all add: add.commute word_less_nat_alt)

lemma heartbeat_outcome:
  assumes "reads_ok env" "valid_node (leNodeID l)" "current (fst (lease_of b)) l" "heartbeat env l b = (l', b')"
  shows "took_lease (fst (lease_of b) + 1) l l' b' \<or>
    kept_state l l' \<and> lease_of b' \<in> {lease_of b, (fst (lease_of b) + 1, leNodeID l)}"
proof -
  let ?e = "fst (lease_of b)"
  obtain ok c where cas: "casLease env (?e + 1) (leNodeID l) b = (ok, c)" by force
  have nlt: "\<not> ?e < leEpoch l" using assms(3) by (simp add: current_def not_less)
  have hb: "(l', b') = (if snd (lease_of b) \<noteq> [] \<and> snd (lease_of b) \<noteq> leNodeID l \<and> leIsLeader l \<and> leEpoch l \<le> ?e then (demote l, b)
      else if ok then (l\<lparr>leEpoch := ?e + 1, leKnownEpoch := ?e + 1, leIsLeader := True\<rparr>,
              if stores (lxTs env) then c\<lparr>bkTs := Some (show_int (lxNow env))\<rparr> else c)
      else (demote l, c))"
    using assms(4) assms(1) nlt cas unfolding heartbeat_def reads_ok_def Let_def
    by (auto simp: readLease_sel split: bool.splits)
  have ts: "lease_of (c\<lparr>bkTs := x\<rparr>) = lease_of c" for x by (simp add: lease_of_def readLease_def)
  note casLease_next(1,2) [OF assms(1,2) cas]
  then show ?thesis
    using hb demote_kept [of l] by (auto simp: took_lease_def ts stores_def split: if_splits)
qed

lemma checkLeader_outcome:
  assumes "reads_ok env" "valid_node (leNodeID l)" "current (fst (lease_of b)) l" "fst (lease_of b) + 1 \<noteq> 0"
    "checkLeader env l b = (l', b')"
  shows "took_lease (fst (lease_of b) + 1) l l' b' \<or>
    kept_state l l' \<and> lease_of b' \<in> {lease_of b, (fst (lease_of b) + 1, leNodeID l)}"
    "bkTs b' = bkTs b"
proof -
  let ?e = "fst (lease_of b)"
  obtain ok c where cas: "casLease env (?e + 1) (leNodeID l) b = (ok, c)" by force
  have "leKnownEpoch l \<le> ?e" using assms(3) by (simp add: current_def)
  moreover have "?e < ?e + 1" by (rule epoch_succ(2) [OF assms(4)])
  ultimately have nle: "\<not> ?e + 1 \<le> leKnownEpoch l" by simp
  have cl: "(l', b') = (if \<not> heartbeat_stale env l b \<or> leIsLeader l then (l, b)
      else if ok then (l\<lparr>leIsLeader := True, leEpoch := ?e + 1, leKnownEpoch := ?e + 1\<rparr>, c) else (l, c))"
    using assms(5) assms(1) nle cas unfolding checkLeader_def promote_def reads_ok_def Let_def
    by (auto simp: readLease_sel split: bool.splits if_splits)
  note n = casLease_next [OF assms(1,2) cas]
  show "took_lease (?e + 1) l l' b' \<or> kept_state l l' \<and> lease_of b' \<in> {lease_of b, (?e + 1, leNodeID l)}"
    using cl n(1,2) by (auto simp: outcome_defs stores_def split: if_splits)
  show "bkTs b' = bkTs b" using cl n(3) by (auto split: if_splits)
qed

lemma watch_kept: "kept_state l (watch env l b)"
  using demote_kept by (auto simp: watch_def Let_def kept_state_def)

lemma watch_took:
  assumes "reads_ok env" "took_lease e l l' b'"
  shows "watch env l' b' = l'"
  using assms by (auto simp: watch_def Let_def reads_ok_def readLease_sel took_lease_def)

lemma kept_trans: "kept_state l l' \<Longrightarrow> kept_state l' l'' \<Longrightarrow> kept_state l l''"
  by (auto simp: kept_state_def)

lemma watch_outcome:
  assumes "reads_ok env" "took_lease e l m b' \<or> kept_state l m \<and> P"
  shows "took_lease e l (watch env m b') b' \<or> kept_state l (watch env m b') \<and> P"
  using assms(2)
proof
  assume "took_lease e l m b'"
  then show ?thesis using watch_took [OF assms(1)] by simp
next
  assume "kept_state l m \<and> P"
  then show ?thesis using kept_trans [OF _ watch_kept] by blast
qed

lemma tick_outcome:
  assumes "reads_ok env" "valid_node (leNodeID l)" "current (fst (lease_of b)) l" "fst (lease_of b) + 1 \<noteq> 0"
    "tick env l b = (l', b')"
  shows "took_lease (fst (lease_of b) + 1) l l' b' \<or>
    kept_state l l' \<and> lease_of b' \<in> {lease_of b, (fst (lease_of b) + 1, leNodeID l)}"
proof -
  consider (hb) m where "heartbeat env l b = (m, b')" "l' = watch env m b'"
    | (cl) m where "checkLeader env l b = (m, b')" "l' = watch env m b'"
    | (idle) "l' = l" "b' = b"
    using assms(5) by (auto simp: tick_def split: NodeRole.splits prod.splits)
  then show ?thesis
  proof cases
    case hb
    then show ?thesis using watch_outcome [OF assms(1) heartbeat_outcome [OF assms(1-3) hb(1)]] by simp
  next
    case cl
    then show ?thesis using watch_outcome [OF assms(1) checkLeader_outcome(1) [OF assms(1-4) cl(1)]] by simp
  qed (simp add: kept_state_def)
qed

section \<open>A cluster under atomic ticks\<close>

type_synonym cluster = "(string \<Rightarrow> LeaderElector) \<times> bucket"

definition fresh_nodes :: "(string \<Rightarrow> LeaderElector) \<Rightarrow> bool" where
  "fresh_nodes ns \<longleftrightarrow> (\<forall>i. leNodeID (ns i) = i \<and> leEpoch (ns i) = 0 \<and> leKnownEpoch (ns i) = 0)"

inductive cluster_reach :: "bucket \<Rightarrow> nat \<Rightarrow> cluster \<Rightarrow> bool" where
  start: "fresh_nodes ns \<Longrightarrow> cluster_reach b0 0 (ns, b0)"
| ticked: "cluster_reach b0 n (ns, b) \<Longrightarrow> valid_node i \<Longrightarrow> reads_ok env \<Longrightarrow> tick env (ns i) b = (l', b') \<Longrightarrow>
    cluster_reach b0 (Suc n) (ns(i := l'), b')"

definition fenced :: "cluster \<Rightarrow> bool" where
  "fenced c \<longleftrightarrow> (case c of (ns, b) \<Rightarrow>
     (\<forall>i. leNodeID (ns i) = i \<and> current (fst (lease_of b)) (ns i)) \<and>
     (\<forall>i. leIsLeader (ns i) \<longrightarrow> leEpoch (ns i) \<noteq> 0 \<longrightarrow> leEpoch (ns i) = fst (lease_of b) \<longrightarrow> snd (lease_of b) = i) \<and>
     (\<forall>i j. i \<noteq> j \<longrightarrow> leIsLeader (ns i) \<longrightarrow> leIsLeader (ns j) \<longrightarrow> leEpoch (ns i) \<noteq> 0 \<longrightarrow> leEpoch (ns i) \<noteq> leEpoch (ns j)))"

lemma fencedI:
  assumes "\<And>i. leNodeID (ns i) = i" "\<And>i. current (fst (lease_of b)) (ns i)"
    "\<And>i. leIsLeader (ns i) \<Longrightarrow> leEpoch (ns i) \<noteq> 0 \<Longrightarrow> leEpoch (ns i) = fst (lease_of b) \<Longrightarrow> snd (lease_of b) = i"
    "\<And>i j. i \<noteq> j \<Longrightarrow> leIsLeader (ns i) \<Longrightarrow> leIsLeader (ns j) \<Longrightarrow> leEpoch (ns i) \<noteq> 0 \<Longrightarrow> leEpoch (ns i) \<noteq> leEpoch (ns j)"
  shows "fenced (ns, b)"
  unfolding fenced_def split_conv using assms by blast

lemma fencedD:
  assumes "fenced (ns, b)"
  shows "leNodeID (ns i) = i" "current (fst (lease_of b)) (ns i)"
    "leIsLeader (ns i) \<Longrightarrow> leEpoch (ns i) \<noteq> 0 \<Longrightarrow> leEpoch (ns i) = fst (lease_of b) \<Longrightarrow> snd (lease_of b) = i"
    "i \<noteq> j \<Longrightarrow> leIsLeader (ns i) \<Longrightarrow> leIsLeader (ns j) \<Longrightarrow> leEpoch (ns i) \<noteq> 0 \<Longrightarrow> leEpoch (ns i) \<noteq> leEpoch (ns j)"
  using assms unfolding fenced_def split_conv by blast+

lemma below_next:
  assumes "fenced (ns, b)" "fst (lease_of b) + 1 \<noteq> 0"
  shows "leEpoch (ns j) \<noteq> fst (lease_of b) + 1" "current (fst (lease_of b) + 1) (ns j)"
proof -
  have "leEpoch (ns j) < fst (lease_of b) + 1" "leKnownEpoch (ns j) < fst (lease_of b) + 1"
    using fencedD(2) [OF assms(1), of j] epoch_succ(2) [OF assms(2)] unfolding current_def by (meson le_less_trans)+
  then show "leEpoch (ns j) \<noteq> fst (lease_of b) + 1" "current (fst (lease_of b) + 1) (ns j)"
    by (auto simp: current_def less_imp_le)
qed

lemma fenced_took:
  assumes "fenced (ns, b)" "took_lease (fst (lease_of b) + 1) (ns i) l' b'" "fst (lease_of b) + 1 \<noteq> 0"
  shows "fenced (ns(i := l'), b')"
proof -
  let ?e = "fst (lease_of b) + 1"
  have l': "leEpoch l' = ?e" "leKnownEpoch l' = ?e" "leNodeID l' = i" "lease_of b' = (?e, i)"
    using assms(2) fencedD(1) [OF assms(1), of i] by (simp_all add: took_lease_def)
  note below = below_next [OF assms(1,3)]
  show ?thesis
  proof (rule fencedI, goal_cases)
    case (1 j)
    then show ?case using l'(3) fencedD(1) [OF assms(1), of j] by simp
  next
    case (2 j)
    then show ?case using l'(1,2,4) below(2) [of j] by (simp add: current_def)
  next
    case (3 j)
    then show ?case using l'(4) below(1) [of j] by (cases "j = i") simp_all
  next
    case (4 j k)
    then show ?case using l'(1) below(1) [of j] below(1) [of k] fencedD(4) [OF assms(1), of j k]
      by (cases "j = i"; cases "k = i") simp_all
  qed
qed

lemma fenced_kept:
  assumes "fenced (ns, b)" "kept_state (ns i) l'" "lease_of b' = lease_of b \<or> fst (lease_of b') = fst (lease_of b) + 1"
    "fst (lease_of b) + 1 \<noteq> 0"
  shows "fenced (ns(i := l'), b')"
proof -
  have same: "leNodeID ((ns(i := l')) j) = leNodeID (ns j)" "leEpoch ((ns(i := l')) j) = leEpoch (ns j)"
    "leKnownEpoch ((ns(i := l')) j) = leKnownEpoch (ns j)" "leIsLeader ((ns(i := l')) j) \<Longrightarrow> leIsLeader (ns j)" for j
    using assms(2) by (auto simp: kept_state_def split: if_splits)
  note below = below_next [OF assms(1,4)]
  show ?thesis
  proof (rule fencedI, goal_cases)
    case (1 j)
    then show ?case using same(1) [of j] fencedD(1) [OF assms(1), of j] by simp
  next
    case (2 j)
    have "current (fst (lease_of b')) (ns j)" using assms(3) fencedD(2) [OF assms(1), of j] below(2) [of j] by auto
    then show ?case unfolding current_def same .
  next
    case (3 j)
    then have "leIsLeader (ns j)" "leEpoch (ns j) \<noteq> 0" "leEpoch (ns j) = fst (lease_of b')" using same(2,4) [of j] by simp_all
    then show ?case using assms(3) below(1) [of j] fencedD(3) [OF assms(1), of j] by metis
  next
    case (4 j k)
    then show ?case using same(2,4) [of j] same(2,4) [of k] fencedD(4) [OF assms(1), of j k] by metis
  qed
qed

lemma reach_fenced:
  assumes "cluster_reach b0 n c" "unat (fst (lease_of b0)) + n < 2 ^ 64"
  shows "fenced c \<and> unat (fst (lease_of (snd c))) \<le> unat (fst (lease_of b0)) + n"
  using assms
proof (induction rule: cluster_reach.induct)
  case (start ns b0)
  then show ?case by (auto simp: fresh_nodes_def fenced_def current_def)
next
  case (ticked b0 n ns b i env l' b')
  let ?e = "fst (lease_of b)"
  from ticked have f: "fenced (ns, b)" and e: "unat ?e \<le> unat (fst (lease_of b0)) + n" by auto
  have "unat ?e + 1 < 2 ^ 64" using e ticked.prems by simp
  then have nz: "?e + 1 \<noteq> 0" 
    by (simp add: word_unat_eq_iff unat_word_ariths)
  have nid: "leNodeID (ns i) = i" "current ?e (ns i)" using f by (simp_all add: fenced_def)
  have val: "valid_node (leNodeID (ns i))" using ticked.hyps(2) nid(1) by simp
  from tick_outcome [OF ticked.hyps(3) val nid(2) nz ticked.hyps(4)]
  consider "took_lease (?e + 1) (ns i) l' b'"
    | "kept_state (ns i) l'" "lease_of b' = lease_of b \<or> fst (lease_of b') = ?e + 1" by force
  then have "fenced (ns(i := l'), b') \<and> (fst (lease_of b') = ?e \<or> fst (lease_of b') = ?e + 1)"
  proof cases
    case 1
    then show ?thesis using fenced_took [OF f 1 nz] by (simp add: took_lease_def)
  next
    case 2
    then show ?thesis using fenced_kept [OF f 2 nz] by auto
  qed
  then show ?case using e epoch_succ(1) [OF nz] by auto
qed

lemma stale_tick:
  assumes "leRole l \<in> {NodeRoleFollower, NodeRoleAuto}" "\<not> leIsLeader l" "heartbeat_stale env l b"
    and "reads_ok env" "lxLease env = Stored" "valid_node (leNodeID l)"
    and "current (fst (lease_of b)) l" "fst (lease_of b) + 1 \<noteq> 0"
  obtains c where "tick env l b = (l\<lparr>leIsLeader := True, leEpoch := fst (lease_of b) + 1, leKnownEpoch := fst (lease_of b) + 1\<rparr>, c)"
    "lease_of c = (fst (lease_of b) + 1, leNodeID l)" "bkTs c = bkTs b"
proof -
  let ?e = "fst (lease_of b)"
  obtain ok c where cas: "casLease env (?e + 1) (leNodeID l) b = (ok, c)" by force
  have n: "ok" "lease_of c = (?e + 1, leNodeID l)" "bkTs c = bkTs b"
    using casLease_next [OF assms(4,6) cas] assms(5) by (simp_all add: stores_def)
  have "\<not> ?e + 1 \<le> leKnownEpoch l"
    using assms(7) epoch_succ(2) [OF assms(8)] unfolding current_def by (meson leD le_less_trans)
  then have "checkLeader env l b = (l\<lparr>leIsLeader := True, leEpoch := ?e + 1, leKnownEpoch := ?e + 1\<rparr>, c)"
    using assms(2,3,4) cas n(1) by (simp add: checkLeader_def promote_def Let_def reads_ok_def readLease_sel)
  then have "tick env l b = (l\<lparr>leIsLeader := True, leEpoch := ?e + 1, leKnownEpoch := ?e + 1\<rparr>, c)"
    using assms(1,4) n by (auto simp: tick_def watch_def readLease_sel reads_ok_def Let_def)
  then show thesis using n that by blast
qed

section \<open>Instances\<close>

definition calm_leader :: leader_env where
  "calm_leader = \<lparr>lxDown = (\<lambda>_. False), lxLease = Stored, lxTs = Stored, lxLeaseNow = 50, lxNow = 50\<rparr>"

definition all_auto :: "string \<Rightarrow> LeaderElector" where
  "all_auto i = \<lparr>leNodeID = i, leRole = NodeRoleAuto, leFailover = 15 * Second, leIsLeader = False, leEpoch = 0, leKnownEpoch = 0\<rparr>"

definition empty_bucket :: bucket where
  "empty_bucket = \<lparr>bkLease = None, bkTs = None\<rparr>"

text \<open>Node a ticks, then node b.\<close>

definition after_a :: "LeaderElector \<times> bucket" where
  "after_a = tick calm_leader (all_auto ''a'') empty_bucket"

definition after_b :: "LeaderElector \<times> bucket" where
  "after_b = tick calm_leader (all_auto ''b'') (snd after_a)"

definition a_and_b :: "string \<Rightarrow> LeaderElector" where
  "a_and_b = all_auto(''a'' := fst after_a, ''b'' := fst after_b)"

lemma calm_leader_ok [simp]: "reads_ok calm_leader"
  by (simp add: reads_ok_def calm_leader_def)

lemma ab_reach: "cluster_reach empty_bucket 2 (a_and_b, snd after_b)"
proof -
  have v: "valid_node ''a''" "valid_node ''b''" by (simp_all add: valid_node_def is_space_def)
  have "cluster_reach empty_bucket 0 (all_auto, empty_bucket)"
    by (rule start) (simp add: fresh_nodes_def all_auto_def)
  from ticked [OF this v(1) calm_leader_ok, of "fst after_a" "snd after_a"]
  have "cluster_reach empty_bucket (Suc 0) (all_auto(''a'' := fst after_a), snd after_a)" by (simp add: after_a_def)
  from ticked [OF this v(2) calm_leader_ok, of "fst after_b" "snd after_b"]
  show ?thesis by (simp add: after_b_def a_and_b_def numeral_2_eq_2)
qed

lemma sample_nodes: "valid_node ''a''" "valid_node ''b''" "lxLease calm_leader = Stored"
  by (simp_all add: valid_node_def is_space_def calm_leader_def)

lemma auto_tick:
  assumes "valid_node i" "bkTs b = None" "fst (lease_of b) = e" "e + 1 \<noteq> 0"
  shows "leIsLeader (fst (tick calm_leader (all_auto i) b))" "leEpoch (fst (tick calm_leader (all_auto i) b)) = e + 1"
    "bkTs (snd (tick calm_leader (all_auto i) b)) = None" "lease_of (snd (tick calm_leader (all_auto i) b)) = (e + 1, i)"
proof -
  have "heartbeat_stale calm_leader (all_auto i) b" using assms(2) by (simp add: heartbeat_stale_def)
  then obtain c where "tick calm_leader (all_auto i) b = ((all_auto i)\<lparr>leIsLeader := True, leEpoch := e + 1, leKnownEpoch := e + 1\<rparr>, c)"
    "lease_of c = (e + 1, i)" "bkTs c = None"
    using stale_tick [of "all_auto i" calm_leader b] assms sample_nodes(3) by (auto simp: all_auto_def current_def)
  then show "leIsLeader (fst (tick calm_leader (all_auto i) b))" "leEpoch (fst (tick calm_leader (all_auto i) b)) = e + 1"
    "bkTs (snd (tick calm_leader (all_auto i) b)) = None" "lease_of (snd (tick calm_leader (all_auto i) b)) = (e + 1, i)" by simp_all
qed

lemma empty_lease: "lease_of empty_bucket = (0, [])" "bkTs empty_bucket = None"
  by (simp_all add: lease_of_def readLease_def no_lease_def empty_bucket_def)

lemma after_a_facts: "leIsLeader (fst after_a)" "leEpoch (fst after_a) = 1" "bkTs (snd after_a) = None" "lease_of (snd after_a) = (1, ''a'')"
  using auto_tick [OF sample_nodes(1) empty_lease(2), of 0] empty_lease(1) by (simp_all add: after_a_def)

lemma after_b_facts: "leIsLeader (fst after_b)" "leEpoch (fst after_b) = 2"
  using auto_tick [OF sample_nodes(2) after_a_facts(3), of 1] after_a_facts(4) by (simp_all add: after_b_def)

section \<open>Claims\<close>



text \<open>
  The compare-and-swap does not exclude.  When two nodes pass the epoch check for the same next
  epoch before either uploads, and the uploads and confirming reads of the first precede those of
  the second, both confirm: both hold the same epoch, and the lease names the second.
\<close>

theorem cas_split_brain:
  assumes "cas_check e1 next b" "cas_check e2 next b" "valid_node x" "valid_node y"
    and "lxLease e1 = Stored" "lxLease e2 = Stored" "\<not> lxDown e1 CasConfirm" "\<not> lxDown e2 CasConfirm"
  shows "let b1 = cas_upload e1 next x b; b2 = cas_upload e2 next y b1
    in cas_confirm e1 next x b1 \<and> cas_confirm e2 next y b2 \<and> lease_of b2 = (next, y)"
  using assms(3-) by (simp add: Let_def cas_confirm_iff cas_upload_lease stores_def)

theorem cas_split_brain_witness:
  "cas_check calm_leader 1 empty_bucket \<and>
    (let b1 = cas_upload calm_leader 1 ''a'' empty_bucket; b2 = cas_upload calm_leader 1 ''b'' b1
     in cas_confirm calm_leader 1 ''a'' b1 \<and> cas_confirm calm_leader 1 ''b'' b2 \<and> lease_of b2 = (1, ''b''))"
proof -
  have "cas_check calm_leader 1 empty_bucket" by (simp add: cas_check_def readLease_def no_lease_def empty_bucket_def)
  then show ?thesis
    using cas_split_brain [of calm_leader 1 empty_bucket calm_leader "''a''" "''b''"] sample_nodes by (simp add: calm_leader_def)
qed

text \<open>
  A failed read rolls the epoch back.  When the heartbeat object and the first two reads of the
  lease cannot be downloaded, a node that has not led yet takes the lease with epoch 1, whatever
  epoch the lease has.
\<close>

theorem failed_read_rolls_back:
  assumes "leRole l \<in> {NodeRoleFollower, NodeRoleAuto}" "\<not> leIsLeader l" "leKnownEpoch l = 0" "valid_node (leNodeID l)"
    and "lxDown env TsRead" "lxDown env PromoteRead" "lxDown env CasRead" "\<not> lxDown env CasConfirm" "\<not> lxDown env WatchRead"
    and "lxLease env = Stored"
  shows "case tick env l b of (l', b') \<Rightarrow> leIsLeader l' \<and> leEpoch l' = 1 \<and> lease_of b' = (1, leNodeID l)"
proof -
  let ?b' = "cas_upload env 1 (leNodeID l) b"
  have l: "lease_of ?b' = (1, leNodeID l)" using assms(4,10) by (simp add: cas_upload_lease stores_def)
  have "cas_check env 1 b" using assms(7) by (simp add: cas_check_def readLease_def no_lease_def)
  then have cas: "casLease env 1 (leNodeID l) b = (True, ?b')"
    using l assms(8,10) by (simp add: casLease_def Let_def cas_confirm_iff upload_err_def)
  have "checkLeader env l b = (l\<lparr>leIsLeader := True, leEpoch := 1, leKnownEpoch := 1\<rparr>, ?b')"
    using assms(2,3,5,6) cas by (simp add: checkLeader_def heartbeat_stale_def promote_def Let_def readLease_def no_lease_def)
  then show ?thesis using assms(1,9) l by (auto simp: tick_def watch_def readLease_sel Let_def)
qed

theorem failed_read_rolls_back_witness:
  "let b = put_lease 7 ''a'' 40 empty_bucket;
       env = calm_leader\<lparr>lxDown := (\<lambda>d. d \<in> {TsRead, PromoteRead, CasRead})\<rparr>
   in fst (lease_of b) = 7 \<and> (case tick env (all_auto ''b'') b of (l', b') \<Rightarrow> leIsLeader l' \<and> leEpoch l' = 1 \<and> lease_of b' = (1, ''b''))"
  using failed_read_rolls_back [of "all_auto ''b''" "calm_leader\<lparr>lxDown := (\<lambda>d. d \<in> {TsRead, PromoteRead, CasRead})\<rparr>"
      "put_lease 7 ''a'' 40 empty_bucket"] breg.read_write [of "''a''" 7 40 empty_bucket] sample_nodes
  by (simp add: all_auto_def calm_leader_def)

text \<open>
  A promoted leader sends no heartbeat.  While the heartbeat object is stale, every fault-free tick
  of a follower or automatic node that is not the leader takes the lease, also from a node that
  took it in the tick before, and leaves the heartbeat object as it was.
\<close>

theorem stale_heartbeat_takes_lease:
  assumes "leRole l \<in> {NodeRoleFollower, NodeRoleAuto}" "\<not> leIsLeader l" "heartbeat_stale env l b"
    and "reads_ok env" "lxLease env = Stored" "valid_node (leNodeID l)"
    and "current (fst (lease_of b)) l" "fst (lease_of b) + 1 \<noteq> 0"
  shows "case tick env l b of (l', b') \<Rightarrow>
    leIsLeader l' \<and> lease_of b' = (fst (lease_of b) + 1, leNodeID l) \<and> bkTs b' = bkTs b"
  by (rule stale_tick [OF assms]) simp

theorem stale_heartbeat_takes_lease_witness:
  "leIsLeader (fst after_a) \<and> (case tick calm_leader (all_auto ''b'') (snd after_a) of (l', b') \<Rightarrow>
     leIsLeader l' \<and> lease_of b' = (fst (lease_of (snd after_a)) + 1, ''b'') \<and> bkTs b' = bkTs (snd after_a))"
  using stale_heartbeat_takes_lease [of "all_auto ''b''" calm_leader "snd after_a"] after_a_facts sample_nodes
  by (simp add: all_auto_def heartbeat_stale_def current_def)

end
