(* ===== verification/Audit_Log.thy ===== *)
theory Audit_Log
  imports Trace_Prelude
begin

text \<open>
  \<open>internal/audit/logger.go\<close>: the append-only audit log whose entries are chained by a keyed digest.
  The table \<open>audit_log\<close> is a list of rows in no particular order; a query sorts by the primary
  key.  \<open>mac\<close> is the hexadecimal HMAC-SHA256 under the logger's key; the clock and the failures of
  the database are inputs.
\<close>

section \<open>Entries\<close>

record Entry =
  enID :: int
  enTimestamp :: string
  enActorID :: string
  enActorEmail :: string
  enAction :: string
  enResourceType :: string
  enResourceID :: string
  enDetails :: string
  enPreviousHash :: string
  enSignature :: string

type_synonym mac = "string \<Rightarrow> string"

record audit_log =
  alRows :: "Entry list"
  alNextID :: int

definition fresh_log :: audit_log where
  "fresh_log = \<lparr>alRows = [], alNextID = 1\<rparr>"

definition sigInput :: "Entry \<Rightarrow> string" where
  "sigInput e = Join [enPreviousHash e, enTimestamp e, enActorID e, enActorEmail e, enAction e,
     enResourceType e, enResourceID e, enDetails e] ''|''"

section \<open>Writing\<close>

definition getLatestHash :: "string option \<Rightarrow> audit_log \<Rightarrow> string result" where
  "getLatestHash flt db =
     (case flt of Some e \<Rightarrow> Inl e
      | None \<Rightarrow> Inr (case rev (sort_key enID (alRows db)) of [] \<Rightarrow> [] | e # _ \<Rightarrow> enSignature e))"

definition audit_Write :: "mac \<Rightarrow> string option \<Rightarrow> string option \<Rightarrow> string \<Rightarrow> Entry \<Rightarrow> audit_log \<Rightarrow>
    string option \<times> audit_log" where
  "audit_Write mac qflt iflt now entry db =
     (let entry = entry\<lparr>enTimestamp := now\<rparr> in
      case getLatestHash qflt db of
        Inl e \<Rightarrow> (Some (''get prev hash: '' @ e), db)
      | Inr prevHash \<Rightarrow>
        let entry = entry\<lparr>enPreviousHash := prevHash\<rparr>;
            entry = entry\<lparr>enSignature := mac (sigInput entry)\<rparr>
        in case iflt of Some e \<Rightarrow> (Some e, db)
           | None \<Rightarrow> (None, db\<lparr>alRows := alRows db @ [entry\<lparr>enID := alNextID db\<rparr>], alNextID := alNextID db + 1\<rparr>))"

section \<open>Reading\<close>

record QueryFilter =
  qfResourceType :: string
  qfResourceID :: string
  qfActorID :: string
  qfAction :: string
  qfSince :: string
  qfUntil :: string
  qfLimit :: int
  qfCursor :: int

definition audit_where :: "QueryFilter \<Rightarrow> Entry \<Rightarrow> bool" where
  "audit_where f e \<longleftrightarrow>
     (qfResourceType f = [] \<or> enResourceType e = qfResourceType f) \<and>
     (qfResourceID f = [] \<or> enResourceID e = qfResourceID f) \<and>
     (qfActorID f = [] \<or> enActorID e = qfActorID f) \<and>
     (qfAction f = [] \<or> enAction e = qfAction f) \<and>
     (qfSince f = [] \<or> enTimestamp e \<ge> qfSince f) \<and>
     (qfUntil f = [] \<or> enTimestamp e \<le> qfUntil f) \<and>
     (qfCursor f \<le> 0 \<or> enID e < qfCursor f)"

definition audit_limit :: "QueryFilter \<Rightarrow> nat" where
  "audit_limit f = (if 0 < qfLimit f \<and> qfLimit f \<le> 1000 then nat (qfLimit f) else 100)"

definition audit_Query :: "string option \<Rightarrow> QueryFilter \<Rightarrow> audit_log \<Rightarrow> Entry list result" where
  "audit_Query flt f db =
     (case flt of Some e \<Rightarrow> Inl e
      | None \<Rightarrow> Inr (take (audit_limit f) (rev (sort_key enID (filter (audit_where f) (alRows db))))))"

section \<open>Verifying\<close>

definition entry_errors :: "mac \<Rightarrow> string \<Rightarrow> Entry \<Rightarrow> string list" where
  "entry_errors mac prevHash e =
     (if enPreviousHash e \<noteq> prevHash
      then [''chain broken at entry '' @ show_int (enID e) @ '': expected prev_hash='' @ prevHash @ '', got '' @ enPreviousHash e] else []) @
     (let expectedSig = mac (sigInput e) in
      if enSignature e \<noteq> expectedSig
      then [''signature mismatch at entry '' @ show_int (enID e) @ '': expected '' @ expectedSig @ '', got '' @ enSignature e] else [])"

text \<open>The rows of a page; the running hash is the stored signature of the last row.\<close>

fun check_rows :: "mac \<Rightarrow> string \<Rightarrow> Entry list \<Rightarrow> string list \<times> string" where
  "check_rows mac prevHash [] = ([], prevHash)"
| "check_rows mac prevHash (e # es) =
     (let (errs, h) = check_rows mac (enSignature e) es in (entry_errors mac prevHash e @ errs, h))"

definition page_of :: "nat \<Rightarrow> int \<Rightarrow> audit_log \<Rightarrow> Entry list" where
  "page_of n cursor db = take n (sort_key enID (filter (\<lambda>e. enID e > cursor) (alRows db)))"

lemma page_last:
  assumes "page_of n cursor db \<noteq> []"
  shows "last (page_of n cursor db) \<in> set (alRows db)" "enID (last (page_of n cursor db)) > cursor"
proof -
  have "last (page_of n cursor db) \<in> set (page_of n cursor db)" using assms by simp
  then have "last (page_of n cursor db) \<in> {e \<in> set (alRows db). enID e > cursor}"
    unfolding page_of_def by (auto dest: in_set_takeD)
  then show "last (page_of n cursor db) \<in> set (alRows db)" "enID (last (page_of n cursor db)) > cursor" by auto
qed

text \<open>The page loop: \<open>flt k\<close> is the failure of the query for page \<open>k\<close>.  The page size is positive
  wherever the loop is called.\<close>

function verify_pages :: "mac \<Rightarrow> (nat \<Rightarrow> string option) \<Rightarrow> nat \<Rightarrow> audit_log \<Rightarrow> nat \<Rightarrow> int \<Rightarrow> string \<Rightarrow> string list \<Rightarrow>
    bool \<times> string list" where
  "verify_pages mac flt n db k cursor prevHash errors =
     (case flt k of Some e \<Rightarrow> (False, [''query: '' @ e])
      | None \<Rightarrow>
        (let page = page_of n cursor db; (errs, h) = check_rows mac prevHash page; errors' = errors @ errs in
         if length page < n \<or> n = 0 then (errors' = [], errors')
         else verify_pages mac flt n db (Suc k) (enID (last page)) h errors'))"
  by pat_completeness auto
termination
proof (relation "measure (\<lambda>(mac, flt, n, db, k, cursor, p, es). length (filter (\<lambda>e. enID e > cursor) (alRows db)))", goal_cases)
  case (2 mac flt n db k cursor prevHash errors page x errs h errors')
  let ?l = "last (page_of n cursor db)"
  have "page_of n cursor db \<noteq> []" using 2 by auto
  note l = page_last [OF this]
  have "filter (\<lambda>e. enID e > enID ?l) (alRows db) = filter (\<lambda>e. enID e > enID ?l) (filter (\<lambda>e. enID e > cursor) (alRows db))"
    using l(2) by (auto intro!: filter_cong)
  moreover have "\<dots> \<noteq> filter (\<lambda>e. enID e > cursor) (alRows db)"
    using l by (metis (mono_tags, lifting) filter_id_conv less_irrefl mem_Collect_eq set_filter)
  ultimately have "length (filter (\<lambda>e. enID e > enID ?l) (alRows db)) < length (filter (\<lambda>e. enID e > cursor) (alRows db))"
    by (metis filter_id_conv length_filter_less)
  then show ?case using 2 by simp
qed simp

declare verify_pages.simps [simp del]

definition VerifyPaged :: "mac \<Rightarrow> (nat \<Rightarrow> string option) \<Rightarrow> int \<Rightarrow> audit_log \<Rightarrow> bool \<times> string list" where
  "VerifyPaged mac flt pageSize db =
     (let n = (if pageSize \<le> 0 \<or> pageSize > 10000 then 1000 else nat pageSize)
      in verify_pages mac flt n db 0 0 [] [])"

definition Verify :: "mac \<Rightarrow> (nat \<Rightarrow> string option) \<Rightarrow> audit_log \<Rightarrow> bool \<times> string list" where
  "Verify mac flt db = VerifyPaged mac flt 1000 db"

section \<open>Paging does not matter\<close>

definition log_keys :: "audit_log \<Rightarrow> bool" where
  "log_keys db \<longleftrightarrow> distinct (map enID (alRows db)) \<and> (\<forall>e\<in>set (alRows db). 0 < enID e \<and> enID e < alNextID db)"

definition ordered_rows :: "audit_log \<Rightarrow> Entry list" where
  "ordered_rows db = sort_key enID (alRows db)"

lemma check_rows_append:
  "check_rows mac p (xs @ ys) =
     (let (e1, h) = check_rows mac p xs; (e2, h') = check_rows mac h ys in (e1 @ e2, h'))"
  by (induction xs arbitrary: p) (auto simp: Let_def split: prod.splits)

lemma sort_filter_above:
  "sort_key enID (filter (\<lambda>e. enID e > c) xs) = filter (\<lambda>e. enID e > c) (sort_key enID xs)"
  by (simp add: filter_sort)

lemma strict_drop:
  assumes "sorted_wrt (\<lambda>a b. enID a < enID b) xs" "0 < n" "n \<le> length xs"
  shows "filter (\<lambda>e. enID e > enID (last (take n xs))) xs = drop n xs"
proof -
  have split: "xs = take n xs @ drop n xs" by simp
  have sw: "\<forall>a\<in>set (take n xs). \<forall>b\<in>set (drop n xs). enID a < enID b"
    using assms(1) split by (metis sorted_wrt_append)
  have last: "last (take n xs) \<in> set (take n xs)" using assms(2,3) by (intro last_in_set) auto
  have "enID e \<le> enID (last (take n xs))" if "e \<in> set (take n xs)" for e
  proof -
    have ne: "take n xs \<noteq> []" using assms(2,3) by auto
    have "sorted_wrt (\<lambda>a b. enID a < enID b) (butlast (take n xs) @ [last (take n xs)])"
      using assms(1) ne by (simp add: sorted_wrt_take)
    then have "\<forall>a\<in>set (butlast (take n xs)). enID a < enID (last (take n xs))" by (simp add: sorted_wrt_append)
    moreover have "e \<in> insert (last (take n xs)) (set (butlast (take n xs)))"
      using that ne by (metis append_butlast_last_id list.set(1) list.simps(15) set_append Un_insert_right sup_bot.right_neutral)
    ultimately show ?thesis by fastforce
  qed
  then have "filter (\<lambda>e. enID e > enID (last (take n xs))) (take n xs) = []"
    unfolding filter_empty_conv by (meson leD)
  moreover have "filter (\<lambda>e. enID e > enID (last (take n xs))) (drop n xs) = drop n xs"
    using sw last by (intro filter_True) blast
  ultimately show ?thesis by (metis append_Nil filter_append split)
qed

lemma ordered_strict:
  assumes "distinct (map enID (alRows db))"
  shows "sorted_wrt (\<lambda>a b. enID a < enID b) (ordered_rows db)"
proof -
  have "sorted (map enID (ordered_rows db))" "distinct (map enID (ordered_rows db))"
    using assms unfolding ordered_rows_def by (simp_all add: distinct_map)
  then show ?thesis by (metis sorted_wrt_map strict_sorted_iff)
qed

lemma page_of_ordered: "page_of n c db = take n (filter (\<lambda>e. enID e > c) (ordered_rows db))"
  by (simp add: page_of_def ordered_rows_def sort_filter_above)

lemma verify_pages_scan:
  assumes "distinct (map enID (alRows db))" "0 < n"
  shows "verify_pages mac (\<lambda>_. None) n db k c p errs =
    (let es = errs @ fst (check_rows mac p (filter (\<lambda>e. enID e > c) (ordered_rows db))) in (es = [], es))"
proof (induction "length (filter (\<lambda>e. enID e > c) (ordered_rows db))" arbitrary: k c p errs rule: less_induct)
  case less
  let ?f = "\<lambda>c. filter (\<lambda>e. enID e > c) (ordered_rows db)"
  obtain es h where chk: "check_rows mac p (take n (?f c)) = (es, h)" by force
  show ?case
  proof (cases "length (?f c) < n")
    case True
    then show ?thesis using chk by (simp add: verify_pages.simps [of mac _ n] page_of_ordered Let_def)
  next
    case False
    let ?c' = "enID (last (take n (?f c)))"
    have ne: "take n (?f c) \<noteq> []" using False assms(2) by auto
    have gt: "c < ?c'" using page_last(2) [of n c db] ne by (simp add: page_of_ordered)
    have "sorted_wrt (\<lambda>a b. enID a < enID b) (?f c)"
      using sorted_wrt_filter [OF ordered_strict [OF assms(1)]] .
    from strict_drop [OF this assms(2)] False have "filter (\<lambda>e. enID e > ?c') (?f c) = drop n (?f c)" by simp
    moreover have "?f ?c' = filter (\<lambda>e. enID e > ?c') (?f c)" using gt by (auto intro!: filter_cong)
    ultimately have rest: "?f ?c' = drop n (?f c)" by simp
    then have "length (?f ?c') < length (?f c)" using False assms(2) by simp
    note IH = less [OF this, of "Suc k" h "errs @ es"]
    have "fst (check_rows mac p (?f c)) = es @ fst (check_rows mac h (drop n (?f c)))"
      using check_rows_append [of mac p "take n (?f c)" "drop n (?f c)"] chk by (simp add: Let_def case_prod_beta)
    then show ?thesis
      using IH chk False assms(2) rest by (simp add: verify_pages.simps [of mac _ n] page_of_ordered Let_def)
  qed
qed

text \<open>One scan over all rows in the order of their identifiers.\<close>

definition chain_errors :: "mac \<Rightarrow> audit_log \<Rightarrow> string list" where
  "chain_errors mac db = fst (check_rows mac [] (ordered_rows db))"

lemma VerifyPaged_scan:
  assumes "log_keys db"
  shows "VerifyPaged mac (\<lambda>_. None) pageSize db = (chain_errors mac db = [], chain_errors mac db)"
proof -
  have "filter (\<lambda>e. enID e > 0) (ordered_rows db) = ordered_rows db"
    using assms by (auto simp: log_keys_def ordered_rows_def intro!: filter_True)
  then show ?thesis using assms verify_pages_scan [of db _ mac 0 0 "[]" "[]"]
    by (simp add: VerifyPaged_def chain_errors_def log_keys_def Let_def)
qed

section \<open>Chains\<close>

text \<open>A list of entries that passes: every entry names the signature before it and carries its own.\<close>

fun chain :: "mac \<Rightarrow> string \<Rightarrow> Entry list \<Rightarrow> bool" where
  "chain mac p [] = True"
| "chain mac p (e # es) = (enPreviousHash e = p \<and> enSignature e = mac (sigInput e) \<and> chain mac (enSignature e) es)"

lemma check_rows_chain: "fst (check_rows mac p es) = [] \<longleftrightarrow> chain mac p es"
  by (induction mac p es rule: chain.induct) (auto simp: entry_errors_def Let_def split: prod.splits)

lemma chain_append: "chain mac p (xs @ ys) \<longleftrightarrow> chain mac p xs \<and> chain mac (if xs = [] then p else enSignature (last xs)) ys"
  by (induction xs arbitrary: p) auto

lemma Verify_chain:
  assumes "log_keys db"
  shows "fst (VerifyPaged mac (\<lambda>_. None) pageSize db) \<longleftrightarrow> chain mac [] (ordered_rows db)"
  using VerifyPaged_scan [OF assms] by (simp add: chain_errors_def check_rows_chain)

section \<open>Written logs\<close>

lemma ordered_snoc:
  assumes "log_keys db"
  shows "ordered_rows (db\<lparr>alRows := alRows db @ [e\<lparr>enID := alNextID db\<rparr>], alNextID := x\<rparr>) = ordered_rows db @ [e\<lparr>enID := alNextID db\<rparr>]"
proof -
  let ?e = "e\<lparr>enID := alNextID db\<rparr>"
  have lt: "enID a < alNextID db" if "a \<in> set (alRows db)" for a using assms that by (simp add: log_keys_def)
  have "sort_key enID (alRows db @ [?e]) = sort_key enID (alRows db) @ [?e]"
  proof (rule sort_key_inj_key_eq)
    show "mset (alRows db @ [?e]) = mset (sort_key enID (alRows db) @ [?e])" by simp
    have "alNextID db \<notin> enID ` set (alRows db)" using lt by (metis imageE less_irrefl)
    then have "distinct (map enID (alRows db @ [?e]))" using assms by (simp add: log_keys_def)
    then show "inj_on enID (set (alRows db @ [?e]))" unfolding distinct_map by blast
    show "sorted (map enID (sort_key enID (alRows db) @ [?e]))" using lt by (auto simp: sorted_append less_imp_le)
  qed
  then show ?thesis by (simp add: ordered_rows_def)
qed

lemma Write_ok:
  assumes "audit_Write mac qflt iflt now entry db = (None, db')"
  obtains e where "db' = db\<lparr>alRows := alRows db @ [e\<lparr>enID := alNextID db\<rparr>], alNextID := alNextID db + 1\<rparr>"
    "enPreviousHash e = (if ordered_rows db = [] then [] else enSignature (last (ordered_rows db)))" "enSignature e = mac (sigInput e)"
proof -
  let ?p = "if ordered_rows db = [] then [] else enSignature (last (ordered_rows db))"
  let ?e1 = "entry\<lparr>enTimestamp := now, enPreviousHash := ?p\<rparr>"
  let ?e = "?e1\<lparr>enSignature := mac (sigInput ?e1)\<rparr>"
  have "(case rev (ordered_rows db) of [] \<Rightarrow> [] | e # _ \<Rightarrow> enSignature e) = ?p"
    by (cases "ordered_rows db" rule: rev_cases) simp_all
  then have h: "getLatestHash None db = Inr ?p" by (simp add: getLatestHash_def ordered_rows_def)
  have "qflt = None" "iflt = None"
    using assms by (auto simp: audit_Write_def getLatestHash_def Let_def split: option.splits)
  then have "db' = db\<lparr>alRows := alRows db @ [?e\<lparr>enID := alNextID db\<rparr>], alNextID := alNextID db + 1\<rparr>"
    using assms h by (simp add: audit_Write_def Let_def)
  moreover have "enSignature ?e = mac (sigInput ?e)" by (simp add: sigInput_def)
  ultimately show thesis using that [of ?e] by simp
qed

lemma Write_log_keys [inv_intros]:
  assumes "log_keys db" "alNextID db > 0"
  shows "log_keys (snd (audit_Write mac qflt iflt now entry db)) \<and> alNextID (snd (audit_Write mac qflt iflt now entry db)) > 0"
proof -
  have "enID a \<noteq> alNextID db" if "a \<in> set (alRows db)" for a using assms(1) that by (auto simp: log_keys_def)
  moreover have "enID a < alNextID db + 1" if "a \<in> set (alRows db)" for a using assms(1) that by (fastforce simp: log_keys_def)
  ultimately show ?thesis
    using assms by (auto simp: audit_Write_def log_keys_def Let_def split: option.splits sum.splits)
qed

lemma Write_chain:
  assumes "log_keys db" "chain mac [] (ordered_rows db)"
  shows "chain mac [] (ordered_rows (snd (audit_Write mac qflt iflt now entry db)))"
proof (cases "fst (audit_Write mac qflt iflt now entry db)")
  case None
  then have "audit_Write mac qflt iflt now entry db = (None, snd (audit_Write mac qflt iflt now entry db))"
    by (simp add: prod_eq_iff)
  from Write_ok [OF this] obtain e where
    e: "snd (audit_Write mac qflt iflt now entry db) = db\<lparr>alRows := alRows db @ [e\<lparr>enID := alNextID db\<rparr>], alNextID := alNextID db + 1\<rparr>"
      "enPreviousHash e = (if ordered_rows db = [] then [] else enSignature (last (ordered_rows db)))" "enSignature e = mac (sigInput e)" .
  have "sigInput (e\<lparr>enID := alNextID db\<rparr>) = sigInput e" by (simp add: sigInput_def)
  then show ?thesis using e assms ordered_snoc [OF assms(1), of "alNextID db + 1" e] by (simp add: chain_append)
next
  case (Some err)
  then show ?thesis using assms(2) by (auto simp: audit_Write_def Let_def split: option.splits sum.splits)
qed

text \<open>Logs that only \<open>audit_Write\<close> made, from an empty table, with any failures.\<close>

inductive written :: "mac \<Rightarrow> audit_log \<Rightarrow> bool" for mac where
  fresh: "written mac fresh_log"
| wrote: "written mac db \<Longrightarrow> written mac (snd (audit_Write mac qflt iflt now entry db))"

lemma written_inv: "written mac db \<Longrightarrow> log_keys db \<and> alNextID db > 0 \<and> chain mac [] (ordered_rows db)"
proof (induction rule: written.induct)
  case fresh
  then show ?case by (simp add: fresh_log_def log_keys_def ordered_rows_def)
next
  case (wrote db qflt iflt now entry)
  then show ?case using Write_log_keys Write_chain by blast
qed

section \<open>What the signatures bind\<close>

text \<open>Two different signed inputs among given ones with the same digest.\<close>

definition collision_in :: "mac \<Rightarrow> string set \<Rightarrow> bool" where
  "collision_in mac S \<longleftrightarrow> (\<exists>x\<in>S. \<exists>y\<in>S. x \<noteq> y \<and> mac x = mac y)"

text \<open>Hexadecimal output: never empty and never a separator.\<close>

definition hex_mac :: "mac \<Rightarrow> bool" where
  "hex_mac mac \<longleftrightarrow> (\<forall>x. mac x \<noteq> [] \<and> CHR ''|'' \<notin> set (mac x))"

lemma sigInput_prev:
  assumes "sigInput a = sigInput b" "CHR ''|'' \<notin> set (enPreviousHash a)" "CHR ''|'' \<notin> set (enPreviousHash b)"
  shows "enPreviousHash a = enPreviousHash b"
proof -
  have "SplitN2 (CHR ''|'') (sigInput e) = (enPreviousHash e, Some (tl (drop (length (enPreviousHash e)) (sigInput e))))"
    if "CHR ''|'' \<notin> set (enPreviousHash e)" for e
    using SplitN2_append [OF that] by (simp add: sigInput_def)
  from this [OF assms(2)] this [OF assms(3)] assms(1) show ?thesis by simp
qed

lemma chain_prev:
  assumes "chain mac p es" "e \<in> set es" "hex_mac mac" "CHR ''|'' \<notin> set p"
  shows "CHR ''|'' \<notin> set (enPreviousHash e)"
  using assms
proof (induction mac p es rule: chain.induct)
  case (2 mac p a es)
  then show ?case by (auto simp: hex_mac_def)
qed simp

lemma chain_binding:
  assumes "hex_mac mac" "\<not> collision_in mac S" "sigInput ` set xs \<subseteq> S" "sigInput ` set ys \<subseteq> S" "chain mac [] xs" "chain mac [] ys"
    "xs = [] \<longleftrightarrow> ys = []" "xs \<noteq> [] \<Longrightarrow> enSignature (last xs) = enSignature (last ys)"
  shows "map sigInput xs = map sigInput ys"
  using assms(3-)
proof (induction xs arbitrary: ys rule: rev_induct)
  case (snoc x xs)
  then obtain ys' y where ys: "ys = ys' @ [y]" by (cases ys rule: rev_cases) auto
  have sig: "enSignature x = mac (sigInput x)" "enSignature y = mac (sigInput y)" "enSignature x = enSignature y"
    using snoc.prems ys by (auto simp: chain_append)
  moreover have "sigInput x \<in> S" "sigInput y \<in> S" using snoc.prems ys by auto
  ultimately have eq: "sigInput x = sigInput y" using assms(2) unfolding collision_in_def by metis
  have p: "enPreviousHash x = (if xs = [] then [] else enSignature (last xs))"
    "enPreviousHash y = (if ys' = [] then [] else enSignature (last ys'))"
    using snoc.prems ys by (auto simp: chain_append)
  have "CHR ''|'' \<notin> set (enPreviousHash x)" "CHR ''|'' \<notin> set (enPreviousHash y)"
    using chain_prev [OF snoc.prems(3) _ assms(1)] chain_prev [OF snoc.prems(4) _ assms(1)] ys by auto
  from sigInput_prev [OF eq this] have same: "enPreviousHash x = enPreviousHash y" .
  have cx: "chain mac [] xs" "chain mac [] ys'" using snoc.prems ys by (auto simp: chain_append)
  have ne: "enSignature (last zs) \<noteq> []" if "zs \<noteq> []" "chain mac [] zs" for zs
    using that assms(1) by (cases zs rule: rev_cases) (auto simp: chain_append hex_mac_def)
  have sub: "sigInput ` set xs \<subseteq> S" "sigInput ` set ys' \<subseteq> S" using snoc.prems ys by auto
  have "xs = [] \<longleftrightarrow> ys' = []" using same p ne [of xs] ne [of ys'] cx by (metis (full_types))
  moreover have "xs \<noteq> [] \<Longrightarrow> enSignature (last xs) = enSignature (last ys')" using same p calculation by (auto split: if_splits)
  ultimately show ?case using snoc.IH [OF sub cx] eq ys by simp
qed simp

text \<open>Editing rows without changing what is signed leaves the verdict as it was.\<close>

lemma chain_map:
  assumes "\<And>e. enPreviousHash (f e) = enPreviousHash e" "\<And>e. enSignature (f e) = enSignature e" "\<And>e. sigInput (f e) = sigInput e"
  shows "chain mac p (map f es) \<longleftrightarrow> chain mac p es"
  using assms by (induction mac p es rule: chain.induct) auto

lemma ordered_map:
  assumes "\<And>e. enID (f e) = enID e" "distinct (map enID (alRows db))"
  shows "ordered_rows (db\<lparr>alRows := map f (alRows db)\<rparr>) = map f (ordered_rows db)"
proof -
  have "map enID (map f (alRows db)) = map enID (alRows db)" using assms(1) by simp
  then have "inj_on enID (set (map f (alRows db)))" using assms(2) by (metis distinct_map)
  moreover have "mset (map f (alRows db)) = mset (map f (sort_key enID (alRows db)))" by simp
  moreover have "map enID (map f (sort_key enID (alRows db))) = map enID (sort_key enID (alRows db))" using assms(1) by simp
  then have "sorted (map enID (map f (sort_key enID (alRows db))))" by (metis sorted_sort_key)
  ultimately have "sort_key enID (map f (alRows db)) = map f (sort_key enID (alRows db))"
    by (metis sort_key_inj_key_eq)
  then show ?thesis by (simp add: ordered_rows_def)
qed

text \<open>Moving a separator: the part of the e-mail field before its first separator goes to the actor.\<close>

definition shift_actor :: "Entry \<Rightarrow> Entry" where
  "shift_actor e = (case SplitN2 (CHR ''|'') (enActorEmail e) of (_, None) \<Rightarrow> e
     | (l, Some r) \<Rightarrow> e\<lparr>enActorID := enActorID e @ ''|'' @ l, enActorEmail := r\<rparr>)"

lemma SplitN2_join: "SplitN2 c s = (l, Some r) \<Longrightarrow> s = l @ c # r"
  by (induction s arbitrary: l) (auto split: if_splits prod.splits)

lemma shift_actor_sel:
  "enID (shift_actor e) = enID e" "enPreviousHash (shift_actor e) = enPreviousHash e"
  "enSignature (shift_actor e) = enSignature e" "sigInput (shift_actor e) = sigInput e"
  using SplitN2_join [of "CHR ''|''" "enActorEmail e"]
  by (auto simp: shift_actor_def sigInput_def split: prod.splits option.splits)

lemma shift_verifies:
  assumes "log_keys db" "chain mac [] (ordered_rows db)"
  shows "log_keys (db\<lparr>alRows := map shift_actor (alRows db)\<rparr>)"
    "ordered_rows (db\<lparr>alRows := map shift_actor (alRows db)\<rparr>) = map shift_actor (ordered_rows db)"
    "fst (VerifyPaged mac (\<lambda>_. None) pageSize (db\<lparr>alRows := map shift_actor (alRows db)\<rparr>))"
proof -
  show k: "log_keys (db\<lparr>alRows := map shift_actor (alRows db)\<rparr>)"
    using assms(1) by (simp add: log_keys_def shift_actor_sel(1) comp_def)
  show o: "ordered_rows (db\<lparr>alRows := map shift_actor (alRows db)\<rparr>) = map shift_actor (ordered_rows db)"
    using ordered_map [of shift_actor db] shift_actor_sel(1) assms(1) by (simp add: log_keys_def)
  have "chain mac [] (map shift_actor (ordered_rows db))" using assms(2) chain_map [of shift_actor] shift_actor_sel by simp
  then show "fst (VerifyPaged mac (\<lambda>_. None) pageSize (db\<lparr>alRows := map shift_actor (alRows db)\<rparr>))"
    using Verify_chain [OF k] o by simp
qed

section \<open>Instances\<close>

text \<open>A digest that drops the separators, and a log of two entries.\<close>

definition plain_mac :: mac where
  "plain_mac x = ''s'' @ filter (\<lambda>c. c \<noteq> CHR ''|'') x"

definition sample_entry :: "string \<Rightarrow> string \<Rightarrow> Entry" where
  "sample_entry actor email = \<lparr>enID = 0, enTimestamp = [], enActorID = actor, enActorEmail = email, enAction = ''login'',
     enResourceType = ''user'', enResourceID = ''7'', enDetails = ''{}'', enPreviousHash = [], enSignature = []\<rparr>"

definition two_entries :: audit_log where
  "two_entries = snd (audit_Write plain_mac None None ''t2'' (sample_entry ''root'' ''x|y'')
     (snd (audit_Write plain_mac None None ''t1'' (sample_entry ''bob'' ''b@x'') fresh_log)))"

lemma plain_mac_hex: "hex_mac plain_mac"
  by (simp add: hex_mac_def plain_mac_def)

lemma two_entries_written: "written plain_mac two_entries"
  unfolding two_entries_def by (intro written.intros)

lemma two_entries_rows: "length (alRows two_entries) = 2"
  by code_simp

section \<open>Claims\<close>

text \<open>
  C23. Verification in pages is one scan.  Over a log whose identifiers are distinct and positive, the
  page loop ends for every page size and every key and reports exactly the errors of one pass
  over all rows in the order of their identifiers, in that order; the verdict is that there are none.
\<close>

theorem VerifyPaged_is_scan:
  assumes "log_keys db"
  shows "VerifyPaged mac (\<lambda>_. None) pageSize db =
    (fst (check_rows mac [] (sort_key enID (alRows db))) = [], fst (check_rows mac [] (sort_key enID (alRows db))))"
  using VerifyPaged_scan [OF assms] by (simp add: chain_errors_def ordered_rows_def)

theorem VerifyPaged_is_scan_witness:
  "VerifyPaged plain_mac (\<lambda>_. None) 1 two_entries =
    (fst (check_rows plain_mac [] (sort_key enID (alRows two_entries))) = [], fst (check_rows plain_mac [] (sort_key enID (alRows two_entries))))"
  using VerifyPaged_is_scan written_inv [OF two_entries_written] by blast

text \<open>
  Every log that only \<open>Write\<close> made, with any failures of the database on the way, verifies at every
  page size without an error.
\<close>

theorem written_log_verifies:
  assumes "written mac db"
  shows "VerifyPaged mac (\<lambda>_. None) pageSize db = (True, [])"
proof -
  note inv = written_inv [OF assms]
  then have "chain_errors mac db = []" by (simp add: chain_errors_def check_rows_chain)
  then show ?thesis using VerifyPaged_scan inv by simp
qed

theorem written_log_verifies_witness: "length (alRows two_entries) = 2 \<and> VerifyPaged plain_mac (\<lambda>_. None) 1 two_entries = (True, [])"
  using written_log_verifies [OF two_entries_written] two_entries_rows by simp



text \<open>
  Two edits go unnoticed.  A verifying log still verifies after its newest entries are deleted, and
  after the text before a separator in an e-mail field is moved into the actor field of that entry.
\<close>

theorem undetected_edits:
  assumes "log_keys db" "fst (VerifyPaged mac (\<lambda>_. None) pageSize db)"
  shows "fst (VerifyPaged mac (\<lambda>_. None) pageSize (db\<lparr>alRows := take k (ordered_rows db)\<rparr>)) \<and>
    fst (VerifyPaged mac (\<lambda>_. None) pageSize (db\<lparr>alRows := map shift_actor (alRows db)\<rparr>))"
proof
  have c: "chain mac [] (ordered_rows db)" using assms Verify_chain by blast
  have sorted: "sort_key enID (take k (ordered_rows db)) = take k (ordered_rows db)"
    by (intro sort_key_id_if_sorted) (simp add: ordered_rows_def take_map [symmetric] sorted_wrt_take)
  have "log_keys (db\<lparr>alRows := take k (ordered_rows db)\<rparr>)"
    using assms(1) by (auto simp: log_keys_def ordered_rows_def distinct_map dest!: in_set_takeD intro: inj_on_subset [OF _ set_take_subset])
  moreover have "chain mac [] (take k (ordered_rows db))"
    using c chain_append [of mac "[]" "take k (ordered_rows db)" "drop k (ordered_rows db)"] by simp
  ultimately show "fst (VerifyPaged mac (\<lambda>_. None) pageSize (db\<lparr>alRows := take k (ordered_rows db)\<rparr>))"
    using Verify_chain sorted by (simp add: ordered_rows_def)
  show "fst (VerifyPaged mac (\<lambda>_. None) pageSize (db\<lparr>alRows := map shift_actor (alRows db)\<rparr>))"
    by (rule shift_verifies(3) [OF assms(1) c])
qed

theorem undetected_edits_witness:
  "map enActorID (map shift_actor (alRows two_entries)) \<noteq> map enActorID (alRows two_entries) \<and>
   fst (VerifyPaged plain_mac (\<lambda>_. None) 1 (two_entries\<lparr>alRows := take 1 (ordered_rows two_entries)\<rparr>)) \<and>
   fst (VerifyPaged plain_mac (\<lambda>_. None) 1 (two_entries\<lparr>alRows := map shift_actor (alRows two_entries)\<rparr>))"
proof -
  have "map enActorID (map shift_actor (alRows two_entries)) \<noteq> map enActorID (alRows two_entries)" by code_simp
  moreover have "fst (VerifyPaged plain_mac (\<lambda>_. None) 1 two_entries)"
    using Verify_chain written_inv [OF two_entries_written] by blast
  ultimately show ?thesis using undetected_edits [of two_entries plain_mac 1 1] written_inv [OF two_entries_written] by blast
qed

end
