(* ===== verification/Edr_Queue.thy ===== *)
theory Edr_Queue
  imports Trace_Prelude
begin

text \<open>
  \<open>internal/edr_agent/queue/queue.go\<close>: the endpoint agent's persistent event queue, a SQLite table
  \<open>event_queue\<close> with an increasing key.  Reading a batch and deleting it are separate, so that a
  batch is deleted only after it was sent.  Failures of the database, of the JSON coding and of the
  sender are inputs.
\<close>

type_synonym qrow = "int \<times> string"

record EventQueue =
  eqRows :: "qrow list"
  eqNextID :: int
  eqMaxSize :: int
  eqBatchSize :: nat

definition NewEventQueue :: "string option \<Rightarrow> string option \<Rightarrow> string option \<Rightarrow> string option \<Rightarrow> qrow list \<Rightarrow> int \<Rightarrow> int \<Rightarrow> EventQueue result" where
  "NewEventQueue mkdir opn tbl idx rows nextID maxSize =
     (case mkdir of Some e \<Rightarrow> Inl (''queue dir: '' @ e)
      | None \<Rightarrow> case opn of Some e \<Rightarrow> Inl (''open queue: '' @ e)
      | None \<Rightarrow> case tbl of Some e \<Rightarrow> Inl (''create queue table: '' @ e)
      | None \<Rightarrow> case idx of Some e \<Rightarrow> Inl (''create queue index: '' @ e)
      | None \<Rightarrow> Inr \<lparr>eqRows = rows, eqNextID = nextID, eqMaxSize = maxSize, eqBatchSize = 50\<rparr>)"

section \<open>Operations\<close>

record push_env =
  puCount :: "nat \<Rightarrow> bool"
  puEvict :: bool
  puEvictSize :: bool
  puBegin :: "string option"
  puPrepare :: "string option"
  puExec :: "nat \<Rightarrow> string option"
  puCommit :: "string option"

text \<open>A failing count query leaves both counters at 0.\<close>

definition countsLocked :: "bool \<Rightarrow> qrow list \<Rightarrow> int \<times> int" where
  "countsLocked flt rows = (if flt then (0, 0) else (int (length rows), sum_list (map (\<lambda>r. int (length (snd r))) rows)))"

definition delete_oldest :: "nat \<Rightarrow> qrow list \<Rightarrow> qrow list" where
  "delete_oldest n rows =
     (let ids = map fst (take n (sort_key fst rows)) in filter (\<lambda>r. fst r \<notin> set ids) rows)"

definition make_room :: "push_env \<Rightarrow> int \<Rightarrow> int \<Rightarrow> qrow list \<Rightarrow> qrow list" where
  "make_room env maxSize n rows =
     (let (count, totalSize) = countsLocked (puCount env 0) rows;
          room = maxSize - count;
          overflow = n - room + 100;
          (rows1, totalSize1) =
            (if room < n \<and> overflow > 0
             then let r = (if puEvict env then rows else delete_oldest (nat overflow) rows)
                  in (r, snd (countsLocked (puCount env 1) r))
             else (rows, totalSize))
      in if totalSize1 > maxSize * 1024 \<and> \<not> puEvictSize env then delete_oldest 100 rows1 else rows1)"

text \<open>The inserts of one transaction; an error rolls all of them back.\<close>

fun insert_all :: "('e \<Rightarrow> string result) \<Rightarrow> (nat \<Rightarrow> string option) \<Rightarrow> nat \<Rightarrow> 'e list \<Rightarrow> qrow list \<times> int \<Rightarrow> (qrow list \<times> int) result" where
  "insert_all enc flt k [] st = Inr st"
| "insert_all enc flt k (e # es) (rows, nid) =
     (case enc e of Inl err \<Rightarrow> Inl (''marshal event: '' @ err)
      | Inr data \<Rightarrow> (case flt k of Some err \<Rightarrow> Inl err
        | None \<Rightarrow> insert_all enc flt (Suc k) es (rows @ [(nid, data)], nid + 1)))"

definition PushBatch :: "('e \<Rightarrow> string result) \<Rightarrow> push_env \<Rightarrow> 'e list \<Rightarrow> EventQueue \<Rightarrow> string option \<times> EventQueue" where
  "PushBatch enc env batch q =
     (if batch = [] then (None, q)
      else
        let q1 = q\<lparr>eqRows := make_room env (eqMaxSize q) (int (length batch)) (eqRows q)\<rparr>
        in case puBegin env of Some e \<Rightarrow> (Some e, q1)
           | None \<Rightarrow> case puPrepare env of Some e \<Rightarrow> (Some e, q1)
           | None \<Rightarrow> case insert_all enc (puExec env) 0 batch (eqRows q1, eqNextID q1) of
               Inl e \<Rightarrow> (Some e, q1)
             | Inr (rows, nid) \<Rightarrow>
               (case puCommit env of Some e \<Rightarrow> (Some e, q1) | None \<Rightarrow> (None, q1\<lparr>eqRows := rows, eqNextID := nid\<rparr>)))"

definition edr_Push :: "('e \<Rightarrow> string result) \<Rightarrow> push_env \<Rightarrow> 'e \<Rightarrow> EventQueue \<Rightarrow> string option \<times> EventQueue" where
  "edr_Push enc env evt q = PushBatch enc env [evt] q"

fun decode_rows :: "(string \<Rightarrow> 'e result) \<Rightarrow> qrow list \<Rightarrow> ('e list \<times> int list) result" where
  "decode_rows dec [] = Inr ([], [])"
| "decode_rows dec ((i, data) # rows) =
     (case dec data of Inl e \<Rightarrow> Inl e
      | Inr evt \<Rightarrow> (case decode_rows dec rows of Inl e \<Rightarrow> Inl e | Inr (evts, ids) \<Rightarrow> Inr (evt # evts, i # ids)))"

definition PopBatch :: "(string \<Rightarrow> 'e result) \<Rightarrow> string option \<Rightarrow> EventQueue \<Rightarrow> ('e list \<times> int list) result" where
  "PopBatch dec flt q =
     (case flt of Some e \<Rightarrow> Inl e | None \<Rightarrow> decode_rows dec (take (eqBatchSize q) (sort_key fst (eqRows q))))"

definition Ack :: "string option \<Rightarrow> int list \<Rightarrow> EventQueue \<Rightarrow> string option \<times> EventQueue" where
  "Ack flt ids q =
     (if ids = [] then (None, q)
      else case flt of Some e \<Rightarrow> (Some e, q) | None \<Rightarrow> (None, q\<lparr>eqRows := filter (\<lambda>r. fst r \<notin> set ids) (eqRows q)\<rparr>))"

definition edr_Len :: "bool \<Rightarrow> EventQueue \<Rightarrow> nat" where
  "edr_Len flt q = (if flt then 0 else length (eqRows q))"

section \<open>Draining\<close>

text \<open>Per round: whether the context is done, and the failures of the query, the sender and the delete.\<close>

record drain_env =
  dxDone :: "nat \<Rightarrow> string option"
  dxQuery :: "nat \<Rightarrow> string option"
  dxSend :: "nat \<Rightarrow> string option"
  dxAck :: "nat \<Rightarrow> string option"

lemma decode_ids: "decode_rows dec rows = Inr (evts, ids) \<Longrightarrow> ids = map fst rows \<and> length evts = length rows"
  by (induction dec rows arbitrary: evts ids rule: decode_rows.induct) (auto split: sum.splits)

lemma acked_shorter:
  assumes "decode_rows dec (take n (sort_key fst rows)) = Inr (evts, ids)" "evts \<noteq> []"
  shows "length (filter (\<lambda>r. fst r \<notin> set ids) rows) < length rows"
proof -
  have ids: "ids = map fst (take n (sort_key fst rows))" "length evts = length (take n (sort_key fst rows))"
    using decode_ids [OF assms(1)] by auto
  then obtain r where r: "r \<in> set (take n (sort_key fst rows))" using assms(2) by (metis length_0_conv list.set_intros(1) neq_Nil_conv)
  then have "r \<in> set rows" "fst r \<in> set ids" using ids(1) by (auto dest: in_set_takeD)
  then show ?thesis by (metis (mono_tags, lifting) length_filter_less)
qed

text \<open>The loop returns its error and the batches that were sent, oldest first.\<close>

function DrainLoop :: "(string \<Rightarrow> 'e result) \<Rightarrow> drain_env \<Rightarrow> nat \<Rightarrow> EventQueue \<Rightarrow> string option \<times> 'e list list \<times> EventQueue" where
  "DrainLoop dec env k q =
     (case dxDone env k of Some e \<Rightarrow> (Some e, [], q)
      | None \<Rightarrow> case PopBatch dec (dxQuery env k) q of
          Inl e \<Rightarrow> (Some e, [], q)
        | Inr (batch, ids) \<Rightarrow>
          if batch = [] then (None, [], q)
          else case dxSend env k of Some e \<Rightarrow> (Some e, [], q)
          | None \<Rightarrow> case dxAck env k of Some e \<Rightarrow> (Some e, [batch], q)
          | None \<Rightarrow> (case DrainLoop dec env (Suc k) (snd (Ack None ids q)) of (err, sent, q') \<Rightarrow> (err, batch # sent, q')))"
  by pat_completeness auto
termination
proof (relation "measure (\<lambda>(dec, env, k, q). length (eqRows q))", goal_cases)
  case (2 dec env k q x2 x y)
  then have "decode_rows dec (take (eqBatchSize q) (sort_key fst (eqRows q))) = Inr (x, y)"
    by (auto simp: PopBatch_def split: option.splits)
  from acked_shorter [OF this] 2 show ?case by (auto simp: Ack_def dest: decode_ids)
qed simp

declare DrainLoop.simps [simp del]

section \<open>Invariant\<close>

definition queue_ok :: "EventQueue \<Rightarrow> bool" where
  "queue_ok q \<longleftrightarrow> sorted_wrt (<) (map fst (eqRows q)) \<and> (\<forall>r\<in>set (eqRows q). fst r < eqNextID q) \<and> 0 < eqBatchSize q"

lemma strict_sort_id:
  assumes "sorted_wrt (<) (map fst rows)"
  shows "sort_key fst rows = (rows :: qrow list)"
  using assms by (simp add: sort_key_id_if_sorted strict_sorted_imp_sorted)

lemma filter_prefix_ids:
  assumes "sorted_wrt (<) (map fst rows)"
  shows "filter (\<lambda>r. fst r \<notin> set (map fst (take n rows))) rows = drop n (rows :: qrow list)"
proof -
  have "distinct (map fst (take n rows @ drop n rows))" using assms by (simp add: strict_sorted_iff)
  then have "set (map fst (take n rows)) \<inter> set (map fst (drop n rows)) = {}"
    unfolding map_append distinct_append by blast
  then have "filter (\<lambda>r. fst r \<notin> set (map fst (take n rows))) (drop n rows) = drop n rows"
    by (intro filter_True) auto
  moreover have "filter (\<lambda>r. fst r \<notin> set (map fst (take n rows))) (take n rows) = []"
    unfolding filter_empty_conv by simp
  ultimately show ?thesis by (metis append_Nil append_take_drop_id filter_append)
qed

lemma delete_oldest_drop:
  assumes "sorted_wrt (<) (map fst rows)"
  shows "delete_oldest n rows = drop n rows"
  using filter_prefix_ids [OF assms] by (simp add: delete_oldest_def strict_sort_id [OF assms] Let_def)

lemma queue_ok_drop: "queue_ok q \<Longrightarrow> queue_ok (q\<lparr>eqRows := drop n (eqRows q)\<rparr>)"
  by (auto simp: queue_ok_def drop_map [symmetric] sorted_wrt_drop dest: in_set_dropD)

lemma make_room_drop:
  assumes "sorted_wrt (<) (map fst rows)"
  obtains k where "make_room env maxSize n rows = drop k rows"
proof -
  have sw: "sorted_wrt (<) (map fst (drop k rows))" for k using assms by (simp add: drop_map [symmetric] sorted_wrt_drop)
  have "\<exists>k. make_room env maxSize n rows = drop k rows"
    using delete_oldest_drop [OF assms] delete_oldest_drop [OF sw]
    by (auto simp: make_room_def Let_def countsLocked_def intro: exI [of _ 0])
  then show thesis using that by blast
qed

lemma make_room_bound:
  assumes "sorted_wrt (<) (map fst rows)" "\<not> puCount env 0" "\<not> puEvict env" "0 \<le> n"
  shows "int (length (make_room env maxSize n rows)) + n \<le> max maxSize n"
proof -
  have sw: "sorted_wrt (<) (map fst (drop k rows))" for k using assms(1) by (simp add: drop_map [symmetric] sorted_wrt_drop)
  let ?rows1 = "if maxSize - int (length rows) < n then drop (nat (n - (maxSize - int (length rows)) + 100)) rows else rows"
  have b: "int (length ?rows1) + n \<le> max maxSize n" using assms(4) by auto
  have "make_room env maxSize n rows = ?rows1 \<or> make_room env maxSize n rows = drop 100 ?rows1"
    using assms delete_oldest_drop [OF assms(1)] delete_oldest_drop [OF sw]
    by (simp add: make_room_def Let_def countsLocked_def)
  then have "length (make_room env maxSize n rows) \<le> length ?rows1" by (auto simp del: if_split)
  then show ?thesis using b by linarith
qed

lemma insert_all_ok:
  assumes "insert_all enc flt k es (rows, nid) = Inr (rows', nid')"
  shows "\<exists>ds. map enc es = map Inr ds \<and> rows' = rows @ zip [nid..nid + int (length es) - 1] ds \<and> nid' = nid + int (length es)"
  using assms
proof (induction es arbitrary: k rows nid)
  case (Cons e es)
  then obtain d where d: "enc e = Inr d" and r: "insert_all enc flt (Suc k) es (rows @ [(nid, d)], nid + 1) = Inr (rows', nid')"
    by (auto split: sum.splits option.splits)
  from Cons.IH [OF r] obtain ds where ds: "map enc es = map Inr ds"
    "rows' = (rows @ [(nid, d)]) @ zip [nid + 1..nid + 1 + int (length es) - 1] ds" "nid' = nid + 1 + int (length es)" by blast
  have "[nid..nid + int (length (e # es)) - 1] = nid # [nid + 1..nid + 1 + int (length es) - 1]"
    by (simp add: upto_rec1)
  then show ?case using d ds by (intro exI [of _ "d # ds"]) simp
qed (auto intro: exI [of _ "[]"])

lemma PushBatch_ok:
  assumes "queue_ok q" "PushBatch enc env batch q = (None, q')" "batch \<noteq> []"
  obtains ds where "map enc batch = map Inr ds"
    "eqRows q' = make_room env (eqMaxSize q) (int (length batch)) (eqRows q) @
       zip [eqNextID q..eqNextID q + int (length batch) - 1] ds"
    "eqNextID q' = eqNextID q + int (length batch)" "eqBatchSize q' = eqBatchSize q"
proof -
  obtain rows nid where ins: "insert_all enc (puExec env) 0 batch (make_room env (eqMaxSize q) (int (length batch)) (eqRows q), eqNextID q) = Inr (rows, nid)"
    and q': "q' = q\<lparr>eqRows := rows, eqNextID := nid\<rparr>"
    using assms(2,3) by (auto simp: PushBatch_def Let_def split: option.splits sum.splits)
  from insert_all_ok [OF ins] q' show thesis using that by auto
qed

lemma zip_upto_keys:
  assumes "length ds = n"
  shows "map fst (zip [a..a + int n - 1] ds) = [a..a + int n - 1]" "\<forall>r\<in>set (zip [a..a + int n - 1] ds). a \<le> fst r \<and> fst r < a + int n"
  using assms by (auto simp: map_fst_zip dest: set_zip_leftD)

lemma PushBatch_queue_ok [inv_intros]:
  assumes "queue_ok q" "PushBatch enc env batch q = (None, q')" "batch \<noteq> []"
  shows "queue_ok q'"
proof -
  from PushBatch_ok [OF assms] obtain ds where ds: "map enc batch = map Inr ds"
    "eqRows q' = make_room env (eqMaxSize q) (int (length batch)) (eqRows q) @ zip [eqNextID q..eqNextID q + int (length batch) - 1] ds"
    "eqNextID q' = eqNextID q + int (length batch)" "eqBatchSize q' = eqBatchSize q" .
  obtain k where k: "make_room env (eqMaxSize q) (int (length batch)) (eqRows q) = drop k (eqRows q)"
    using make_room_drop assms(1) queue_ok_def by metis
  have len: "length ds = length batch" using ds(1) by (metis length_map)
  note z = zip_upto_keys [OF len, of "eqNextID q"]
  have old: "\<forall>r\<in>set (drop k (eqRows q)). fst r < eqNextID q" "sorted_wrt (<) (map fst (drop k (eqRows q)))"
    using assms(1) by (auto simp: queue_ok_def drop_map [symmetric] sorted_wrt_drop dest: in_set_dropD)
  have "sorted_wrt (<) (map fst (eqRows q'))"
    using old z(1) unfolding ds(2) k map_append sorted_wrt_append by auto
  moreover have "\<forall>r\<in>set (eqRows q'). fst r < eqNextID q'"
    using old(1) z(2) unfolding ds(2,3) k set_append by fastforce
  ultimately show ?thesis using assms(1) ds(4) by (simp add: queue_ok_def)
qed

section \<open>Draining\<close>

definition decodes :: "(string \<Rightarrow> 'e result) \<Rightarrow> qrow list \<Rightarrow> 'e list \<Rightarrow> bool" where
  "decodes dec rows evts \<longleftrightarrow> map (\<lambda>r. dec (snd r)) rows = map Inr evts"

lemma decode_rows_iff: "decode_rows dec rows = Inr (evts, ids) \<longleftrightarrow> decodes dec rows evts \<and> ids = map fst rows"
proof (induction rows arbitrary: evts ids)
  case (Cons r rows)
  obtain i d where r: "r = (i, d)" by force
  show ?case
  proof (cases "dec d")
    case (Inr evt)
    then show ?thesis
      using Cons.IH [of "tl evts" "tl ids"] Cons.IH [of "tl evts" "map fst rows"]
      by (cases evts; cases ids) (auto simp: r decodes_def split: sum.splits)
  qed (auto simp: r decodes_def)
qed (auto simp: decodes_def)

lemma decodes_append: "decodes dec (xs @ ys) (us @ vs) \<longleftrightarrow> decodes dec xs us \<and> decodes dec ys vs" if "length us = length xs"
  using that by (auto simp: decodes_def append_eq_append_conv)

lemma PopBatch_ok:
  assumes "queue_ok q"
  shows "PopBatch dec None q = Inr (batch, ids) \<longleftrightarrow>
    decodes dec (take (eqBatchSize q) (eqRows q)) batch \<and> ids = map fst (take (eqBatchSize q) (eqRows q))"
  using assms by (simp add: PopBatch_def queue_ok_def strict_sort_id decode_rows_iff)

lemma Ack_popped:
  assumes "queue_ok q"
  shows "snd (Ack None (map fst (take n (eqRows q))) q) = q\<lparr>eqRows := drop n (eqRows q)\<rparr>"
  using assms filter_prefix_ids [of "eqRows q" n] by (cases "take n (eqRows q) = []") (auto simp: Ack_def queue_ok_def)

text \<open>One round of the loop on a well-formed queue.\<close>

lemma DrainLoop_round:
  assumes "queue_ok q" "dxDone env k = None" "dxQuery env k = None" "dxSend env k = None" "dxAck env k = None"
    "decodes dec (take (eqBatchSize q) (eqRows q)) batch" "eqRows q \<noteq> []"
  shows "DrainLoop dec env k q =
    (case DrainLoop dec env (Suc k) (q\<lparr>eqRows := drop (eqBatchSize q) (eqRows q)\<rparr>) of (err, sent, q') \<Rightarrow> (err, batch # sent, q'))"
proof -
  have pop: "PopBatch dec None q = Inr (batch, map fst (take (eqBatchSize q) (eqRows q)))"
    using PopBatch_ok [OF assms(1)] assms(6) by blast
  have "batch \<noteq> []" using assms(1,6,7) by (auto simp: decodes_def queue_ok_def)
  then show ?thesis using assms(2-5) pop Ack_popped [OF assms(1)] by (subst DrainLoop.simps) simp
qed

lemma DrainLoop_all:
  assumes "queue_ok q" "decodes dec (eqRows q) evts"
    "\<And>k. dxDone env k = None" "\<And>k. dxQuery env k = None" "\<And>k. dxSend env k = None" "\<And>k. dxAck env k = None"
  shows "\<exists>sent. DrainLoop dec env k q = (None, sent, q\<lparr>eqRows := []\<rparr>) \<and> concat sent = evts \<and>
    (\<forall>b\<in>set sent. b \<noteq> [] \<and> length b \<le> eqBatchSize q)"
  using assms(1,2)
proof (induction "length (eqRows q)" arbitrary: q evts k rule: less_induct)
  case less
  show ?case
  proof (cases "eqRows q = []")
    case True
    have "PopBatch dec None q = Inr ([], [])" using PopBatch_ok [OF less.prems(1), of dec "[]" "[]"] True by (simp add: decodes_def)
    then have "DrainLoop dec env k q = (None, [], q)" using assms(3,4) by (subst DrainLoop.simps) simp
    moreover have "evts = []" "q\<lparr>eqRows := []\<rparr> = q" using less.prems(2) True by (simp_all add: decodes_def)
    ultimately show ?thesis by simp
  next
    case False
    let ?n = "eqBatchSize q" and ?q' = "q\<lparr>eqRows := drop (eqBatchSize q) (eqRows q)\<rparr>"
    have split: "decodes dec (take ?n (eqRows q)) (take ?n evts)" "decodes dec (drop ?n (eqRows q)) (drop ?n evts)"
      using less.prems(2) by (simp_all add: decodes_def take_map [symmetric] drop_map [symmetric])
    have pos: "0 < ?n" using less.prems(1) by (simp add: queue_ok_def)
    then have "length (eqRows ?q') < length (eqRows q)" using False by simp
    from less.hyps [OF this queue_ok_drop [OF less.prems(1)], of "drop ?n evts" "Suc k"] split(2)
    obtain sent where s: "DrainLoop dec env (Suc k) ?q' = (None, sent, q\<lparr>eqRows := []\<rparr>)" "concat sent = drop ?n evts"
      "\<forall>b\<in>set sent. b \<noteq> [] \<and> length b \<le> ?n" by auto
    have "evts \<noteq> []" using less.prems(2) False by (auto simp: decodes_def)
    then have "take ?n evts \<noteq> []" using pos by simp
    moreover have "DrainLoop dec env k q = (None, take ?n evts # sent, q\<lparr>eqRows := []\<rparr>)"
      using DrainLoop_round [OF less.prems(1) assms(3-6) split(1) False] s(1) by simp
    ultimately show ?thesis using s by (intro exI [of _ "take ?n evts # sent"]) simp
  qed
qed

text \<open>What one call does, whatever fails.\<close>

lemma DrainLoop_cases:
  assumes "queue_ok q" "DrainLoop dec env k q = (err, sent, q')"
  obtains (stopped) "sent = []" "q' = q" "err = None \<Longrightarrow> eqRows q = []"
  | (unacked) batch where "decodes dec (take (eqBatchSize q) (eqRows q)) batch" "sent = [batch]" "q' = q" "err \<noteq> None"
  | (round) batch sent1 where "decodes dec (take (eqBatchSize q) (eqRows q)) batch" "eqRows q \<noteq> []" "sent = batch # sent1"
      "DrainLoop dec env (Suc k) (q\<lparr>eqRows := drop (eqBatchSize q) (eqRows q)\<rparr>) = (err, sent1, q')"
proof (cases "dxDone env k = None \<and> (\<exists>p. PopBatch dec (dxQuery env k) q = Inr p)")
  case False
  then consider e where "dxDone env k = Some e" | e where "dxDone env k = None" "PopBatch dec (dxQuery env k) q = Inl e"
    by (cases "dxDone env k"; cases "PopBatch dec (dxQuery env k) q") auto
  then have "sent = [] \<and> q' = q \<and> err \<noteq> None"
    using assms(2) by cases (simp_all add: DrainLoop.simps [of dec env k] split: prod.splits, blast+)
  then show thesis by (intro stopped) auto
next
  case True
  then obtain batch ids where nd: "dxDone env k = None" and p: "PopBatch dec (dxQuery env k) q = Inr (batch, ids)" by force
  have qry: "dxQuery env k = None" using p by (auto simp: PopBatch_def split: option.splits)
  have pop: "decodes dec (take (eqBatchSize q) (eqRows q)) batch"
    using p PopBatch_ok [OF assms(1), of dec batch ids] unfolding qry by simp
  have ne: "batch = [] \<longleftrightarrow> eqRows q = []" using pop assms(1) by (auto simp: decodes_def queue_ok_def)
  consider (empty) "eqRows q = [] \<or> dxSend env k \<noteq> None"
    | (noack) "eqRows q \<noteq> []" "dxSend env k = None" "dxAck env k \<noteq> None"
    | (go) "eqRows q \<noteq> []" "dxSend env k = None" "dxAck env k = None" by blast
  then show thesis
  proof cases
    case empty
    then have "sent = [] \<and> q' = q \<and> (err = None \<longrightarrow> eqRows q = [])"
      using nd p ne assms(2) by (auto simp: DrainLoop.simps [of dec env k] split: option.splits if_splits, metis)
    then show thesis by (intro stopped) auto
  next
    case noack
    then have "sent = [batch] \<and> q' = q \<and> err \<noteq> None"
      using nd p ne assms(2) by (auto simp: DrainLoop.simps [of dec env k], metis)
    then show thesis using unacked pop by blast
  next
    case go
    then show thesis
      using DrainLoop_round [OF assms(1) nd qry go(2,3) pop go(1)] assms(2) round [OF pop] by (auto split: prod.splits)
  qed
qed

lemma DrainLoop_prefix:
  assumes "queue_ok q" "DrainLoop dec env k q = (err, sent, q')"
  shows "\<exists>n m. n \<le> m \<and> m \<le> length (eqRows q) \<and> decodes dec (take m (eqRows q)) (concat sent) \<and>
    q' = q\<lparr>eqRows := drop n (eqRows q)\<rparr> \<and> (err = None \<longrightarrow> n = length (eqRows q))"
  using assms
proof (induction "length (eqRows q)" arbitrary: q k err sent q' rule: less_induct)
  case less
  let ?b = "eqBatchSize q" and ?rows = "eqRows q"
  from less.prems show ?case
  proof (cases rule: DrainLoop_cases)
    case stopped
    then show ?thesis by (intro exI [of _ 0]) (auto simp: decodes_def)
  next
    case (unacked batch)
    then show ?thesis by - (rule exI [of _ 0], rule exI [of _ "min ?b (length ?rows)"], auto simp: min_def)
  next
    case (round batch sent1)
    let ?q1 = "q\<lparr>eqRows := drop ?b ?rows\<rparr>"
    have "0 < ?b" using less.prems(1) by (simp add: queue_ok_def)
    then have "length (eqRows ?q1) < length ?rows" using round(2) by simp
    from less.hyps [OF this queue_ok_drop [OF less.prems(1)] round(4)] obtain n m where nm: "n \<le> m" "m \<le> length ?rows - ?b"
      "decodes dec (take m (drop ?b ?rows)) (concat sent1)" "q' = q\<lparr>eqRows := drop (n + ?b) ?rows\<rparr>"
      "err = None \<Longrightarrow> n = length ?rows - ?b"
      by (auto simp: add.commute)
    have dec: "decodes dec (take (?b + m) ?rows) (concat sent)"
      using round(1,3) nm(3) by (simp add: decodes_def take_add)
    show ?thesis
    proof (cases "?b \<le> length ?rows")
      case True
      then show ?thesis using nm dec by - (rule exI [of _ "n + ?b"], rule exI [of _ "?b + m"], auto)
    next
      case False
      then have "m = 0" "n = 0" "drop ?b ?rows = drop (length ?rows) ?rows" "take (?b + m) ?rows = take (length ?rows) ?rows" using nm by auto
      then show ?thesis using nm dec by - (rule exI [of _ "length ?rows"], rule exI [of _ "length ?rows"], auto)
    qed
  qed
qed

section \<open>Instances\<close>

definition plain_dec :: "string \<Rightarrow> string result" where
  "plain_dec s = (if s = ''?'' then Inl ''invalid character'' else Inr s)"

definition three_rows :: "string \<Rightarrow> EventQueue" where
  "three_rows d = \<lparr>eqRows = [(4, ''a''), (5, d), (9, ''c'')], eqNextID = 10, eqMaxSize = 200, eqBatchSize = 2\<rparr>"

definition calm_drain :: drain_env where
  "calm_drain = \<lparr>dxDone = (\<lambda>_. None), dxQuery = (\<lambda>_. None), dxSend = (\<lambda>_. None), dxAck = (\<lambda>_. None)\<rparr>"

definition calm_push :: push_env where
  "calm_push = \<lparr>puCount = (\<lambda>_. False), puEvict = False, puEvictSize = False, puBegin = None, puPrepare = None,
     puExec = (\<lambda>_. None), puCommit = None\<rparr>"

lemma three_rows_ok: "queue_ok (three_rows d)"
  by (simp add: queue_ok_def three_rows_def)

section \<open>Claims\<close>

text \<open>
  C24. Draining delivers.  On a well-formed queue whose rows can all be decoded, with a sender that
  succeeds and no other failure, the loop ends without an error, has sent every event exactly once in
  the order of the queue, in non-empty batches of at most the batch size, and leaves the queue empty.
\<close>

theorem DrainLoop_delivers:
  assumes "queue_ok q" "map (\<lambda>r. dec (snd r)) (eqRows q) = map Inr evts"
    and "\<And>k. dxDone env k = None" "\<And>k. dxQuery env k = None" "\<And>k. dxSend env k = None" "\<And>k. dxAck env k = None"
  shows "\<exists>sent. DrainLoop dec env 0 q = (None, sent, q\<lparr>eqRows := []\<rparr>) \<and> concat sent = evts \<and>
    (\<forall>b\<in>set sent. b \<noteq> [] \<and> length b \<le> eqBatchSize q)"
  using DrainLoop_all [of q dec evts env 0] assms by (simp add: decodes_def)

theorem DrainLoop_delivers_witness:
  "\<exists>sent. DrainLoop plain_dec calm_drain 0 (three_rows ''b'') = (None, sent, (three_rows ''b'')\<lparr>eqRows := []\<rparr>) \<and>
    concat sent = [''a'', ''b'', ''c'']"
  using DrainLoop_delivers [OF three_rows_ok, of plain_dec "''b''" "[''a'', ''b'', ''c'']" calm_drain]
  by (auto simp: three_rows_def plain_dec_def calm_drain_def)

text \<open>
  No event is deleted before it is sent.  Whatever fails while draining, the rows that leave the
  queue are its oldest, every one of them was part of a batch that was sent, batches are sent in the
  order of the queue, and an end without an error means that the queue is empty.
\<close>

theorem DrainLoop_deletes_only_sent:
  assumes "queue_ok q" "DrainLoop dec env k q = (err, sent, q')"
  shows "\<exists>n m. n \<le> m \<and> m \<le> length (eqRows q) \<and> map (\<lambda>r. dec (snd r)) (take m (eqRows q)) = map Inr (concat sent) \<and>
    eqRows q' = drop n (eqRows q) \<and> (err = None \<longrightarrow> eqRows q' = [])"
proof -
  from DrainLoop_prefix [OF assms] obtain n m where "n \<le> m" "m \<le> length (eqRows q)"
    "decodes dec (take m (eqRows q)) (concat sent)" "q' = q\<lparr>eqRows := drop n (eqRows q)\<rparr>"
    "err = None \<longrightarrow> n = length (eqRows q)" by blast
  then show ?thesis by - (rule exI [of _ n], rule exI [of _ m], auto simp: decodes_def)
qed

theorem DrainLoop_deletes_only_sent_witness:
  "\<exists>n m. n \<le> m \<and> m \<le> length (eqRows (three_rows ''b'')) \<and> map (\<lambda>r. plain_dec (snd r)) (take m (eqRows (three_rows ''b''))) =
     map Inr (concat (fst (snd (DrainLoop plain_dec (calm_drain\<lparr>dxSend := (\<lambda>k. if k = 1 then Some ''down'' else None)\<rparr>) 0 (three_rows ''b''))))) \<and>
     eqRows (snd (snd (DrainLoop plain_dec (calm_drain\<lparr>dxSend := (\<lambda>k. if k = 1 then Some ''down'' else None)\<rparr>) 0 (three_rows ''b'')))) =
       drop n (eqRows (three_rows ''b''))"
proof -
  let ?d = "DrainLoop plain_dec (calm_drain\<lparr>dxSend := (\<lambda>k. if k = 1 then Some ''down'' else None)\<rparr>) 0 (three_rows ''b'')"
  have "?d = (fst ?d, fst (snd ?d), snd (snd ?d))" by simp
  from DrainLoop_deletes_only_sent [OF three_rows_ok this] show ?thesis by blast
qed

text \<open>
  One undecodable row stops the queue.  While a row among the oldest of a batch cannot be decoded,
  every drain, whatever else happens, sends nothing, deletes nothing and reports an error.
\<close>

theorem poison_row_blocks:
  assumes "queue_ok q" "r \<in> set (take (eqBatchSize q) (eqRows q))" "dec (snd r) = Inl err"
  shows "\<exists>e. DrainLoop dec env k q = (Some e, [], q)"
proof -
  have no: "\<not> decodes dec (take (eqBatchSize q) (eqRows q)) batch" for batch
  proof
    assume "decodes dec (take (eqBatchSize q) (eqRows q)) batch"
    then have "dec (snd r) \<in> set (map Inr batch)" using assms(2) unfolding decodes_def by (metis (no_types, lifting) image_eqI list.set_map)
    then show False using assms(3) by auto
  qed
  obtain res sent q' where d: "DrainLoop dec env k q = (res, sent, q')" by (metis prod_cases3)
  from assms(1) d show ?thesis
  proof (cases rule: DrainLoop_cases)
    case stopped
    then have "res \<noteq> None" using assms(2) by (metis empty_iff list.set(1) take_Nil)
    then show ?thesis using d stopped by auto
  qed (use no in blast)+
qed

theorem poison_row_blocks_witness: "\<exists>e. DrainLoop plain_dec calm_drain 0 (three_rows ''?'') = (Some e, [], three_rows ''?'')"
  by (rule poison_row_blocks [OF three_rows_ok, of "(5, ''?'')"]) (simp_all add: three_rows_def plain_dec_def)

text \<open>
  Pushing evicts the oldest.  A successful push on a well-formed queue keeps it well-formed, appends
  the encoded batch after a suffix of the old rows, and, when the count and the eviction succeed,
  leaves at most the maximum size, or the batch if that is larger.
\<close>

theorem PushBatch_bounded:
  assumes "queue_ok q" "PushBatch enc env batch q = (None, q')" "batch \<noteq> []"
  shows "queue_ok q' \<and> (\<exists>k ds. map enc batch = map Inr ds \<and> map snd (eqRows q') = map snd (drop k (eqRows q)) @ ds) \<and>
    (puCount env 0 \<or> puEvict env \<or> int (length (eqRows q')) \<le> max (eqMaxSize q) (int (length batch)))"
proof -
  from PushBatch_ok [OF assms] obtain ds where ds: "map enc batch = map Inr ds"
    "eqRows q' = make_room env (eqMaxSize q) (int (length batch)) (eqRows q) @ zip [eqNextID q..eqNextID q + int (length batch) - 1] ds" .
  have sw: "sorted_wrt (<) (map fst (eqRows q))" using assms(1) by (simp add: queue_ok_def)
  have len: "length ds = length batch" using ds(1) by (metis length_map)
  obtain k where k: "make_room env (eqMaxSize q) (int (length batch)) (eqRows q) = drop k (eqRows q)"
    using make_room_drop [OF sw] by blast
  have "map snd (eqRows q') = map snd (drop k (eqRows q)) @ ds" using ds(2) k len by simp
  moreover have "int (length (eqRows q')) \<le> max (eqMaxSize q) (int (length batch))" if "\<not> puCount env 0" "\<not> puEvict env"
    using make_room_bound [OF sw that, of "int (length batch)" "eqMaxSize q"] ds(2) len by simp
  ultimately show ?thesis using PushBatch_queue_ok [OF assms] ds(1) by blast
qed

theorem PushBatch_bounded_witness:
  "queue_ok (snd (PushBatch Inr calm_push [''d''] (three_rows ''b'')))"
proof -
  have "PushBatch Inr calm_push [''d''] (three_rows ''b'') = (None, snd (PushBatch Inr calm_push [''d''] (three_rows ''b'')))"
    by code_simp
  from PushBatch_bounded [OF three_rows_ok this] show ?thesis by simp
qed

end
