(* ===== verification/Task_Queue.thy ===== *)
theory Task_Queue
  imports Trace_Prelude
begin

text \<open>
  \<open>internal/taskqueue/taskqueue.go\<close>: the task queue with leases and a dead-letter state.  The table
  \<open>tasks\<close> is a list in the order of its row ids.  Times are the texts SQLite's \<open>datetime\<close> gives and
  are compared as texts; a lease is the text that a claim writes.  The identifiers drawn, the
  texts of the times, the JSON coding and the failures of the database are inputs.
\<close>

record task =
  tkID :: string
  tkInvestigationID :: string
  tkAgent :: string
  tkAction :: string
  tkPayload :: string
  tkStatus :: string
  tkResult :: string
  tkError :: string
  tkAttempts :: int
  tkMaxAttempts :: int
  tkLease :: "string option"
  tkUpdatedAt :: string

type_synonym tasks = "task list"

definition StatusPending :: string where "StatusPending = ''pending''"
definition StatusRunning :: string where "StatusRunning = ''running''"
definition StatusDone :: string where "StatusDone = ''done''"
definition StatusDead :: string where "StatusDead = ''dead''"

lemmas status_defs = StatusPending_def StatusRunning_def StatusDone_def StatusDead_def

section \<open>Operations\<close>

definition EnqueueWithAttempts :: "string \<Rightarrow> string result \<Rightarrow> string option \<Rightarrow> string \<Rightarrow> string \<Rightarrow> string \<Rightarrow> string \<Rightarrow> int \<Rightarrow> tasks \<Rightarrow>
    task result \<times> tasks" where
  "EnqueueWithAttempts uuid payloadJSON flt now invID agent action maxAttempts ts =
     (let maxAttempts = (if maxAttempts \<le> 0 then 5 else maxAttempts) in
      case payloadJSON of Inl e \<Rightarrow> (Inl (''marshal payload: '' @ e), ts)
      | Inr payload \<Rightarrow>
        (case flt of Some e \<Rightarrow> (Inl (''insert task: '' @ e), ts)
         | None \<Rightarrow>
           let row = \<lparr>tkID = uuid, tkInvestigationID = invID, tkAgent = agent, tkAction = action, tkPayload = payload,
                      tkStatus = StatusPending, tkResult = [], tkError = [], tkAttempts = 0, tkMaxAttempts = maxAttempts,
                      tkLease = None, tkUpdatedAt = now\<rparr>
           in if uuid \<in> set (map tkID ts) then (Inl (''insert task: UNIQUE constraint failed: tasks.id''), ts)
              else (Inr row, ts @ [row])))"

definition task_Enqueue :: "string \<Rightarrow> string result \<Rightarrow> string option \<Rightarrow> string \<Rightarrow> string \<Rightarrow> string \<Rightarrow> string \<Rightarrow> tasks \<Rightarrow>
    task result \<times> tasks" where
  "task_Enqueue uuid payloadJSON flt now invID agent action ts = EnqueueWithAttempts uuid payloadJSON flt now invID agent action 5 ts"

definition claimable :: "string \<Rightarrow> task \<Rightarrow> bool" where
  "claimable now t \<longleftrightarrow> tkStatus t = StatusPending \<and>
     (case tkLease t of None \<Rightarrow> True | Some l \<Rightarrow> l \<le> now) \<and> tkAttempts t < tkMaxAttempts t"

definition update_where :: "(task \<Rightarrow> bool) \<Rightarrow> (task \<Rightarrow> task) \<Rightarrow> tasks \<Rightarrow> tasks" where
  "update_where P f ts = map (\<lambda>t. if P t then f t else t) ts"

text \<open>The update of the first claimable row, then the read by the lease just written.\<close>

definition mark_claimed :: "string \<Rightarrow> string \<Rightarrow> task \<Rightarrow> task" where
  "mark_claimed leaseID now t =
     t\<lparr>tkStatus := StatusRunning, tkAttempts := tkAttempts t + 1, tkLease := Some leaseID, tkUpdatedAt := now\<rparr>"

definition Claim :: "(string \<Rightarrow> bool) \<Rightarrow> string option \<Rightarrow> string option \<Rightarrow> string \<Rightarrow> string \<Rightarrow> tasks \<Rightarrow>
    task option result \<times> tasks" where
  "Claim decodable uflt rflt leaseID now ts =
     (case uflt of Some e \<Rightarrow> (Inl (''claim task: '' @ e), ts)
      | None \<Rightarrow>
        (case find (claimable now) ts of
           None \<Rightarrow> (Inr None, ts)
         | Some t \<Rightarrow>
           let ts' = update_where (\<lambda>u. tkID u = tkID t) (mark_claimed leaseID now) ts
           in case rflt of Some e \<Rightarrow> (Inl (''read claimed task: '' @ e), ts')
              | None \<Rightarrow>
                (case find (\<lambda>u. tkLease u = Some leaseID) ts' of
                   None \<Rightarrow> (Inl ''read claimed task: sql: no rows in result set'', ts')
                 | Some u \<Rightarrow>
                   if \<not> decodable (tkPayload u) then (Inl ''decode payload: invalid JSON'', ts')
                   else (Inr (Some (u\<lparr>tkStatus := StatusRunning\<rparr>)), ts'))))"

definition Complete :: "string option \<Rightarrow> string \<Rightarrow> string \<Rightarrow> string \<Rightarrow> tasks \<Rightarrow> string option \<times> tasks" where
  "Complete flt now taskID result ts =
     (case flt of Some e \<Rightarrow> (Some e, ts)
      | None \<Rightarrow> (None, update_where (\<lambda>t. tkID t = taskID \<and> tkStatus t = StatusRunning)
          (\<lambda>t. t\<lparr>tkStatus := StatusDone, tkResult := result, tkUpdatedAt := now\<rparr>) ts))"

definition Fail :: "string option \<Rightarrow> string \<Rightarrow> string \<Rightarrow> string \<Rightarrow> string \<Rightarrow> tasks \<Rightarrow> string option \<times> tasks" where
  "Fail flt now later taskID errMsg ts =
     (case flt of Some e \<Rightarrow> (Some e, ts)
      | None \<Rightarrow> (None, update_where (\<lambda>t. tkID t = taskID)
          (\<lambda>t. t\<lparr>tkError := errMsg, tkUpdatedAt := now,
                 tkStatus := (if tkAttempts t \<ge> tkMaxAttempts t then StatusDead else StatusPending),
                 tkLease := (if tkAttempts t \<ge> tkMaxAttempts t then tkLease t else Some later)\<rparr>) ts))"

definition lapsed :: "string \<Rightarrow> task \<Rightarrow> bool" where
  "lapsed now t \<longleftrightarrow> tkStatus t = StatusRunning \<and> (case tkLease t of None \<Rightarrow> False | Some l \<Rightarrow> l \<le> now)"

definition RequeueExpired :: "string option \<Rightarrow> string \<Rightarrow> tasks \<Rightarrow> nat result \<times> tasks" where
  "RequeueExpired flt now ts =
     (case flt of Some e \<Rightarrow> (Inl e, ts)
      | None \<Rightarrow> (Inr (length (filter (lapsed now) ts)),
          update_where (lapsed now) (\<lambda>t. t\<lparr>tkStatus := StatusPending, tkUpdatedAt := now\<rparr>) ts))"

section \<open>Runs\<close>

text \<open>The operations as steps on the table, with the identifiers of the tasks claimed so far.\<close>

inductive task_reach :: "string list \<Rightarrow> tasks \<Rightarrow> bool" where
  empty: "task_reach [] []"
| enqueue: "task_reach cs ts \<Longrightarrow> task_reach cs (snd (EnqueueWithAttempts uuid pl flt now invID agent action n ts))"
| claimed: "task_reach cs ts \<Longrightarrow> uflt = None \<Longrightarrow> find (claimable now) ts = Some t \<Longrightarrow>
    task_reach (tkID t # cs) (snd (Claim dec uflt rflt leaseID now ts))"
| unclaimed: "task_reach cs ts \<Longrightarrow> uflt \<noteq> None \<or> find (claimable now) ts = None \<Longrightarrow>
    task_reach cs (snd (Claim dec uflt rflt leaseID now ts))"
| complete: "task_reach cs ts \<Longrightarrow> task_reach cs (snd (Complete flt now i r ts))"
| failed: "task_reach cs ts \<Longrightarrow> task_reach cs (snd (Fail flt now later i msg ts))"
| requeue: "task_reach cs ts \<Longrightarrow> task_reach cs (snd (RequeueExpired flt now ts))"

text \<open>What holds of one task: it was claimed as often as it counts, within its limit, and is dead only
  when it is exhausted.\<close>

definition task_ok :: "string list \<Rightarrow> task \<Rightarrow> bool" where
  "task_ok cs t \<longleftrightarrow> 0 < tkMaxAttempts t \<and> tkAttempts t \<le> tkMaxAttempts t \<and> int (count_list cs (tkID t)) = tkAttempts t \<and>
     tkStatus t \<in> {StatusPending, StatusRunning, StatusDone, StatusDead} \<and>
     (tkStatus t = StatusDead \<longrightarrow> tkAttempts t = tkMaxAttempts t)"

definition tasks_ok :: "string list \<Rightarrow> tasks \<Rightarrow> bool" where
  "tasks_ok cs ts \<longleftrightarrow> distinct (map tkID ts) \<and> set cs \<subseteq> set (map tkID ts) \<and> (\<forall>t\<in>set ts. task_ok cs t)"

lemma update_where_ids:
  assumes "\<And>t. tkID (f t) = tkID t"
  shows "map tkID (update_where P f ts) = map tkID ts"
  using assms by (simp add: update_where_def comp_def if_distrib cong: if_cong)

lemma update_where_ok:
  assumes "tasks_ok cs ts" "\<And>t. tkID (f t) = tkID t" "\<And>t. t \<in> set ts \<Longrightarrow> P t \<Longrightarrow> task_ok cs (f t)"
  shows "tasks_ok cs (update_where P f ts)"
proof -
  have "task_ok cs u" if "u \<in> set (update_where P f ts)" for u
  proof -
    from that obtain v where "v \<in> set ts" "u = (if P v then f v else v)" by (auto simp: update_where_def)
    then show ?thesis using assms(1,3) by (simp add: tasks_ok_def)
  qed
  then show ?thesis using assms(1) update_where_ids [OF assms(2), of P ts] by (simp add: tasks_ok_def)
qed

lemma claim_ok:
  assumes "tasks_ok cs ts" "find (claimable now) ts = Some t"
  shows "tasks_ok (tkID t # cs) (update_where (\<lambda>u. tkID u = tkID t) (mark_claimed leaseID now) ts)"
proof -
  let ?ts = "update_where (\<lambda>u. tkID u = tkID t) (mark_claimed leaseID now) ts"
  have t: "t \<in> set ts" "claimable now t" using assms(2) by (auto simp: find_Some_iff)
  have ids: "map tkID ?ts = map tkID ts" by (rule update_where_ids) (simp add: mark_claimed_def)
  have same: "u = t" if "u \<in> set ts" "tkID u = tkID t" for u
    using assms(1) t(1) that by (auto simp: tasks_ok_def distinct_map inj_on_def)
  have ok: "task_ok cs u" if "u \<in> set ts" for u using assms(1) that by (simp add: tasks_ok_def)
  have "task_ok (tkID t # cs) u" if "u \<in> set ?ts" for u
  proof -
    from that obtain v where v: "v \<in> set ts" "u = (if tkID v = tkID t then mark_claimed leaseID now v else v)"
      by (auto simp: update_where_def)
    show ?thesis
    proof (cases "tkID v = tkID t")
      case True
      then have "v = t" "u = mark_claimed leaseID now t" using v same by auto
      then show ?thesis using ok [OF t(1)] t(2) by (simp add: task_ok_def mark_claimed_def claimable_def status_defs)
    next
      case False
      then show ?thesis using v ok [OF v(1)] by (simp add: task_ok_def)
    qed
  qed
  then show ?thesis using assms(1) ids t(1) by (simp add: tasks_ok_def)
qed

lemma claim_table:
  "snd (Claim dec uflt rflt leaseID now ts) =
     (case uflt of Some _ \<Rightarrow> ts | None \<Rightarrow> (case find (claimable now) ts of None \<Rightarrow> ts
        | Some t \<Rightarrow> update_where (\<lambda>u. tkID u = tkID t) (mark_claimed leaseID now) ts))"
  by (auto simp: Claim_def Let_def split: option.splits)

lemma enqueue_ok:
  assumes "tasks_ok cs ts"
  shows "tasks_ok cs (snd (EnqueueWithAttempts uuid pl flt now invID agent action n ts))"
proof -
  have "count_list cs uuid = 0" if "uuid \<notin> set (map tkID ts)"
    using assms that by (auto simp: tasks_ok_def count_list_0_iff)
  then show ?thesis using assms
    by (auto simp: EnqueueWithAttempts_def Let_def tasks_ok_def task_ok_def status_defs split: sum.splits option.splits)
qed

lemma reach_tasks_ok: "task_reach cs ts \<Longrightarrow> tasks_ok cs ts"
proof (induction rule: task_reach.induct)
  case empty
  then show ?case by (simp add: tasks_ok_def)
next
  case (enqueue cs ts)
  then show ?case using enqueue_ok by blast
next
  case (claimed cs ts uflt now t)
  then show ?case using claim_ok by (simp add: claim_table)
next
  case (unclaimed cs ts uflt now)
  then show ?case by (auto simp: claim_table split: option.splits)
next
  case (complete cs ts flt now i r)
  have "tasks_ok cs (update_where (\<lambda>t. tkID t = i \<and> tkStatus t = StatusRunning) (\<lambda>t. t\<lparr>tkStatus := StatusDone, tkResult := r, tkUpdatedAt := now\<rparr>) ts)"
    using complete.IH by (intro update_where_ok) (auto simp: tasks_ok_def task_ok_def status_defs)
  then show ?case using complete.IH by (simp add: Complete_def split: option.splits)
next
  case (failed cs ts flt now later i msg)
  let ?f = "\<lambda>t. t\<lparr>tkError := msg, tkUpdatedAt := now, tkStatus := (if tkAttempts t \<ge> tkMaxAttempts t then StatusDead else StatusPending),
                 tkLease := (if tkAttempts t \<ge> tkMaxAttempts t then tkLease t else Some later)\<rparr>"
  have "tasks_ok cs (update_where (\<lambda>t. tkID t = i) ?f ts)"
    using failed.IH by (intro update_where_ok) (auto simp: tasks_ok_def task_ok_def status_defs)
  then show ?case using failed.IH by (simp add: Fail_def split: option.splits)
next
  case (requeue cs ts flt now)
  have "tasks_ok cs (update_where (lapsed now) (\<lambda>t. t\<lparr>tkStatus := StatusPending, tkUpdatedAt := now\<rparr>) ts)"
    using requeue.IH by (intro update_where_ok) (auto simp: tasks_ok_def task_ok_def status_defs)
  then show ?case using requeue.IH by (simp add: RequeueExpired_def split: option.splits)
qed

section \<open>Claims\<close>

text \<open>
  C25. A task is claimed at most as often as it may be attempted.  After any sequence of operations with
  any failures, every task has been claimed exactly as often as its attempts say, at most its maximum,
  and a dead task has used them all.
\<close>

theorem task_attempts_bounded:
  assumes "task_reach cs ts" "t \<in> set ts"
  shows "int (count_list cs (tkID t)) = tkAttempts t \<and> tkAttempts t \<le> tkMaxAttempts t \<and>
    (tkStatus t = StatusDead \<longrightarrow> tkAttempts t = tkMaxAttempts t)"
  using reach_tasks_ok [OF assms(1)] assms(2) by (simp add: tasks_ok_def task_ok_def)

definition one_task :: tasks where
  "one_task = snd (EnqueueWithAttempts ''t1'' (Inr ''{}'') None ''2025-01-01 00:00:00'' ''i'' ''a'' ''scan'' 1 [])"

definition claimed_task :: "string \<Rightarrow> tasks" where
  "claimed_task lease = snd (Claim (\<lambda>_. True) None None lease ''2025-01-01 00:00:00'' one_task)"

lemma one_task_reach: "task_reach [] one_task"
  unfolding one_task_def by (intro task_reach.intros)

theorem task_attempts_bounded_witness:
  "int (count_list [''t1''] (tkID (hd (claimed_task ''9f'')))) = tkAttempts (hd (claimed_task ''9f'')) \<and>
   tkAttempts (hd (claimed_task ''9f'')) \<le> tkMaxAttempts (hd (claimed_task ''9f''))"
proof -
  let ?t = "hd one_task"
  have f: "find (claimable ''2025-01-01 00:00:00'') one_task = Some ?t" "tkID ?t = ''t1''" by code_simp+
  from task_reach.claimed [OF one_task_reach refl f(1), of "\<lambda>_. True" None "''9f''"] f(2)
  have "task_reach [''t1''] (claimed_task ''9f'')" by (simp add: claimed_task_def)
  moreover have "claimed_task ''9f'' \<noteq> []" by code_simp
  ultimately show ?thesis using task_attempts_bounded [of "[''t1'']" "claimed_task ''9f''" "hd (claimed_task ''9f'')"] by simp
qed

text \<open>
  A lease does not expire with time.  A claim writes a random identifier where the expiry is compared
  with a date: a running task whose lease starts with a character above \<open>2\<close> is returned to the queue
  at no time of this millennium, and one whose lease starts with a smaller character at every such
  time, also while its worker runs.
\<close>

theorem lease_ignores_time:
  assumes "tkStatus t = StatusRunning" "tkLease t = Some (c # cs)" "t \<in> set ts" "distinct (map tkID ts)"
  shows "(c > CHR ''2'' \<longrightarrow> t \<in> set (snd (RequeueExpired None (CHR ''2'' # date) ts))) \<and>
    (c < CHR ''2'' \<longrightarrow> t\<lparr>tkStatus := StatusPending, tkUpdatedAt := CHR ''2'' # date\<rparr> \<in> set (snd (RequeueExpired None (CHR ''2'' # date) ts)))"
proof -
  have iff: "lapsed (CHR ''2'' # date) t \<longleftrightarrow> c # cs \<le> CHR ''2'' # date" using assms(1,2) by (simp add: lapsed_def)
  have gt: "c > CHR ''2'' \<Longrightarrow> \<not> lapsed (CHR ''2'' # date) t" and lt: "c < CHR ''2'' \<Longrightarrow> lapsed (CHR ''2'' # date) t"
    unfolding iff by (auto simp: less_imp_le)
  let ?g = "\<lambda>t. if lapsed (CHR ''2'' # date) t then t\<lparr>tkStatus := StatusPending, tkUpdatedAt := CHR ''2'' # date\<rparr> else t"
  have "?g t \<in> ?g ` set ts" using assms(3) by (rule imageI)
  then show ?thesis using gt lt by (auto simp: RequeueExpired_def update_where_def)
qed

theorem lease_ignores_time_witness:
  "hd (claimed_task ''9f'') \<in> set (snd (RequeueExpired None ''2999-12-31 23:59:59'' (claimed_task ''9f''))) \<and>
   (hd (claimed_task ''0a''))\<lparr>tkStatus := StatusPending, tkUpdatedAt := ''2025-01-01 00:00:00''\<rparr>
     \<in> set (snd (RequeueExpired None ''2025-01-01 00:00:00'' (claimed_task ''0a'')))"
proof -
  have f: "tkStatus (hd (claimed_task l)) = StatusRunning \<and> tkLease (hd (claimed_task l)) = Some l \<and>
      hd (claimed_task l) \<in> set (claimed_task l) \<and> distinct (map tkID (claimed_task l))" for l
    by (simp add: claimed_task_def one_task_def Claim_def EnqueueWithAttempts_def claimable_def update_where_def mark_claimed_def Let_def status_defs)
  show ?thesis
    using lease_ignores_time [of "hd (claimed_task ''9f'')" "CHR ''9''" "''f''" "claimed_task ''9f''" "''999-12-31 23:59:59''"]
      lease_ignores_time [of "hd (claimed_task ''0a'')" "CHR ''0''" "''a''" "claimed_task ''0a''" "''025-01-01 00:00:00''"]
      f [of "''9f''"] f [of "''0a''"] by (simp add: less_char_def)
qed

end
