(* ===== verification/Go_Any.thy ===== *)
theory Go_Any
  imports Trace_Prelude
begin

text \<open>
  Values of Go's type \<open>any\<close> as the playbook packages meet them, and the functions of
  \<open>strings\<close> and \<open>fmt\<close> they apply to them.

  A \<open>map[string]any\<close> is an association list with distinct keys; its order stands for the order
  in which one \<open>range\<close> over the map visits it, which only decides which of several errors is
  reported.  A value of any other Go type than the ones distinguished by the code's type switches
  is \<^term>\<open>VOther\<close>, given by the text that \<open>%v\<close> prints for it.
\<close>

datatype any =
    VNil
  | VBool bool
  | VInt int
  | VStr string
  | VList "any list"
  | VMap "(string \<times> any) list"
  | VOther string

type_synonym obj = "(string \<times> any) list"

text \<open>The text of \<open>fmt.Sprintf("%v", v)\<close>; maps are printed in the order of their keys.\<close>

fun go_sprint :: "any \<Rightarrow> string" where
  "go_sprint VNil = ''<nil>''"
| "go_sprint (VBool b) = (if b then ''true'' else ''false'')"
| "go_sprint (VInt i) = show_int i"
| "go_sprint (VStr s) = s"
| "go_sprint (VList vs) = ''['' @ Join (map go_sprint vs) '' '' @ '']''"
| "go_sprint (VMap m) =
     ''map['' @ Join (map (\<lambda>(k, t). k @ '':'' @ t)
        (sort_key fst (map (\<lambda>(k, v). (k, go_sprint v)) m))) '' '' @ '']''"
| "go_sprint (VOther t) = t"

text \<open>\<open>s, _ := v.(string)\<close> and \<open>m, ok := v.(map[string]any)\<close>.\<close>

definition as_string :: "any \<Rightarrow> string" where
  "as_string v = (case v of VStr s \<Rightarrow> s | _ \<Rightarrow> '''')"

definition as_map :: "any \<Rightarrow> obj option" where
  "as_map v = (case v of VMap m \<Rightarrow> Some m | _ \<Rightarrow> None)"

text \<open>\<open>s, _ := m[k].(string)\<close>: a missing key reads as the nil value.\<close>

definition str_field :: "obj \<Rightarrow> string \<Rightarrow> string" where
  "str_field m k = (case map_of m k of Some v \<Rightarrow> as_string v | None \<Rightarrow> '''')"

text \<open>\<open>m[k] = v\<close>.\<close>

fun put :: "string \<Rightarrow> 'v \<Rightarrow> (string \<times> 'v) list \<Rightarrow> (string \<times> 'v) list" where
  "put k v [] = [(k, v)]"
| "put k v ((k', v') # m) = (if k' = k then (k, v) # m else (k', v') # put k v m)"

lemma map_of_put [simp]: "map_of (put k v m) j = (if j = k then Some v else map_of m j)"
  by (induction m) auto

lemma keys_put: "fst ` set (put k v m) = insert k (fst ` set m)"
  by (induction k v m rule: put.induct) (simp_all add: insert_commute)

lemma distinct_put: "distinct (map fst m) \<Longrightarrow> distinct (map fst (put k v m))"
proof (induction m)
  case (Cons p m)
  then show ?case
    by (cases p) (use keys_put [of k v m] in auto)
qed simp

text \<open>\<open>%q\<close> of a string, escapes as for ASCII text.\<close>

definition quote_char :: "char \<Rightarrow> string" where
  "quote_char c =
     (if c = CHR 0x22 then [CHR 0x5C, c]
      else if c = CHR 0x5C then [c, c]
      else if c = CHR 0x07 then CHR 0x5C # ''a''
      else if c = CHR 0x08 then CHR 0x5C # ''b''
      else if c = CHR 0x09 then CHR 0x5C # ''t''
      else if c = CHR 0x0A then CHR 0x5C # ''n''
      else if c = CHR 0x0B then CHR 0x5C # ''v''
      else if c = CHR 0x0C then CHR 0x5C # ''f''
      else if c = CHR 0x0D then CHR 0x5C # ''r''
      else if (of_char c :: nat) < 16 then CHR 0x5C # ''x0'' @ show_hex (of_char c)
      else if (of_char c :: nat) < 32 \<or> of_char c = (127 :: nat) then CHR 0x5C # ''x'' @ show_hex (of_char c)
      else [c])"

definition go_quote :: "string \<Rightarrow> string" where
  "go_quote s = CHR 0x22 # concat (map quote_char s) @ [CHR 0x22]"

section \<open>Splitting, searching and trimming\<close>

text \<open>\<open>strings.Split(s, sep)\<close> for a one-byte separator; the result is never empty.\<close>

fun Split :: "char \<Rightarrow> string \<Rightarrow> string list" where
  "Split c [] = [[]]"
| "Split c (x # xs) =
     (if x = c then [] # Split c xs
      else (case Split c xs of [] \<Rightarrow> [[x]] | p # ps \<Rightarrow> (x # p) # ps))"

text \<open>\<open>strings.Index(s, sub)\<close>: the first position where \<open>sub\<close> occurs.\<close>

fun Index :: "string \<Rightarrow> string \<Rightarrow> nat option" where
  "Index [] sub = (if sub = [] then Some 0 else None)"
| "Index (c # cs) sub = (if HasPrefix (c # cs) sub then Some 0 else map_option Suc (Index cs sub))"

text \<open>\<open>strings.HasSuffix\<close> and \<open>strings.TrimSuffix\<close>.\<close>

definition HasSuffix :: "string \<Rightarrow> string \<Rightarrow> bool" where
  "HasSuffix s suf \<longleftrightarrow> length suf \<le> length s \<and> drop (length s - length suf) s = suf"

definition TrimSuffix :: "string \<Rightarrow> string \<Rightarrow> string" where
  "TrimSuffix s suf = (if HasSuffix s suf then take (length s - length suf) s else s)"

text \<open>\<open>strings.Trim(s, cutset)\<close> and \<open>strings.ContainsAny(s, chars)\<close>.\<close>

definition Trim :: "string \<Rightarrow> string \<Rightarrow> string" where
  "Trim s cutset = rev (dropWhile (\<lambda>c. c \<in> set cutset) (rev (dropWhile (\<lambda>c. c \<in> set cutset) s)))"

definition ContainsAny :: "string \<Rightarrow> string \<Rightarrow> bool" where
  "ContainsAny s chars \<longleftrightarrow> list_ex (\<lambda>c. c \<in> set chars) s"

lemma ContainsAny_iff: "ContainsAny s chars \<longleftrightarrow> set s \<inter> set chars \<noteq> {}"
  by (auto simp: ContainsAny_def list_ex_iff)

lemma Split_not_Nil [simp]: "Split c s \<noteq> []"
  by (induction s) (auto split: list.splits)

lemma Split_Join: "Join (Split c s) [c] = s"
proof (induction s)
  case (Cons x xs)
  obtain p ps where sp: "Split c xs = p # ps"
    using Split_not_Nil [of c xs] by (cases "Split c xs") auto
  show ?case
    using Cons by (cases ps) (simp_all add: sp)
qed simp

lemma Contains_iff: "Contains s sub \<longleftrightarrow> (\<exists>a b. s = a @ sub @ b)"
proof
  show "Contains s sub \<Longrightarrow> \<exists>a b. s = a @ sub @ b"
  proof (induction s)
    case (Cons c cs)
    show ?case
    proof (cases "HasPrefix (c # cs) sub")
      case True
      then have "c # cs = [] @ sub @ drop (length sub) (c # cs)"
        unfolding HasPrefix_def by (metis append_Nil append_take_drop_id)
      then show ?thesis by blast
    next
      case False
      with Cons obtain a b where "cs = a @ sub @ b" by auto
      then have "c # cs = (c # a) @ sub @ b" by simp
      then show ?thesis by blast
    qed
  qed simp
next
  show "\<exists>a b. s = a @ sub @ b \<Longrightarrow> Contains s sub"
    using Contains_infix by blast
qed

lemma Index_Contains: "Index s sub \<noteq> None \<longleftrightarrow> Contains s sub"
  by (induction s) auto

end
