(* ===== verification/Playbook_Scope.thy ===== *)
theory Playbook_Scope
  imports Go_Any
begin

text \<open>
  Interpolation and conditions of playbook steps (\<open>internal/playbook/interpolate.go\<close>).

  The regular expression \<open>\$\{([^}]+)\}\<close> is the scanner \<open>template_segs\<close>: it cuts a template into
  literal bytes and references, leftmost match first.  \<open>interpolateString\<close> substitutes the printed
  value of each reference in one pass and stops at the first one that does not resolve.
  \<open>strconv.ParseFloat\<close> with the comparison of two floats, and the functions of \<open>net/netip\<close>, are
  fields of the environment \<open>cond_env\<close>.
\<close>

section \<open>Scope and paths\<close>

record Scope =
  scInput :: obj
  scResults :: obj
  scInvestigation :: "obj option"

fun lookup :: "obj \<Rightarrow> string list \<Rightarrow> any result" where
  "lookup m [] = Inl ''empty keys''"
| "lookup m (key # keys) =
     (case map_of m key of
        None \<Rightarrow> Inl (''key '' @ key @ '' not found'')
      | Some val \<Rightarrow>
          if keys = [] then Inr val
          else (case as_map val of
                  None \<Rightarrow> Inl (''key '' @ key @ '' is not a map'')
                | Some n \<Rightarrow> lookup n keys))"

text \<open>The loop of the scope \<open>result\<close>: \<open>parts[1:i]\<close> joined is tried as a key of the results, for
  \<open>i\<close> from the last part down to the third.\<close>

fun result_scan :: "obj \<Rightarrow> string list \<Rightarrow> nat \<Rightarrow> any option" where
  "result_scan results parts i =
     (if i < 2 then None
      else (case lookup results [Join (take (i - 1) (drop 1 parts)) ''.''] of
              Inl _ \<Rightarrow> result_scan results parts (i - 1)
            | Inr val \<Rightarrow>
                (case as_map val of
                   Some m \<Rightarrow>
                     (case lookup m (drop i parts) of
                        Inr v \<Rightarrow> Some v
                      | Inl _ \<Rightarrow> result_scan results parts (i - 1))
                 | None \<Rightarrow>
                     if i = length parts - 1 then Some val
                     else result_scan results parts (i - 1))))"

declare result_scan.simps [simp del]

definition resolve_parts :: "string list \<Rightarrow> Scope \<Rightarrow> any result" where
  "resolve_parts parts scope =
     (if parts = [] then Inl ''empty path''
      else if hd parts = ''input'' then
        if length parts < 2 then Inl ''input path too short''
        else lookup (scInput scope) (drop 1 parts)
      else if hd parts = ''result'' then
        if length parts < 2 then Inl ''result path too short''
        else (case result_scan (scResults scope) parts (length parts - 1) of
                Some v \<Rightarrow> Inr v
              | None \<Rightarrow> lookup (scResults scope) (drop 1 parts))
      else if hd parts = ''outputs'' then
        if length parts < 4
        then Inl (''outputs path requires agent.action.key, got '' @ show_nat (length parts) @ '' parts'')
        else (let key = parts ! 1 @ ''.'' @ parts ! 2 in
              case map_of (scResults scope) key of
                None \<Rightarrow> Inl (''no output for '' @ key)
              | Some outputs \<Rightarrow>
                  (case as_map outputs of
                     None \<Rightarrow> Inl (''output for '' @ key @ '' is not a map'')
                   | Some outputMap \<Rightarrow> lookup outputMap (drop 3 parts)))
      else if hd parts = ''investigation'' then
        if length parts < 2 then Inl ''investigation path too short''
        else (case scInvestigation scope of
                None \<Rightarrow> Inl ''no investigation in scope''
              | Some m \<Rightarrow> lookup m (drop 1 parts))
      else Inl (''unknown scope: '' @ hd parts))"

definition resolvePath :: "string \<Rightarrow> Scope \<Rightarrow> any result" where
  "resolvePath path scope = resolve_parts (Split (CHR ''.'') path) scope"

section \<open>Templates\<close>

datatype seg = Lit char | Ref string

text \<open>A match of \<open>\$\{([^}]+)\}\<close> at the head of the text: the path and the rest.\<close>

definition match_ref :: "string \<Rightarrow> (string \<times> string) option" where
  "match_ref s =
     (if HasPrefix s ''${'' then
        (let body = drop 2 s; path = takeWhile (\<lambda>c. c \<noteq> CHR ''}'') body;
             rest = dropWhile (\<lambda>c. c \<noteq> CHR ''}'') body in
         if path \<noteq> [] \<and> rest \<noteq> [] then Some (path, tl rest) else None)
      else None)"

lemma match_ref_SomeD:
  assumes "match_ref s = Some (path, rest)"
  shows "s = ''${'' @ path @ ''}'' @ rest" "CHR ''}'' \<notin> set path" "path \<noteq> []"
proof -
  let ?P = "\<lambda>c. c \<noteq> CHR ''}''" and ?b = "drop 2 s"
  have pre: "take 2 s = ''${''" and p: "path = takeWhile ?P ?b" "path \<noteq> []"
    and r: "dropWhile ?P ?b \<noteq> []" "rest = tl (dropWhile ?P ?b)"
    using assms by (auto simp: match_ref_def HasPrefix_def Let_def numeral_2_eq_2 split: if_splits)
  have "hd (dropWhile ?P ?b) = CHR ''}''"
    using hd_dropWhile [OF r(1)] by simp
  then have "dropWhile ?P ?b = CHR ''}'' # rest"
    using r by (cases "dropWhile ?P ?b") auto
  then have "?b = path @ CHR ''}'' # rest"
    using takeWhile_dropWhile_id [of ?P ?b] p(1) by simp
  then show "s = ''${'' @ path @ ''}'' @ rest"
    using append_take_drop_id [of 2 s] pre by simp
  show "CHR ''}'' \<notin> set path"
    using p(1) by (auto dest: set_takeWhileD)
  show "path \<noteq> []" by (rule p(2))
qed

function template_segs :: "string \<Rightarrow> seg list" where
  "template_segs [] = []"
| "template_segs (c # cs) =
     (case match_ref (c # cs) of
        Some (path, rest) \<Rightarrow> Ref path # template_segs rest
      | None \<Rightarrow> Lit c # template_segs cs)"
  by pat_completeness auto

termination
  by (relation "measure length") (auto dest!: match_ref_SomeD(1))

definition refs :: "string \<Rightarrow> string list" where
  "refs s = concat (map (\<lambda>g. case g of Ref p \<Rightarrow> [p] | Lit _ \<Rightarrow> []) (template_segs s))"

text \<open>\<open>varRe.MatchString\<close>.\<close>

definition has_ref :: "string \<Rightarrow> bool" where
  "has_ref s \<longleftrightarrow> refs s \<noteq> []"

text \<open>The callback of \<open>ReplaceAllStringFunc\<close> over the template_segs, with \<open>firstErr\<close> as the error.\<close>

fun replace_segs :: "Scope \<Rightarrow> seg list \<Rightarrow> string result" where
  "replace_segs scope [] = Inr ''''"
| "replace_segs scope (Lit c # gs) =
     (case replace_segs scope gs of Inl e \<Rightarrow> Inl e | Inr t \<Rightarrow> Inr (c # t))"
| "replace_segs scope (Ref path # gs) =
     (case resolvePath path scope of
        Inl e \<Rightarrow> Inl (''resolve '' @ path @ '': '' @ e)
      | Inr val \<Rightarrow>
          (case replace_segs scope gs of Inl e \<Rightarrow> Inl e | Inr t \<Rightarrow> Inr (go_sprint val @ t)))"

definition interpolateString :: "string \<Rightarrow> Scope \<Rightarrow> string result" where
  "interpolateString s scope = (if \<not> has_ref s then Inr s else replace_segs scope (template_segs s))"

text \<open>A map is visited in the order of its list and a list by index.\<close>

fun interpolate :: "any \<Rightarrow> Scope \<Rightarrow> any result"
  and interpolate_map :: "obj \<Rightarrow> Scope \<Rightarrow> obj result"
  and interpolate_list :: "nat \<Rightarrow> any list \<Rightarrow> Scope \<Rightarrow> any list result" where
  "interpolate (VStr s) scope =
     (case interpolateString s scope of Inl e \<Rightarrow> Inl e | Inr t \<Rightarrow> Inr (VStr t))"
| "interpolate (VMap m) scope =
     (case interpolate_map m scope of Inl e \<Rightarrow> Inl e | Inr out \<Rightarrow> Inr (VMap out))"
| "interpolate (VList vs) scope =
     (case interpolate_list 0 vs scope of Inl e \<Rightarrow> Inl e | Inr out \<Rightarrow> Inr (VList out))"
| "interpolate VNil scope = Inr VNil"
| "interpolate (VBool b) scope = Inr (VBool b)"
| "interpolate (VInt i) scope = Inr (VInt i)"
| "interpolate (VOther t) scope = Inr (VOther t)"
| "interpolate_map [] scope = Inr []"
| "interpolate_map ((k, v) # m) scope =
     (case interpolate v scope of
        Inl e \<Rightarrow> Inl (''interpolate key '' @ k @ '': '' @ e)
      | Inr iv \<Rightarrow>
          (case interpolate_map m scope of Inl e \<Rightarrow> Inl e | Inr out \<Rightarrow> Inr ((k, iv) # out)))"
| "interpolate_list i [] scope = Inr []"
| "interpolate_list i (v # vs) scope =
     (case interpolate v scope of
        Inl e \<Rightarrow> Inl (''interpolate index '' @ show_nat i @ '': '' @ e)
      | Inr iv \<Rightarrow>
          (case interpolate_list (Suc i) vs scope of Inl e \<Rightarrow> Inl e | Inr out \<Rightarrow> Inr (iv # out)))"

section \<open>Conditions\<close>

text \<open>\<open>ceNumCmp lv rv op\<close> is the comparison of the two floats when both strings parse as floats.
  The fields on addresses are \<open>netip.ParseAddr\<close>, \<open>netip.ParsePrefix\<close> and \<open>Prefix.Contains\<close>.\<close>

record ('a, 'p) cond_env =
  ceNumCmp :: "string \<Rightarrow> string \<Rightarrow> string \<Rightarrow> bool option"
  ceParseAddr :: "string \<Rightarrow> 'a result"
  ceParsePrefix :: "string \<Rightarrow> 'p result"
  cePrefixContains :: "'p \<Rightarrow> 'a \<Rightarrow> bool"

definition condOps :: "string list" where
  "condOps = [''!='', ''>='', ''<='', ''=='', ''>'', ''<'']"

definition splitKeywordOp :: "string \<Rightarrow> string \<Rightarrow> (string \<times> string) option" where
  "splitKeywordOp expr op =
     map_option (\<lambda>idx. (take idx expr, drop (idx + length op) expr)) (Index expr op)"

definition interpOrLiteral :: "string \<Rightarrow> Scope \<Rightarrow> string result" where
  "interpOrLiteral tok scope =
     (if has_ref tok then interpolateString tok scope else Inr (Trim tok [CHR 0x22, CHR '' '']))"

definition compareOrdered :: "('a, 'p) cond_env \<Rightarrow> string \<Rightarrow> string \<Rightarrow> string \<Rightarrow> bool" where
  "compareOrdered env lv rv op =
     (case ceNumCmp env lv rv op of
        Some b \<Rightarrow> b
      | None \<Rightarrow>
          if op = ''>='' then lv \<ge> rv
          else if op = ''<='' then lv \<le> rv
          else if op = ''>'' then lv > rv
          else if op = ''<'' then lv < rv
          else False)"

definition evalCIDR :: "('a, 'p) cond_env \<Rightarrow> string \<Rightarrow> string \<Rightarrow> Scope \<Rightarrow> bool result" where
  "evalCIDR env left right scope =
     (case interpolateString (TrimSpace left) scope of
        Inl e \<Rightarrow> Inl (''eval cidr left: '' @ e)
      | Inr lv \<Rightarrow>
     (case interpOrLiteral (TrimSpace right) scope of
        Inl e \<Rightarrow> Inl (''eval cidr right: '' @ e)
      | Inr rv \<Rightarrow>
     (case ceParseAddr env (TrimSpace lv) of
        Inl e \<Rightarrow> Inl (''cidr left is not an IP: '' @ e)
      | Inr addr \<Rightarrow>
     (case ceParsePrefix env (TrimSpace rv) of
        Inl e \<Rightarrow> Inl (''cidr right is not a CIDR: '' @ e)
      | Inr prefix \<Rightarrow> Inr (cePrefixContains env prefix addr)))))"

text \<open>The strings that \<open>strconv.ParseBool\<close> accepts.\<close>

definition ParseBool :: "string \<Rightarrow> bool option" where
  "ParseBool s =
     (if s \<in> {''1'', ''t'', ''T'', ''TRUE'', ''true'', ''True''} then Some True
      else if s \<in> {''0'', ''f'', ''F'', ''FALSE'', ''false'', ''False''} then Some False
      else None)"

definition truthy :: "string \<Rightarrow> bool" where
  "truthy resolved =
     (case ParseBool resolved of
        None \<Rightarrow> resolved \<noteq> '''' \<and> resolved \<noteq> ''0'' \<and> resolved \<noteq> ''false''
      | Some b \<Rightarrow> b)"

definition eval_op :: "('a, 'p) cond_env \<Rightarrow> string \<Rightarrow> nat \<Rightarrow> string \<Rightarrow> Scope \<Rightarrow> bool result" where
  "eval_op env expr idx op scope =
     (case interpolateString (TrimSpace (take idx expr)) scope of
        Inl e \<Rightarrow> Inl (''eval left: '' @ e)
      | Inr lv \<Rightarrow>
     (case interpOrLiteral (TrimSpace (drop (idx + length op) expr)) scope of
        Inl e \<Rightarrow> Inl (''eval right: '' @ e)
      | Inr rv \<Rightarrow>
          if op = ''=='' then Inr (lv = rv)
          else if op = ''!='' then Inr (lv \<noteq> rv)
          else Inr (compareOrdered env lv rv op)))"

text \<open>The loop over \<open>condOps\<close>: the first operator of that list that occurs in the expression.\<close>

fun eval_ops :: "('a, 'p) cond_env \<Rightarrow> string list \<Rightarrow> string \<Rightarrow> Scope \<Rightarrow> bool result option" where
  "eval_ops env [] expr scope = None"
| "eval_ops env (op # ops) expr scope =
     (case Index expr op of
        Some idx \<Rightarrow> Some (eval_op env expr idx op scope)
      | None \<Rightarrow> eval_ops env ops expr scope)"

definition evaluateCondition :: "('a, 'p) cond_env \<Rightarrow> string \<Rightarrow> Scope \<Rightarrow> bool result" where
  "evaluateCondition env expr0 scope =
     (let expr = TrimSpace expr0 in
      if expr = '''' then Inr True
      else (case splitKeywordOp expr '' in_cidr '' of
        Some (left, right) \<Rightarrow> evalCIDR env left right scope
      | None \<Rightarrow>
     (case splitKeywordOp expr '' contains '' of
        Some (left, right) \<Rightarrow>
          (case interpolateString (TrimSpace left) scope of
             Inl e \<Rightarrow> Inl (''eval contains left: '' @ e)
           | Inr lv \<Rightarrow>
          (case interpOrLiteral (TrimSpace right) scope of
             Inl e \<Rightarrow> Inl (''eval contains right: '' @ e)
           | Inr rv \<Rightarrow> Inr (Contains lv rv)))
      | None \<Rightarrow>
     (case eval_ops env condOps expr scope of
        Some r \<Rightarrow> r
      | None \<Rightarrow>
     (case interpolateString expr scope of
        Inl e \<Rightarrow> Inl (''resolve expr: '' @ e)
      | Inr resolved \<Rightarrow> Inr (truthy resolved))))))"

section \<open>Templates are cut without loss\<close>

fun seg_text :: "seg \<Rightarrow> string" where
  "seg_text (Lit c) = [c]"
| "seg_text (Ref p) = ''${'' @ p @ ''}''"

lemma template_segs_text: "concat (map seg_text (template_segs s)) = s"
proof (induction s rule: template_segs.induct)
  case (2 c cs)
  show ?case
  proof (cases "match_ref (c # cs)")
    case (Some pr)
    obtain path rest where pr: "pr = (path, rest)" by (cases pr)
    have "c # cs = ''${'' @ path @ ''}'' @ rest"
      using Some pr by (auto dest: match_ref_SomeD(1))
    with 2 Some pr show ?thesis by simp
  qed (use 2 in simp)
qed simp

lemma refs_mem: "p \<in> set (refs s) \<longleftrightarrow> Ref p \<in> set (template_segs s)"
  by (auto simp: refs_def split: seg.splits)

lemma ref_occurs:
  assumes "p \<in> set (refs s)"
  shows "Contains s (''${'' @ p @ ''}'')"
proof -
  obtain xs ys where "template_segs s = xs @ Ref p # ys"
    using assms by (auto simp: refs_mem dest: split_list)
  then have "s = concat (map seg_text xs) @ (''${'' @ p @ ''}'') @ concat (map seg_text ys)"
    using template_segs_text [of s] by simp
  then show ?thesis unfolding Contains_iff by blast
qed

text \<open>What a successful substitution puts in the place of a segment.\<close>

fun seg_value :: "Scope \<Rightarrow> seg \<Rightarrow> string" where
  "seg_value scope (Lit c) = [c]"
| "seg_value scope (Ref p) = (case resolvePath p scope of Inr v \<Rightarrow> go_sprint v | Inl _ \<Rightarrow> [])"

lemma replace_segs_find:
  "replace_segs scope gs =
     (case find (\<lambda>p. isl (resolvePath p scope))
        (concat (map (\<lambda>g. case g of Ref p \<Rightarrow> [p] | Lit _ \<Rightarrow> []) gs)) of
        None \<Rightarrow> Inr (concat (map (seg_value scope) gs))
      | Some p \<Rightarrow> Inl (''resolve '' @ p @ '': '' @ projl (resolvePath p scope)))"
  by (induction scope gs rule: replace_segs.induct)
    (auto split: sum.splits option.splits)

lemma no_ref_values:
  assumes "\<not> has_ref s"
  shows "concat (map (seg_value scope) (template_segs s)) = s"
proof -
  have "Ref p \<notin> set (template_segs s)" for p
    using refs_mem [of p s] assms by (simp add: has_ref_def)
  then have "seg_value scope g = seg_text g" if "g \<in> set (template_segs s)" for g
    using that by (cases g) auto
  then have "concat (map (seg_value scope) (template_segs s)) = concat (map seg_text (template_segs s))"
    by (metis map_eq_conv)
  then show ?thesis by (simp only: template_segs_text)
qed

text \<open>C38. Interpolation is fail-closed and single-pass.  A template is filled in exactly when each
  of its references resolves; the literal text then stays as it is, each reference is replaced by
  the printed value, and nothing of a value is scanned again.  Otherwise the result is the error
  of the leftmost reference that does not resolve.\<close>

theorem interpolateString_fail_closed:
  "interpolateString s scope =
     (case find (\<lambda>p. isl (resolvePath p scope)) (refs s) of
        None \<Rightarrow> Inr (concat (map (seg_value scope) (template_segs s)))
      | Some p \<Rightarrow> Inl (''resolve '' @ p @ '': '' @ projl (resolvePath p scope)))"
proof (cases "has_ref s")
  case True
  then show ?thesis
    by (simp add: interpolateString_def replace_segs_find refs_def)
next
  case False
  then show ?thesis
    using no_ref_values [OF False, of scope] by (simp add: interpolateString_def has_ref_def)
qed

section \<open>Step outputs reach a template only through its references\<close>

lemma Split_head_prefix:
  assumes "Split c s = p # ps" "ps \<noteq> []"
  shows "\<exists>r. s = p @ c # r"
proof -
  obtain q qs where "ps = q # qs" using assms(2) by (cases ps) auto
  then have "s = p @ c # Join (q # qs) [c]"
    using assms(1) Split_Join [of c s] by simp
  then show ?thesis by blast
qed

lemma resolvePath_independent:
  assumes "\<not> HasPrefix path ''outputs.''" "\<not> HasPrefix path ''result.''"
  shows "resolvePath path (scope\<lparr>scResults := r\<rparr>) = resolvePath path scope"
proof -
  obtain p ps where sp: "Split (CHR ''.'') path = p # ps"
    using Split_not_Nil [of "CHR ''.''" path] by (cases "Split (CHR ''.'') path") auto
  have pre: "\<exists>r. path = p @ ''.'' @ r" if "ps \<noteq> []"
    using Split_head_prefix [OF sp that] by simp
  have "ps = []" if "p = ''outputs'' \<or> p = ''result''"
  proof (rule ccontr)
    assume "ps \<noteq> []"
    then obtain r where "path = p @ ''.'' @ r" using pre by blast
    with that assms show False by (auto simp: HasPrefix_def)
  qed
  then show ?thesis
    unfolding resolvePath_def sp resolve_parts_def by (auto split: option.splits)
qed

text \<open>The texts by which \<open>templateRefsUntrusted\<close> recognises a reference to step outputs.\<close>

definition untrusted_text :: "string \<Rightarrow> bool" where
  "untrusted_text s \<longleftrightarrow> Contains s ''${outputs.'' \<or> Contains s ''${result.''"

lemma refs_trusted:
  assumes "\<not> untrusted_text s" "p \<in> set (refs s)"
  shows "\<not> HasPrefix p ''outputs.''" "\<not> HasPrefix p ''result.''"
proof -
  have *: "Contains s (''${'' @ pre)" if "HasPrefix p pre" for pre
  proof -
    obtain a b where "s = a @ (''${'' @ p @ ''}'') @ b"
      using ref_occurs [OF assms(2)] Contains_iff by blast
    moreover have "p = pre @ drop (length pre) p"
      using that unfolding HasPrefix_def by (metis append_take_drop_id)
    ultimately have "s = a @ (''${'' @ pre) @ (drop (length pre) p @ ''}'' @ b)"
      by (metis append.assoc)
    then show ?thesis unfolding Contains_iff by blast
  qed
  show "\<not> HasPrefix p ''outputs.''" "\<not> HasPrefix p ''result.''"
    using * [of "''outputs.''"] * [of "''result.''"] assms(1) by (auto simp: untrusted_text_def)
qed

lemma replace_segs_cong:
  "(\<And>p. Ref p \<in> set gs \<Longrightarrow> resolvePath p s1 = resolvePath p s2) \<Longrightarrow>
     replace_segs s1 gs = replace_segs s2 gs"
  by (induction s1 gs rule: replace_segs.induct) (auto split: sum.splits)

lemma interpolateString_independent:
  assumes "\<not> untrusted_text s"
  shows "interpolateString s (scope\<lparr>scResults := r\<rparr>) = interpolateString s scope"
proof -
  have "resolvePath p (scope\<lparr>scResults := r\<rparr>) = resolvePath p scope"
    if "Ref p \<in> set (template_segs s)" for p
    using refs_trusted [OF assms] that by (auto simp: refs_mem intro: resolvePath_independent)
  then have "replace_segs (scope\<lparr>scResults := r\<rparr>) (template_segs s) = replace_segs scope (template_segs s)"
    by (rule replace_segs_cong)
  then show ?thesis by (simp add: interpolateString_def)
qed

section \<open>Conditions are cut before they are filled in\<close>

text \<open>The operator is searched in the text of the condition, inside references as well.  A
  comparison that is written inside the braces compares two pieces of the template and is true
  in every scope, whether or not the variable exists.\<close>

theorem condition_inside_braces:
  "evaluateCondition env ''${input.verdict != clean}'' scope = Inr True"
proof -
  let ?e = "''${input.verdict != clean}''"
  have e: "TrimSpace ?e = ?e" by code_simp
  have k: "Index ?e '' in_cidr '' = None" "Index ?e '' contains '' = None" "Index ?e ''!='' = Some 16"
    by code_simp+
  have l: "TrimSpace (take 16 ?e) = ''${input.verdict''" "TrimSpace (drop 18 ?e) = ''clean}''" by code_simp+
  have h: "\<not> has_ref ''${input.verdict''" "\<not> has_ref ''clean}''" "Trim ''clean}'' [CHR 0x22, CHR '' ''] = ''clean}''"
    by code_simp+
  have "eval_op env ?e 16 ''!='' scope = Inr True"
    unfolding eval_op_def using l h by (simp add: interpolateString_def interpOrLiteral_def)
  then have "eval_ops env condOps ?e scope = Some (Inr True)"
    unfolding condOps_def using k(3) by simp
  then show ?thesis
    unfolding evaluateCondition_def Let_def e splitKeywordOp_def k by simp
qed

end
