(* ===== verification/Go_Path.thy ===== *)
theory Go_Path
  imports Go_Any
begin

text \<open>
  The functions of \<open>path/filepath\<close> that the response package uses, for slash-separated paths.

  \<open>Clean\<close> removes empty and \<open>.\<close> components and resolves \<open>..\<close> against the component before it;
  a cleaned rooted path is therefore given by its component list (\<open>comps\<close>), which holds no
  \<open>..\<close>.  \<open>Rel\<close> is computed on these components.
\<close>

definition IsAbs :: "string \<Rightarrow> bool" where
  "IsAbs p \<longleftrightarrow> HasPrefix p ''/''"

text \<open>The component stack of \<open>Clean\<close>, newest first.\<close>

fun clean_stack :: "bool \<Rightarrow> string list \<Rightarrow> string list \<Rightarrow> string list" where
  "clean_stack rooted st [] = rev st"
| "clean_stack rooted st (c # cs) =
     (if c = '''' \<or> c = ''.'' then clean_stack rooted st cs
      else if c = ''..'' then
        (case st of
           [] \<Rightarrow> if rooted then clean_stack rooted [] cs else clean_stack rooted [''..''] cs
         | t # ts \<Rightarrow>
             if t = ''..'' then clean_stack rooted (''..'' # st) cs
             else clean_stack rooted ts cs)
      else clean_stack rooted (c # st) cs)"

definition comps :: "string \<Rightarrow> string list" where
  "comps p = clean_stack (IsAbs p) [] (Split (CHR ''/'') p)"

definition Clean :: "string \<Rightarrow> string" where
  "Clean p =
     (if IsAbs p then ''/'' @ Join (comps p) ''/''
      else if comps p = [] then ''.''
      else Join (comps p) ''/'')"

text \<open>\<open>filepath.Join\<close> of two elements: empty elements are ignored.\<close>

definition path_Join :: "string \<Rightarrow> string \<Rightarrow> string" where
  "path_Join a b =
     (if a = '''' \<and> b = '''' then ''''
      else if a = '''' then Clean b
      else if b = '''' then Clean a
      else Clean (a @ ''/'' @ b))"

definition path_Abs :: "string \<Rightarrow> string \<Rightarrow> string" where
  "path_Abs cwd p = (if IsAbs p then Clean p else path_Join cwd p)"

text \<open>\<open>filepath.Dir\<close> keeps what is up to the last slash, \<open>filepath.Base\<close> what is after it.\<close>

definition path_Dir :: "string \<Rightarrow> string" where
  "path_Dir p =
     (case LastIndexByte p (CHR ''/'') of
        None \<Rightarrow> ''.''
      | Some i \<Rightarrow> Clean (take (Suc i) p))"

definition strip_slashes :: "string \<Rightarrow> string" where
  "strip_slashes p = rev (dropWhile (\<lambda>c. c = CHR ''/'') (rev p))"

definition path_Base :: "string \<Rightarrow> string" where
  "path_Base p =
     (if p = '''' then ''.''
      else let q = strip_slashes p;
               b = (case LastIndexByte q (CHR ''/'') of None \<Rightarrow> q | Some i \<Rightarrow> drop (Suc i) q)
           in if b = '''' then ''/'' else b)"

fun drop_common :: "string list \<Rightarrow> string list \<Rightarrow> string list \<times> string list" where
  "drop_common (b # bs) (t # ts) = (if b = t then drop_common bs ts else (b # bs, t # ts))"
| "drop_common bs ts = (bs, ts)"

text \<open>\<open>filepath.Rel\<close>: one \<open>..\<close> per component of the base that the target does not share, then the
  rest of the target.  It fails when only one of the two is rooted and when it would have to
  undo a \<open>..\<close> of the base.\<close>

definition path_Rel :: "string \<Rightarrow> string \<Rightarrow> string result" where
  "path_Rel base targ =
     (if Clean targ = Clean base then Inr ''.''
      else if IsAbs base \<noteq> IsAbs targ
      then Inl (''Rel: can't make '' @ targ @ '' relative to '' @ base)
      else let (bs, ts) = drop_common (comps base) (comps targ) in
           if bs \<noteq> [] \<and> hd bs = ''..''
           then Inl (''Rel: can't make '' @ targ @ '' relative to '' @ base)
           else Inr (Join (replicate (length bs) ''..'' @ ts) ''/''))"

section \<open>Components of a rooted path\<close>

lemma IsAbs_simps [simp]: "\<not> IsAbs []" "IsAbs (c # cs) \<longleftrightarrow> c = CHR ''/''"
  by (simp_all add: IsAbs_def HasPrefix_def)

lemma IsAbs_append: "IsAbs a \<Longrightarrow> IsAbs (a @ b)"
  by (cases a) simp_all

definition plain :: "string \<Rightarrow> bool" where
  "plain c \<longleftrightarrow> c \<noteq> '''' \<and> c \<noteq> ''.'' \<and> c \<noteq> ''..'' \<and> CHR ''/'' \<notin> set c"

lemma clean_stack_plain:
  assumes "list_all plain st" "list_all (\<lambda>c. CHR ''/'' \<notin> set c) cs"
  shows "list_all plain (clean_stack True st cs)"
  using assms
proof (induction True st cs rule: clean_stack.induct)
  case (1 st)
  then show ?case by (simp add: list_all_iff)
next
  case (2 st c cs)
  then show ?case
    by (cases st) (auto simp: plain_def split: if_splits)
qed

lemma Split_no_sep: "list_all (\<lambda>p. c \<notin> set p) (Split c s)"
  by (induction s) (auto split: list.splits)

lemma comps_plain: "IsAbs p \<Longrightarrow> list_all plain (comps p)"
  using clean_stack_plain [of "[]" "Split (CHR ''/'') p"] Split_no_sep [of "CHR ''/''" p]
  by (simp add: comps_def)

lemma Split_Join_plain:
  assumes "list_all (\<lambda>p. c \<notin> set p) ps" "ps \<noteq> []"
  shows "Split c (Join ps [c]) = ps"
proof -
  have one: "Split c p = [p]" if "c \<notin> set p" for p
    using that by (induction p) auto
  have app: "Split c (p @ c # s) = p # Split c s" if "c \<notin> set p" for p s
    using that by (induction p) auto
  show ?thesis
    using assms
  proof (induction ps)
    case (Cons p ps)
    then show ?case by (cases ps) (simp_all add: one app)
  qed simp
qed

lemma clean_stack_id:
  "list_all plain cs \<Longrightarrow> clean_stack r st cs = rev st @ cs"
  by (induction cs arbitrary: st) (simp_all add: plain_def)

text \<open>Components are read back from the text that \<open>Clean\<close> writes.\<close>

lemma comps_of_comps:
  assumes "list_all plain cs"
  shows "comps (''/'' @ Join cs ''/'') = cs"
proof (cases "cs = []")
  case True
  then show ?thesis by (simp add: comps_def)
next
  case False
  have "list_all (\<lambda>p. CHR ''/'' \<notin> set p) cs"
    using assms by (auto simp: list_all_iff plain_def)
  then have "Split (CHR ''/'') (Join cs ''/'') = cs"
    using Split_Join_plain False by simp
  then show ?thesis
    using assms by (simp add: comps_def clean_stack_id)
qed

lemma clean_stack_keeps:
  assumes "list_all P st" "list_all (\<lambda>c. c \<noteq> [] \<longrightarrow> P c) cs"
  shows "list_all P (clean_stack r st cs)"
  using assms
proof (induction cs arbitrary: st)
  case (Cons c cs)
  show ?case
  proof (cases "c = '''' \<or> c = ''.''")
    case True
    then show ?thesis using Cons by simp
  next
    case False
    then show ?thesis using Cons by (cases st; cases r) auto
  qed
qed (simp add: list_all_iff)

lemma IsAbs_Join:
  assumes "cs \<noteq> []" "hd cs \<noteq> []" "CHR ''/'' \<notin> set (hd cs)"
  shows "\<not> IsAbs (Join cs ''/'')"
proof -
  obtain c x cs' where "cs = (x # c) # cs'" using assms(1,2) by (metis list.exhaust_sel)
  then show ?thesis using assms(3) by (cases cs') auto
qed

lemma IsAbs_Clean [simp]: "IsAbs (Clean p) = IsAbs p"
proof (cases "IsAbs p")
  case True
  then show ?thesis by (simp add: Clean_def)
next
  case False
  have "list_all (\<lambda>c. c \<noteq> [] \<and> CHR ''/'' \<notin> set c) (comps p)"
    unfolding comps_def
    by (rule clean_stack_keeps) (use Split_no_sep [of "CHR ''/''" p] in \<open>simp_all add: list_all_iff\<close>)
  then have "\<not> IsAbs (Join (comps p) ''/'')" if "comps p \<noteq> []"
    using IsAbs_Join [OF that] hd_in_set [OF that] by (simp add: list_all_iff)
  with False show ?thesis by (simp add: Clean_def)
qed

lemma comps_Clean [simp]: "IsAbs p \<Longrightarrow> comps (Clean p) = comps p"
  using comps_of_comps [OF comps_plain] by (simp add: Clean_def)

lemma Clean_idem: "IsAbs p \<Longrightarrow> Clean (Clean p) = Clean p"
  by (simp add: Clean_def [of "Clean p"]) (simp add: Clean_def)

lemma IsAbs_path_Abs: "IsAbs cwd \<Longrightarrow> IsAbs (path_Abs cwd p)"
  by (auto simp: path_Abs_def path_Join_def IsAbs_append)

lemma drop_common_spec:
  assumes "drop_common bs ts = (b', t')"
  shows "\<exists>pre. bs = pre @ b' \<and> ts = pre @ t'"
  using assms
proof (induction bs ts arbitrary: b' t' rule: drop_common.induct)
  case (1 b bs t ts)
  show ?case
  proof (cases "b = t")
    case True
    then obtain pre where "bs = pre @ b'" "ts = pre @ t'" using 1 by auto
    then have "b # bs = (b # pre) @ b'" "t # ts = (b # pre) @ t'" using True by auto
    then show ?thesis by blast
  next
    case False
    then show ?thesis using 1 by auto
  qed
qed auto

text \<open>A relative path that does not start with \<open>..\<close> leads to a place below the base.\<close>

lemma path_Rel_below:
  assumes abs: "IsAbs base" "IsAbs targ" and rel: "path_Rel base targ = Inr rel"
    and "rel \<noteq> ''..''" "\<not> HasPrefix rel ''../''"
  shows "\<exists>rest. comps targ = comps base @ rest"
proof (cases "Clean targ = Clean base")
  case True
  then have "comps targ = comps base" using abs comps_Clean by metis
  then show ?thesis by simp
next
  case False
  obtain bs ts where dc: "drop_common (comps base) (comps targ) = (bs, ts)" by fastforce
  then obtain pre where pre: "comps base = pre @ bs" "comps targ = pre @ ts"
    using drop_common_spec by blast
  have "rel = Join (replicate (length bs) ''..'' @ ts) ''/''"
    using rel False abs dc by (auto simp: path_Rel_def split: if_splits)
  then have "bs = []"
  proof (rule contrapos_pp)
    assume "bs \<noteq> []"
    then have "replicate (length bs) ''..'' @ ts = ''..'' # (replicate (length bs - 1) ''..'' @ ts)"
      by (cases bs) auto
    then show "rel \<noteq> Join (replicate (length bs) ''..'' @ ts) ''/''"
      using assms(4,5) by (cases "replicate (length bs - 1) ''..'' @ ts") (auto simp: HasPrefix_def)
  qed
  with pre show ?thesis by simp
qed

section \<open>Parents of a clean path\<close>

lemma last_byte_index: "x \<notin> set b \<Longrightarrow> LastIndexByte (a @ x # b) x = Some (length a)"
proof -
  assume b: "x \<notin> set b"
  then have "LastIndexByte b x = None" by (induction b) auto
  then show ?thesis by (induction a) auto
qed

lemma Split_snoc: "Split c (s @ [c]) = Split c s @ [[]]"
  by (induction s) (auto split: list.splits)

lemma clean_stack_snoc: "clean_stack r st (cs @ [[]]) = clean_stack r st cs"
proof (induction cs arbitrary: st)
  case (Cons c cs)
  show ?case
  proof (cases "c = '''' \<or> c = ''.''")
    case True
    then show ?thesis using Cons by simp
  next
    case False
    then show ?thesis using Cons by (cases st; cases r) auto
  qed
qed simp

lemma Clean_trailing: "IsAbs p \<Longrightarrow> Clean (p @ ''/'') = Clean p"
  by (simp add: Clean_def comps_def IsAbs_append Split_snoc clean_stack_snoc)

lemma Join_snoc: "ds \<noteq> [] \<Longrightarrow> Join (ds @ [d]) sep = Join ds sep @ sep @ d"
proof (induction ds)
  case (Cons x ds)
  then show ?case by (cases ds) auto
qed simp

lemma Clean_rooted:
  assumes "list_all plain cs"
  shows "Clean (''/'' @ Join cs ''/'') = ''/'' @ Join cs ''/''"
  using comps_of_comps [OF assms] by (simp add: Clean_def)

text \<open>\<open>Dir\<close> of a clean rooted path drops its last component, so a walk over the parents ends.\<close>

lemma path_Dir_comps:
  assumes "list_all plain (ds @ [d])"
  shows "path_Dir (''/'' @ Join (ds @ [d]) ''/'') = ''/'' @ Join ds ''/''"
proof (cases "ds = []")
  case True
  have "LastIndexByte (''/'' @ d) (CHR ''/'') = Some 0"
    using last_byte_index [of "CHR ''/''" d "[]"] assms by (simp add: plain_def)
  then show ?thesis
    using True Clean_rooted [of "[]"] by (simp add: path_Dir_def)
next
  case False
  let ?q = "''/'' @ Join ds ''/''"
  have eq: "''/'' @ Join (ds @ [d]) ''/'' = ?q @ CHR ''/'' # d"
    using Join_snoc [OF False] by simp
  have "LastIndexByte (?q @ CHR ''/'' # d) (CHR ''/'') = Some (length ?q)"
    using last_byte_index [of "CHR ''/''" d ?q] assms by (simp add: plain_def)
  then have "path_Dir (?q @ CHR ''/'' # d) = Clean (take (Suc (length ?q)) (?q @ CHR ''/'' # d))"
    unfolding path_Dir_def by simp
  also have "take (Suc (length ?q)) (?q @ CHR ''/'' # d) = ?q @ ''/''" by simp
  also have "Clean (?q @ ''/'') = ?q"
    using Clean_trailing [of ?q] Clean_rooted [of ds] assms by simp
  finally show ?thesis using eq by simp
qed

lemma path_Dir_shorter:
  assumes "IsAbs p"
  shows "path_Dir (Clean p) = Clean p \<or> length (path_Dir (Clean p)) < length (Clean p)"
proof (cases "comps p = []")
  case True
  then have "Clean p = ''/''" using assms by (simp add: Clean_def)
  moreover have "path_Dir ''/'' = ''/''"
    using Clean_rooted [of "[]"] by (simp add: path_Dir_def)
  ultimately show ?thesis by simp
next
  case False
  then obtain ds d where c: "comps p = ds @ [d]" by (metis rev_exhaust)
  then have "Clean p = ''/'' @ Join (ds @ [d]) ''/''" using assms by (simp add: Clean_def)
  moreover have "length (Join ds ''/'') < length (Join (ds @ [d]) ''/'')"
    using comps_plain [OF assms] c by (cases "ds = []") (simp_all add: Join_snoc plain_def)
  ultimately show ?thesis
    using path_Dir_comps [of ds d] comps_plain [OF assms] c by simp
qed

end
