(* ===== verification/Response_Guard.thy ===== *)
theory Response_Guard
  imports Go_Path
begin

text \<open>
  Validators, argument vectors and gates of the response actions
  (\<open>internal/response/executil.go\<close>).

  Everything the functions read from outside is a field of \<open>resp_env\<close>: environment variables,
  the functions of \<open>net/netip\<close>, the file system's \<open>Stat\<close> and \<open>Lstat\<close>, the clock,
  \<open>time.Parse\<close> for RFC 3339 and the JSON text of a stored command.
\<close>

datatype lstat = NotExist string | StatError string | Symlink | Device | Plain

record ('a, 'p) resp_env =
  reGetenv :: "string \<Rightarrow> string"
  reParseAddr :: "string \<Rightarrow> 'a result"
  reIsValid :: "'a \<Rightarrow> bool"
  reIsUnspecified :: "'a \<Rightarrow> bool"
  reAddrString :: "'a \<Rightarrow> string"
  reParsePrefix :: "string \<Rightarrow> 'p result"
  rePrefixContains :: "'p \<Rightarrow> 'a \<Rightarrow> bool"
  reGOOS :: string
  reProc :: "int \<Rightarrow> string option"
  rePolicyFile :: "string \<Rightarrow> bool"
  reLstat :: "string \<Rightarrow> lstat"
  reCwd :: string
  reUuid :: "nat \<Rightarrow> string"
  reClock :: int
  reParseTime :: "string \<Rightarrow> int option"
  reParseInt :: "string \<Rightarrow> int option"
  reFormatNow :: string
  reEncode :: "string list \<Rightarrow> string list \<Rightarrow> string"
  reDecode :: "string \<Rightarrow> (string list \<times> string list) option"
  reStat :: "string \<Rightarrow> string option"
  reExec :: "nat \<Rightarrow> string list \<Rightarrow> string \<times> string option"
  reInsertOk :: "nat \<Rightarrow> bool"
  reQueryErr :: "string \<Rightarrow> string option"

section \<open>Validators\<close>

definition ip_forbidden :: string where
  "ip_forbidden = '';|&$'' @ [CHR 0x60, CHR 0x5C, CHR 0x0A, CHR 0x0D, CHR 0x22, CHR 0x27] @ ''(){}<>!#~*?''"

definition name_forbidden :: string where
  "name_forbidden = [CHR ''/'', CHR 0x5C] @ '';|&$'' @ [CHR 0x60, CHR 0x22, CHR 0x0A, CHR 0x0D, CHR 0x27] @ ''(){}<>!#~*?''"

definition path_forbidden :: string where
  "path_forbidden = '';'' @ [CHR 0x0A, CHR 0x0D, CHR 0x60] @ ''$()|&<>!#~*?'' @ [CHR 0x22, CHR 0x27]"

text \<open>The loop over the allow list: unparsable and empty entries are skipped.\<close>

definition in_allowlist :: "('a, 'p) resp_env \<Rightarrow> string \<Rightarrow> 'a \<Rightarrow> bool" where
  "in_allowlist env allow addr \<longleftrightarrow>
     list_ex (\<lambda>cidr. TrimSpace cidr \<noteq> '''' \<and>
        (case reParsePrefix env (TrimSpace cidr) of
           Inl _ \<Rightarrow> False | Inr pfx \<Rightarrow> rePrefixContains env pfx addr))
       (Split (CHR '','') allow)"

definition ValidateIP :: "('a, 'p) resp_env \<Rightarrow> string \<Rightarrow> 'a result" where
  "ValidateIP env s =
     (if s = '''' then Inl ''ip is required''
      else if ContainsAny s ip_forbidden then Inl (''ip contains forbidden characters: '' @ go_quote s)
      else (case reParseAddr env (TrimSpace s) of
        Inl e \<Rightarrow> Inl (''invalid ip '' @ go_quote s @ '': '' @ e)
      | Inr addr \<Rightarrow>
          if \<not> reIsValid env addr \<or> reIsUnspecified env addr then Inl (''invalid ip '' @ go_quote s)
          else let allow = TrimSpace (reGetenv env ''TRACE_RESPONSE_IP_ALLOWLIST'') in
               if allow = '''' then Inr addr
               else if in_allowlist env allow addr then Inr addr
               else Inl (''ip '' @ go_quote s @ '' outside allowlist'')))"

text \<open>A validator that only returns an error gives \<open>None\<close> for success.\<close>

definition ValidatePID :: "('a, 'p) resp_env \<Rightarrow> int \<Rightarrow> string option" where
  "ValidatePID env pid =
     (if pid \<le> 0 \<or> pid > 4194304 then Some (''invalid pid '' @ show_int pid)
      else if reGOOS env = ''linux'' then
        map_option (\<lambda>e. ''pid '' @ show_int pid @ '' not present in /proc: '' @ e) (reProc env pid)
      else None)"

definition pidDigitsRe :: "string \<Rightarrow> bool" where
  "pidDigitsRe s \<longleftrightarrow> 1 \<le> length s \<and> length s \<le> 7 \<and> list_all is_digit s"

definition ValidatePIDString :: "('a, 'p) resp_env \<Rightarrow> string \<Rightarrow> int result" where
  "ValidatePIDString env s =
     (if \<not> pidDigitsRe s then Inl (''invalid pid '' @ go_quote s @ '': digits only'')
      else (case ValidatePID env (int (dec_val s)) of
              Some e \<Rightarrow> Inl e
            | None \<Rightarrow> Inr (int (dec_val s))))"

definition alnum :: "char \<Rightarrow> bool" where
  "alnum c \<longleftrightarrow> (let n = (of_char c :: nat) in
     65 \<le> n \<and> n \<le> 90 \<or> 97 \<le> n \<and> n \<le> 122 \<or> 48 \<le> n \<and> n \<le> 57)"

definition serviceNameRe :: "string \<Rightarrow> bool" where
  "serviceNameRe s \<longleftrightarrow> 1 \<le> length s \<and> length s \<le> 64 \<and>
     list_all (\<lambda>c. alnum c \<or> c \<in> set ''._-'') s"

definition ValidateServiceName :: "string \<Rightarrow> string option" where
  "ValidateServiceName s = (if \<not> serviceNameRe s then Some (''invalid service name '' @ go_quote s) else None)"

definition ValidateProcessName :: "string \<Rightarrow> string option" where
  "ValidateProcessName s =
     (if s = '''' then Some ''process name is required''
      else if ContainsAny s name_forbidden then Some (''invalid process name '' @ go_quote s)
      else ValidateServiceName s)"

definition ValidateFilePath :: "string \<Rightarrow> string option" where
  "ValidateFilePath p =
     (if p = '''' then Some ''path is required''
      else if CHR 0x00 \<in> set p then Some (''invalid path '' @ go_quote p @ '': NUL byte'')
      else if ContainsAny p path_forbidden then Some (''invalid path '' @ go_quote p @ '': forbidden characters'')
      else None)"

section \<open>Confinement of quarantined files\<close>

definition CheckSymlinkOrDevice :: "('a, 'p) resp_env \<Rightarrow> string \<Rightarrow> string option" where
  "CheckSymlinkOrDevice env p =
     (case reLstat env p of
        NotExist e \<Rightarrow> Some e
      | StatError e \<Rightarrow> Some e
      | Symlink \<Rightarrow> Some (''path '' @ go_quote p @ '' is a symlink'')
      | Device \<Rightarrow> Some (''path '' @ go_quote p @ '' is a device node'')
      | Plain \<Rightarrow> None)"

text \<open>The walk over the parents.  The code leaves the loop when \<open>Dir\<close> gives the same path; for the
  rooted paths it is called with, \<open>Dir\<close> gives the same or a shorter path (\<open>path_Dir_shorter\<close>).\<close>

function walk_up :: "('a, 'p) resp_env \<Rightarrow> string \<Rightarrow> string \<Rightarrow> string option" where
  "walk_up env absRoot dir =
     (if dir \<noteq> absRoot \<and> HasPrefix dir absRoot then
        (case reLstat env dir of
           Symlink \<Rightarrow> Some (''parent '' @ go_quote dir @ '' is a symlink'')
         | StatError e \<Rightarrow> Some e
         | _ \<Rightarrow>
             if \<not> length (path_Dir dir) < length dir then None
             else walk_up env absRoot (path_Dir dir))
      else None)"
  by pat_completeness auto

termination
  by (relation "measure (\<lambda>(env, absRoot, dir). length dir)") auto

declare walk_up.simps [simp del]

definition ConfineToRoot :: "('a, 'p) resp_env \<Rightarrow> string \<Rightarrow> string \<Rightarrow> string result" where
  "ConfineToRoot env root p =
     (let absRoot = path_Abs (reCwd env) root;
          candidate = (if IsAbs p then p else path_Join absRoot p);
          clean = Clean candidate in
      case path_Rel absRoot clean of
        Inl e \<Rightarrow> Inl (''path '' @ go_quote p @ '' cannot be confined: '' @ e)
      | Inr rel \<Rightarrow>
          if rel = ''..'' \<or> HasPrefix rel ''../'' then Inl (''path '' @ go_quote p @ '' escapes quarantine root'')
          else (case reLstat env clean of
                  Symlink \<Rightarrow> Inl (''destination '' @ go_quote p @ '' is a symlink'')
                | Device \<Rightarrow> Inl (''destination '' @ go_quote p @ '' is a device node'')
                | StatError e \<Rightarrow> Inl e
                | _ \<Rightarrow>
                    (case walk_up env absRoot (path_Dir clean) of
                       Some e \<Rightarrow> Inl e
                     | None \<Rightarrow> Inr clean)))"

definition ResolveQuarantineDest :: "('a, 'p) resp_env \<Rightarrow> nat \<Rightarrow> string \<Rightarrow> string \<Rightarrow> string result" where
  "ResolveQuarantineDest env k root srcPath =
     (case ValidateFilePath srcPath of
        Some e \<Rightarrow> Inl e
      | None \<Rightarrow>
          let base = path_Base (Clean srcPath) in
          if base = ''.'' \<or> base = ''/'' \<or> base = '''' then Inl (''invalid source path '' @ go_quote srcPath)
          else (case ValidateFilePath base of
                  Some e \<Rightarrow> Inl e
                | None \<Rightarrow> ConfineToRoot env root (path_Join root (base @ ''.'' @ take 8 (reUuid env k)))))"

section \<open>Argument vectors\<close>

definition IptablesBlockArgv :: "string \<Rightarrow> string list \<times> string list" where
  "IptablesBlockArgv s =
     ([''iptables'', ''-A'', ''INPUT'', ''-s'', s, ''-j'', ''DROP''],
      [''iptables'', ''-D'', ''INPUT'', ''-s'', s, ''-j'', ''DROP''])"

definition rule_name :: "string \<Rightarrow> string" where
  "rule_name s = ''trace-block-'' @ map (\<lambda>c. if c = CHR ''.'' \<or> c = CHR '':'' then CHR ''-'' else c) s"

definition NetshBlockArgv :: "string \<Rightarrow> string list \<times> string list" where
  "NetshBlockArgv s =
     ([''netsh'', ''advfirewall'', ''firewall'', ''add'', ''rule'', ''name='' @ rule_name s, ''dir=in'',
       ''action=block'', ''remoteip='' @ s],
      [''netsh'', ''advfirewall'', ''firewall'', ''delete'', ''rule'', ''name='' @ rule_name s])"

definition PfctlBlockArgv :: "string \<Rightarrow> string list \<times> string list" where
  "PfctlBlockArgv s =
     ([''pfctl'', ''-t'', ''trace'', ''-T'', ''add'', s],
      [''pfctl'', ''-t'', ''trace'', ''-T'', ''delete'', s])"

definition BlockIPArgv :: "('a, 'p) resp_env \<Rightarrow> 'a \<Rightarrow> string list \<times> string list" where
  "BlockIPArgv env ip =
     (if reGOOS env = ''windows'' then NetshBlockArgv (reAddrString env ip)
      else if reGOOS env = ''darwin'' then PfctlBlockArgv (reAddrString env ip)
      else IptablesBlockArgv (reAddrString env ip))"

definition KillPIDArgv :: "int \<Rightarrow> string list" where
  "KillPIDArgv pid = [''kill'', ''-9'', show_int pid]"

definition TaskkillPIDArgv :: "int \<Rightarrow> string list" where
  "TaskkillPIDArgv pid = [''taskkill'', ''/F'', ''/PID'', show_int pid]"

definition PkillArgv :: "string \<Rightarrow> string list" where
  "PkillArgv name = [''pkill'', ''-9'', name]"

definition TaskkillNameArgv :: "string \<Rightarrow> string list" where
  "TaskkillNameArgv name = [''taskkill'', ''/F'', ''/IM'', name]"

definition SystemctlRestartArgv :: "string \<Rightarrow> string list" where
  "SystemctlRestartArgv svc = [''systemctl'', ''restart'', svc]"

definition LaunchctlRestartArgv :: "string \<Rightarrow> string list" where
  "LaunchctlRestartArgv svc = [''launchctl'', ''kickstart'', ''-k'', ''system/'' @ svc]"

definition ScStopArgv :: "string \<Rightarrow> string list" where
  "ScStopArgv svc = [''sc'', ''stop'', svc]"

definition ScStartArgv :: "string \<Rightarrow> string list" where
  "ScStartArgv svc = [''sc'', ''start'', svc]"

definition MoveArgv :: "string \<Rightarrow> string \<Rightarrow> string list \<times> string list" where
  "MoveArgv src dst = ([''__rename__'', src, dst], [''__rename__'', dst, src])"

section \<open>Gates\<close>

definition RunScriptEnabled :: "('a, 'p) resp_env \<Rightarrow> bool" where
  "RunScriptEnabled env \<longleftrightarrow>
     TrimSpace (ToLower (reGetenv env ''TRACE_RESPONSE_RUN_SCRIPT_ENABLED'')) \<in> {''true'', ''1'', ''yes''}"

definition CheckRunScriptGate :: "('a, 'p) resp_env \<Rightarrow> obj \<Rightarrow> string option" where
  "CheckRunScriptGate env params =
     (if \<not> RunScriptEnabled env then Some ''run_script denied: disabled by default (set TRACE_RESPONSE_RUN_SCRIPT_ENABLED=true plus signed policy and per-execution approval to enable)''
      else let policy = TrimSpace (reGetenv env ''TRACE_RESPONSE_RUN_SCRIPT_POLICY'') in
      if policy = '''' then Some ''run_script denied: no signed policy file (TRACE_RESPONSE_RUN_SCRIPT_POLICY)''
      else if \<not> rePolicyFile env policy then Some ''run_script denied: signed policy file unreadable''
      else let nonce = TrimSpace (str_field params ''approval_nonce'');
               approver = TrimSpace (str_field params ''approver'');
               expiryS = TrimSpace (str_field params ''approval_expiry'') in
      if nonce = '''' \<or> approver = '''' then Some ''run_script denied: missing per-execution approval token (nonce/approver)''
      else if expiryS = '''' then Some ''run_script denied: approval token has no expiry''
      else (case (case reParseTime env expiryS of Some t \<Rightarrow> Some t | None \<Rightarrow> reParseInt env expiryS) of
              None \<Rightarrow> Some ''run_script denied: bad approval expiry''
            | Some exp \<Rightarrow>
                if reClock env > exp then Some ''run_script denied: approval token expired'' else None))"

definition CheckChainRejected :: "obj \<Rightarrow> string option" where
  "CheckChainRejected params =
     (case map_of params ''chain'' of
        None \<Rightarrow> None
      | Some v \<Rightarrow>
          if v \<noteq> VNil
          then Some ''chain actions rejected: server must expand chains into individually authorized actions''
          else None)"

definition not_rollbackable :: "string \<Rightarrow> bool" where
  "not_rollbackable s \<longleftrightarrow> s = '''' \<or> s = ''N/A'' \<or> HasPrefix s ''N/A ''"

definition DecodeStored :: "('a, 'p) resp_env \<Rightarrow> string \<Rightarrow> (string list \<times> string list) option" where
  "DecodeStored env s =
     (if not_rollbackable s then None
      else (case reDecode env s of
              None \<Rightarrow> None
            | Some (argv, undo) \<Rightarrow> if argv = [] then None else Some (argv, undo)))"

definition IsLegacyRollback :: "('a, 'p) resp_env \<Rightarrow> string \<Rightarrow> bool" where
  "IsLegacyRollback env s \<longleftrightarrow>
     (if not_rollbackable s then False else DecodeStored env s = None)"

section \<open>What the guards let through\<close>

text \<open>C35. Confinement: a destination that is accepted lies below the absolute root, component by
  component, and it is a clean path, so no \<open>..\<close> leads out of it again.\<close>

theorem ConfineToRoot_below:
  assumes "IsAbs (reCwd env)" "ConfineToRoot env root p = Inr dest"
  shows "\<exists>rest. comps dest = comps (path_Abs (reCwd env) root) @ rest \<and> list_all plain rest \<and>
     dest = ''/'' @ Join (comps dest) ''/''"
proof -
  let ?r = "path_Abs (reCwd env) root"
  let ?c = "if IsAbs p then p else path_Join ?r p"
  have root: "IsAbs ?r" using IsAbs_path_Abs [OF assms(1)] .
  have cand: "IsAbs ?c"
    using root by (auto simp: path_Join_def IsAbs_append)
  obtain rel where rel: "path_Rel ?r (Clean ?c) = Inr rel" "rel \<noteq> ''..''" "\<not> HasPrefix rel ''../''"
    and dest: "dest = Clean ?c"
    using assms(2) unfolding ConfineToRoot_def Let_def
    by (auto split: sum.splits if_splits lstat.splits option.splits)
  obtain rest where "comps dest = comps ?r @ rest"
    using path_Rel_below [OF root _ rel] cand dest by auto
  moreover have "list_all plain (comps dest)"
    using comps_plain cand dest by simp
  moreover have "dest = ''/'' @ Join (comps dest) ''/''"
  proof -
    have "comps dest = comps ?c" using comps_Clean [OF cand] dest by simp
    then show ?thesis using dest cand Clean_def [of ?c] by (simp only: if_True)
  qed
  ultimately show ?thesis by (metis list_all_append)
qed

lemma ValidateServiceName_chars:
  assumes "ValidateServiceName s = None"
  shows "s \<noteq> [] \<and> length s \<le> 64 \<and> list_all (\<lambda>c. alnum c \<or> c \<in> set ''._-'') s"
  using assms by (cases s) (auto simp: ValidateServiceName_def serviceNameRe_def split: if_splits)

lemma ValidatePIDString_range:
  assumes "ValidatePIDString env s = Inr pid"
  shows "0 < pid \<and> pid \<le> 4194304"
  using assms by (auto simp: ValidatePIDString_def ValidatePID_def split: if_splits option.splits)

text \<open>The gate is called with the script alone when a script comes from a step output; it then
  refuses under every configuration.\<close>

lemma tainted_script_refused: "CheckRunScriptGate env [(''script'', v)] \<noteq> None"
  by (simp add: CheckRunScriptGate_def Let_def str_field_def TrimSpace_def)

section \<open>A sample configuration\<close>

definition sample_resp_env :: "(string, string) resp_env" where
  "sample_resp_env =
     \<lparr>reGetenv = (\<lambda>_. ''''),
      reParseAddr = (\<lambda>s. if s = ''10.0.0.5'' then Inr s else Inl ''unable to parse IP''),
      reIsValid = (\<lambda>_. True), reIsUnspecified = (\<lambda>_. False), reAddrString = (\<lambda>a. a),
      reParsePrefix = (\<lambda>_. Inl ''no prefix''), rePrefixContains = (\<lambda>_ _. False),
      reGOOS = ''linux'', reProc = (\<lambda>_. None), rePolicyFile = (\<lambda>_. False),
      reLstat = (\<lambda>p. if p = ''/tmp/evil'' then Plain else NotExist ''no such file''),
      reCwd = ''/'', reUuid = (\<lambda>k. ''id-'' @ show_nat k), reClock = 0,
      reParseTime = (\<lambda>_. None), reParseInt = (\<lambda>_. None), reFormatNow = '''',
      reEncode = (\<lambda>a u. ''{'' @ Join a '','' @ ''}''),
      reDecode = (\<lambda>s. if s = ''{iptables,-D,INPUT,-s,10.0.0.5,-j,DROP}''
         then Some ([''iptables'', ''-D'', ''INPUT'', ''-s'', ''10.0.0.5'', ''-j'', ''DROP''],
                    [''iptables'', ''-A'', ''INPUT'', ''-s'', ''10.0.0.5'', ''-j'', ''DROP'']) else None),
      reStat = (\<lambda>_. None), reExec = (\<lambda>_ _. ('''', None)), reInsertOk = (\<lambda>_. True),
      reQueryErr = (\<lambda>_. None)\<rparr>"

lemma ConfineToRoot_below_witness:
  "\<exists>rest. ConfineToRoot sample_resp_env ''/q'' ''a/../b'' = Inr ''/q/b'' \<and>
     comps ''/q/b'' = comps (path_Abs ''/'' ''/q'') @ rest \<and> list_all plain rest"
proof -
  have c: "ConfineToRoot sample_resp_env ''/q'' ''a/../b'' = Inr ''/q/b''" by code_simp
  have cwd: "reCwd sample_resp_env = ''/''" by (simp add: sample_resp_env_def)
  show ?thesis
    using ConfineToRoot_below [OF _ c] c cwd by auto
qed

end
