(* ===== verification/Playbook_Taint.thy ===== *)
theory Playbook_Taint
  imports Playbook_Scope Response_Guard
begin

text \<open>
  Taint isolation of playbook parameters (\<open>internal/playbook/taint.go\<close>) and redaction of logged
  values (\<open>internal/audit/redact.go\<close>).

  \<open>SanitizeSinkParams\<close> compares the template of each parameter with the texts that mark a
  reference to step outputs, and checks or escapes the value of such a parameter when its name is
  one of the sinks.
\<close>

definition alnum_host :: "char \<Rightarrow> bool" where
  "alnum_host c \<longleftrightarrow> alnum c \<or> c = CHR ''.'' \<or> c = CHR ''-''"

text \<open>\<open>^[A-Za-z0-9]([A-Za-z0-9.-]{0,253}[A-Za-z0-9])?$\<close>\<close>

definition hostnameRe :: "string \<Rightarrow> bool" where
  "hostnameRe s \<longleftrightarrow>
     s \<noteq> [] \<and> alnum (hd s) \<and>
     (length s = 1 \<or> length s \<le> 255 \<and> list_all alnum_host s \<and> alnum (last s))"

definition sinkKeys :: "string list" where
  "sinkKeys = [''ip'', ''path'', ''hostname'', ''host'', ''script'', ''query'', ''webhook'', ''url'']"

definition templateRefsUntrusted :: "any \<Rightarrow> bool" where
  "templateRefsUntrusted template =
     (case template of
        VStr s \<Rightarrow> Contains s ''${outputs.'' \<or> Contains s ''${result.''
      | _ \<Rightarrow> False)"

text \<open>\<open>html.EscapeString\<close>.\<close>

definition escape_char :: "char \<Rightarrow> string" where
  "escape_char c =
     (if c = CHR ''&'' then ''&amp;''
      else if c = CHR 0x27 then ''&#39;''
      else if c = CHR ''<'' then ''&lt;''
      else if c = CHR ''>'' then ''&gt;''
      else if c = CHR 0x22 then ''&#34;''
      else [c])"

definition EscapeString :: "string \<Rightarrow> string" where
  "EscapeString s = concat (map escape_char s)"

text \<open>The mark of a cut text: an ellipsis in UTF-8, then \<open>[truncated]\<close>.\<close>

definition truncated :: string where
  "truncated = [CHR 0xE2, CHR 0x80, CHR 0xA6] @ ''[truncated]''"

definition SanitizeString :: "string \<Rightarrow> string" where
  "SanitizeString s0 =
     (let s = EscapeString (TrimSpace s0) in
      if length s > 2000 then take 2000 s @ truncated else s)"

definition SanitizeForReport :: "any \<Rightarrow> string" where
  "SanitizeForReport v = SanitizeString (go_sprint v)"

text \<open>The switch over the name of a sink: the error, or the value to pass on.\<close>

definition sink_switch :: "('a, 'p) resp_env \<Rightarrow> string \<Rightarrow> any \<Rightarrow> any result" where
  "sink_switch env k v =
     (let s = as_string v; lk = ToLower k in
      if lk = ''ip'' then
        (case ValidateIP env s of
           Inl e \<Rightarrow> Inl (''tainted param ip rejected: '' @ e) | Inr _ \<Rightarrow> Inr v)
      else if lk = ''path'' then
        (case ValidateFilePath s of
           Some e \<Rightarrow> Inl (''tainted param path rejected: '' @ e) | None \<Rightarrow> Inr v)
      else if lk = ''hostname'' \<or> lk = ''host'' then
        (if \<not> hostnameRe s
         then Inl (''tainted param '' @ k @ '' rejected: bad hostname '' @ go_quote s) else Inr v)
      else if lk = ''script'' then
        (case CheckRunScriptGate env [(''script'', VStr s)] of
           Some e \<Rightarrow> Inl (''tainted script rejected: '' @ e) | None \<Rightarrow> Inr v)
      else if lk = ''query'' \<or> lk = ''webhook'' \<or> lk = ''url'' then Inr (VStr (SanitizeString s))
      else Inr v)"

fun sanitize_loop :: "('a, 'p) resp_env \<Rightarrow> obj \<Rightarrow> obj \<Rightarrow> obj result" where
  "sanitize_loop env templates [] = Inr []"
| "sanitize_loop env templates ((k, v) # params) =
     (let skip = (case map_of templates k of
                    None \<Rightarrow> True
                  | Some tmpl \<Rightarrow> \<not> templateRefsUntrusted tmpl \<or> ToLower k \<notin> set sinkKeys) in
      case (if skip then Inr v else sink_switch env k v) of
        Inl e \<Rightarrow> Inl e
      | Inr w \<Rightarrow>
          (case sanitize_loop env templates params of
             Inl e \<Rightarrow> Inl e
           | Inr out \<Rightarrow> Inr ((k, w) # out)))"

definition SanitizeSinkParams ::
  "('a, 'p) resp_env \<Rightarrow> string \<Rightarrow> obj \<Rightarrow> obj \<Rightarrow> obj result" where
  "SanitizeSinkParams env agent templates params =
     (if agent \<noteq> ''response'' \<and> agent \<noteq> ''edr'' then Inr params
      else (case sanitize_loop env templates params of
              Inl e \<Rightarrow> Inl e
            | Inr out \<Rightarrow>
                (case CheckChainRejected params of Some e \<Rightarrow> Inl e | None \<Rightarrow> Inr out)))"

section \<open>Redaction\<close>

definition maxLoggedValueLen :: nat where
  "maxLoggedValueLen = 512"

definition sensitiveSubstrings :: "string list" where
  "sensitiveSubstrings =
     [''api_key'', ''apikey'', ''api-key'', ''secret'', ''token'', ''password'', ''passwd'', ''webhook'',
      ''private_key'', ''privatekey'', ''auth'', ''bearer'', ''session'', ''cookie'', ''otp'', ''routing_key'']"

definition sensitiveExactKeys :: "string list" where
  "sensitiveExactKeys = [''script'', ''command'', ''rollback_command'']"

definition redacted_text :: string where
  "redacted_text = ''***redacted***''"

definition sensitive_key :: "string \<Rightarrow> bool" where
  "sensitive_key k \<longleftrightarrow> list_ex (Contains (ToLower k)) sensitiveSubstrings"

fun RedactMap :: "obj \<Rightarrow> obj" and redact_entry :: "string \<Rightarrow> any \<Rightarrow> any" where
  "RedactMap [] = []"
| "RedactMap ((k, v) # m) = (k, redact_entry k v) # RedactMap m"
| "redact_entry k (VMap n) = (if sensitive_key k then VStr redacted_text else VMap (RedactMap n))"
| "redact_entry k (VStr s) =
     (if sensitive_key k \<or> ToLower k \<in> set sensitiveExactKeys then VStr redacted_text
      else if length s > maxLoggedValueLen then VStr (take maxLoggedValueLen s @ truncated)
      else VStr s)"
| "redact_entry k v =
     (if sensitive_key k \<or> ToLower k \<in> set sensitiveExactKeys then VStr redacted_text else v)"

text \<open>\<open>RedactValue\<close> differs from an entry of \<open>RedactMap\<close> for nested maps: there the exact keys count
  as well.\<close>

definition RedactValue :: "string \<Rightarrow> any \<Rightarrow> any" where
  "RedactValue key v =
     (if sensitive_key key \<or> ToLower key \<in> set sensitiveExactKeys then VStr redacted_text
      else (case v of VMap m \<Rightarrow> VMap (RedactMap m) | _ \<Rightarrow> redact_entry key v))"

definition RedactKeys :: "string \<Rightarrow> string" where
  "RedactKeys s =
     (if s = '''' then s
      else if length s > 8 * maxLoggedValueLen then take (8 * maxLoggedValueLen) s @ truncated
      else s)"

section \<open>Untrusted values meet their check\<close>

definition html_special :: "char set" where
  "html_special = {CHR ''<'', CHR ''>'', CHR 0x22, CHR 0x27}"

lemma EscapeString_chars: "set (EscapeString s) \<inter> html_special = {}"
  by (auto simp: EscapeString_def escape_char_def html_special_def split: if_splits)

lemma SanitizeString_chars: "set (SanitizeString s) \<inter> html_special = {}"
proof -
  have "set (take 2000 t) \<inter> html_special = {}" if "set t \<inter> html_special = {}" for t
    using that set_take_subset [of 2000 t] by auto
  moreover have "set truncated \<inter> html_special = {}"
    by (simp add: truncated_def html_special_def)
  ultimately show ?thesis
    using EscapeString_chars [of "TrimSpace s"] by (auto simp: SanitizeString_def Let_def)
qed

lemma SanitizeString_length: "length (SanitizeString s) \<le> 2014"
  by (simp add: SanitizeString_def truncated_def Let_def)

text \<open>What the value of a sink satisfies when it comes from a step output.\<close>

definition sink_ok :: "('a, 'p) resp_env \<Rightarrow> string \<Rightarrow> string \<Rightarrow> bool" where
  "sink_ok env lk s \<longleftrightarrow>
     (if lk = ''ip'' then \<not> isl (ValidateIP env s)
      else if lk = ''path'' then ValidateFilePath s = None
      else if lk = ''hostname'' \<or> lk = ''host'' then hostnameRe s
      else if lk = ''script'' then False
      else set s \<inter> html_special = {} \<and> length s \<le> 2014)"

lemma sink_switch_ok:
  assumes "sink_switch env k (VStr s) = Inr w" "ToLower k \<in> set sinkKeys"
  shows "\<exists>t. w = VStr t \<and> sink_ok env (ToLower k) t"
  using assms tainted_script_refused [of env "VStr s"] SanitizeString_chars [of s]
    SanitizeString_length [of s]
  by (auto simp: sink_switch_def sink_ok_def as_string_def sinkKeys_def Let_def
      split: if_splits sum.splits option.splits)

lemma sanitize_loop_at:
  assumes "sanitize_loop env templates params = Inr out" "map_of params k = Some v"
    "map_of templates k = Some tmpl"
  shows "\<exists>w. map_of out k = Some w \<and>
     (if templateRefsUntrusted tmpl \<and> ToLower k \<in> set sinkKeys then sink_switch env k v = Inr w
      else w = v)"
  using assms
proof (induction params arbitrary: out)
  case (Cons p params)
  obtain j u where p: "p = (j, u)" by (cases p)
  show ?case
  proof (cases "j = k")
    case True
    then show ?thesis using Cons.prems p
      by (auto simp: Let_def split: if_splits sum.splits option.splits)
  next
    case False
    obtain out' w where "sanitize_loop env templates params = Inr out'" "out = (j, w) # out'"
      using Cons.prems(1) p by (auto simp: Let_def split: sum.splits)
    then show ?thesis using Cons.IH Cons.prems False p by auto
  qed
qed simp

lemma interpolate_map_at:
  assumes "interpolate_map m scope = Inr out" "map_of m k = Some v"
  shows "\<exists>w. interpolate v scope = Inr w \<and> map_of out k = Some w"
  using assms
proof (induction m arbitrary: out)
  case (Cons p m)
  obtain j u where p: "p = (j, u)" by (cases p)
  obtain iv out' where "interpolate u scope = Inr iv" "interpolate_map m scope = Inr out'"
    "out = (j, iv) # out'"
    using Cons.prems(1) p by (auto split: sum.splits)
  then show ?case using Cons p by auto
qed simp

text \<open>Taint isolation: when the parameters of a \<open>response\<close> or \<open>edr\<close> step are accepted, the
  value of each sink parameter with a text template either does not depend on the outputs of
  earlier steps at all, or it has passed the check of its sink; a script from a step output is
  never accepted.\<close>

theorem taint_isolation:
  assumes agent: "agent = ''response'' \<or> agent = ''edr''"
    and params: "interpolate_map templates scope = Inr params"
    and out: "SanitizeSinkParams env agent templates (put ''action'' (VStr act) params) = Inr out"
    and sink: "map_of templates k = Some (VStr t)" "ToLower k \<in> set sinkKeys" "k \<noteq> ''action''"
  shows "\<exists>s. map_of out k = Some (VStr s) \<and>
     ((\<forall>r. interpolateString t (scope\<lparr>scResults := r\<rparr>) = Inr s) \<or> sink_ok env (ToLower k) s)"
proof -
  obtain s where s: "interpolateString t scope = Inr s" "map_of params k = Some (VStr s)"
    using interpolate_map_at [OF params sink(1)] by (auto split: sum.splits)
  have loop: "sanitize_loop env templates (put ''action'' (VStr act) params) = Inr out"
    using out agent by (auto simp: SanitizeSinkParams_def split: sum.splits option.splits)
  obtain w where w: "map_of out k = Some w"
    "if templateRefsUntrusted (VStr t) \<and> ToLower k \<in> set sinkKeys then sink_switch env k (VStr s) = Inr w
      else w = VStr s"
    using sanitize_loop_at [OF loop _ sink(1)] s(2) sink(3) by auto
  show ?thesis
  proof (cases "templateRefsUntrusted (VStr t)")
    case True
    then show ?thesis using sink_switch_ok [of env k s w] w sink(2) by auto
  next
    case False
    then have "\<not> untrusted_text t"
      by (simp add: templateRefsUntrusted_def untrusted_text_def)
    then show ?thesis
      using interpolateString_independent [where s = t and scope = scope] s(1) w False by auto
  qed
qed

definition sample_scope :: Scope where
  "sample_scope =
     \<lparr>scInput = [(''path'', VStr ''/tmp/evil'')],
      scResults = [(''sift.scan'', VMap [(''ip'', VStr ''10.0.0.5''), (''note'', VStr ''<b>'')])],
      scInvestigation = None\<rparr>"

definition sample_templates :: obj where
  "sample_templates = [(''ip'', VStr ''${outputs.sift.scan.ip}''), (''path'', VStr ''${input.path}'')]"

lemma taint_isolation_witness:
  "\<exists>s. map_of [(''ip'', VStr ''10.0.0.5''), (''path'', VStr ''/tmp/evil''), (''action'', VStr ''block_ip'')] ''ip''
       = Some (VStr s) \<and>
     ((\<forall>r. interpolateString ''${outputs.sift.scan.ip}'' (sample_scope\<lparr>scResults := r\<rparr>) = Inr s) \<or>
      sink_ok sample_resp_env ''ip'' s)"
proof -
  let ?p = "[(''ip'', VStr ''10.0.0.5''), (''path'', VStr ''/tmp/evil'')]"
  have 1: "interpolate_map sample_templates sample_scope = Inr ?p" by code_simp
  have 2: "SanitizeSinkParams sample_resp_env ''response'' sample_templates (put ''action'' (VStr ''block_ip'') ?p)
     = Inr [(''ip'', VStr ''10.0.0.5''), (''path'', VStr ''/tmp/evil''), (''action'', VStr ''block_ip'')]" by code_simp
  have 3: "map_of sample_templates ''ip'' = Some (VStr ''${outputs.sift.scan.ip}'')"
    by (simp add: sample_templates_def)
  have 4: "ToLower ''ip'' = ''ip''" "ToLower ''ip'' \<in> set sinkKeys" by code_simp+
  show ?thesis
    using taint_isolation [OF _ 1 2 3 4(2)] 4(1) by simp
qed

text \<open>The check looks at the parameters of the step only one level deep: an address from a step
  output below another parameter is passed on as it is.\<close>

theorem nested_param_unchecked:
  "SanitizeSinkParams env ''edr''
     [(''params'', VMap [(''ip'', VStr ''${outputs.sift.scan.ip}'')])]
     [(''params'', VMap [(''ip'', v)])] = Inr [(''params'', VMap [(''ip'', v)])]"
  by (simp add: SanitizeSinkParams_def templateRefsUntrusted_def CheckChainRejected_def)

section \<open>What the log may show\<close>

text \<open>No value below a sensitive key survives, at any depth of nested maps.\<close>

fun no_secret :: "obj \<Rightarrow> bool" where
  "no_secret [] = True"
| "no_secret ((k, v) # m) =
     ((\<not> sensitive_key k \<or> v = VStr redacted_text) \<and>
      (case v of VMap n \<Rightarrow> no_secret n | _ \<Rightarrow> True) \<and> no_secret m)"

lemma RedactMap_no_secret_entry:
  "no_secret (RedactMap m)" "case redact_entry k v of VMap n \<Rightarrow> no_secret n | _ \<Rightarrow> True"
proof (induction m and k v rule: RedactMap_redact_entry.induct)
  case (2 k v m)
  have "\<not> sensitive_key k \<or> redact_entry k v = VStr redacted_text"
    by (cases v) auto
  then show ?case using 2 by simp
qed (auto split: any.splits)

text \<open>C37. Redaction: after \<open>RedactMap\<close> each entry with a sensitive key, at any depth of nested maps,
  holds the fixed text.\<close>

theorem RedactMap_no_secret: "no_secret (RedactMap m)"
  by (rule RedactMap_no_secret_entry)

text \<open>Lists are not searched: a password in a map inside a list is logged unchanged; and a map
  below the key \<open>script\<close> is logged although a text below that key is not.\<close>

theorem redaction_gaps:
  "RedactMap [(''users'', VList [VMap [(''password'', v)]])] = [(''users'', VList [VMap [(''password'', v)]])] \<and>
   RedactMap [(''script'', VMap [(''n'', VInt i)])] = [(''script'', VMap [(''n'', VInt i)])] \<and>
   RedactMap [(''script'', VStr s)] = [(''script'', VStr redacted_text)]"
proof -
  have "\<not> sensitive_key ''users''" "\<not> sensitive_key ''script''" "\<not> sensitive_key ''n''"
    "ToLower ''users'' \<notin> set sensitiveExactKeys" "ToLower ''n'' \<notin> set sensitiveExactKeys"
    "ToLower ''script'' \<in> set sensitiveExactKeys"
    by code_simp+
  then show ?thesis by simp
qed

end
