(* ===== verification/Approval_Store.thy ===== *)
theory Approval_Store
  imports Go_Any
begin

text \<open>
  Investigations, approval rows and approval tokens (\<open>internal/investigation/investigation.go\<close>,
  \<open>internal/playbook/approval.go\<close>) and the commands that decide them
  (\<open>cmd/trace/approval.go\<close>).

  The two SQL tables are lists of rows in insertion order.  The clock, the random bytes, SHA-256
  and HMAC, and \<open>time.Parse\<close> for RFC 3339 are arguments.
\<close>

section \<open>Investigations\<close>

record Investigation =
  ivID :: string
  ivStatus :: string
  ivIntent :: string
  ivPlaybook :: string
  ivCreatedAt :: string

record ApprovalRow =
  apNonce :: string
  apInvestigationID :: string
  apStepIndex :: nat
  apLabel :: string
  apAgent :: string
  apAction :: string
  apParamsHash :: string
  apApprover :: string
  apStatus :: string
  apCreatedAt :: string
  apExpiresAt :: string

record inv_db =
  dbInvestigations :: "Investigation list"
  dbApprovals :: "ApprovalRow list"

definition inv_Create :: "string \<Rightarrow> string \<Rightarrow> string \<Rightarrow> string \<Rightarrow> inv_db \<Rightarrow> Investigation result \<times> inv_db" where
  "inv_Create uuid now intent playbook db =
     (let ivn = \<lparr>ivID = uuid, ivStatus = ''pending'', ivIntent = intent, ivPlaybook = playbook,
                ivCreatedAt = now\<rparr> in
      if uuid \<in> ivID ` set (dbInvestigations db)
      then (Inl ''create investigation: UNIQUE constraint failed: investigations.id'', db)
      else (Inr ivn, db\<lparr>dbInvestigations := dbInvestigations db @ [ivn]\<rparr>))"

definition inv_Get :: "string \<Rightarrow> inv_db \<Rightarrow> Investigation result" where
  "inv_Get iid db =
     (case find (\<lambda>v. ivID v = iid) (dbInvestigations db) of
        None \<Rightarrow> Inl ''get investigation: sql: no rows in result set''
      | Some ivn \<Rightarrow> Inr ivn)"

definition id_char :: "char \<Rightarrow> bool" where
  "id_char c \<longleftrightarrow> (let n = (of_char c :: nat) in
     48 \<le> n \<and> n \<le> 57 \<or> 97 \<le> n \<and> n \<le> 102 \<or> 65 \<le> n \<and> n \<le> 70 \<or> c = CHR ''-'')"

text \<open>The first of the rows with the greatest key.\<close>

fun newest :: "('a \<Rightarrow> string) \<Rightarrow> 'a list \<Rightarrow> 'a option" where
  "newest f [] = None"
| "newest f (x # xs) =
     (case newest f xs of None \<Rightarrow> Some x | Some y \<Rightarrow> if f x \<ge> f y then Some x else Some y)"

text \<open>Only the characters of identifiers remain of the prefix, so nothing is left to escape for
  \<open>LIKE\<close>, which compares ASCII letters without case.\<close>

definition inv_GetByPrefix :: "string \<Rightarrow> inv_db \<Rightarrow> Investigation result" where
  "inv_GetByPrefix prefix db =
     (let clean = filter id_char prefix in
      if clean = '''' \<or> length clean > 64 then Inl ''invalid id prefix''
      else (case newest ivCreatedAt
              (filter (\<lambda>v. HasPrefix (ToLower (ivID v)) (ToLower clean)) (dbInvestigations db)) of
              None \<Rightarrow> Inl ''get by prefix: sql: no rows in result set''
            | Some ivn \<Rightarrow> Inr ivn))"

definition inv_UpdateStatus :: "string \<Rightarrow> string \<Rightarrow> inv_db \<Rightarrow> inv_db" where
  "inv_UpdateStatus iid status db =
     db\<lparr>dbInvestigations :=
        map (\<lambda>v. if ivID v = iid then v\<lparr>ivStatus := status\<rparr> else v) (dbInvestigations db)\<rparr>"

definition ListPendingApprovals :: "inv_db \<Rightarrow> Investigation list" where
  "ListPendingApprovals db =
     sort_key ivCreatedAt (filter (\<lambda>v. ivStatus v = ''waiting_approval'') (dbInvestigations db))"

definition inv_ListRecent :: "nat \<Rightarrow> inv_db \<Rightarrow> Investigation list" where
  "inv_ListRecent limit db = take limit (rev (sort_key ivCreatedAt (rev (dbInvestigations db))))"

definition inv_Approve :: "string \<Rightarrow> inv_db \<Rightarrow> inv_db" where
  "inv_Approve iid db = inv_UpdateStatus iid ''approved'' db"

definition inv_Deny :: "string \<Rightarrow> inv_db \<Rightarrow> inv_db" where
  "inv_Deny iid db = inv_UpdateStatus iid ''denied'' db"

section \<open>Approval rows\<close>

text \<open>\<open>INSERT OR IGNORE\<close> on the primary key; the status is always \<open>pending\<close>.\<close>

definition RecordApproval :: "string \<Rightarrow> ApprovalRow \<Rightarrow> inv_db \<Rightarrow> inv_db" where
  "RecordApproval now r db =
     (if apNonce r \<in> apNonce ` set (dbApprovals db) then db
      else db\<lparr>dbApprovals := dbApprovals db @ [r\<lparr>apStatus := ''pending'', apCreatedAt := now\<rparr>]\<rparr>)"

definition GetApproval :: "string \<Rightarrow> inv_db \<Rightarrow> ApprovalRow result" where
  "GetApproval nonce db =
     (case find (\<lambda>r. apNonce r = nonce) (dbApprovals db) of
        None \<Rightarrow> Inl ''get approval: sql: no rows in result set''
      | Some r \<Rightarrow> Inr r)"

definition DecideApproval :: "string \<Rightarrow> string \<Rightarrow> inv_db \<Rightarrow> string option \<times> inv_db" where
  "DecideApproval nonce status db =
     (if status \<noteq> ''approved'' \<and> status \<noteq> ''denied''
      then (Some (''invalid approval status '' @ go_quote status), db)
      else if list_ex (\<lambda>r. apNonce r = nonce \<and> apStatus r = ''pending'') (dbApprovals db)
      then (None, db\<lparr>dbApprovals := map (\<lambda>r. if apNonce r = nonce \<and> apStatus r = ''pending''
                                        then r\<lparr>apStatus := status\<rparr> else r) (dbApprovals db)\<rparr>)
      else (Some (''approval '' @ nonce @ '' not pending''), db))"

definition ExpireApprovals :: "string \<Rightarrow> inv_db \<Rightarrow> inv_db" where
  "ExpireApprovals now db =
     db\<lparr>dbApprovals := map (\<lambda>r. if apStatus r = ''pending'' \<and> apExpiresAt r < now
                              then r\<lparr>apStatus := ''denied''\<rparr> else r) (dbApprovals db)\<rparr>"

definition ListApprovals :: "bool \<Rightarrow> inv_db \<Rightarrow> ApprovalRow list" where
  "ListApprovals onlyPending db =
     sort_key apCreatedAt
       (if onlyPending then filter (\<lambda>r. apStatus r = ''pending'') (dbApprovals db) else dbApprovals db)"

section \<open>Tokens\<close>

record ApprovalToken =
  atNonce :: string
  atInvestigationID :: string
  atStepIndex :: int
  atAction :: string
  atParamsHash :: string
  atApprover :: string
  atExpiry :: string
  atSignature :: string

definition ApprovalTTL :: int where
  "ApprovalTTL = 30 * 60 * 1000000000"

definition ApprovalWaitTimeout :: int where
  "ApprovalWaitTimeout = 15 * 60 * 1000000000"

text \<open>The text that \<open>ParamsHash\<close> hashes, and the hash.\<close>

definition params_text :: "obj \<Rightarrow> string" where
  "params_text params = concat (map (\<lambda>(k, v). k @ ''='' @ go_sprint v @ '';'') (sort_key fst params))"

definition ParamsHash :: "(string \<Rightarrow> string) \<Rightarrow> obj \<Rightarrow> string" where
  "ParamsHash sha params = sha (params_text params)"

text \<open>\<open>hex.DecodeString\<close>: the digits in pairs, in either case.\<close>

definition hex_digit :: "char \<Rightarrow> nat option" where
  "hex_digit c = (let n = (of_char c :: nat) in
     if 48 \<le> n \<and> n \<le> 57 then Some (n - 48)
     else if 97 \<le> n \<and> n \<le> 102 then Some (n - 87)
     else if 65 \<le> n \<and> n \<le> 70 then Some (n - 55) else None)"

fun hex_decode :: "string \<Rightarrow> string option" where
  "hex_decode [] = Some []"
| "hex_decode [c] = None"
| "hex_decode (c # d # cs) =
     (case (hex_digit c, hex_digit d, hex_decode cs) of
        (Some h, Some l, Some bs) \<Rightarrow> Some (char_of (16 * h + l) # bs)
      | _ \<Rightarrow> None)"

record key_env =
  keGetenv :: "string \<Rightarrow> string"
  keHome :: string
  keFile :: "string \<Rightarrow> string option"
  keRandom :: "string result"
  keMkdir :: "string option"
  keWrite :: "string option"

definition approvalKeyPath :: "key_env \<Rightarrow> string" where
  "approvalKeyPath ke =
     (if keGetenv ke ''TRACE_APPROVAL_KEY_FILE'' \<noteq> '''' then keGetenv ke ''TRACE_APPROVAL_KEY_FILE''
      else keHome ke @ ''/.trace/approval.key'')"

definition long_hex :: "string \<Rightarrow> string option" where
  "long_hex s =
     (case hex_decode s of None \<Rightarrow> None | Some b \<Rightarrow> if length b \<ge> 16 then Some b else None)"

definition loadApprovalKey :: "key_env \<Rightarrow> string result" where
  "loadApprovalKey ke =
     (let raw = keGetenv ke ''TRACE_APPROVAL_KEY'' in
      if raw \<noteq> '''' then
        (case long_hex (TrimSpace raw) of
           Some b \<Rightarrow> Inr b
         | None \<Rightarrow> if length raw \<ge> 16 then Inr raw else Inl ''TRACE_APPROVAL_KEY too short'')
      else (case keFile ke (approvalKeyPath ke) of
        Some content \<Rightarrow>
          let s = TrimSpace content in
          (case long_hex s of
             Some b \<Rightarrow> Inr b
           | None \<Rightarrow> if length s \<ge> 16 then Inr s else Inl ''approval key file too short'')
      | None \<Rightarrow>
          (case keRandom ke of
             Inl e \<Rightarrow> Inl e
           | Inr key \<Rightarrow>
               (case keMkdir ke of Some e \<Rightarrow> Inl e
                | None \<Rightarrow> (case keWrite ke of Some e \<Rightarrow> Inl e | None \<Rightarrow> Inr key)))))"

definition token_msg :: "ApprovalToken \<Rightarrow> string" where
  "token_msg t =
     Join [atNonce t, atInvestigationID t, show_int (atStepIndex t), atAction t, atParamsHash t,
           atApprover t, atExpiry t] ''|''"

text \<open>\<open>teMac key msg\<close> is the hexadecimal HMAC-SHA256; \<open>teFormat\<close> and \<open>teParse\<close> are RFC 3339.\<close>

record token_env =
  teKey :: key_env
  teMac :: "string \<Rightarrow> string \<Rightarrow> string"
  teSha :: "string \<Rightarrow> string"
  teNow :: int
  teFormat :: "int \<Rightarrow> string"
  teParse :: "string \<Rightarrow> int option"
  teNonce :: "string result"

definition signToken :: "token_env \<Rightarrow> ApprovalToken \<Rightarrow> ApprovalToken result" where
  "signToken te t =
     (case loadApprovalKey (teKey te) of
        Inl e \<Rightarrow> Inl e
      | Inr key \<Rightarrow> Inr (t\<lparr>atSignature := teMac te key (token_msg t)\<rparr>))"

definition VerifyApprovalToken ::
  "token_env \<Rightarrow> ApprovalToken option \<Rightarrow> string \<Rightarrow> int \<Rightarrow> string \<Rightarrow> obj \<Rightarrow> string option" where
  "VerifyApprovalToken te mt investigationID stepIndex action params =
     (case mt of
        None \<Rightarrow> Some ''nil approval token''
      | Some t \<Rightarrow>
          if atInvestigationID t \<noteq> investigationID
          then Some (''token bound to investigation '' @ atInvestigationID t @ '', not '' @ investigationID)
          else if atStepIndex t \<noteq> stepIndex
          then Some (''token bound to step '' @ show_int (atStepIndex t) @ '', not '' @ show_int stepIndex)
          else if atAction t \<noteq> action
          then Some (''token bound to action '' @ atAction t @ '', not '' @ action)
          else if atParamsHash t \<noteq> ParamsHash (teSha te) params
          then Some ''token params_hash mismatch (params changed since approval)''
          else (case teParse te (atExpiry t) of
                  None \<Rightarrow> Some ''bad token expiry''
                | Some exp \<Rightarrow>
                    if teNow te > exp then Some (''approval token expired at '' @ atExpiry t)
                    else (case loadApprovalKey (teKey te) of
                            Inl e \<Rightarrow> Some e
                          | Inr key \<Rightarrow>
                              if teMac te key (token_msg t) \<noteq> atSignature t
                              then Some ''invalid approval token signature''
                              else if atNonce t = '''' \<or> atApprover t = ''''
                              then Some ''approval token missing nonce/approver''
                              else None)))"

definition IssueApprovalToken ::
  "token_env \<Rightarrow> string \<Rightarrow> int \<Rightarrow> string \<Rightarrow> obj \<Rightarrow> string \<Rightarrow> int \<Rightarrow> ApprovalToken result" where
  "IssueApprovalToken te invID stepIndex action params approver ttl =
     (let ttl' = (if ttl \<le> 0 then ApprovalTTL else ttl) in
      case teNonce te of
        Inl e \<Rightarrow> Inl e
      | Inr nonce \<Rightarrow>
          signToken te \<lparr>atNonce = nonce, atInvestigationID = invID, atStepIndex = stepIndex,
            atAction = action, atParamsHash = ParamsHash (teSha te) params, atApprover = approver,
            atExpiry = teFormat te (teNow te + ttl'), atSignature = ''''\<rparr>)"

section \<open>The commands \<open>approve\<close> and \<open>deny\<close>\<close>

definition resolveApprovalTarget :: "string \<Rightarrow> inv_db \<Rightarrow> string result" where
  "resolveApprovalTarget idOrPrefix db =
     (case inv_Get idOrPrefix db of
        Inr ivn \<Rightarrow> Inr (ivID ivn)
      | Inl _ \<Rightarrow>
          (case inv_GetByPrefix idOrPrefix db of
             Inl _ \<Rightarrow> Inl (''investigation not found: '' @ idOrPrefix)
           | Inr ivn \<Rightarrow> Inr (ivID ivn)))"

definition isExpired :: "token_env \<Rightarrow> string \<Rightarrow> bool" where
  "isExpired te rfc3339 \<longleftrightarrow>
     (case teParse te rfc3339 of None \<Rightarrow> True | Some t \<Rightarrow> teNow te > t)"

text \<open>\<open>approve\<close>: the parsed token of \<open>--token\<close>, if one is given; the result is the message of success
  or the error.\<close>

definition cli_approve ::
  "token_env \<Rightarrow> bool \<Rightarrow> string \<Rightarrow> ApprovalToken option \<Rightarrow> inv_db \<Rightarrow> string result \<times> inv_db" where
  "cli_approve te tokensRequired arg token db =
     (case resolveApprovalTarget arg db of
        Inl e \<Rightarrow> (Inl e, db)
      | Inr iid \<Rightarrow>
     (case token of
        Some tok \<Rightarrow>
          (case GetApproval (atNonce tok) db of
             Inl e \<Rightarrow> (Inl (''unknown approval nonce: '' @ e), db)
           | Inr row \<Rightarrow>
               if atInvestigationID tok \<noteq> iid
               then (Inl ''token bound to another investigation (deny-closed)'', db)
               else if apStatus row \<noteq> ''pending''
               then (Inl (''approval '' @ atNonce tok @ '' not pending ('' @ apStatus row @ '')''), db)
               else if isExpired te (apExpiresAt row)
               then (Inl ''approval token expired (deny-closed)'', snd (DecideApproval (atNonce tok) ''denied'' db))
               else if atParamsHash tok \<noteq> apParamsHash row \<or> atStepIndex tok \<noteq> int (apStepIndex row) \<or>
                    atAction tok \<noteq> apAction row
               then (Inl ''token binding mismatch (deny-closed)'', db)
               else if isExpired te (atExpiry tok)
               then (Inl ''approval token expired (deny-closed)'', snd (DecideApproval (atNonce tok) ''denied'' db))
               else (case DecideApproval (atNonce tok) ''approved'' db of
                       (Some e, db') \<Rightarrow> (Inl e, db')
                     | (None, db') \<Rightarrow>
                         (Inr (''Step '' @ show_nat (apStepIndex row) @ '' of investigation '' @ iid @ '' approved''), db')))
      | None \<Rightarrow>
          if tokensRequired
          then (Inl ''token required: re-run with --token (TRACE_APPROVAL_TOKENS_REQUIRED=true)'', db)
          else (Inr (''Investigation '' @ iid @ '' approved''), inv_Approve iid db)))"

definition cli_deny :: "string \<Rightarrow> ApprovalToken option \<Rightarrow> inv_db \<Rightarrow> string result \<times> inv_db" where
  "cli_deny arg token db =
     (case resolveApprovalTarget arg db of
        Inl e \<Rightarrow> (Inl e, db)
      | Inr iid \<Rightarrow>
     (case token of
        Some tok \<Rightarrow>
          (case DecideApproval (atNonce tok) ''denied'' db of
             (Some e, db') \<Rightarrow> (Inl e, db')
           | (None, db') \<Rightarrow> (Inr (''Step of investigation '' @ iid @ '' denied''), db'))
      | None \<Rightarrow> (Inr (''Investigation '' @ iid @ '' denied''), inv_Deny iid db)))"

section \<open>Tables whose decided rows are final\<close>

lemma find_distinct:
  assumes "distinct (map key xs)" "r \<in> set xs"
  shows "find (\<lambda>x. key x = key r) xs = Some r"
  using assms by (induction xs) auto

text \<open>The contract of a table of decisions: a step of any actor keeps each decided row as it is and
  keeps the keys distinct.  A client that has read a decision may then rely on it for good.\<close>

locale decision_table =
  fixes rows :: "'s \<Rightarrow> 'r list"
    and key :: "'r \<Rightarrow> 'k"
    and decided :: "'r \<Rightarrow> bool"
    and step :: "'s \<Rightarrow> 's \<Rightarrow> bool"
  assumes keeps: "step s s' \<Longrightarrow> r \<in> set (rows s) \<Longrightarrow> decided r \<Longrightarrow> r \<in> set (rows s')"
    and keys: "step s s' \<Longrightarrow> distinct (map key (rows s)) \<Longrightarrow> distinct (map key (rows s'))"
begin

lemma steps_keep:
  assumes "step\<^sup>*\<^sup>* s s'" "r \<in> set (rows s)" "decided r"
  shows "r \<in> set (rows s')"
  using assms by (induction rule: rtranclp_induct) (auto intro: keeps)

lemma steps_keys:
  assumes "step\<^sup>*\<^sup>* s s'" "distinct (map key (rows s))"
  shows "distinct (map key (rows s'))"
  using assms by (induction rule: rtranclp_induct) (auto intro: keys)

lemma lookup_final:
  assumes "step\<^sup>*\<^sup>* s s'" "distinct (map key (rows s))"
    "find (\<lambda>r. key r = k) (rows s) = Some r" "decided r"
  shows "find (\<lambda>r. key r = k) (rows s') = Some r"
proof -
  have r: "r \<in> set (rows s)" "key r = k"
    using assms(3) by (auto simp: find_Some_iff)
  then have "r \<in> set (rows s')" using steps_keep assms(1,4) by blast
  moreover have "distinct (map key (rows s'))" by (rule steps_keys [OF assms(1,2)])
  ultimately show ?thesis
    using find_distinct r(2) by metis
qed

end

text \<open>What the executor, the commands and the analysts do to the tables.\<close>

inductive approval_step :: "inv_db \<Rightarrow> inv_db \<Rightarrow> bool" where
  "approval_step db (snd (inv_Create uuid now intent playbook db))"
| "approval_step db (inv_UpdateStatus iid status db)"
| "approval_step db (RecordApproval now r db)"
| "approval_step db (snd (DecideApproval nonce status db))"
| "approval_step db (ExpireApprovals now db)"
| "approval_step db (snd (cli_approve te req arg token db))"
| "approval_step db (snd (cli_deny arg token db))"

definition row_decided :: "ApprovalRow \<Rightarrow> bool" where
  "row_decided r \<longleftrightarrow> apStatus r \<noteq> ''pending''"

text \<open>An update that touches pending rows only and keeps their keys.\<close>

lemma pending_update:
  assumes "\<And>r. apStatus r \<noteq> ''pending'' \<Longrightarrow> f r = r" "\<And>r. apNonce (f r) = apNonce r"
  shows "r \<in> set rs \<Longrightarrow> row_decided r \<Longrightarrow> r \<in> set (map f rs)"
    "map apNonce (map f rs) = map apNonce rs"
  using assms by (force simp: row_decided_def, simp)

definition table_grows :: "inv_db \<Rightarrow> inv_db \<Rightarrow> bool" where
  "table_grows db db' \<longleftrightarrow>
     (\<forall>r\<in>set (dbApprovals db). row_decided r \<longrightarrow> r \<in> set (dbApprovals db')) \<and>
     (distinct (map apNonce (dbApprovals db)) \<longrightarrow> distinct (map apNonce (dbApprovals db')))"

named_theorems table_growth "operations that keep decided rows and distinct keys"

lemma grows_same [table_growth]: "dbApprovals db' = dbApprovals db \<Longrightarrow> table_grows db db'"
  by (simp add: table_grows_def)

lemma grows_update [table_growth]:
  assumes "dbApprovals db' = map f (dbApprovals db)"
    "\<And>r. apStatus r \<noteq> ''pending'' \<Longrightarrow> f r = r" "\<And>r. apNonce (f r) = apNonce r"
  shows "table_grows db db'"
  using pending_update [OF assms(2,3)] by (auto simp: table_grows_def assms(1) simp del: map_map)

lemma grows_Decide [table_growth]: "table_grows db (snd (DecideApproval nonce status db))"
proof (cases "snd (DecideApproval nonce status db) = db")
  case False
  then show ?thesis
    by (intro grows_update [of _ "\<lambda>r. if apNonce r = nonce \<and> apStatus r = ''pending''
          then r\<lparr>apStatus := status\<rparr> else r"])
      (auto simp: DecideApproval_def split: if_splits)
qed (simp add: grows_same)

lemma grows_Decide_result: "DecideApproval nonce status db = (e, db') \<Longrightarrow> table_grows db db'"
  using grows_Decide [of db nonce status] by simp

lemma grows_Expire [table_growth]: "table_grows db (ExpireApprovals now db)"
  by (rule grows_update [of _ "\<lambda>r. if apStatus r = ''pending'' \<and> apExpiresAt r < now then r\<lparr>apStatus := ''denied''\<rparr> else r"])
    (auto simp: ExpireApprovals_def)

lemma grows_Record [table_growth]: "table_grows db (RecordApproval now r db)"
  by (auto simp: RecordApproval_def table_grows_def)

lemma grows_UpdateStatus [table_growth]: "table_grows db (inv_UpdateStatus iid status db)"
  by (rule grows_same) (simp add: inv_UpdateStatus_def)

lemma grows_approve [table_growth]: "table_grows db (snd (cli_approve te req arg token db))"
  by (auto simp: cli_approve_def inv_Approve_def table_growth
      split: sum.splits option.splits prod.splits dest: grows_Decide_result)

lemma grows_deny [table_growth]: "table_grows db (snd (cli_deny arg token db))"
  by (auto simp: cli_deny_def inv_Deny_def table_growth
      split: sum.splits option.splits prod.splits dest: grows_Decide_result)

lemma grows_Create [table_growth]: "table_grows db (snd (inv_Create uuid now intent playbook db))"
  by (rule grows_same) (simp add: inv_Create_def Let_def)

lemma approval_step_grows: "approval_step db db' \<Longrightarrow> table_grows db db'"
  by (induction rule: approval_step.induct) (simp_all add: table_growth)

interpretation approvals: decision_table dbApprovals apNonce row_decided approval_step
  by unfold_locales (use approval_step_grows in \<open>auto simp: table_grows_def\<close>)

text \<open>C36. A decision is final: whatever the executor, the commands and the expiry do afterwards, a
  row that was approved or denied is found unchanged under its key.\<close>

theorem decision_final:
  assumes "approval_step\<^sup>*\<^sup>* db db'" "distinct (map apNonce (dbApprovals db))"
    "GetApproval nonce db = Inr r" "apStatus r \<noteq> ''pending''"
  shows "GetApproval nonce db' = Inr r"
proof -
  have "find (\<lambda>r. apNonce r = nonce) (dbApprovals db) = Some r"
    using assms(3) by (auto simp: GetApproval_def split: option.splits)
  then show ?thesis
    using approvals.lookup_final [OF assms(1,2)] assms(4) by (simp add: GetApproval_def row_decided_def)
qed

section \<open>Tokens are bound to one step\<close>

text \<open>C39. A token issued for a step verifies exactly for that investigation, step and action, for
  parameters with the same hash, up to its expiry.\<close>

theorem issued_token_verifies_iff:
  assumes issue: "IssueApprovalToken te i s a p approver ttl = Inr t" "approver \<noteq> ''''"
    and nonce: "teNonce te \<noteq> Inr ''''"
    and time: "teParse te (atExpiry t) = Some expiry"
  shows "VerifyApprovalToken (te\<lparr>teNow := now\<rparr>) (Some t) i' s' a' p' = None \<longleftrightarrow>
     i' = i \<and> s' = s \<and> a' = a \<and> ParamsHash (teSha te) p' = ParamsHash (teSha te) p \<and> now \<le> expiry"
proof -
  obtain key n where k: "loadApprovalKey (teKey te) = Inr key" and n: "teNonce te = Inr n" "n \<noteq> ''''"
    using issue(1) nonce by (auto simp: IssueApprovalToken_def signToken_def Let_def split: sum.splits)
  then have t: "atInvestigationID t = i" "atStepIndex t = s" "atAction t = a"
    "atParamsHash t = ParamsHash (teSha te) p" "atApprover t = approver" "atNonce t = n"
    "atSignature t = teMac te key (token_msg t)"
    using issue(1) by (auto simp: IssueApprovalToken_def signToken_def token_msg_def Let_def)
  show ?thesis
    using t k n issue(2) time by (auto simp: VerifyApprovalToken_def)
qed

text \<open>The hash does not separate keys from values: two different parameter maps have the same
  hash whatever the hash function, so a token for the first one is a token for the second.\<close>

theorem ParamsHash_collision:
  "ParamsHash sha [(''ip'', VStr ''10.0.0.5;zone=dmz'')] =
   ParamsHash sha [(''ip'', VStr ''10.0.0.5''), (''zone'', VStr ''dmz'')]"
  by (simp add: ParamsHash_def params_text_def)

text \<open>The command \<open>approve\<close> never looks at the signature of a token, nor at who approved it: any
  token with the fields of a pending row decides the row.\<close>

theorem cli_approve_ignores_signature:
  "cli_approve te req arg (Some (t\<lparr>atSignature := sig, atApprover := who\<rparr>)) db =
   cli_approve te req arg (Some t) db"
  by (cases "resolveApprovalTarget arg db"; cases "GetApproval (atNonce t) db")
    (simp_all add: cli_approve_def)

text \<open>The command compares the token with the investigation it is called for, but not the row:
  a token that names one investigation and the key of another one's row approves that row.\<close>

lemma cli_approve_other_investigation:
  assumes "resolveApprovalTarget arg db = Inr iid" "GetApproval nonce db = Inr row"
    "apStatus row = ''pending''" "\<not> isExpired te (apExpiresAt row)" "\<not> isExpired te expiry"
  shows "snd (cli_approve te req arg
       (Some \<lparr>atNonce = nonce, atInvestigationID = iid, atStepIndex = int (apStepIndex row),
         atAction = apAction row, atParamsHash = apParamsHash row, atApprover = [], atExpiry = expiry,
         atSignature = []\<rparr>) db) = snd (DecideApproval nonce ''approved'' db)"
  using assms by (simp add: cli_approve_def split: prod.splits option.splits)

section \<open>Samples\<close>

definition sample_row :: "string \<Rightarrow> ApprovalRow" where
  "sample_row status =
     \<lparr>apNonce = ''a1:0'', apInvestigationID = ''a1'', apStepIndex = 0, apLabel = [], apAgent = ''response'',
      apAction = ''block_ip'', apParamsHash = ''h'', apApprover = [], apStatus = status,
      apCreatedAt = [], apExpiresAt = ''2026''\<rparr>"

lemma decision_final_witness:
  "GetApproval ''a1:0'' (ExpireApprovals ''2027'' \<lparr>dbInvestigations = [], dbApprovals = [sample_row ''approved'']\<rparr>)
     = Inr (sample_row ''approved'')"
proof -
  let ?db = "\<lparr>dbInvestigations = [], dbApprovals = [sample_row ''approved'']\<rparr>"
  have "approval_step\<^sup>*\<^sup>* ?db (ExpireApprovals ''2027'' ?db)"
    by (intro r_into_rtranclp approval_step.intros)
  then show ?thesis
    by (rule decision_final) (simp_all add: GetApproval_def sample_row_def)
qed

definition sample_token_env :: token_env where
  "sample_token_env =
     \<lparr>teKey = \<lparr>keGetenv = (\<lambda>_. ''0123456789abcdef''), keHome = [], keFile = (\<lambda>_. None),
        keRandom = Inl ''no entropy'', keMkdir = None, keWrite = None\<rparr>,
      teMac = (\<lambda>key msg. key @ msg), teSha = (\<lambda>s. s), teNow = 0, teFormat = show_int,
      teParse = (\<lambda>s. map_option int (parse_dec s)), teNonce = Inr ''n1''\<rparr>"

lemma issued_token_verifies_iff_witness:
  "\<exists>t. IssueApprovalToken sample_token_env ''a1'' 0 ''block_ip'' [] ''eve'' 5 = Inr t \<and>
     VerifyApprovalToken (sample_token_env\<lparr>teNow := 4\<rparr>) (Some t) ''a1'' 0 ''block_ip'' [] = None \<and>
     VerifyApprovalToken (sample_token_env\<lparr>teNow := 4\<rparr>) (Some t) ''a1'' 1 ''block_ip'' [] \<noteq> None"
proof -
  have key: "loadApprovalKey (teKey sample_token_env) = Inr ''0123456789abcdef''" by code_simp
  then obtain t where t: "IssueApprovalToken sample_token_env ''a1'' 0 ''block_ip'' [] ''eve'' 5 = Inr t"
    by (simp add: IssueApprovalToken_def signToken_def sample_token_env_def)
  have "atExpiry t = show_int 5"
    using t key by (auto simp: IssueApprovalToken_def signToken_def sample_token_env_def Let_def)
  then have p: "teParse sample_token_env (atExpiry t) = Some 5"
    by (simp add: sample_token_env_def) code_simp
  have n: "teNonce sample_token_env \<noteq> Inr ''''" by (simp add: sample_token_env_def)
  show ?thesis
    using t issued_token_verifies_iff [OF t _ n p, of 4] by (intro exI [of _ t]) simp
qed

end
