(* ===== verification/Playbook_Exec.thy ===== *)
theory Playbook_Exec
  imports Playbook_Taint Approval_Store
begin

text \<open>
  The playbook executor (\<open>internal/playbook/executor.go\<close>, types from \<open>playbook.go\<close>) over the
  interpolation, the taint check and the approval tables.

  The state of a run is the database, the results so far, the investigation's log and the calls
  made to agents.  Other actors change the database while the executor waits for an approval:
  \<open>wtOther k\<close> is what they did before the \<open>k\<close>-th poll.  The outcome of an agent, the clock and
  \<open>time.ParseDuration\<close> are fields of the environment.
\<close>

record Step =
  spAgent :: string
  spAction :: string
  spParams :: obj
  spTimeout :: string
  spIf :: string
  spWait :: string
  spLabel :: string
  spOptional :: bool

record Playbook =
  pbName :: string
  pbDescription :: string
  pbTriggers :: "string list"
  pbSteps :: "Step list"

section \<open>Waiting for an approval\<close>

record wait_env =
  wtStart :: int
  wtDone :: "nat \<Rightarrow> bool"
  wtNow :: "nat \<Rightarrow> int"
  wtNowText :: "nat \<Rightarrow> string"
  wtOther :: "nat \<Rightarrow> inv_db \<Rightarrow> inv_db"
  wtGetErr :: "nat \<Rightarrow> bool"
  wtListErr :: "nat \<Rightarrow> bool"

datatype poll = Decided "bool result" | Again

text \<open>The first decided row of the step in the listing.\<close>

fun row_decision :: "string \<Rightarrow> nat \<Rightarrow> ApprovalRow list \<Rightarrow> bool option" where
  "row_decision investigationID stepIdx [] = None"
| "row_decision investigationID stepIdx (r # rs) =
     (if apInvestigationID r = investigationID \<and> apStepIndex r = stepIdx then
        if apStatus r = ''approved'' then Some True
        else if apStatus r = ''denied'' then Some False
        else row_decision investigationID stepIdx rs
      else row_decision investigationID stepIdx rs)"

definition wait_poll :: "wait_env \<Rightarrow> string \<Rightarrow> nat \<Rightarrow> nat \<Rightarrow> inv_db \<Rightarrow> poll \<times> inv_db" where
  "wait_poll we investigationID stepIdx k db0 =
     (let db1 = wtOther we k db0 in
      if wtDone we k then (Decided (Inl ''context canceled''), db1)
      else if wtNow we k > wtStart we + ApprovalWaitTimeout
      then (Decided (Inl ''approval wait timed out (deny-closed)''), db1)
      else let db2 = ExpireApprovals (wtNowText we k) db1 in
      case (if wtGetErr we k then Inl ''get investigation'' else inv_Get investigationID db2) of
        Inl _ \<Rightarrow> (Again, db2)
      | Inr iv \<Rightarrow>
          if ivStatus iv = ''approved'' then (Decided (Inr True), db2)
          else if ivStatus iv = ''denied'' then (Decided (Inr False), db2)
          else if ivStatus iv = ''cancelled'' then (Decided (Inl ''investigation cancelled''), db2)
          else if wtListErr we k then (Again, db2)
          else (case row_decision investigationID stepIdx (ListApprovals False db2) of
                  Some b \<Rightarrow> (Decided (Inr b), db2)
                | None \<Rightarrow> (Again, db2)))"

text \<open>The loop; \<open>None\<close> when it is still waiting after \<open>fuel\<close> ticks.\<close>

fun wait_loop :: "wait_env \<Rightarrow> string \<Rightarrow> nat \<Rightarrow> nat \<Rightarrow> nat \<Rightarrow> inv_db \<Rightarrow> (bool result \<times> inv_db) option" where
  "wait_loop we iid stepIdx 0 k db = None"
| "wait_loop we iid stepIdx (Suc fuel) k db =
     (case wait_poll we iid stepIdx k db of
        (Decided r, db') \<Rightarrow> Some (r, db')
      | (Again, db') \<Rightarrow> wait_loop we iid stepIdx fuel (Suc k) db')"

text \<open>Ticks come every 500 ms or later, and the wait is bounded by 15 minutes, so it ends with the
  1801st tick at the latest.\<close>

definition wait_ticks :: nat where
  "wait_ticks = 1801"

definition waitForApproval :: "wait_env \<Rightarrow> string \<Rightarrow> nat \<Rightarrow> inv_db \<Rightarrow> (bool result \<times> inv_db) option" where
  "waitForApproval we iid stepIdx db = wait_loop we iid stepIdx wait_ticks 0 db"

section \<open>Running the steps\<close>

type_synonym agent_fn = "nat \<Rightarrow> int \<Rightarrow> obj \<Rightarrow> obj result"

record ('a, 'p) exec_env =
  exCond :: "('a, 'p) cond_env"
  exResp :: "('a, 'p) resp_env"
  exRegistry :: "string \<Rightarrow> agent_fn option"
  exDone :: "nat \<Rightarrow> bool"
  exDuration :: "string \<Rightarrow> int result"
  exSha :: "string \<Rightarrow> string"
  exWait :: "nat \<Rightarrow> wait_env"
  exNow :: "nat \<Rightarrow> string"
  exExpiry :: "nat \<Rightarrow> string"

record exec_state =
  xsDB :: inv_db
  xsResults :: obj
  xsLog :: "(string \<times> obj) list"
  xsCalls :: "(nat \<times> string \<times> obj) list"

text \<open>\<open>LogWriter.WriteEvent\<close> refuses an identifier that could leave the directory; its error is
  ignored.\<close>

definition WriteEvent :: "string \<Rightarrow> string \<Rightarrow> obj \<Rightarrow> exec_state \<Rightarrow> exec_state" where
  "WriteEvent iid typ content st =
     (if CHR ''/'' \<in> set iid \<or> CHR 0x5C \<in> set iid \<or> Contains iid ''..'' then st
      else st\<lparr>xsLog := xsLog st @ [(typ, content)]\<rparr>)"

definition set_status :: "string \<Rightarrow> string \<Rightarrow> exec_state \<Rightarrow> exec_state" where
  "set_status iid status st = st\<lparr>xsDB := inv_UpdateStatus iid status (xsDB st)\<rparr>"

definition pendingNonce :: "string \<Rightarrow> nat \<Rightarrow> string" where
  "pendingNonce invID step = invID @ '':'' @ show_nat step"

definition inv_scope :: "Investigation \<Rightarrow> obj \<Rightarrow> obj \<Rightarrow> Scope" where
  "inv_scope iv input results =
     \<lparr>scInput = input, scResults = results,
      scInvestigation = Some [(''id'', VStr (ivID iv)), (''intent'', VStr (ivIntent iv)),
        (''playbook'', VStr (ivPlaybook iv)), (''status'', VStr (ivStatus iv))]\<rparr>"

definition executeStep ::
  "('a, 'p) exec_env \<Rightarrow> nat \<Rightarrow> Step \<Rightarrow> int \<Rightarrow> obj \<Rightarrow> exec_state \<Rightarrow> obj result \<times> exec_state" where
  "executeStep env i step timeout params st =
     (case exRegistry env (spAgent step) of
        None \<Rightarrow> (Inl (''agent '' @ go_quote (spAgent step) @ '' not found''), st)
      | Some ag \<Rightarrow>
          (case ag i timeout params of
             Inl e \<Rightarrow> Inl (spAgent step @ '' execute '' @ spAction step @ '': '' @ e)
           | Inr output \<Rightarrow> Inr output,
           st\<lparr>xsCalls := xsCalls st @ [(i, spAgent step, params)]\<rparr>))"

text \<open>What is written before a gated step waits: the log entry, the status and, if its parameters
  can be interpolated, the pending row.\<close>

definition request_approval ::
  "('a, 'p) exec_env \<Rightarrow> Investigation \<Rightarrow> obj \<Rightarrow> nat \<Rightarrow> Step \<Rightarrow> exec_state \<Rightarrow> exec_state" where
  "request_approval env iv input i step st =
     (let st1 = set_status (ivID iv) ''waiting_approval''
                  (WriteEvent (ivID iv) ''step_waiting_approval''
                     [(''step'', VInt (int i)), (''label'', VStr (spLabel step))] st) in
      case interpolate (VMap (spParams step)) (inv_scope iv input (xsResults st)) of
        Inr (VMap pm) \<Rightarrow>
          st1\<lparr>xsDB := RecordApproval (exNow env i)
            \<lparr>apNonce = pendingNonce (ivID iv) i, apInvestigationID = ivID iv, apStepIndex = i,
             apLabel = spLabel step, apAgent = spAgent step, apAction = spAction step,
             apParamsHash = ParamsHash (exSha env) pm, apApprover = [], apStatus = [],
             apCreatedAt = [], apExpiresAt = exExpiry env i\<rparr> (xsDB st1)\<rparr>
      | _ \<Rightarrow> st1)"

text \<open>The part of a step that waits for the analyst: \<open>None\<close> when the step may go on.\<close>

definition await_approval ::
  "('a, 'p) exec_env \<Rightarrow> Investigation \<Rightarrow> obj \<Rightarrow> nat \<Rightarrow> Step \<Rightarrow> exec_state \<Rightarrow> string option \<times> exec_state" where
  "await_approval env iv input i step st =
     (let st2 = request_approval env iv input i step st in
      case waitForApproval (exWait env i) (ivID iv) i (xsDB st2) of
        None \<Rightarrow> (Some ''still waiting'', st2)
      | Some (Inl e, db) \<Rightarrow>
          (Some (''step '' @ show_nat i @ '' approval: '' @ e), st2\<lparr>xsDB := db\<rparr>)
      | Some (Inr False, db) \<Rightarrow>
          (Some (''step '' @ show_nat i @ '' denied by analyst: '' @ spLabel step),
           set_status (ivID iv) ''denied''
             (WriteEvent (ivID iv) ''step_denied''
                [(''step'', VInt (int i)), (''label'', VStr (spLabel step))] (st2\<lparr>xsDB := db\<rparr>)))
      | Some (Inr True, db) \<Rightarrow>
          (None, WriteEvent (ivID iv) ''step_approved''
                   [(''step'', VInt (int i)), (''label'', VStr (spLabel step))]
                   (set_status (ivID iv) ''running'' (st2\<lparr>xsDB := db\<rparr>))))"

text \<open>The part of a step that prepares the parameters, from interpolation to the timeout.\<close>

definition prepare_step ::
  "('a, 'p) exec_env \<Rightarrow> Scope \<Rightarrow> nat \<Rightarrow> Step \<Rightarrow> (obj \<times> int) result" where
  "prepare_step env scope i step =
     (case interpolate (VMap (spParams step)) scope of
        Inl e \<Rightarrow> Inl (''step '' @ show_nat i @ '' interpolate params: '' @ e)
      | Inr params \<Rightarrow>
     (case as_map params of
        None \<Rightarrow> Inl (''step '' @ show_nat i @ '' params not a map'')
      | Some paramsMap \<Rightarrow>
     (case SanitizeSinkParams (exResp env) (spAgent step) (spParams step)
              (put ''action'' (VStr (spAction step)) paramsMap) of
        Inl e \<Rightarrow> Inl (''step '' @ show_nat i @ '' taint check: '' @ e)
      | Inr sanitized \<Rightarrow>
          if spTimeout step = '''' then Inr (sanitized, 0)
          else (case exDuration env (spTimeout step) of
                  Inl e \<Rightarrow> Inl (''step '' @ show_nat i @ '' invalid timeout '' @ spTimeout step @ '': '' @ e)
                | Inr d \<Rightarrow> Inr (sanitized, d)))))"

text \<open>The call of the agent and what is logged about it.\<close>

definition run_prepared ::
  "('a, 'p) exec_env \<Rightarrow> Investigation \<Rightarrow> nat \<Rightarrow> Step \<Rightarrow> obj \<times> int \<Rightarrow> exec_state \<Rightarrow> string option \<times> exec_state" where
  "run_prepared env iv i step pt st =
     (let st1 = WriteEvent (ivID iv) ''step_started''
                  [(''step'', VInt (int i)), (''agent'', VStr (spAgent step)),
                   (''action'', VStr (spAction step)), (''params'', VMap (RedactMap (fst pt)))] st in
      case executeStep env i step (snd pt) (fst pt) st1 of
        (Inl e, st2) \<Rightarrow>
          let content = [(''step'', VInt (int i)), (''agent'', VStr (spAgent step)), (''error'', VStr e)] in
          if spOptional step then (None, WriteEvent (ivID iv) ''step_failed_optional'' content st2)
          else (Some (''step '' @ show_nat i @ '': '' @ e),
                set_status (ivID iv) ''failed'' (WriteEvent (ivID iv) ''step_failed'' content st2))
      | (Inr output, st2) \<Rightarrow>
          (None, WriteEvent (ivID iv) ''step_completed''
             [(''step'', VInt (int i)), (''agent'', VStr (spAgent step)),
              (''action'', VStr (spAction step)), (''output'', VMap (RedactMap output))]
             (st2\<lparr>xsResults := put (spAgent step @ ''.'' @ spAction step) (VMap output) (xsResults st2)\<rparr>)))"

text \<open>One turn of the loop over the steps; an error ends the run.  When the context is done, the
  update of the status runs under that context and is therefore not performed.\<close>

definition exec_step ::
  "('a, 'p) exec_env \<Rightarrow> Investigation \<Rightarrow> obj \<Rightarrow> nat \<Rightarrow> Step \<Rightarrow> exec_state \<Rightarrow> string option \<times> exec_state" where
  "exec_step env iv input i step st =
     (if exDone env i then (Some ''context canceled'', st)
      else case (if spIf step = '''' then Inr True
                 else evaluateCondition (exCond env) (spIf step) (inv_scope iv input (xsResults st))) of
        Inl e \<Rightarrow> (Some (''step '' @ show_nat i @ '' condition: '' @ e), st)
      | Inr False \<Rightarrow>
          (None, WriteEvent (ivID iv) ''step_skipped''
             [(''step'', VInt (int i)), (''agent'', VStr (spAgent step)),
              (''action'', VStr (spAction step)), (''condition'', VStr (spIf step))] st)
      | Inr True \<Rightarrow>
          (case (if spWait step = ''analyst_approval'' then await_approval env iv input i step st
                 else (None, st)) of
             (Some e, st1) \<Rightarrow> (Some e, st1)
           | (None, st1) \<Rightarrow>
               (case prepare_step env (inv_scope iv input (xsResults st1)) i step of
                  Inl e \<Rightarrow> (Some e, st1)
                | Inr pt \<Rightarrow> run_prepared env iv i step pt st1)))"

fun exec_steps ::
  "('a, 'p) exec_env \<Rightarrow> Investigation \<Rightarrow> obj \<Rightarrow> nat \<Rightarrow> Step list \<Rightarrow> exec_state \<Rightarrow> string option \<times> exec_state" where
  "exec_steps env iv input i [] st = (None, st)"
| "exec_steps env iv input i (step # steps) st =
     (case exec_step env iv input i step st of
        (Some e, st') \<Rightarrow> (Some e, st')
      | (None, st') \<Rightarrow> exec_steps env iv input (Suc i) steps st')"

definition pb_Execute ::
  "('a, 'p) exec_env \<Rightarrow> Investigation \<Rightarrow> Playbook \<Rightarrow> obj \<Rightarrow> inv_db \<Rightarrow> obj result \<times> exec_state" where
  "pb_Execute env iv pb input db =
     (let st0 = \<lparr>xsDB = db, xsResults = [], xsLog = [], xsCalls = []\<rparr>;
          st1 = set_status (ivID iv) ''running''
                  (WriteEvent (ivID iv) ''playbook_started''
                     [(''playbook'', VStr (pbName pb)), (''input'', VMap (RedactMap input))] st0) in
      case exec_steps env iv input 0 (pbSteps pb) st1 of
        (Some e, st2) \<Rightarrow> (Inl e, st2)
      | (None, st2) \<Rightarrow>
          (Inr (xsResults st2),
           WriteEvent (ivID iv) ''playbook_completed''
             [(''playbook'', VStr (pbName pb)), (''results'', VMap (RedactMap (xsResults st2)))]
             (set_status (ivID iv) ''completed'' st2)))"

definition PendingApprovals :: "inv_db \<Rightarrow> (string \<times> nat \<times> string \<times> string \<times> string \<times> string) list" where
  "PendingApprovals db =
     map (\<lambda>r. (apInvestigationID r, apStepIndex r, apLabel r, apAgent r, apAction r, apStatus r))
       (ListApprovals True db)"

section \<open>The wait is bounded\<close>

lemma wait_loop_ends:
  assumes "\<And>k. wtNow we k \<ge> wtStart we + 500000000 * (int k + 1)" "wait_ticks \<le> fuel + k" "fuel \<noteq> 0"
  shows "\<exists>r db'. wait_loop we iid s fuel k db = Some (r, db')"
  using assms(2,3)
proof (induction fuel arbitrary: k db)
  case (Suc fuel)
  obtain p db' where p: "wait_poll we iid s k db = (p, db')" by fastforce
  show ?case
  proof (cases p)
    case (Decided r)
    then show ?thesis using p by simp
  next
    case Again
    have "\<not> wtNow we k > wtStart we + ApprovalWaitTimeout"
      using p Again by (auto simp: wait_poll_def Let_def split: if_splits)
    then have "500000000 * (int k + 1) \<le> ApprovalWaitTimeout"
      using assms(1) [of k] by linarith
    then have "k < 1800" by (simp add: ApprovalWaitTimeout_def)
    then have "wait_ticks \<le> fuel + Suc k" "fuel \<noteq> 0" using Suc.prems by (auto simp: wait_ticks_def)
    then show ?thesis using Suc.IH p Again by simp
  qed
qed simp

text \<open>C37. The wait for an approval ends: whatever the other actors do, 1801 ticks are enough.\<close>

theorem waitForApproval_ends:
  assumes "\<And>k. wtNow we k \<ge> wtStart we + 500000000 * (int k + 1)"
  shows "\<exists>r db'. waitForApproval we iid s db = Some (r, db')"
  unfolding waitForApproval_def using wait_loop_ends [OF assms] by (simp add: wait_ticks_def)

section \<open>A gated step needs an approval\<close>

definition status_approved :: "string \<Rightarrow> inv_db \<Rightarrow> bool" where
  "status_approved iid db \<longleftrightarrow> list_ex (\<lambda>v. ivID v = iid \<and> ivStatus v = ''approved'') (dbInvestigations db)"

definition row_approved :: "string \<Rightarrow> nat \<Rightarrow> inv_db \<Rightarrow> bool" where
  "row_approved iid s db \<longleftrightarrow>
     list_ex (\<lambda>r. apInvestigationID r = iid \<and> apStepIndex r = s \<and> apStatus r = ''approved'') (dbApprovals db)"

lemma row_decision_True:
  "row_decision iid s rs = Some True \<Longrightarrow>
     list_ex (\<lambda>r. apInvestigationID r = iid \<and> apStepIndex r = s \<and> apStatus r = ''approved'') rs"
  by (induction rs) (auto split: if_splits)

lemma Expire_approved [simp]:
  "status_approved iid (ExpireApprovals now db) = status_approved iid db"
  "row_approved iid s (ExpireApprovals now db) = row_approved iid s db"
  by (auto simp: ExpireApprovals_def status_approved_def row_approved_def list_ex_iff)

lemma Update_approved [simp]:
  "row_approved iid s (inv_UpdateStatus i status db) = row_approved iid s db"
  "status \<noteq> ''approved'' \<Longrightarrow> \<not> status_approved iid (inv_UpdateStatus iid status db)"
proof -
  show "row_approved iid s (inv_UpdateStatus i status db) = row_approved iid s db"
    by (simp add: inv_UpdateStatus_def row_approved_def)
next
  assume "status \<noteq> ''approved''"
  then have "\<not> list_ex (\<lambda>v. ivID v = iid \<and> ivStatus v = ''approved'')
      (map (\<lambda>v. if ivID v = iid then v\<lparr>ivStatus := status\<rparr> else v) vs)" for vs
    by (induction vs) simp_all
  then show "\<not> status_approved iid (inv_UpdateStatus iid status db)"
    by (simp add: inv_UpdateStatus_def status_approved_def)
qed

lemma Record_approved [simp]:
  "status_approved iid (RecordApproval now r db) = status_approved iid db"
  "row_approved iid s (RecordApproval now r db) = row_approved iid s db"
  by (simp_all add: RecordApproval_def status_approved_def row_approved_def)

text \<open>A grant that is decided was there to be read.\<close>

lemma wait_poll_granted:
  assumes "wait_poll we iid s k db = (Decided (Inr True), db')"
  shows "status_approved iid (wtOther we k db) \<or> row_approved iid s (wtOther we k db)"
proof -
  let ?d = "ExpireApprovals (wtNowText we k) (wtOther we k db)"
  have "(\<exists>iv. inv_Get iid ?d = Inr iv \<and> ivStatus iv = ''approved'') \<or>
      row_decision iid s (ListApprovals False ?d) = Some True"
    using assms by (auto simp: wait_poll_def Let_def split: if_splits sum.splits option.splits)
  then have "status_approved iid ?d \<or> row_approved iid s ?d"
  proof
    assume "\<exists>iv. inv_Get iid ?d = Inr iv \<and> ivStatus iv = ''approved''"
    then show ?thesis
      by (auto simp: inv_Get_def status_approved_def list_ex_iff find_Some_iff split: option.splits)
  next
    assume "row_decision iid s (ListApprovals False ?d) = Some True"
    from row_decision_True [OF this] show ?thesis
      by (simp add: ListApprovals_def row_approved_def list_ex_iff)
  qed
  then show ?thesis by simp
qed

lemma wait_poll_db:
  assumes "wait_poll we iid s k db = (p, db')"
  shows "status_approved iid db' = status_approved iid (wtOther we k db)"
    "row_approved j t db' = row_approved j t (wtOther we k db)"
  using assms
  by (auto simp: wait_poll_def Let_def split: if_splits sum.splits option.splits)

text \<open>Nobody else grants the step: no actor sets the investigation to approved while this step
  waits, and none ever approves its row.\<close>

definition no_grant :: "('a, 'p) exec_env \<Rightarrow> string \<Rightarrow> nat \<Rightarrow> bool" where
  "no_grant env iid s \<longleftrightarrow>
     (\<forall>k db. status_approved iid (wtOther (exWait env s) k db) \<longrightarrow> status_approved iid db) \<and>
     (\<forall>i k db. row_approved iid s (wtOther (exWait env i) k db) \<longrightarrow> row_approved iid s db)"

lemma wait_loop_rows:
  assumes "no_grant env iid s" "\<not> row_approved iid s db"
    "wait_loop (exWait env i) jid t fuel k db = Some (r, db')"
  shows "\<not> row_approved iid s db'"
  using assms(2,3)
proof (induction fuel arbitrary: k db)
  case (Suc fuel)
  obtain p d where p: "wait_poll (exWait env i) jid t k db = (p, d)" by fastforce
  have "\<not> row_approved iid s d"
    using wait_poll_db(2) [OF p, of iid s] Suc.prems(1) assms(1) by (auto simp: no_grant_def)
  then show ?case using Suc p by (cases p) auto
qed simp

lemma wait_loop_not_granted:
  assumes "no_grant env iid s" "\<not> row_approved iid s db" "\<not> status_approved iid db"
  shows "wait_loop (exWait env s) iid s fuel k db \<noteq> Some (Inr True, db')"
  using assms(2,3)
proof (induction fuel arbitrary: k db)
  case (Suc fuel)
  obtain p d where p: "wait_poll (exWait env s) iid s k db = (p, d)" by fastforce
  have o: "\<not> status_approved iid (wtOther (exWait env s) k db)"
    "\<not> row_approved iid s (wtOther (exWait env s) k db)"
    using Suc.prems assms(1) by (auto simp: no_grant_def)
  then have "p \<noteq> Decided (Inr True)" using wait_poll_granted p by blast
  moreover have "\<not> row_approved iid s d" "\<not> status_approved iid d"
    using wait_poll_db [OF p] o by auto
  ultimately show ?case using Suc.IH p by (cases p) auto
qed simp

lemma WriteEvent_simps [simp]:
  "xsDB (WriteEvent iid typ c st) = xsDB st" "xsCalls (WriteEvent iid typ c st) = xsCalls st"
  "xsResults (WriteEvent iid typ c st) = xsResults st"
  by (simp_all add: WriteEvent_def)

lemma set_status_simps [simp]:
  "xsDB (set_status iid s st) = inv_UpdateStatus iid s (xsDB st)"
  "xsCalls (set_status iid s st) = xsCalls st" "xsResults (set_status iid s st) = xsResults st"
  by (simp_all add: set_status_def)

lemma request_approval_simps [simp]:
  "row_approved iid s (xsDB (request_approval env iv input i step st)) = row_approved iid s (xsDB st)"
  "\<not> status_approved (ivID iv) (xsDB (request_approval env iv input i step st))"
  "xsCalls (request_approval env iv input i step st) = xsCalls st"
  "xsResults (request_approval env iv input i step st) = xsResults st"
  by (auto simp: request_approval_def Let_def split: sum.split any.split)

lemma await_approval_keeps:
  assumes "await_approval env iv input i step st = (e, st')"
  shows "xsCalls st' = xsCalls st" "xsResults st' = xsResults st"
    "no_grant env iid s \<Longrightarrow> \<not> row_approved iid s (xsDB st) \<Longrightarrow> \<not> row_approved iid s (xsDB st')"
proof -
  show "xsCalls st' = xsCalls st" "xsResults st' = xsResults st"
    using assms by (auto simp: await_approval_def Let_def split: option.splits prod.splits sum.splits bool.splits)
next
  assume ng: "no_grant env iid s" "\<not> row_approved iid s (xsDB st)"
  show "\<not> row_approved iid s (xsDB st')"
  proof (cases "waitForApproval (exWait env i) (ivID iv) i (xsDB (request_approval env iv input i step st))")
    case None
    then show ?thesis using assms ng(2) by (auto simp: await_approval_def Let_def)
  next
    case (Some rd)
    obtain r d where rd: "rd = (r, d)" by fastforce
    have "\<not> row_approved iid s d"
      using Some rd ng(2) unfolding waitForApproval_def
      by (intro wait_loop_rows [OF ng(1), where db' = d]) auto
    then show ?thesis
      using assms Some rd by (auto simp: await_approval_def Let_def split: sum.splits bool.splits)
  qed
qed

lemma await_approval_granted:
  assumes "await_approval env iv input i step st = (None, st')"
  shows "\<exists>db'. waitForApproval (exWait env i) (ivID iv) i (xsDB (request_approval env iv input i step st))
     = Some (Inr True, db')"
  using assms by (auto simp: await_approval_def Let_def split: option.splits prod.splits sum.splits bool.splits)

lemma await_approval_refused:
  assumes "no_grant env (ivID iv) i" "\<not> row_approved (ivID iv) i (xsDB st)"
  shows "await_approval env iv input i step st \<noteq> (None, st')"
  using await_approval_granted [of env iv input i step st st'] wait_loop_not_granted [OF assms(1)] assms(2)
  unfolding waitForApproval_def by fastforce

lemma run_prepared_calls:
  assumes "run_prepared env iv i step pt st = (e, st')"
  shows "(xsCalls st' = xsCalls st \<or> xsCalls st' = xsCalls st @ [(i, spAgent step, fst pt)]) \<and>
     row_approved iid s (xsDB st') = row_approved iid s (xsDB st)"
  using assms
  by (auto simp: run_prepared_def executeStep_def Let_def split: option.splits sum.splits if_splits prod.splits)


text \<open>The call that a step makes, with the parameters it prepared from the results at that time.\<close>

lemma exec_step_calls:
  assumes "exec_step env iv input i step st = (e, st')"
  shows "xsCalls st' = xsCalls st \<or>
     (\<exists>p t results. xsCalls st' = xsCalls st @ [(i, spAgent step, p)] \<and>
        prepare_step env (inv_scope iv input results) i step = Inr (p, t) \<and>
        (spWait step = ''analyst_approval'' \<longrightarrow> (\<exists>st1. await_approval env iv input i step st = (None, st1))))"
proof (cases "xsCalls st' = xsCalls st")
  case False
  obtain st1 pt where w: "(if spWait step = ''analyst_approval'' then await_approval env iv input i step st
       else (None, st)) = (None, st1)"
    and p: "prepare_step env (inv_scope iv input (xsResults st1)) i step = Inr pt"
    and r: "run_prepared env iv i step pt st1 = (e, st')"
    using assms False
    by (auto simp: exec_step_def split: if_splits sum.splits bool.splits prod.splits option.splits
        dest: await_approval_keeps(1))
  have "xsCalls st1 = xsCalls st"
    using w by (auto split: if_splits dest: await_approval_keeps(1))
  then have "xsCalls st' = xsCalls st @ [(i, spAgent step, fst pt)]"
    using run_prepared_calls [OF r] False by auto
  then show ?thesis using p w by (metis prod.collapse)
qed simp

lemma exec_step_rows:
  assumes "exec_step env iv input i step st = (e, st')" "no_grant env iid s" "\<not> row_approved iid s (xsDB st)"
  shows "\<not> row_approved iid s (xsDB st')"
  using assms(1) assms(3)
  by (auto simp: exec_step_def split: if_splits sum.splits bool.splits prod.splits option.splits
      dest: run_prepared_calls [where iid = iid and s = s] await_approval_keeps(3) [OF _ assms(2)])

lemma exec_steps_calls:
  assumes "exec_steps env iv input i steps st = (e, st')" "(j, a, p) \<in> set (xsCalls st')"
  shows "(j, a, p) \<in> set (xsCalls st) \<or>
     (\<exists>d t results. d < length steps \<and> j = i + d \<and> a = spAgent (steps ! d) \<and>
        prepare_step env (inv_scope iv input results) j (steps ! d) = Inr (p, t))"
  using assms
proof (induction env iv input i steps st rule: exec_steps.induct)
  case (2 env iv input i step steps st)
  obtain e1 st1 where s: "exec_step env iv input i step st = (e1, st1)" by fastforce
  have first: "(j, a, p) \<in> set (xsCalls st) \<or>
     (\<exists>d t results. d < length (step # steps) \<and> j = i + d \<and> a = spAgent ((step # steps) ! d) \<and>
        prepare_step env (inv_scope iv input results) j ((step # steps) ! d) = Inr (p, t))"
    if "(j, a, p) \<in> set (xsCalls st1)"
    using exec_step_calls [OF s] that by auto
  show ?case
  proof (cases e1)
    case (Some err)
    then show ?thesis using 2(2,3) s first by simp
  next
    case None
    then have "exec_steps env iv input (Suc i) steps st1 = (e, st')" using 2(2) s by simp
    from 2(1) [OF s [symmetric] None this 2(3)] show ?thesis
    proof
      assume "\<exists>d t results. d < length steps \<and> j = Suc i + d \<and> a = spAgent (steps ! d) \<and>
        prepare_step env (inv_scope iv input results) j (steps ! d) = Inr (p, t)"
      then obtain d t results where "d < length steps" "j = Suc i + d" "a = spAgent (steps ! d)"
        "prepare_step env (inv_scope iv input results) j (steps ! d) = Inr (p, t)" by blast
      then have "Suc d < length (step # steps) \<and> j = i + Suc d \<and> a = spAgent ((step # steps) ! Suc d) \<and>
        prepare_step env (inv_scope iv input results) j ((step # steps) ! Suc d) = Inr (p, t)" by simp
      then show ?thesis by blast
    qed (rule first)
  qed
qed simp

lemma exec_steps_gate:
  assumes "exec_steps env iv input i steps st = (e, st')" "no_grant env (ivID iv) j"
    "\<not> row_approved (ivID iv) j (xsDB st)" "j \<notin> fst ` set (xsCalls st)"
    "i \<le> j \<Longrightarrow> j - i < length steps \<Longrightarrow> spWait (steps ! (j - i)) = ''analyst_approval''"
  shows "j \<notin> fst ` set (xsCalls st')"
  using assms
proof (induction env iv input i steps st rule: exec_steps.induct)
  case (2 env iv input i step steps st)
  obtain e1 st1 where s: "exec_step env iv input i step st = (e1, st1)" by fastforce
  have "spWait step = ''analyst_approval''" if "i = j"
    using 2(6) that by simp
  then have calls: "j \<notin> fst ` set (xsCalls st1)"
    using exec_step_calls [OF s] 2(5) await_approval_refused [OF 2(3,4)] by (auto simp: image_iff)
  have rows: "\<not> row_approved (ivID iv) j (xsDB st1)"
    by (rule exec_step_rows [OF s 2(3,4)])
  show ?case
  proof (cases e1)
    case (Some err)
    then show ?thesis using 2(2) s calls by simp
  next
    case None
    have run: "exec_steps env iv input (Suc i) steps st1 = (e, st')" using 2(2) s None by simp
    have "spWait (steps ! (j - Suc i)) = ''analyst_approval''" if "Suc i \<le> j" "j - Suc i < length steps"
    proof -
      have "j - i = Suc (j - Suc i)" using that by simp
      then show ?thesis using 2(6) that by simp
    qed
    with 2(1) [OF s [symmetric] None run 2(3) rows calls] show ?thesis by blast
  qed
qed simp


lemma pb_Execute_calls:
  assumes "(j, a, p) \<in> set (xsCalls (snd (pb_Execute env iv pb input db)))"
  shows "\<exists>t results. j < length (pbSteps pb) \<and> a = spAgent (pbSteps pb ! j) \<and>
     prepare_step env (inv_scope iv input results) j (pbSteps pb ! j) = Inr (p, t)"
proof -
  define st1 where "st1 = set_status (ivID iv) ''running''
      (WriteEvent (ivID iv) ''playbook_started''
         [(''playbook'', VStr (pbName pb)), (''input'', VMap (RedactMap input))]
         \<lparr>xsDB = db, xsResults = [], xsLog = [], xsCalls = []\<rparr>)"
  obtain e st2 where run: "exec_steps env iv input 0 (pbSteps pb) st1 = (e, st2)" by fastforce
  have "(j, a, p) \<in> set (xsCalls st2)"
    using assms run by (auto simp: pb_Execute_def st1_def Let_def split: option.splits)
  from exec_steps_calls [OF run this] show ?thesis by (auto simp: st1_def)
qed


section \<open>Sample runs\<close>

definition plain_step :: "string \<Rightarrow> string \<Rightarrow> obj \<Rightarrow> Step" where
  "plain_step agent action params =
     \<lparr>spAgent = agent, spAction = action, spParams = params, spTimeout = [], spIf = [], spWait = [],
      spLabel = [], spOptional = False\<rparr>"

definition sample_wait :: "(inv_db \<Rightarrow> inv_db) \<Rightarrow> wait_env" where
  "sample_wait other =
     \<lparr>wtStart = 0, wtDone = (\<lambda>_. False), wtNow = (\<lambda>k. 500000000 * (int k + 1)), wtNowText = (\<lambda>_. []),
      wtOther = (\<lambda>_. other), wtGetErr = (\<lambda>_. False), wtListErr = (\<lambda>_. False)\<rparr>"

definition sample_exec :: "(inv_db \<Rightarrow> inv_db) \<Rightarrow> (string, string) exec_env" where
  "sample_exec other =
     \<lparr>exCond = \<lparr>ceNumCmp = (\<lambda>_ _ _. None), ceParseAddr = (\<lambda>s. Inr s), ceParsePrefix = (\<lambda>s. Inr s),
        cePrefixContains = (\<lambda>_ _. False)\<rparr>,
      exResp = sample_resp_env,
      exRegistry = (\<lambda>n. if n = ''sift'' then Some (\<lambda>_ _ _. Inr [(''ip'', VStr ''10.0.0.5'')])
                        else if n = ''response'' then Some (\<lambda>_ _ _. Inr []) else None),
      exDone = (\<lambda>_. False), exDuration = (\<lambda>_. Inl ''no duration''), exSha = (\<lambda>s. s),
      exWait = (\<lambda>_. sample_wait other), exNow = (\<lambda>_. []), exExpiry = (\<lambda>_. ''9'')\<rparr>"

definition sample_inv :: Investigation where
  "sample_inv = \<lparr>ivID = ''a1'', ivStatus = ''pending'', ivIntent = ''block'', ivPlaybook = ''block-ip'',
     ivCreatedAt = []\<rparr>"

definition sample_inv_db :: inv_db where
  "sample_inv_db = \<lparr>dbInvestigations = [sample_inv], dbApprovals = []\<rparr>"

definition sample_playbook :: Playbook where
  "sample_playbook =
     \<lparr>pbName = ''block-ip'', pbDescription = [], pbTriggers = [],
      pbSteps = [plain_step ''sift'' ''scan'' [],
        (plain_step ''response'' ''block_ip'' [(''ip'', VStr ''${outputs.sift.scan.ip}'')])
          \<lparr>spWait := ''analyst_approval''\<rparr>]\<rparr>"


lemma sample_playbook_run:
  "xsCalls (snd (pb_Execute (sample_exec (inv_Approve ''a1'')) sample_inv sample_playbook [] sample_inv_db)) =
     [(0, ''sift'', [(''action'', VStr ''scan'')]),
      (1, ''response'', [(''ip'', VStr ''10.0.0.5''), (''action'', VStr ''block_ip'')])]"
  by code_simp


lemma waitForApproval_ends_witness:
  "\<exists>r db'. waitForApproval (sample_wait (\<lambda>db. db)) ''a1'' 0 sample_inv_db = Some (r, db')"
  by (rule waitForApproval_ends) (simp add: sample_wait_def)

section \<open>A built-in playbook that cannot finish\<close>

text \<open>The playbook \<open>compliance-scan.yaml\<close> of the repository.\<close>

definition compliance_scan :: Playbook where
  "compliance_scan =
     \<lparr>pbName = ''compliance-scan'',
      pbDescription = ''Run CIS benchmark compliance scan against the current system'',
      pbTriggers = [''compliance'', ''cis'', ''benchmark'', ''audit'', ''hardening''],
      pbSteps = [plain_step ''sca'' ''scan_system'' [],
                 plain_step ''dispatch'' ''synthesize_report'' [(''results'', VStr ''${outputs}'')]]\<rparr>"

lemma outputs_alone: "interpolateString ''${outputs}'' scope =
   Inl ''resolve outputs: outputs path requires agent.action.key, got 1 parts''"
proof -
  have "template_segs ''${outputs}'' = [Ref ''outputs'']" by code_simp
  moreover have "resolvePath ''outputs'' scope = Inl ''outputs path requires agent.action.key, got 1 parts''"
    by (simp add: resolvePath_def resolve_parts_def) code_simp
  ultimately show ?thesis by (simp add: interpolateString_def has_ref_def refs_def)
qed

definition report_step :: Step where
  "report_step = plain_step ''dispatch'' ''synthesize_report'' [(''results'', VStr ''${outputs}'')]"

lemma report_step_fails: "\<exists>e. exec_step env iv input i report_step st = (Some e, st)"
  by (simp add: exec_step_def report_step_def plain_step_def prepare_step_def outputs_alone)

text \<open>The reference \<open>${outputs}\<close> of the built-in compliance scan resolves in no scope: whatever
  the agents do, a run of that playbook ends in an error.\<close>

theorem compliance_scan_fails: "\<exists>e. fst (pb_Execute env iv compliance_scan input db) = Inl e"
proof -
  have "\<exists>e. fst (exec_steps env iv input 0 (pbSteps compliance_scan) st) = Some e" for st
  proof (cases "exec_step env iv input 0 (plain_step ''sca'' ''scan_system'' []) st")
    case (Pair e1 st1)
    obtain e where "exec_step env iv input 1 report_step st1 = (Some e, st1)"
      using report_step_fails by blast
    then show ?thesis
      using Pair by (cases e1) (simp_all add: compliance_scan_def report_step_def [symmetric])
  qed
  then show ?thesis
    unfolding pb_Execute_def Let_def by (auto split: prod.split option.split) (metis fst_conv option.distinct(1))+
qed

text \<open>When the scan itself succeeds, the run is over and the status stays \<open>running\<close>.\<close>

lemma compliance_scan_left_running:
  assumes "\<not> exDone env 0" "exRegistry env ''sca'' = Some ag" "ag 0 0 [(''action'', VStr ''scan_system'')] = Inr out"
  shows "xsDB (snd (pb_Execute env iv compliance_scan input db)) = inv_UpdateStatus (ivID iv) ''running'' db"
proof -
  have first: "\<exists>st1. exec_step env iv input 0 (plain_step ''sca'' ''scan_system'' []) st = (None, st1) \<and> xsDB st1 = xsDB st" for st
    using assms
    by (simp add: exec_step_def plain_step_def prepare_step_def run_prepared_def executeStep_def
        SanitizeSinkParams_def as_map_def Let_def)
  have "\<exists>e st2. exec_steps env iv input 0 (pbSteps compliance_scan) st = (Some e, st2) \<and> xsDB st2 = xsDB st" for st
  proof -
    obtain st1 where s1: "exec_step env iv input 0 (plain_step ''sca'' ''scan_system'' []) st = (None, st1)"
      "xsDB st1 = xsDB st" using first by blast
    moreover obtain e where "exec_step env iv input 1 report_step st1 = (Some e, st1)"
      using report_step_fails by blast
    ultimately show ?thesis by (simp add: compliance_scan_def report_step_def [symmetric])
  qed
  from this [of "set_status (ivID iv) ''running'' (WriteEvent (ivID iv) ''playbook_started''
      [(''playbook'', VStr (pbName compliance_scan)), (''input'', VMap (RedactMap input))]
      \<lparr>xsDB = db, xsResults = [], xsLog = [], xsCalls = []\<rparr>)"]
  show ?thesis by (auto simp: pb_Execute_def Let_def)
qed

end
