(* ===== verification/Response_Agent.thy ===== *)
theory Response_Agent
  imports Response_Guard
begin

text \<open>
  The response agent (\<open>internal/response/response.go\<close>): block an address, quarantine a file, kill
  a process, restart a service, run a script, roll an action back.

  The state is the table \<open>response_actions\<close> with the commands the agent has handed to the
  operating system so far, oldest first, and the number of calls; \<open>reExec k\<close> is the outcome of
  the \<open>k\<close>-th command.  Failed inserts and updates of the table are ignored by the code.
\<close>

record ActionRecord =
  arID :: string
  arInvestigationID :: string
  arAction :: string
  arTarget :: string
  arStatus :: string
  arCommand :: string
  arOutput :: string
  arRollbackCmd :: string
  arRollbackStatus :: string
  arCreatedAt :: string

record agent_state =
  asRows :: "ActionRecord list"
  asRun :: "string list list"
  asCalls :: nat
  asQuarantineDir :: string

definition maxOut :: nat where
  "maxOut = 8192"

definition cap_output :: "string \<Rightarrow> string" where
  "cap_output s = (if length s > maxOut then take maxOut s @ ''...[truncated]'' else s)"

text \<open>\<open>RunArgv\<close>: an argument vector that is refused is not run.\<close>

definition RunArgv ::
  "('a, 'p) resp_env \<Rightarrow> string list \<Rightarrow> agent_state \<Rightarrow> (string \<times> string option) \<times> agent_state" where
  "RunArgv env argv st =
     (if argv = [] \<or> hd argv = '''' then (('''', Some ''empty argv''), st)
      else if hd argv = ''__rename__'' then
        if length argv \<noteq> 3 then (('''', Some (''bad rename argv: ['' @ Join argv '' '' @ '']'')), st)
        else (('''', snd (reExec env (length (asRun st)) argv)), st\<lparr>asRun := asRun st @ [argv]\<rparr>)
      else let (out, err) = reExec env (length (asRun st)) argv in
           ((cap_output (TrimSpace out), err), st\<lparr>asRun := asRun st @ [argv]\<rparr>))"

definition recordAction ::
  "('a, 'p) resp_env \<Rightarrow> string \<Rightarrow> string \<Rightarrow> string \<Rightarrow> string \<Rightarrow> string \<Rightarrow> string \<Rightarrow> agent_state
     \<Rightarrow> string \<times> agent_state" where
  "recordAction env action target status command output rollbackCmd st =
     (let rid = reUuid env (asCalls st);
          r = \<lparr>arID = rid, arInvestigationID = '''', arAction = action, arTarget = target,
               arStatus = status, arCommand = command, arOutput = output,
               arRollbackCmd = rollbackCmd, arRollbackStatus = '''', arCreatedAt = reFormatNow env\<rparr> in
      if reInsertOk env (asCalls st) \<and> rid \<notin> arID ` set (asRows st)
      then (rid, st\<lparr>asRows := asRows st @ [r]\<rparr>)
      else (rid, st))"

definition run_status :: "string option \<Rightarrow> string" where
  "run_status err = (case err of None \<Rightarrow> ''executed'' | Some e \<Rightarrow> ''failed: '' @ e)"

definition error_out :: "string \<Rightarrow> obj" where
  "error_out e = [(''error'', VStr e)]"

definition blockIP :: "('a, 'p) resp_env \<Rightarrow> obj \<Rightarrow> agent_state \<Rightarrow> obj \<times> agent_state" where
  "blockIP env input st =
     (case ValidateIP env (str_field input ''ip'') of
        Inl e \<Rightarrow> (error_out e, st)
      | Inr addr \<Rightarrow>
          let (argv, undo) = BlockIPArgv env addr;
              ((output, err), st1) = RunArgv env argv st;
              status = run_status err;
              cmdStored = reEncode env argv undo;
              rollbackStored = reEncode env undo argv;
              (rid, st2) = recordAction env ''block_ip'' (reAddrString env addr) status cmdStored output
                             rollbackStored st1 in
          ([(''status'', VStr status), (''ip'', VStr (reAddrString env addr)),
            (''command'', VStr cmdStored), (''output'', VStr output),
            (''rollback_command'', VStr rollbackStored), (''action_id'', VStr rid)], st2))"

definition quarantineFile :: "('a, 'p) resp_env \<Rightarrow> obj \<Rightarrow> agent_state \<Rightarrow> obj \<times> agent_state" where
  "quarantineFile env input st =
     (let path = str_field input ''path'' in
      case ValidateFilePath path of
        Some e \<Rightarrow> (error_out e, st)
      | None \<Rightarrow>
     (case reStat env path of
        Some e \<Rightarrow> (error_out (''file not accessible: '' @ e), st)
      | None \<Rightarrow>
     (case CheckSymlinkOrDevice env path of
        Some e \<Rightarrow> (error_out e, st)
      | None \<Rightarrow>
     (case ResolveQuarantineDest env (asCalls st) (asQuarantineDir st) path of
        Inl e \<Rightarrow> (error_out e, st)
      | Inr dest \<Rightarrow>
          let (argv, undo) = MoveArgv path dest;
              ((output, err), st1) = RunArgv env argv st;
              status = run_status err;
              cmdStored = reEncode env argv undo;
              rollbackStored = reEncode env undo argv;
              (rid, st2) = recordAction env ''quarantine_file'' path status cmdStored output
                             rollbackStored st1 in
          ([(''status'', VStr status), (''original_path'', VStr path),
            (''quarantine_path'', VStr dest), (''command'', VStr cmdStored),
            (''rollback_command'', VStr rollbackStored), (''action_id'', VStr rid)], st2)))))"

definition noRollback :: string where
  "noRollback = ''N/A (process cannot be unkilled)''"

text \<open>The target and the command of a kill request: a process identifier given as text wins over
  a name.\<close>

definition kill_argv :: "('a, 'p) resp_env \<Rightarrow> string \<Rightarrow> string \<Rightarrow> (string \<times> string list) result" where
  "kill_argv env name pidStr =
     (if pidStr \<noteq> '''' then
        (case ValidatePIDString env pidStr of
           Inl e \<Rightarrow> Inl e
         | Inr pid \<Rightarrow>
             Inr (pidStr, if reGOOS env = ''windows'' then TaskkillPIDArgv pid else KillPIDArgv pid))
      else
        (case ValidateProcessName name of
           Some e \<Rightarrow> Inl e
         | None \<Rightarrow>
             Inr (name, if reGOOS env = ''windows'' then TaskkillNameArgv name else PkillArgv name)))"

definition killProcess :: "('a, 'p) resp_env \<Rightarrow> obj \<Rightarrow> agent_state \<Rightarrow> obj \<times> agent_state" where
  "killProcess env input st =
     (let name = str_field input ''name''; pidStr = str_field input ''pid'' in
      if name = '''' \<and> pidStr = '''' then (error_out ''name or pid is required'', st)
      else (case kill_argv env name pidStr of
        Inl e \<Rightarrow> (error_out e, st)
      | Inr (target, argv) \<Rightarrow>
          let ((output, err), st1) = RunArgv env argv st;
              status = run_status err;
              cmdStored = reEncode env argv [];
              (rid, st2) = recordAction env ''kill_process'' target status cmdStored output noRollback st1 in
          ([(''status'', VStr status), (''target'', VStr target), (''command'', VStr cmdStored),
            (''output'', VStr output), (''rollback_command'', VStr noRollback),
            (''action_id'', VStr rid)], st2)))"

definition restart_steps :: "('a, 'p) resp_env \<Rightarrow> string \<Rightarrow> string list list" where
  "restart_steps env name =
     (if reGOOS env = ''windows'' then [ScStopArgv name, ScStartArgv name]
      else if reGOOS env = ''darwin'' then [LaunchctlRestartArgv name]
      else [SystemctlRestartArgv name])"

text \<open>The loop over the steps stops at the first one that fails; the outputs are concatenated.\<close>

fun run_steps ::
  "('a, 'p) resp_env \<Rightarrow> string list list \<Rightarrow> agent_state \<Rightarrow> (string \<times> string option) \<times> agent_state" where
  "run_steps env [] st = (('''', None), st)"
| "run_steps env (argv # steps) st =
     (let ((out, err), st1) = RunArgv env argv st in
      case err of
        Some e \<Rightarrow> ((out, Some e), st1)
      | None \<Rightarrow> (let ((out', err'), st2) = run_steps env steps st1 in ((out @ out', err'), st2)))"

definition restartService :: "('a, 'p) resp_env \<Rightarrow> obj \<Rightarrow> agent_state \<Rightarrow> obj \<times> agent_state" where
  "restartService env input st =
     (let name = str_field input ''name'' in
      case ValidateServiceName name of
        Some e \<Rightarrow> (error_out e, st)
      | None \<Rightarrow>
          let steps = restart_steps env name;
              ((output, err), st1) = run_steps env steps st;
              status = run_status err;
              rollbackArgv = last steps;
              cmdStored = reEncode env (hd steps) rollbackArgv;
              rollbackStored = reEncode env rollbackArgv rollbackArgv;
              (rid, st2) = recordAction env ''restart_service'' name status cmdStored output
                             rollbackStored st1 in
          ([(''status'', VStr status), (''service'', VStr name), (''command'', VStr cmdStored),
            (''output'', VStr output), (''rollback_command'', VStr rollbackStored),
            (''action_id'', VStr rid)], st2))"

definition runScript :: "('a, 'p) resp_env \<Rightarrow> obj \<Rightarrow> agent_state \<Rightarrow> obj \<times> agent_state" where
  "runScript env input st =
     (case CheckRunScriptGate env input of
        Some e \<Rightarrow> (error_out e, st)
      | None \<Rightarrow>
          (error_out ''run_script enabled but no script runner configured: refusing to execute script body'', st))"

definition isNoRollbackSentinel :: "string \<Rightarrow> bool" where
  "isNoRollbackSentinel s \<longleftrightarrow> length s \<ge> 3 \<and> take 3 s = ''N/A''"

definition set_rollback_status :: "string \<Rightarrow> string \<Rightarrow> agent_state \<Rightarrow> agent_state" where
  "set_rollback_status rid status st =
     st\<lparr>asRows := map (\<lambda>r. if arID r = rid then r\<lparr>arRollbackStatus := status\<rparr> else r) (asRows st)\<rparr>"

definition rollbackAction :: "('a, 'p) resp_env \<Rightarrow> obj \<Rightarrow> agent_state \<Rightarrow> obj \<times> agent_state" where
  "rollbackAction env input st =
     (let actionID = str_field input ''action_id'' in
      if actionID = '''' then (error_out ''action_id is required'', st)
      else (case (case reQueryErr env actionID of
                    Some e \<Rightarrow> Inl e
                  | None \<Rightarrow> (case find (\<lambda>r. arID r = actionID) (asRows st) of
                               None \<Rightarrow> Inl ''sql: no rows in result set''
                             | Some r \<Rightarrow> Inr r)) of
        Inl e \<Rightarrow> (error_out (''action not found: '' @ e), st)
      | Inr r \<Rightarrow>
          if arRollbackCmd r = '''' \<or> arRollbackCmd r = ''N/A'' \<or> isNoRollbackSentinel (arRollbackCmd r)
          then ([(''status'', VStr ''skipped''), (''message'', VStr ''action cannot be rolled back'')], st)
          else if IsLegacyRollback env (arRollbackCmd r)
          then ([(''status'', VStr ''legacy_unexecutable''),
                 (''message'', VStr ''stored string command predates argv-only mode and will not run''),
                 (''action_id'', VStr actionID)],
                set_rollback_status actionID ''legacy_unexecutable'' st)
          else (case DecodeStored env (arRollbackCmd r) of
                  None \<Rightarrow> ([(''status'', VStr ''skipped''), (''message'', VStr ''action cannot be rolled back'')], st)
                | Some (argv, undo) \<Rightarrow>
                    let ((output, err), st1) = RunArgv env argv st;
                        status = (case err of None \<Rightarrow> ''rolled_back'' | Some e \<Rightarrow> ''rollback_failed: '' @ e) in
                    ([(''status'', VStr status), (''action_id'', VStr actionID),
                      (''rollback_command'', VStr (arRollbackCmd r)), (''output'', VStr output)],
                     set_rollback_status actionID status st1))))"

text \<open>\<open>Execute\<close>; the call counter picks the fresh identifiers of the next call.\<close>

definition agent_dispatch :: "('a, 'p) resp_env \<Rightarrow> obj \<Rightarrow> agent_state \<Rightarrow> obj result \<times> agent_state" where
  "agent_dispatch env input st =
     (let action = str_field input ''action'' in
      if action = ''block_ip'' then map_prod Inr id (blockIP env input st)
      else if action = ''quarantine_file'' then map_prod Inr id (quarantineFile env input st)
      else if action = ''kill_process'' then map_prod Inr id (killProcess env input st)
      else if action = ''restart_service'' then map_prod Inr id (restartService env input st)
      else if action = ''run_script'' then map_prod Inr id (runScript env input st)
      else if action = ''rollback'' then map_prod Inr id (rollbackAction env input st)
      else (Inl (''unknown action: '' @ action), st))"

definition agent_Execute :: "('a, 'p) resp_env \<Rightarrow> obj \<Rightarrow> agent_state \<Rightarrow> obj result \<times> agent_state" where
  "agent_Execute env input st =
     (let (r, st') = agent_dispatch env input st in (r, st'\<lparr>asCalls := Suc (asCalls st')\<rparr>))"

section \<open>Which commands are run\<close>

text \<open>The argument vectors that the constructors make from validated arguments, with their
  inverses; a quarantined file goes to a place that \<open>ConfineToRoot\<close> accepted.\<close>

definition built_argv :: "('a, 'p) resp_env \<Rightarrow> string \<Rightarrow> string list \<Rightarrow> bool" where
  "built_argv env quarantine argv \<longleftrightarrow>
     (\<exists>s addr. ValidateIP env s = Inr addr \<and> argv = fst (BlockIPArgv env addr)) \<or>
     (\<exists>src k dest. ValidateFilePath src = None \<and> ResolveQuarantineDest env k quarantine src = Inr dest \<and>
        argv = fst (MoveArgv src dest)) \<or>
     (\<exists>s pid. ValidatePIDString env s = Inr pid \<and> argv \<in> {TaskkillPIDArgv pid, KillPIDArgv pid}) \<or>
     (\<exists>name. ValidateProcessName name = None \<and> argv \<in> {TaskkillNameArgv name, PkillArgv name}) \<or>
     (\<exists>name. ValidateServiceName name = None \<and> argv \<in> set (restart_steps env name))"

lemma RunArgv_run:
  "RunArgv env argv st = (r, st') \<Longrightarrow>
     (asRun st' = asRun st \<or> asRun st' = asRun st @ [argv]) \<and> asRows st' = asRows st \<and>
     asCalls st' = asCalls st \<and> asQuarantineDir st' = asQuarantineDir st"
  by (auto simp: RunArgv_def Let_def split: if_splits prod.splits)

lemma recordAction_run:
  "recordAction env a t s c ou rb st = (rid, st') \<Longrightarrow> asRun st' = asRun st"
  by (auto simp: recordAction_def Let_def split: if_splits)

lemma run_steps_run:
  "run_steps env steps st = (r, st') \<Longrightarrow>
     \<exists>new. asRun st' = asRun st @ new \<and> set new \<subseteq> set steps"
proof (induction env steps st arbitrary: r st' rule: run_steps.induct)
  case (2 env argv steps st)
  obtain out err st1 where ra: "RunArgv env argv st = ((out, err), st1)" by (metis surj_pair)
  have s1: "\<exists>new. asRun st1 = asRun st @ new \<and> set new \<subseteq> {argv}"
    using RunArgv_run [OF ra] by auto
  show ?case
  proof (cases err)
    case (Some e)
    then have "st' = st1" using 2(2) ra by simp
    then show ?thesis using s1 by auto
  next
    case None
    obtain r2 st2 where rs: "run_steps env steps st1 = (r2, st2)" by fastforce
    have "st' = st2" using 2(2) ra None rs by (auto split: prod.splits)
    moreover obtain new where "asRun st2 = asRun st1 @ new" "set new \<subseteq> set steps"
      using 2(1) [OF ra [symmetric] refl refl None rs] by blast
    moreover obtain new1 where "asRun st1 = asRun st @ new1" "set new1 \<subseteq> {argv}"
      using s1 by blast
    ultimately have "asRun st' = asRun st @ (new1 @ new)" "set (new1 @ new) \<subseteq> set (argv # steps)"
      by auto
    then show ?thesis by blast
  qed
qed auto

lemma blockIP_run:
  assumes "blockIP env input st = (r, st')"
  shows "\<exists>new. asRun st' = asRun st @ new \<and> list_all (built_argv env (asQuarantineDir st)) new"
proof (cases "ValidateIP env (str_field input ''ip'')")
  case (Inl e)
  then show ?thesis using assms by (simp add: blockIP_def)
next
  case (Inr addr)
  obtain argv undo where ba: "BlockIPArgv env addr = (argv, undo)" by fastforce
  obtain out err st1 where ra: "RunArgv env argv st = ((out, err), st1)" by (metis surj_pair)
  have "asRun st' = asRun st1"
    using assms Inr ba ra by (auto simp: blockIP_def Let_def split: prod.splits dest: recordAction_run)
  moreover have "built_argv env (asQuarantineDir st) argv"
    using Inr ba unfolding built_argv_def by (metis fst_conv)
  ultimately show ?thesis using RunArgv_run [OF ra] by auto
qed

lemma quarantineFile_run:
  assumes "quarantineFile env input st = (r, st')"
  shows "\<exists>new. asRun st' = asRun st @ new \<and> list_all (built_argv env (asQuarantineDir st)) new"
proof (cases "st' = st")
  case False
  let ?p = "str_field input ''path''"
  obtain dest where v: "ValidateFilePath ?p = None"
    and d: "ResolveQuarantineDest env (asCalls st) (asQuarantineDir st) ?p = Inr dest"
    using assms False by (auto simp: quarantineFile_def Let_def split: option.splits sum.splits)
  obtain out err st1 where ra: "RunArgv env (fst (MoveArgv ?p dest)) st = ((out, err), st1)"
    by (metis surj_pair)
  have "asRun st' = asRun st1"
    using assms False v d ra
    by (auto simp: quarantineFile_def MoveArgv_def Let_def split: prod.splits option.splits
        dest: recordAction_run)
  moreover have "built_argv env (asQuarantineDir st) (fst (MoveArgv ?p dest))"
    unfolding built_argv_def using v d by blast
  ultimately show ?thesis using RunArgv_run [OF ra] by auto
qed simp

lemma killProcess_run:
  assumes "killProcess env input st = (r, st')"
  shows "\<exists>new. asRun st' = asRun st @ new \<and> list_all (built_argv env (asQuarantineDir st)) new"
proof (cases "st' = st")
  case False
  let ?n = "str_field input ''name''" and ?p = "str_field input ''pid''"
  obtain target argv where ka: "kill_argv env ?n ?p = Inr (target, argv)"
    using assms False by (auto simp: killProcess_def Let_def split: sum.splits if_splits)
  obtain out err st1 where ra: "RunArgv env argv st = ((out, err), st1)" by (metis surj_pair)
  have "asRun st' = asRun st1"
    using assms False ka ra
    by (auto simp: killProcess_def Let_def split: prod.splits if_splits dest: recordAction_run)
  moreover have "built_argv env (asQuarantineDir st) argv"
    using ka unfolding built_argv_def kill_argv_def
    by (auto split: if_splits sum.splits option.splits)
  ultimately show ?thesis using RunArgv_run [OF ra] by auto
qed simp

lemma restartService_run:
  assumes "restartService env input st = (r, st')"
  shows "\<exists>new. asRun st' = asRun st @ new \<and> list_all (built_argv env (asQuarantineDir st)) new"
proof (cases "ValidateServiceName (str_field input ''name'')")
  case (Some e)
  then show ?thesis using assms by (simp add: restartService_def)
next
  case None
  let ?steps = "restart_steps env (str_field input ''name'')"
  obtain out err st1 where rs: "run_steps env ?steps st = ((out, err), st1)" by (metis surj_pair)
  have "asRun st' = asRun st1"
    using assms None rs by (auto simp: restartService_def Let_def split: prod.splits dest: recordAction_run)
  moreover obtain new where "asRun st1 = asRun st @ new" "set new \<subseteq> set ?steps"
    using run_steps_run [OF rs] by blast
  moreover have "built_argv env (asQuarantineDir st) argv" if "argv \<in> set ?steps" for argv
    using None that unfolding built_argv_def by blast
  ultimately show ?thesis by (auto simp: list_all_iff)
qed

text \<open>The inverse command that a row of the table holds.\<close>

definition stored_rollback :: "('a, 'p) resp_env \<Rightarrow> ActionRecord \<Rightarrow> string list option" where
  "stored_rollback env r = map_option fst (DecodeStored env (arRollbackCmd r))"

lemma rollbackAction_run:
  assumes "rollbackAction env input st = (r, st')"
  shows "\<exists>new. asRun st' = asRun st @ new \<and>
     list_all (\<lambda>argv. \<exists>rec\<in>set (asRows st). arID rec = str_field input ''action_id'' \<and>
        stored_rollback env rec = Some argv) new"
proof -
  let ?id = "str_field input ''action_id''"
  have same: "asRun (set_rollback_status i s x) = asRun x" for i s x
    by (simp add: set_rollback_status_def)
  show ?thesis
  proof (cases "asRun st' = asRun st")
    case False
    then obtain rec argv undo where f: "find (\<lambda>r. arID r = ?id) (asRows st) = Some rec"
      and d: "DecodeStored env (arRollbackCmd rec) = Some (argv, undo)"
      and run: "asRun st' = asRun (snd (RunArgv env argv st))"
      using assms
      by (auto simp: rollbackAction_def Let_def same split: if_splits option.splits sum.splits prod.splits)
    have "rec \<in> set (asRows st)" "arID rec = ?id"
      using f by (auto simp: find_Some_iff)
    moreover have "asRun st' = asRun st @ [argv]"
      using run False RunArgv_run [of env argv st] by (metis prod.collapse)
    ultimately show ?thesis using d by (auto simp: stored_rollback_def)
  qed simp
qed

lemma map_prod_pair: "map_prod Inr id x = (r, s) \<Longrightarrow> \<exists>out. x = (out, s)"
  by (cases x) simp

lemma dispatch_cases:
  assumes "agent_dispatch env input st = (r, s1)" "str_field input ''action'' \<noteq> ''rollback''"
  shows "(\<exists>out. blockIP env input st = (out, s1)) \<or> (\<exists>out. quarantineFile env input st = (out, s1)) \<or>
     (\<exists>out. killProcess env input st = (out, s1)) \<or> (\<exists>out. restartService env input st = (out, s1)) \<or>
     s1 = st"
  using assms unfolding agent_dispatch_def Let_def
  by (auto simp: runScript_def split: if_splits option.splits dest!: map_prod_pair)

text \<open>C34. Whatever the input is, each command that a call of the agent hands to the operating
  system was built by one of the constructors from validated arguments, or it is the stored
  inverse of the action that the call rolls back.  No script is ever run.\<close>

theorem agent_runs_only_built:
  assumes "agent_Execute env input st = (r, st')"
  shows "\<exists>new. asRun st' = asRun st @ new \<and>
     list_all (\<lambda>argv. built_argv env (asQuarantineDir st) argv \<or>
        str_field input ''action'' = ''rollback'' \<and>
        (\<exists>rec\<in>set (asRows st). arID rec = str_field input ''action_id'' \<and>
           stored_rollback env rec = Some argv)) new"
proof -
  obtain s1 where d: "agent_dispatch env input st = (r, s1)" "asRun st' = asRun s1"
    using assms by (auto simp: agent_Execute_def split: prod.splits)
  have "\<exists>new. asRun s1 = asRun st @ new \<and>
     list_all (\<lambda>argv. built_argv env (asQuarantineDir st) argv \<or>
        str_field input ''action'' = ''rollback'' \<and>
        (\<exists>rec\<in>set (asRows st). arID rec = str_field input ''action_id'' \<and>
           stored_rollback env rec = Some argv)) new"
  proof (cases "str_field input ''action'' = ''rollback''")
    case True
    then have "map_prod Inr id (rollbackAction env input st) = (r, s1)"
      using d(1) by (simp add: agent_dispatch_def)
    then obtain out where "rollbackAction env input st = (out, s1)"
      by (auto dest!: map_prod_pair)
    from rollbackAction_run [OF this] show ?thesis using True by (auto simp: list_all_iff)
  next
    case False
    have "\<exists>new. asRun s1 = asRun st @ new \<and> list_all (built_argv env (asQuarantineDir st)) new"
      using dispatch_cases [OF d(1) False]
    proof (elim disjE exE)
      assume "s1 = st"
      then show ?thesis by simp
    qed (rule blockIP_run quarantineFile_run killProcess_run restartService_run, assumption)+
    then show ?thesis by (auto simp: list_all_iff)
  qed
  then show ?thesis using d(2) by simp
qed

section \<open>Rolling back\<close>

definition runnable :: "string list \<Rightarrow> bool" where
  "runnable argv \<longleftrightarrow> argv \<noteq> [] \<and> hd argv \<noteq> '''' \<and> (hd argv = ''__rename__'' \<longrightarrow> length argv = 3)"

lemma RunArgv_runnable: "runnable argv \<Longrightarrow> asRun (snd (RunArgv env argv st)) = asRun st @ [argv]"
  by (auto simp: runnable_def RunArgv_def Let_def split: prod.splits)

text \<open>The row of an action that can be rolled back by running \<open>undo\<close>.\<close>

definition rollback_row :: "('a, 'p) resp_env \<Rightarrow> string \<Rightarrow> string list \<Rightarrow> agent_state \<Rightarrow> bool" where
  "rollback_row env rid undo st \<longleftrightarrow>
     (case find (\<lambda>r. arID r = rid) (asRows st) of
        None \<Rightarrow> False
      | Some r \<Rightarrow> HasPrefix (arRollbackCmd r) ''{'' \<and>
          map_option fst (reDecode env (arRollbackCmd r)) = Some undo)"

lemma find_map_status:
  "find (\<lambda>r. arID r = rid) (map (\<lambda>r. if arID r = j then r\<lparr>arRollbackStatus := s\<rparr> else r) rows) =
     map_option (\<lambda>r. if arID r = j then r\<lparr>arRollbackStatus := s\<rparr> else r) (find (\<lambda>r. arID r = rid) rows)"
  by (induction rows) auto

lemma find_snoc: "find P xs = None \<Longrightarrow> find P (xs @ [x]) = (if P x then Some x else None)"
  by (induction xs) (auto split: if_splits)

definition rollback_request :: "string \<Rightarrow> obj" where
  "rollback_request rid = [(''action'', VStr ''rollback''), (''action_id'', VStr rid)]"

lemma rollback_step:
  assumes row: "rollback_row env rid undo st" and "runnable undo" "rid \<noteq> ''''" "reQueryErr env rid = None"
  shows "asRun (snd (agent_Execute env (rollback_request rid) st)) = asRun st @ [undo] \<and>
     rollback_row env rid undo (snd (agent_Execute env (rollback_request rid) st))"
proof -
  let ?in = "rollback_request rid"
  obtain r inv where f: "find (\<lambda>r. arID r = rid) (asRows st) = Some r"
    and p: "HasPrefix (arRollbackCmd r) ''{''" and d: "reDecode env (arRollbackCmd r) = Some (undo, inv)"
    using row by (auto simp: rollback_row_def split: option.splits)
  obtain cs where c: "arRollbackCmd r = CHR ''{'' # cs"
    using p by (cases "arRollbackCmd r") (auto simp: HasPrefix_def)
  have nr: "\<not> not_rollbackable (arRollbackCmd r)" "\<not> isNoRollbackSentinel (arRollbackCmd r)"
    using c by (auto simp: not_rollbackable_def isNoRollbackSentinel_def HasPrefix_def numeral_3_eq_3)
  have dec: "DecodeStored env (arRollbackCmd r) = Some (undo, inv)"
    using nr(1) d assms(2) by (simp add: DecodeStored_def runnable_def)
  have ids: "str_field ?in ''action'' = ''rollback''" "str_field ?in ''action_id'' = rid"
    by (simp_all add: rollback_request_def str_field_def as_string_def)
  obtain o' e' st1 where ra: "RunArgv env undo st = ((o', e'), st1)" by (metis surj_pair)
  have run: "asRun st1 = asRun st @ [undo]" "asRows st1 = asRows st"
    using RunArgv_runnable [OF assms(2), of env st] RunArgv_run [OF ra] ra by simp_all
  obtain s where "snd (rollbackAction env ?in st) = set_rollback_status rid s st1"
    using f dec nr c ra ids assms(3,4)
    by (simp add: rollbackAction_def IsLegacyRollback_def Let_def)
  then have "snd (agent_Execute env ?in st) =
      (set_rollback_status rid s st1)\<lparr>asCalls := Suc (asCalls (set_rollback_status rid s st1))\<rparr>"
    using ids by (auto simp: agent_Execute_def agent_dispatch_def map_prod_def split: prod.splits)
  then show ?thesis
    using run f p d by (simp add: set_rollback_status_def rollback_row_def find_map_status)
qed

lemma rollback_steps:
  assumes "rollback_row env rid undo st" "runnable undo" "rid \<noteq> ''''" "reQueryErr env rid = None"
  shows "asRun (((\<lambda>s. snd (agent_Execute env (rollback_request rid) s)) ^^ n) st) = asRun st @ replicate n undo \<and>
     rollback_row env rid undo (((\<lambda>s. snd (agent_Execute env (rollback_request rid) s)) ^^ n) st)"
proof (induction n)
  case (Suc n)
  then show ?case
    using rollback_step [OF _ assms(2-4)] by (simp add: replicate_append_same)
qed (use assms(1) in simp)

text \<open>A blocked address is unblocked by the rollback of its action: the stored command is the
  inverse one.  Nothing records that it was done, so each further rollback of the same action
  runs the inverse command once more.\<close>

theorem rollback_runs_inverse:
  assumes ip: "ValidateIP env ip = Inr addr"
    and fresh: "reInsertOk env (asCalls st)" "reUuid env (asCalls st) = rid" "rid \<noteq> ''''"
      "rid \<notin> arID ` set (asRows st)" "reQueryErr env rid = None"
    and argv: "BlockIPArgv env addr = (argv, undo)"
    and json: "reDecode env (reEncode env undo argv) = Some (undo, argv)"
      "HasPrefix (reEncode env undo argv) ''{''"
  shows "asRun (((\<lambda>s. snd (agent_Execute env (rollback_request rid) s)) ^^ n)
       (snd (agent_Execute env [(''action'', VStr ''block_ip''), (''ip'', VStr ip)] st)))
     = asRun st @ argv # replicate n undo"
proof -
  let ?in = "[(''action'', VStr ''block_ip''), (''ip'', VStr ip)]"
  let ?st1 = "snd (agent_Execute env ?in st)"
  have ids: "str_field ?in ''action'' = ''block_ip''" "str_field ?in ''ip'' = ip"
    by (simp_all add: str_field_def as_string_def)
  have ok: "runnable argv" "runnable undo"
    using argv by (auto simp: BlockIPArgv_def IptablesBlockArgv_def NetshBlockArgv_def PfctlBlockArgv_def
        runnable_def split: if_splits)
  obtain o' e' s1 where ra: "RunArgv env argv st = ((o', e'), s1)" by (metis surj_pair)
  have s1: "asRun s1 = asRun st @ [argv]" "asRows s1 = asRows st" "asCalls s1 = asCalls st"
    using RunArgv_runnable [OF ok(1), of env st] RunArgv_run [OF ra] ra by simp_all
  have "find (\<lambda>r. arID r = rid) (asRows st) = None"
    using fresh(4) by (auto simp: find_None_iff)
  then have row: "find (\<lambda>r. arID r = rid) (asRows st @ [r]) = Some r" if "arID r = rid" for r
    using that by (simp add: find_snoc)
  have "asRun ?st1 = asRun st @ [argv]" "rollback_row env rid undo ?st1"
    using ids ip argv ra s1 fresh json row
    by (simp_all add: agent_Execute_def agent_dispatch_def blockIP_def recordAction_def rollback_row_def Let_def)
  then show ?thesis
    using rollback_steps [OF _ ok(2) fresh(3,5), of ?st1 n] by simp
qed

text \<open>A process name may begin with a dash: the request to kill the process \<open>-u0\<close> passes the
  validator and reaches \<open>pkill\<close> as an option, which selects every process of user 0.\<close>

theorem kill_name_as_option:
  "asRun (snd (agent_Execute (env\<lparr>reGOOS := ''linux''\<rparr>)
       [(''action'', VStr ''kill_process''), (''name'', VStr ''-u0'')] st))
     = asRun st @ [[''pkill'', ''-9'', ''-u0'']]"
proof -
  have "ValidateProcessName ''-u0'' = None" by code_simp
  moreover have "runnable (PkillArgv ''-u0'')" by (simp add: runnable_def PkillArgv_def)
  ultimately show ?thesis
    using RunArgv_runnable [of "PkillArgv ''-u0''" "env\<lparr>reGOOS := ''linux''\<rparr>" st]
    by (auto simp: agent_Execute_def agent_dispatch_def killProcess_def kill_argv_def str_field_def
        as_string_def PkillArgv_def Let_def split: prod.splits dest: recordAction_run)
qed

section \<open>A sample configuration\<close>

definition sample_agent :: agent_state where
  "sample_agent = \<lparr>asRows = [], asRun = [], asCalls = 0, asQuarantineDir = ''/tmp/trace-quarantine''\<rparr>"

lemma rollback_runs_inverse_witness:
  "asRun (((\<lambda>s. snd (agent_Execute sample_resp_env (rollback_request ''id-0'') s)) ^^ 2)
       (snd (agent_Execute sample_resp_env [(''action'', VStr ''block_ip''), (''ip'', VStr ''10.0.0.5'')] sample_agent)))
     = [[''iptables'', ''-A'', ''INPUT'', ''-s'', ''10.0.0.5'', ''-j'', ''DROP''],
        [''iptables'', ''-D'', ''INPUT'', ''-s'', ''10.0.0.5'', ''-j'', ''DROP''],
        [''iptables'', ''-D'', ''INPUT'', ''-s'', ''10.0.0.5'', ''-j'', ''DROP'']]"
proof -
  let ?a = "[''iptables'', ''-A'', ''INPUT'', ''-s'', ''10.0.0.5'', ''-j'', ''DROP'']"
  let ?u = "[''iptables'', ''-D'', ''INPUT'', ''-s'', ''10.0.0.5'', ''-j'', ''DROP'']"
  have 1: "ValidateIP sample_resp_env ''10.0.0.5'' = Inr ''10.0.0.5''" by code_simp
  have 2: "BlockIPArgv sample_resp_env ''10.0.0.5'' = (?a, ?u)" by code_simp
  have 3: "reUuid sample_resp_env (asCalls sample_agent) = ''id-0''" by code_simp
  have 4: "reDecode sample_resp_env (reEncode sample_resp_env ?u ?a) = Some (?u, ?a)" by code_simp
  have 5: "HasPrefix (reEncode sample_resp_env ?u ?a) ''{''" by code_simp
  have 6: "asRows sample_agent = []" "asRun sample_agent = []"
    "reInsertOk sample_resp_env (asCalls sample_agent)" "reQueryErr sample_resp_env ''id-0'' = None"
    by (simp_all add: sample_agent_def sample_resp_env_def)
  show ?thesis
    using rollback_runs_inverse [OF 1 6(3) 3 _ _ 6(4) 2 4 5, of 2] by (simp add: 6 numeral_2_eq_2)
qed

lemma agent_runs_only_built_witness:
  "\<exists>new. asRun (snd (agent_Execute sample_resp_env [(''action'', VStr ''block_ip''), (''ip'', VStr ''10.0.0.5'')] sample_agent)) = new \<and>
     new \<noteq> [] \<and> list_all (built_argv sample_resp_env ''/tmp/trace-quarantine'') new"
proof -
  let ?in = "[(''action'', VStr ''block_ip''), (''ip'', VStr ''10.0.0.5'')]"
  obtain r st' where ex: "agent_Execute sample_resp_env ?in sample_agent = (r, st')" by fastforce
  have "asRun st' \<noteq> []"
  proof -
    have "asRun (snd (agent_Execute sample_resp_env ?in sample_agent)) \<noteq> []" by code_simp
    then show ?thesis using ex by simp
  qed
  then show ?thesis
    using agent_runs_only_built [OF ex] ex
    by (simp add: sample_agent_def str_field_def as_string_def list_all_iff)
qed

end
