(* ===== verification/Alert_Manager.thy ===== *)
theory Alert_Manager
  imports Go_Any
begin

text \<open>
  Alert fatigue management (\<open>internal/siem/alertmgr/manager.go\<close>) and the severity scale
  (\<open>internal/siem/severity.go\<close>).

  Times and durations are nanoseconds; the zero time of a new counter is 0.  The map of counters
  is an association list in the order in which the loop over it visits the keys;
  \<open>fmtDur\<close> is \<open>Duration.Round(time.Second).String\<close>.
\<close>

section \<open>Severities\<close>

definition MinSeverity :: int where "MinSeverity = 0"

definition MaxSeverity :: int where "MaxSeverity = 5"

definition SeverityLabel :: "int \<Rightarrow> string" where
  "SeverityLabel sev0 =
     (let sev1 = (if sev0 < 0 then 0 else sev0);
          sev = (if sev1 > MaxSeverity then MaxSeverity else sev1) in
      if sev \<le> 1 then ''low''
      else if sev \<le> 3 then ''medium''
      else if sev = 4 then ''high''
      else ''critical'')"

definition NormalizeMonitor :: "int \<Rightarrow> int" where
  "NormalizeMonitor msev =
     (if msev \<le> 1 then 1 else if msev \<le> 3 then 2 else if msev \<le> 5 then 4 else 5)"

definition ShouldAutoCase :: "int \<Rightarrow> bool" where
  "ShouldAutoCase ruleSev \<longleftrightarrow> ruleSev \<ge> 4"

definition ClampSeverity :: "int \<Rightarrow> int" where
  "ClampSeverity sev =
     (if sev < MinSeverity then MinSeverity else if sev > MaxSeverity then MaxSeverity else sev)"

section \<open>Suppression\<close>

record SuppressionRule =
  srID :: string
  srRuleID :: string
  srSource :: string
  srDuration :: int
  srMaxRate :: int
  srThreshold :: int
  srThresholdWindow :: int
  srCreatedAt :: int

record AlertEvent =
  aeTitle :: string
  aeRuleID :: string
  aeSource :: string
  aeSeverity :: int
  aeRaw :: obj

record ruleCounter =
  rcHitCount :: int
  rcLastHit :: int
  rcSuppressUntil :: int

record alert_manager =
  amSuppress :: "SuppressionRule list"
  amCounters :: "(string \<times> ruleCounter) list"

definition minute :: int where "minute = 60 * 1000000000"

definition hour :: int where "hour = 60 * minute"

definition NewAlertManager :: alert_manager where
  "NewAlertManager = \<lparr>amSuppress = [], amCounters = []\<rparr>"

definition AddSuppressionRule :: "SuppressionRule \<Rightarrow> alert_manager \<Rightarrow> alert_manager" where
  "AddSuppressionRule rule m = m\<lparr>amSuppress := amSuppress m @ [rule]\<rparr>"

fun first_field :: "obj \<Rightarrow> string list \<Rightarrow> string" where
  "first_field raw [] = ''global''"
| "first_field raw (k # ks) = (if str_field raw k \<noteq> '''' then str_field raw k else first_field raw ks)"

definition alertEntity :: "AlertEvent \<Rightarrow> string" where
  "alertEntity alert =
     (if aeSource alert \<noteq> '''' then aeSource alert
      else first_field (aeRaw alert) [''client_ip'', ''source_ip'', ''hostname'', ''host'', ''user''])"

definition alert_key :: "AlertEvent \<Rightarrow> string" where
  "alert_key alert = aeRuleID alert @ ''|'' @ alertEntity alert"

definition delete_key :: "string \<Rightarrow> (string \<times> 'v) list \<Rightarrow> (string \<times> 'v) list" where
  "delete_key k m = filter (\<lambda>p. fst p \<noteq> k) m"

text \<open>The loop that expires stale counters, over the keys in the order of the map; it stops as soon
  as the map has more than 10000 entries.\<close>

fun expire_loop :: "int \<Rightarrow> string list \<Rightarrow> (string \<times> ruleCounter) list \<Rightarrow> (string \<times> ruleCounter) list" where
  "expire_loop now [] m = m"
| "expire_loop now (k # ks) m =
     (let m' = (case map_of m k of
                  Some c \<Rightarrow> if now - rcLastHit c > hour then delete_key k m else m
                | None \<Rightarrow> m) in
      if length m' > 10000 then m' else expire_loop now ks m')"

text \<open>The loop over the suppression rules, on the counter of the alert: the reason of a suppression,
  if any, and the counter.\<close>

fun check_rules :: "int \<Rightarrow> AlertEvent \<Rightarrow> SuppressionRule list \<Rightarrow> ruleCounter \<Rightarrow> string option \<times> ruleCounter" where
  "check_rules now alert [] rc = (None, rc)"
| "check_rules now alert (rule # rules) rc =
     (if srRuleID rule \<noteq> '''' \<and> srRuleID rule \<noteq> aeRuleID alert then check_rules now alert rules rc
      else if srSource rule \<noteq> '''' \<and> srSource rule \<noteq> aeSource alert then check_rules now alert rules rc
      else
        let window = (if srThresholdWindow rule \<le> 0 then hour else srThresholdWindow rule);
            rc1 = (if srThreshold rule > 0 \<and> rcLastHit rc < now - window then rc\<lparr>rcHitCount := 1\<rparr> else rc) in
        if srThreshold rule > 0 \<and> rcHitCount rc1 < srThreshold rule
        then (Some (''below threshold '' @ show_int (rcHitCount rc1) @ ''/'' @ show_int (srThreshold rule)
                @ '' (rule='' @ aeRuleID alert @ '')''), rc1)
        else if srMaxRate rule > 0 \<and> rcHitCount rc1 > srMaxRate rule
        then (Some (''rate limit '' @ show_int (srMaxRate rule) @ ''/h exceeded (rule='' @ aeRuleID alert @ '')''),
              rc1\<lparr>rcSuppressUntil := now + (if srDuration rule \<le> 0 then hour else srDuration rule)\<rparr>)
        else check_rules now alert rules rc1)"

definition decay :: "int \<Rightarrow> ruleCounter \<Rightarrow> ruleCounter" where
  "decay now rc =
     (if rcHitCount rc > 10 then rc\<lparr>rcSuppressUntil := now + hour\<rparr>
      else if rcHitCount rc > 1 then rc\<lparr>rcSuppressUntil := now + rcHitCount rc * minute\<rparr>
      else rc)"

text \<open>What happens to the counter of an alert that is not under an active suppression.\<close>

definition count_hit :: "int \<Rightarrow> AlertEvent \<Rightarrow> SuppressionRule list \<Rightarrow> ruleCounter \<Rightarrow> (bool \<times> string) \<times> ruleCounter" where
  "count_hit now alert rules rc =
     (case check_rules now alert rules (rc\<lparr>rcHitCount := rcHitCount rc + 1, rcLastHit := now\<rparr>) of
        (Some reason, rc') \<Rightarrow> ((True, reason), rc')
      | (None, rc') \<Rightarrow> ((False, ''''), decay now rc'))"

definition new_counter :: ruleCounter where
  "new_counter = \<lparr>rcHitCount = 0, rcLastHit = 0, rcSuppressUntil = 0\<rparr>"

definition ShouldSuppress ::
  "(int \<Rightarrow> string) \<Rightarrow> int \<Rightarrow> AlertEvent \<Rightarrow> alert_manager \<Rightarrow> (bool \<times> string) \<times> alert_manager" where
  "ShouldSuppress fmtDur now alert m =
     (let key = alert_key alert;
          old = map_of (amCounters m) key;
          rc = (case old of Some c \<Rightarrow> c | None \<Rightarrow> new_counter) in
      if old \<noteq> None \<and> rcSuppressUntil rc > now
      then ((True, ''suppressed for '' @ fmtDur (rcSuppressUntil rc - now) @ '' (rule='' @ aeRuleID alert @ '')''), m)
      else
        let counted = put key (rc\<lparr>rcHitCount := rcHitCount rc + 1, rcLastHit := now\<rparr>) (amCounters m);
            expired = expire_loop now (map fst counted) counted;
            (r, rc') = count_hit now alert (amSuppress m) rc in
        (r, m\<lparr>amCounters := put key rc' expired\<rparr>))"

definition alert_Reset :: "string \<Rightarrow> alert_manager \<Rightarrow> alert_manager" where
  "alert_Reset ruleID m =
     m\<lparr>amCounters := filter (\<lambda>p. fst p \<noteq> ruleID \<and> \<not> HasPrefix (fst p) (ruleID @ ''|'')) (amCounters m)\<rparr>"

definition stats_key :: "string \<Rightarrow> string" where
  "stats_key key = (case Index key ''|'' of Some i \<Rightarrow> take i key | None \<Rightarrow> key)"

fun alert_Stats :: "(string \<times> ruleCounter) list \<Rightarrow> (string \<times> ruleCounter) list" where
  "alert_Stats [] = []"
| "alert_Stats ((key, rc) # m) =
     (let rest = alert_Stats m in
      if map_of rest (stats_key key) \<noteq> None then rest else put (stats_key key) rc rest)"

section \<open>Counters of one rule and entity\<close>

lemma map_of_delete_key: "map_of (delete_key k m) j = (if j = k then None else map_of m j)"
  by (induction m) (auto simp: delete_key_def)

lemma expire_loop_keeps:
  assumes "map_of m k = Some c" "now - rcLastHit c \<le> hour"
  shows "map_of (expire_loop now ks m) k = Some c"
  using assms(1)
proof (induction ks arbitrary: m)
  case (Cons j ks)
  let ?m = "case map_of m j of Some c \<Rightarrow> if now - rcLastHit c > hour then delete_key j m else m | None \<Rightarrow> m"
  have "map_of ?m k = Some c"
    using Cons.prems assms(2) by (auto simp: map_of_delete_key split: option.splits)
  then show ?case using Cons.IH by (simp add: Let_def)
qed simp

text \<open>The counter that an alert starts from, and the decision as a function of it.\<close>

definition counter_of :: "string \<Rightarrow> alert_manager \<Rightarrow> ruleCounter option" where
  "counter_of key m = map_of (amCounters m) key"

lemma ShouldSuppress_active:
  assumes "counter_of (alert_key a) m = Some rc" "rcSuppressUntil rc > now"
  shows "ShouldSuppress f now a m =
     ((True, ''suppressed for '' @ f (rcSuppressUntil rc - now) @ '' (rule='' @ aeRuleID a @ '')''), m)"
  using assms by (simp add: ShouldSuppress_def counter_of_def)

lemma ShouldSuppress_counts:
  assumes "case counter_of (alert_key a) m of None \<Rightarrow> True | Some rc \<Rightarrow> rcSuppressUntil rc \<le> now"
    and "count_hit now a (amSuppress m)
       (case counter_of (alert_key a) m of Some c \<Rightarrow> c | None \<Rightarrow> new_counter) = (r, rc')"
  shows "fst (ShouldSuppress f now a m) = r"
    "counter_of (alert_key a) (snd (ShouldSuppress f now a m)) = Some rc'"
    "amSuppress (snd (ShouldSuppress f now a m)) = amSuppress m"
  using assms by (auto simp: ShouldSuppress_def counter_of_def Let_def split: option.splits)

text \<open>Alerts do not bleed: the decision on an alert and the counter it leaves depend on the
  rules and on the counter of its own rule and entity only, whatever the other counters are.\<close>

theorem entity_isolation:
  assumes "amSuppress m1 = amSuppress m2" "counter_of (alert_key a) m1 = counter_of (alert_key a) m2"
  shows "fst (ShouldSuppress f now a m1) = fst (ShouldSuppress f now a m2) \<and>
    counter_of (alert_key a) (snd (ShouldSuppress f now a m1)) =
      counter_of (alert_key a) (snd (ShouldSuppress f now a m2))"
proof -
  let ?c = "counter_of (alert_key a) m1"
  show ?thesis
  proof (cases "case ?c of None \<Rightarrow> True | Some rc \<Rightarrow> rcSuppressUntil rc \<le> now")
    case True
    obtain r rc' where "count_hit now a (amSuppress m1) (case ?c of Some c \<Rightarrow> c | None \<Rightarrow> new_counter) = (r, rc')"
      by fastforce
    with True assms show ?thesis
      using ShouldSuppress_counts [where a = a and m = m1 and now = now and r = r and rc' = rc' and f = f]
        ShouldSuppress_counts [where a = a and m = m2 and now = now and r = r and rc' = rc' and f = f] by simp
  next
    case False
    then obtain rc where c: "?c = Some rc" and u: "rcSuppressUntil rc > now" by (auto split: option.splits)
    have c2: "counter_of (alert_key a) m2 = Some rc" using c assms(2) by simp
    show ?thesis
      using ShouldSuppress_active [OF c u, of f] ShouldSuppress_active [OF c2 u, of f] assms(2) by simp
  qed
qed

text \<open>Rule identifiers without a bar make the keys unambiguous.\<close>

lemma alert_key_eq:
  assumes "alert_key a = alert_key b" "CHR ''|'' \<notin> set (aeRuleID a)" "CHR ''|'' \<notin> set (aeRuleID b)"
  shows "aeRuleID a = aeRuleID b \<and> alertEntity a = alertEntity b"
proof -
  have "SplitN2 (CHR ''|'') (alert_key x) = (aeRuleID x, Some (alertEntity x))" if "CHR ''|'' \<notin> set (aeRuleID x)" for x
    using SplitN2_append [OF that] by (simp add: alert_key_def)
  from this [OF assms(2)] this [OF assms(3)] assms(1) show ?thesis by simp
qed

section \<open>Decay and limits\<close>

lemma check_rules_last:
  "rcLastHit rc = now \<Longrightarrow> check_rules now a rules rc = (x, rc') \<Longrightarrow>
     rcHitCount rc' = rcHitCount rc \<and> rcLastHit rc' = now \<and> (x = None \<longrightarrow> rc' = rc)"
proof (induction rules arbitrary: rc)
  case (Cons rule rules)
  have "hour > 0" by (simp add: hour_def minute_def)
  then have "\<not> now < now - (if srThresholdWindow rule \<le> 0 then hour else srThresholdWindow rule)" by auto
  with Cons show ?case by (auto simp: Let_def split: if_splits)
qed simp

lemma count_hit_counts:
  assumes "count_hit now a rules rc = (r, rc')"
  shows "rcHitCount rc' = rcHitCount rc + 1"
    "\<not> fst r \<Longrightarrow> rc' = decay now (rc\<lparr>rcHitCount := rcHitCount rc + 1, rcLastHit := now\<rparr>)"
proof -
  let ?rc = "rc\<lparr>rcHitCount := rcHitCount rc + 1, rcLastHit := now\<rparr>"
  obtain x rc1 where c: "check_rules now a rules ?rc = (x, rc1)" by fastforce
  note k = check_rules_last [OF _ c]
  show "rcHitCount rc' = rcHitCount rc + 1"
    using assms c k by (auto simp: count_hit_def decay_def split: option.splits)
  show "rc' = decay now ?rc" if "\<not> fst r"
    using assms c k that by (auto simp: count_hit_def split: option.splits)
qed

definition quiet_time :: "int \<Rightarrow> int" where
  "quiet_time n = (if n > 10 then hour else n * minute)"

text \<open>Decay: after the hit number \<open>n \<ge> 2\<close> of a rule and entity passed, every alert of them is
  suppressed for \<open>n\<close> minutes, and for an hour from the eleventh hit on; a suppressed alert leaves
  the counters as they are.\<close>

theorem decay_spacing:
  assumes "ShouldSuppress f t1 a m = ((False, reason), m')" "counter_of (alert_key a) m' = Some rc"
    and "rcHitCount rc \<ge> 2" "t2 < t1 + quiet_time (rcHitCount rc)" "alert_key b = alert_key a"
  shows "fst (fst (ShouldSuppress f t2 b m')) \<and> snd (ShouldSuppress f t2 b m') = m'"
proof -
  let ?c = "case counter_of (alert_key a) m of Some c \<Rightarrow> c | None \<Rightarrow> new_counter"
  have free: "case counter_of (alert_key a) m of None \<Rightarrow> True | Some rc \<Rightarrow> rcSuppressUntil rc \<le> t1"
    using assms(1) ShouldSuppress_active [of a m _ t1 f] by (force split: option.splits)
  obtain r rc' where c: "count_hit t1 a (amSuppress m) ?c = (r, rc')" by fastforce
  have "r = (False, reason)" "rc' = rc"
    using ShouldSuppress_counts [OF free c, of f] assms(1,2) by simp_all
  then have "rc = decay t1 (?c\<lparr>rcHitCount := rcHitCount ?c + 1, rcLastHit := t1\<rparr>)"
    using count_hit_counts(2) [OF c] by simp
  then have "rcSuppressUntil rc = t1 + quiet_time (rcHitCount rc)"
    using assms(3) by (auto simp: decay_def quiet_time_def split: if_splits)
  then show ?thesis
    using ShouldSuppress_active [of b m' rc t2 f] assms(2,4,5) by simp
qed

text \<open>The window of a threshold has no effect, because the last hit is set to the present before it is
  compared with the window.\<close>

lemma threshold_window_ignored:
  "fst (count_hit now a (map (\<lambda>r. r\<lparr>srThresholdWindow := w\<rparr>) rules) rc) = fst (count_hit now a rules rc)"
proof -
  have h: "hour > 0" by (simp add: hour_def minute_def)
  have "rcLastHit rc = now \<Longrightarrow>
    check_rules now a (map (\<lambda>r. r\<lparr>srThresholdWindow := w\<rparr>) rules) rc = check_rules now a rules rc" for rc
    using h by (induction rules arbitrary: rc) (auto simp: Let_def)
  then show ?thesis by (auto simp: count_hit_def split: prod.splits option.splits)
qed

definition rate_rule :: "AlertEvent \<Rightarrow> SuppressionRule \<Rightarrow> bool" where
  "rate_rule a rule \<longleftrightarrow> srMaxRate rule > 0 \<and> srThreshold rule \<le> 0 \<and>
     (srRuleID rule = '''' \<or> srRuleID rule = aeRuleID a) \<and> (srSource rule = '''' \<or> srSource rule = aeSource a)"

lemma rate_limit_step:
  assumes "amSuppress m = [rule]" "rate_rule a rule" "counter_of (alert_key a) m = Some rc"
    "rcHitCount rc \<ge> srMaxRate rule"
  shows "fst (fst (ShouldSuppress f now a m)) \<and> amSuppress (snd (ShouldSuppress f now a m)) = [rule] \<and>
     (\<exists>rc'. counter_of (alert_key a) (snd (ShouldSuppress f now a m)) = Some rc' \<and> rcHitCount rc' \<ge> srMaxRate rule)"
proof (cases "rcSuppressUntil rc > now")
  case True
  then show ?thesis using ShouldSuppress_active [OF assms(3)] assms by simp
next
  case False
  obtain r rc' where c: "count_hit now a [rule] rc = (r, rc')" by fastforce
  have "fst r" using c assms(2,4) by (auto simp: count_hit_def rate_rule_def Let_def split: if_splits)
  moreover have "rcHitCount rc' \<ge> srMaxRate rule" using count_hit_counts(1) [OF c] assms(4) by simp
  ultimately show ?thesis
    using ShouldSuppress_counts [where a = a and m = m and now = now and r = r and rc' = rc' and f = f] assms(1,3) c False by simp
qed

text \<open>A rate limit is for ever: once the counter of a rule and entity has reached the limit of
  alerts per hour, every later alert of them is suppressed, however long after.\<close>

theorem rate_limit_permanent:
  assumes "amSuppress m = [rule]" "rate_rule a rule" "counter_of (alert_key a) m = Some rc"
    "rcHitCount rc \<ge> srMaxRate rule"
  shows "fst (fst (ShouldSuppress f now a
     (foldl (\<lambda>m t. snd (ShouldSuppress f t a m)) m ts)))"
proof -
  have "\<exists>rc. amSuppress (foldl (\<lambda>m t. snd (ShouldSuppress f t a m)) m ts) = [rule] \<and>
      counter_of (alert_key a) (foldl (\<lambda>m t. snd (ShouldSuppress f t a m)) m ts) = Some rc \<and>
      rcHitCount rc \<ge> srMaxRate rule"
    using assms(1,3,4)
  proof (induction ts arbitrary: m rc)
    case (Cons t ts)
    then show ?case using rate_limit_step [OF Cons.prems(1) assms(2) Cons.prems(2,3), of f t] by fastforce
  qed simp
  then show ?thesis using rate_limit_step assms(2) by blast
qed

section \<open>Samples\<close>

definition sample_alert :: AlertEvent where
  "sample_alert = \<lparr>aeTitle = [], aeRuleID = ''5710'', aeSource = ''10.0.0.5'', aeSeverity = 3, aeRaw = []\<rparr>"

definition sample_counter :: "int \<Rightarrow> ruleCounter" where
  "sample_counter n = \<lparr>rcHitCount = n, rcLastHit = 1, rcSuppressUntil = 0\<rparr>"

definition sample_rate_rule :: SuppressionRule where
  "sample_rate_rule = \<lparr>srID = ''r1'', srRuleID = [], srSource = [], srDuration = 0, srMaxRate = 2, srThreshold = 0,
     srThresholdWindow = 0, srCreatedAt = 0\<rparr>"

definition sample_alerts :: "SuppressionRule list \<Rightarrow> (string \<times> ruleCounter) list \<Rightarrow> alert_manager" where
  "sample_alerts rules others =
     \<lparr>amSuppress = rules, amCounters = (alert_key sample_alert, sample_counter 2) # others\<rparr>"

lemma entity_isolation_witness:
  "fst (ShouldSuppress show_int 5 sample_alert (sample_alerts [] [(''x'', sample_counter 9)])) =
   fst (ShouldSuppress show_int 5 sample_alert (sample_alerts [] []))"
  using entity_isolation [of "sample_alerts [] [(''x'', sample_counter 9)]" "sample_alerts [] []"
      sample_alert show_int 5]
  by (simp add: sample_alerts_def counter_of_def)

lemma rate_limit_permanent_witness:
  "fst (fst (ShouldSuppress show_int 99999999999999999 sample_alert
     (foldl (\<lambda>m t. snd (ShouldSuppress show_int t sample_alert m)) (sample_alerts [sample_rate_rule] []) [5, 7])))"
  by (rule rate_limit_permanent [where rule = sample_rate_rule and rc = "sample_counter 2"])
    (simp_all add: sample_alerts_def sample_rate_rule_def rate_rule_def counter_of_def sample_counter_def)

lemma decay_spacing_witness:
  "fst (fst (ShouldSuppress show_int 6 sample_alert (snd (ShouldSuppress show_int 5 sample_alert (sample_alerts [] [])))))"
proof -
  let ?m = "snd (ShouldSuppress show_int 5 sample_alert (sample_alerts [] []))"
  have 1: "ShouldSuppress show_int 5 sample_alert (sample_alerts [] []) = ((False, []), ?m)" by code_simp
  have 2: "counter_of (alert_key sample_alert) ?m = Some \<lparr>rcHitCount = 3, rcLastHit = 5, rcSuppressUntil = 5 + 3 * minute\<rparr>"
    by code_simp
  show ?thesis
    using decay_spacing [OF 1 2, of 6 sample_alert] by (simp add: quiet_time_def minute_def hour_def)
qed

end
