(* ===== verification/Agent_Filters.thy ===== *)
theory Agent_Filters
  imports Go_Any Go_Channel
begin

text \<open>
  The in-memory filters of the endpoint agent (\<open>internal/edr_agent/monitor\<close>): the priority queue,
  the flood detector, the deduplicator, false-positive learning and the scan cache.

  A goroutine is a sequence of steps; the choice of a ready case in \<open>select\<close>, the order of a map
  and the clock are inputs.  A mutex that is locked again by its holder blocks for ever, which is
  the value \<open>None\<close>.
\<close>

section \<open>Events\<close>

record ProcessInfo =
  piPID :: int
  piPPID :: int
  piName :: string
  piCmdLine :: string

record MonFileInfo =
  mfPath :: string
  mfSize :: int

record NetInfo =
  niRemoteIP :: string
  niRemotePort :: int
  niProtocol :: string
  niPID :: int
  niDirection :: string

record mon_event =
  meID :: string
  meTimestamp :: int
  meType :: string
  meSeverity :: int
  meProcess :: "ProcessInfo option"
  meFile :: "MonFileInfo option"
  meNetwork :: "NetInfo option"
  meRaw :: obj
  meAnnotations :: "(string \<times> string) list"

definition SeverityWarning :: int where "SeverityWarning = 3"

definition SeverityAlert :: int where "SeverityAlert = 5"

section \<open>The priority queue\<close>

datatype Priority = PriorityHigh | PriorityMedium | PriorityLow

definition EventPriority :: "mon_event \<Rightarrow> Priority" where
  "EventPriority evt =
     (if meType evt = ''alert'' then
        if meSeverity evt \<ge> SeverityAlert then PriorityHigh else PriorityMedium
      else if meType evt = ''process_create'' \<or> meType evt = ''process_terminate'' then PriorityMedium
      else PriorityLow)"

text \<open>A buffered channel with its capacity.\<close>

type_synonym 'a bchan = "'a list \<times> nat"

definition ch_send :: "'a \<Rightarrow> 'a bchan \<Rightarrow> 'a bchan option" where
  "ch_send x c = (if length (fst c) < snd c then Some (fst c @ [x], snd c) else None)"

definition ch_recv :: "'a bchan \<Rightarrow> ('a \<times> 'a bchan) option" where
  "ch_recv c = (case fst c of [] \<Rightarrow> None | x # xs \<Rightarrow> Some (x, (xs, snd c)))"

interpretation bchan: channel fst snd ch_send ch_recv
  by unfold_locales (auto simp: ch_send_def ch_recv_def split: if_splits list.splits)

text \<open>Where the goroutine of \<open>merge\<close> stands: before the first \<open>select\<close>, in the second one, or with an
  event in hand for \<open>drain\<close>.\<close>

datatype merge_pc = AtFirst | AtSecond | Holding mon_event

record PriorityQueue =
  pqHigh :: "mon_event bchan"
  pqMedium :: "mon_event bchan"
  pqLow :: "mon_event bchan"
  pqOut :: "mon_event bchan"
  pqDropped :: nat
  pqHighDrop :: nat
  pqMedDrop :: nat
  pqLowDrop :: nat
  pqMerge :: merge_pc

definition NewPriorityQueue :: "nat \<Rightarrow> PriorityQueue" where
  "NewPriorityQueue outCap =
     \<lparr>pqHigh = ([], 100), pqMedium = ([], 500), pqLow = ([], 2000), pqOut = ([], outCap),
      pqDropped = 0, pqHighDrop = 0, pqMedDrop = 0, pqLowDrop = 0, pqMerge = AtFirst\<rparr>"

definition push_high :: "mon_event \<Rightarrow> (PriorityQueue \<Rightarrow> PriorityQueue) \<Rightarrow> PriorityQueue \<Rightarrow> PriorityQueue" where
  "push_high evt miss pq =
     (case ch_send evt (pqHigh pq) of Some c \<Rightarrow> pq\<lparr>pqHigh := c\<rparr> | None \<Rightarrow> miss pq)"

definition push_medium :: "mon_event \<Rightarrow> (PriorityQueue \<Rightarrow> PriorityQueue) \<Rightarrow> PriorityQueue \<Rightarrow> PriorityQueue" where
  "push_medium evt miss pq =
     (case ch_send evt (pqMedium pq) of Some c \<Rightarrow> pq\<lparr>pqMedium := c\<rparr> | None \<Rightarrow> miss pq)"

definition push_low :: "mon_event \<Rightarrow> (PriorityQueue \<Rightarrow> PriorityQueue) \<Rightarrow> PriorityQueue \<Rightarrow> PriorityQueue" where
  "push_low evt miss pq =
     (case ch_send evt (pqLow pq) of Some c \<Rightarrow> pq\<lparr>pqLow := c\<rparr> | None \<Rightarrow> miss pq)"

definition droppedTotal :: "PriorityQueue \<Rightarrow> PriorityQueue" where
  "droppedTotal pq = pq\<lparr>pqDropped := pqDropped pq + 1\<rparr>"

definition pq_Push :: "mon_event \<Rightarrow> PriorityQueue \<Rightarrow> PriorityQueue" where
  "pq_Push evt pq =
     (case EventPriority evt of
        PriorityHigh \<Rightarrow>
          push_high evt (\<lambda>q. droppedTotal (q\<lparr>pqHighDrop := pqHighDrop q + 1\<rparr>)) pq
      | PriorityMedium \<Rightarrow>
          push_medium evt (push_high evt (\<lambda>q. droppedTotal (q\<lparr>pqMedDrop := pqMedDrop q + 1\<rparr>))) pq
      | PriorityLow \<Rightarrow>
          push_low evt (push_medium evt (push_high evt
            (\<lambda>q. droppedTotal (q\<lparr>pqLowDrop := pqLowDrop q + 1\<rparr>)))) pq)"

text \<open>The first \<open>select\<close> of \<open>merge\<close> looks at the high channel only; the second one takes any channel
  that is ready, here the one that is picked.\<close>

definition merge_first :: "PriorityQueue \<Rightarrow> PriorityQueue" where
  "merge_first pq =
     (case pqMerge pq of
        AtFirst \<Rightarrow>
          (case ch_recv (pqHigh pq) of
             Some (evt, c) \<Rightarrow> pq\<lparr>pqHigh := c, pqMerge := Holding evt\<rparr>
           | None \<Rightarrow> pq\<lparr>pqMerge := AtSecond\<rparr>)
      | _ \<Rightarrow> pq)"

definition merge_second :: "Priority \<Rightarrow> PriorityQueue \<Rightarrow> PriorityQueue" where
  "merge_second pick pq =
     (case pqMerge pq of
        AtSecond \<Rightarrow>
          (case pick of
             PriorityHigh \<Rightarrow>
               (case ch_recv (pqHigh pq) of
                  Some (evt, c) \<Rightarrow> pq\<lparr>pqHigh := c, pqMerge := Holding evt\<rparr> | None \<Rightarrow> pq)
           | PriorityMedium \<Rightarrow>
               (case ch_recv (pqMedium pq) of
                  Some (evt, c) \<Rightarrow> pq\<lparr>pqMedium := c, pqMerge := Holding evt\<rparr> | None \<Rightarrow> pq)
           | PriorityLow \<Rightarrow>
               (case ch_recv (pqLow pq) of
                  Some (evt, c) \<Rightarrow> pq\<lparr>pqLow := c, pqMerge := Holding evt\<rparr> | None \<Rightarrow> pq))
      | _ \<Rightarrow> pq)"

text \<open>\<open>drain\<close> takes the event from \<open>merge\<close> and offers it to the output twice without waiting.\<close>

definition drain_one :: "PriorityQueue \<Rightarrow> PriorityQueue" where
  "drain_one pq =
     (case pqMerge pq of
        Holding evt \<Rightarrow>
          (case ch_send evt (pqOut pq) of
             Some c \<Rightarrow> pq\<lparr>pqOut := c, pqMerge := AtFirst\<rparr>
           | None \<Rightarrow> pq\<lparr>pqDropped := pqDropped pq + 1, pqMerge := AtFirst\<rparr>)
      | _ \<Rightarrow> pq)"

definition pq_Stats :: "PriorityQueue \<Rightarrow> nat \<times> nat \<times> nat \<times> nat" where
  "pq_Stats pq = (pqDropped pq, pqHighDrop pq, pqMedDrop pq, pqLowDrop pq)"

text \<open>A step of the queue; \<open>Consume\<close> is the reader of the output.\<close>

datatype pq_op = PushOp mon_event | FirstOp | SecondOp Priority | DrainOp | ConsumeOp

fun pq_exec :: "pq_op \<Rightarrow> PriorityQueue \<Rightarrow> PriorityQueue" where
  "pq_exec (PushOp evt) pq = pq_Push evt pq"
| "pq_exec FirstOp pq = merge_first pq"
| "pq_exec (SecondOp p) pq = merge_second p pq"
| "pq_exec DrainOp pq = drain_one pq"
| "pq_exec ConsumeOp pq = (case ch_recv (pqOut pq) of None \<Rightarrow> pq | Some (_, c) \<Rightarrow> pq\<lparr>pqOut := c\<rparr>)"

section \<open>The flood detector\<close>

definition minThreshold :: int where "minThreshold = 20"

definition maxThreshold :: int where "maxThreshold = 5000"

definition defaultThreshold :: int where "defaultThreshold = 100"

record FloodDetector =
  fdCounts :: "string \<Rightarrow> int list"
  fdFloodMode :: bool
  fdWindow :: int
  fdWarmupCount :: "(string \<times> int) list option"
  fdWarmupPeriod :: int
  fdThreshold :: "string \<Rightarrow> int option"
  fdAlerts :: "mon_event list"

definition second_ns :: int where "second_ns = 1000000000"

definition NewFloodDetector :: "int \<Rightarrow> FloodDetector" where
  "NewFloodDetector now =
     \<lparr>fdCounts = (\<lambda>_. []), fdFloodMode = False, fdWindow = second_ns, fdWarmupCount = Some [],
      fdWarmupPeriod = now, fdThreshold = (\<lambda>_. None), fdAlerts = []\<rparr>"

definition flood_threshold :: "int \<Rightarrow> int" where
  "flood_threshold cnt =
     (let t = go_quot cnt 60 * 3;
          t1 = (if t < minThreshold then minThreshold else t) in
      if t1 > maxThreshold then maxThreshold else t1)"

text \<open>\<open>itoa\<close>: the digits are put in front of the text, least significant digit first.\<close>

fun itoa_loop :: "nat \<Rightarrow> string \<Rightarrow> string" where
  "itoa_loop n r = (if n = 0 then r else itoa_loop (n div 10) (digit_char (n mod 10) # r))"

declare itoa_loop.simps [simp del]

definition itoa :: "int \<Rightarrow> string" where
  "itoa i =
     (if i = 0 then ''0''
      else let r = itoa_loop (nat (if i < 0 then - i else i)) '''' in
           if i < 0 then ''-'' @ r else r)"

definition flood_alert :: "string \<Rightarrow> int \<Rightarrow> string \<Rightarrow> int \<Rightarrow> int \<Rightarrow> int \<Rightarrow> mon_event" where
  "flood_alert uuid now etype cnt threshold window =
     \<lparr>meID = uuid, meTimestamp = now, meType = ''alert'', meSeverity = SeverityWarning,
      meProcess = None, meFile = None, meNetwork = None, meRaw = [],
      meAnnotations = [(''correlation'', ''event_flood''), (''event_type'', etype), (''count'', itoa cnt),
        (''threshold'', itoa threshold), (''window_ms'', itoa (go_quot window 1000000))]\<rparr>"

text \<open>\<open>chReady\<close> says whether the alert can be sent without waiting.\<close>

definition flood_Ingest :: "string \<Rightarrow> bool \<Rightarrow> int \<Rightarrow> string \<Rightarrow> FloodDetector \<Rightarrow> FloodDetector" where
  "flood_Ingest uuid chReady now etype fd =
     (if now - fdWarmupPeriod fd < 60 * second_ns then
        (case fdWarmupCount fd of
           Some wc \<Rightarrow> fd\<lparr>fdWarmupCount := Some (put etype ((case map_of wc etype of Some n \<Rightarrow> n | None \<Rightarrow> 0) + 1) wc)\<rparr>
         | None \<Rightarrow> fd)
      else
        let fd1 = fd\<lparr>fdThreshold := (\<lambda>e. case fdWarmupCount fd of
                       None \<Rightarrow> fdThreshold fd e
                     | Some wc \<Rightarrow> (case map_of wc e of Some n \<Rightarrow> Some (flood_threshold n) | None \<Rightarrow> fdThreshold fd e)),
                     fdWarmupCount := None\<rparr>;
            active = filter (\<lambda>t. t > now - fdWindow fd) (fdCounts fd1 etype) @ [now];
            fd2 = fd1\<lparr>fdCounts := (fdCounts fd1)(etype := active)\<rparr>;
            t = (case fdThreshold fd2 etype of Some n \<Rightarrow> if n = 0 then defaultThreshold else n | None \<Rightarrow> defaultThreshold) in
        if int (length active) > t \<and> \<not> fdFloodMode fd2
        then fd2\<lparr>fdFloodMode := True,
                 fdAlerts := (if chReady then fdAlerts fd2 @ [flood_alert uuid now etype (int (length active)) t (fdWindow fd2)]
                              else fdAlerts fd2)\<rparr>
        else fd2)"

text \<open>What the goroutine of \<open>clearAfter\<close> does when it wakes up, three windows after the alert.\<close>

definition clearAfter :: "FloodDetector \<Rightarrow> FloodDetector" where
  "clearAfter fd = fd\<lparr>fdFloodMode := False, fdCounts := (\<lambda>_. [])\<rparr>"

definition IsFlooding :: "FloodDetector \<Rightarrow> bool" where
  "IsFlooding fd = fdFloodMode fd"

section \<open>The deduplicator\<close>

record Deduplicator =
  ddMem :: "(string \<times> int) list"
  ddDB :: "(string \<times> int) list option"
  ddTTL :: int
  ddMaxMem :: nat
  ddHit :: nat
  ddMiss :: nat
  ddBatch :: "string list"
  ddBatchCh :: bool
  ddBatchFull :: bool

definition batchMapMax :: nat where "batchMapMax = 500"

definition batchFlushThr :: nat where "batchFlushThr = 375"

text \<open>\<open>loadMem\<close>: the keys of the last 30 seconds; \<open>rows\<close> is the order of the query.\<close>

definition loadMem :: "int \<Rightarrow> Deduplicator \<Rightarrow> Deduplicator" where
  "loadMem now d =
     (case ddDB d of
        None \<Rightarrow> d
      | Some rows \<Rightarrow>
          d\<lparr>ddMem := foldl (\<lambda>m (h, seen). if seen > now - 30 * second_ns then put h now m else m) (ddMem d) rows\<rparr>)"

definition NewDeduplicator :: "(string \<times> int) list option \<Rightarrow> int \<Rightarrow> Deduplicator" where
  "NewDeduplicator db now =
     loadMem now \<lparr>ddMem = [], ddDB = db, ddTTL = 30 * second_ns, ddMaxMem = 10000, ddHit = 0, ddMiss = 0,
       ddBatch = [], ddBatchCh = False, ddBatchFull = False\<rparr>"

definition raw_text :: "mon_event \<Rightarrow> string \<Rightarrow> string" where
  "raw_text evt k = (case map_of (meRaw evt) k of Some v \<Rightarrow> go_sprint v | None \<Rightarrow> ''<nil>'')"

definition net_key :: "mon_event \<Rightarrow> string" where
  "net_key evt =
     (case meNetwork evt of
        Some n \<Rightarrow>
          ''net:'' @ niRemoteIP n @ '':'' @ show_int (niRemotePort n) @ '':'' @ niProtocol n @ '':'' @ meType evt @ '':'' @
          niDirection n @ '':'' @ show_int (niPID n)
      | None \<Rightarrow> ''evt:'' @ meType evt @ '':'' @ meID evt @ '':'' @ show_int (meTimestamp evt))"

definition other_key :: "mon_event \<Rightarrow> string" where
  "other_key evt =
     (case meFile evt of
        Some f \<Rightarrow>
          if mfPath f \<noteq> ''''
          then ''file:'' @ mfPath f @ '':'' @ meType evt @ '':'' @ raw_text evt ''cookie'' @ '':'' @
               raw_text evt ''inode'' @ '':'' @ raw_text evt ''mtime'' @ '':'' @ show_int (mfSize f)
          else net_key evt
      | None \<Rightarrow> net_key evt)"

definition eventKey :: "mon_event \<Rightarrow> string" where
  "eventKey evt =
     (case meProcess evt of
        Some p \<Rightarrow>
          if piPID p > 0
          then ''proc:'' @ show_int (piPID p) @ '':'' @ meType evt @ '':'' @ piName p @ '':'' @ piCmdLine p
          else other_key evt
      | None \<Rightarrow> other_key evt)"

text \<open>\<open>evictLocked\<close>: the loop over the keys in the order of the map.\<close>

fun evict_loop :: "int \<Rightarrow> nat \<Rightarrow> string list \<Rightarrow> (string \<times> int) list \<Rightarrow> (string \<times> int) list" where
  "evict_loop cutoff maxMem [] m = m"
| "evict_loop cutoff maxMem (k # ks) m =
     (let m' = (case map_of m k of
                  Some v \<Rightarrow> if v < cutoff then filter (\<lambda>p. fst p \<noteq> k) m else m
                | None \<Rightarrow> m) in
      if length m' \<le> maxMem * 3 div 4 then m' else evict_loop cutoff maxMem ks m')"

definition wake_flusher :: "Deduplicator \<Rightarrow> Deduplicator" where
  "wake_flusher d =
     (if length (ddBatch d) \<ge> batchMapMax then d\<lparr>ddBatchCh := True\<rparr>
      else if length (ddBatch d) \<ge> batchFlushThr then d\<lparr>ddBatchFull := True\<rparr>
      else d\<lparr>ddBatchCh := True\<rparr>)"

definition IsDuplicate :: "(string \<Rightarrow> string) \<Rightarrow> int \<Rightarrow> mon_event \<Rightarrow> Deduplicator \<Rightarrow> bool \<times> Deduplicator" where
  "IsDuplicate sha now evt d =
     (let h = sha (eventKey evt) in
      if map_of (ddMem d) h \<noteq> None then (True, d\<lparr>ddHit := ddHit d + 1\<rparr>)
      else
        let d1 = d\<lparr>ddMem := put h now (ddMem d), ddMiss := ddMiss d + 1\<rparr>;
            d2 = (if ddDB d1 \<noteq> None then wake_flusher (d1\<lparr>ddBatch := List.insert h (ddBatch d1)\<rparr>) else d1);
            d3 = (if length (ddMem d2) > ddMaxMem d2
                  then d2\<lparr>ddMem := evict_loop (now - ddTTL d2) (ddMaxMem d2) (map fst (ddMem d2)) (ddMem d2)\<rparr>
                  else d2) in
        (False, d3))"

text \<open>\<open>flushBatch\<close>: the outcome of the transaction is an input; a failed one puts the batch back.
  \<open>INSERT OR IGNORE\<close> keeps the first time of a key.\<close>

definition flushBatch :: "bool \<Rightarrow> int \<Rightarrow> Deduplicator \<Rightarrow> Deduplicator" where
  "flushBatch ok now d =
     (case ddDB d of
        None \<Rightarrow> d
      | Some rows \<Rightarrow>
          if ddBatch d = [] then d
          else if ok
          then d\<lparr>ddBatch := [],
                 ddDB := Some (foldl (\<lambda>rs h. if map_of rs h = None then rs @ [(h, now)] else rs) rows (ddBatch d))\<rparr>
          else d)"

section \<open>False-positive learning\<close>

record FPCounter =
  fcRuleName :: string
  fcProcessName :: string
  fcCount :: nat
  fcLastSeen :: int
  fcThrottled :: bool

record FPLearning =
  fpCounters :: "(string \<times> FPCounter) list"
  fpDataDir :: string
  fpThreshold :: nat
  fpSuppressMs :: int

definition fp_load :: "FPCounter list option \<Rightarrow> FPLearning \<Rightarrow> FPLearning" where
  "fp_load stored fp =
     (if fpDataDir fp = '''' then fp
      else (case stored of
              None \<Rightarrow> fp
            | Some cs \<Rightarrow>
                fp\<lparr>fpCounters := foldl (\<lambda>m c. put (fcRuleName c @ '':'' @ fcProcessName c) c m) (fpCounters fp) cs\<rparr>))"

definition NewFPLearning :: "string \<Rightarrow> FPCounter list option \<Rightarrow> FPLearning" where
  "NewFPLearning dataDir stored =
     fp_load stored \<lparr>fpCounters = [], fpDataDir = dataDir, fpThreshold = 10, fpSuppressMs = 300000\<rparr>"

text \<open>\<open>save\<close> called with the mutex held: without a data directory it returns at once, otherwise it
  locks the mutex again and never returns.\<close>

definition save_locked :: "FPLearning \<Rightarrow> FPLearning option" where
  "save_locked fp = (if fpDataDir fp = '''' then Some fp else None)"

definition fp_Record :: "int \<Rightarrow> string \<Rightarrow> string \<Rightarrow> FPLearning \<Rightarrow> (bool \<times> FPLearning) option" where
  "fp_Record now ruleName processName fp =
     (let key = ruleName @ '':'' @ processName;
          c0 = (case map_of (fpCounters fp) key of
                  Some c \<Rightarrow> c
                | None \<Rightarrow> \<lparr>fcRuleName = ruleName, fcProcessName = processName, fcCount = 0, fcLastSeen = 0,
                           fcThrottled = False\<rparr>);
          c = c0\<lparr>fcCount := fcCount c0 + 1, fcLastSeen := now\<rparr> in
      if fcCount c \<ge> fpThreshold fp \<and> \<not> fcThrottled c
      then map_option (\<lambda>fp'. (True, fp'))
             (save_locked (fp\<lparr>fpCounters := put key (c\<lparr>fcThrottled := True\<rparr>) (fpCounters fp)\<rparr>))
      else Some (fcThrottled c, fp\<lparr>fpCounters := put key c (fpCounters fp)\<rparr>))"

definition IsThrottled :: "int \<Rightarrow> string \<Rightarrow> string \<Rightarrow> FPLearning \<Rightarrow> bool \<times> FPLearning" where
  "IsThrottled now ruleName processName fp =
     (let key = ruleName @ '':'' @ processName in
      case map_of (fpCounters fp) key of
        None \<Rightarrow> (False, fp)
      | Some c \<Rightarrow>
          if \<not> fcThrottled c then (False, fp)
          else if now - fcLastSeen c > fpSuppressMs fp * 1000000
          then (False, fp\<lparr>fpCounters := put key (c\<lparr>fcThrottled := False, fcCount := 0\<rparr>) (fpCounters fp)\<rparr>)
          else (True, fp))"

definition Dismiss :: "int \<Rightarrow> string \<Rightarrow> string \<Rightarrow> FPLearning \<Rightarrow> FPLearning option" where
  "Dismiss now ruleName processName fp = map_option snd (fp_Record now ruleName processName fp)"

section \<open>The scan cache\<close>

record 'm ScanCacheEntry =
  ceHash :: string
  ceMatches :: "'m list"
  ceCachedAt :: int

record 'm ScanCache =
  scEntries :: "(string \<times> 'm ScanCacheEntry) list"
  scTTL :: int
  scMaxSize :: nat
  scHits :: nat
  scMisses :: nat

definition NewScanCache :: "'m ScanCache" where
  "NewScanCache = \<lparr>scEntries = [], scTTL = 3600 * second_ns, scMaxSize = 10000, scHits = 0, scMisses = 0\<rparr>"

definition sha256Of :: "(string \<Rightarrow> string) \<Rightarrow> string \<Rightarrow> string" where
  "sha256Of sha content = (if content = '''' then '''' else sha content)"

definition cache_key :: "(string \<Rightarrow> string) \<Rightarrow> string \<Rightarrow> string \<Rightarrow> string" where
  "cache_key sha path content = path @ '':'' @ sha256Of sha content"

fun sc_evict_loop :: "int \<Rightarrow> nat \<Rightarrow> string list \<Rightarrow> (string \<times> 'm ScanCacheEntry) list \<Rightarrow> (string \<times> 'm ScanCacheEntry) list" where
  "sc_evict_loop cutoff maxSize [] m = m"
| "sc_evict_loop cutoff maxSize (k # ks) m =
     (let m' = (case map_of m k of
                  Some e \<Rightarrow> if ceCachedAt e < cutoff then filter (\<lambda>p. fst p \<noteq> k) m else m
                | None \<Rightarrow> m) in
      if length m' \<le> maxSize * 3 div 4 then m' else sc_evict_loop cutoff maxSize ks m')"

definition sc_evictLocked :: "int \<Rightarrow> 'm ScanCache \<Rightarrow> 'm ScanCache" where
  "sc_evictLocked now sc =
     (if length (scEntries sc) \<le> scMaxSize sc then sc
      else sc\<lparr>scEntries := sc_evict_loop (now - scTTL sc) (scMaxSize sc) (map fst (scEntries sc)) (scEntries sc)\<rparr>)"

definition sc_miss :: "string \<Rightarrow> (string \<Rightarrow> string) \<Rightarrow> int \<Rightarrow> string \<Rightarrow> 'm ScanCache \<Rightarrow> ('m list \<times> bool) \<times> 'm ScanCache" where
  "sc_miss key sha now content sc =
     (let sc1 = sc\<lparr>scMisses := scMisses sc + 1\<rparr>;
          sc2 = (if scMisses sc1 mod 100 = 0 then sc_evictLocked now sc1 else sc1) in
      (([], False),
       sc2\<lparr>scEntries := put key \<lparr>ceHash = sha256Of sha content, ceMatches = [], ceCachedAt = now\<rparr> (scEntries sc2)\<rparr>))"

definition sc_Get :: "(string \<Rightarrow> string) \<Rightarrow> int \<Rightarrow> string \<Rightarrow> string \<Rightarrow> 'm ScanCache \<Rightarrow> ('m list \<times> bool) \<times> 'm ScanCache" where
  "sc_Get sha now path content sc =
     (let key = cache_key sha path content in
      case map_of (scEntries sc) key of
        Some e \<Rightarrow>
          if now - ceCachedAt e < scTTL sc then ((ceMatches e, True), sc\<lparr>scHits := scHits sc + 1\<rparr>)
          else sc_miss key sha now content sc
      | None \<Rightarrow> sc_miss key sha now content sc)"

definition sc_Set :: "(string \<Rightarrow> string) \<Rightarrow> int \<Rightarrow> string \<Rightarrow> string \<Rightarrow> 'm list \<Rightarrow> 'm ScanCache \<Rightarrow> 'm ScanCache" where
  "sc_Set sha now path content matches sc =
     sc\<lparr>scEntries := put (cache_key sha path content)
        \<lparr>ceHash = sha256Of sha content, ceMatches = matches, ceCachedAt = now\<rparr> (scEntries sc)\<rparr>"

definition Invalidate :: "string \<Rightarrow> 'm ScanCache \<Rightarrow> 'm ScanCache" where
  "Invalidate path sc =
     sc\<lparr>scEntries := filter (\<lambda>(key, _). \<not> (key = path \<or>
        length key > length path + 1 \<and> take (length path + 1) key = path @ '':'')) (scEntries sc)\<rparr>"

section \<open>No event leaves the priority queue uncounted\<close>

fun held :: "merge_pc \<Rightarrow> mon_event list" where
  "held (Holding evt) = [evt]"
| "held _ = []"

text \<open>The events inside the queue.\<close>

definition pq_inside :: "PriorityQueue \<Rightarrow> mon_event multiset" where
  "pq_inside pq = mset (fst (pqHigh pq) @ fst (pqMedium pq) @ fst (pqLow pq) @ held (pqMerge pq) @ fst (pqOut pq))"

definition pushed_by :: "pq_op \<Rightarrow> mon_event list" where
  "pushed_by op = (case op of PushOp e \<Rightarrow> [e] | _ \<Rightarrow> [])"

definition consumed_by :: "pq_op \<Rightarrow> PriorityQueue \<Rightarrow> mon_event list" where
  "consumed_by op pq = (case op of ConsumeOp \<Rightarrow> take 1 (fst (pqOut pq)) | _ \<Rightarrow> [])"

fun pq_run :: "pq_op list \<Rightarrow> PriorityQueue \<Rightarrow> mon_event list \<times> PriorityQueue" where
  "pq_run [] pq = ([], pq)"
| "pq_run (op # ops) pq =
     (let (out, pq') = pq_run ops (pq_exec op pq) in (consumed_by op pq @ out, pq'))"

lemma pq_Push_inside:
  "\<exists>lost. pq_inside (pq_Push e pq) + lost = pq_inside pq + {#e#} \<and>
     pqDropped (pq_Push e pq) = pqDropped pq + size lost"
proof (cases "pqDropped (pq_Push e pq) = pqDropped pq")
  case True
  then have "pq_inside (pq_Push e pq) = pq_inside pq + {#e#}"
    by (auto simp: pq_Push_def push_high_def push_medium_def push_low_def droppedTotal_def pq_inside_def
        ch_send_def split: Priority.splits option.splits if_splits)
  then show ?thesis using True by (intro exI [of _ "{#}"]) simp
next
  case False
  then have "pq_inside (pq_Push e pq) = pq_inside pq \<and> pqDropped (pq_Push e pq) = pqDropped pq + 1"
    by (auto simp: pq_Push_def push_high_def push_medium_def push_low_def droppedTotal_def pq_inside_def
        ch_send_def split: Priority.splits option.splits if_splits)
  then show ?thesis by (intro exI [of _ "{#e#}"]) simp
qed

lemma merge_inside:
  "pq_inside (merge_first pq) = pq_inside pq" "pqDropped (merge_first pq) = pqDropped pq"
  "pq_inside (merge_second p pq) = pq_inside pq" "pqDropped (merge_second p pq) = pqDropped pq"
  by (auto simp: merge_first_def merge_second_def pq_inside_def ch_recv_def
      split: merge_pc.splits option.splits list.splits prod.splits Priority.splits)

lemma drain_inside:
  "\<exists>lost. pq_inside (drain_one pq) + lost = pq_inside pq \<and> pqDropped (drain_one pq) = pqDropped pq + size lost"
proof (cases "pqMerge pq")
  case (Holding evt)
  show ?thesis
  proof (cases "ch_send evt (pqOut pq)")
    case None
    then show ?thesis using Holding
      by (intro exI [of _ "{#evt#}"]) (simp add: drain_one_def pq_inside_def)
  next
    case (Some c)
    then show ?thesis using Holding
      by (intro exI [of _ "{#}"]) (auto simp: drain_one_def pq_inside_def ch_send_def split: if_splits)
  qed
qed (simp_all add: drain_one_def)

lemma pq_exec_inside:
  "\<exists>lost. pq_inside (pq_exec op pq) + mset (consumed_by op pq) + lost = pq_inside pq + mset (pushed_by op) \<and>
     pqDropped (pq_exec op pq) = pqDropped pq + size lost"
proof (cases op)
  case (PushOp e)
  then show ?thesis using pq_Push_inside [of e pq] by (simp add: consumed_by_def pushed_by_def)
next
  case DrainOp
  then show ?thesis using drain_inside [of pq] by (simp add: consumed_by_def pushed_by_def)
next
  case ConsumeOp
  then show ?thesis
    by (intro exI [of _ "{#}"])
      (auto simp: consumed_by_def pushed_by_def pq_inside_def ch_recv_def split: list.splits option.splits)
qed (simp_all add: merge_inside consumed_by_def pushed_by_def)

text \<open>Accounting of the priority queue: under every interleaving of pushes, of the two
  goroutines and of the reader, each pushed event is read, still inside, or counted as dropped.\<close>

theorem pq_accounting:
  "\<exists>lost. mset (concat (map pushed_by ops)) =
     mset (fst (pq_run ops (NewPriorityQueue n))) + pq_inside (snd (pq_run ops (NewPriorityQueue n))) + lost \<and>
     pqDropped (snd (pq_run ops (NewPriorityQueue n))) = size lost"
proof -
  have "\<exists>lost. pq_inside pq + mset (concat (map pushed_by ops)) =
     mset (fst (pq_run ops pq)) + pq_inside (snd (pq_run ops pq)) + lost \<and>
     pqDropped (snd (pq_run ops pq)) = pqDropped pq + size lost" for pq
  proof (induction ops arbitrary: pq)
    case (Cons op ops)
    obtain l1 where l1: "pq_inside (pq_exec op pq) + mset (consumed_by op pq) + l1 = pq_inside pq + mset (pushed_by op)"
      "pqDropped (pq_exec op pq) = pqDropped pq + size l1" using pq_exec_inside by blast
    obtain l2 where l2: "pq_inside (pq_exec op pq) + mset (concat (map pushed_by ops)) =
       mset (fst (pq_run ops (pq_exec op pq))) + pq_inside (snd (pq_run ops (pq_exec op pq))) + l2"
      "pqDropped (snd (pq_run ops (pq_exec op pq))) = pqDropped (pq_exec op pq) + size l2" using Cons by blast
    have "pq_inside pq + mset (concat (map pushed_by (op # ops))) =
        (pq_inside (pq_exec op pq) + mset (concat (map pushed_by ops))) + mset (consumed_by op pq) + l1"
      using l1(1) by (simp add: ac_simps)
    also have "\<dots> = mset (fst (pq_run (op # ops) pq)) + pq_inside (snd (pq_run (op # ops) pq)) + (l1 + l2)"
      using l2(1) by (simp add: split_beta ac_simps)
    finally show ?case using l1(2) l2(2)
      by (intro exI [of _ "l1 + l2"]) (simp add: split_beta)
  qed simp
  from this [of "NewPriorityQueue n"] show ?thesis
    by (simp add: NewPriorityQueue_def pq_inside_def)
qed

text \<open>The second \<open>select\<close> may take a low event while a medium one waits.\<close>

lemma low_before_medium:
  assumes "pqMerge pq = AtSecond" "fst (pqLow pq) = e # es"
  shows "pqMerge (merge_second PriorityLow pq) = Holding e \<and> pqMedium (merge_second PriorityLow pq) = pqMedium pq"
  using assms by (simp add: merge_second_def ch_recv_def)

section \<open>Thresholds and numerals of the flood detector\<close>

lemma flood_threshold_bounds: "minThreshold \<le> flood_threshold n \<and> flood_threshold n \<le> maxThreshold"
  by (simp add: flood_threshold_def minThreshold_def maxThreshold_def Let_def)

lemma itoa_loop_show: "itoa_loop n r = (if n = 0 then r else show_nat n @ r)"
proof (induction n arbitrary: r rule: less_induct)
  case (less n)
  show ?case
  proof (cases "n < 10")
    case True
    then show ?thesis
      by (subst itoa_loop.simps) (simp add: itoa_loop.simps [of 0] show_nat_simps [of n])
  next
    case False
    then show ?thesis
      using less [of "n div 10"] by (subst itoa_loop.simps) (simp add: show_nat_simps [of n])
  qed
qed

text \<open>The hand-written \<open>itoa\<close> prints every number as \<open>strconv.Itoa\<close> does.\<close>

theorem itoa_correct: "itoa i = show_int i"
proof -
  have "show_nat 0 = ''0''" by code_simp
  then show ?thesis by (auto simp: itoa_def show_int_def itoa_loop_show Let_def)
qed

section \<open>Deduplication, throttling and caching over time\<close>

lemma evict_loop_fresh:
  assumes "map_of m k = Some v" "v \<ge> cutoff"
  shows "map_of (evict_loop cutoff maxMem ks m) k = Some v"
  using assms(1)
proof (induction ks arbitrary: m)
  case (Cons j ks)
  have del: "map_of (filter (\<lambda>p. fst p \<noteq> j) m) i = (if i = j then None else map_of m i)" for i
    by (induction m) auto
  let ?m = "case map_of m j of Some v \<Rightarrow> if v < cutoff then filter (\<lambda>p. fst p \<noteq> j) m else m | None \<Rightarrow> m"
  have "map_of ?m k = Some v"
    using Cons.prems assms(2) del by (auto split: option.splits)
  then show ?case using Cons.IH by (simp add: Let_def)
qed simp

lemma IsDuplicate_mem:
  assumes "ddTTL d \<ge> 0"
  shows "map_of (ddMem (snd (IsDuplicate sha now evt d))) (sha (eventKey evt)) \<noteq> None"
proof (cases "map_of (ddMem d) (sha (eventKey evt))")
  case None
  let ?h = "sha (eventKey evt)"
  define d2 where "d2 = (let d1 = d\<lparr>ddMem := put ?h now (ddMem d), ddMiss := ddMiss d + 1\<rparr> in
     if ddDB d1 \<noteq> None then wake_flusher (d1\<lparr>ddBatch := List.insert ?h (ddBatch d1)\<rparr>) else d1)"
  have m: "map_of (ddMem d2) ?h = Some now" "ddTTL d2 = ddTTL d"
    by (auto simp: d2_def wake_flusher_def Let_def)
  then have "map_of (evict_loop (now - ddTTL d2) mx ks (ddMem d2)) ?h = Some now" for mx ks
    using assms by (intro evict_loop_fresh) auto
  then show ?thesis
    using None m unfolding IsDuplicate_def Let_def d2_def by auto
qed (simp add: IsDuplicate_def)

text \<open>The time to live of the deduplicator is not looked at: an event with the key of the event
  that was just recorded is a duplicate at every later time, not only for 30 seconds.\<close>

theorem dedup_ignores_ttl:
  assumes "eventKey evt' = eventKey evt" "ddTTL d \<ge> 0"
  shows "fst (IsDuplicate sha later evt' (snd (IsDuplicate sha now evt d)))"
  using IsDuplicate_mem [OF assms(2), of sha now evt] assms(1)
  by (auto simp: IsDuplicate_def [of sha later])

fun record_times :: "nat \<Rightarrow> int \<Rightarrow> string \<Rightarrow> string \<Rightarrow> FPLearning \<Rightarrow> FPLearning option" where
  "record_times 0 now r p fp = Some fp"
| "record_times (Suc n) now r p fp =
     (case record_times n now r p fp of
        None \<Rightarrow> None
      | Some fp' \<Rightarrow> Dismiss now r p fp')"

lemma record_times_below:
  "n < 10 \<Longrightarrow> \<exists>fp. record_times n now r p (NewFPLearning dir None) = Some fp \<and>
     fpDataDir fp = dir \<and> fpThreshold fp = 10 \<and>
     (case map_of (fpCounters fp) (r @ '':'' @ p) of None \<Rightarrow> n = 0 | Some c \<Rightarrow> fcCount c = n \<and> \<not> fcThrottled c)"
proof (induction n)
  case 0
  then show ?case by (simp add: NewFPLearning_def fp_load_def)
next
  case (Suc n)
  then obtain fp where fp: "record_times n now r p (NewFPLearning dir None) = Some fp"
    "fpDataDir fp = dir" "fpThreshold fp = 10"
    "case map_of (fpCounters fp) (r @ '':'' @ p) of None \<Rightarrow> n = 0 | Some c \<Rightarrow> fcCount c = n \<and> \<not> fcThrottled c"
    by auto
  then show ?case
    using Suc.prems by (cases "map_of (fpCounters fp) (r @ '':'' @ p)") (auto simp: Dismiss_def fp_Record_def Let_def)
qed

text \<open>False-positive learning locks itself: with a data directory the tenth dismissal of a rule on
  a process never returns, and no dismissal before it does that.\<close>

theorem tenth_dismissal_blocks:
  assumes "dir \<noteq> ''''"
  shows "record_times n now r p (NewFPLearning dir None) = None \<longleftrightarrow> 10 \<le> n"
proof
  assume "record_times n now r p (NewFPLearning dir None) = None"
  then show "10 \<le> n" using record_times_below [of n] by (metis not_le option.distinct(1))
next
  obtain fp where fp: "record_times 9 now r p (NewFPLearning dir None) = Some fp"
    "fpDataDir fp = dir" "fpThreshold fp = 10"
    "case map_of (fpCounters fp) (r @ '':'' @ p) of None \<Rightarrow> False | Some c \<Rightarrow> fcCount c = 9 \<and> \<not> fcThrottled c"
    using record_times_below [of 9 now r p dir] by (auto split: option.splits)
  have "record_times (Suc 9) now r p (NewFPLearning dir None) = None"
    unfolding record_times.simps(2) using fp assms
    by (auto simp: Dismiss_def fp_Record_def save_locked_def Let_def split: option.splits)
  then have "record_times (10 + k) now r p (NewFPLearning dir None) = None" for k
  proof (induction k)
    case (Suc k)
    then show ?case unfolding add_Suc_right record_times.simps(2) by simp
  qed simp
  then show "10 \<le> n \<Longrightarrow> record_times n now r p (NewFPLearning dir None) = None"
    by (metis le_add_diff_inverse)
qed

lemma scan_cache_roundtrip:
  "later - now < scTTL sc \<Longrightarrow> fst (sc_Get sha later p c (sc_Set sha now p c ms sc)) = (ms, True)"
  by (simp add: sc_Get_def sc_Set_def)

text \<open>A miss already stores an entry without matches: the next look-up of the same file is a hit that
  reports nothing, although nothing was scanned.\<close>

lemma scan_cache_false_hit:
  assumes "snd (fst (sc_Get sha now p c sc)) = False" "later - now < scTTL sc"
  shows "fst (sc_Get sha later p c (snd (sc_Get sha now p c sc))) = ([], True)"
proof -
  have "snd (sc_Get sha now p c sc) = snd (sc_miss (cache_key sha p c) sha now c sc)"
    using assms(1) by (auto simp: sc_Get_def Let_def split: option.splits if_splits)
  then show ?thesis
    using assms(2) by (simp add: sc_Get_def [of sha later] sc_miss_def sc_evictLocked_def Let_def)
qed

section \<open>Samples\<close>

definition sample_mon_event :: mon_event where
  "sample_mon_event = \<lparr>meID = ''1'', meTimestamp = 0, meType = ''file_modify'', meSeverity = 1, meProcess = None,
     meFile = Some \<lparr>mfPath = ''/etc/passwd'', mfSize = 10\<rparr>, meNetwork = None, meRaw = [], meAnnotations = []\<rparr>"

lemma dedup_ignores_ttl_witness:
  "fst (IsDuplicate (\<lambda>s. s) (86400 * second_ns) (sample_mon_event\<lparr>meID := ''2''\<rparr>)
     (snd (IsDuplicate (\<lambda>s. s) 0 sample_mon_event (NewDeduplicator None 0))))"
  by (rule dedup_ignores_ttl)
    (simp_all add: sample_mon_event_def eventKey_def other_key_def raw_text_def NewDeduplicator_def loadMem_def second_ns_def)

lemma tenth_dismissal_blocks_witness:
  "record_times 10 5 ''r'' ''p'' (NewFPLearning ''/var/lib/trace'' None) = None"
  by (simp add: tenth_dismissal_blocks)

end
