(* ===== verification/Go_Base64.thy ===== *)
theory Go_Base64
  imports Trace_Prelude
begin

text \<open>
  \<open>base64.URLEncoding\<close> with padding, as \<open>encoding/base64\<close> implements it: the cursors of the case list
  and of the server's pages are encoded with it.  The decoder skips line breaks, wants padding and
  nothing after it, and ignores the unused low bits of the last digit.
\<close>

section \<open>Digits\<close>

definition b64_alphabet :: string where
  "b64_alphabet = ''ABCDEFGHIJKLMNOPQRSTUVWXYZabcdefghijklmnopqrstuvwxyz0123456789-_''"

definition b64_char :: "nat \<Rightarrow> char" where
  "b64_char n = b64_alphabet ! (n mod 64)"

definition b64_val :: "char \<Rightarrow> nat option" where
  "b64_val c = map_of (zip b64_alphabet [0..<64]) c"

section \<open>Encoding\<close>

fun b64_encode :: "string \<Rightarrow> string" where
  "b64_encode [] = []"
| "b64_encode [a] =
     (let x = of_char a in [b64_char (x div 4), b64_char (x mod 4 * 16), CHR ''='', CHR ''=''])"
| "b64_encode [a, b] =
     (let x = of_char a; y = of_char b in
      [b64_char (x div 4), b64_char (x mod 4 * 16 + y div 16), b64_char (y mod 16 * 4), CHR ''=''])"
| "b64_encode (a # b # c # s) =
     (let x = of_char a; y = of_char b; z = of_char c in
      [b64_char (x div 4), b64_char (x mod 4 * 16 + y div 16), b64_char (y mod 16 * 4 + z div 64),
       b64_char (z mod 64)] @ b64_encode s)"

section \<open>Decoding\<close>

text \<open>The bytes of one quantum of four digits, of three digits and padding, of two and padding.\<close>

definition quantum1 :: "nat \<Rightarrow> nat \<Rightarrow> char" where
  "quantum1 u v = char_of (u * 4 + v div 16)"

definition quantum2 :: "nat \<Rightarrow> nat \<Rightarrow> char" where
  "quantum2 v w = char_of (v mod 16 * 16 + w div 4)"

definition quantum3 :: "nat \<Rightarrow> nat \<Rightarrow> char" where
  "quantum3 w x = char_of (w mod 4 * 64 + x)"

fun decode_quanta :: "string \<Rightarrow> string option" where
  "decode_quanta [] = Some []"
| "decode_quanta (a # b # c # d # s) =
     (case (b64_val a, b64_val b) of
        (Some u, Some v) \<Rightarrow>
          if c = CHR ''='' then (if d = CHR ''='' \<and> s = [] then Some [quantum1 u v] else None)
          else (case b64_val c of
                  None \<Rightarrow> None
                | Some w \<Rightarrow>
                    if d = CHR ''='' then (if s = [] then Some [quantum1 u v, quantum2 v w] else None)
                    else (case b64_val d of
                            None \<Rightarrow> None
                          | Some x \<Rightarrow> map_option (\<lambda>t. quantum1 u v # quantum2 v w # quantum3 w x # t)
                                        (decode_quanta s)))
      | _ \<Rightarrow> None)"
| "decode_quanta _ = None"

definition b64_decode :: "string \<Rightarrow> string option" where
  "b64_decode s = decode_quanta (filter (\<lambda>c. c \<noteq> CHR 0x0A \<and> c \<noteq> CHR 0x0D) s)"

section \<open>Decoding undoes encoding\<close>

lemma b64_digit:
  assumes "n < 64"
  shows "b64_val (b64_char n) = Some n"
proof -
  have "\<forall>n\<in>set [0..<64]. b64_val (b64_char n) = Some n" by code_simp
  then show ?thesis using assms by simp
qed

lemma b64_char_plain [simp]:
  "b64_char n \<noteq> CHR ''=''" "b64_char n \<noteq> CHR 0x0A" "b64_char n \<noteq> CHR 0x0D"
proof -
  have "b64_char n \<in> set b64_alphabet"
    unfolding b64_char_def by (rule nth_mem) (simp add: b64_alphabet_def)
  moreover have "list_all (\<lambda>c. c \<noteq> CHR ''='' \<and> c \<noteq> CHR 0x0A \<and> c \<noteq> CHR 0x0D) b64_alphabet" by code_simp
  ultimately show "b64_char n \<noteq> CHR ''=''" "b64_char n \<noteq> CHR 0x0A" "b64_char n \<noteq> CHR 0x0D"
    by (auto simp: list_all_iff)
qed

lemma byte_parts:
  fixes x :: nat
  assumes "x < 256"
  shows "x div 4 < 64" "x div 16 < 16" "x div 64 < 4" "x mod 4 < 4" "x mod 16 < 16" "x mod 64 < 64"
  using assms by (simp_all add: less_mult_imp_div_less)

lemma radix_split:
  fixes p q k :: nat
  assumes "q < k"
  shows "(p * k + q) div k = p" "(p * k + q) mod k = q"
  using assms by simp_all

lemma radix_bound:
  fixes p q m k :: nat
  assumes "p < m" "q < k"
  shows "p * k + q < m * k"
proof -
  have "p * k + q < Suc p * k" using assms(2) by simp
  also have "\<dots> \<le> m * k" using assms(1) by (intro mult_le_mono1) simp
  finally show ?thesis .
qed

lemma quantum_bytes:
  fixes a b c :: char
  defines "x \<equiv> of_char a" and "y \<equiv> of_char b" and "z \<equiv> of_char c"
  shows "quantum1 (x div 4) (x mod 4 * 16 + y div 16) = a"
    and "quantum1 (x div 4) (x mod 4 * 16) = a"
    and "quantum2 (x mod 4 * 16 + y div 16) (y mod 16 * 4 + z div 64) = b"
    and "quantum2 (x mod 4 * 16 + y div 16) (y mod 16 * 4) = b"
    and "quantum3 (y mod 16 * 4 + z div 64) (z mod 64) = c"
  using radix_split [OF byte_parts(2), of y "x mod 4"] radix_split [OF byte_parts(3), of z "y mod 16"]
  unfolding x_def y_def z_def by (simp_all add: quantum1_def quantum2_def quantum3_def)

lemma quantum_digits:
  fixes a b c :: char
  defines "x \<equiv> of_char a" and "y \<equiv> of_char b" and "z \<equiv> of_char c"
  shows "b64_val (b64_char (x div 4)) = Some (x div 4)"
    and "b64_val (b64_char (x mod 4 * 16 + y div 16)) = Some (x mod 4 * 16 + y div 16)"
    and "b64_val (b64_char (x mod 4 * 16)) = Some (x mod 4 * 16)"
    and "b64_val (b64_char (y mod 16 * 4 + z div 64)) = Some (y mod 16 * 4 + z div 64)"
    and "b64_val (b64_char (y mod 16 * 4)) = Some (y mod 16 * 4)"
    and "b64_val (b64_char (z mod 64)) = Some (z mod 64)"
  using radix_bound [OF byte_parts(4,2), of x y] radix_bound [OF byte_parts(5,3), of y z]
    byte_parts [of x] byte_parts [of y] byte_parts [of z]
  unfolding x_def y_def z_def by (simp_all add: b64_digit)

lemma filter_encode: "filter (\<lambda>c. c \<noteq> CHR 0x0A \<and> c \<noteq> CHR 0x0D) (b64_encode s) = b64_encode s"
  by (induction s rule: b64_encode.induct) (simp_all add: Let_def)

lemma decode_quanta_encode: "decode_quanta (b64_encode s) = Some s"
  by (induction s rule: b64_encode.induct)
    (simp_all add: Let_def quantum_digits quantum_bytes)

theorem b64_roundtrip: "b64_decode (b64_encode s) = Some s"
  by (simp only: b64_decode_def filter_encode decode_quanta_encode)

lemma b64_encode_empty [simp]: "b64_encode s = [] \<longleftrightarrow> s = []"
  by (cases s rule: b64_encode.cases) (simp_all add: Let_def)

end
