(* ===== verification/Sliding_Window.thy ===== *)
theory Sliding_Window
  imports Trace_Prelude
begin

text \<open>
  The idiom of the rate limiter and of the lockout guard: keep the times of earlier hits, drop those
  that are not after \<open>now - window\<close>, and compare the number of the rest with a limit.  The locale
  \<open>admission\<close> is what a limiter of this kind promises; what follows for a whole run is
  proved in it once.
\<close>

definition in_window :: "int \<Rightarrow> int list \<Rightarrow> int list" where
  "in_window cutoff hits = filter (\<lambda>t. t > cutoff) hits"

lemma in_window_append: "in_window c (xs @ ys) = in_window c xs @ in_window c ys"
  by (simp add: in_window_def)

lemma in_window_later: "c \<le> d \<Longrightarrow> in_window d (in_window c xs) = in_window d xs"
  by (auto simp: in_window_def intro: filter_cong)

text \<open>Counting the hits in the window from the end: when fewer than \<open>m\<close> are left, the \<open>m\<close>-th last
  is outside.\<close>

lemma outside_window:
  assumes "sorted xs" "length (in_window c xs) < m" "m \<le> length xs"
  shows "xs ! (length xs - m) \<le> c"
proof (rule ccontr)
  let ?i = "length xs - m"
  assume "\<not> xs ! ?i \<le> c"
  then have "x > c" if x: "x \<in> set (drop ?i xs)" for x
  proof -
    obtain j where j: "j < length (drop ?i xs)" "x = drop ?i xs ! j" using x unfolding in_set_conv_nth by blast
    then have "xs ! ?i \<le> xs ! (?i + j)" using assms(1) by (intro sorted_nth_mono) auto
    then show "x > c" using \<open>\<not> xs ! ?i \<le> c\<close> j by simp
  qed
  then have "in_window c (drop ?i xs) = drop ?i xs" by (simp add: in_window_def)
  then have "in_window c xs = in_window c (take ?i xs) @ drop ?i xs"
    using in_window_append [of c "take ?i xs" "drop ?i xs"] by simp
  then have "m \<le> length (in_window c xs)" using assms(3) by simp
  then show False using assms(2) by simp
qed

text \<open>A run of a limiter: \<open>admit now key s\<close> decides and gives the next state; the run collects the
  admitted calls.\<close>

fun admit_run :: "(int \<Rightarrow> 'k \<Rightarrow> 's \<Rightarrow> bool \<times> 's) \<Rightarrow> (int \<times> 'k) list \<Rightarrow> 's \<Rightarrow> (int \<times> 'k) list \<times> 's" where
  "admit_run admit [] s = ([], s)"
| "admit_run admit ((now, key) # calls) s =
     (let (ok, s1) = admit now key s; (rest, s2) = admit_run admit calls s1 in
      ((if ok then [(now, key)] else []) @ rest, s2))"

definition times_of :: "'k \<Rightarrow> (int \<times> 'k) list \<Rightarrow> int list" where
  "times_of key log = map fst (filter (\<lambda>c. snd c = key) log)"

text \<open>Of any \<open>m + 1\<close> successive times the last is at least \<open>w\<close> after the first.\<close>

definition spaced :: "nat \<Rightarrow> int \<Rightarrow> int list \<Rightarrow> bool" where
  "spaced m w xs \<longleftrightarrow> (\<forall>i. i + m < length xs \<longrightarrow> xs ! (i + m) - xs ! i \<ge> w)"

text \<open>The contract: \<open>hits key s\<close> are the admitted times that the state still knows.\<close>

locale admission =
  fixes admit :: "int \<Rightarrow> 'k \<Rightarrow> 's \<Rightarrow> bool \<times> 's"
    and hits :: "'k \<Rightarrow> 's \<Rightarrow> int list"
    and limit :: "'s \<Rightarrow> nat" and window :: "'s \<Rightarrow> int"
  assumes admitted_iff: "fst (admit now key s) \<longleftrightarrow> length (in_window (now - window s) (hits key s)) < limit s"
    and hits_after: "hits key (snd (admit now key s)) =
      in_window (now - window s) (hits key s) @ (if fst (admit now key s) then [now] else [])"
    and other_key: "k \<noteq> key \<Longrightarrow>
      in_window (now - window s) (hits k (snd (admit now key s))) = in_window (now - window s) (hits k s)"
    and limit_after: "limit (snd (admit now key s)) = limit s"
    and window_after: "window (snd (admit now key s)) = window s"
begin

text \<open>What the state remembers of the admitted times \<open>past\<close>: everything a later window can reach.\<close>

definition remembers :: "(int \<times> 'k) list \<Rightarrow> int \<Rightarrow> 's \<Rightarrow> bool" where
  "remembers past recent s \<longleftrightarrow>
     (\<forall>key. sorted (times_of key past) \<and> (\<forall>t\<in>set (times_of key past). t \<le> recent) \<and>
        (\<forall>now\<ge>recent. in_window (now - window s) (hits key s) = in_window (now - window s) (times_of key past)))"

lemma times_of_snoc:
  "times_of k (past @ (if ok then [(now, key)] else [])) =
     times_of k past @ (if ok \<and> k = key then [now] else [])"
  by (auto simp: times_of_def)

lemma spaced_snoc:
  assumes "spaced m w xs" "sorted xs" "length (in_window (now - w) xs) < m"
  shows "spaced m w (xs @ [now])"
  unfolding spaced_def
proof (intro allI impI)
  fix i assume i: "i + m < length (xs @ [now])"
  show "w \<le> (xs @ [now]) ! (i + m) - (xs @ [now]) ! i"
  proof (cases "i + m < length xs")
    case True then show ?thesis using assms(1) by (simp add: spaced_def nth_append)
  next
    case False
    then have "i = length xs - m" "m \<le> length xs" "0 < m" using i assms(3) by auto
    moreover from this have "length xs - m < length xs" by simp
    ultimately show ?thesis using outside_window [OF assms(2,3)] by (simp add: nth_append)
  qed
qed

lemma remembers_step:
  assumes "remembers past recent s" "recent \<le> now" "0 \<le> window s"
  shows "remembers (past @ (if fst (admit now key s) then [(now, key)] else [])) now (snd (admit now key s))"
  unfolding remembers_def
proof (intro allI conjI ballI impI)
  fix k
  let ?past = "past @ (if fst (admit now key s) then [(now, key)] else [])"
  have old: "sorted (times_of k past)" "\<forall>t\<in>set (times_of k past). t \<le> recent"
    and mem: "\<And>n. n \<ge> recent \<Longrightarrow> in_window (n - window s) (hits k s) = in_window (n - window s) (times_of k past)"
    using assms(1) by (auto simp: remembers_def)
  show "sorted (times_of k ?past)" using old assms(2) by (auto simp: times_of_snoc sorted_append intro: order_trans)
  show "t \<le> now" if "t \<in> set (times_of k ?past)" for t
    using that old assms(2) by (auto simp: times_of_snoc split: if_splits)
  fix n assume n: "now \<le> n"
  have later: "in_window (n - window s) (in_window (now - window s) xs) = in_window (n - window s) xs" for xs
    using n by (intro in_window_later) simp
  show "in_window (n - window (snd (admit now key s))) (hits k (snd (admit now key s))) =
        in_window (n - window (snd (admit now key s))) (times_of k ?past)"
  proof (cases "k = key")
    case True
    then show ?thesis using n mem [of n] assms(2) by (auto simp: times_of_snoc hits_after in_window_append later window_after)
  next
    case False
    then show ?thesis
      using n mem [of n] assms(2) later [of "hits k (snd (admit now key s))"] later [of "hits k s"] other_key [OF False]
      by (simp add: times_of_snoc window_after)
  qed
qed

lemma run_spaced:
  assumes "remembers past recent s" "0 \<le> window s" "sorted (map fst calls)" "\<forall>c\<in>set calls. recent \<le> fst c"
    and "\<forall>key. spaced (limit s) (window s) (times_of key past)"
  shows "spaced (limit s) (window s) (times_of key (past @ fst (admit_run admit calls s)))"
  using assms
proof (induction calls arbitrary: past recent s)
  case Nil then show ?case by simp
next
  case (Cons c calls)
  obtain now k where c: "c = (now, k)" by (cases c)
  let ?s = "snd (admit now k s)" and ?new = "if fst (admit now k s) then [(now, k)] else []"
  have now: "recent \<le> now" using Cons.prems(4) c by simp
  have mem: "remembers (past @ ?new) now ?s" by (rule remembers_step [OF Cons.prems(1) now Cons.prems(2)])
  have "spaced (limit s) (window s) (times_of key (past @ ?new))" for key
  proof (cases "fst (admit now k s) \<and> key = k")
    case True
    then have "length (in_window (now - window s) (times_of k past)) < limit s"
      using admitted_iff [of now k s] Cons.prems(1) now by (simp add: remembers_def)
    moreover have "sorted (times_of k past)" using Cons.prems(1) by (simp add: remembers_def)
    ultimately have "spaced (limit s) (window s) (times_of k past @ [now])" using Cons.prems(5) spaced_snoc by blast
    then show ?thesis unfolding times_of_snoc using True by simp
  next
    case False then show ?thesis using Cons.prems(5) by (auto simp: times_of_snoc)
  qed
  then have "spaced (limit ?s) (window ?s) (times_of key ((past @ ?new) @ fst (admit_run admit calls ?s)))"
    using Cons.prems mem c by (intro Cons.IH [of _ now]) (auto simp: limit_after window_after)
  then show ?case by (simp add: c case_prod_beta Let_def limit_after window_after)
qed

text \<open>From an empty state, in every run with a clock that does not go back, each admitted hit is at least
  a window later than the one \<open>limit\<close> admissions before it.\<close>

lemma admitted_spaced:
  assumes "\<And>key. hits key s = []" "0 \<le> window s" "sorted (map fst calls)"
  shows "spaced (limit s) (window s) (times_of key (fst (admit_run admit calls s)))"
proof (cases calls)
  case Nil then show ?thesis by (simp add: times_of_def spaced_def)
next
  case (Cons c cs)
  have "remembers [] (fst c) s" using assms(1) by (simp add: remembers_def times_of_def in_window_def)
  then show ?thesis
    using run_spaced [of "[]" "fst c" s calls key] assms Cons by (auto simp: times_of_def spaced_def)
qed

end

end
