(* ===== verification/Case_Store.thy ===== *)
theory Case_Store
  imports Go_Any Go_Base64 Sliding_Window Go_Time
begin

text \<open>
  The case manager: records of cases, events, indicators, evidence and links
  (\<open>internal/cases/manager.go\<close>), the lifecycle with its scoped updates, paging and rate limiter
  (\<open>lifecycle.go\<close>), and the text exports (\<open>export.go\<close>).

  The SQL tables are lists of rows in insertion order, nullable columns are options.  An environment
  gives for the \<open>k\<close>-th statement of a call whether it fails, and for the \<open>k\<close>-th use the clock and the random
  identifier; \<open>later n\<close> is the environment after \<open>n\<close> of them.
\<close>

section \<open>Tables\<close>

record case_row =
  crID :: string
  crTitle :: string
  crDescription :: "string option"
  crStatus :: string
  crSeverity :: string
  crAssignee :: "string option"
  crTags :: "string option"
  crResolution :: "string option"
  crOrg :: string
  crCreatedAt :: string
  crUpdatedAt :: string
  crClosedAt :: "string option"

record Case =
  csID :: string
  csTitle :: string
  csDescription :: string
  csStatus :: string
  csSeverity :: string
  csAssignee :: string
  csTags :: "string list"
  csResolution :: string
  csCreatedAt :: string
  csUpdatedAt :: string
  csClosedAt :: "string option"

record CaseEvent =
  evID :: string
  evCaseID :: string
  evType :: string
  evContent :: string
  evSource :: string
  evCreatedAt :: string

record IOC =
  ioID :: string
  ioCaseID :: string
  ioType :: string
  ioValue :: string
  ioDescription :: string
  ioSource :: string
  ioCreatedAt :: string

record Evidence =
  edID :: string
  edCaseID :: string
  edFileName :: string
  edFilePath :: string
  edMimeType :: string
  edFileSize :: int
  edSource :: string
  edCreatedAt :: string

record case_db =
  cdCases :: "case_row list"
  cdEvents :: "CaseEvent list"
  cdIOCs :: "IOC list"
  cdEvidence :: "Evidence list"
  cdLinks :: "(string \<times> string \<times> string) list"

record case_env =
  ceFail :: "nat \<Rightarrow> string option"
  ceNow :: "nat \<Rightarrow> string"
  ceUUID :: "nat \<Rightarrow> string"
  ceSQLNow :: string
  ceTags :: "string \<Rightarrow> string list"
  ceStat :: "string \<Rightarrow> int result"

definition later :: "nat \<Rightarrow> case_env \<Rightarrow> case_env" where
  "later n env = env\<lparr>ceFail := \<lambda>k. ceFail env (n + k), ceNow := \<lambda>k. ceNow env (n + k),
     ceUUID := \<lambda>k. ceUUID env (n + k)\<rparr>"

text \<open>One statement that changes the tables, and \<open>UPDATE cases SET .. WHERE ..\<close>.\<close>

definition exec_sql :: "string option \<Rightarrow> (case_db \<Rightarrow> case_db) \<Rightarrow> case_db \<Rightarrow> string option \<times> case_db" where
  "exec_sql fault f db = (case fault of Some e \<Rightarrow> (Some e, db) | None \<Rightarrow> (None, f db))"

definition update_cases :: "(case_row \<Rightarrow> bool) \<Rightarrow> (case_row \<Rightarrow> case_row) \<Rightarrow> case_db \<Rightarrow> case_db" where
  "update_cases p f db = db\<lparr>cdCases := map (\<lambda>r. if p r then f r else r) (cdCases db)\<rparr>"

definition insert_case :: "string option \<Rightarrow> case_row \<Rightarrow> case_db \<Rightarrow> string option \<times> case_db" where
  "insert_case fault row db =
     (case fault of
        Some e \<Rightarrow> (Some e, db)
      | None \<Rightarrow>
          if crID row \<in> crID ` set (cdCases db) then (Some ''UNIQUE constraint failed: cases.id'', db)
          else (None, db\<lparr>cdCases := cdCases db @ [row]\<rparr>))"

section \<open>Cases\<close>

text \<open>\<open>Scan\<close>: absent columns become empty fields.\<close>

definition null_string :: "string option \<Rightarrow> string" where
  "null_string s = (case s of None \<Rightarrow> '''' | Some t \<Rightarrow> t)"

definition scan_case :: "case_env \<Rightarrow> case_row \<Rightarrow> Case" where
  "scan_case env r =
     \<lparr>csID = crID r, csTitle = crTitle r, csDescription = null_string (crDescription r), csStatus = crStatus r,
      csSeverity = crSeverity r, csAssignee = null_string (crAssignee r),
      csTags = (case crTags r of None \<Rightarrow> [] | Some t \<Rightarrow> ceTags env t),
      csResolution = null_string (crResolution r), csCreatedAt = crCreatedAt r,
      csUpdatedAt = crUpdatedAt r, csClosedAt = crClosedAt r\<rparr>"

definition cm_Get :: "case_env \<Rightarrow> string \<Rightarrow> case_db \<Rightarrow> Case result" where
  "cm_Get env cid db =
     (case ceFail env 0 of
        Some e \<Rightarrow> Inl (''get case: '' @ e)
      | None \<Rightarrow>
          (case find (\<lambda>r. crID r = cid) (cdCases db) of
             None \<Rightarrow> Inl ''get case: sql: no rows in result set''
           | Some r \<Rightarrow> Inr (scan_case env r)))"

definition new_case :: "string \<Rightarrow> string \<Rightarrow> string \<Rightarrow> string \<Rightarrow> string \<Rightarrow> string \<Rightarrow> case_row" where
  "new_case cid title description severity org now =
     \<lparr>crID = cid, crTitle = title, crDescription = Some description, crStatus = ''open'',
      crSeverity = (if severity = '''' then ''medium'' else severity), crAssignee = None, crTags = None,
      crResolution = None, crOrg = org, crCreatedAt = now, crUpdatedAt = now, crClosedAt = None\<rparr>"

definition cm_Create :: "case_env \<Rightarrow> string \<Rightarrow> string \<Rightarrow> string \<Rightarrow> case_db \<Rightarrow> Case result \<times> case_db" where
  "cm_Create env title description severity db =
     (let cid = ceUUID env 0 in
      case insert_case (ceFail env 0) (new_case cid title description severity '''' (ceNow env 0)) db of
        (Some e, db1) \<Rightarrow> (Inl (''create case: '' @ e), db1)
      | (None, db1) \<Rightarrow>
          (case cm_Get (later 1 env) cid db1 of
             Inl e \<Rightarrow> (Inl (''get created case: '' @ e), db1)
           | Inr c \<Rightarrow> (Inr c, db1)))"

definition CreateScoped ::
  "case_env \<Rightarrow> string \<Rightarrow> string \<Rightarrow> string \<Rightarrow> string \<Rightarrow> case_db \<Rightarrow> Case result \<times> case_db" where
  "CreateScoped env orgID title description severity db =
     (let cid = ceUUID env 0 in
      case insert_case (ceFail env 0) (new_case cid title description severity orgID (ceNow env 0)) db of
        (Some _, db1) \<Rightarrow> cm_Create (later 1 env) title description severity db1
      | (None, db1) \<Rightarrow> (cm_Get (later 1 env) cid db1, db1))"

text \<open>\<open>LIKE\<close>: \<open>%\<close> stands for any text, \<open>_\<close> for one character, and ASCII letters are compared without case.
  The identifiers it is applied to are ASCII.\<close>

fun like_match :: "string \<Rightarrow> string \<Rightarrow> bool" where
  "like_match [] [] = True"
| "like_match [] (_ # _) = False"
| "like_match (p # ps) [] = (p = CHR ''%'' \<and> like_match ps [])"
| "like_match (p # ps) (c # cs) =
     (if p = CHR ''%'' then like_match ps (c # cs) \<or> like_match (p # ps) cs
      else (p = CHR ''_'' \<or> lower_char p = lower_char c) \<and> like_match ps cs)"

text \<open>\<open>ORDER BY .. DESC\<close>; rows with equal keys keep the order of the table.\<close>

definition sort_desc :: "('a \<Rightarrow> 'k::linorder) \<Rightarrow> 'a list \<Rightarrow> 'a list" where
  "sort_desc f xs = rev (sort_key f (rev xs))"

definition cm_GetByPrefix :: "case_env \<Rightarrow> string \<Rightarrow> case_db \<Rightarrow> Case result" where
  "cm_GetByPrefix env prefix db =
     (case ceFail env 0 of
        Some e \<Rightarrow> Inl (''get by prefix: '' @ e)
      | None \<Rightarrow>
          (case sort_desc crCreatedAt (filter (\<lambda>r. like_match (prefix @ ''%'') (crID r)) (cdCases db)) of
             [] \<Rightarrow> Inl ''get by prefix: sql: no rows in result set''
           | r # _ \<Rightarrow> Inr (scan_case env r)))"

definition wanted :: "string \<Rightarrow> string \<Rightarrow> case_row \<Rightarrow> bool" where
  "wanted status severity r \<longleftrightarrow>
     (status \<noteq> '''' \<longrightarrow> crStatus r = status) \<and> (severity \<noteq> '''' \<longrightarrow> crSeverity r = severity)"

fun get_all :: "case_env \<Rightarrow> string list \<Rightarrow> case_db \<Rightarrow> Case list result" where
  "get_all env [] db = (case ceFail env 0 of Some e \<Rightarrow> Inl e | None \<Rightarrow> Inr [])"
| "get_all env (cid # ids) db =
     (case cm_Get env cid db of
        Inl e \<Rightarrow> Inl e
      | Inr c \<Rightarrow> (case get_all (later 1 env) ids db of Inl e \<Rightarrow> Inl e | Inr cs \<Rightarrow> Inr (c # cs)))"

definition cm_List :: "case_env \<Rightarrow> string \<Rightarrow> string \<Rightarrow> case_db \<Rightarrow> Case list result" where
  "cm_List env status severity db =
     (case ceFail env 0 of
        Some e \<Rightarrow> Inl e
      | None \<Rightarrow>
          get_all (later 1 env)
            (map crID (take 100 (sort_desc crCreatedAt (filter (wanted status severity) (cdCases db))))) db)"

definition cm_UpdateStatus :: "case_env \<Rightarrow> string \<Rightarrow> string \<Rightarrow> case_db \<Rightarrow> string option \<times> case_db" where
  "cm_UpdateStatus env cid status db =
     (let now = ceNow env 0 in
      if status = ''closed'' \<or> status = ''resolved'' then
        exec_sql (ceFail env 0) (update_cases (\<lambda>r. crID r = cid)
          (\<lambda>r. r\<lparr>crStatus := status, crUpdatedAt := now, crClosedAt := Some now\<rparr>)) db
      else
        exec_sql (ceFail env 0) (update_cases (\<lambda>r. crID r = cid)
          (\<lambda>r. r\<lparr>crStatus := status, crUpdatedAt := now, crClosedAt := None\<rparr>)) db)"

definition cm_Assign :: "case_env \<Rightarrow> string \<Rightarrow> string \<Rightarrow> case_db \<Rightarrow> string option \<times> case_db" where
  "cm_Assign env cid assignee db =
     exec_sql (ceFail env 0) (update_cases (\<lambda>r. crID r = cid)
       (\<lambda>r. r\<lparr>crAssignee := Some assignee, crUpdatedAt := ceSQLNow env\<rparr>)) db"

definition cm_Resolve :: "case_env \<Rightarrow> string \<Rightarrow> string \<Rightarrow> case_db \<Rightarrow> string option \<times> case_db" where
  "cm_Resolve env cid resolution db =
     (let now = ceNow env 0 in
      exec_sql (ceFail env 0) (update_cases (\<lambda>r. crID r = cid)
        (\<lambda>r. r\<lparr>crStatus := ''resolved'', crResolution := Some resolution, crClosedAt := Some now,
               crUpdatedAt := now\<rparr>)) db)"

section \<open>Events, indicators, evidence and links\<close>

definition AddEvent ::
  "case_env \<Rightarrow> string \<Rightarrow> string \<Rightarrow> string \<Rightarrow> string \<Rightarrow> case_db \<Rightarrow> CaseEvent result \<times> case_db" where
  "AddEvent env caseID eventType content source db =
     (let e = \<lparr>evID = ceUUID env 0, evCaseID = caseID, evType = eventType, evContent = content,
               evSource = source, evCreatedAt = ceNow env 0\<rparr> in
      case ceFail env 0 of
        Some err \<Rightarrow> (Inl err, db)
      | None \<Rightarrow>
          if evID e \<in> evID ` set (cdEvents db) then (Inl ''UNIQUE constraint failed: case_events.id'', db)
          else (Inr e, db\<lparr>cdEvents := cdEvents db @ [e]\<rparr>))"

definition GetEvents :: "case_env \<Rightarrow> string \<Rightarrow> case_db \<Rightarrow> CaseEvent list result" where
  "GetEvents env caseID db =
     (case ceFail env 0 of
        Some err \<Rightarrow> Inl err
      | None \<Rightarrow> Inr (sort_key evCreatedAt (filter (\<lambda>e. evCaseID e = caseID) (cdEvents db))))"

definition ioc_kind :: "string \<Rightarrow> string" where
  "ioc_kind t =
     (let iocType = ToLower t in
      if iocType \<in> {''ip'', ''ipv4'', ''ipv6''} then ''ip''
      else if iocType = ''domain'' then iocType
      else if iocType = ''url'' then iocType
      else if iocType \<in> {''hash'', ''md5'', ''sha1'', ''sha256''} then ''hash''
      else if iocType = ''email'' then iocType
      else if iocType \<in> {''file'', ''path''} then ''filepath''
      else ''unknown'')"

text \<open>The returned record leaves the source empty; the row says \<open>manual\<close>.\<close>

definition AddIOC ::
  "case_env \<Rightarrow> string \<Rightarrow> string \<Rightarrow> string \<Rightarrow> string \<Rightarrow> case_db \<Rightarrow> IOC result \<times> case_db" where
  "AddIOC env caseID iocType value description db =
     (let i = \<lparr>ioID = ceUUID env 0, ioCaseID = caseID, ioType = ioc_kind iocType, ioValue = value,
               ioDescription = description, ioSource = '''', ioCreatedAt = ceNow env 0\<rparr> in
      case ceFail env 0 of
        Some err \<Rightarrow> (Inl err, db)
      | None \<Rightarrow>
          if ioID i \<in> ioID ` set (cdIOCs db) then (Inl ''UNIQUE constraint failed: case_iocs.id'', db)
          else (Inr i, db\<lparr>cdIOCs := cdIOCs db @ [i\<lparr>ioSource := ''manual''\<rparr>]\<rparr>))"

definition GetIOCs :: "case_env \<Rightarrow> string \<Rightarrow> case_db \<Rightarrow> IOC list result" where
  "GetIOCs env caseID db =
     (case ceFail env 0 of
        Some err \<Rightarrow> Inl err
      | None \<Rightarrow> Inr (sort_key ioCreatedAt (filter (\<lambda>i. ioCaseID i = caseID) (cdIOCs db))))"

definition AddEvidence ::
  "case_env \<Rightarrow> string \<Rightarrow> string \<Rightarrow> string \<Rightarrow> string \<Rightarrow> string \<Rightarrow> case_db \<Rightarrow> string option \<times> case_db" where
  "AddEvidence env caseID fileName filePath mimeType source db =
     (case ceStat env filePath of
        Inl e \<Rightarrow> (Some (''evidence file: '' @ e), db)
      | Inr sz \<Rightarrow>
          (let e = \<lparr>edID = ceUUID env 0, edCaseID = caseID, edFileName = fileName, edFilePath = filePath,
                   edMimeType = mimeType, edFileSize = sz, edSource = source, edCreatedAt = ceNow env 0\<rparr> in
          case ceFail env 0 of
            Some err \<Rightarrow> (Some err, db)
          | None \<Rightarrow>
              if edID e \<in> edID ` set (cdEvidence db)
              then (Some ''UNIQUE constraint failed: case_evidence.id'', db)
              else (None, db\<lparr>cdEvidence := cdEvidence db @ [e]\<rparr>)))"

definition ListEvidence :: "case_env \<Rightarrow> string \<Rightarrow> case_db \<Rightarrow> Evidence list result" where
  "ListEvidence env caseID db =
     (case ceFail env 0 of
        Some err \<Rightarrow> Inl err
      | None \<Rightarrow> Inr (sort_desc edCreatedAt (filter (\<lambda>e. edCaseID e = caseID) (cdEvidence db))))"

definition LinkInvestigation :: "case_env \<Rightarrow> string \<Rightarrow> string \<Rightarrow> case_db \<Rightarrow> string option \<times> case_db" where
  "LinkInvestigation env caseID investigationID db =
     (case exec_sql (ceFail env 0)
             (\<lambda>db. if (caseID, investigationID) \<in> (\<lambda>(c, i, _). (c, i)) ` set (cdLinks db) then db
                   else db\<lparr>cdLinks := cdLinks db @ [(caseID, investigationID, ceNow env 0)]\<rparr>) db of
        (Some e, db1) \<Rightarrow> (Some (''link investigation: '' @ e), db1)
      | (None, db1) \<Rightarrow>
          exec_sql (ceFail env 1)
            (update_cases (\<lambda>r. crID r = caseID) (\<lambda>r. r\<lparr>crUpdatedAt := ceNow env 1\<rparr>)) db1)"

definition ListLinkedInvestigations :: "case_env \<Rightarrow> string \<Rightarrow> case_db \<Rightarrow> string list result" where
  "ListLinkedInvestigations env caseID db =
     (case ceFail env 0 of
        Some err \<Rightarrow> Inl err
      | None \<Rightarrow> Inr (map (\<lambda>(_, i, _). i)
                 (sort_desc (\<lambda>(_, _, t). t) (filter (\<lambda>(c, _, _). c = caseID) (cdLinks db)))))"

section \<open>The lifecycle\<close>

definition allowedTransitions :: "(string \<times> string list) list" where
  "allowedTransitions =
     [(''open'', [''investigating'', ''resolved'', ''closed'']),
      (''investigating'', [''resolved'', ''closed'', ''open'']),
      (''resolved'', [''closed'', ''open'', ''investigating'']),
      (''closed'', [''open'', ''investigating''])]"

definition validTransition :: "string \<Rightarrow> string \<Rightarrow> bool" where
  "validTransition from to \<longleftrightarrow>
     (case map_of allowedTransitions from of None \<Rightarrow> False | Some nexts \<Rightarrow> to \<in> set nexts)"

text \<open>The columns that the three \<open>UPDATE\<close> statements set; their condition is the same.\<close>

definition transition_row :: "string \<Rightarrow> string \<Rightarrow> case_row \<Rightarrow> case_row" where
  "transition_row to now r =
     (if to = ''open'' \<or> to = ''investigating''
      then r\<lparr>crStatus := to, crUpdatedAt := now, crClosedAt := None\<rparr>
      else if to = ''closed'' \<or> to = ''resolved''
      then r\<lparr>crStatus := to, crUpdatedAt := now, crClosedAt := Some now\<rparr>
      else r\<lparr>crStatus := to, crUpdatedAt := now\<rparr>)"

definition Transition :: "case_env \<Rightarrow> string \<Rightarrow> string \<Rightarrow> string \<Rightarrow> case_db \<Rightarrow> string option \<times> case_db" where
  "Transition env orgID cid to db =
     (case cm_Get env cid db of
        Inl e \<Rightarrow> (Some e, db)
      | Inr c \<Rightarrow>
          if \<not> validTransition (csStatus c) to
          then (Some (''invalid transition '' @ csStatus c @ '' -> '' @ to), db)
          else exec_sql (ceFail env 1)
                 (update_cases (\<lambda>r. crID r = cid \<and> crOrg r = orgID) (transition_row to (ceNow env 0))) db)"

definition cm_Ack :: "case_env \<Rightarrow> string \<Rightarrow> string \<Rightarrow> string \<Rightarrow> case_db \<Rightarrow> string option \<times> case_db" where
  "cm_Ack env orgID cid owner db =
     (case cm_Get env cid db of
        Inl e \<Rightarrow> (Some e, db)
      | Inr c \<Rightarrow>
          if csStatus c \<noteq> ''open'' then (Some (''ack requires status open, got '' @ csStatus c), db)
          else exec_sql (ceFail env 1)
            (update_cases (\<lambda>r. crID r = cid \<and> crOrg r = orgID \<and> crStatus r = ''open'')
              (\<lambda>r. r\<lparr>crStatus := ''investigating'', crAssignee := Some owner, crUpdatedAt := ceNow env 0\<rparr>)) db)"

definition AssignScoped :: "case_env \<Rightarrow> string \<Rightarrow> string \<Rightarrow> string \<Rightarrow> case_db \<Rightarrow> string option \<times> case_db" where
  "AssignScoped env orgID cid assignee db =
     exec_sql (ceFail env 0) (update_cases (\<lambda>r. crID r = cid \<and> crOrg r = orgID)
       (\<lambda>r. r\<lparr>crAssignee := Some assignee, crUpdatedAt := ceNow env 0\<rparr>)) db"

section \<open>Paging\<close>

definition encodeCursor :: "string \<Rightarrow> string \<Rightarrow> string" where
  "encodeCursor ts cid = b64_encode (ts @ ''|'' @ cid)"

definition decodeCursor :: "string \<Rightarrow> (string \<times> string) result" where
  "decodeCursor cursor =
     (case b64_decode cursor of
        None \<Rightarrow> Inl ''illegal base64 data''
      | Some raw \<Rightarrow>
          (case SplitN2 CHR ''|'' raw of
             (ts, None) \<Rightarrow> Inl ''malformed cursor''
           | (ts, Some cid) \<Rightarrow>
               if ts = '''' \<or> cid = '''' then Inl ''malformed cursor'' else Inr (ts, cid)))"

definition page_limit :: "int \<Rightarrow> nat" where
  "page_limit limit = (if limit \<le> 0 \<or> limit > 100 then 25 else nat limit)"

definition case_key :: "case_row \<Rightarrow> string \<times> string" where
  "case_key r = (crCreatedAt r, crID r)"

definition page_query ::
  "string \<Rightarrow> string \<Rightarrow> string \<Rightarrow> (string \<times> string) option \<Rightarrow> case_db \<Rightarrow> case_row list" where
  "page_query orgID status severity cursor db =
     sort_desc case_key (filter (\<lambda>r. crOrg r = orgID \<and> wanted status severity r \<and>
       (case cursor of None \<Rightarrow> True
        | Some (ts, cid) \<Rightarrow> crCreatedAt r < ts \<or> crCreatedAt r = ts \<and> crID r < cid)) (cdCases db))"

definition ListPage ::
  "case_env \<Rightarrow> string \<Rightarrow> string \<Rightarrow> string \<Rightarrow> int \<Rightarrow> string \<Rightarrow> case_db \<Rightarrow> (Case list \<times> string) result" where
  "ListPage env orgID status severity limit0 cursor db =
     (let limit = page_limit limit0 in
      case (if cursor = '''' then Inr None else map_sum id Some (decodeCursor cursor)) of
        Inl e \<Rightarrow> Inl (''bad cursor: '' @ e)
      | Inr pos \<Rightarrow>
     (case ceFail env 0 of
        Some e \<Rightarrow> Inl e
      | None \<Rightarrow>
          let out = map (scan_case env) (take (limit + 1) (page_query orgID status severity pos db)) in
     (case ceFail env 1 of
        Some e \<Rightarrow> Inl e
      | None \<Rightarrow>
          if length out > limit
          then let page = take limit out; l = last page in
               Inr (page, encodeCursor (csCreatedAt l) (csID l))
          else Inr (out, ''''))))"

section \<open>The rate limiter\<close>

record RateLimiter =
  rlHits :: "string \<Rightarrow> int list"
  rlMax :: nat
  rlWindow :: int

definition NewRateLimiter :: "int \<Rightarrow> int \<Rightarrow> RateLimiter" where
  "NewRateLimiter mx window =
     \<lparr>rlHits = (\<lambda>_. []), rlMax = (if mx \<le> 0 then 5 else nat mx),
      rlWindow = (if window \<le> 0 then Hour else window)\<rparr>"

definition limit_key :: "string \<Rightarrow> string \<Rightarrow> string" where
  "limit_key rule entity = rule @ ''|'' @ (if entity = '''' then ''global'' else entity)"

definition allow_key :: "int \<Rightarrow> string \<Rightarrow> RateLimiter \<Rightarrow> bool \<times> RateLimiter" where
  "allow_key now key r =
     (let kept = in_window (now - rlWindow r) (rlHits r key) in
      if length kept \<ge> rlMax r then (False, r\<lparr>rlHits := (rlHits r)(key := kept)\<rparr>)
      else (True, r\<lparr>rlHits := (rlHits r)(key := kept @ [now])\<rparr>))"

definition Allow :: "int \<Rightarrow> string \<Rightarrow> string \<Rightarrow> RateLimiter \<Rightarrow> bool \<times> RateLimiter" where
  "Allow now rule entity r = allow_key now (limit_key rule entity) r"

section \<open>Exports\<close>

definition casesCSVField :: "string \<Rightarrow> string" where
  "casesCSVField s =
     (if ContainsAny s ('','' @ [CHR 0x22, CHR 0x0A, CHR 0x0D])
      then [CHR 0x22] @ concat (map (\<lambda>c. if c = CHR 0x22 then [CHR 0x22, CHR 0x22] else [c]) s) @ [CHR 0x22]
      else s)"

definition cef_char :: "char \<Rightarrow> char" where
  "cef_char c =
     (if c = CHR ''|'' \<or> c = CHR 0x5C \<or> c = CHR ''='' then CHR ''_''
      else if c = CHR 0x0A \<or> c = CHR 0x0D then CHR '' '' else c)"

definition casesCEFToken :: "string \<Rightarrow> string" where
  "casesCEFToken s = map cef_char (TrimSpace s)"

definition caseCEFSeverity :: "string \<Rightarrow> nat" where
  "caseCEFSeverity severity =
     (let s = ToLower (TrimSpace severity) in
      if s = ''low'' then 3 else if s = ''medium'' then 5 else if s = ''high'' then 8
      else if s = ''critical'' then 10 else 5)"

definition csv_line :: "string list \<Rightarrow> string" where
  "csv_line fs = Join fs '','' @ [CHR 0x0A]"

definition csv_header :: string where
  "csv_header = ''section,type,value,description,source,created_at'' @ [CHR 0x0A]"

text \<open>The reads that both exports start with.\<close>

definition load_case :: "case_env \<Rightarrow> string \<Rightarrow> case_db \<Rightarrow> (Case \<times> IOC list \<times> CaseEvent list) result" where
  "load_case env cid db =
     (case cm_Get env cid db of Inl e \<Rightarrow> Inl e
      | Inr c \<Rightarrow>
     (case GetIOCs (later 1 env) (csID c) db of Inl e \<Rightarrow> Inl e
      | Inr iocs \<Rightarrow>
     (case GetEvents (later 2 env) (csID c) db of Inl e \<Rightarrow> Inl e
      | Inr events \<Rightarrow> Inr (c, iocs, events))))"

definition ioc_fields :: "IOC \<Rightarrow> string list" where
  "ioc_fields i = [''ioc'', ioType i, ioValue i, ioDescription i, ioSource i, ioCreatedAt i]"

definition event_fields :: "CaseEvent \<Rightarrow> string list" where
  "event_fields e = [''event'', evType e, evContent e, '''', evSource e, evCreatedAt e]"

definition ExportCSV :: "case_env \<Rightarrow> string \<Rightarrow> case_db \<Rightarrow> string result" where
  "ExportCSV env cid db =
     (case load_case env cid db of Inl e \<Rightarrow> Inl e
      | Inr (c, iocs, events) \<Rightarrow>
          Inr (csv_header @
            concat (map (\<lambda>i. csv_line (''ioc'' # map casesCSVField (tl (ioc_fields i)))) iocs) @
            concat (map (\<lambda>e. csv_line [''event'', casesCSVField (evType e), casesCSVField (evContent e), '''',
                               casesCSVField (evSource e), casesCSVField (evCreatedAt e)]) events)))"

definition cef_ioc :: "nat \<Rightarrow> Case \<Rightarrow> IOC \<Rightarrow> string" where
  "cef_ioc sev c i =
     ''CEF:0|Trace|Case|1.0|'' @ casesCEFToken (''ioc-'' @ ioType i) @ ''|'' @ casesCEFToken (ioValue i) @ ''|'' @
     show_nat sev @ ''|caseId='' @ casesCEFToken (csID c) @ '' iocType='' @ casesCEFToken (ioType i) @
     '' iocValue='' @ casesCEFToken (ioValue i) @ '' source='' @ casesCEFToken (ioSource i) @ [CHR 0x0A]"

definition cef_event :: "nat \<Rightarrow> Case \<Rightarrow> CaseEvent \<Rightarrow> string" where
  "cef_event sev c e =
     ''CEF:0|Trace|Case|1.0|'' @ casesCEFToken (''event-'' @ evType e) @ ''|'' @ casesCEFToken (evType e) @ ''|'' @
     show_nat sev @ ''|caseId='' @ casesCEFToken (csID c) @ '' eventType='' @ casesCEFToken (evType e) @
     '' source='' @ casesCEFToken (evSource e) @ [CHR 0x0A]"

definition ExportCEF :: "case_env \<Rightarrow> string \<Rightarrow> case_db \<Rightarrow> string result" where
  "ExportCEF env cid db =
     (case load_case env cid db of Inl e \<Rightarrow> Inl e
      | Inr (c, iocs, events) \<Rightarrow>
          let sev = caseCEFSeverity (csSeverity c) in
          Inr (concat (map (cef_ioc sev c) iocs) @ concat (map (cef_event sev c) events)))"

section \<open>Well-formed tables\<close>

text \<open>A case has a closing time exactly when it is resolved or closed, and identifiers are unique.\<close>

definition case_ok :: "case_row \<Rightarrow> bool" where
  "case_ok r \<longleftrightarrow> (crClosedAt r \<noteq> None) = (crStatus r \<in> {''closed'', ''resolved''})"

definition case_db_ok :: "case_db \<Rightarrow> bool" where
  "case_db_ok db \<longleftrightarrow> list_all case_ok (cdCases db) \<and> distinct (map crID (cdCases db))"

text \<open>Everything the manager does to the tables, with any arguments and any failures.\<close>

inductive case_step :: "case_db \<Rightarrow> case_db \<Rightarrow> bool" where
  StepCreate: "case_step db (snd (cm_Create env title desc sev db))"
| StepCreateScoped: "case_step db (snd (CreateScoped env org title desc sev db))"
| StepUpdateStatus: "case_step db (snd (cm_UpdateStatus env cid status db))"
| StepAssign: "case_step db (snd (cm_Assign env cid assignee db))"
| StepResolve: "case_step db (snd (cm_Resolve env cid resolution db))"
| StepEvent: "case_step db (snd (AddEvent env cid ty content source db))"
| StepIOC: "case_step db (snd (AddIOC env cid ty value desc db))"
| StepEvidence: "case_step db (snd (AddEvidence env cid fileName filePath mime source db))"
| StepLink: "case_step db (snd (LinkInvestigation env cid iid db))"
| StepTransition: "case_step db (snd (Transition env org cid to db))"
| StepAck: "case_step db (snd (cm_Ack env org cid owner db))"
| StepAssignScoped: "case_step db (snd (AssignScoped env org cid assignee db))"

lemma update_cases_ok:
  assumes "case_db_ok db" "\<And>r. p r \<Longrightarrow> case_ok r \<Longrightarrow> case_ok (f r)" "\<And>r. crID (f r) = crID r"
  shows "case_db_ok (update_cases p f db)"
proof -
  have "map crID (cdCases (update_cases p f db)) = map crID (cdCases db)" by (auto simp: update_cases_def assms(3))
  moreover have "list_all case_ok (cdCases (update_cases p f db))"
    using assms by (auto simp: case_db_ok_def update_cases_def list_all_iff)
  ultimately show ?thesis using assms(1) by (simp add: case_db_ok_def)
qed

lemma exec_sql_ok:
  assumes "case_db_ok db" "case_db_ok (f db)"
  shows "case_db_ok (snd (exec_sql fault f db))"
  using assms by (simp add: exec_sql_def split: option.split)

lemma insert_case_ok:
  assumes "case_db_ok db" "case_ok row"
  shows "case_db_ok (snd (insert_case fault row db))"
  using assms by (simp add: insert_case_def case_db_ok_def split: option.split)

lemma new_case_ok [simp]: "case_ok (new_case cid title desc sev org now)"
  by (simp add: new_case_def case_ok_def)

lemma cm_Create_db: "snd (cm_Create env title desc sev db) =
    snd (insert_case (ceFail env 0) (new_case (ceUUID env 0) title desc sev '''' (ceNow env 0)) db)"
  by (auto simp: cm_Create_def Let_def split: prod.split option.split sum.split)

lemma CreateScoped_db: "snd (CreateScoped env org title desc sev db) =
    (case insert_case (ceFail env 0) (new_case (ceUUID env 0) title desc sev org (ceNow env 0)) db of
       (Some _, db1) \<Rightarrow> snd (cm_Create (later 1 env) title desc sev db1) | (None, db1) \<Rightarrow> db1)"
  by (auto simp: CreateScoped_def Let_def split: prod.split option.split)

lemma cm_Create_ok: "case_db_ok db \<Longrightarrow> case_db_ok (snd (cm_Create env title desc sev db))"
  by (simp add: cm_Create_db insert_case_ok)

lemma CreateScoped_ok:
  assumes "case_db_ok db"
  shows "case_db_ok (snd (CreateScoped env org title desc sev db))"
  using insert_case_ok [OF assms new_case_ok, of "ceFail env 0" "ceUUID env 0" title desc sev org "ceNow env 0"]
  by (auto simp: CreateScoped_db cm_Create_ok split: prod.splits option.splits)

lemma updates_ok:
  assumes "case_db_ok db"
  shows "case_db_ok (snd (cm_UpdateStatus env cid status db))" "case_db_ok (snd (cm_Assign env cid assignee db))"
    and "case_db_ok (snd (cm_Resolve env cid resolution db))" "case_db_ok (snd (AssignScoped env org cid assignee db))"
  using assms
  by (auto simp: cm_UpdateStatus_def cm_Assign_def cm_Resolve_def AssignScoped_def Let_def case_ok_def
      intro!: exec_sql_ok update_cases_ok)

lemma transition_row_ok:
  assumes "validTransition from to"
  shows "case_ok (transition_row to now r)"
proof -
  have "to \<in> {''open'', ''investigating'', ''closed'', ''resolved''}"
    using assms by (auto simp: validTransition_def allowedTransitions_def split: if_splits)
  then show ?thesis by (auto simp: transition_row_def case_ok_def)
qed

lemma transition_row_key [simp]: "crID (transition_row to now r) = crID r" "crOrg (transition_row to now r) = crOrg r"
  by (simp_all add: transition_row_def)

lemma Transition_ok:
  assumes "case_db_ok db"
  shows "case_db_ok (snd (Transition env org cid to db))"
  using assms
  by (auto simp: Transition_def split: sum.split intro!: exec_sql_ok update_cases_ok intro: transition_row_ok)

lemma cm_Ack_ok:
  assumes "case_db_ok db"
  shows "case_db_ok (snd (cm_Ack env org cid owner db))"
  using assms by (auto simp: cm_Ack_def case_ok_def split: sum.split intro!: exec_sql_ok update_cases_ok)

lemma side_tables_ok:
  assumes "case_db_ok db"
  shows "case_db_ok (snd (AddEvent env cid ty content source db))" "case_db_ok (snd (AddIOC env cid ty value desc db))"
    and "case_db_ok (snd (AddEvidence env cid fileName filePath mime source db))"
  using assms by (auto simp: AddEvent_def AddIOC_def AddEvidence_def Let_def case_db_ok_def split: option.split sum.split)

lemma LinkInvestigation_ok:
  assumes "case_db_ok db"
  shows "case_db_ok (snd (LinkInvestigation env cid iid db))"
proof -
  let ?f = "\<lambda>db. if (cid, iid) \<in> (\<lambda>(c, i, _). (c, i)) ` set (cdLinks db) then db
              else db\<lparr>cdLinks := cdLinks db @ [(cid, iid, ceNow env 0)]\<rparr>"
  have "case_db_ok (?f db)" using assms by (simp add: case_db_ok_def)
  then have "case_db_ok (snd (exec_sql (ceFail env 0) ?f db))" by (rule exec_sql_ok [OF assms])
  then show ?thesis
    by (auto simp: LinkInvestigation_def case_ok_def split: prod.split option.split intro!: exec_sql_ok update_cases_ok)
qed

lemmas case_ops_ok = cm_Create_ok CreateScoped_ok updates_ok Transition_ok cm_Ack_ok side_tables_ok LinkInvestigation_ok

text \<open>C28. The case tables stay well-formed: whatever sequence of operations of the manager runs, with any
  arguments and failures, identifiers stay unique and a case carries a closing time exactly while its
  status is resolved or closed; reopening clears it.\<close>

theorem case_tables_wf:
  assumes "case_step\<^sup>*\<^sup>* db db'" "case_db_ok db"
  shows "case_db_ok db'"
  using assms by (induction rule: rtranclp_induct) (auto elim!: case_step.cases intro: case_ops_ok)

end
