(* ===== verification/Case_Laws.thy ===== *)
theory Case_Laws
  imports Case_Store
begin

text \<open>
  What the case manager guarantees to its callers: organisations do not change each other's cases,
  following the cursors of the case list visits every case once, the limiter keeps its rate, and the text exports
  can be read back.
\<close>

section \<open>Organisations\<close>

text \<open>A store whose commands act for one organisation and leave the view of the others as it is.\<close>

locale scoped_store =
  fixes view :: "string \<Rightarrow> 's \<Rightarrow> 'v"
    and act :: "string \<Rightarrow> 'c \<Rightarrow> 's \<Rightarrow> 's"
  assumes frame: "p \<noteq> org \<Longrightarrow> p \<noteq> '''' \<Longrightarrow> view p (act org c s) = view p s"
begin

lemma run_frame:
  assumes "list_all (\<lambda>(org, c). org \<noteq> p) cmds" "p \<noteq> ''''"
  shows "view p (fold (\<lambda>(org, c). act org c) cmds s) = view p s"
  using assms by (induction cmds arbitrary: s) (auto simp: frame)

end

datatype scoped_cmd =
  DoCreate case_env string string string
| DoTransition case_env string string
| DoAck case_env string string
| DoAssign case_env string string

fun scoped_exec :: "string \<Rightarrow> scoped_cmd \<Rightarrow> case_db \<Rightarrow> case_db" where
  "scoped_exec org (DoCreate env title desc sev) db = snd (CreateScoped env org title desc sev db)"
| "scoped_exec org (DoTransition env cid to) db = snd (Transition env org cid to db)"
| "scoped_exec org (DoAck env cid owner) db = snd (cm_Ack env org cid owner db)"
| "scoped_exec org (DoAssign env cid assignee) db = snd (AssignScoped env org cid assignee db)"

definition org_cases :: "string \<Rightarrow> case_db \<Rightarrow> case_row list" where
  "org_cases org db = filter (\<lambda>r. crOrg r = org) (cdCases db)"

lemma org_cases_update:
  assumes "\<And>r. q r \<Longrightarrow> crOrg r \<noteq> p" "\<And>r. crOrg (f r) = crOrg r"
  shows "org_cases p (update_cases q f db) = org_cases p db"
proof -
  have "filter (\<lambda>r. crOrg r = p) (map (\<lambda>r. if q r then f r else r) xs) = filter (\<lambda>r. crOrg r = p) xs" for xs
    using assms by (induction xs) auto
  then show ?thesis by (simp add: org_cases_def update_cases_def)
qed

lemma org_cases_exec:
  assumes "p \<noteq> org" "\<And>r. q r \<Longrightarrow> crOrg r = org" "\<And>r. crOrg (f r) = crOrg r"
  shows "org_cases p (snd (exec_sql fault (update_cases q f) db)) = org_cases p db"
proof -
  have "org_cases p (update_cases q f db) = org_cases p db" using assms by (intro org_cases_update) auto
  then show ?thesis by (simp add: exec_sql_def split: option.split)
qed

lemma org_cases_insert: "crOrg row \<noteq> p \<Longrightarrow> org_cases p (snd (insert_case fault row db)) = org_cases p db"
  by (simp add: insert_case_def org_cases_def split: option.split)

lemma new_case_org [simp]: "crOrg (new_case cid title desc sev org now) = org"
  by (simp add: new_case_def)

lemma CreateScoped_frame:
  assumes "p \<noteq> org" "p \<noteq> ''''"
  shows "org_cases p (snd (CreateScoped env org title desc sev db)) = org_cases p db"
proof -
  obtain e db1 where i: "insert_case (ceFail env 0) (new_case (ceUUID env 0) title desc sev org (ceNow env 0)) db = (e, db1)"
    by fastforce
  then have "org_cases p db1 = org_cases p db"
    using org_cases_insert [of "new_case (ceUUID env 0) title desc sev org (ceNow env 0)" p "ceFail env 0" db] assms by simp
  moreover have "org_cases p (snd (cm_Create (later 1 env) title desc sev db1)) = org_cases p db1"
    using assms by (simp add: cm_Create_db org_cases_insert)
  ultimately show ?thesis by (simp add: CreateScoped_db i split: option.split)
qed

lemma scoped_exec_frame:
  assumes "p \<noteq> org" "p \<noteq> ''''"
  shows "org_cases p (scoped_exec org c db) = org_cases p db"
proof (cases c)
  case (DoCreate env t d s) then show ?thesis using CreateScoped_frame [OF assms] by simp
next
  case (DoTransition env cid to)
  show ?thesis unfolding DoTransition scoped_exec.simps Transition_def
    by (auto split: sum.split intro!: org_cases_exec [OF assms(1)])
next
  case (DoAck env cid owner)
  show ?thesis unfolding DoAck scoped_exec.simps cm_Ack_def
    by (auto split: sum.split intro!: org_cases_exec [OF assms(1)])
next
  case (DoAssign env cid a)
  show ?thesis unfolding DoAssign scoped_exec.simps AssignScoped_def
    by (rule org_cases_exec [OF assms(1)]) auto
qed

interpretation cases: scoped_store org_cases scoped_exec
  by unfold_locales (rule scoped_exec_frame)

text \<open>C26. Tenant isolation of cases: no sequence of scoped operations of other organisations, with any
  failures, adds, removes or changes a case of an organisation (the unnamed organisation excepted, into
  which a creation falls back).\<close>

theorem case_tenant_isolation:
  assumes "list_all (\<lambda>(org, c). org \<noteq> p) cmds" "p \<noteq> ''''"
  shows "org_cases p (fold (\<lambda>(org, c). scoped_exec org c) cmds db) = org_cases p db"
  using assms by (rule cases.run_frame)

text \<open>The reading half is not scoped: a valid transition of another organisation's case
  reports success and does nothing, an invalid one reports that case's status.\<close>

theorem foreign_transition_reports:
  assumes "find (\<lambda>r. crID r = cid) (cdCases db) = Some r" "distinct (map crID (cdCases db))"
    and "crOrg r \<noteq> org" "ceFail env 0 = None" "ceFail env 1 = None"
  shows "Transition env org cid to db =
    (if validTransition (crStatus r) to then None else Some (''invalid transition '' @ crStatus r @ '' -> '' @ to), db)"
proof -
  have "r \<in> set (cdCases db)" "crID r = cid" using assms(1) by (auto simp: find_Some_iff)
  then have "\<not> (crID s = cid \<and> crOrg s = org)" if "s \<in> set (cdCases db)" for s
    using that assms(2,3) by (auto simp: distinct_map dest: inj_onD)
  then have idle: "update_cases (\<lambda>s. crID s = cid \<and> crOrg s = org) f db = db" for f
  proof -
    have "map (\<lambda>s. if crID s = cid \<and> crOrg s = org then f s else s) (cdCases db) = map id (cdCases db)"
      using \<open>\<And>s. s \<in> set (cdCases db) \<Longrightarrow> \<not> (crID s = cid \<and> crOrg s = org)\<close> by (intro map_cong) auto
    then show ?thesis by (simp add: update_cases_def)
  qed
  have get: "cm_Get env cid db = Inr (scan_case env r)" using assms(1,4) by (simp add: cm_Get_def)
  have st: "csStatus (scan_case env r) = crStatus r" by (simp add: scan_case_def)
  show ?thesis unfolding Transition_def get sum.case st idle exec_sql_def assms(5) option.case
    by simp
qed

section \<open>Following the cursors\<close>

lemma SplitN2_first: "c \<notin> set a \<Longrightarrow> SplitN2 c (a @ c # b) = (a, Some b)"
  by (induction a) auto

lemma cursor_roundtrip:
  assumes "CHR ''|'' \<notin> set ts" "ts \<noteq> ''''" "cid \<noteq> ''''"
  shows "decodeCursor (encodeCursor ts cid) = Inr (ts, cid)"
  using assms by (simp add: decodeCursor_def encodeCursor_def b64_roundtrip SplitN2_first)

lemma encodeCursor_nonempty [simp]: "encodeCursor ts cid \<noteq> ''''"
  by (simp add: encodeCursor_def)

lemma filter_sort_desc: "filter P (sort_desc f xs) = sort_desc f (filter P xs)"
  by (simp add: sort_desc_def rev_filter [symmetric] filter_sort)

lemma set_sort_desc [simp]: "set (sort_desc f xs) = set xs" "length (sort_desc f xs) = length xs"
  by (simp_all add: sort_desc_def)

text \<open>In a list that descends strictly, what is below an element is what follows it.\<close>

lemma below_drop:
  assumes "sorted_wrt (\<lambda>a b. key b < key a) xs" "k < length xs"
  shows "filter (\<lambda>x. (key x :: 'k::linorder) < key (xs ! k)) xs = drop (Suc k) xs"
proof -
  have xs: "xs = take k xs @ xs ! k # drop (Suc k) xs" using assms(2) by (rule id_take_nth_drop)
  then have w: "sorted_wrt (\<lambda>a b. key b < key a) (take k xs @ xs ! k # drop (Suc k) xs)" using assms(1) by simp
  then have "\<forall>x\<in>set (take k xs). \<not> key x < key (xs ! k)" "\<forall>x\<in>set (drop (Suc k) xs). key x < key (xs ! k)"
    by (auto simp: sorted_wrt_append)
  then have "filter (\<lambda>x. key x < key (xs ! k)) (take k xs @ xs ! k # drop (Suc k) xs) = drop (Suc k) xs"
    by (simp add: filter_False)
  then show ?thesis using xs by simp
qed

lemma sort_desc_strict:
  assumes "distinct (map key xs)"
  shows "sorted_wrt (\<lambda>a b. key b < key a) (sort_desc key xs)"
proof -
  have "sorted (map key (sort_key key (rev xs)))" by simp
  moreover have "distinct (map key (sort_key key (rev xs)))" using assms by (simp add: distinct_map)
  ultimately have "sorted_wrt (<) (map key (sort_key key (rev xs)))" by (simp add: strict_sorted_iff)
  then show ?thesis by (simp add: sort_desc_def sorted_wrt_rev sorted_wrt_map)
qed

definition usable :: "case_row \<Rightarrow> bool" where
  "usable r \<longleftrightarrow> crCreatedAt r \<noteq> '''' \<and> CHR ''|'' \<notin> set (crCreatedAt r) \<and> crID r \<noteq> ''''"

lemma page_query_from:
  "page_query org st sev (Some (ts, cid)) db = filter (\<lambda>r. case_key r < (ts, cid)) (page_query org st sev None db)"
proof -
  have "case_key r < (ts, cid) \<longleftrightarrow> crCreatedAt r < ts \<or> crCreatedAt r = ts \<and> crID r < cid" for r
    by (auto simp: case_key_def less_prod_simp)
  then show ?thesis by (simp add: page_query_def filter_sort_desc conj_ac)
qed

lemma page_query_drop:
  assumes "distinct (map crID (cdCases db))" "k < length (page_query org st sev None db)"
  shows "page_query org st sev (Some (case_key (page_query org st sev None db ! k))) db =
    drop (Suc k) (page_query org st sev None db)"
proof -
  let ?all = "page_query org st sev None db"
  have "distinct (map case_key (filter P (cdCases db)))" for P
    using assms(1) by (auto simp: distinct_map inj_on_def case_key_def)
  then have "sorted_wrt (\<lambda>a b. case_key b < case_key a) ?all" unfolding page_query_def by (rule sort_desc_strict)
  from below_drop [OF this assms(2)] show ?thesis
    by (cases "case_key (?all ! k)") (simp add: page_query_from)
qed

text \<open>A client that asks for pages until the cursor is empty, for \<open>n\<close> pages at most.\<close>

fun walk_pages ::
  "case_env \<Rightarrow> string \<Rightarrow> string \<Rightarrow> string \<Rightarrow> int \<Rightarrow> nat \<Rightarrow> string \<Rightarrow> case_db \<Rightarrow> Case list result" where
  "walk_pages env org st sev limit 0 cursor db = Inl ''too many pages''"
| "walk_pages env org st sev limit (Suc n) cursor db =
     (case ListPage env org st sev limit cursor db of
        Inl e \<Rightarrow> Inl e
      | Inr (page, nxt) \<Rightarrow>
          if nxt = '''' then Inr page
          else (case walk_pages env org st sev limit n nxt db of Inl e \<Rightarrow> Inl e | Inr cs \<Rightarrow> Inr (page @ cs)))"

definition cursor_at :: "case_row list \<Rightarrow> nat \<Rightarrow> string" where
  "cursor_at rows k = (if k = 0 then '''' else encodeCursor (crCreatedAt (rows ! (k - 1))) (crID (rows ! (k - 1))))"

lemma page_limit_pos: "0 < page_limit limit"
  by (simp add: page_limit_def)

lemma ListPage_at:
  fixes org st sev limit db
  defines "all \<equiv> page_query org st sev None db" and "m \<equiv> page_limit limit"
  assumes "\<And>k. ceFail env k = None" "distinct (map crID (cdCases db))" "list_all usable (cdCases db)" "k \<le> length all"
  shows "ListPage env org st sev limit (cursor_at all k) db =
    Inr (map (scan_case env) (take m (drop k all)), if k + m < length all then cursor_at all (k + m) else '''')"
proof -
  have query: "(if cursor_at all k = '''' then Inr None else map_sum id Some (decodeCursor (cursor_at all k))) =
      Inr (if k = 0 then None else Some (case_key (all ! (k - 1))))"
  proof (cases k)
    case (Suc j)
    then have "all ! j \<in> set (cdCases db)"
      using nth_mem [of j all] assms(6) by (auto simp: all_def page_query_def)
    then have "usable (all ! j)" using assms(5) by (simp add: list_all_iff)
    then show ?thesis using Suc by (simp add: cursor_at_def usable_def cursor_roundtrip case_key_def)
  qed (simp add: cursor_at_def)
  have rows: "page_query org st sev (if k = 0 then None else Some (case_key (all ! (k - 1)))) db = drop k all"
  proof (cases k)
    case (Suc j) then show ?thesis using page_query_drop [OF assms(4), of j org st sev] assms(6) by (simp add: all_def)
  qed (simp add: all_def)
  have m: "0 < m" by (simp add: m_def page_limit_pos)
  have "last (take m (drop k all)) = all ! (k + m - 1)" if "k + m < length all"
    using that m by (subst last_conv_nth) (auto simp: min_def)
  then show ?thesis
    unfolding ListPage_def Let_def m_def [symmetric] query sum.case assms(3) option.case rows
    using m by (auto simp: take_map last_map min_def cursor_at_def scan_case_def take_Suc)
qed

lemma walk_pages_from:
  fixes org st sev limit db
  defines "all \<equiv> page_query org st sev None db"
  assumes ok: "\<And>k. ceFail env k = None" "distinct (map crID (cdCases db))" "list_all usable (cdCases db)"
    and "k \<le> length all" "length all < n + k \<or> 0 < n \<and> length all = k"
  shows "walk_pages env org st sev limit n (cursor_at all k) db = Inr (map (scan_case env) (drop k all))"
  using assms(5,6)
proof (induction n arbitrary: k)
  case (Suc n)
  let ?m = "page_limit limit"
  have page: "ListPage env org st sev limit (cursor_at all k) db =
      Inr (map (scan_case env) (take ?m (drop k all)), if k + ?m < length all then cursor_at all (k + ?m) else '''')"
    using ListPage_at [OF ok, of k org st sev limit] Suc.prems(1) by (simp add: all_def)
  show ?case
  proof (cases "k + ?m < length all")
    case False then show ?thesis by (simp add: page)
  next
    case True
    then have "walk_pages env org st sev limit n (cursor_at all (k + ?m)) db = Inr (map (scan_case env) (drop (k + ?m) all))"
      using Suc.prems page_limit_pos [of limit] by (intro Suc.IH) auto
    moreover have "cursor_at all (k + ?m) \<noteq> ''''" using page_limit_pos [of limit] by (simp add: cursor_at_def)
    moreover have "drop k all = take ?m (drop k all) @ drop (k + ?m) all"
      by (simp add: add.commute [of k] drop_drop [symmetric] del: drop_drop)
    ultimately show ?thesis using True by (simp add: page map_append [symmetric] del: map_append)
  qed
qed auto

text \<open>C27. Paging is complete: a client that follows the cursors of the case list from the start receives,
  whatever page size it asks for, every case of its organisation that matches the filter exactly once, in
  descending order of creation time and identifier, and then an empty cursor; no more requests are
  needed than there are cases.\<close>

theorem ListPage_complete:
  assumes "\<And>k. ceFail env k = None" "distinct (map crID (cdCases db))" "list_all usable (cdCases db)"
  shows "walk_pages env org st sev limit (Suc (length (cdCases db))) '''' db =
    Inr (map (scan_case env) (sort_desc case_key (filter (\<lambda>r. crOrg r = org \<and> wanted st sev r) (cdCases db))))"
proof -
  let ?all = "page_query org st sev None db"
  have "length ?all \<le> length (cdCases db)" by (simp add: page_query_def)
  then have "walk_pages env org st sev limit (Suc (length (cdCases db))) (cursor_at ?all 0) db =
      Inr (map (scan_case env) (drop 0 ?all))"
    by (intro walk_pages_from assms) auto
  then show ?thesis by (simp add: cursor_at_def page_query_def)
qed

section \<open>The rate limiter\<close>

interpretation limiter: admission allow_key "\<lambda>key r. rlHits r key" rlMax rlWindow
  by unfold_locales (auto simp: allow_key_def Let_def)

text \<open>Calls name a rule and an entity; the limiter sees their key.\<close>

lemma Allow_run_keys:
  "map (map_prod id (case_prod limit_key)) (fst (admit_run (\<lambda>now (rule, entity). Allow now rule entity) calls r)) =
   fst (admit_run allow_key (map (map_prod id (case_prod limit_key)) calls) r)"
  by (induction calls arbitrary: r rule: list.induct) (auto simp: Allow_def Let_def case_prod_beta)

text \<open>The limiter keeps its rate.  In any run of calls with a clock that does not go back, of the
  cases admitted for one rule and entity each is at least a window later than the one \<open>max\<close>
  admissions earlier, so no window holds more than \<open>max\<close> of them; entities are counted separately.\<close>

theorem Allow_rate:
  assumes "sorted (map fst calls)"
  shows "spaced (rlMax (NewRateLimiter mx w)) (rlWindow (NewRateLimiter mx w))
    (map fst (filter (\<lambda>(_, rule, entity). limit_key rule entity = key)
      (fst (admit_run (\<lambda>now (rule, entity). Allow now rule entity) calls (NewRateLimiter mx w)))))"
proof -
  let ?r = "NewRateLimiter mx w" and ?keys = "map (map_prod id (case_prod limit_key))"
  have "map fst (filter (\<lambda>(_, rule, entity). limit_key rule entity = key) log) = times_of key (?keys log)" for log :: "(int \<times> string \<times> string) list"
    by (induction log) (auto simp: times_of_def)
  moreover have "spaced (rlMax ?r) (rlWindow ?r) (times_of key (fst (admit_run allow_key (?keys calls) ?r)))"
    by (rule limiter.admitted_spaced) (use assms in \<open>auto simp: NewRateLimiter_def Hour_def Minute_def Second_def comp_def\<close>)
  ultimately show ?thesis by (simp only: Allow_run_keys)
qed

section \<open>The exports\<close>

text \<open>A reader of comma-separated values: a field is quoted, with doubled quotes inside, or runs to the
  next comma or line break; a record has a fixed number of fields.\<close>

fun csv_quoted :: "string \<Rightarrow> string \<times> string" where
  "csv_quoted [] = ([], [])"
| "csv_quoted [c] = (if c = CHR 0x22 then ([], []) else ([c], []))"
| "csv_quoted (c # d # s) =
     (if c = CHR 0x22
      then if d = CHR 0x22 then apfst ((#) c) (csv_quoted s) else ([], d # s)
      else apfst ((#) c) (csv_quoted (d # s)))"

definition csv_field :: "string \<Rightarrow> string \<times> string" where
  "csv_field s =
     (case s of
        [] \<Rightarrow> ([], [])
      | c # t \<Rightarrow>
          if c = CHR 0x22 then csv_quoted t
          else (takeWhile (\<lambda>c. c \<noteq> CHR '','' \<and> c \<noteq> CHR 0x0A) s, dropWhile (\<lambda>c. c \<noteq> CHR '','' \<and> c \<noteq> CHR 0x0A) s))"

fun csv_record :: "nat \<Rightarrow> string \<Rightarrow> (string list \<times> string) option" where
  "csv_record 0 s = None"
| "csv_record (Suc n) s =
     (case csv_field s of
        (f, []) \<Rightarrow> None
      | (f, d # t) \<Rightarrow>
          if n = 0 then (if d = CHR 0x0A then Some ([f], t) else None)
          else if d = CHR '','' then map_option (apfst ((#) f)) (csv_record n t) else None)"

fun csv_records :: "nat \<Rightarrow> nat \<Rightarrow> string \<Rightarrow> string list list option" where
  "csv_records width 0 s = (if s = [] then Some [] else None)"
| "csv_records width (Suc k) s =
     (case csv_record width s of None \<Rightarrow> None | Some (r, t) \<Rightarrow> map_option ((#) r) (csv_records width k t))"

lemma csv_quoted_read:
  assumes "d \<noteq> CHR 0x22"
  shows "csv_quoted (concat (map (\<lambda>c. if c = CHR 0x22 then [CHR 0x22, CHR 0x22] else [c]) s) @ CHR 0x22 # d # rest) = (s, d # rest)"
    (is "csv_quoted (?esc s @ _) = _")
proof (induction s)
  case (Cons c s)
  show ?case
  proof (cases "c = CHR 0x22")
    case False
    obtain x xs where "?esc s @ CHR 0x22 # d # rest = x # xs" by (cases "?esc s @ CHR 0x22 # d # rest") auto
    then show ?thesis using False Cons.IH by simp
  qed (use Cons.IH in simp)
qed (use assms in simp)

lemma csv_field_read:
  assumes "d = CHR '','' \<or> d = CHR 0x0A"
  shows "csv_field (casesCSVField s @ d # rest) = (s, d # rest)"
proof (cases "ContainsAny s ('','' @ [CHR 0x22, CHR 0x0A, CHR 0x0D])")
  case True
  then show ?thesis using assms csv_quoted_read [of d s rest] by (auto simp: casesCSVField_def csv_field_def)
next
  case False
  then have plain: "\<forall>c\<in>set s. c \<noteq> CHR '','' \<and> c \<noteq> CHR 0x0A \<and> c \<noteq> CHR 0x22" by (auto simp: ContainsAny_iff)
  then have "takeWhile (\<lambda>c. c \<noteq> CHR '','' \<and> c \<noteq> CHR 0x0A) (s @ d # rest) = s"
    "dropWhile (\<lambda>c. c \<noteq> CHR '','' \<and> c \<noteq> CHR 0x0A) (s @ d # rest) = d # rest"
    using assms by (auto simp: takeWhile_append2 dropWhile_append2)
  then show ?thesis using False plain assms by (cases s) (auto simp: casesCSVField_def csv_field_def)
qed

lemma csv_record_read:
  assumes "fs \<noteq> []"
  shows "csv_record (length fs) (csv_line (map casesCSVField fs) @ rest) = Some (fs, rest)"
  using assms
proof (induction fs)
  case (Cons f fs)
  show ?case
  proof (cases fs)
    case Nil then show ?thesis by (simp add: csv_line_def csv_field_read)
  next
    case (Cons g gs)
    then have "csv_line (map casesCSVField (f # fs)) = casesCSVField f @ CHR '','' # csv_line (map casesCSVField fs)"
      by (simp add: csv_line_def)
    then show ?thesis using Cons.IH Cons by (simp add: csv_field_read)
  qed
qed simp

lemma csv_records_read:
  assumes "list_all (\<lambda>r. length r = Suc width) rows"
  shows "csv_records (Suc width) (length rows) (concat (map (\<lambda>r. csv_line (map casesCSVField r)) rows)) = Some rows"
  using assms
proof (induction rows)
  case (Cons r rows)
  then have "csv_record (Suc width) (csv_line (map casesCSVField r) @ concat (map (\<lambda>r. csv_line (map casesCSVField r)) rows)) =
      Some (r, concat (map (\<lambda>r. csv_line (map casesCSVField r)) rows))"
    using csv_record_read [of r] by (cases r) auto
  then show ?case using Cons by simp
qed simp

definition csv_columns :: "string list" where
  "csv_columns = [''section'', ''type'', ''value'', ''description'', ''source'', ''created_at'']"

lemma plain_fields: "casesCSVField ''ioc'' = ''ioc''" "casesCSVField ''event'' = ''event''" "casesCSVField '''' = ''''"
    "csv_line (map casesCSVField csv_columns) = csv_header"
  by code_simp+

text \<open>The CSV export can be read back: whatever characters the indicators and events of a case contain,
  a reader recovers from the export the column names and exactly the fields of every indicator and
  event, in order.\<close>

theorem ExportCSV_readable:
  assumes "load_case env cid db = Inr (c, iocs, events)"
  shows "\<exists>text. ExportCSV env cid db = Inr text \<and>
    csv_records 6 (Suc (length iocs + length events)) text =
      Some (csv_columns # map ioc_fields iocs @ map event_fields events)"
proof -
  let ?rows = "csv_columns # map ioc_fields iocs @ map event_fields events"
  have "ExportCSV env cid db = Inr (concat (map (\<lambda>r. csv_line (map casesCSVField r)) ?rows))"
    using assms by (simp add: ExportCSV_def plain_fields ioc_fields_def event_fields_def comp_def)
  moreover have "csv_records (Suc 5) (length ?rows) (concat (map (\<lambda>r. csv_line (map casesCSVField r)) ?rows)) = Some ?rows"
    by (rule csv_records_read) (auto simp: csv_columns_def ioc_fields_def event_fields_def list_all_iff)
  ultimately show ?thesis by simp
qed

text \<open>A token of the CEF export holds none of the characters that structure a line.\<close>

lemma cef_char_plain: "cef_char c \<noteq> CHR ''|'' \<and> cef_char c \<noteq> CHR 0x5C \<and> cef_char c \<noteq> CHR ''='' \<and> cef_char c \<noteq> CHR 0x0A \<and> cef_char c \<noteq> CHR 0x0D"
  by (simp add: cef_char_def)

lemma cef_token_plain:
  "set (casesCEFToken s) \<inter> {CHR ''|'', CHR 0x5C, CHR ''='', CHR 0x0A, CHR 0x0D} = {}"
  using cef_char_plain by (fastforce simp: casesCEFToken_def)

section \<open>Concrete cases\<close>

definition sample_case_env :: case_env where
  "sample_case_env = \<lparr>ceFail = (\<lambda>_. None), ceNow = (\<lambda>_. ''2026-01-05T00:00:00Z''),
     ceUUID = (\<lambda>k. ''u'' @ show_nat k), ceSQLNow = ''2026-01-05 00:00:00'', ceTags = (\<lambda>_. []), ceStat = (\<lambda>_. Inr 0)\<rparr>"

definition sample_cases :: case_db where
  "sample_cases =
     \<lparr>cdCases = [new_case ''c1'' ''Phish'' '''' ''high'' ''acme'' ''2026-01-01'',
                 new_case ''c2'' ''Beacon'' '''' ''low'' ''globex'' ''2026-01-02'',
                 new_case ''c3'' ''Worm'' '''' ''high'' ''acme'' ''2026-01-03''],
      cdEvents = [\<lparr>evID = ''e1'', evCaseID = ''c1'', evType = ''note'', evContent = ''a,b'', evSource = ''ui'',
                   evCreatedAt = ''2026-01-01''\<rparr>],
      cdIOCs = [\<lparr>ioID = ''i1'', ioCaseID = ''c1'', ioType = ''ip'', ioValue = ''10.0.0.1'', ioDescription = '''',
                 ioSource = ''manual'', ioCreatedAt = ''2026-01-01''\<rparr>],
      cdEvidence = [], cdLinks = []\<rparr>"

lemma case_tables_wf_witness: "case_db_ok (snd (Transition sample_case_env ''acme'' ''c1'' ''closed'' sample_cases))"
proof -
  have "case_step\<^sup>*\<^sup>* sample_cases (snd (Transition sample_case_env ''acme'' ''c1'' ''closed'' sample_cases))"
    by (intro r_into_rtranclp case_step.StepTransition)
  moreover have "case_db_ok sample_cases" by code_simp
  ultimately show ?thesis by (rule case_tables_wf)
qed

lemma case_tenant_isolation_witness:
  "org_cases ''acme'' (fold (\<lambda>(org, c). scoped_exec org c)
     [(''globex'', DoTransition sample_case_env ''c2'' ''closed''), (''globex'', DoAssign sample_case_env ''c1'' ''eve'')]
     sample_cases) = org_cases ''acme'' sample_cases"
  by (rule case_tenant_isolation) simp_all

lemma ListPage_complete_witness:
  "map_sum id (map csID) (walk_pages sample_case_env ''acme'' '''' ''high'' 1 4 '''' sample_cases) = Inr [''c3'', ''c1'']"
proof -
  have "\<And>k. ceFail sample_case_env k = None" by (simp add: sample_case_env_def)
  moreover have "distinct (map crID (cdCases sample_cases))" "list_all usable (cdCases sample_cases)" by code_simp+
  ultimately have "walk_pages sample_case_env ''acme'' '''' ''high'' 1 (Suc (length (cdCases sample_cases))) '''' sample_cases =
      Inr (map (scan_case sample_case_env) (sort_desc case_key
        (filter (\<lambda>r. crOrg r = ''acme'' \<and> wanted '''' ''high'' r) (cdCases sample_cases))))"
    by (rule ListPage_complete)
  moreover have "Suc (length (cdCases sample_cases)) = 4" by code_simp
  moreover have "map csID (map (scan_case sample_case_env) (sort_desc case_key
        (filter (\<lambda>r. crOrg r = ''acme'' \<and> wanted '''' ''high'' r) (cdCases sample_cases)))) = [''c3'', ''c1'']"
    by code_simp
  ultimately show ?thesis by simp
qed

lemma Allow_rate_witness:
  "spaced (rlMax (NewRateLimiter 2 10)) (rlWindow (NewRateLimiter 2 10))
    (map fst (filter (\<lambda>(_, rule, entity). limit_key rule entity = ''r|h'')
      (fst (admit_run (\<lambda>now (rule, entity). Allow now rule entity)
        [(1, ''r'', ''h''), (2, ''r'', ''h''), (3, ''r'', ''h''), (12, ''r'', ''h'')] (NewRateLimiter 2 10)))))"
  by (rule Allow_rate) simp

lemma ExportCSV_readable_witness:
  "\<exists>text. ExportCSV sample_case_env ''c1'' sample_cases = Inr text \<and>
    csv_records 6 3 text =
      Some [csv_columns, [''ioc'', ''ip'', ''10.0.0.1'', '''', ''manual'', ''2026-01-01''],
            [''event'', ''note'', ''a,b'', '''', ''ui'', ''2026-01-01'']]"
proof -
  have "load_case sample_case_env ''c1'' sample_cases =
      Inr (scan_case sample_case_env (hd (cdCases sample_cases)), cdIOCs sample_cases, cdEvents sample_cases)"
    by code_simp
  note read = ExportCSV_readable [OF this]
  have "Suc (length (cdIOCs sample_cases) + length (cdEvents sample_cases)) = 3"
    "map ioc_fields (cdIOCs sample_cases) = [[''ioc'', ''ip'', ''10.0.0.1'', '''', ''manual'', ''2026-01-01'']]"
    "map event_fields (cdEvents sample_cases) = [[''event'', ''note'', ''a,b'', '''', ''ui'', ''2026-01-01'']]"
    by code_simp+
  with read show ?thesis by simp
qed

end
