(* ===== verification/Server_Auth.thy ===== *)
theory Server_Auth
  imports Go_Any Go_Base64 Sliding_Window Go_Time
begin

text \<open>
  Authentication and authorisation of the central server: roles and permissions
  (\<open>internal/server/permissions.go\<close>), the helpers and the lockout guard of \<open>httpkit.go\<close>, key look-up
  (\<open>AuthenticateOrgFull\<close> and \<open>AuthenticateAgent\<close> of \<open>pb.go\<close>) and the middleware of \<open>auth.go\<close>.

  A request carries what the middleware reads; its context is a record whose absent values are
  empty, as the accessors return them.  A handler is a function from the authenticated
  request to a reply.  SHA-256, \<open>time.Parse\<close>, the clock (\<open>k\<close>-th reading) and failures of the two queries are
  inputs.
\<close>

section \<open>Permissions\<close>

definition rolePermissions :: "(string \<times> string list) list" where
  "rolePermissions =
     [(''admin'', [''case:read'', ''case:write'', ''case:delete'', ''investigation:read'', ''investigation:write'',
         ''agent:read'', ''agent:write'', ''agent:revoke'', ''user:read'', ''user:write'', ''compliance:read'',
         ''admin'', ''audit:read'']),
      (''analyst'', [''case:read'', ''case:write'', ''investigation:read'', ''investigation:write'', ''agent:read'',
         ''compliance:read'']),
      (''viewer'', [''case:read'', ''investigation:read'', ''agent:read'', ''compliance:read'', ''audit:read''])]"

definition HasPermission :: "string \<Rightarrow> string \<Rightarrow> bool" where
  "HasPermission role perm \<longleftrightarrow>
     (case map_of rolePermissions role of None \<Rightarrow> False | Some perms \<Rightarrow> perm \<in> set perms)"

definition validRole :: "string \<Rightarrow> bool" where
  "validRole s \<longleftrightarrow> s \<in> {''admin'', ''analyst'', ''viewer''}"

section \<open>Helpers of the HTTP kit\<close>

text \<open>\<open>strconv.Atoi\<close>: an optional sign and decimal digits that fit 64 bits.\<close>

definition go_Atoi :: "string \<Rightarrow> int option" where
  "go_Atoi s =
     (case s of
        [] \<Rightarrow> None
      | c # t \<Rightarrow>
          (let (neg, ds) = (if c = CHR ''-'' then (True, t) else if c = CHR ''+'' then (False, t) else (False, s)) in
           case parse_dec ds of
             None \<Rightarrow> None
           | Some n \<Rightarrow>
               (let v = (if neg then - int n else int n) in
                if - (2 ^ 63) \<le> v \<and> v < 2 ^ 63 then Some v else None)))"

definition defaultListLimit :: int where "defaultListLimit = 50"

definition maxListLimit :: int where "maxListLimit = 200"

definition parseLimit :: "string \<Rightarrow> int" where
  "parseLimit s =
     (let limit = (if s \<noteq> '''' then (case go_Atoi s of Some n \<Rightarrow> if n > 0 then n else defaultListLimit
                                     | None \<Rightarrow> defaultListLimit)
                   else defaultListLimit) in
      if limit > maxListLimit then maxListLimit else limit)"

definition parseCursor :: "string \<Rightarrow> int" where
  "parseCursor c =
     (if c = '''' then 0
      else (case b64_decode c of
              None \<Rightarrow> 0
            | Some raw \<Rightarrow> (case go_Atoi raw of None \<Rightarrow> 0 | Some n \<Rightarrow> if n < 0 then 0 else n)))"

definition encodeOffset :: "int \<Rightarrow> string" where
  "encodeOffset offset = b64_encode (show_int offset)"

definition shortID :: "string \<Rightarrow> string" where
  "shortID i = (if length i > 8 then take 8 i else i)"

definition maxResourceIDLen :: nat where "maxResourceIDLen = 128"

definition resource_char :: "char \<Rightarrow> bool" where
  "resource_char c \<longleftrightarrow> (let n = (of_char c :: nat) in
     97 \<le> n \<and> n \<le> 122 \<or> 65 \<le> n \<and> n \<le> 90 \<or> 48 \<le> n \<and> n \<le> 57 \<or> c \<in> {CHR ''-'', CHR ''_'', CHR ''.'', CHR '':''})"

text \<open>The loop visits the start of each character only; since every byte that passes is ASCII, the visited
  bytes are all bytes up to the first that is refused.\<close>

definition validResourceID :: "string \<Rightarrow> bool" where
  "validResourceID s \<longleftrightarrow> s \<noteq> '''' \<and> length s \<le> maxResourceIDLen \<and> list_all resource_char s"

definition clampInt :: "int \<Rightarrow> int \<Rightarrow> int \<Rightarrow> int" where
  "clampInt v lo hi = (if v < lo then lo else if v > hi then hi else v)"

section \<open>The lockout guard\<close>

record authGuard =
  gdFailures :: "string \<Rightarrow> int list"
  gdLocked :: "string \<Rightarrow> int option"
  gdMaxFails :: nat
  gdWindow :: int
  gdLockout :: int

definition newAuthGuard :: "nat \<Rightarrow> int \<Rightarrow> int \<Rightarrow> authGuard" where
  "newAuthGuard maxFails window lockout =
     \<lparr>gdFailures = (\<lambda>_. []), gdLocked = (\<lambda>_. None), gdMaxFails = maxFails, gdWindow = window, gdLockout = lockout\<rparr>"

definition blocked :: "int \<Rightarrow> string \<Rightarrow> authGuard \<Rightarrow> bool \<times> authGuard" where
  "blocked now key g =
     (case gdLocked g key of
        None \<Rightarrow> (False, g)
      | Some until \<Rightarrow>
          if now < until then (True, g) else (False, g\<lparr>gdLocked := (gdLocked g)(key := None)\<rparr>))"

definition guard_fail :: "int \<Rightarrow> string \<Rightarrow> authGuard \<Rightarrow> authGuard" where
  "guard_fail now key g =
     (let kept = in_window (now - gdWindow g) (gdFailures g key) @ [now] in
      if length kept \<ge> gdMaxFails g
      then g\<lparr>gdLocked := (gdLocked g)(key \<mapsto> now + gdLockout g), gdFailures := (gdFailures g)(key := [])\<rparr>
      else g\<lparr>gdFailures := (gdFailures g)(key := kept)\<rparr>)"

definition guard_reset :: "string \<Rightarrow> authGuard \<Rightarrow> authGuard" where
  "guard_reset key g = g\<lparr>gdFailures := (gdFailures g)(key := []), gdLocked := (gdLocked g)(key := None)\<rparr>"

section \<open>Key look-up\<close>

record user_row =
  suID :: string
  suEmail :: string
  suRole :: string
  suKeyHash :: string
  suKeyPrefix :: string
  suExpires :: "string option"
  suOrg :: string
  suScope :: string

record agent_info =
  aiHostname :: string
  aiPlatform :: string
  aiArch :: string
  aiVersion :: string
  aiAgentVersion :: string
  aiKernelVersion :: string
  aiMonitors :: string
  aiCPUCount :: int
  aiCPUName :: string
  aiMemoryMB :: int

record agent_row =
  arID :: string
  arInfo :: agent_info
  arStatus :: string
  arIPAddress :: string
  arOrg :: string
  arKeyHash :: "string option"
  arLastHeartbeat :: string
  arLastIP :: string
  arCreatedAt :: string
  arUpdatedAt :: string

record auth_env =
  aeHash :: "string \<Rightarrow> string"
  aeParse :: "string \<Rightarrow> int option"
  aeNow :: "nat \<Rightarrow> int"
  aeUserErr :: bool
  aeAgentErr :: bool
  aeUsers :: "user_row list"
  aeAgents :: "agent_row list"

definition key_expired :: "auth_env \<Rightarrow> user_row \<Rightarrow> bool" where
  "key_expired env u \<longleftrightarrow>
     (case suExpires u of
        None \<Rightarrow> False
      | Some s \<Rightarrow> s \<noteq> '''' \<and> (case aeParse env s of None \<Rightarrow> False | Some t \<Rightarrow> aeNow env 2 > t))"

definition user_role :: "user_row \<Rightarrow> string" where
  "user_role u = (if suRole u = '''' then ''viewer'' else suRole u)"

definition AuthenticateOrgFull :: "auth_env \<Rightarrow> string \<Rightarrow> (string \<times> string \<times> string \<times> string) result" where
  "AuthenticateOrgFull env apiKey =
     (if apiKey = '''' \<or> length apiKey > 512 then Inl ''invalid api key''
      else case (if aeUserErr env then None else find (\<lambda>u. suKeyHash u = aeHash env apiKey) (aeUsers env)) of
        None \<Rightarrow> Inl ''invalid api key''
      | Some u \<Rightarrow>
          if key_expired env u then Inl ''api key expired''
          else if \<not> validRole (user_role u) then Inl ''invalid api key''
          else Inr (suID u, user_role u, suOrg u, suScope u))"

definition AuthenticateAgent :: "auth_env \<Rightarrow> string \<Rightarrow> (string \<times> string) result" where
  "AuthenticateAgent env apiKey =
     (if apiKey = '''' \<or> length apiKey > 512 then Inl ''invalid agent key''
      else case (if aeAgentErr env then None
                 else find (\<lambda>a. arKeyHash a = Some (aeHash env apiKey) \<and> arStatus a = ''active'') (aeAgents env)) of
        None \<Rightarrow> Inl ''invalid agent key''
      | Some a \<Rightarrow> Inr (arID a, arOrg a))"

section \<open>Requests\<close>

record http_ctx =
  cxRole :: string
  cxUserID :: string
  cxOrg :: string
  cxAgentID :: string
  cxScope :: string

record request =
  rqMethod :: string
  rqRemoteAddr :: string
  rqQueryKey :: string
  rqAuthorization :: string
  rqCtx :: http_ctx

text \<open>\<open>net.SplitHostPort\<close>: the host before the last colon, in brackets if it has colons itself.\<close>

definition index_of :: "char \<Rightarrow> string \<Rightarrow> nat option" where
  "index_of c s = (if c \<in> set s then Some (length (takeWhile (\<lambda>x. x \<noteq> c) s)) else None)"

definition SplitHost :: "string \<Rightarrow> string option" where
  "SplitHost hostport =
     (case LastIndexByte hostport CHR '':'' of
        None \<Rightarrow> None
      | Some i \<Rightarrow>
          if hd hostport = CHR ''['' then
            (case index_of CHR '']'' hostport of
               None \<Rightarrow> None
             | Some e \<Rightarrow>
                 if e + 1 \<noteq> i then None
                 else if CHR ''['' \<in> set (drop 1 hostport) \<or> CHR '']'' \<in> set (drop (e + 1) hostport) then None
                 else Some (take (e - 1) (drop 1 hostport)))
          else if CHR '':'' \<in> set (take i hostport) then None
          else if CHR ''['' \<in> set hostport \<or> CHR '']'' \<in> set hostport then None
          else Some (take i hostport))"

definition clientIP :: "request \<Rightarrow> string" where
  "clientIP r =
     (case SplitHost (rqRemoteAddr r) of
        None \<Rightarrow> rqRemoteAddr r
      | Some host \<Rightarrow> if host = '''' then rqRemoteAddr r else host)"

definition bearerToken :: "request \<Rightarrow> string option" where
  "bearerToken r =
     (if rqQueryKey r \<noteq> '''' then None
      else if \<not> HasPrefix (rqAuthorization r) ''Bearer '' then None
      else let tok = TrimSpace (TrimPrefix (rqAuthorization r) ''Bearer '') in
           if tok = '''' \<or> length tok > 512 then None else Some tok)"

section \<open>The middleware\<close>

record auth_state =
  asGuard :: authGuard
  asFailures :: "string \<Rightarrow> nat"
  asSink :: bool
  asAudit :: "(string \<times> string) list"

definition incAuthFailure :: "string \<Rightarrow> auth_state \<Rightarrow> auth_state" where
  "incAuthFailure reason st = st\<lparr>asFailures := (asFailures st)(reason := asFailures st reason + 1)\<rparr>"

definition on_guard :: "(authGuard \<Rightarrow> authGuard) \<Rightarrow> auth_state \<Rightarrow> auth_state" where
  "on_guard f st = st\<lparr>asGuard := f (asGuard st)\<rparr>"

definition audit_note :: "string \<Rightarrow> string \<Rightarrow> auth_state \<Rightarrow> auth_state" where
  "audit_note action resource st = (if asSink st then st\<lparr>asAudit := asAudit st @ [(action, resource)]\<rparr> else st)"

definition check_blocked :: "int \<Rightarrow> string \<Rightarrow> auth_state \<Rightarrow> bool \<times> auth_state" where
  "check_blocked now key st = (let (b, g) = blocked now key (asGuard st) in (b, st\<lparr>asGuard := g\<rparr>))"

definition key_fingerprint :: "auth_env \<Rightarrow> string \<Rightarrow> string" where
  "key_fingerprint env tok = (let fp = aeHash env tok in if length fp > 16 then take 16 fp else fp)"

text \<open>The context of an authenticated user or agent; without an organisation of its own the key keeps the one
  of the context.\<close>

definition with_user :: "string \<Rightarrow> string \<Rightarrow> string \<Rightarrow> string \<Rightarrow> request \<Rightarrow> request" where
  "with_user userID role orgID scope r =
     r\<lparr>rqCtx := (rqCtx r)\<lparr>cxRole := role, cxUserID := userID, cxScope := scope,
         cxOrg := (if orgID \<noteq> '''' then orgID else cxOrg (rqCtx r))\<rparr>\<rparr>"

definition with_agent :: "string \<Rightarrow> string \<Rightarrow> request \<Rightarrow> request" where
  "with_agent agentID orgID r =
     r\<lparr>rqCtx := (rqCtx r)\<lparr>cxAgentID := agentID, cxOrg := (if orgID \<noteq> '''' then orgID else cxOrg (rqCtx r))\<rparr>\<rparr>"

definition user_failed :: "auth_env \<Rightarrow> string \<Rightarrow> string \<Rightarrow> request \<Rightarrow> auth_state \<Rightarrow> auth_state" where
  "user_failed env ipKey fpKey r st =
     audit_note ''auth.failed'' (clientIP r) (incAuthFailure ''invalid_key''
       (on_guard (guard_fail (aeNow env 4) fpKey) (on_guard (guard_fail (aeNow env 3) ipKey) st)))"

text \<open>The second look at the guard is not taken when the first one blocks.\<close>

definition authenticateUser :: "auth_env \<Rightarrow> request \<Rightarrow> auth_state \<Rightarrow> request option \<times> auth_state" where
  "authenticateUser env r st =
     (case bearerToken r of
        None \<Rightarrow> (None, incAuthFailure ''missing_token'' st)
      | Some tok \<Rightarrow>
          (let ipKey = ''ip:'' @ clientIP r; fpKey = ''key:'' @ key_fingerprint env tok;
               (b1, st1) = check_blocked (aeNow env 0) ipKey st;
               (b2, st2) = (if b1 then (True, st1) else check_blocked (aeNow env 1) fpKey st1) in
           if b2 then (None, incAuthFailure ''locked_out'' st2)
           else (case AuthenticateOrgFull env tok of
                   Inl _ \<Rightarrow> (None, user_failed env ipKey fpKey r st2)
                 | Inr (userID, role, orgID, scope) \<Rightarrow>
                     if userID = '''' then (None, user_failed env ipKey fpKey r st2)
                     else (Some (with_user userID role orgID scope r), on_guard (guard_reset ipKey) st2))))"

definition agent_failed :: "auth_env \<Rightarrow> string \<Rightarrow> auth_state \<Rightarrow> auth_state" where
  "agent_failed env ipKey st =
     incAuthFailure ''invalid_agent_key'' (on_guard (guard_fail (aeNow env 3) ipKey) st)"

definition authenticateAgent :: "auth_env \<Rightarrow> request \<Rightarrow> auth_state \<Rightarrow> request option \<times> auth_state" where
  "authenticateAgent env r st =
     (case bearerToken r of
        None \<Rightarrow> (None, incAuthFailure ''missing_token'' st)
      | Some tok \<Rightarrow>
          (let ipKey = ''ip:'' @ clientIP r; (b, st1) = check_blocked (aeNow env 0) ipKey st in
           if b then (None, incAuthFailure ''locked_out'' st1)
           else (case AuthenticateAgent env tok of
                   Inl _ \<Rightarrow> (None, agent_failed env ipKey st1)
                 | Inr (agentID, orgID) \<Rightarrow>
                     if agentID = '''' then (None, agent_failed env ipKey st1)
                     else (Some (with_agent agentID orgID r), on_guard (guard_reset ipKey) st1))))"

datatype 'a reply = APIError nat string | Served 'a

definition safe_method :: "string \<Rightarrow> bool" where
  "safe_method m \<longleftrightarrow> m = ''GET'' \<or> m = ''HEAD'' \<or> m = ''OPTIONS''"

definition rejectQueryKey :: "request \<Rightarrow> auth_state \<Rightarrow> 'a reply option \<times> auth_state" where
  "rejectQueryKey r st =
     (if rqQueryKey r \<noteq> ''''
      then (Some (APIError 401 ''unauthorized - send key via Authorization: Bearer header, not URL''),
            incAuthFailure ''key_in_url'' st)
      else (None, st))"

definition UserAuth :: "auth_env \<Rightarrow> (request \<Rightarrow> 'a reply) \<Rightarrow> request \<Rightarrow> auth_state \<Rightarrow> 'a reply \<times> auth_state" where
  "UserAuth env handler r st =
     (case rejectQueryKey r st of
        (Some rep, st1) \<Rightarrow> (rep, st1)
      | (None, st1) \<Rightarrow>
          (case authenticateUser env r st1 of
             (None, st2) \<Rightarrow> (APIError 401 ''unauthorized - provide Authorization: Bearer <key>'', st2)
           | (Some nr, st2) \<Rightarrow>
               if cxScope (rqCtx nr) = ''read-only'' \<and> \<not> safe_method (rqMethod nr)
               then (APIError 403 ''read-only scope: write method denied'', st2)
               else (handler nr, st2)))"

definition AgentAuth :: "auth_env \<Rightarrow> (request \<Rightarrow> 'a reply) \<Rightarrow> request \<Rightarrow> auth_state \<Rightarrow> 'a reply \<times> auth_state" where
  "AgentAuth env handler r st =
     (case rejectQueryKey r st of
        (Some rep, st1) \<Rightarrow> (rep, st1)
      | (None, st1) \<Rightarrow>
          (case authenticateAgent env r st1 of
             (None, st2) \<Rightarrow> (APIError 401 ''unauthorized - provide Authorization: Bearer <agent-key>'', st2)
           | (Some nr, st2) \<Rightarrow> (handler nr, st2)))"

text \<open>The second attempt, as a user, reads the clock after the first.\<close>

definition after_agent :: "auth_env \<Rightarrow> auth_env" where
  "after_agent env = env\<lparr>aeNow := \<lambda>k. aeNow env (k + 5)\<rparr>"

definition FleetOrUser ::
  "auth_env \<Rightarrow> string \<Rightarrow> (request \<Rightarrow> 'a reply) \<Rightarrow> request \<Rightarrow> auth_state \<Rightarrow> 'a reply \<times> auth_state" where
  "FleetOrUser env userPerm handler r st =
     (case rejectQueryKey r st of
        (Some rep, st1) \<Rightarrow> (rep, st1)
      | (None, st1) \<Rightarrow>
          (case authenticateAgent env r st1 of
             (Some nr, st2) \<Rightarrow> (handler nr, st2)
           | (None, st2) \<Rightarrow>
               (case authenticateUser (after_agent env) r st2 of
                  (None, st3) \<Rightarrow> (APIError 401 ''unauthorized - provide Authorization: Bearer <agent-key or user-key>'', st3)
                | (Some nr, st3) \<Rightarrow>
                    if userPerm \<noteq> '''' \<and> \<not> HasPermission (cxRole (rqCtx nr)) userPerm
                    then (APIError 403 ''insufficient permissions'', st3)
                    else if userPerm \<noteq> '''' \<and> cxScope (rqCtx nr) = ''read-only'' \<and> \<not> safe_method (rqMethod r)
                    then (APIError 403 ''read-only scope: write method denied'', st3)
                    else (handler nr, st3))))"

definition RequirePerm ::
  "auth_env \<Rightarrow> string \<Rightarrow> (request \<Rightarrow> 'a reply) \<Rightarrow> request \<Rightarrow> auth_state \<Rightarrow> 'a reply \<times> auth_state" where
  "RequirePerm env perm handler =
     UserAuth env (\<lambda>r. if \<not> HasPermission (cxRole (rqCtx r)) perm
                       then APIError 403 ''insufficient permissions'' else handler r)"

section \<open>Cursors\<close>

lemma go_Atoi_show:
  assumes "0 \<le> n" "n < 2 ^ 63"
  shows "go_Atoi (show_int n) = Some n"
proof -
  obtain c t where s: "show_nat (nat n) = c # t" by (cases "show_nat (nat n)") auto
  have "is_digit c" using show_nat_props [of "nat n"] s by simp
  then have "c \<noteq> CHR ''-''" "c \<noteq> CHR ''+''" by (auto simp: is_digit_def)
  then show ?thesis using assms s parse_show_nat [of "nat n"] by (simp add: go_Atoi_def show_int_def)
qed

text \<open>The cursors of the server's lists are offsets and come back as they were.\<close>

lemma offset_roundtrip: "0 \<le> n \<Longrightarrow> n < 2 ^ 63 \<Longrightarrow> parseCursor (encodeOffset n) = n"
  using go_Atoi_show [of n] by (auto simp: parseCursor_def encodeOffset_def b64_roundtrip show_int_def)

section \<open>Who reaches a handler\<close>

lemma AuthenticateOrgFull_Inr:
  assumes "AuthenticateOrgFull env tok = Inr (userID, role, orgID, scope)"
  shows "\<exists>u\<in>set (aeUsers env). suKeyHash u = aeHash env tok \<and> \<not> key_expired env u \<and> validRole (user_role u) \<and>
    userID = suID u \<and> role = user_role u \<and> orgID = suOrg u \<and> scope = suScope u"
  using assms by (auto simp: AuthenticateOrgFull_def find_Some_iff split: if_splits option.splits)

lemma authenticateUser_Some:
  assumes "authenticateUser env r st = (Some nr, st')"
  shows "\<exists>tok. bearerToken r = Some tok \<and> \<not> fst (blocked (aeNow env 0) (''ip:'' @ clientIP r) (asGuard st)) \<and>
    (\<exists>u\<in>set (aeUsers env). suKeyHash u = aeHash env tok \<and> \<not> key_expired env u \<and> validRole (user_role u) \<and>
       nr = with_user (suID u) (user_role u) (suOrg u) (suScope u) r)"
proof (cases "bearerToken r")
  case None then show ?thesis using assms by (simp add: authenticateUser_def)
next
  case (Some tok)
  let ?ip = "''ip:'' @ clientIP r"
  have nb: "\<not> fst (blocked (aeNow env 0) ?ip (asGuard st))"
    using assms Some by (auto simp: authenticateUser_def check_blocked_def Let_def split: prod.splits if_splits)
  obtain userID role orgID scope where a: "AuthenticateOrgFull env tok = Inr (userID, role, orgID, scope)"
    "nr = with_user userID role orgID scope r"
    using assms Some by (auto simp: authenticateUser_def Let_def split: prod.splits if_splits sum.splits)
  show ?thesis using AuthenticateOrgFull_Inr [OF a(1)] a(2) nb Some by auto
qed

lemma with_user_simps [simp]:
  "cxRole (rqCtx (with_user i role org sc r)) = role" "cxScope (rqCtx (with_user i role org sc r)) = sc"
  "rqMethod (with_user i role org sc r) = rqMethod r"
  "cxOrg (rqCtx (with_user i role org sc r)) = (if org \<noteq> '''' then org else cxOrg (rqCtx r))"
  by (simp_all add: with_user_def)

text \<open>C8. Only authorised requests reach a protected handler.  When a route that requires a permission
  serves a request, the request carried a bearer token whose hash is that of a stored user key that has not
  expired, the address was not locked out, the user's role has the permission, a read-only key came with a
  safe method, and the handler ran with that user's identity and organisation.\<close>

theorem RequirePerm_sound:
  assumes "RequirePerm env perm handler r st = (Served x, st')"
  shows "\<exists>tok. bearerToken r = Some tok \<and> \<not> fst (blocked (aeNow env 0) (''ip:'' @ clientIP r) (asGuard st)) \<and>
    (\<exists>u\<in>set (aeUsers env). suKeyHash u = aeHash env tok \<and> \<not> key_expired env u \<and>
       HasPermission (user_role u) perm \<and> (suScope u \<noteq> ''read-only'' \<or> safe_method (rqMethod r)) \<and>
       handler (with_user (suID u) (user_role u) (suOrg u) (suScope u) r) = Served x)"
proof -
  from assms obtain nr st1 where q: "rqQueryKey r = ''''" and a: "authenticateUser env r st = (Some nr, st1)"
    and p: "HasPermission (cxRole (rqCtx nr)) perm" "handler nr = Served x"
    and sc: "\<not> (cxScope (rqCtx nr) = ''read-only'' \<and> \<not> safe_method (rqMethod nr))"
    by (auto simp: RequirePerm_def UserAuth_def rejectQueryKey_def split: if_splits prod.splits option.splits)
  from authenticateUser_Some [OF a] p sc show ?thesis by fastforce
qed

section \<open>The lockout bounds guessing\<close>

text \<open>One attempt from an address, or with a key, that turns out to be wrong: whether it reached the
  comparison of keys, and the guard afterwards.\<close>

definition wrong_attempt :: "int \<Rightarrow> string \<Rightarrow> authGuard \<Rightarrow> bool \<times> authGuard" where
  "wrong_attempt now key g =
     (case blocked now key g of (b, g1) \<Rightarrow> if b then (False, g1) else (True, guard_fail now key g1))"

text \<open>What the guard knows of the attempts \<open>past\<close> it let through for a key: the last lock covers the first
  \<open>j\<close> of them, the rest is counted.\<close>

definition guard_knows :: "string \<Rightarrow> int list \<Rightarrow> int \<Rightarrow> authGuard \<Rightarrow> bool" where
  "guard_knows key past now g \<longleftrightarrow> sorted past \<and> (\<forall>t\<in>set past. t \<le> now) \<and> length (gdFailures g key) < gdMaxFails g \<and>
     (\<exists>j\<le>length past.
        (\<forall>n\<ge>now. in_window (n - gdWindow g) (gdFailures g key) = in_window (n - gdWindow g) (drop j past)) \<and>
        (\<forall>t\<in>set (take j past). t + gdLockout g \<le> (case gdLocked g key of None \<Rightarrow> now | Some u \<Rightarrow> u)))"

lemma wrong_attempt_config [simp]:
  "gdMaxFails (snd (wrong_attempt now key g)) = gdMaxFails g" "gdWindow (snd (wrong_attempt now key g)) = gdWindow g"
  "gdLockout (snd (wrong_attempt now key g)) = gdLockout g"
  by (auto simp: wrong_attempt_def blocked_def guard_fail_def Let_def split: option.split)

lemma wrong_attempt_through:
  "fst (wrong_attempt now key g) \<longleftrightarrow> (case gdLocked g key of None \<Rightarrow> True | Some u \<Rightarrow> u \<le> now)"
  by (auto simp: wrong_attempt_def blocked_def split: option.split)

lemma through_spaced:
  assumes "guard_knows key past recent g" "recent \<le> now" "fst (wrong_attempt now key g)"
    and "length past = i + gdMaxFails g"
  shows "now - past ! i \<ge> min (gdWindow g) (gdLockout g)"
proof -
  obtain j where j: "j \<le> length past"
    and win: "in_window (now - gdWindow g) (gdFailures g key) = in_window (now - gdWindow g) (drop j past)"
    and lock: "\<forall>t\<in>set (take j past). t + gdLockout g \<le> (case gdLocked g key of None \<Rightarrow> recent | Some u \<Rightarrow> u)"
    and few: "length (gdFailures g key) < gdMaxFails g" and srt: "sorted past"
    using assms(1,2) by (auto simp: guard_knows_def)
  show ?thesis
  proof (cases "i < j")
    case True
    then have "past ! i \<in> set (take j past)" using j by (metis in_set_conv_nth length_take min.absorb2 nth_take)
    then have "past ! i + gdLockout g \<le> now"
      using lock assms(2,3) by (auto simp: wrong_attempt_through split: option.splits)
    then show ?thesis by simp
  next
    case False
    have "length (in_window (now - gdWindow g) (drop j past)) < gdMaxFails g"
      unfolding win [symmetric] unfolding in_window_def by (rule le_less_trans [OF length_filter_le few])
    moreover have "gdMaxFails g \<le> length (drop j past)" using False assms(4) by simp
    ultimately have "drop j past ! (length (drop j past) - gdMaxFails g) \<le> now - gdWindow g"
      using srt by (intro outside_window) (auto simp: sorted_wrt_drop)
    moreover have "length (drop j past) - gdMaxFails g = i - j" using False assms(4) by simp
    ultimately show ?thesis using False j assms(4) by simp
  qed
qed

lemma guard_knows_fail:
  assumes "guard_knows key past recent g" "recent \<le> now" "gdLocked g key = None" "0 < gdMaxFails g"
  shows "guard_knows key (past @ [now]) now (guard_fail now key g)"
proof -
  obtain j where j: "j \<le> length past"
    and win: "\<And>n. n \<ge> recent \<Longrightarrow> in_window (n - gdWindow g) (gdFailures g key) = in_window (n - gdWindow g) (drop j past)"
    and lock: "\<forall>t\<in>set (take j past). t + gdLockout g \<le> recent" and past: "sorted past" "\<forall>t\<in>set past. t \<le> recent"
    using assms(1,3) by (auto simp: guard_knows_def)
  have srt: "sorted (past @ [now])" "\<forall>t\<in>set (past @ [now]). t \<le> now"
    using past assms(2) by (auto simp: sorted_append intro: order_trans)
  let ?kept = "in_window (now - gdWindow g) (gdFailures g key) @ [now]"
  show ?thesis
  proof (cases "length ?kept \<ge> gdMaxFails g")
    case True
    have "\<forall>t\<in>set (past @ [now]). t + gdLockout g \<le> now + gdLockout g" using srt(2) by simp
    then show ?thesis
      unfolding guard_knows_def using True srt assms(4)
      by (auto simp: guard_fail_def Let_def in_window_def intro!: exI [of _ "Suc (length past)"])
  next
    case False
    have "in_window (n - gdWindow g) ?kept = in_window (n - gdWindow g) (drop j (past @ [now]))" if "n \<ge> now" for n
      using that win [of n] assms(2) j by (simp add: in_window_append in_window_later)
    moreover have "\<forall>t\<in>set (take j (past @ [now])). t + gdLockout g \<le> now" using lock j assms(2) by auto
    ultimately show ?thesis
      unfolding guard_knows_def using False srt j assms(3)
      by (auto simp: guard_fail_def Let_def intro!: exI [of _ j])
  qed
qed

lemma guard_knows_unlock:
  assumes "guard_knows key past recent g" "recent \<le> now" "case gdLocked g key of None \<Rightarrow> True | Some u \<Rightarrow> u \<le> now"
  shows "guard_knows key past now (g\<lparr>gdLocked := (gdLocked g)(key := None)\<rparr>)"
  using assms unfolding guard_knows_def by (fastforce split: option.splits)

lemma guard_knows_later:
  assumes "guard_knows key past recent g" "recent \<le> now" "gdLocked g key \<noteq> None"
  shows "guard_knows key past now g"
  using assms unfolding guard_knows_def by (fastforce split: option.splits)

lemma guard_knows_attempt:
  assumes "guard_knows key past recent g" "recent \<le> now" "0 < gdMaxFails g"
  shows "guard_knows key (past @ (if fst (wrong_attempt now key g) then [now] else [])) now (snd (wrong_attempt now key g))"
proof (cases "fst (wrong_attempt now key g)")
  case False
  then have "snd (wrong_attempt now key g) = g" "gdLocked g key \<noteq> None"
    by (auto simp: wrong_attempt_def blocked_def split: option.splits if_splits)
  then show ?thesis using False guard_knows_later [OF assms(1,2)] by simp
next
  case True
  let ?g = "g\<lparr>gdLocked := (gdLocked g)(key := None)\<rparr>"
  have "snd (blocked now key g) = ?g"
    using True by (auto simp: wrong_attempt_def blocked_def fun_upd_idem split: option.splits if_splits prod.splits)
  then have "snd (wrong_attempt now key g) = guard_fail now key ?g"
    using True by (auto simp: wrong_attempt_def split: prod.splits if_splits)
  moreover have "guard_knows key past now ?g"
    using guard_knows_unlock [OF assms(1,2)] True by (simp add: wrong_attempt_through)
  ultimately show ?thesis using True guard_knows_fail [of key past now ?g now] assms(3) by simp
qed

lemma wrong_run_spaced:
  assumes "guard_knows key past recent g" "0 < gdMaxFails g" "sorted (map fst calls)" "\<forall>c\<in>set calls. recent \<le> fst c \<and> snd c = key"
    and "spaced (gdMaxFails g) (min (gdWindow g) (gdLockout g)) past"
  shows "spaced (gdMaxFails g) (min (gdWindow g) (gdLockout g)) (past @ map fst (fst (admit_run wrong_attempt calls g)))"
  using assms
proof (induction calls arbitrary: past recent g)
  case Nil then show ?case by simp
next
  case (Cons c calls)
  obtain now where c: "c = (now, key)" "recent \<le> now" using Cons.prems(4) by (cases c) auto
  let ?g = "snd (wrong_attempt now key g)" and ?new = "if fst (wrong_attempt now key g) then [now] else []"
  let ?m = "gdMaxFails g" and ?w = "min (gdWindow g) (gdLockout g)"
  have "spaced ?m ?w (past @ ?new)"
  proof (cases "fst (wrong_attempt now key g)")
    case True
    have "?w \<le> (past @ [now]) ! (i + ?m) - (past @ [now]) ! i" if "i + ?m < length (past @ [now])" for i
    proof (cases "i + ?m < length past")
      case True then show ?thesis using Cons.prems(5) by (simp add: spaced_def nth_append)
    next
      case False
      then have "length past = i + ?m" using that by simp
      moreover from this Cons.prems(2) have "i < length past" by simp
      ultimately show ?thesis using through_spaced [OF Cons.prems(1) c(2) True] by (simp add: nth_append)
    qed
    then show ?thesis using True by (simp add: spaced_def)
  qed (use Cons.prems(5) in simp)
  moreover have "guard_knows key (past @ ?new) now ?g" using guard_knows_attempt [OF Cons.prems(1) c(2) Cons.prems(2)] .
  ultimately have "spaced ?m ?w ((past @ ?new) @ map fst (fst (admit_run wrong_attempt calls ?g)))"
    using Cons.IH [of "past @ ?new" now ?g] Cons.prems c by fastforce
  then show ?case by (cases "fst (wrong_attempt now key g)") (simp_all add: c Let_def case_prod_beta)
qed


section \<open>A route for agents and users counts a user's key as a failure\<close>

text \<open>On a route that takes agent or user keys the key is first tried as an agent's, and that failure is
  counted.  When one more failure locks the address, a valid user key is refused there.\<close>

lemma agent_try_locks:
  assumes "bearerToken r = Some tok" "AuthenticateAgent env tok = Inl e"
    and "gdLocked (asGuard st) (''ip:'' @ clientIP r) = None"
    and "Suc (length (in_window (aeNow env 3 - gdWindow (asGuard st)) (gdFailures (asGuard st) (''ip:'' @ clientIP r)))) \<ge>
      gdMaxFails (asGuard st)"
  shows "\<exists>st1. authenticateAgent env r st = (None, st1) \<and>
    gdLocked (asGuard st1) (''ip:'' @ clientIP r) = Some (aeNow env 3 + gdLockout (asGuard st))"
  using assms
  by (simp add: authenticateAgent_def check_blocked_def blocked_def agent_failed_def incAuthFailure_def on_guard_def guard_fail_def Let_def)

lemma locked_user_refused:
  assumes "gdLocked (asGuard st) (''ip:'' @ clientIP r) = Some u" "aeNow env 0 < u"
  shows "fst (authenticateUser env r st) = None"
  using assms by (auto simp: authenticateUser_def check_blocked_def blocked_def Let_def split: option.split)

theorem fleet_route_locks_user:
  assumes "bearerToken r = Some tok" "AuthenticateAgent env tok = Inl e"
    and "gdLocked (asGuard st) (''ip:'' @ clientIP r) = None"
    and "Suc (length (in_window (aeNow env 3 - gdWindow (asGuard st)) (gdFailures (asGuard st) (''ip:'' @ clientIP r)))) \<ge>
      gdMaxFails (asGuard st)"
    and "aeNow env 5 < aeNow env 3 + gdLockout (asGuard st)"
  shows "\<exists>msg. fst (FleetOrUser env perm handler r st) = APIError 401 msg"
proof -
  obtain st1 where a: "authenticateAgent env r st = (None, st1)"
    "gdLocked (asGuard st1) (''ip:'' @ clientIP r) = Some (aeNow env 3 + gdLockout (asGuard st))"
    using agent_try_locks [OF assms(1-4)] by blast
  have "fst (authenticateUser (after_agent env) r st1) = None"
    by (rule locked_user_refused [OF a(2)]) (use assms(5) in \<open>simp add: after_agent_def\<close>)
  moreover have "rqQueryKey r = ''''" using assms(1) by (auto simp: bearerToken_def split: if_splits)
  ultimately show ?thesis using a(1) by (auto simp: FleetOrUser_def rejectQueryKey_def split: prod.splits)
qed

section \<open>Concrete requests\<close>

definition sample_user :: user_row where
  "sample_user = \<lparr>suID = ''u1'', suEmail = ''a@b'', suRole = ''analyst'', suKeyHash = ''h:k1'', suKeyPrefix = ''k1'',
     suExpires = None, suOrg = ''acme'', suScope = ''full''\<rparr>"

definition sample_auth_env :: auth_env where
  "sample_auth_env = \<lparr>aeHash = (\<lambda>k. ''h:'' @ k), aeParse = (\<lambda>_. None), aeNow = (\<lambda>k. 1000 + int k), aeUserErr = False,
     aeAgentErr = False, aeUsers = [sample_user], aeAgents = []\<rparr>"

definition sample_request :: request where
  "sample_request = \<lparr>rqMethod = ''POST'', rqRemoteAddr = ''10.0.0.9:4711'', rqQueryKey = '''', rqAuthorization = ''Bearer k1'',
     rqCtx = \<lparr>cxRole = '''', cxUserID = '''', cxOrg = '''', cxAgentID = '''', cxScope = ''''\<rparr>\<rparr>"

definition sample_auth_state :: auth_state where
  "sample_auth_state = \<lparr>asGuard = newAuthGuard 10 (5 * Minute) (10 * Minute), asFailures = (\<lambda>_. 0), asSink = True, asAudit = []\<rparr>"

lemma RequirePerm_sound_witness:
  "\<exists>tok. bearerToken sample_request = Some tok \<and>
    \<not> fst (blocked (aeNow sample_auth_env 0) (''ip:'' @ clientIP sample_request) (asGuard sample_auth_state)) \<and>
    (\<exists>u\<in>set (aeUsers sample_auth_env). suKeyHash u = aeHash sample_auth_env tok \<and> \<not> key_expired sample_auth_env u \<and>
       HasPermission (user_role u) ''case:write'' \<and> (suScope u \<noteq> ''read-only'' \<or> safe_method (rqMethod sample_request)) \<and>
       (\<lambda>r. Served (cxOrg (rqCtx r))) (with_user (suID u) (user_role u) (suOrg u) (suScope u) sample_request) = Served ''acme'')"
proof -
  have "fst (RequirePerm sample_auth_env ''case:write'' (\<lambda>r. Served (cxOrg (rqCtx r))) sample_request sample_auth_state) = Served ''acme''"
    by code_simp
  then obtain st' where
    "RequirePerm sample_auth_env ''case:write'' (\<lambda>r. Served (cxOrg (rqCtx r))) sample_request sample_auth_state = (Served ''acme'', st')"
    by (metis prod.collapse)
  then show ?thesis by (rule RequirePerm_sound)
qed


end
