(* ===== verification/Server_Fleet.thy ===== *)
theory Server_Fleet
  imports Server_Auth
begin

text \<open>
  Enrolment and the fleet protocol of the central server: provision tokens, agent rows and idempotency keys
  (\<open>internal/server/enroll.go\<close>), and the handlers for registration, heartbeats, dispatched actions and
  their results (\<open>internal/server/edr.go\<close>).

  The tables are lists of rows.  A request body is the decoded value, or nothing when it does not decode.  The
  clock as text, random keys, identifiers, SHA-256, JSON encoding and failures of the statements (the \<open>k\<close>-th of
  a call) are inputs.
\<close>

section \<open>Tables\<close>

record token_row =
  ptHash :: string
  ptPrefix :: string
  ptOrg :: string
  ptLabel :: string
  ptCreatedAt :: string
  ptExpiresAt :: string
  ptUsedAt :: "string option"
  ptUsedBy :: string

record idem_row =
  ikKey :: string
  ikActor :: string
  ikStatus :: nat
  ikBody :: string
  ikReqHash :: string

record action_row =
  acID :: string
  acAgentID :: string
  acType :: string
  acTarget :: string
  acParams :: string
  acStatus :: string
  acResult :: "string option"
  acError :: "string option"
  acCreatedAt :: string
  acCompletedAt :: "string option"
  acTimeout :: int
  acOrg :: string

record server_state =
  ssTokens :: "token_row list"
  ssAgents :: "agent_row list"
  ssIdem :: "idem_row list"
  ssActions :: "action_row list"
  ssFailures :: "string \<Rightarrow> nat"
  ssCounters :: "string \<Rightarrow> nat"
  ssSink :: bool
  ssAudit :: "(string \<times> string \<times> string \<times> string \<times> string) list"

record server_env =
  svHash :: "string \<Rightarrow> string"
  svNow :: string
  svAfter :: "int \<Rightarrow> string"
  svRandom :: "string result"
  svUUID :: "string result"
  svFail :: "nat \<Rightarrow> string option"
  svEncode :: "obj \<Rightarrow> string"
  svValidUUID :: "string \<Rightarrow> bool"
  svWhole :: "string \<Rightarrow> int option"
  svRequestID :: string

text \<open>The body of a successful answer.\<close>

definition envelope :: "server_env \<Rightarrow> obj \<Rightarrow> obj" where
  "envelope env d = [(''data'', VMap d), (''code'', VInt 200)] @
     (if svRequestID env = [] then [] else [(''request_id'', VStr (svRequestID env))])"

definition count_failure :: "string \<Rightarrow> server_state \<Rightarrow> server_state" where
  "count_failure reason s = s\<lparr>ssFailures := (ssFailures s)(reason := ssFailures s reason + 1)\<rparr>"

definition count_up :: "string \<Rightarrow> server_state \<Rightarrow> server_state" where
  "count_up name s = s\<lparr>ssCounters := (ssCounters s)(name := ssCounters s name + 1)\<rparr>"

definition auditWrite :: "string \<Rightarrow> string \<Rightarrow> string \<Rightarrow> string \<Rightarrow> string \<Rightarrow> server_state \<Rightarrow> server_state" where
  "auditWrite actor action rtype rid details s =
     (if ssSink s then s\<lparr>ssAudit := ssAudit s @ [(actor, action, rtype, rid, details)]\<rparr> else s)"

section \<open>Provision tokens\<close>

definition provisionTokenLifetime :: int where "provisionTokenLifetime = 24 * Hour"

definition token_ttl :: "int \<Rightarrow> int" where
  "token_ttl ttl =
     (let t = (if ttl \<le> 0 then provisionTokenLifetime else ttl) in if t > 7 * 24 * Hour then 7 * 24 * Hour else t)"

definition MintProvisionToken :: "server_env \<Rightarrow> string \<Rightarrow> string \<Rightarrow> int \<Rightarrow> server_state \<Rightarrow> string result \<times> server_state" where
  "MintProvisionToken env orgID label ttl s =
     (if orgID = '''' then (Inl ''mint provision token: org required'', s)
      else case svRandom env of
        Inl e \<Rightarrow> (Inl (''mint provision token: '' @ e), s)
      | Inr tok \<Rightarrow>
     (case svFail env 0 of
        Some e \<Rightarrow> (Inl (''mint provision token: '' @ e), s)
      | None \<Rightarrow>
          if svHash env tok \<in> ptHash ` set (ssTokens s)
          then (Inl ''mint provision token: UNIQUE constraint failed: provision_tokens.token_hash'', s)
          else (Inr tok, s\<lparr>ssTokens := ssTokens s @
                 [\<lparr>ptHash = svHash env tok, ptPrefix = shortID tok, ptOrg = orgID, ptLabel = label, ptCreatedAt = svNow env,
                   ptExpiresAt = svAfter env (token_ttl ttl), ptUsedAt = None, ptUsedBy = ''''\<rparr>]\<rparr>)))"

definition RevokeProvisionToken :: "server_env \<Rightarrow> string \<Rightarrow> server_state \<Rightarrow> string option \<times> server_state" where
  "RevokeProvisionToken env prefix s =
     (if \<not> validResourceID prefix then (Some ''invalid token prefix'', s)
      else case svFail env 0 of
        Some e \<Rightarrow> (Some e, s)
      | None \<Rightarrow> (None, s\<lparr>ssTokens := filter (\<lambda>t. \<not> (ptPrefix t = prefix \<and> ptUsedAt t = None)) (ssTokens s)\<rparr>))"

definition redeemable :: "server_env \<Rightarrow> string \<Rightarrow> token_row \<Rightarrow> bool" where
  "redeemable env tok t \<longleftrightarrow> ptHash t = svHash env tok \<and> ptUsedAt t = None \<and> ptExpiresAt t > svNow env"

definition mark_used :: "server_env \<Rightarrow> string \<Rightarrow> token_row \<Rightarrow> token_row" where
  "mark_used env tok t =
     (if redeemable env tok t then t\<lparr>ptUsedAt := Some (svNow env), ptUsedBy := ''pending-enrollment''\<rparr> else t)"

definition consumeProvisionToken :: "server_env \<Rightarrow> string \<Rightarrow> server_state \<Rightarrow> string result \<times> server_state" where
  "consumeProvisionToken env tok s =
     (if tok = '''' then (Inl ''provision token required'', s)
      else if svFail env 0 \<noteq> None then (Inl ''invalid provision token'', s)
      else let s1 = s\<lparr>ssTokens := map (mark_used env tok) (ssTokens s)\<rparr> in
           if \<not> list_ex (redeemable env tok) (ssTokens s)
           then (Inl ''invalid, expired, or already-used provision token'', s1)
           else (case (if svFail env 1 \<noteq> None then None else find (\<lambda>t. ptHash t = svHash env tok) (ssTokens s1)) of
                   None \<Rightarrow> (Inl ''invalid provision token'', s1)
                 | Some t \<Rightarrow> (Inr (ptOrg t), s1)))"

definition finalizeProvisionUse :: "server_env \<Rightarrow> string \<Rightarrow> string \<Rightarrow> server_state \<Rightarrow> server_state" where
  "finalizeProvisionUse env tok agentID s =
     (if svFail env 3 \<noteq> None then s
      else s\<lparr>ssTokens := map (\<lambda>t. if ptHash t = svHash env tok then t\<lparr>ptUsedBy := agentID\<rparr> else t) (ssTokens s)\<rparr>)"

definition enrollAgentTx ::
  "server_env \<Rightarrow> string \<Rightarrow> agent_info \<Rightarrow> string \<Rightarrow> server_state \<Rightarrow> (string \<times> string) result \<times> server_state" where
  "enrollAgentTx env orgID info ip s =
     (case svRandom env of
        Inl e \<Rightarrow> (Inl (''enroll agent: '' @ e), s)
      | Inr agentKey \<Rightarrow>
     (case svUUID env of
        Inl e \<Rightarrow> (Inl (''enroll agent: '' @ e), s)
      | Inr agentID \<Rightarrow>
     (case svFail env 2 of
        Some e \<Rightarrow> (Inl (''enroll agent: '' @ e), s)
      | None \<Rightarrow>
          if agentID \<in> arID ` set (ssAgents s) then (Inl ''enroll agent: UNIQUE constraint failed: edr_agents.id'', s)
          else (Inr (agentID, agentKey), s\<lparr>ssAgents := ssAgents s @
                 [\<lparr>arID = agentID, arInfo = info, arStatus = ''active'', arIPAddress = ip, arOrg = orgID,
                   arKeyHash = Some (svHash env agentKey), arLastHeartbeat = svNow env, arLastIP = ip,
                   arCreatedAt = svNow env, arUpdatedAt = svNow env\<rparr>]\<rparr>))))"

section \<open>Idempotency keys\<close>

definition idem_find :: "string \<Rightarrow> string \<Rightarrow> server_state \<Rightarrow> idem_row option" where
  "idem_find key actor s = find (\<lambda>i. ikKey i = key \<and> ikActor i = actor) (ssIdem s)"

text \<open>The look-up, the insertion and the second look-up may fail; without a failure the insertion succeeds, since the
  look-up found nothing.\<close>

definition checkIdempotency ::
  "server_env \<Rightarrow> string \<Rightarrow> string \<Rightarrow> string \<Rightarrow> server_state \<Rightarrow> (nat \<times> string \<times> bool) \<times> server_state" where
  "checkIdempotency env key actor reqHash s =
     (if key = '''' \<or> actor = '''' \<or> length key > 128 then ((0, '''', False), s)
      else if svFail env 10 \<noteq> None then ((0, '''', False), s)
      else case idem_find key actor s of
        Some i \<Rightarrow> ((ikStatus i, ikBody i, True), s)
      | None \<Rightarrow>
     (case svFail env 11 of
        Some e \<Rightarrow>
          (if (Contains e ''UNIQUE'' \<or> Contains e ''PRIMARY'' \<or> Contains e ''conflict'') \<and> svFail env 12 = None
           then (case idem_find key actor s of Some i \<Rightarrow> ((ikStatus i, ikBody i, True), s) | None \<Rightarrow> ((0, '''', False), s))
           else ((0, '''', False), s))
      | None \<Rightarrow>
          ((0, '''', False), s\<lparr>ssIdem := ssIdem s @
             [\<lparr>ikKey = key, ikActor = actor, ikStatus = 0, ikBody = '''', ikReqHash = reqHash\<rparr>]\<rparr>)))"

definition finishIdempotency :: "server_env \<Rightarrow> string \<Rightarrow> string \<Rightarrow> nat \<Rightarrow> string \<Rightarrow> server_state \<Rightarrow> server_state" where
  "finishIdempotency env key actor status body s =
     (if key = '''' \<or> actor = '''' \<or> svFail env 13 \<noteq> None then s
      else s\<lparr>ssIdem := map (\<lambda>i. if ikKey i = key \<and> ikActor i = actor
                                then i\<lparr>ikStatus := status, ikBody := body\<rparr> else i) (ssIdem s)\<rparr>)"

section \<open>Registration\<close>

datatype response = Failed nat string | Raw nat string | Data obj

definition duplicate_body :: string where
  "duplicate_body = ''{'' @ go_quote ''error'' @ '':'' @ go_quote ''duplicate request: already in progress or completed'' @
     '','' @ go_quote ''code'' @ '':409}''"

record register_body =
  rbInfo :: agent_info
  rbProvisionToken :: string
  rbAPIKey :: string

definition splitHostPort :: "string \<Rightarrow> string" where
  "splitHostPort addr = (case LastIndexByte addr CHR '':'' of Some i \<Rightarrow> take i addr | None \<Rightarrow> addr)"

text \<open>After the idempotency check: validation, the token, the agent row.\<close>

definition register_agent ::
  "server_env \<Rightarrow> string \<Rightarrow> string \<Rightarrow> request \<Rightarrow> register_body option \<Rightarrow> server_state \<Rightarrow> response \<times> server_state" where
  "register_agent env idemKey actor r body s =
     (case body of
        None \<Rightarrow> (Failed 400 ''invalid json'', s)
      | Some req \<Rightarrow>
          if aiHostname (rbInfo req) = '''' \<or> length (aiHostname (rbInfo req)) > 256
          then (Failed 400 ''hostname required (<=256 chars)'', s)
          else if rbAPIKey req \<noteq> '''' then (Failed 400 ''client api_key rejected: enroll with a provision token'', s)
          else if rbProvisionToken req = '''' then
            (Failed 401 ''enrollment requires a provision token (ask an admin to mint one)'',
             auditWrite ''anonymous'' ''enroll.denied'' ''agent'' (aiHostname (rbInfo req)) ''missing provision token''
               (count_failure ''missing_provision_token'' s))
          else (case consumeProvisionToken env (rbProvisionToken req) s of
                  (Inl e, s1) \<Rightarrow> (Failed 401 e, count_failure ''bad_provision_token'' s1)
                | (Inr orgID, s1) \<Rightarrow>
                    (case enrollAgentTx env orgID (rbInfo req) (splitHostPort (rqRemoteAddr r)) s1 of
                       (Inl _, s2) \<Rightarrow> (Failed 500 ''registration failed'', s2)
                     | (Inr (agentID, agentKey), s2) \<Rightarrow>
                         let s3 = finalizeProvisionUse env (rbProvisionToken req) agentID s2;
                             s4 = auditWrite (''provision:'' @ shortID (rbProvisionToken req)) ''agent.enrolled'' ''agent'' agentID
                                    (''org='' @ orgID) (count_up ''registrations'' s3);
                             respBody = svEncode env (envelope env [(''agent_id'', VStr agentID), (''status'', VStr ''registered''),
                                                      (''api_key'', VStr agentKey)]);
                             s5 = (if idemKey \<noteq> '''' then finishIdempotency env (''register:'' @ idemKey) (''ip:'' @ actor) 200 respBody s4
                                   else s4) in
                         (Raw 200 respBody, s5))))"

definition handleEDRRegister ::
  "server_env \<Rightarrow> string \<Rightarrow> request \<Rightarrow> register_body option \<Rightarrow> server_state \<Rightarrow> response \<times> server_state" where
  "handleEDRRegister env idemKey r body s =
     (if rqMethod r \<noteq> ''POST'' then (Failed 405 ''POST required'', s)
      else let actor = clientIP r in
      if idemKey \<noteq> '''' then
        (case checkIdempotency env (''register:'' @ idemKey) (''ip:'' @ actor) '''' s of
           ((st, prev, dup), s1) \<Rightarrow>
             if dup then (Raw 409 (if st = 0 then duplicate_body else prev), s1)
             else register_agent env idemKey actor r body s1)
      else register_agent env idemKey actor r body s)"

section \<open>Heartbeats\<close>

definition handleEDRHeartbeat :: "server_env \<Rightarrow> request \<Rightarrow> string \<Rightarrow> server_state \<Rightarrow> response \<times> server_state" where
  "handleEDRHeartbeat env r status s =
     (if rqMethod r \<noteq> ''POST'' then (Failed 405 ''POST required'', s)
      else if cxAgentID (rqCtx r) = '''' then (Failed 401 ''agent auth required'', s)
      else if svFail env 0 \<noteq> None then (Failed 500 ''heartbeat failed'', s)
      else let mine = (\<lambda>a. arID a = cxAgentID (rqCtx r) \<and> arStatus a = ''active'');
               s1 = s\<lparr>ssAgents := map (\<lambda>a. if mine a
                       then a\<lparr>arStatus := (if status = '''' then arStatus a else status), arLastHeartbeat := svNow env,
                              arLastIP := splitHostPort (rqRemoteAddr r), arUpdatedAt := svNow env\<rparr> else a) (ssAgents s)\<rparr> in
           if \<not> list_ex mine (ssAgents s) then (Failed 404 ''agent not found or revoked'', s1)
           else (Data [(''status'', VStr ''ok''), (''server_time'', VStr (svNow env))], count_up ''heartbeats'' s1))"

section \<open>Actions\<close>

definition allowedDispatchActions :: "string list" where
  "allowedDispatchActions =
     [''kill_process'', ''quarantine_file'', ''block_ip'', ''isolate_host'', ''collect_forensics'', ''system_snapshot'']"

definition destructiveActions :: "string list" where
  "destructiveActions = [''isolate_host'', ''kill_process'', ''quarantine_file'', ''block_ip'']"

definition maxParamsBytes :: nat where "maxParamsBytes = 8192"

text \<open>A number of the JSON body; of one that is not an integer the conversion keeps the whole part.\<close>

definition param_number :: "server_env \<Rightarrow> any \<Rightarrow> int option" where
  "param_number env v = (case v of VInt n \<Rightarrow> Some n | VOther t \<Rightarrow> svWhole env t | _ \<Rightarrow> None)"

definition text_or_target :: "string \<Rightarrow> obj \<Rightarrow> string" where
  "text_or_target k params = (let p = str_field params k in if p = '''' then str_field params ''target'' else p)"

definition validateDispatchParams :: "server_env \<Rightarrow> string \<Rightarrow> obj \<Rightarrow> string option" where
  "validateDispatchParams env action params =
     (if length (svEncode env params) > maxParamsBytes then Some ''params exceed 8KiB cap''
      else if action = ''kill_process'' then
        (if map_of params ''pid'' = None \<and> map_of params ''name'' = None then Some ''missing param: pid or name''
         else (case map_of params ''pid'' of
                 None \<Rightarrow> None
               | Some v \<Rightarrow>
                   (case param_number env v of
                      None \<Rightarrow> Some ''invalid param: pid must be a number''
                    | Some n \<Rightarrow> if n \<le> 0 \<or> n > 4194304 then Some ''invalid param: pid out of range'' else None)))
      else if action = ''quarantine_file'' then
        (let p = text_or_target ''path'' params in
         if p = '''' \<or> length p > 1024 then Some ''invalid param: path required (<=1024 chars)'' else None)
      else if action = ''block_ip'' then
        (let p = text_or_target ''ip'' params in
         if p = '''' \<or> length p > 64 then Some ''invalid param: ip required (<=64 chars)'' else None)
      else if action \<in> {''isolate_host'', ''collect_forensics'', ''system_snapshot''} then None
      else Some (''unknown action_type: '' @ action))"

record dispatch_body =
  dbAgentID :: string
  dbActionID :: string
  dbActionType :: string
  dbRawAction :: string
  dbRawActionType :: string
  dbTarget :: string
  dbParams :: obj
  dbTimeout :: int
  dbRaw :: string

text \<open>Both \<open>action_type\<close> and \<open>action\<close> are accepted.\<close>

definition dbAction :: "dispatch_body \<Rightarrow> string" where
  "dbAction req =
     (let a = (if dbRawAction req \<noteq> '''' \<and> dbActionType req = '''' then dbRawAction req else dbActionType req) in
      if dbRawActionType req \<noteq> '''' then dbRawActionType req else a)"

definition auditActor :: "request \<Rightarrow> string" where
  "auditActor r =
     (if cxUserID (rqCtx r) \<noteq> '''' then ''user:'' @ cxUserID (rqCtx r)
      else if cxAgentID (rqCtx r) \<noteq> '''' then ''agent:'' @ shortID (cxAgentID (rqCtx r)) else ''anonymous'')"

definition dispatch_status :: "string \<Rightarrow> string" where
  "dispatch_status action = (if action \<in> set destructiveActions then ''pending_approval'' else ''pending'')"

text \<open>The row is written and the answer stored under the idempotency key.\<close>

definition insert_action ::
  "server_env \<Rightarrow> string \<Rightarrow> request \<Rightarrow> dispatch_body \<Rightarrow> string \<Rightarrow> string \<Rightarrow> server_state \<Rightarrow> response \<times> server_state" where
  "insert_action env idemKey r req agentOrg aid s =
     (let actor = auditActor r; status = dispatch_status (dbAction req);
          finish = (\<lambda>code body s. if idemKey \<noteq> '''' then finishIdempotency env (''dispatch:'' @ idemKey) actor code body s else s) in
      if svFail env 1 \<noteq> None \<or> aid \<in> acID ` set (ssActions s) then (Failed 500 ''insert failed'', finish 0 '''' s)
      else
        let s1 = s\<lparr>ssActions := ssActions s @
              [\<lparr>acID = aid, acAgentID = dbAgentID req, acType = dbAction req, acTarget = dbTarget req,
                acParams = svEncode env (dbParams req), acStatus = status, acResult = None, acError = None,
                acCreatedAt = svNow env, acCompletedAt = None,
                acTimeout = (if dbTimeout req \<le> 0 \<or> dbTimeout req > 600 then 30 else dbTimeout req), acOrg = agentOrg\<rparr>]\<rparr>;
            s2 = auditWrite actor ''action.dispatched'' ''action'' aid
                   (''agent='' @ shortID (dbAgentID req) @ '' type='' @ dbAction req @ '' status='' @ status) (count_up ''dispatches'' s1);
            respBody = svEncode env (envelope env [(''action_id'', VStr aid), (''status'', VStr status)]) in
        (Raw 200 respBody, finish 200 respBody s2))"

text \<open>The checks before anything is written: the request, the agent's organisation and the identifier of the
  action.\<close>

definition dispatch_check ::
  "server_env \<Rightarrow> request \<Rightarrow> dispatch_body option \<Rightarrow> server_state \<Rightarrow> response + dispatch_body \<times> string \<times> string" where
  "dispatch_check env r body s =
     (if rqMethod r \<noteq> ''POST'' then Inl (Failed 405 ''POST required'')
      else case body of
        None \<Rightarrow> Inl (Failed 400 ''invalid json'')
      | Some req \<Rightarrow>
          if \<not> validResourceID (dbAgentID req) then Inl (Failed 400 ''agent_id and action_type required'')
          else if dbAction req \<notin> set allowedDispatchActions then Inl (Failed 400 (''action_type not allowed: '' @ dbAction req))
          else (case validateDispatchParams env (dbAction req) (dbParams req) of
                  Some e \<Rightarrow> Inl (Failed 400 e)
                | None \<Rightarrow>
          if dbTarget req \<noteq> '''' \<and> length (dbTarget req) > 1024 then Inl (Failed 400 ''target too long'')
          else (case (if svFail env 0 \<noteq> None then None else find (\<lambda>a. arID a = dbAgentID req) (ssAgents s)) of
                  None \<Rightarrow> Inl (Failed 404 ''agent not found'')
                | Some a \<Rightarrow>
          if cxOrg (rqCtx r) \<noteq> '''' \<and> arOrg a \<noteq> cxOrg (rqCtx r) then Inl (Failed 403 ''agent belongs to another organization'')
          else if dbActionID req \<noteq> '''' \<and> \<not> svValidUUID env (dbActionID req)
          then Inl (Failed 400 ''invalid action_id (must be UUID)'')
          else (case (if dbActionID req \<noteq> '''' then Inr (dbActionID req) else svUUID env) of
                  Inl _ \<Rightarrow> Inl (Failed 500 ''mint id failed'')
                | Inr aid \<Rightarrow> Inr (req, arOrg a, aid)))))"

definition handleEDRDispatch ::
  "server_env \<Rightarrow> string \<Rightarrow> request \<Rightarrow> dispatch_body option \<Rightarrow> server_state \<Rightarrow> response \<times> server_state" where
  "handleEDRDispatch env idemKey r body s =
     (case dispatch_check env r body s of
        Inl resp \<Rightarrow> (resp, s)
      | Inr (req, agentOrg, aid) \<Rightarrow>
          if idemKey \<noteq> '''' then
            (case checkIdempotency env (''dispatch:'' @ idemKey) (auditActor r) (svHash env (dbRaw req)) s of
               ((st, prev, dup), s1) \<Rightarrow>
                 if dup then (Raw 409 (if st = 0 then duplicate_body else prev), s1)
                 else insert_action env idemKey r req agentOrg aid s1)
          else insert_action env idemKey r req agentOrg aid s)"

definition pending_actions :: "string \<Rightarrow> int \<Rightarrow> server_state \<Rightarrow> action_row list" where
  "pending_actions agentID limit s =
     take (nat limit) (sort_key acCreatedAt (filter (\<lambda>a. acAgentID a = agentID \<and> acStatus a = ''pending'') (ssActions s)))"

definition handleEDRActionsPending :: "server_env \<Rightarrow> request \<Rightarrow> string \<Rightarrow> server_state \<Rightarrow> (nat \<times> string) + action_row list" where
  "handleEDRActionsPending env r limit s =
     (if cxAgentID (rqCtx r) = '''' then Inl (401, ''agent auth required'')
      else if svFail env 0 \<noteq> None then Inl (500, ''query error'')
      else Inr (pending_actions (cxAgentID (rqCtx r)) (clampInt (parseLimit limit) 1 50) s))"

record result_body =
  reActionID :: string
  reStatus :: string
  reError :: string
  reOutput :: obj
  reExecutedAt :: string

definition set_result :: "result_body \<Rightarrow> string \<Rightarrow> string \<Rightarrow> action_row \<Rightarrow> action_row" where
  "set_result res outputJSON agentID a =
     (if acID a = reActionID res \<and> acAgentID a = agentID
      then a\<lparr>acStatus := reStatus res, acResult := Some outputJSON, acError := Some (reError res),
             acCompletedAt := Some (reExecutedAt res)\<rparr> else a)"

definition handleEDRActionResult :: "server_env \<Rightarrow> request \<Rightarrow> result_body option \<Rightarrow> server_state \<Rightarrow> response \<times> server_state" where
  "handleEDRActionResult env r body s =
     (if rqMethod r \<noteq> ''POST'' then (Failed 405 ''POST required'', s)
      else if cxAgentID (rqCtx r) = '''' then (Failed 401 ''agent auth required'', s)
      else case body of
        None \<Rightarrow> (Failed 400 ''invalid json'', s)
      | Some res \<Rightarrow>
          if \<not> validResourceID (reActionID res) then (Failed 400 ''invalid action_id'', s)
          else if reStatus res \<noteq> ''completed'' \<and> reStatus res \<noteq> ''failed'' \<and> reStatus res \<noteq> ''timeout''
          then (Failed 400 ''invalid status'', s)
          else if svFail env 0 \<noteq> None then (Failed 500 ''update failed'', s)
          else let out = svEncode env (reOutput res);
                   outputJSON = (if length out > 65536 then ''{'' @ go_quote ''truncated'' @ '':true}'' else out);
                   mine = (\<lambda>a. acID a = reActionID res \<and> acAgentID a = cxAgentID (rqCtx r)) in
               if \<not> list_ex mine (ssActions s)
               then (Failed 404 ''action not found for this agent'', count_failure ''cross_agent_result'' s)
               else (Data [(''status'', VStr ''ok'')],
                     auditWrite (''agent:'' @ shortID (cxAgentID (rqCtx r))) ''action.result'' ''action'' (reActionID res)
                       (''status='' @ reStatus res) (count_up ''actionResults''
                         (s\<lparr>ssActions := map (set_result res outputJSON (cxAgentID (rqCtx r))) (ssActions s)\<rparr>))))"

section \<open>Revocation\<close>

definition handleEDRAgentDelete :: "server_env \<Rightarrow> string \<Rightarrow> request \<Rightarrow> server_state \<Rightarrow> response \<times> server_state" where
  "handleEDRAgentDelete env agentID r s =
     (if \<not> validResourceID agentID then (Failed 400 ''agent_id required'', s)
      else let org = cxOrg (rqCtx r);
               found = (if svFail env 0 \<noteq> None then None else find (\<lambda>a. arID a = agentID) (ssAgents s)) in
      if org \<noteq> '''' \<and> found = None then (Failed 404 ''agent not found'', s)
      else if org \<noteq> '''' \<and> arOrg (the found) \<noteq> '''' \<and> arOrg (the found) \<noteq> org
      then (Failed 403 ''agent belongs to another organization'', s)
      else if svFail env 1 \<noteq> None then (Failed 500 ''revoke failed'', s)
      else if \<not> list_ex (\<lambda>a. arID a = agentID) (ssAgents s) then (Failed 404 ''agent not found'', s)
      else (Data [(''status'', VStr ''revoked'')],
            auditWrite (auditActor r) ''agent.revoked'' ''agent'' agentID ''''
              (s\<lparr>ssAgents := map (\<lambda>a. if arID a = agentID then a\<lparr>arStatus := ''revoked''\<rparr> else a) (ssAgents s)\<rparr>)))"

section \<open>Everything that happens to the fleet tables\<close>

inductive fleet_step :: "server_state \<Rightarrow> server_state \<Rightarrow> bool" where
  FleetMint: "fleet_step s (snd (MintProvisionToken env org label ttl s))"
| FleetRevokeToken: "fleet_step s (snd (RevokeProvisionToken env prefix s))"
| FleetRegister: "fleet_step s (snd (handleEDRRegister env key r body s))"
| FleetHeartbeat: "fleet_step s (snd (handleEDRHeartbeat env r status s))"
| FleetDispatch: "fleet_step s (snd (handleEDRDispatch env key r req s))"
| FleetResult: "fleet_step s (snd (handleEDRActionResult env r res s))"
| FleetRevoke: "fleet_step s (snd (handleEDRAgentDelete env aid r s))"

text \<open>What a step leaves of the tables; counters, audit and idempotency keys aside.\<close>

definition fleet_core :: "server_state \<Rightarrow> token_row list \<times> agent_row list \<times> action_row list" where
  "fleet_core s = (ssTokens s, ssAgents s, ssActions s)"

lemma core_count [simp]:
  "fleet_core (count_failure x s) = fleet_core s" "fleet_core (count_up x s) = fleet_core s"
  "fleet_core (auditWrite a b c d e s) = fleet_core s" "fleet_core (finishIdempotency env k ac st b s) = fleet_core s"
  by (simp_all add: fleet_core_def count_failure_def count_up_def auditWrite_def finishIdempotency_def)

lemma core_fields:
  "fleet_core s = fleet_core s' \<longleftrightarrow> ssTokens s = ssTokens s' \<and> ssAgents s = ssAgents s' \<and> ssActions s = ssActions s'"
  by (auto simp: fleet_core_def)

lemma core_checkIdempotency: "checkIdempotency env k ac h s = (x, s') \<Longrightarrow> fleet_core s' = fleet_core s"
  by (auto simp: checkIdempotency_def fleet_core_def split: if_splits option.splits)

section \<open>Destructive actions are never delivered\<close>

definition no_destructive_pending :: "server_state \<Rightarrow> bool" where
  "no_destructive_pending s \<longleftrightarrow> list_all (\<lambda>a. acType a \<in> set destructiveActions \<longrightarrow> acStatus a \<noteq> ''pending'') (ssActions s)"

lemma no_destructive_core: "fleet_core s' = fleet_core s \<Longrightarrow> no_destructive_pending s' = no_destructive_pending s"
  by (simp add: no_destructive_pending_def core_fields)

lemma no_destructive_actions: "ssActions s' = ssActions s \<Longrightarrow> no_destructive_pending s' = no_destructive_pending s"
  by (simp add: no_destructive_pending_def)

lemma enroll_actions:
  "ssActions (snd (MintProvisionToken env org label ttl s)) = ssActions s"
  "ssActions (snd (RevokeProvisionToken env prefix s)) = ssActions s"
  "ssActions (snd (consumeProvisionToken env tok s)) = ssActions s"
  "ssActions (snd (enrollAgentTx env org info ip s)) = ssActions s"
  "ssActions (finalizeProvisionUse env tok aid s) = ssActions s"
  by (auto simp: MintProvisionToken_def RevokeProvisionToken_def consumeProvisionToken_def enrollAgentTx_def
      finalizeProvisionUse_def Let_def split: sum.split option.split)

text \<open>The four ways a registration can leave the tables.\<close>

inductive registered :: "server_state \<Rightarrow> server_state \<Rightarrow> bool" where
  Refused: "fleet_core s' = fleet_core s \<Longrightarrow> registered s s'"
| BadToken: "consumeProvisionToken env tok s = (Inl e, s1) \<Longrightarrow> fleet_core s' = fleet_core s1 \<Longrightarrow> registered s s'"
| NotEnrolled: "consumeProvisionToken env tok s = (Inr org, s1) \<Longrightarrow> enrollAgentTx env org info ip s1 = (Inl e, s2) \<Longrightarrow>
    fleet_core s' = fleet_core s2 \<Longrightarrow> registered s s'"
| Enrolled: "consumeProvisionToken env tok s = (Inr org, s1) \<Longrightarrow> enrollAgentTx env org info ip s1 = (Inr (aid, k), s2) \<Longrightarrow>
    fleet_core s' = fleet_core (finalizeProvisionUse env tok aid s2) \<Longrightarrow> registered s s'"

lemma register_agent_registered: "registered s (snd (register_agent env key actor r body s))"
proof (cases body)
  case None then show ?thesis by (simp add: register_agent_def registered.Refused)
next
  case (Some req)
  let ?tok = "rbProvisionToken req" and ?host = "aiHostname (rbInfo req)" and ?ip = "splitHostPort (rqRemoteAddr r)"
  show ?thesis
  proof (cases "?host = '''' \<or> length ?host > 256 \<or> rbAPIKey req \<noteq> '''' \<or> ?tok = ''''")
    case True
    then show ?thesis by (intro registered.Refused) (auto simp: register_agent_def Some)
  next
    case False
    show ?thesis
    proof (cases "consumeProvisionToken env ?tok s")
      case k: (Pair x s1)
      show ?thesis
      proof (cases x)
        case (Inl e)
        have "fleet_core (snd (register_agent env key actor r body s)) = fleet_core s1"
          using False k Inl by (simp add: register_agent_def Some)
        then show ?thesis using k Inl registered.BadToken by blast
      next
        case (Inr org)
        show ?thesis
        proof (cases "enrollAgentTx env org (rbInfo req) ?ip s1")
          case e: (Pair y s2)
          show ?thesis
          proof (cases y)
            case n: (Inl err)
            have "fleet_core (snd (register_agent env key actor r body s)) = fleet_core s2"
              using False k Inr e n by (simp add: register_agent_def Some)
            then show ?thesis using k Inr e n registered.NotEnrolled by blast
          next
            case y: (Inr z)
            obtain aid ak where z: "z = (aid, ak)" by (cases z)
            have "fleet_core (snd (register_agent env key actor r body s)) = fleet_core (finalizeProvisionUse env ?tok aid s2)"
              using False k Inr e y z by (simp add: register_agent_def Some Let_def)
            then show ?thesis using k Inr e y z registered.Enrolled by blast
          qed
        qed
      qed
    qed
  qed
qed

lemma handleEDRRegister_registered:
  "\<exists>s1. fleet_core s1 = fleet_core s \<and> registered s1 (snd (handleEDRRegister env key r body s))"
proof -
  obtain st prev dup s1 where i: "checkIdempotency env (''register:'' @ key) (''ip:'' @ clientIP r) '''' s = ((st, prev, dup), s1)"
    by (metis prod_cases3 surj_pair)
  then have c: "fleet_core s1 = fleet_core s" by (rule core_checkIdempotency)
  consider (meth) "rqMethod r \<noteq> ''POST''" | (dup) "rqMethod r = ''POST''" "key \<noteq> ''''" "dup"
    | (fresh) "rqMethod r = ''POST''" "key \<noteq> ''''" "\<not> dup" | (plain) "rqMethod r = ''POST''" "key = ''''" by blast
  then show ?thesis
  proof cases
    case meth then show ?thesis by (intro exI [of _ s]) (simp add: handleEDRRegister_def registered.Refused)
  next
    case dup then show ?thesis using i c by (intro exI [of _ s1]) (simp add: handleEDRRegister_def registered.Refused)
  next
    case fresh then show ?thesis
      using i c by (intro exI [of _ s1]) (simp add: handleEDRRegister_def register_agent_registered)
  next
    case plain then show ?thesis by (intro exI [of _ s]) (simp add: handleEDRRegister_def register_agent_registered)
  qed
qed

lemma registered_actions: "registered s s' \<Longrightarrow> ssActions s' = ssActions s"
proof (induction rule: registered.induct)
  case (BadToken env tok s e s1 s') then show ?case using enroll_actions(3) [of env tok s] by (simp add: core_fields)
next
  case (NotEnrolled env tok s org s1 info ip e s2 s')
  then show ?case using enroll_actions(3) [of env tok s] enroll_actions(4) [of env org info ip s1] by (simp add: core_fields)
next
  case (Enrolled env tok s org s1 info ip aid k s2 s')
  then show ?case
    using enroll_actions(3) [of env tok s] enroll_actions(4) [of env org info ip s1] enroll_actions(5) [of env tok aid s2]
    by (simp add: core_fields)
qed (simp add: core_fields)

lemma register_actions: "ssActions (snd (handleEDRRegister env key r body s)) = ssActions s"
  using handleEDRRegister_registered [of s env key r body] registered_actions by (auto simp: core_fields)

lemma agents_actions:
  "ssActions (snd (handleEDRHeartbeat env r status s)) = ssActions s"
  "ssActions (snd (handleEDRAgentDelete env aid r s)) = ssActions s"
  by (simp_all add: handleEDRHeartbeat_def handleEDRAgentDelete_def Let_def count_up_def auditWrite_def)

lemma insert_action_core:
  "\<exists>rows. ssActions (snd (insert_action env key r req org aid s)) = ssActions s @ rows \<and>
     ssTokens (snd (insert_action env key r req org aid s)) = ssTokens s \<and> ssAgents (snd (insert_action env key r req org aid s)) = ssAgents s \<and>
     list_all (\<lambda>a. acType a = dbAction req \<and> acStatus a = dispatch_status (dbAction req) \<and> acAgentID a = dbAgentID req \<and> acOrg a = org) rows"
  by (simp add: insert_action_def Let_def finishIdempotency_def count_up_def auditWrite_def)

lemma dispatch_core:
  "\<exists>rows. ssActions (snd (handleEDRDispatch env key r body s)) = ssActions s @ rows \<and>
     ssTokens (snd (handleEDRDispatch env key r body s)) = ssTokens s \<and> ssAgents (snd (handleEDRDispatch env key r body s)) = ssAgents s \<and>
     list_all (\<lambda>a. acStatus a = dispatch_status (acType a)) rows"
    (is "?P (snd (handleEDRDispatch env key r body s))")
proof -
  have same: "?P s'" if "fleet_core s' = fleet_core s" for s' using that by (intro exI [of _ "[]"]) (simp add: core_fields)
  have ins: "?P (snd (insert_action env key r req org aid s'))" if "fleet_core s' = fleet_core s" for s' req org aid
  proof -
    obtain rows where "ssActions (snd (insert_action env key r req org aid s')) = ssActions s' @ rows"
      "ssTokens (snd (insert_action env key r req org aid s')) = ssTokens s'"
      "ssAgents (snd (insert_action env key r req org aid s')) = ssAgents s'"
      "list_all (\<lambda>a. acStatus a = dispatch_status (acType a)) rows"
      using insert_action_core [of env key r req org aid s'] by (auto simp: list_all_iff)
    then show ?thesis using that by (intro exI [of _ rows]) (simp add: core_fields)
  qed
  show ?thesis
  proof (cases "dispatch_check env r body s")
    case (Inl resp) then show ?thesis using same [of s] by (simp add: handleEDRDispatch_def)
  next
    case (Inr x)
    obtain req org aid where x: "x = (req, org, aid)" by (cases x)
    obtain st prev dup s1 where i: "checkIdempotency env (''dispatch:'' @ key) (auditActor r) (svHash env (dbRaw req)) s = ((st, prev, dup), s1)"
      by (metis prod_cases3 surj_pair)
    then have c: "fleet_core s1 = fleet_core s" by (rule core_checkIdempotency)
    have "snd (handleEDRDispatch env key r body s) =
        (if key \<noteq> '''' then if dup then s1 else snd (insert_action env key r req org aid s1) else snd (insert_action env key r req org aid s))"
      using Inr x i by (simp add: handleEDRDispatch_def)
    then show ?thesis
      using same [OF c] ins [OF c, of req org aid] ins [OF refl, of req org aid] by (cases "key = ''''"; cases dup) simp_all
  qed
qed

lemma result_core:
  "ssTokens (snd (handleEDRActionResult env r body s)) = ssTokens s \<and> ssAgents (snd (handleEDRActionResult env r body s)) = ssAgents s"
  by (auto simp: handleEDRActionResult_def Let_def count_failure_def count_up_def auditWrite_def split: option.split)

lemma result_actions:
  "ssActions (snd (handleEDRActionResult env r body s)) = ssActions s \<or>
     (\<exists>res out. reStatus res \<in> {''completed'', ''failed'', ''timeout''} \<and>
        ssActions (snd (handleEDRActionResult env r body s)) = map (set_result res out (cxAgentID (rqCtx r))) (ssActions s))"
proof (cases "\<exists>res. body = Some res \<and> reStatus res \<in> {''completed'', ''failed'', ''timeout''}")
  case True
  then obtain res where "body = Some res" "reStatus res \<in> {''completed'', ''failed'', ''timeout''}" by blast
  then show ?thesis
    by (cases "rqMethod r \<noteq> ''POST'' \<or> cxAgentID (rqCtx r) = '''' \<or> \<not> validResourceID (reActionID res) \<or> svFail env 0 \<noteq> None")
      (auto simp: handleEDRActionResult_def Let_def count_failure_def count_up_def auditWrite_def)
next
  case False
  then show ?thesis by (cases body) (simp_all add: handleEDRActionResult_def)
qed

lemma result_no_destructive:
  assumes "no_destructive_pending s"
  shows "no_destructive_pending (snd (handleEDRActionResult env r body s))"
  using result_actions [of env r body s] assms
  by (auto simp: no_destructive_pending_def list_all_iff set_result_def)

lemma dispatch_no_destructive:
  assumes "no_destructive_pending s"
  shows "no_destructive_pending (snd (handleEDRDispatch env key r body s))"
proof -
  obtain rows where "ssActions (snd (handleEDRDispatch env key r body s)) = ssActions s @ rows"
    "list_all (\<lambda>a. acStatus a = dispatch_status (acType a)) rows"
    using dispatch_core [of env key r body s] by blast
  then show ?thesis using assms by (auto simp: no_destructive_pending_def list_all_iff dispatch_status_def)
qed

lemma fleet_step_no_destructive:
  assumes "fleet_step s s'" "no_destructive_pending s"
  shows "no_destructive_pending s'"
  using assms
proof cases
  case (FleetDispatch env key r req) then show ?thesis using assms(2) dispatch_no_destructive by simp
next
  case (FleetResult env r res) then show ?thesis using assms(2) result_no_destructive by simp
qed (use assms(2) in \<open>simp_all add: no_destructive_pending_def enroll_actions register_actions agents_actions\<close>)

text \<open>C10. Destructive actions are held back: in no sequence of mints, registrations, heartbeats, dispatches, results
  and revocations does the list of pending actions that an agent receives contain one that kills a process,
  quarantines a file, blocks an address or isolates a host.\<close>

theorem destructive_never_delivered:
  assumes "fleet_step\<^sup>*\<^sup>* s s'" "ssActions s = []" "handleEDRActionsPending env r limit s' = Inr rows"
  shows "list_all (\<lambda>a. acType a \<notin> set destructiveActions) rows"
proof -
  have "no_destructive_pending s" using assms(2) by (simp add: no_destructive_pending_def)
  with assms(1) have "no_destructive_pending s'"
    by (induction rule: rtranclp_induct) (auto intro: fleet_step_no_destructive)
  then show ?thesis
    using assms(3) by (auto simp: handleEDRActionsPending_def pending_actions_def no_destructive_pending_def list_all_iff
        split: if_splits dest!: in_set_takeD)
qed

section \<open>One agent per token\<close>

definition org_agents :: "string \<Rightarrow> server_state \<Rightarrow> nat" where
  "org_agents org s = length (filter (\<lambda>a. arOrg a = org) (ssAgents s))"

definition used_tokens :: "string \<Rightarrow> token_row list \<Rightarrow> nat" where
  "used_tokens org ts = length (filter (\<lambda>t. ptOrg t = org \<and> ptUsedAt t \<noteq> None) ts)"

definition tokens_cover :: "server_state \<Rightarrow> bool" where
  "tokens_cover s \<longleftrightarrow> distinct (map ptHash (ssTokens s)) \<and> (\<forall>org. org_agents org s \<le> used_tokens org (ssTokens s))"

lemma tokens_cover_core: "fleet_core s' = fleet_core s \<Longrightarrow> tokens_cover s' = tokens_cover s"
  by (simp add: tokens_cover_def org_agents_def core_fields)

lemma consumed_keys [simp]: "ptHash (mark_used env tok t) = ptHash t" "ptOrg (mark_used env tok t) = ptOrg t"
  by (simp_all add: mark_used_def)

lemma used_consumed:
  "used_tokens org (map (mark_used env tok) ts) =
     used_tokens org ts + length (filter (\<lambda>t. ptOrg t = org \<and> redeemable env tok t) ts)"
  by (induction ts) (auto simp: used_tokens_def mark_used_def redeemable_def)

lemma consume_tables:
  "ssAgents (snd (consumeProvisionToken env tok s)) = ssAgents s \<and>
   (ssTokens (snd (consumeProvisionToken env tok s)) = ssTokens s \<or>
    ssTokens (snd (consumeProvisionToken env tok s)) = map (mark_used env tok) (ssTokens s))"
  by (auto simp: consumeProvisionToken_def Let_def split: option.split)

lemma find_Some_in: "find P xs = Some x \<Longrightarrow> x \<in> set xs \<and> P x"
  by (auto simp: find_Some_iff)

lemma consume_success:
  assumes "consumeProvisionToken env tok s = (Inr org, s1)"
  shows "ssTokens s1 = map (mark_used env tok) (ssTokens s)"
    "\<exists>t\<in>set (ssTokens s). redeemable env tok t"
    "\<exists>t\<in>set (ssTokens s). ptHash t = svHash env tok \<and> ptOrg t = org"
proof -
  have "\<exists>t\<in>set (map (mark_used env tok) (ssTokens s)). ptHash t = svHash env tok \<and> ptOrg t = org"
    using assms by (auto simp: consumeProvisionToken_def Let_def simp del: set_map split: if_splits option.splits dest!: find_Some_in)
  then show "\<exists>t\<in>set (ssTokens s). ptHash t = svHash env tok \<and> ptOrg t = org" by simp
qed (use assms in \<open>auto simp: consumeProvisionToken_def Let_def list_ex_iff split: if_splits option.splits\<close>)

lemma consume_cover:
  assumes "tokens_cover s"
  shows "tokens_cover (snd (consumeProvisionToken env tok s))"
proof -
  have "used_tokens org (ssTokens s) \<le> used_tokens org (map (mark_used env tok) (ssTokens s))" for org
    by (simp add: used_consumed)
  then show ?thesis
    using assms consume_tables [of env tok s]
    by (auto simp: tokens_cover_def org_agents_def comp_def intro: le_trans)
qed

lemma consume_frees_one:
  assumes "tokens_cover s" "consumeProvisionToken env tok s = (Inr org, s1)"
  shows "org_agents org s1 + 1 \<le> used_tokens org (ssTokens s1)"
proof -
  obtain t u where t: "t \<in> set (ssTokens s)" "redeemable env tok t"
    and u: "u \<in> set (ssTokens s)" "ptHash u = svHash env tok" "ptOrg u = org"
    using consume_success(2,3) [OF assms(2)] by blast
  have "ptHash t = ptHash u" using t u by (simp add: redeemable_def)
  moreover have "inj_on ptHash (set (ssTokens s))" using assms(1) by (simp add: tokens_cover_def distinct_map)
  ultimately have "t = u" using t u by (meson inj_onD)
  then have "t \<in> set (filter (\<lambda>t. ptOrg t = org \<and> redeemable env tok t) (ssTokens s))" using t u by simp
  then have "1 \<le> length (filter (\<lambda>t. ptOrg t = org \<and> redeemable env tok t) (ssTokens s))"
    by (metis One_nat_def Suc_leI length_pos_if_in_set)
  moreover have "org_agents org s1 = org_agents org s"
    using consume_tables [of env tok s] assms(2) by (simp add: org_agents_def)
  moreover have "org_agents org s \<le> used_tokens org (ssTokens s)" using assms(1) by (simp add: tokens_cover_def)
  ultimately show ?thesis by (simp add: consume_success(1) [OF assms(2)] used_consumed)
qed

lemma enroll_failed: "enrollAgentTx env org info ip s = (Inl e, s') \<Longrightarrow> s' = s"
  by (auto simp: enrollAgentTx_def split: sum.splits option.splits if_splits)

lemma enroll_tables:
  assumes "enrollAgentTx env org info ip s = (Inr x, s')"
  shows "ssTokens s' = ssTokens s" "org_agents o' s' = org_agents o' s + (if o' = org then 1 else 0)"
  using assms by (auto simp: enrollAgentTx_def org_agents_def split: sum.splits option.splits if_splits)

lemma finalize_cover:
  assumes "tokens_cover s"
  shows "tokens_cover (finalizeProvisionUse env tok aid s)"
proof -
  let ?f = "\<lambda>t. if ptHash t = svHash env tok then t\<lparr>ptUsedBy := aid\<rparr> else t"
  have h: "map ptHash (map ?f ts) = map ptHash ts" for ts by simp
  have u: "used_tokens org (map ?f ts) = used_tokens org ts" for org ts by (induction ts) (auto simp: used_tokens_def)
  show ?thesis
  proof (cases "svFail env 3")
    case None
    then have "ssTokens (finalizeProvisionUse env tok aid s) = map ?f (ssTokens s)" by (simp add: finalizeProvisionUse_def)
    then show ?thesis
      using assms by (simp add: tokens_cover_def u del: map_map) (simp add: h finalizeProvisionUse_def org_agents_def del: map_map)
  next
    case (Some e) then show ?thesis using assms by (simp add: finalizeProvisionUse_def)
  qed
qed

lemma enroll_cover:
  assumes "tokens_cover s" "consumeProvisionToken env tok s = (Inr org, s1)" "enrollAgentTx env org info ip s1 = (Inr x, s2)"
  shows "tokens_cover s2"
  using consume_frees_one [OF assms(1,2)] consume_cover [OF assms(1), of env tok] assms(2) enroll_tables [OF assms(3)]
  by (auto simp: tokens_cover_def)

lemma registered_cover: "registered s s' \<Longrightarrow> tokens_cover s \<Longrightarrow> tokens_cover s'"
proof (induction rule: registered.induct)
  case (Refused s' s) then show ?case using tokens_cover_core by blast
next
  case (BadToken env tok s e s1 s')
  then have "tokens_cover s1" using consume_cover [of s env tok] by simp
  then show ?case using tokens_cover_core [OF BadToken(2)] by blast
next
  case (NotEnrolled env tok s org s1 info ip e s2 s')
  then have "tokens_cover s2" using consume_cover [of s env tok] enroll_failed [OF NotEnrolled(2)] by simp
  then show ?case using tokens_cover_core [OF NotEnrolled(3)] by blast
next
  case (Enrolled env tok s org s1 info ip aid k s2 s')
  then have "tokens_cover (finalizeProvisionUse env tok aid s2)" using enroll_cover finalize_cover by blast
  then show ?case using tokens_cover_core [OF Enrolled(3)] by blast
qed

lemma mint_cover: "tokens_cover s \<Longrightarrow> tokens_cover (snd (MintProvisionToken env org label ttl s))"
  by (auto simp: tokens_cover_def MintProvisionToken_def org_agents_def used_tokens_def split: sum.split option.split)

lemma revoke_token_cover: "tokens_cover s \<Longrightarrow> tokens_cover (snd (RevokeProvisionToken env prefix s))"
proof -
  have "used_tokens org (filter (\<lambda>t. ptPrefix t = prefix \<longrightarrow> (\<exists>y. ptUsedAt t = Some y)) ts) = used_tokens org ts" for org ts
    by (induction ts) (auto simp: used_tokens_def)
  then show "tokens_cover s \<Longrightarrow> tokens_cover (snd (RevokeProvisionToken env prefix s))"
    by (auto simp: tokens_cover_def RevokeProvisionToken_def org_agents_def distinct_map_filter split: option.split)
qed

lemma org_agents_map:
  assumes "\<And>a. arOrg (f a) = arOrg a" "ssTokens s' = ssTokens s" "ssAgents s' = map f (ssAgents s)" "tokens_cover s"
  shows "tokens_cover s'"
  using assms by (simp add: tokens_cover_def org_agents_def filter_map comp_def)

lemma heartbeat_cover:
  assumes "tokens_cover s"
  shows "tokens_cover (snd (handleEDRHeartbeat env r status s))"
proof (cases "rqMethod r \<noteq> ''POST'' \<or> cxAgentID (rqCtx r) = '''' \<or> svFail env 0 \<noteq> None")
  case True then show ?thesis using assms by (auto simp: handleEDRHeartbeat_def)
next
  case False
  show ?thesis
    by (rule org_agents_map [OF _ _ _ assms, where f = "\<lambda>a. if arID a = cxAgentID (rqCtx r) \<and> arStatus a = ''active''
        then a\<lparr>arStatus := (if status = '''' then arStatus a else status), arLastHeartbeat := svNow env,
          arLastIP := splitHostPort (rqRemoteAddr r), arUpdatedAt := svNow env\<rparr> else a"])
      (use False in \<open>auto simp: handleEDRHeartbeat_def Let_def count_up_def\<close>)
qed

lemma agent_delete_tables:
  "snd (handleEDRAgentDelete env aid r s) = s \<or> ssTokens (snd (handleEDRAgentDelete env aid r s)) = ssTokens s \<and>
     ssAgents (snd (handleEDRAgentDelete env aid r s)) = map (\<lambda>a. if arID a = aid then a\<lparr>arStatus := ''revoked''\<rparr> else a) (ssAgents s)"
  by (simp add: handleEDRAgentDelete_def Let_def auditWrite_def)

lemma agent_delete_cover: "tokens_cover s \<Longrightarrow> tokens_cover (snd (handleEDRAgentDelete env aid r s))"
  using agent_delete_tables [of env aid r s]
    org_agents_map [where f = "\<lambda>a. if arID a = aid then a\<lparr>arStatus := ''revoked''\<rparr> else a" and s = s]
  by auto

lemma fleet_step_cover:
  assumes "fleet_step s s'" "tokens_cover s"
  shows "tokens_cover s'"
  using assms
proof cases
  case (FleetRegister env key r body)
  obtain s1 where "fleet_core s1 = fleet_core s" "registered s1 s'"
    using handleEDRRegister_registered [of s env key r body] FleetRegister by auto
  then show ?thesis using assms(2) registered_cover tokens_cover_core by blast
next
  case (FleetDispatch env key r req)
  then show ?thesis using dispatch_core [of env key r req s] assms(2) by (auto simp: tokens_cover_def org_agents_def)
next
  case (FleetResult env r res)
  then show ?thesis using result_core [of env r res s] assms(2) by (auto simp: tokens_cover_def org_agents_def)
qed (use assms(2) in \<open>simp_all add: mint_cover revoke_token_cover heartbeat_cover agent_delete_cover\<close>)

text \<open>C9. Enrolment needs a token of its own: whatever is minted, registered, retried, revoked or dispatched from
  an empty server on, an organisation never has more agents than provision tokens that were minted for it and
  redeemed, and no two tokens share a hash.\<close>

theorem enrolment_bounded_by_tokens:
  assumes "fleet_step\<^sup>*\<^sup>* s s'" "ssTokens s = []" "ssAgents s = []"
  shows "distinct (map ptHash (ssTokens s')) \<and>
    length (filter (\<lambda>a. arOrg a = org) (ssAgents s')) \<le> length (filter (\<lambda>t. ptOrg t = org \<and> ptUsedAt t \<noteq> None) (ssTokens s'))"
proof -
  have "tokens_cover s" using assms(2,3) by (simp add: tokens_cover_def org_agents_def)
  with assms(1) have "tokens_cover s'" by (induction rule: rtranclp_induct) (auto intro: fleet_step_cover)
  then show ?thesis by (simp add: tokens_cover_def org_agents_def used_tokens_def)
qed

section \<open>Requests that cannot be repeated, results nobody asked for\<close>

text \<open>A registration that fails after the idempotency key was reserved leaves the key without an answer, and every
  retry under that key is refused as a duplicate.\<close>

lemma find_in_snoc: "find P xs = None \<Longrightarrow> find P (xs @ [x]) = (if P x then Some x else None)"
  by (induction xs) (auto split: if_splits)

lemma idem_reserved:
  assumes "key \<noteq> ''''" "actor \<noteq> ''''" "length key \<le> 128" "svFail env 10 = None" "svFail env 11 = None"
    "idem_find key actor s = None"
  shows "\<exists>s1. checkIdempotency env key actor h s = ((0, '''', False), s1) \<and>
    (\<forall>h'. checkIdempotency env key actor h' s1 = ((0, '''', True), s1))"
  using assms
  by (auto simp: checkIdempotency_def idem_find_def find_in_snoc split: option.split)

theorem failed_registration_blocks_retry:
  assumes "rqMethod r = ''POST''" "key \<noteq> ''''" "length (''register:'' @ key) \<le> 128" "svFail env 10 = None" "svFail env 11 = None"
    "idem_find (''register:'' @ key) (''ip:'' @ clientIP r) s = None"
  shows "\<exists>s1. handleEDRRegister env key r None s = (Failed 400 ''invalid json'', s1) \<and>
    (\<forall>body. handleEDRRegister env key r body s1 = (Raw 409 duplicate_body, s1))"
proof -
  obtain s1 where "checkIdempotency env (''register:'' @ key) (''ip:'' @ clientIP r) '''' s = ((0, '''', False), s1)"
    "\<forall>h'. checkIdempotency env (''register:'' @ key) (''ip:'' @ clientIP r) h' s1 = ((0, '''', True), s1)"
    using idem_reserved [of "''register:'' @ key" "''ip:'' @ clientIP r" env s "''''"] assms by auto
  then show ?thesis using assms(1,2) by (intro exI [of _ s1]) (simp add: handleEDRRegister_def register_agent_def Let_def)
qed

section \<open>A small fleet\<close>

definition sample_server_env :: server_env where
  "sample_server_env = \<lparr>svHash = (\<lambda>k. ''h:'' @ k), svNow = ''2026-05-01'', svAfter = (\<lambda>_. ''2026-05-02''), svRandom = Inr ''secret-token'',
     svUUID = Inr ''id-0001'', svFail = (\<lambda>_. None), svEncode = (\<lambda>_. ''{}''), svValidUUID = (\<lambda>_. True), svWhole = (\<lambda>_. None), svRequestID = ''r1''\<rparr>"

definition empty_server :: server_state where
  "empty_server = \<lparr>ssTokens = [], ssAgents = [], ssIdem = [], ssActions = [], ssFailures = (\<lambda>_. 0), ssCounters = (\<lambda>_. 0),
     ssSink = True, ssAudit = []\<rparr>"

definition sample_register :: register_body where
  "sample_register = \<lparr>rbInfo = \<lparr>aiHostname = ''web-1'', aiPlatform = ''linux'', aiArch = ''amd64'', aiVersion = ''6'', aiAgentVersion = ''1'',
     aiKernelVersion = ''6'', aiMonitors = ''[]'', aiCPUCount = 4, aiCPUName = ''cpu'', aiMemoryMB = 1024\<rparr>,
     rbProvisionToken = ''secret-token'', rbAPIKey = ''''\<rparr>"

definition sample_dispatch :: "string \<Rightarrow> string \<Rightarrow> dispatch_body" where
  "sample_dispatch aid act = \<lparr>dbAgentID = ''id-0001'', dbActionID = aid, dbActionType = act, dbRawAction = '''', dbRawActionType = '''',
     dbTarget = '''', dbParams = [(''pid'', VInt 7)], dbTimeout = 60, dbRaw = ''''\<rparr>"

definition agent_request :: request where
  "agent_request = sample_request\<lparr>rqCtx := \<lparr>cxRole = '''', cxUserID = '''', cxOrg = '''', cxAgentID = ''id-0001'', cxScope = ''''\<rparr>\<rparr>"

definition fleet_1 :: server_state where
  "fleet_1 = snd (MintProvisionToken sample_server_env ''acme'' ''lab'' 0 empty_server)"

definition fleet_2 :: server_state where
  "fleet_2 = snd (handleEDRRegister sample_server_env '''' sample_request (Some sample_register) fleet_1)"

definition fleet_3 :: server_state where
  "fleet_3 = snd (handleEDRDispatch sample_server_env '''' sample_request (Some (sample_dispatch ''x-1'' ''kill_process'')) fleet_2)"

definition fleet_4 :: server_state where
  "fleet_4 = snd (handleEDRDispatch sample_server_env '''' sample_request (Some (sample_dispatch ''x-2'' ''system_snapshot'')) fleet_3)"

lemma sample_fleet_steps: "fleet_step\<^sup>*\<^sup>* empty_server fleet_4"
proof -
  have "fleet_step empty_server fleet_1" "fleet_step fleet_1 fleet_2" "fleet_step fleet_2 fleet_3" "fleet_step fleet_3 fleet_4"
    unfolding fleet_4_def fleet_3_def fleet_2_def fleet_1_def by (rule FleetMint FleetRegister FleetDispatch)+
  then show ?thesis by (meson converse_rtranclp_into_rtranclp rtranclp.rtrancl_refl)
qed

lemma sample_fleet_actions: "map (\<lambda>a. (acID a, acStatus a)) (ssActions fleet_4) = [(''x-1'', ''pending_approval''), (''x-2'', ''pending'')]"
  by code_simp

definition sample_pending :: "action_row list" where
  "sample_pending = pending_actions ''id-0001'' 50 fleet_4"

lemma sample_pending_ids: "map acID sample_pending = [''x-2'']"
  by code_simp

lemma sample_pending_served: "handleEDRActionsPending sample_server_env agent_request '''' fleet_4 = Inr sample_pending"
  by (simp add: handleEDRActionsPending_def sample_pending_def agent_request_def sample_server_env_def parseLimit_def
      clampInt_def defaultListLimit_def maxListLimit_def)

lemma empty_server_actions: "ssActions empty_server = []"
  by (simp add: empty_server_def)

lemma destructive_never_delivered_witness:
  "map acID sample_pending = [''x-2''] \<and> list_all (\<lambda>a. acType a \<notin> set destructiveActions) sample_pending"
  by (rule conjI [OF sample_pending_ids
      destructive_never_delivered [OF sample_fleet_steps empty_server_actions sample_pending_served]])

lemma enrolment_bounded_by_tokens_witness:
  "length (ssAgents fleet_4) = 1 \<and> distinct (map ptHash (ssTokens fleet_4)) \<and>
    length (filter (\<lambda>a. arOrg a = ''acme'') (ssAgents fleet_4)) \<le>
      length (filter (\<lambda>t. ptOrg t = ''acme'' \<and> ptUsedAt t \<noteq> None) (ssTokens fleet_4))"
proof -
  have "length (ssAgents fleet_4) = 1" by code_simp
  then show ?thesis
    using enrolment_bounded_by_tokens [OF sample_fleet_steps, of "''acme''"] by (simp add: empty_server_def)
qed

text \<open>An agent may report a result for an action that still waits for approval.\<close>

theorem unapproved_action_completed:
  assumes "rqMethod r = ''POST''" "cxAgentID (rqCtx r) \<noteq> ''''" "validResourceID (reActionID res)" "reStatus res = ''completed''"
    "svFail env 0 = None" "a \<in> set (ssActions s)" "acID a = reActionID res" "acAgentID a = cxAgentID (rqCtx r)"
    "acStatus a = ''pending_approval''"
  shows "\<exists>a'\<in>set (ssActions (snd (handleEDRActionResult env r (Some res) s))).
    acID a' = acID a \<and> acType a' = acType a \<and> acStatus a' = ''completed''"
proof -
  have "list_ex (\<lambda>a. acID a = reActionID res \<and> acAgentID a = cxAgentID (rqCtx r)) (ssActions s)"
    using assms by (auto simp: list_ex_iff)
  then have "\<exists>out. ssActions (snd (handleEDRActionResult env r (Some res) s)) =
      map (set_result res out (cxAgentID (rqCtx r))) (ssActions s)"
    using assms(1-5) by (cases "ssSink s") (simp_all add: handleEDRActionResult_def Let_def count_up_def auditWrite_def, blast+)
  then obtain out where
    "ssActions (snd (handleEDRActionResult env r (Some res) s)) = map (set_result res out (cxAgentID (rqCtx r))) (ssActions s)"
    by blast
  then show ?thesis
    using assms by (intro bexI [of _ "set_result res out (cxAgentID (rqCtx r)) a"]) (simp_all add: set_result_def)
qed

end
