(* ===== verification/Process_Tree.thy ===== *)
theory Process_Tree
  imports Agent_Filters
begin

text \<open>
  The process tree of the endpoint agent (\<open>internal/edr_agent/monitor/tree.go\<close>): nodes by process id with an
  LRU list, eviction, ancestry, the snapshot file and the write-ahead log.

  Nodes are shared: a parent points to its children and the index points to the nodes, so nodes live in
  a heap of addresses and an evicted node stays reachable from its parent.  The order in which Go
  visits the index is an argument.  A file is the decoded content; a node of the snapshot carries
  its children, as the JSON text does.
\<close>

section \<open>State\<close>

record ProcNode =
  pnPID :: int
  pnPPID :: int
  pnName :: string
  pnCmdLine :: string
  pnChildren :: "nat list"
  pnDepth :: int
  pnStartAt :: int
  pnEndAt :: "int option"

record ProcessTree =
  ptHeap :: "nat \<Rightarrow> ProcNode"
  ptNext :: nat
  ptByPID :: "(int \<times> nat) list"
  ptLRU :: "(int \<times> nat) list"
  ptMaxNodes :: nat

definition no_node :: ProcNode where
  "no_node = \<lparr>pnPID = 0, pnPPID = 0, pnName = '''', pnCmdLine = '''', pnChildren = [], pnDepth = 0, pnStartAt = 0,
     pnEndAt = None\<rparr>"

definition empty_tree :: ProcessTree where
  "empty_tree = \<lparr>ptHeap = (\<lambda>_. no_node), ptNext = 0, ptByPID = [], ptLRU = [], ptMaxNodes = 100000\<rparr>"

definition by_pid :: "ProcessTree \<Rightarrow> int \<Rightarrow> nat option" where
  "by_pid t pid = map_of (ptByPID t) pid"

definition set_node :: "nat \<Rightarrow> (ProcNode \<Rightarrow> ProcNode) \<Rightarrow> ProcessTree \<Rightarrow> ProcessTree" where
  "set_node a f t = t\<lparr>ptHeap := (ptHeap t)(a := f (ptHeap t a))\<rparr>"

section \<open>Inserting and evicting\<close>

text \<open>\<open>PushFront\<close> of a new entry together with its index.\<close>

definition push_front :: "int \<Rightarrow> nat \<Rightarrow> ProcessTree \<Rightarrow> ProcessTree" where
  "push_front pid a t = t\<lparr>ptLRU := (pid, a) # ptLRU t, ptByPID := (pid, a) # ptByPID t\<rparr>"

definition alloc_node :: "ProcNode \<Rightarrow> ProcessTree \<Rightarrow> nat \<times> ProcessTree" where
  "alloc_node n t = (ptNext t, t\<lparr>ptHeap := (ptHeap t)(ptNext t := n), ptNext := Suc (ptNext t)\<rparr>)"

text \<open>A new node below its parent, if the parent is known.\<close>

definition link_parent :: "nat \<Rightarrow> ProcessTree \<Rightarrow> ProcessTree" where
  "link_parent a t =
     (case by_pid t (pnPPID (ptHeap t a)) of
        None \<Rightarrow> t
      | Some p \<Rightarrow>
          set_node a (\<lambda>n. n\<lparr>pnDepth := pnDepth (ptHeap t p) + 1\<rparr>)
            (set_node p (\<lambda>n. n\<lparr>pnChildren := pnChildren n @ [a]\<rparr>) t))"

definition touchLocked :: "int \<Rightarrow> ProcessTree \<Rightarrow> ProcessTree" where
  "touchLocked pid t =
     (case by_pid t pid of
        None \<Rightarrow> t
      | Some a \<Rightarrow> t\<lparr>ptLRU := (pid, a) # filter (\<lambda>e. fst e \<noteq> pid) (ptLRU t)\<rparr>)"

definition protected :: "ProcNode \<Rightarrow> bool" where
  "protected n \<longleftrightarrow> pnEndAt n = None \<and> pnDepth n < 3"

text \<open>One turn of the loop, for a list longer than the limit: a protected last entry is moved to the front, and
  the entry that is last then is removed without being looked at.\<close>

definition drop_last_entry :: "ProcessTree \<Rightarrow> ProcessTree" where
  "drop_last_entry t =
     t\<lparr>ptByPID := filter (\<lambda>e. fst e \<noteq> fst (last (ptLRU t))) (ptByPID t), ptLRU := butlast (ptLRU t)\<rparr>"

definition evict_one :: "ProcessTree \<Rightarrow> ProcessTree" where
  "evict_one t =
     (let e = last (ptLRU t) in
      if protected (ptHeap t (snd e)) then drop_last_entry (t\<lparr>ptLRU := e # butlast (ptLRU t)\<rparr>)
      else drop_last_entry t)"

lemma evict_one_length: "length (ptLRU (evict_one t)) = length (ptLRU t) - 1"
  by (cases "ptLRU t" rule: rev_cases) (simp_all add: evict_one_def drop_last_entry_def Let_def)

lemma evict_one_max [simp]: "ptMaxNodes (evict_one t) = ptMaxNodes t"
  by (simp add: evict_one_def drop_last_entry_def Let_def)

function evictLocked :: "ProcessTree \<Rightarrow> ProcessTree" where
  "evictLocked t = (if length (ptLRU t) > ptMaxNodes t then evictLocked (evict_one t) else t)"
  by auto
termination by (relation "measure (\<lambda>t. length (ptLRU t))") (auto simp: evict_one_length)

declare evictLocked.simps [simp del]

definition add_node :: "ProcNode \<Rightarrow> ProcessTree \<Rightarrow> ProcessTree" where
  "add_node n t =
     (let (a, t1) = alloc_node n t; t2 = link_parent a t1 in push_front (pnPID n) a t2)"

definition tree_Insert :: "int \<Rightarrow> mon_event \<Rightarrow> ProcessTree \<Rightarrow> ProcessTree" where
  "tree_Insert now evt t =
     (case meProcess evt of
        None \<Rightarrow> t
      | Some p \<Rightarrow>
          if meType evt = ''process_create'' then
            (if by_pid t (piPID p) \<noteq> None then touchLocked (piPID p) t
             else evictLocked (add_node
               \<lparr>pnPID = piPID p, pnPPID = piPPID p, pnName = piName p, pnCmdLine = piCmdLine p, pnChildren = [],
                pnDepth = 0, pnStartAt = now, pnEndAt = None\<rparr> t))
          else if meType evt = ''process_terminate'' then
            (case by_pid t (piPID p) of
               None \<Rightarrow> t
             | Some a \<Rightarrow> set_node a (\<lambda>n. n\<lparr>pnEndAt := Some now\<rparr>) t)
          else t)"

section \<open>Ancestry\<close>

text \<open>The loop of \<open>GetAncestors\<close> from the node at \<open>a\<close>.\<close>

definition pids_left :: "ProcessTree \<Rightarrow> int list \<Rightarrow> nat \<Rightarrow> int set" where
  "pids_left t visited a = insert (pnPID (ptHeap t a)) ((\<lambda>b. pnPID (ptHeap t b)) ` snd ` set (ptByPID t)) - set visited"

function anc_loop :: "ProcessTree \<Rightarrow> int list \<Rightarrow> nat \<Rightarrow> ProcNode list" where
  "anc_loop t visited a =
     (let n = ptHeap t a in
      if pnPID n \<in> set visited then []
      else n # (case by_pid t (pnPPID n) of
                  None \<Rightarrow> []
                | Some b \<Rightarrow> anc_loop t (pnPID n # visited) b))"
  by auto
termination
proof (relation "measure (\<lambda>(t, visited, a). card (pids_left t visited a))")
  fix t visited a x b
  assume x: "x = ptHeap t a" and new: "pnPID x \<notin> set visited" and b: "by_pid t (pnPPID x) = Some b"
  have "b \<in> snd ` set (ptByPID t)" using b by (force simp: by_pid_def dest: map_of_SomeD)
  then have "pids_left t (pnPID x # visited) b \<subset> pids_left t visited a" using new x by (auto simp: pids_left_def)
  then show "((t, pnPID x # visited, b), t, visited, a) \<in> measure (\<lambda>(t, visited, a). card (pids_left t visited a))"
    by (simp add: psubset_card_mono pids_left_def)
qed simp

declare anc_loop.simps [simp del]

definition GetAncestors :: "int \<Rightarrow> ProcessTree \<Rightarrow> ProcNode list" where
  "GetAncestors pid t = (case by_pid t pid of None \<Rightarrow> [] | Some a \<Rightarrow> anc_loop t [] a)"

definition suspiciousParents :: "(string \<times> string list) list" where
  "suspiciousParents =
     [(''winword.exe'', [''powershell.exe'', ''cmd.exe'', ''wscript.exe'', ''cscript.exe'', ''rundll32.exe'']),
      (''excel.exe'', [''powershell.exe'', ''cmd.exe'']),
      (''outlook.exe'', [''powershell.exe'', ''wscript.exe'']),
      (''chrome.exe'', [''cmd.exe'', ''powershell.exe'']),
      (''firefox.exe'', [''cmd.exe'', ''powershell.exe'']),
      (''explorer.exe'', [''powershell.exe'', ''cmd.exe'', ''wscript.exe''])]"

definition suspicious :: "ProcNode \<Rightarrow> ProcNode \<Rightarrow> bool" where
  "suspicious parent node \<longleftrightarrow>
     (case map_of suspiciousParents (ToLower (pnName parent)) of
        None \<Rightarrow> False | Some bad \<Rightarrow> ToLower (pnName node) \<in> set bad)"

definition ancestry_alert :: "ProcNode \<Rightarrow> ProcNode \<Rightarrow> string" where
  "ancestry_alert parent node =
     ''suspicious ancestry: '' @ pnName parent @ ''(PID:'' @ show_int (pnPID parent) @ '') spawned '' @
     pnName node @ ''(PID:'' @ show_int (pnPID node) @ '')''"

definition DetectSuspiciousAncestry :: "((int \<times> nat) list \<Rightarrow> (int \<times> nat) list) \<Rightarrow> ProcessTree \<Rightarrow> string list" where
  "DetectSuspiciousAncestry visit t =
     concat (map (\<lambda>(_, a). case by_pid t (pnPPID (ptHeap t a)) of
                     None \<Rightarrow> []
                   | Some p \<Rightarrow> if suspicious (ptHeap t p) (ptHeap t a)
                               then [ancestry_alert (ptHeap t p) (ptHeap t a)] else [])
       (visit (ptByPID t)))"

section \<open>Write-ahead log\<close>

record wal_entry =
  weInfo :: ProcessInfo
  weType :: string
  weTime :: int

definition WALAppend :: "mon_event \<Rightarrow> wal_entry option list \<Rightarrow> wal_entry option list" where
  "WALAppend evt lines =
     (case meProcess evt of
        None \<Rightarrow> lines
      | Some p \<Rightarrow> lines @ [Some \<lparr>weInfo = p, weType = meType evt, weTime = meTimestamp evt\<rparr>])"

fun replay_wal :: "int \<Rightarrow> wal_entry option list \<Rightarrow> ProcessTree \<Rightarrow> ProcessTree" where
  "replay_wal now [] t = t"
| "replay_wal now (None # ls) t = replay_wal now ls t"
| "replay_wal now (Some e # ls) t =
     (let p = weInfo e in
      if by_pid t (piPID p) \<noteq> None then replay_wal now ls t
      else replay_wal now ls (add_node
        \<lparr>pnPID = piPID p, pnPPID = piPPID p, pnName = piName p, pnCmdLine = piCmdLine p, pnChildren = [],
         pnDepth = 0, pnStartAt = weTime e,
         pnEndAt = (if weType e = ''process_terminate'' then Some now else None)\<rparr> t))"

definition ReplayWAL :: "int \<Rightarrow> wal_entry option list \<Rightarrow> ProcessTree \<Rightarrow> ProcessTree" where
  "ReplayWAL now ls t = evictLocked (replay_wal now ls t)"

section \<open>Snapshot\<close>

datatype jnode = JNode (jpid: int) (jppid: int) (jname: string) (jcmd: string) (jdepth: int) (jstart: int)
  (jend: "int option") (jchildren: "jnode list")

text \<open>\<open>json.Marshal\<close> follows the children; \<open>None\<close> when that is deeper than \<open>fuel\<close>, as in a cycle, which it reports as an
  error.\<close>

fun marshal_node :: "nat \<Rightarrow> (nat \<Rightarrow> ProcNode) \<Rightarrow> nat \<Rightarrow> jnode option" where
  "marshal_node 0 h a = None"
| "marshal_node (Suc fuel) h a =
     (let n = h a; cs = map (marshal_node fuel h) (pnChildren n) in
      if None \<in> set cs then None
      else Some (JNode (pnPID n) (pnPPID n) (pnName n) (pnCmdLine n) (pnDepth n) (pnStartAt n) (pnEndAt n) (map the cs)))"

declare marshal_node.simps(2) [simp del]

definition tree_Save :: "((int \<times> nat) list \<Rightarrow> (int \<times> nat) list) \<Rightarrow> ProcessTree \<Rightarrow> jnode list option" where
  "tree_Save visit t =
     (let ns = map (marshal_node (Suc (ptNext t)) (ptHeap t)) (take 10000 (map snd (visit (ptByPID t)))) in
      if None \<in> set ns then None else Some (map the ns))"

text \<open>\<open>json.Unmarshal\<close> builds a new node for every object, the nested ones included.\<close>

fun unmarshal_node :: "jnode \<Rightarrow> ProcessTree \<Rightarrow> nat \<times> ProcessTree"
  and unmarshal_nodes :: "jnode list \<Rightarrow> ProcessTree \<Rightarrow> nat list \<times> ProcessTree" where
  "unmarshal_node (JNode pid ppid name cmd depth start stop cs) t =
     (let (as, t1) = unmarshal_nodes cs t in
      alloc_node \<lparr>pnPID = pid, pnPPID = ppid, pnName = name, pnCmdLine = cmd, pnChildren = as, pnDepth = depth,
        pnStartAt = start, pnEndAt = stop\<rparr> t1)"
| "unmarshal_nodes [] t = ([], t)"
| "unmarshal_nodes (j # js) t =
     (let (a, t1) = unmarshal_node j t; (as, t2) = unmarshal_nodes js t1 in (a # as, t2))"

definition index_node :: "nat \<Rightarrow> ProcessTree \<Rightarrow> ProcessTree" where
  "index_node a t =
     (let pid = pnPID (ptHeap t a) in if by_pid t pid \<noteq> None then t else push_front pid a t)"

definition relink_node :: "nat \<Rightarrow> ProcessTree \<Rightarrow> ProcessTree" where
  "relink_node a t =
     (case by_pid t (pnPPID (ptHeap t a)) of
        None \<Rightarrow> t
      | Some p \<Rightarrow>
          if pnPID (ptHeap t a) \<in> (\<lambda>c. pnPID (ptHeap t c)) ` set (pnChildren (ptHeap t p)) then t
          else let t1 = set_node p (\<lambda>n. n\<lparr>pnChildren := pnChildren n @ [a]\<rparr>) t in
               set_node a (\<lambda>n. n\<lparr>pnDepth := pnDepth (ptHeap t1 p) + 1\<rparr>) t1)"

definition tree_load :: "jnode list \<Rightarrow> ProcessTree \<Rightarrow> ProcessTree" where
  "tree_load nodes t =
     (let (as, t1) = unmarshal_nodes nodes t in fold relink_node as (fold index_node as t1))"

text \<open>The files: the snapshot, and the lines of the log if there is one.  A write or a rename of the snapshot
  may fail; the log is shortened or removed all the same.\<close>

record tree_disk =
  tdSnapshot :: "jnode list option"
  tdWAL :: "wal_entry option list option"

definition save_file ::
  "string option \<Rightarrow> ((int \<times> nat) list \<Rightarrow> (int \<times> nat) list) \<Rightarrow> ProcessTree \<Rightarrow> tree_disk \<Rightarrow> string option \<times> tree_disk" where
  "save_file fault visit t d =
     (case tree_Save visit t of
        None \<Rightarrow> (Some ''json: unsupported value: encountered a cycle'', d)
      | Some ns \<Rightarrow> (case fault of Some e \<Rightarrow> (Some e, d) | None \<Rightarrow> (None, d\<lparr>tdSnapshot := Some ns\<rparr>)))"

definition compactWAL ::
  "int \<Rightarrow> string option \<Rightarrow> ((int \<times> nat) list \<Rightarrow> (int \<times> nat) list) \<Rightarrow> ProcessTree \<Rightarrow> tree_disk \<Rightarrow> tree_disk" where
  "compactWAL sz fault visit t d =
     (case tdWAL d of
        None \<Rightarrow> d
      | Some _ \<Rightarrow>
          if sz < 5 * 1024 * 1024 then d else (snd (save_file fault visit t d))\<lparr>tdWAL := Some []\<rparr>)"

definition tree_Close ::
  "int \<Rightarrow> string option \<Rightarrow> string option \<Rightarrow> ((int \<times> nat) list \<Rightarrow> (int \<times> nat) list) \<Rightarrow> ProcessTree \<Rightarrow> tree_disk \<Rightarrow> tree_disk" where
  "tree_Close sz fault1 fault2 visit t d =
     (snd (save_file fault2 visit t (compactWAL sz fault1 visit t d)))\<lparr>tdWAL := None\<rparr>"

section \<open>Printing\<close>

text \<open>\<open>walk\<close> of \<open>Format\<close>; \<open>None\<close> when it is deeper than \<open>fuel\<close>.  The two box-drawing prefixes are arguments.\<close>

fun walk_tree :: "nat \<Rightarrow> (nat \<Rightarrow> ProcNode) \<Rightarrow> string \<Rightarrow> string \<Rightarrow> string \<Rightarrow> nat \<Rightarrow> string option" where
  "walk_tree 0 h tee bar prefix a = None"
| "walk_tree (Suc fuel) h tee bar prefix a =
     (let n = h a; k = length (pnChildren n);
          line = prefix @ tee @ pnName n @ ''(PID:'' @ show_int (pnPID n) @ '',PPID:'' @ show_int (pnPPID n) @
            '',depth:'' @ show_int (pnDepth n) @ '','' @ (if pnEndAt n = None then ''running'' else ''dead'') @ '')'' @ [CHR 0x0A];
          subs = map (\<lambda>(i, c). walk_tree fuel h tee bar (prefix @ (if i + 1 = k then ''    '' else bar)) c)
                   (zip [0..<k] (pnChildren n)) in
      if None \<in> set subs then None else Some (line @ concat (map the subs)))"

definition tree_Format :: "nat \<Rightarrow> ((int \<times> nat) list \<Rightarrow> (int \<times> nat) list) \<Rightarrow> string \<Rightarrow> string \<Rightarrow> ProcessTree \<Rightarrow> string option" where
  "tree_Format fuel visit tee bar t =
     (let roots = filter (\<lambda>(_, a). pnPPID (ptHeap t a) = 0 \<or> pnPPID (ptHeap t a) = pnPID (ptHeap t a)) (visit (ptByPID t));
          parts = map (\<lambda>(_, a). walk_tree fuel (ptHeap t) tee bar '''' a) roots in
      if None \<in> set parts then None else Some (concat (map the parts)))"

section \<open>The index and the list agree\<close>

definition tree_wf :: "ProcessTree \<Rightarrow> bool" where
  "tree_wf t \<longleftrightarrow> distinct (map fst (ptLRU t)) \<and> distinct (map fst (ptByPID t)) \<and> set (ptByPID t) = set (ptLRU t) \<and>
     (\<forall>(pid, a)\<in>set (ptByPID t). pnPID (ptHeap t a) = pid \<and> a < ptNext t)"

lemma by_pid_iff: "tree_wf t \<Longrightarrow> by_pid t pid = Some a \<longleftrightarrow> (pid, a) \<in> set (ptByPID t)"
  by (auto simp: tree_wf_def by_pid_def)

lemma by_pid_node:
  assumes "tree_wf t" "by_pid t pid = Some a"
  shows "pnPID (ptHeap t a) = pid" "a < ptNext t"
  using assms by (auto simp: by_pid_iff tree_wf_def)

lemma tree_wf_heap:
  assumes "tree_wf t" "ptByPID t' = ptByPID t" "ptLRU t' = ptLRU t" "ptNext t \<le> ptNext t'"
    and "\<And>a. a < ptNext t \<Longrightarrow> pnPID (ptHeap t' a) = pnPID (ptHeap t a)"
  shows "tree_wf t'"
  using assms unfolding tree_wf_def by fastforce

lemma set_node_frame [simp]:
  "ptByPID (set_node a f t) = ptByPID t" "ptLRU (set_node a f t) = ptLRU t" "ptNext (set_node a f t) = ptNext t"
  "ptMaxNodes (set_node a f t) = ptMaxNodes t" "by_pid (set_node a f t) = by_pid t"
  "ptHeap (set_node a f t) b = (if b = a then f (ptHeap t a) else ptHeap t b)"
  by (auto simp: set_node_def by_pid_def)

lemma set_node_wf: "tree_wf t \<Longrightarrow> pnPID (f (ptHeap t a)) = pnPID (ptHeap t a) \<Longrightarrow> tree_wf (set_node a f t)"
  by (erule tree_wf_heap) auto

lemma touchLocked_wf:
  assumes "tree_wf t"
  shows "tree_wf (touchLocked pid t)"
proof (cases "by_pid t pid")
  case None then show ?thesis using assms by (simp add: touchLocked_def)
next
  case (Some a)
  then have "(pid, a) \<in> set (ptLRU t)" using assms by (simp add: by_pid_iff) (simp add: tree_wf_def)
  moreover have "distinct (map fst (ptLRU t))" using assms by (simp add: tree_wf_def)
  ultimately have "set ((pid, a) # filter (\<lambda>e. fst e \<noteq> pid) (ptLRU t)) = set (ptLRU t)"
    "distinct (map fst ((pid, a) # filter (\<lambda>e. fst e \<noteq> pid) (ptLRU t)))"
    by (auto simp: distinct_map_filter dest: eq_key_imp_eq_value)
  then show ?thesis using assms Some by (auto simp: tree_wf_def touchLocked_def)
qed

lemma touchLocked_length:
  assumes "tree_wf t"
  shows "length (ptLRU (touchLocked pid t)) = length (ptLRU t)"
proof -
  have "set (ptLRU (touchLocked pid t)) = set (ptLRU t)" "ptByPID (touchLocked pid t) = ptByPID t"
    using assms touchLocked_wf [OF assms, of pid] by (auto simp: tree_wf_def touchLocked_def split: option.splits)
  moreover have "distinct (ptLRU t)" "distinct (ptLRU (touchLocked pid t))"
    using assms touchLocked_wf [OF assms, of pid] by (simp_all add: tree_wf_def distinct_map)
  ultimately show ?thesis by (metis distinct_card)
qed

lemma drop_last_wf:
  assumes "tree_wf t" "ptLRU t \<noteq> []"
  shows "tree_wf (drop_last_entry t)"
proof -
  obtain xs e where l: "ptLRU t = xs @ [e]" using assms(2) by (cases "ptLRU t" rule: rev_cases) auto
  have "fst e \<notin> fst ` set xs" using assms(1) l by (simp add: tree_wf_def)
  then have "fst x \<noteq> fst e" if "x \<in> set xs" for x using that by (metis imageI)
  then have "{x \<in> set (xs @ [e]). fst x \<noteq> fst e} = set xs" by auto
  then have "set (ptByPID (drop_last_entry t)) = set (ptLRU (drop_last_entry t))"
    using assms(1) l by (simp add: tree_wf_def drop_last_entry_def)
  moreover have "distinct (map fst (ptLRU (drop_last_entry t)))" "distinct (map fst (ptByPID (drop_last_entry t)))"
    using assms(1) l by (simp_all add: tree_wf_def drop_last_entry_def distinct_map_filter)
  moreover have "\<forall>(pid, a)\<in>set (ptByPID (drop_last_entry t)). pnPID (ptHeap t a) = pid \<and> a < ptNext t"
    using assms(1) by (auto simp: tree_wf_def drop_last_entry_def)
  moreover have "ptHeap (drop_last_entry t) = ptHeap t" "ptNext (drop_last_entry t) = ptNext t"
    by (simp_all add: drop_last_entry_def)
  ultimately show ?thesis by (simp add: tree_wf_def)
qed

lemma evict_one_wf:
  assumes "tree_wf t" "ptLRU t \<noteq> []"
  shows "tree_wf (evict_one t)"
proof -
  obtain xs e where l: "ptLRU t = xs @ [e]" using assms(2) by (cases "ptLRU t" rule: rev_cases) auto
  then have "tree_wf (t\<lparr>ptLRU := e # xs\<rparr>)" using assms(1) by (auto simp: tree_wf_def)
  then show ?thesis using assms l drop_last_wf [of t] drop_last_wf [of "t\<lparr>ptLRU := e # xs\<rparr>"] by (simp add: evict_one_def Let_def)
qed

lemma evictLocked_wf:
  assumes "tree_wf t"
  shows "tree_wf (evictLocked t) \<and> length (ptLRU (evictLocked t)) \<le> ptMaxNodes t \<and> ptMaxNodes (evictLocked t) = ptMaxNodes t"
  using assms
proof (induction t rule: evictLocked.induct)
  case (1 t)
  show ?case
  proof (cases "length (ptLRU t) > ptMaxNodes t")
    case True
    then have "tree_wf (evict_one t)" using 1(2) by (intro evict_one_wf) auto
    then show ?thesis using 1(1) [OF True] True by (subst (1 2 3) evictLocked.simps) simp
  next
    case False then show ?thesis using 1(2) by (subst (1 2 3) evictLocked.simps) simp
  qed
qed

lemma link_parent_frame [simp]:
  "ptByPID (link_parent a t) = ptByPID t" "ptLRU (link_parent a t) = ptLRU t" "ptNext (link_parent a t) = ptNext t"
  "ptMaxNodes (link_parent a t) = ptMaxNodes t" "pnPID (ptHeap (link_parent a t) b) = pnPID (ptHeap t b)"
  by (auto simp: link_parent_def split: option.split)

lemma add_node_wf:
  assumes "tree_wf t" "by_pid t (pnPID n) = None"
  shows "tree_wf (add_node n t)" "ptMaxNodes (add_node n t) = ptMaxNodes t"
proof -
  let ?t = "link_parent (ptNext t) (snd (alloc_node n t))"
  have w: "tree_wf ?t" using assms(1) by (rule tree_wf_heap) (auto simp: alloc_node_def)
  have f: "ptByPID ?t = ptByPID t" "ptLRU ?t = ptLRU t" by (simp_all add: alloc_node_def)
  have "pnPID n \<notin> fst ` set (ptByPID t)" using assms(2) by (auto simp: by_pid_def map_of_eq_None_iff)
  then have "tree_wf (push_front (pnPID n) (ptNext t) ?t)"
    using w f by (auto simp: tree_wf_def push_front_def alloc_node_def)
  then show "tree_wf (add_node n t)" by (simp add: add_node_def alloc_node_def)
  show "ptMaxNodes (add_node n t) = ptMaxNodes t" by (simp add: add_node_def alloc_node_def push_front_def)
qed

definition tree_ok :: "ProcessTree \<Rightarrow> bool" where
  "tree_ok t \<longleftrightarrow> tree_wf t \<and> length (ptLRU t) \<le> ptMaxNodes t"

lemma touchLocked_max [simp]: "ptMaxNodes (touchLocked pid t) = ptMaxNodes t"
  by (simp add: touchLocked_def split: option.split)

lemma tree_Insert_ok:
  assumes "tree_ok t"
  shows "tree_ok (tree_Insert now evt t)"
proof (cases "meProcess evt")
  case None then show ?thesis using assms by (simp add: tree_Insert_def)
next
  case (Some p)
  have w: "tree_wf t" and l: "length (ptLRU t) \<le> ptMaxNodes t" using assms by (auto simp: tree_ok_def)
  let ?n = "\<lparr>pnPID = piPID p, pnPPID = piPPID p, pnName = piName p, pnCmdLine = piCmdLine p, pnChildren = [],
    pnDepth = 0, pnStartAt = now, pnEndAt = None\<rparr>"
  have "tree_ok (touchLocked (piPID p) t)"
    using w l touchLocked_wf [OF w] touchLocked_length [OF w] by (simp add: tree_ok_def)
  moreover have "tree_ok (evictLocked (add_node ?n t))" if "by_pid t (piPID p) = None"
    using evictLocked_wf [OF add_node_wf(1) [OF w]] add_node_wf(2) [OF w] that by (simp add: tree_ok_def)
  moreover have "tree_ok (set_node a (\<lambda>n. n\<lparr>pnEndAt := Some now\<rparr>) t)" for a
    using w l by (simp add: tree_ok_def set_node_wf)
  ultimately show ?thesis using Some assms by (auto simp: tree_Insert_def split: option.split)
qed

lemma replay_lines_wf:
  assumes "tree_wf t"
  shows "tree_wf (replay_wal now ls t) \<and> ptMaxNodes (replay_wal now ls t) = ptMaxNodes t"
  using assms
  by (induction now ls t rule: replay_wal.induct) (auto simp: Let_def add_node_wf)

lemma ReplayWAL_ok: "tree_ok t \<Longrightarrow> tree_ok (ReplayWAL now ls t)"
  using replay_lines_wf [of t now ls] evictLocked_wf [of "replay_wal now ls t"] by (simp add: tree_ok_def ReplayWAL_def)

lemma index_node_wf:
  assumes "tree_wf t" "a < ptNext t"
  shows "tree_wf (index_node a t)" "length (ptLRU (index_node a t)) \<le> Suc (length (ptLRU t))"
    "ptMaxNodes (index_node a t) = ptMaxNodes t" "ptNext (index_node a t) = ptNext t" "ptHeap (index_node a t) = ptHeap t"
  using assms by (auto simp: index_node_def Let_def push_front_def tree_wf_def by_pid_def map_of_eq_None_iff)

lemma fold_index_wf:
  assumes "tree_wf t" "\<forall>a\<in>set as. a < ptNext t"
  shows "tree_wf (fold index_node as t) \<and> length (ptLRU (fold index_node as t)) \<le> length as + length (ptLRU t) \<and>
    ptMaxNodes (fold index_node as t) = ptMaxNodes t \<and> ptHeap (fold index_node as t) = ptHeap t"
  using assms
proof (induction as arbitrary: t)
  case (Cons a as)
  have i: "tree_wf (index_node a t)" "length (ptLRU (index_node a t)) \<le> Suc (length (ptLRU t))"
    "ptMaxNodes (index_node a t) = ptMaxNodes t" "ptNext (index_node a t) = ptNext t" "ptHeap (index_node a t) = ptHeap t"
    using index_node_wf [OF Cons.prems(1), of a] Cons.prems(2) by auto
  show ?case using Cons.IH [OF i(1)] Cons.prems(2) i by auto
qed simp

lemma relink_node_frame [simp]:
  "ptByPID (relink_node a t) = ptByPID t" "ptLRU (relink_node a t) = ptLRU t" "ptNext (relink_node a t) = ptNext t"
  "ptMaxNodes (relink_node a t) = ptMaxNodes t" "pnPID (ptHeap (relink_node a t) b) = pnPID (ptHeap t b)"
  by (auto simp: relink_node_def Let_def split: option.split)

lemma fold_relink_frame [simp]:
  "ptByPID (fold relink_node as t) = ptByPID t" "ptLRU (fold relink_node as t) = ptLRU t"
  "ptNext (fold relink_node as t) = ptNext t" "ptMaxNodes (fold relink_node as t) = ptMaxNodes t"
  "pnPID (ptHeap (fold relink_node as t) b) = pnPID (ptHeap t b)"
  by (induction as arbitrary: t) simp_all

text \<open>Reading a snapshot allocates above what is there and leaves index and list alone.\<close>

definition same_fields :: "ProcNode \<Rightarrow> jnode \<Rightarrow> bool" where
  "same_fields n j \<longleftrightarrow> pnPID n = jpid j \<and> pnPPID n = jppid j \<and> pnName n = jname j \<and> pnCmdLine n = jcmd j \<and>
     pnStartAt n = jstart j \<and> pnEndAt n = jend j"

definition tree_grows :: "ProcessTree \<Rightarrow> ProcessTree \<Rightarrow> bool" where
  "tree_grows t t' \<longleftrightarrow> ptByPID t' = ptByPID t \<and> ptLRU t' = ptLRU t \<and> ptMaxNodes t' = ptMaxNodes t \<and> ptNext t \<le> ptNext t' \<and>
     (\<forall>a<ptNext t. ptHeap t' a = ptHeap t a)"

lemma tree_grows_trans: "tree_grows t t' \<Longrightarrow> tree_grows t' t'' \<Longrightarrow> tree_grows t t''"
  by (auto simp: tree_grows_def)

lemma grows_wf: "tree_wf t \<Longrightarrow> tree_grows t t' \<Longrightarrow> tree_wf t'"
  by (erule tree_wf_heap) (auto simp: tree_grows_def)

lemma unmarshal_grows:
  "case unmarshal_node j t of (a, t') \<Rightarrow> tree_grows t t' \<and> a < ptNext t' \<and> same_fields (ptHeap t' a) j"
  "case unmarshal_nodes js t of (as, t') \<Rightarrow> tree_grows t t' \<and> (\<forall>a\<in>set as. a < ptNext t') \<and> list_all2 (\<lambda>a j. same_fields (ptHeap t' a) j) as js"
proof (induction j t and js t rule: unmarshal_node_unmarshal_nodes.induct)
  case (1 pid ppid name cmd depth start stop cs t)
  then show ?case by (auto simp: alloc_node_def tree_grows_def same_fields_def split: prod.splits)
next
  case (2 t) then show ?case by (simp add: tree_grows_def)
next
  case (3 j js t)
  obtain a t1 as t2 where u: "unmarshal_node j t = (a, t1)" "unmarshal_nodes js t1 = (as, t2)" by fastforce
  then have "tree_grows t t1" "a < ptNext t1" "same_fields (ptHeap t1 a) j" "tree_grows t1 t2" "\<forall>a\<in>set as. a < ptNext t2"
    "list_all2 (\<lambda>a j. same_fields (ptHeap t2 a) j) as js"
    using 3 by auto
  then show ?case using u tree_grows_trans by (auto simp: tree_grows_def)
qed

lemma tree_load_ok:
  assumes "tree_wf t"
  shows "tree_wf (tree_load nodes t)" "length (ptLRU (tree_load nodes t)) \<le> length nodes + length (ptLRU t)"
    "ptMaxNodes (tree_load nodes t) = ptMaxNodes t"
proof -
  obtain as t1 where u: "unmarshal_nodes nodes t = (as, t1)" by fastforce
  then have g: "tree_grows t t1" "\<forall>a\<in>set as. a < ptNext t1" "length as = length nodes"
    using unmarshal_grows(2) [where js = nodes and t = t] by (auto dest: list_all2_lengthD)
  note w = fold_index_wf [OF grows_wf [OF assms g(1)] g(2)]
  have l: "tree_load nodes t = fold relink_node as (fold index_node as t1)" by (simp add: tree_load_def u)
  have "tree_wf (fold index_node as t1)" using w by simp
  then show "tree_wf (tree_load nodes t)" unfolding l by (rule tree_wf_heap) simp_all
  show "length (ptLRU (tree_load nodes t)) \<le> length nodes + length (ptLRU t)" "ptMaxNodes (tree_load nodes t) = ptMaxNodes t"
    using w g by (simp_all add: l tree_grows_def)
qed

inductive tree_step :: "ProcessTree \<Rightarrow> ProcessTree \<Rightarrow> bool" where
  TreeInsert: "tree_step t (tree_Insert now evt t)"
| TreeReplay: "tree_step t (ReplayWAL now ls t)"

text \<open>C29. The process tree stays consistent: after reading any snapshot of at most 100000 nodes and any
  sequence of events and replays, the index and the LRU list hold the same entries, no process twice, each
  entry's node carries the process id it is filed under, and there are at most 100000 of them.\<close>

theorem tree_consistent:
  assumes "length nodes \<le> 100000" "tree_step\<^sup>*\<^sup>* (tree_load nodes empty_tree) t"
  shows "tree_ok t"
  using assms(2)
proof (induction rule: rtranclp_induct)
  case base
  have "tree_wf empty_tree" by (simp add: empty_tree_def tree_wf_def)
  then show ?case using tree_load_ok [of empty_tree nodes] assms(1) by (simp add: tree_ok_def empty_tree_def)
next
  case (step t t')
  then show ?case by (auto elim!: tree_step.cases intro: tree_Insert_ok ReplayWAL_ok)
qed

section \<open>Ancestry\<close>

text \<open>A chain of nodes: each is the parent of the one before.\<close>

definition parent_chain :: "ProcNode list \<Rightarrow> bool" where
  "parent_chain ns \<longleftrightarrow> (\<forall>i. Suc i < length ns \<longrightarrow> pnPPID (ns ! i) = pnPID (ns ! Suc i))"

lemma parent_chain_Cons:
  "parent_chain (n # m # ns) \<longleftrightarrow> pnPPID n = pnPID m \<and> parent_chain (m # ns)"
  unfolding parent_chain_def by (auto simp: nth_Cons split: nat.splits)

lemma anc_loop_props:
  assumes "tree_wf t"
  shows "pnPID ` set (anc_loop t visited a) \<inter> set visited = {} \<and> distinct (map pnPID (anc_loop t visited a)) \<and>
    parent_chain (anc_loop t visited a) \<and>
    (pnPID (ptHeap t a) \<notin> set visited \<longrightarrow> anc_loop t visited a \<noteq> [] \<and> hd (anc_loop t visited a) = ptHeap t a) \<and>
    (anc_loop t visited a \<noteq> [] \<longrightarrow>
      (let p = pnPPID (last (anc_loop t visited a)) in
       by_pid t p = None \<or> p \<in> set visited \<or> p \<in> pnPID ` set (anc_loop t visited a)))"
  using assms
proof (induction t visited a rule: anc_loop.induct)
  case (1 t visited a)
  let ?n = "ptHeap t a"
  show ?case
  proof (cases "pnPID ?n \<in> set visited")
    case True then show ?thesis by (simp add: anc_loop.simps [of t visited a] parent_chain_def Let_def)
  next
    case new: False
    show ?thesis
    proof (cases "by_pid t (pnPPID ?n)")
      case None then show ?thesis using new by (simp add: anc_loop.simps [of t visited a] parent_chain_def Let_def)
    next
      case (Some b)
      let ?rest = "anc_loop t (pnPID ?n # visited) b"
      have l: "anc_loop t visited a = ?n # ?rest" using new Some by (subst anc_loop.simps) (simp add: Let_def)
      have ih: "pnPID ` set ?rest \<inter> set (pnPID ?n # visited) = {}" "distinct (map pnPID ?rest)" "parent_chain ?rest"
        "pnPID (ptHeap t b) \<notin> set (pnPID ?n # visited) \<longrightarrow> ?rest \<noteq> [] \<and> hd ?rest = ptHeap t b"
        "?rest \<noteq> [] \<longrightarrow> (let p = pnPPID (last ?rest) in by_pid t p = None \<or> p \<in> set (pnPID ?n # visited) \<or> p \<in> pnPID ` set ?rest)"
        using 1(1) [OF refl new Some 1(2)] by blast+
      have b: "pnPID (ptHeap t b) = pnPPID ?n" using by_pid_node(1) [OF 1(2) Some] .
      show ?thesis
      proof (cases ?rest)
        case Nil
        then have "pnPPID ?n \<in> set (pnPID ?n # visited)" using ih(4) b by auto
        then show ?thesis using new Nil l by (auto simp: parent_chain_def)
      next
        case (Cons m ms)
        then have "pnPID (ptHeap t b) \<notin> set (pnPID ?n # visited)"
          by (metis anc_loop.simps list.distinct(1))
        then have "m = ptHeap t b" using ih(4) Cons by simp
        then have "parent_chain (?n # ?rest)" using ih(3) b Cons by (simp add: parent_chain_Cons)
        then show ?thesis using ih(1,2,5) new Cons l by (auto simp: Let_def)
      qed
    qed
  qed
qed

text \<open>C30. The ancestors of a known process: the list is finite even if the recorded parents form a cycle,
  starts with the process, goes from each process to its parent, names no process twice, and
  ends only where the parent is unknown or already in the list.\<close>

theorem GetAncestors_chain:
  assumes "tree_wf t" "by_pid t pid = Some a"
  shows "GetAncestors pid t \<noteq> [] \<and> pnPID (hd (GetAncestors pid t)) = pid \<and>
    distinct (map pnPID (GetAncestors pid t)) \<and> parent_chain (GetAncestors pid t) \<and>
    (by_pid t (pnPPID (last (GetAncestors pid t))) = None \<or>
     pnPPID (last (GetAncestors pid t)) \<in> pnPID ` set (GetAncestors pid t))"
  using anc_loop_props [OF assms(1), of "[]" a] assms(2) by_pid_node(1) [OF assms] by (simp add: GetAncestors_def Let_def)

section \<open>Snapshots\<close>

text \<open>What the tree knows of a process, children and depth aside.\<close>

definition process_view :: "ProcessTree \<Rightarrow> int \<Rightarrow> (int \<times> string \<times> string \<times> int \<times> int option) option" where
  "process_view t pid = map_option (\<lambda>a. let n = ptHeap t a in (pnPPID n, pnName n, pnCmdLine n, pnStartAt n, pnEndAt n)) (by_pid t pid)"

lemma marshal_fields: "marshal_node fuel h a = Some j \<Longrightarrow> same_fields (h a) j"
  by (cases fuel) (auto simp: same_fields_def marshal_node.simps Let_def split: if_splits)

lemma relink_fields: "same_fields (ptHeap (fold relink_node as t) b) j \<longleftrightarrow> same_fields (ptHeap t b) j"
proof (induction as arbitrary: t)
  case (Cons a as)
  have "same_fields (ptHeap (relink_node a t) b) j \<longleftrightarrow> same_fields (ptHeap t b) j"
    by (auto simp: relink_node_def Let_def same_fields_def split: option.split)
  then show ?case using Cons by simp
qed simp

lemma fold_index_all:
  assumes "tree_wf t" "\<forall>a\<in>set as. a < ptNext t" "distinct (map (\<lambda>a. pnPID (ptHeap t a)) as)"
    and "\<forall>a\<in>set as. pnPID (ptHeap t a) \<notin> fst ` set (ptByPID t)"
  shows "set (ptByPID (fold index_node as t)) = set (ptByPID t) \<union> (\<lambda>a. (pnPID (ptHeap t a), a)) ` set as"
  using assms
proof (induction as arbitrary: t)
  case (Cons a as)
  have "by_pid t (pnPID (ptHeap t a)) = None" using Cons.prems(4) by (simp add: by_pid_def map_of_eq_None_iff)
  then have i: "index_node a t = push_front (pnPID (ptHeap t a)) a t" by (simp add: index_node_def)
  have w: "tree_wf (index_node a t)" "ptNext (index_node a t) = ptNext t" "ptHeap (index_node a t) = ptHeap t"
    using index_node_wf [OF Cons.prems(1)] Cons.prems(2) by auto
  have s: "set (ptByPID (index_node a t)) = insert (pnPID (ptHeap t a), a) (set (ptByPID t))"
    by (simp add: i push_front_def)
  have "pnPID (ptHeap t b) \<noteq> pnPID (ptHeap t a)" if "b \<in> set as" for b
    using Cons.prems(3) that by (metis (mono_tags, lifting) distinct.simps(2) image_eqI list.set_map list.simps(9))
  then have "\<forall>b\<in>set as. pnPID (ptHeap t b) \<notin> fst ` set (ptByPID (index_node a t))" using Cons.prems(4) s by auto
  then have "set (ptByPID (fold index_node as (index_node a t))) =
      set (ptByPID (index_node a t)) \<union> (\<lambda>a. (pnPID (ptHeap t a), a)) ` set as"
    using Cons.IH [OF w(1)] Cons.prems(2,3) w(2,3) by simp
  moreover note s
  ultimately show ?case by auto
qed simp

lemma saved_fields:
  assumes "tree_Save visit t = Some nodes" "length (visit (ptByPID t)) \<le> 10000"
  shows "list_all2 (\<lambda>e j. same_fields (ptHeap t (snd e)) j) (visit (ptByPID t)) nodes"
proof -
  let ?m = "marshal_node (Suc (ptNext t)) (ptHeap t)"
  have n: "nodes = map the (map ?m (map snd (visit (ptByPID t))))" "None \<notin> set (map ?m (map snd (visit (ptByPID t))))"
    using assms unfolding tree_Save_def Let_def by (auto split: if_splits)
  have "same_fields (ptHeap t (snd e)) (the (?m (snd e)))" if e: "e \<in> set (visit (ptByPID t))" for e
  proof -
    have "?m (snd e) \<in> set (map ?m (map snd (visit (ptByPID t))))" unfolding map_map set_map using e by (simp only: comp_def image_eqI)
    then have "?m (snd e) \<noteq> None" using n(2) by metis
    then obtain j where "?m (snd e) = Some j" by (elim not_None_eq [THEN iffD1, THEN exE])
    then show ?thesis using marshal_fields [of _ "ptHeap t" "snd e" j] by simp
  qed
  then show ?thesis unfolding n(1) by (simp add: list_all2_map2 list_all2_same)
qed

lemma loaded_index:
  assumes "distinct (map jpid nodes)"
  shows "\<exists>as. list_all2 (\<lambda>a j. same_fields (ptHeap (tree_load nodes empty_tree) a) j) as nodes \<and>
    set (ptByPID (tree_load nodes empty_tree)) = set (zip (map jpid nodes) as)"
proof -
  obtain as t1 where u: "unmarshal_nodes nodes empty_tree = (as, t1)" by fastforce
  have g: "tree_grows empty_tree t1" "\<forall>a\<in>set as. a < ptNext t1" "list_all2 (\<lambda>a j. same_fields (ptHeap t1 a) j) as nodes"
    using unmarshal_grows(2) [where js = nodes and t = empty_tree] u by auto
  have w: "tree_wf t1" "ptByPID t1 = []" using g(1) by (auto simp: tree_grows_def tree_wf_def empty_tree_def)
  have pids: "map (\<lambda>a. pnPID (ptHeap t1 a)) as = map jpid nodes"
    using g(3) by (induction rule: list_all2_induct) (auto simp: same_fields_def)
  have i: "set (ptByPID (fold index_node as t1)) = (\<lambda>a. (pnPID (ptHeap t1 a), a)) ` set as"
    using fold_index_all [OF w(1) g(2)] pids assms w(2) by simp
  have "zip (map jpid nodes) as = map (\<lambda>a. (pnPID (ptHeap t1 a), a)) as"
    unfolding pids [symmetric] by (simp add: zip_map1 zip_same_conv_map)
  moreover have "ptHeap (fold index_node as t1) = ptHeap t1" using fold_index_wf [OF w(1) g(2)] by simp
  ultimately show ?thesis using i g(3) by (intro exI [of _ as]) (simp add: tree_load_def u relink_fields)
qed


section \<open>Where eviction and printing go wrong\<close>

text \<open>A running process close to the root is meant to be kept.  Only the last entry is looked at: when it is
  protected, the one before it is evicted whatever it is.\<close>

theorem eviction_skips_check:
  assumes "ptLRU t = xs @ [e1, e2]" "protected (ptHeap t (snd e2))" "length (ptLRU t) = Suc (ptMaxNodes t)"
  shows "ptLRU (evictLocked t) = e2 # xs"
proof -
  have "ptLRU (evict_one t) = e2 # xs" using assms(1,2) by (simp add: evict_one_def drop_last_entry_def butlast_append)
  then show ?thesis using assms(1,3) by (subst evictLocked.simps) (subst evictLocked.simps, simp)
qed

text \<open>A process that is recorded as its own parent becomes its own child when a snapshot is read; printing the
  tree then never ends, at whatever depth it is cut off.\<close>

lemma self_child_walk: "a \<in> set (pnChildren (h a)) \<Longrightarrow> walk_tree fuel h tee bar prefix a = None"
proof (induction fuel arbitrary: prefix)
  case (Suc fuel)
  then obtain i where i: "i < length (pnChildren (h a))" "pnChildren (h a) ! i = a" by (auto simp: in_set_conv_nth)
  let ?sub = "\<lambda>(i, c). walk_tree fuel h tee bar (prefix @ (if i + 1 = length (pnChildren (h a)) then ''    '' else bar)) c"
  have "(i, a) \<in> set (zip [0..<length (pnChildren (h a))] (pnChildren (h a)))" using i by (auto simp: set_zip intro!: exI [of _ i])
  then have "?sub (i, a) \<in> set (map ?sub (zip [0..<length (pnChildren (h a))] (pnChildren (h a))))"
    by (metis (no_types, lifting) image_eqI list.set_map)
  moreover have "?sub (i, a) = None" using Suc by simp
  ultimately show ?case by (simp add: Let_def)
qed simp

theorem Format_self_parent:
  "tree_Format fuel (\<lambda>es. es) tee bar (tree_load [JNode pid pid name cmd depth start stop []] empty_tree) = None"
proof -
  let ?t = "tree_load [JNode pid pid name cmd depth start stop []] empty_tree"
  have t: "ptByPID ?t = [(pid, 0)]" "pnPPID (ptHeap ?t 0) = pnPID (ptHeap ?t 0)" "0 \<in> set (pnChildren (ptHeap ?t 0))"
    by (simp_all add: tree_load_def empty_tree_def alloc_node_def index_node_def push_front_def by_pid_def relink_node_def set_node_def Let_def)
  then show ?thesis using self_child_walk [of 0 "ptHeap ?t"] by (simp add: tree_Format_def)
qed

section \<open>A concrete tree\<close>

definition create_event :: "int \<Rightarrow> int \<Rightarrow> string \<Rightarrow> mon_event" where
  "create_event pid ppid name =
     \<lparr>meID = '''', meTimestamp = 0, meType = ''process_create'', meSeverity = 1,
      meProcess = Some \<lparr>piPID = pid, piPPID = ppid, piName = name, piCmdLine = name\<rparr>,
      meFile = None, meNetwork = None, meRaw = [], meAnnotations = []\<rparr>"

definition sample_tree :: ProcessTree where
  "sample_tree = tree_Insert 2 (create_event 20 10 ''cmd.exe'') (tree_Insert 1 (create_event 10 20 ''winword.exe'') (tree_load [] empty_tree))"

lemma tree_consistent_witness: "tree_ok sample_tree"
proof -
  have "tree_step\<^sup>*\<^sup>* (tree_load [] empty_tree) sample_tree"
    unfolding sample_tree_def by (blast intro: rtranclp.rtrancl_into_rtrancl tree_step.TreeInsert rtranclp.rtrancl_refl)
  then show ?thesis using tree_consistent [of "[]" sample_tree] by simp
qed

lemma sample_tree_wf: "tree_wf sample_tree"
proof -
  have "tree_wf empty_tree" by (simp add: empty_tree_def tree_wf_def)
  then have "tree_ok (tree_load [] empty_tree)" using tree_load_ok [of empty_tree "[]"] by (simp add: tree_ok_def empty_tree_def)
  then have "tree_ok sample_tree" unfolding sample_tree_def by (intro tree_Insert_ok)
  then show ?thesis by (simp add: tree_ok_def)
qed

lemma sample_tree_index: "ptByPID sample_tree = [(20, 1), (10, 0)]" "pnChildren (ptHeap sample_tree 0) = [1]"
    "pnChildren (ptHeap sample_tree 1) = []" "ptNext sample_tree = 2"
  by (simp_all add: sample_tree_def create_event_def tree_load_def empty_tree_def tree_Insert_def add_node_def alloc_node_def
      link_parent_def push_front_def by_pid_def set_node_def evictLocked.simps Let_def)

lemma GetAncestors_chain_witness:
  "GetAncestors 20 sample_tree \<noteq> [] \<and> pnPID (hd (GetAncestors 20 sample_tree)) = 20 \<and>
    distinct (map pnPID (GetAncestors 20 sample_tree)) \<and> parent_chain (GetAncestors 20 sample_tree)"
proof -
  have "by_pid sample_tree 20 = Some 1" by (simp add: by_pid_def sample_tree_index)
  from GetAncestors_chain [OF sample_tree_wf this] show ?thesis by blast
qed


end
