(* ===== verification/Event_Correlator.thy ===== *)
theory Event_Correlator
  imports Agent_Filters Go_Time
begin

text \<open>
  The event correlator of the endpoint agent (\<open>internal/edr_agent/monitor/correlator.go\<close>): a bounded buffer of
  recent events, rules that count events in a window, suppression of repeated alerts, and the detection of files
  that are created and deleted at once.

  One call holds the lock from start to end; its readings of the clock are one instant \<open>now\<close>.  Random
  identifiers and the digest of a path are arguments, and the alert channel is a buffered channel that drops
  when it is full.
\<close>

section \<open>State\<close>

record CorrRule =
  cuName :: string
  cuDescription :: string
  cuWindow :: int
  cuThreshold :: int
  cuEventTypes :: "string list"
  cuSeverity :: int
  cuSuppressMs :: int

record Correlator =
  coOut :: "mon_event bchan"
  coBuffer :: "mon_event list"
  coBufferSize :: nat
  coRules :: "CorrRule list"
  coSuppress :: "string \<Rightarrow> int option"
  coCreated :: "string \<Rightarrow> mon_event option"

definition Millisecond :: int where "Millisecond = 1000000"

definition corr_rule :: "string \<Rightarrow> string \<Rightarrow> int \<Rightarrow> int \<Rightarrow> string \<Rightarrow> int \<Rightarrow> int \<Rightarrow> CorrRule" where
  "corr_rule name desc window threshold ty sev ms =
     \<lparr>cuName = name, cuDescription = desc, cuWindow = window, cuThreshold = threshold, cuEventTypes = [ty],
      cuSeverity = sev, cuSuppressMs = ms\<rparr>"

definition defaultCorrRules :: "CorrRule list" where
  "defaultCorrRules =
     [corr_rule ''process_burst'' ''Process creation burst'' (5 * Second) 20 ''process_create'' SeverityWarning 30000,
      corr_rule ''rapid_deletion'' ''Rapid file deletion'' (10 * Second) 50 ''file_delete'' SeverityWarning 60000,
      corr_rule ''suspicious_children'' ''Suspicious child process burst'' (30 * Second) 3 ''process_create'' SeverityAlert 120000,
      corr_rule ''connection_burst'' ''Outbound connection burst'' (10 * Second) 15 ''net_connect'' SeverityWarning 30000]"

definition NewCorrelator :: "nat \<Rightarrow> Correlator" where
  "NewCorrelator outCap =
     \<lparr>coOut = ([], outCap), coBuffer = [], coBufferSize = 2000, coRules = defaultCorrRules,
      coSuppress = (\<lambda>_. None), coCreated = (\<lambda>_. None)\<rparr>"

section \<open>Loading rules\<close>

fun check_corr_rules :: "nat \<Rightarrow> CorrRule list \<Rightarrow> string option" where
  "check_corr_rules i [] = None"
| "check_corr_rules i (r # rs) =
     (if cuName r = '''' then Some (''correlator: rule '' @ show_nat i @ '' has no name'')
      else if cuWindow r \<le> 0 then Some (''correlator: rule '' @ go_quote (cuName r) @ '' has invalid window'')
      else if cuThreshold r \<le> 0
      then Some (''correlator: rule '' @ go_quote (cuName r) @ '' has invalid threshold: '' @ show_int (cuThreshold r))
      else check_corr_rules (Suc i) rs)"

datatype rule_file = Missing | Unreadable string | Undecodable string | RuleFile "CorrRule list"

definition LoadRules :: "rule_file \<Rightarrow> Correlator \<Rightarrow> string option \<times> Correlator" where
  "LoadRules f c =
     (case f of
        Missing \<Rightarrow> (None, c)
      | Unreadable e \<Rightarrow> (Some e, c)
      | Undecodable e \<Rightarrow> (Some (''correlator: invalid rule JSON: '' @ e), c)
      | RuleFile rules \<Rightarrow>
          (case check_corr_rules 0 rules of Some e \<Rightarrow> (Some e, c) | None \<Rightarrow> (None, c\<lparr>coRules := rules\<rparr>)))"

section \<open>Evaluation\<close>

definition emitLocked :: "mon_event \<Rightarrow> Correlator \<Rightarrow> Correlator" where
  "emitLocked evt c = (case ch_send evt (coOut c) of Some ch \<Rightarrow> c\<lparr>coOut := ch\<rparr> | None \<Rightarrow> c)"

definition corr_eventKey :: "(string \<Rightarrow> string) \<Rightarrow> mon_event \<Rightarrow> string" where
  "corr_eventKey digest evt =
     (case meProcess evt of
        Some p \<Rightarrow> ''pid:'' @ show_int (piPID p)
      | None \<Rightarrow>
     (case meFile evt of
        Some f \<Rightarrow> ''file:'' @ digest (mfPath f)
      | None \<Rightarrow>
     (case meNetwork evt of
        Some n \<Rightarrow> ''net:'' @ niRemoteIP n @ '':'' @ show_int (niRemotePort n)
      | None \<Rightarrow> ''evt:'' @ show_int (meTimestamp evt))))"

definition matchesType :: "CorrRule \<Rightarrow> mon_event \<Rightarrow> bool" where
  "matchesType rule evt \<longleftrightarrow> cuEventTypes rule = [] \<or> meType evt \<in> set (cuEventTypes rule)"

definition windowEventsLocked :: "CorrRule \<Rightarrow> int \<Rightarrow> Correlator \<Rightarrow> mon_event list" where
  "windowEventsLocked rule t c =
     filter (\<lambda>evt. (meTimestamp evt > t - cuWindow rule \<and> meTimestamp evt < t \<or> meTimestamp evt = t) \<and> matchesType rule evt)
       (coBuffer c)"

definition sup_key :: "(string \<Rightarrow> string) \<Rightarrow> CorrRule \<Rightarrow> mon_event \<Rightarrow> string" where
  "sup_key digest rule evt = cuName rule @ '':'' @ corr_eventKey digest evt"

definition suppressed :: "int \<Rightarrow> CorrRule \<Rightarrow> string \<Rightarrow> Correlator \<Rightarrow> bool" where
  "suppressed now rule key c \<longleftrightarrow>
     (case coSuppress c key of None \<Rightarrow> False | Some t \<Rightarrow> now - t < cuSuppressMs rule * Millisecond)"

definition score :: "CorrRule \<Rightarrow> nat \<Rightarrow> int" where
  "score rule n = go_quot (int n * cuSeverity rule) (cuThreshold rule)"

definition rule_fires :: "int \<Rightarrow> (string \<Rightarrow> string) \<Rightarrow> mon_event \<Rightarrow> CorrRule \<Rightarrow> Correlator \<Rightarrow> bool" where
  "rule_fires now digest evt rule c \<longleftrightarrow>
     (let n = length (windowEventsLocked rule (meTimestamp evt) c) in
      matchesType rule evt \<and> \<not> suppressed now rule (sup_key digest rule evt) c \<and>
      int n \<ge> cuThreshold rule \<and> score rule n \<ge> 3)"

definition rule_alert :: "int \<Rightarrow> string \<Rightarrow> CorrRule \<Rightarrow> nat \<Rightarrow> mon_event" where
  "rule_alert now uuid rule n =
     \<lparr>meID = uuid, meTimestamp = now, meType = ''alert'', meSeverity = cuSeverity rule, meProcess = None, meFile = None,
      meNetwork = None, meRaw = [],
      meAnnotations = [(''correlation'', cuName rule), (''description'', cuDescription rule), (''count'', show_nat n),
        (''score'', show_int (score rule n))]\<rparr>"

definition eval_rule ::
  "int \<Rightarrow> (CorrRule \<Rightarrow> string) \<Rightarrow> (string \<Rightarrow> string) \<Rightarrow> mon_event \<Rightarrow> CorrRule \<Rightarrow> Correlator \<Rightarrow> Correlator" where
  "eval_rule now uuid digest evt rule c =
     (if rule_fires now digest evt rule c
      then emitLocked (rule_alert now (uuid rule) rule (length (windowEventsLocked rule (meTimestamp evt) c)))
             (c\<lparr>coSuppress := (coSuppress c)(sup_key digest rule evt \<mapsto> now)\<rparr>)
      else c)"

definition evaluateLocked ::
  "int \<Rightarrow> (CorrRule \<Rightarrow> string) \<Rightarrow> (string \<Rightarrow> string) \<Rightarrow> mon_event \<Rightarrow> Correlator \<Rightarrow> Correlator" where
  "evaluateLocked now uuid digest evt c = fold (eval_rule now uuid digest evt) (coRules c) c"

definition buffer_event :: "mon_event \<Rightarrow> Correlator \<Rightarrow> Correlator" where
  "buffer_event evt c =
     (let b = coBuffer c @ [evt] in
      c\<lparr>coBuffer := (if length b > coBufferSize c then drop (length b - coBufferSize c) b else b)\<rparr>)"

definition create_then_delete :: "int \<Rightarrow> string \<Rightarrow> MonFileInfo \<Rightarrow> mon_event" where
  "create_then_delete now uuid f =
     \<lparr>meID = uuid, meTimestamp = now, meType = ''alert'', meSeverity = SeverityWarning, meProcess = None, meFile = Some f,
      meNetwork = None, meRaw = [],
      meAnnotations = [(''correlation'', ''create_then_delete''), (''details'', mfPath f @ '' created then deleted in <5s'')]\<rparr>"

definition track_files :: "int \<Rightarrow> string \<Rightarrow> mon_event \<Rightarrow> Correlator \<Rightarrow> Correlator" where
  "track_files now uuid evt c =
     (case meFile evt of
        None \<Rightarrow> c
      | Some f \<Rightarrow>
          if mfPath f = '''' then c
          else if meType evt = ''file_create'' then c\<lparr>coCreated := (coCreated c)(mfPath f \<mapsto> evt)\<rparr>
          else if meType evt = ''file_delete'' then
            (case coCreated c (mfPath f) of
               None \<Rightarrow> c
             | Some createEvt \<Rightarrow>
                 (let c1 = (if now - meTimestamp createEvt < 5 * Second
                            then emitLocked (create_then_delete now uuid f) c else c) in
                  c1\<lparr>coCreated := (coCreated c1)(mfPath f := None)\<rparr>))
          else c)"

definition Ingestion ::
  "int \<Rightarrow> string \<Rightarrow> (CorrRule \<Rightarrow> string) \<Rightarrow> (string \<Rightarrow> string) \<Rightarrow> mon_event \<Rightarrow> Correlator \<Rightarrow> Correlator" where
  "Ingestion now uuid uuids digest evt c =
     evaluateLocked now uuids digest evt (track_files now uuid evt (buffer_event evt c))"

definition corr_trim :: "int \<Rightarrow> Correlator \<Rightarrow> Correlator" where
  "corr_trim now c =
     c\<lparr>coBuffer := filter (\<lambda>evt. meTimestamp evt > now - 5 * Minute) (coBuffer c),
       coCreated := (\<lambda>p. case coCreated c p of
                           None \<Rightarrow> None | Some evt \<Rightarrow> if now - meTimestamp evt > 10 * Second then None else Some evt)\<rparr>"

section \<open>The buffer and the rules stay in bounds\<close>

definition corr_ok :: "Correlator \<Rightarrow> bool" where
  "corr_ok c \<longleftrightarrow> length (coBuffer c) \<le> coBufferSize c \<and> list_all (\<lambda>r. 0 < cuWindow r \<and> 0 < cuThreshold r) (coRules c) \<and>
     length (fst (coOut c)) \<le> snd (coOut c)"

lemma ch_send_bound: "ch_send x ch = Some ch' \<Longrightarrow> length (fst ch) \<le> snd ch \<Longrightarrow> length (fst ch') \<le> snd ch'"
  by (auto simp: ch_send_def split: if_splits)

lemma emitLocked_frame [simp]:
  "coBuffer (emitLocked e c) = coBuffer c" "coBufferSize (emitLocked e c) = coBufferSize c" "coRules (emitLocked e c) = coRules c"
  "coSuppress (emitLocked e c) = coSuppress c" "coCreated (emitLocked e c) = coCreated c"
  by (auto simp: emitLocked_def split: option.split)

lemma emitLocked_ok: "corr_ok c \<Longrightarrow> corr_ok (emitLocked e c)"
  unfolding corr_ok_def emitLocked_frame by (auto simp: emitLocked_def dest: ch_send_bound split: option.split)

lemma corr_ok_cong:
  "coBuffer c' = coBuffer c \<Longrightarrow> coBufferSize c' = coBufferSize c \<Longrightarrow> coRules c' = coRules c \<Longrightarrow> coOut c' = coOut c \<Longrightarrow> corr_ok c' = corr_ok c"
  by (simp add: corr_ok_def)

lemma eval_rule_ok:
  assumes "corr_ok c"
  shows "corr_ok (eval_rule now uuid digest evt rule c)"
proof -
  have "corr_ok (c\<lparr>coSuppress := s\<rparr>)" for s using assms by (simp add: corr_ok_def)
  then show ?thesis using assms by (simp add: eval_rule_def emitLocked_ok)
qed

lemma fold_eval_ok: "corr_ok c \<Longrightarrow> corr_ok (fold (eval_rule now uuid digest evt) rules c)"
  by (induction rules arbitrary: c) (simp_all add: eval_rule_ok)

lemma track_files_ok:
  assumes "corr_ok c"
  shows "corr_ok (track_files now uuid evt c)"
proof -
  have upd: "corr_ok d \<Longrightarrow> corr_ok (d\<lparr>coCreated := m\<rparr>)" for d m by (simp add: corr_ok_def)
  show ?thesis using assms upd emitLocked_ok [OF assms]
    by (auto simp: track_files_def Let_def split: option.split)
qed

lemma Ingestion_ok:
  assumes "corr_ok c"
  shows "corr_ok (Ingestion now uuid uuids digest evt c)"
proof -
  have "corr_ok (buffer_event evt c)" using assms by (auto simp: corr_ok_def buffer_event_def Let_def)
  then show ?thesis by (simp add: Ingestion_def evaluateLocked_def track_files_ok fold_eval_ok)
qed

lemma check_rules_None: "check_corr_rules i rules = None \<Longrightarrow> list_all (\<lambda>r. 0 < cuWindow r \<and> 0 < cuThreshold r) rules"
  by (induction i rules rule: check_corr_rules.induct) (auto split: if_splits)

lemma LoadRules_ok: "corr_ok c \<Longrightarrow> corr_ok (snd (LoadRules f c))"
  using check_rules_None by (auto simp: LoadRules_def corr_ok_def split: rule_file.split option.split)

lemma corr_trim_ok: "corr_ok c \<Longrightarrow> corr_ok (corr_trim now c)"
  by (auto simp: corr_ok_def corr_trim_def intro: le_trans [OF length_filter_le])

inductive corr_step :: "Correlator \<Rightarrow> Correlator \<Rightarrow> bool" where
  CorrIngest: "corr_step c (Ingestion now uuid uuids digest evt c)"
| CorrLoad: "corr_step c (snd (LoadRules f c))"
| CorrTrim: "corr_step c (corr_trim now c)"

text \<open>Whatever is ingested, loaded and trimmed, the buffer keeps its bound and no rule in force has an empty
  window or a threshold that the score would be divided by zero with.\<close>

theorem correlator_bounded:
  assumes "corr_step\<^sup>*\<^sup>* (NewCorrelator outCap) c"
  shows "corr_ok c"
  using assms
proof (induction rule: rtranclp_induct)
  case base
  then show ?case by (simp add: corr_ok_def NewCorrelator_def defaultCorrRules_def corr_rule_def Second_def)
next
  case (step c c')
  then show ?case by (auto elim!: corr_step.cases intro: Ingestion_ok LoadRules_ok corr_trim_ok)
qed

section \<open>Suppression\<close>

text \<open>The alerts of a run, each with its suppression key, its time and the pause its rule asks for.\<close>

fun fired_rules ::
  "int \<Rightarrow> (CorrRule \<Rightarrow> string) \<Rightarrow> (string \<Rightarrow> string) \<Rightarrow> mon_event \<Rightarrow> CorrRule list \<Rightarrow> Correlator \<Rightarrow> (string \<times> int \<times> int) list" where
  "fired_rules now uuid digest evt [] c = []"
| "fired_rules now uuid digest evt (r # rs) c =
     (if rule_fires now digest evt r c then [(sup_key digest r evt, now, cuSuppressMs r * Millisecond)] else []) @
     fired_rules now uuid digest evt rs (eval_rule now uuid digest evt r c)"

fun corr_run ::
  "string \<Rightarrow> (CorrRule \<Rightarrow> string) \<Rightarrow> (string \<Rightarrow> string) \<Rightarrow> (int \<times> mon_event) list \<Rightarrow> Correlator \<Rightarrow> (string \<times> int \<times> int) list" where
  "corr_run uuid uuids digest [] c = []"
| "corr_run uuid uuids digest ((now, evt) # calls) c =
     (let c1 = track_files now uuid evt (buffer_event evt c) in
      fired_rules now uuids digest evt (coRules c1) c1 @
      corr_run uuid uuids digest calls (Ingestion now uuid uuids digest evt c))"

definition paused :: "(string \<times> int \<times> int) list \<Rightarrow> bool" where
  "paused log \<longleftrightarrow> sorted_wrt (\<lambda>(k1, t1, _) (k2, t2, pause). k1 = k2 \<longrightarrow> t2 - t1 \<ge> pause) log"

definition remembered :: "(string \<times> int \<times> int) list \<Rightarrow> int \<Rightarrow> (string \<Rightarrow> int option) \<Rightarrow> bool" where
  "remembered log now sp \<longleftrightarrow> (\<forall>(k, t, _)\<in>set log. \<exists>u. sp k = Some u \<and> t \<le> u \<and> u \<le> now)"

lemma fired_rules_paused:
  assumes "paused log" "remembered log now (coSuppress c)"
  shows "paused (log @ fired_rules now uuid digest evt rs c) \<and>
    remembered (log @ fired_rules now uuid digest evt rs c) now (coSuppress (fold (eval_rule now uuid digest evt) rs c))"
  using assms
proof (induction rs arbitrary: log c)
  case (Cons r rs)
  show ?case
  proof (cases "rule_fires now digest evt r c")
    case False
    then show ?thesis using Cons by (simp add: eval_rule_def)
  next
    case True
    let ?k = "sup_key digest r evt" and ?new = "(sup_key digest r evt, now, cuSuppressMs r * Millisecond)"
    have s: "coSuppress (eval_rule now uuid digest evt r c) = (coSuppress c)(?k \<mapsto> now)" using True by (simp add: eval_rule_def)
    have "now - t \<ge> cuSuppressMs r * Millisecond" if l: "(?k, t, p) \<in> set log" for t p
    proof -
      obtain u where "coSuppress c ?k = Some u" "t \<le> u" using Cons.prems(2) l unfolding remembered_def by blast
      then show ?thesis using True by (auto simp: rule_fires_def suppressed_def Let_def)
    qed
    then have "paused (log @ [?new])" using Cons.prems(1) by (auto simp: paused_def sorted_wrt_append)
    moreover have "remembered (log @ [?new]) now (coSuppress (eval_rule now uuid digest evt r c))"
      using Cons.prems(2) by (fastforce simp: remembered_def s)
    ultimately show ?thesis using Cons.IH [of "log @ [?new]" "eval_rule now uuid digest evt r c"] True by simp
  qed
qed simp

lemma track_files_suppress [simp]: "coSuppress (track_files now uuid evt c) = coSuppress c"
  by (auto simp: track_files_def Let_def split: option.split)

lemma corr_run_paused:
  assumes "paused log" "remembered log recent (coSuppress c)" "sorted (map fst calls)" "\<forall>x\<in>set calls. recent \<le> fst x"
  shows "paused (log @ corr_run uuid uuids digest calls c)"
  using assms
proof (induction calls arbitrary: log recent c)
  case (Cons x calls)
  obtain now evt where x: "x = (now, evt)" by (cases x)
  let ?c = "track_files now uuid evt (buffer_event evt c)"
  have "remembered log now (coSuppress ?c)"
    using Cons.prems(2,4) x by (fastforce simp: remembered_def buffer_event_def Let_def)
  from fired_rules_paused [OF Cons.prems(1) this, of uuids digest evt "coRules ?c"]
  have "paused (log @ fired_rules now uuids digest evt (coRules ?c) ?c)"
    "remembered (log @ fired_rules now uuids digest evt (coRules ?c) ?c) now (coSuppress (Ingestion now uuid uuids digest evt c))"
    by (simp_all add: Ingestion_def evaluateLocked_def)
  then have "paused ((log @ fired_rules now uuids digest evt (coRules ?c) ?c) @ corr_run uuid uuids digest calls (Ingestion now uuid uuids digest evt c))"
    using Cons.prems(3) x by (intro Cons.IH [of _ now]) simp_all
  then show ?case by (simp add: x Let_def)
qed simp

text \<open>Suppression of the correlator: in every run with a clock that does not go back, two alerts with the
  same rule name and event key are at least as far apart as the later one's rule asks for.\<close>

theorem correlator_suppression:
  assumes "sorted (map fst calls)"
  shows "paused (corr_run uuid uuids digest calls (NewCorrelator outCap))"
proof (cases calls)
  case Nil then show ?thesis by (simp add: paused_def)
next
  case (Cons x xs)
  then show ?thesis
    using corr_run_paused [of "[]" "fst x" "NewCorrelator outCap" calls] assms by (simp add: paused_def remembered_def NewCorrelator_def)
qed

definition spawn :: "int \<Rightarrow> int \<Rightarrow> int \<times> mon_event" where
  "spawn t pid =
     (t, \<lparr>meID = '''', meTimestamp = t, meType = ''process_create'', meSeverity = 1,
      meProcess = Some \<lparr>piPID = pid, piPPID = 1, piName = ''sh'', piCmdLine = ''sh''\<rparr>,
      meFile = None, meNetwork = None, meRaw = [], meAnnotations = []\<rparr>)"

lemma correlator_suppression_witness:
  "paused (corr_run '''' (\<lambda>_. '''') (\<lambda>_. '''') [spawn 1 7, spawn 2 8, spawn 3 9, spawn 4 10] (NewCorrelator 8))"
  by (rule correlator_suppression) (simp add: spawn_def)

text \<open>The key names the process, so a burst of new processes is not suppressed: the third and every later creation
  within half a minute is an alert of its own.\<close>

theorem burst_alerts_repeat:
  "map fst (corr_run '''' (\<lambda>_. '''') (\<lambda>_. '''') [spawn 1 7, spawn 2 8, spawn 3 9, spawn 4 10] (NewCorrelator 8)) =
     [''suspicious_children:pid:9'', ''suspicious_children:pid:10'']"
  by code_simp

end
