(* ===== verification/Siem_Rules.thy ===== *)
theory Siem_Rules
  imports Alert_Manager Go_Time Sliding_Window Server_Auth
begin

text \<open>
  The rule engine of the SIEM (\<open>internal/siem/rules.go\<close>): compiling conditions, loading rules, mapping
  them to compliance controls, and evaluating events with suppression and threshold windows.

  The table of rules that a converter generates (\<open>wazuh_rules_gen.go\<close>) is an argument, and so are regular
  expressions, durations, floating-point comparison and the parsing of addresses, all of
  Go's library: a compiled expression is its pattern.  A YAML file is what its decoder gives.
\<close>

section \<open>Rules\<close>

type_synonym rule_action = "string \<times> obj"
type_synonym compliance = "(string \<times> string list) list"
type_synonym compliance_table = "(string list \<times> compliance) list"

record CompiledRule =
  ruRuleID :: string
  ruDescription :: string
  ruSeverity :: int
  ruMITRE :: string
  ruCompliance :: compliance
  ruActions :: "rule_action list"
  ruCondition :: string
  ruField :: string
  ruOperator :: string
  ruValue :: string
  ruRe :: "string option"
  ruReErr :: "string option"
  ruWindow :: int
  ruSuppress :: int
  ruThreshold :: int

record YAMLRule =
  yrRuleID :: string
  yrDescription :: string
  yrSeverity :: int
  yrMITRE :: string
  yrCondition :: string
  yrWindow :: string
  yrThreshold :: int
  yrSuppress :: string
  yrPlaybook :: string
  yrParams :: "(string \<times> string) list"

record rule_env =
  rvCompile :: "string \<Rightarrow> string option"
  rvMatch :: "string \<Rightarrow> string \<Rightarrow> bool"
  rvDuration :: "string \<Rightarrow> int option"
  rvGreater :: "string \<Rightarrow> string \<Rightarrow> bool"
  rvIP :: "string \<Rightarrow> string option"
  rvCIDR :: "string \<Rightarrow> string \<Rightarrow> bool option"

definition parseDuration :: "rule_env \<Rightarrow> string \<Rightarrow> int" where
  "parseDuration env s = (case rvDuration env s of Some d \<Rightarrow> d | None \<Rightarrow> 0)"

text \<open>The three parts of \<open>strings.SplitN(expr, " ", 3)\<close>, if there are three.\<close>

definition split3 :: "string \<Rightarrow> (string \<times> string \<times> string) option" where
  "split3 expr =
     (case SplitN2 CHR '' '' expr of
        (a, None) \<Rightarrow> None
      | (a, Some r) \<Rightarrow> (case SplitN2 CHR '' '' r of (b, None) \<Rightarrow> None | (b, Some c) \<Rightarrow> Some (a, b, c)))"

text \<open>Operator, field, value, compiled expression and error.\<close>

definition compileCondition :: "rule_env \<Rightarrow> string \<Rightarrow> string \<times> string \<times> string \<times> string option \<times> string option" where
  "compileCondition env condition =
     (if \<not> HasPrefix condition ''field:'' then ('''', '''', '''', None, None)
      else case split3 (TrimPrefix condition ''field:'') of
        None \<Rightarrow> ('''', '''', '''', None, Some (''malformed field condition '' @ go_quote condition))
      | Some (field, op, v) \<Rightarrow>
          let val = Trim v [CHR 0x22] in
          if op \<noteq> ''~='' then (op, field, val, None, None)
          else if length val > 512
          then (op, field, val, None, Some (''regex too long ('' @ show_nat (length val) @ ''>512) in '' @ go_quote condition))
          else (case rvCompile env (''(?i)'' @ val) of
                  Some e \<Rightarrow> (op, field, val, None, Some (''bad regex in '' @ go_quote condition @ '': '' @ e))
                | None \<Rightarrow> (op, field, val, Some (''(?i)'' @ val), None)))"

definition with_condition :: "rule_env \<Rightarrow> CompiledRule \<Rightarrow> CompiledRule" where
  "with_condition env r =
     (case compileCondition env (ruCondition r) of (op, field, val, re, err) \<Rightarrow>
        r\<lparr>ruOperator := op, ruField := field, ruValue := val, ruRe := re, ruReErr := err\<rparr>)"

definition compileYAMLRule :: "rule_env \<Rightarrow> YAMLRule \<Rightarrow> CompiledRule" where
  "compileYAMLRule env yr =
     with_condition env
       \<lparr>ruRuleID = yrRuleID yr, ruDescription = yrDescription yr, ruSeverity = ClampSeverity (yrSeverity yr), ruMITRE = yrMITRE yr,
        ruCompliance = [],
        ruActions = (if yrPlaybook yr \<noteq> '''' then [(yrPlaybook yr, map (\<lambda>(k, v). (k, VStr v)) (yrParams yr))] else []),
        ruCondition = yrCondition yr, ruField = '''', ruOperator = '''', ruValue = '''', ruRe = None, ruReErr = None,
        ruWindow = parseDuration env (yrWindow yr), ruSuppress = parseDuration env (yrSuppress yr),
        ruThreshold = yrThreshold yr\<rparr>"

section \<open>Compliance controls\<close>

definition credential_rows :: compliance_table where
  "credential_rows =
     [([''T1110'', ''T1110.001'', ''T1110.002'', ''T1110.003'', ''T1110.004''], [(''pci_dss_v4.0'', [''6.2'', ''8.2.1'']),
        (''pci_dss_v3.2.1'', [''6.2'', ''8.2.1'']), (''hipaa'', [''164.312(a)(1)'', ''164.312(d)'']), (''gdpr'',
        [''Art.32'']), (''nist_sp_800-53'', [''AC-7'', ''IA-5'']), (''iso_27001-2013'', [''A.9.2.1'', ''A.9.4.2'']),
        (''soc_2'', [''CC6.1''])]),
      ([''T1190'', ''T1133''], [(''pci_dss_v4.0'', [''1.2.5'', ''6.2'']), (''pci_dss_v3.2.1'', [''1.2.1'', ''6.2'']),
        (''hipaa'', [''164.312(a)(1)'', ''164.312(e)(1)'']), (''gdpr'', [''Art.32'']), (''nist_sp_800-53'', [''AC-17'',
        ''SC-7'']), (''iso_27001-2013'', [''A.13.1.1'']), (''soc_2'', [''CC6.6'']), (''cis_csc_v8'', [''4.8''])]),
      ([''T1566'', ''T1566.001'', ''T1566.002'', ''T1566.003''], [(''pci_dss_v4.0'', [''6.2'', ''8.2.1'']), (''hipaa'',
        [''164.308(a)(1)(i)'', ''164.308(a)(5)(i)'']), (''gdpr'', [''Art.32'']), (''nist_sp_800-53'', [''AC-3'', ''SI-2'']),
        (''iso_27001-2013'', [''A.7.2.2''])]),
      ([''T1059'', ''T1059.001'', ''T1059.003'', ''T1059.005'', ''T1059.006'', ''T1059.007''], [(''pci_dss_v4.0'',
        [''6.4.1'', ''2.2.4'']), (''hipaa'', [''164.312(c)(1)'', ''164.312(a)(2)(iv)'']), (''gdpr'', [''Art.32'']),
        (''nist_sp_800-53'', [''AU-3'', ''CM-7(5)'']), (''iso_27001-2013'', [''A.12.5.1'', ''A.12.14.1'']), (''soc_2'',
        [''CC6.8''])]),
      ([''T1204'', ''T1204.002''], [(''pci_dss_v4.0'', [''5.1'', ''6.2'']), (''hipaa'', [''164.312(c)(1)'',
        ''164.310(d)(1)'']), (''gdpr'', [''Art.32'']), (''nist_sp_800-53'', [''SI-16'', ''CM-7(5)'']), (''cis_csc_v8'',
        [''10.5''])]),
      ([''T1547'', ''T1547.001''], [(''pci_dss_v4.0'', [''5.1'', ''2.2.4'']), (''hipaa'', [''164.312(c)(1)'',
        ''164.310(d)(1)'']), (''gdpr'', [''Art.32'']), (''nist_sp_800-53'', [''CM-7(5)'', ''SI-16''])]),
      ([''T1543'', ''T1543.003''], [(''pci_dss_v4.0'', [''5.1'', ''2.2.4'']), (''hipaa'', [''164.312(c)(1)'']), (''gdpr'',
        [''Art.32'']), (''nist_sp_800-53'', [''CM-7(5)'']), (''soc_2'', [''CC6.8''])]),
      ([''T1053'', ''T1053.005''], [(''pci_dss_v4.0'', [''6.4.1'', ''2.2.4'']), (''hipaa'', [''164.312(c)(1)'']),
        (''nist_sp_800-53'', [''CM-7(5)''])]),
      ([''T1003''], [(''pci_dss_v4.0'', [''6.2'', ''8.2.1'']), (''hipaa'', [''164.312(a)(1)'', ''164.312(a)(2)(iv)'']),
        (''gdpr'', [''Art.32'']), (''nist_sp_800-53'', [''IA-5'', ''AC-3'']), (''iso_27001-2013'', [''A.9.2.1'',
        ''A.9.4.2''])]),
      ([''T1078'', ''T1078.003''], [(''pci_dss_v4.0'', [''8.2.1'', ''8.3.2'']), (''pci_dss_v3.2.1'', [''8.2.1'',
        ''8.3.1'']), (''hipaa'', [''164.312(a)(1)'', ''164.312(d)'']), (''gdpr'', [''Art.32'']), (''nist_sp_800-53'',
        [''AC-3'', ''IA-5'']), (''soc_2'', [''CC6.3''])]),
      ([''T1562'', ''T1562.001''], [(''pci_dss_v4.0'', [''5.1'', ''6.4.1'']), (''hipaa'', [''164.312(c)(1)'',
        ''164.310(d)(1)'']), (''gdpr'', [''Art.32'']), (''nist_sp_800-53'', [''SI-16'', ''CM-7(5)'']), (''soc_2'',
        [''CC6.8''])]),
      ([''T1070'', ''T1070.004''], [(''pci_dss_v4.0'', [''10.2.1'', ''10.4.1'']), (''hipaa'', [''164.312(b)'',
        ''164.308(a)(1)(ii)(D)'']), (''gdpr'', [''Art.32'', ''Art.30'']), (''nist_sp_800-53'', [''AU-3'', ''AU-12'']),
        (''iso_27001-2013'', [''A.12.4.1'']), (''soc_2'', [''CC7.1'']), (''cis_csc_v8'', [''8.8''])]),
      ([''T1046''], [(''pci_dss_v4.0'', [''1.2.5'', ''2.2.5'']), (''hipaa'', [''164.312(a)(1)'', ''164.312(e)(1)'']),
        (''nist_sp_800-53'', [''SC-7'', ''AC-3'']), (''iso_27001-2013'', [''A.13.1.3''])]),
      ([''T1021'', ''T1021.001'', ''T1021.002'', ''T1021.004''], [(''pci_dss_v4.0'', [''8.2.1'', ''1.2.5'']), (''hipaa'',
        [''164.312(e)(1)'', ''164.312(a)(1)'']), (''gdpr'', [''Art.32'']), (''nist_sp_800-53'', [''AC-17(2)'', ''SC-8'']),
        (''cis_csc_v8'', [''3.10''])]),
      ([''T1071'', ''T1071.001'', ''T1071.004''], [(''pci_dss_v4.0'', [''4.1'', ''4.1.1'']), (''hipaa'', [''164.312(e)(1)'',
        ''164.312(e)(2)(ii)'']), (''gdpr'', [''Art.32'']), (''nist_sp_800-53'', [''SC-8'', ''SC-13'']), (''soc_2'',
        [''CC6.6'']), (''cis_csc_v8'', [''3.10''])])]"

definition impact_rows :: compliance_table where
  "impact_rows =
     [([''T1048''], [(''pci_dss_v4.0'', [''4.1'', ''4.2.1'']), (''hipaa'', [''164.312(e)(1)'', ''164.312(e)(2)(ii)'']),
        (''gdpr'', [''Art.32'', ''Art.33'']), (''nist_sp_800-53'', [''SC-8'', ''AU-12''])]),
      ([''T1490''], [(''pci_dss_v4.0'', [''6.2'', ''10.4.1'']), (''hipaa'', [''164.312(c)(2)'', ''164.308(a)(7)'']),
        (''gdpr'', [''Art.32'', ''Art.33'']), (''nist_sp_800-53'', [''SI-2(2)'', ''CP-10'']), (''soc_2'', [''CC7.1''])]),
      ([''T1095''], [(''pci_dss_v4.0'', [''4.1'', ''4.1.1'']), (''nist_sp_800-53'', [''SC-13'', ''SC-8''])]),
      ([''T1014''], [(''pci_dss_v4.0'', [''5.1'', ''6.2'']), (''hipaa'', [''164.312(c)(1)'', ''164.310(d)(1)'']), (''gdpr'',
        [''Art.32'']), (''nist_sp_800-53'', [''SI-16'', ''CM-7(5)''])]),
      ([''T1072''], [(''pci_dss_v4.0'', [''6.4.1'', ''2.2.4'']), (''nist_sp_800-53'', [''CM-7(5)'', ''SA-10'']), (''soc_2'',
        [''CC6.8''])]),
      ([''T1083''], [(''pci_dss_v4.0'', [''2.2.5'']), (''nist_sp_800-53'', [''AC-3'', ''AU-12''])]),
      ([''T1137''], [(''pci_dss_v4.0'', [''5.1'', ''6.2'']), (''nist_sp_800-53'', [''CM-7(5)''])]),
      ([''T1505.003''], [(''pci_dss_v4.0'', [''6.2'', ''6.4.1'']), (''hipaa'', [''164.312(c)(1)'']), (''gdpr'',
        [''Art.32'']), (''nist_sp_800-53'', [''SC-7'', ''CM-7(5)''])]),
      ([''T1203''], [(''pci_dss_v4.0'', [''6.2'', ''5.1'']), (''hipaa'', [''164.312(c)(1)'']), (''gdpr'', [''Art.32'']),
        (''nist_sp_800-53'', [''SI-2(2)'', ''SI-16'']), (''cis_csc_v8'', [''7.3''])]),
      ([''T1213''], [(''pci_dss_v4.0'', [''8.2.1'', ''4.1'']), (''hipaa'', [''164.312(a)(1)'', ''164.312(e)(2)(ii)'']),
        (''nist_sp_800-53'', [''AC-3'', ''SC-8''])]),
      ([''T1210''], [(''pci_dss_v4.0'', [''1.2.5'', ''6.2'']), (''hipaa'', [''164.312(a)(1)'', ''164.312(e)(1)'']),
        (''gdpr'', [''Art.32'']), (''nist_sp_800-53'', [''SC-7'', ''SI-2(2)'']), (''iso_27001-2013'', [''A.13.1.3''])]),
      ([''T1068''], [(''pci_dss_v4.0'', [''6.2'', ''8.2.1'']), (''hipaa'', [''164.312(a)(1)'', ''164.312(d)'']), (''gdpr'',
        [''Art.32'']), (''nist_sp_800-53'', [''AC-3'', ''SI-2(2)'']), (''cis_csc_v8'', [''7.3''])]),
      ([''T1539''], [(''pci_dss_v4.0'', [''6.2'', ''8.2.1'']), (''nist_sp_800-53'', [''AC-3'', ''SC-8''])]),
      ([''T1486''], [(''pci_dss_v4.0'', [''6.2'', ''10.4.1'']), (''hipaa'', [''164.312(c)(2)'', ''164.308(a)(7)'']),
        (''gdpr'', [''Art.32'', ''Art.33'']), (''nist_sp_800-53'', [''SC-13'', ''CP-10'']), (''soc_2'', [''CC7.1'']),
        (''cis_csc_v8'', [''10.5''])]),
      ([''T1529''], [(''pci_dss_v4.0'', [''6.2'', ''10.4.1'']), (''hipaa'', [''164.312(c)(2)'', ''164.308(a)(7)'']),
        (''nist_sp_800-53'', [''SI-2(2)'', ''CP-10''])]),
      ([''T1485''], [(''pci_dss_v4.0'', [''6.2'', ''10.4.1'']), (''hipaa'', [''164.312(c)(2)'', ''164.308(a)(7)'']),
        (''gdpr'', [''Art.32'', ''Art.33'']), (''nist_sp_800-53'', [''CP-10''])]),
      ([''T1098'', ''T1098.001''], [(''pci_dss_v4.0'', [''8.2.1'', ''6.4.1'']), (''hipaa'', [''164.312(a)(1)'',
        ''164.312(a)(2)(iv)'']), (''gdpr'', [''Art.32'']), (''nist_sp_800-53'', [''AC-3'', ''IA-5'']), (''soc_2'',
        [''CC6.3''])]),
      ([''T1114''], [(''pci_dss_v4.0'', [''4.2.1'', ''8.2.1'']), (''hipaa'', [''164.312(a)(1)'', ''164.312(e)(2)(ii)'']),
        (''nist_sp_800-53'', [''AC-3'', ''SC-8''])]),
      ([''T1074''], [(''pci_dss_v4.0'', [''2.2.5'']), (''nist_sp_800-53'', [''AU-12'', ''AC-3''])])]"

definition discovery_rows :: compliance_table where
  "discovery_rows =
     [([''T1555'', ''T1555.003''], [(''pci_dss_v4.0'', [''6.2'', ''8.2.1'']), (''hipaa'', [''164.312(a)(1)'',
        ''164.312(d)'']), (''gdpr'', [''Art.32'']), (''nist_sp_800-53'', [''IA-5'', ''AC-3''])]),
      ([''T1499''], [(''pci_dss_v4.0'', [''6.2'', ''10.4.1'']), (''nist_sp_800-53'', [''SI-2(2)'', ''SC-5'']), (''soc_2'',
        [''CC7.1''])]),
      ([''T1565'', ''T1565.001''], [(''pci_dss_v4.0'', [''6.2'', ''10.4.1'']), (''hipaa'', [''164.312(c)(1)'',
        ''164.312(c)(2)'']), (''gdpr'', [''Art.32'']), (''nist_sp_800-53'', [''SI-16'', ''SC-13'']), (''soc_2'',
        [''CC7.1''])]),
      ([''T1087''], [(''pci_dss_v4.0'', [''8.2.1'']), (''nist_sp_800-53'', [''AU-12'', ''AC-3''])]),
      ([''T1049''], [(''pci_dss_v4.0'', [''1.2.5'', ''2.2.5'']), (''nist_sp_800-53'', [''SC-7'', ''AC-3''])]),
      ([''T1559''], [(''pci_dss_v4.0'', [''1.4'', ''4.1.1'']), (''hipaa'', [''164.312(e)(1)'']), (''nist_sp_800-53'',
        [''SC-8'', ''SC-13''])]),
      ([''T1199''], [(''pci_dss_v4.0'', [''8.2.1'', ''6.2'']), (''nist_sp_800-53'', [''AC-3'', ''IA-5'']), (''soc_2'',
        [''CC6.3''])]),
      ([''T1219''], [(''pci_dss_v4.0'', [''2.2.5'', ''1.2.5'']), (''nist_sp_800-53'', [''AC-17'', ''SC-7'']),
        (''cis_csc_v8'', [''4.8''])]),
      ([''T1560''], [(''pci_dss_v4.0'', [''10.4.1'', ''4.1'']), (''nist_sp_800-53'', [''AU-12''])]),
      ([''T1567''], [(''pci_dss_v4.0'', [''4.1'', ''4.2.1'']), (''hipaa'', [''164.312(e)(1)'', ''164.312(e)(2)(ii)'']),
        (''gdpr'', [''Art.32'', ''Art.33'']), (''nist_sp_800-53'', [''SC-8'', ''AU-12''])]),
      ([''T1598''], [(''pci_dss_v4.0'', [''6.2'']), (''hipaa'', [''164.308(a)(5)(i)'']), (''gdpr'', [''Art.32'']),
        (''nist_sp_800-53'', [''SI-2'', ''AT-2''])]),
      ([''T1561'', ''T1561.001''], [(''pci_dss_v4.0'', [''6.2'', ''10.4.1'']), (''hipaa'', [''164.312(c)(2)'',
        ''164.308(a)(7)'']), (''gdpr'', [''Art.32'', ''Art.33'']), (''nist_sp_800-53'', [''CP-10''])]),
      ([''T1528''], [(''pci_dss_v4.0'', [''6.2'', ''8.2.1'']), (''gdpr'', [''Art.32'']), (''nist_sp_800-53'', [''AC-3'',
        ''IA-5''])]),
      ([''T1556'', ''T1556.004''], [(''pci_dss_v4.0'', [''6.2'', ''8.2.1'']), (''hipaa'', [''164.312(a)(1)'',
        ''164.312(d)'']), (''nist_sp_800-53'', [''AC-3'', ''CM-7(5)'']), (''soc_2'', [''CC6.8''])]),
      ([''T1124''], [(''nist_sp_800-53'', [''AU-12''])]),
      ([''T1497''], [(''nist_sp_800-53'', [''SI-16''])]),
      ([''T1574'', ''T1574.004''], [(''pci_dss_v4.0'', [''5.1'', ''2.2.4'']), (''hipaa'', [''164.312(c)(1)'']),
        (''nist_sp_800-53'', [''SI-16'', ''CM-7(5)''])]),
      ([''T1082''], [(''nist_sp_800-53'', [''AU-12'']), (''soc_2'', [''CC7.1''])]),
      ([''T1036''], [(''pci_dss_v4.0'', [''5.1'', ''6.4.1'']), (''nist_sp_800-53'', [''SI-16'', ''CM-7(5)''])]),
      ([''T1055''], [(''pci_dss_v4.0'', [''5.1'', ''6.4.1'']), (''hipaa'', [''164.312(c)(1)'']), (''nist_sp_800-53'',
        [''SI-16'', ''CM-7(5)'']), (''soc_2'', [''CC6.8''])]),
      ([''T1552'', ''T1552.004'', ''T1552.007''], [(''pci_dss_v4.0'', [''6.2'', ''8.2.1'']), (''hipaa'', [''164.312(a)(1)'',
        ''164.312(d)'']), (''gdpr'', [''Art.32'']), (''nist_sp_800-53'', [''IA-5'', ''AC-3''])])]"

definition evasion_rows :: compliance_table where
  "evasion_rows =
     [([''T1048.003''], [(''pci_dss_v4.0'', [''4.1'', ''4.2.1'']), (''hipaa'', [''164.312(e)(1)'', ''164.312(e)(2)(ii)'']),
        (''gdpr'', [''Art.32'']), (''nist_sp_800-53'', [''SC-8'', ''AU-12''])]),
      ([''T1090'', ''T1090.001''], [(''pci_dss_v4.0'', [''4.1'', ''1.2.5'']), (''nist_sp_800-53'', [''SC-7'', ''SC-13'']),
        (''soc_2'', [''CC6.6''])]),
      ([''T1550'', ''T1550.002''], [(''pci_dss_v4.0'', [''8.3.2'', ''8.2.1'']), (''hipaa'', [''164.312(a)(1)'',
        ''164.312(d)'']), (''gdpr'', [''Art.32'']), (''nist_sp_800-53'', [''AC-3'', ''IA-5''])]),
      ([''T1222'', ''T1222.002''], [(''pci_dss_v4.0'', [''6.4.1'', ''2.2.4'']), (''nist_sp_800-53'', [''CM-7(5)'',
        ''AC-3''])]),
      ([''T1005''], [(''pci_dss_v4.0'', [''2.2.5'', ''8.2.1'']), (''hipaa'', [''164.312(a)(1)'']), (''nist_sp_800-53'',
        [''AC-3'', ''AU-12''])]),
      ([''T1134''], [(''pci_dss_v4.0'', [''6.2'', ''8.2.1'']), (''hipaa'', [''164.312(a)(1)'', ''164.312(a)(2)(iv)'']),
        (''nist_sp_800-53'', [''AC-3'', ''IA-5''])]),
      ([''T1518'', ''T1518.001''], [(''nist_sp_800-53'', [''SI-16'', ''AU-12''])]),
      ([''T1039''], [(''pci_dss_v4.0'', [''2.2.5'', ''8.2.1'']), (''nist_sp_800-53'', [''AC-3'', ''SC-7''])]),
      ([''T1595''], [(''pci_dss_v4.0'', [''1.2.5'']), (''nist_sp_800-53'', [''SC-7'', ''SI-2(2)''])]),
      ([''T1018''], [(''pci_dss_v4.0'', [''1.2.5'']), (''nist_sp_800-53'', [''SC-7'', ''AU-12''])]),
      ([''T1045''], [(''nist_sp_800-53'', [''SI-16'', ''CM-7(5)''])]),
      ([''T1054''], [(''pci_dss_v4.0'', [''5.1'', ''6.4.1'']), (''nist_sp_800-53'', [''SI-16'', ''CM-7(5)''])]),
      ([''T1012''], [(''nist_sp_800-53'', [''AU-12'']), (''soc_2'', [''CC7.1''])])]"

definition compliance_rows :: compliance_table where
  "compliance_rows = credential_rows @ impact_rows @ discovery_rows @ evasion_rows"

definition add_controls :: "string \<times> string list \<Rightarrow> compliance \<Rightarrow> compliance" where
  "add_controls e c = (case e of (framework, controls) \<Rightarrow>
     put framework ((case map_of c framework of Some cs \<Rightarrow> cs | None \<Rightarrow> []) @ controls) c)"

text \<open>The \<open>switch\<close> over one technique.\<close>

definition technique_controls :: "string \<Rightarrow> compliance" where
  "technique_controls m = (case find (\<lambda>(ids, _). m \<in> set ids) compliance_rows of Some (_, cs) \<Rightarrow> cs | None \<Rightarrow> [])"

definition severity_controls :: "int \<Rightarrow> compliance" where
  "severity_controls severity =
     (if severity \<ge> 10 then [(''pci_dss_v4.0'', [''6.2'']), (''hipaa'', [''164.312(a)(1)'']), (''gdpr'', [''Art.32''])]
      else if severity \<ge> 7 then [(''pci_dss_v4.0'', [''6.2'']), (''hipaa'', [''164.308(a)(1)(i)''])]
      else if severity \<ge> 4 then [(''pci_dss_v3.2.1'', [''6.2'']), (''nist_sp_800-53'', [''AU-12''])] else [])"

definition mapCompliance :: "string \<Rightarrow> int \<Rightarrow> compliance" where
  "mapCompliance mitre severity =
     (if mitre = '''' \<and> severity = 0 then []
      else let c = fold (\<lambda>m. fold add_controls (technique_controls (TrimSpace m))) (Split CHR '','' mitre) [] in
           if c = [] then severity_controls severity else c)"

section \<open>Built-in rules and loading\<close>

definition builtin :: "string \<Rightarrow> string \<Rightarrow> int \<Rightarrow> string \<Rightarrow> string \<Rightarrow> int \<Rightarrow> int \<Rightarrow> rule_action list \<Rightarrow> CompiledRule" where
  "builtin rid desc sev mitre cond threshold windowDur actions =
     \<lparr>ruRuleID = rid, ruDescription = desc, ruSeverity = sev, ruMITRE = mitre, ruCompliance = [], ruActions = actions,
      ruCondition = cond, ruField = '''', ruOperator = '''', ruValue = '''', ruRe = None, ruReErr = None, ruWindow = windowDur,
      ruSuppress = 0, ruThreshold = threshold\<rparr>"

definition builtinRules :: "CompiledRule list" where
  "builtinRules =
     [builtin ''MULTIPLE_FAILED_LOGINS'' ''Multiple failed login attempts from same source''
        4 ''T1110.003'' ''tag:auth_failure'' 5 (60 * Second) [(''ip-reputation'', [(''ip'', VStr ''${source_ip}'')])],
      builtin ''FAILED_LOGIN_BRUTE'' ''Single source brute-forcing login''
        5 ''T1110'' ''tag:auth_failure'' 20 (60 * Second) [],
      builtin ''HTTP_5XX_ERROR'' ''Server error response'' 3 '''' ''tag:http_error'' 1 0 [],
      builtin ''HTTP_4XX_BURST'' ''Multiple client errors from same source''
        2 '''' ''tag:http_client_error'' 10 (60 * Second) [(''ip-reputation'', [(''ip'', VStr ''${client_ip}'')])],
      builtin ''SUSPICIOUS_PROCESS'' ''Suspicious process execution detected''
        4 ''T1059'' ''tag:process'' 0 0 [(''file-analysis'', [(''path'', VStr ''${process_path}'')])],
      builtin ''HIGH_SEVERITY_ERROR'' ''High severity error in system logs'' 3 '''' ''tag:error'' 1 0 [],
      builtin ''WINDOWS_EVENT_4625_BURST'' ''Multiple Windows failed logon events''
        4 ''T1110.003'' ''tag:auth_failure'' 5 (60 * Second) [],
      builtin ''BRUTE_FORCE_FALLBACK'' ''Multiple auth failures from same source (any service)''
        3 ''T1110'' ''field:message ~= (?i)failed'' 10 (120 * Second) [],
      builtin ''WIN_POWERSHELL_4104'' ''PowerShell script block logging (Event 4104)''
        3 ''T1059.001'' ''tag:powershell'' 1 0 [(''log-analysis'', [(''event_id'', VStr ''4104'')])],
      builtin ''WIN_SCHEDULED_TASK_4698'' (''Scheduled task created (Event 4698) '' @ [CHR 0xE2, CHR 0x80, CHR 0x94] @ '' potential persistence'')
        4 ''T1053.005'' ''tag:persistence'' 1 0 [(''file-analysis'', [(''path'', VStr ''${process_path}'')])],
      builtin ''WIN_SERVICE_INSTALL_7045'' ''New service installed (Event 7045)''
        4 ''T1543.003'' ''tag:service_install'' 1 0 [],
      builtin ''WIN_DEFENDER_1116'' ''Windows Defender detected malware (Event 1116)''
        5 ''T1204'' ''tag:malware_detection'' 1 0 [(''file-analysis'', [(''path'', VStr ''${file_path}'')])],
      builtin ''WIN_PROCESS_4688_CREATION'' ''Process creation with command line (Event 4688)''
        2 ''T1059'' ''tag:process_creation'' 1 0 [],
      builtin ''WIN_REGISTRY_PERSISTENCE'' ''Registry persistence modification (Event 4657)''
        3 ''T1547.001'' ''tag:registry_change'' 1 0 [],
      builtin ''WIN_RDP_LOGIN_4625'' ''RDP failed login (Event 4625, LogonType 10)''
        3 ''T1021.001'' ''field:logontype == 10'' 1 0 [],
      builtin ''WIN_ACCOUNT_LOCKOUT_4740'' ''User account locked out (Event 4740)''
        3 ''T1110'' ''tag:account_lockout'' 1 0 []]"

record RuleEngine =
  reRules :: "CompiledRule list"
  reCorrelation :: "string \<Rightarrow> int list option"
  reSuppression :: "string \<Rightarrow> int option"

fun load_rules :: "rule_env \<Rightarrow> YAMLRule list \<Rightarrow> RuleEngine \<Rightarrow> string option \<times> RuleEngine" where
  "load_rules env [] re = (None, re)"
| "load_rules env (yr # yrs) re =
     (if yrRuleID yr = '''' \<or> yrCondition yr = '''' then (Some ''rule missing rule_id/condition'', re)
      else let cr = compileYAMLRule env yr in
           case ruReErr cr of
             Some e \<Rightarrow> (Some (''rule '' @ yrRuleID yr @ '': '' @ e), re)
           | None \<Rightarrow> load_rules env yrs (re\<lparr>reRules := reRules re @ [cr]\<rparr>))"

definition LoadYAML :: "rule_env \<Rightarrow> nat \<Rightarrow> YAMLRule list result \<Rightarrow> RuleEngine \<Rightarrow> string option \<times> RuleEngine" where
  "LoadYAML env sz decoded re =
     (case decoded of
        Inl e \<Rightarrow> (Some (''parse yaml: '' @ e), re)
      | Inr yrs \<Rightarrow>
          if sz > 1048576 then (Some (''rule pack too large ('' @ show_nat sz @ '' bytes, cap 1MiB)''), re)
          else load_rules env yrs re)"

text \<open>The files of a directory with the extension \<open>.yaml\<close>: name, and size and content or the error of reading it.\<close>

fun load_files ::
  "rule_env \<Rightarrow> (string \<times> (nat \<times> YAMLRule list result) result) list \<Rightarrow> RuleEngine \<Rightarrow> string option \<times> RuleEngine" where
  "load_files env [] re = (None, re)"
| "load_files env ((name, content) # fs) re =
     (case content of
        Inl e \<Rightarrow> (Some (''read '' @ name @ '': '' @ e), re)
      | Inr (sz, decoded) \<Rightarrow>
          (case LoadYAML env sz decoded re of
             (Some e, re') \<Rightarrow> (Some (''load '' @ name @ '': '' @ e), re')
           | (None, re') \<Rightarrow> load_files env fs re'))"

text \<open>\<open>None\<close> for a directory that cannot be listed: a missing one is no error.\<close>

definition LoadYAMLDir ::
  "rule_env \<Rightarrow> (string \<times> (nat \<times> YAMLRule list result) result) list + bool \<times> string \<Rightarrow> RuleEngine \<Rightarrow> string option \<times> RuleEngine" where
  "LoadYAMLDir env listing re =
     (case listing of
        Inl fs \<Rightarrow> load_files env fs re
      | Inr (missing, e) \<Rightarrow> (if missing then None else Some e, re))"

text \<open>A rule with a bad condition is kept without it; every rule gets its controls.\<close>

definition disable_bad :: "CompiledRule \<Rightarrow> CompiledRule" where
  "disable_bad r =
     r\<lparr>ruCondition := (if ruReErr r \<noteq> None then '''' else ruCondition r), ruCompliance := mapCompliance (ruMITRE r) (ruSeverity r)\<rparr>"

definition finalize_rule :: "rule_env \<Rightarrow> CompiledRule \<Rightarrow> CompiledRule" where
  "finalize_rule env r =
     (let r1 = r\<lparr>ruSeverity := ClampSeverity (ruSeverity r)\<rparr> in
      disable_bad (if ruRe r1 = None \<and> ruReErr r1 = None \<and> ruCondition r1 \<noteq> '''' then with_condition env r1 else r1))"

definition LoadDefault :: "rule_env \<Rightarrow> CompiledRule list \<Rightarrow> YAMLRule list \<Rightarrow> RuleEngine \<Rightarrow> RuleEngine" where
  "LoadDefault env external embedded re =
     (let re1 = snd (load_rules env embedded (re\<lparr>reRules := external @ builtinRules\<rparr>)) in
      re1\<lparr>reRules := map (finalize_rule env) (reRules re1)\<rparr>)"

definition NewRuleEngine :: "rule_env \<Rightarrow> CompiledRule list \<Rightarrow> YAMLRule list \<Rightarrow> RuleEngine" where
  "NewRuleEngine env external embedded =
     LoadDefault env external embedded \<lparr>reRules = [], reCorrelation = (\<lambda>_. None), reSuppression = (\<lambda>_. None)\<rparr>"

definition LoadRule :: "rule_env \<Rightarrow> CompiledRule \<Rightarrow> RuleEngine \<Rightarrow> RuleEngine" where
  "LoadRule env r re =
     (let r1 = r\<lparr>ruSeverity := ClampSeverity (ruSeverity r)\<rparr> in
      re\<lparr>reRules := reRules re @
        [disable_bad (if ruRe r1 = None \<and> ruCondition r1 \<noteq> '''' then with_condition env r1 else r1)]\<rparr>)"

section \<open>Matching\<close>

record siem_event =
  seTimestamp :: int
  seSource :: string
  seRaw :: string
  seFields :: obj
  seTags :: "string list"
  seSeverity :: int

fun get_path :: "obj \<Rightarrow> string list \<Rightarrow> any" where
  "get_path flds [] = VNil"
| "get_path flds [part] = (case map_of flds part of Some v \<Rightarrow> v | None \<Rightarrow> VNil)"
| "get_path flds (part # parts) =
     (case map_of flds part of Some (VMap m) \<Rightarrow> get_path m parts | _ \<Rightarrow> VNil)"

definition getField :: "obj \<Rightarrow> string \<Rightarrow> any" where
  "getField flds path = get_path flds (Split CHR ''.'' path)"

definition cidrContains :: "rule_env \<Rightarrow> string \<Rightarrow> string \<Rightarrow> bool" where
  "cidrContains env ipStr cidrStr =
     (let ips = TrimSpace ipStr; cidr = TrimSpace cidrStr in
      if ips = '''' \<or> cidr = '''' then False
      else if \<not> Contains cidr ''/'' then ips = cidr
      else case rvIP env (TrimSpace ips) of
        None \<Rightarrow> False
      | Some ip \<Rightarrow>
          (if ip = '''' then False
           else (case rvIP env ip of
                   None \<Rightarrow> False
                 | Some parsed \<Rightarrow> (case rvCIDR env cidr parsed of Some b \<Rightarrow> b | None \<Rightarrow> False))))"

definition evaluateCompiledRule :: "rule_env \<Rightarrow> CompiledRule \<Rightarrow> siem_event \<Rightarrow> bool" where
  "evaluateCompiledRule env rule event =
     (let v = go_sprint (getField (seFields event) (ruField rule)) in
      if ruOperator rule = ''=='' then v = ruValue rule
      else if ruOperator rule = ''!='' then v \<noteq> ruValue rule
      else if ruOperator rule = ''~='' then (case ruRe rule of None \<Rightarrow> False | Some re \<Rightarrow> rvMatch env re v)
      else if ruOperator rule = ''>'' then rvGreater env v (ruValue rule)
      else if ruOperator rule = ''<'' then rvGreater env (ruValue rule) v
      else if ruOperator rule = ''in'' then cidrContains env v (ruValue rule)
      else False)"

definition matchesCondition :: "rule_env \<Rightarrow> CompiledRule \<Rightarrow> siem_event \<Rightarrow> bool" where
  "matchesCondition env rule event =
     (let cond = ruCondition rule in
      if cond = '''' then False
      else if HasPrefix cond ''tag:'' then TrimPrefix cond ''tag:'' \<in> set (seTags event)
      else if HasPrefix cond ''field:'' then evaluateCompiledRule env rule event
      else if HasPrefix cond ''severity>='' then
        seSeverity event \<ge> (case go_Atoi (TrimPrefix cond ''severity>='') of Some n \<Rightarrow> n | None \<Rightarrow> 0)
      else False)"

definition correlationEntity :: "siem_event \<Rightarrow> string" where
  "correlationEntity event =
     (case find (\<lambda>k. str_field (seFields event) k \<noteq> '''')
             [''client_ip'', ''source_ip'', ''hostname'', ''host'', ''user'', ''username''] of
        Some k \<Rightarrow> str_field (seFields event) k | None \<Rightarrow> ''global'')"

section \<open>Evaluation\<close>

record siem_alert =
  alID :: string
  alTitle :: string
  alSeverity :: int
  alMITRE :: string
  alSource :: string
  alEvent :: siem_event
  alRuleID :: string
  alActions :: "rule_action list"
  alCreatedAt :: int

definition rule_key :: "CompiledRule \<Rightarrow> siem_event \<Rightarrow> string" where
  "rule_key rule event = ruRuleID rule @ '':'' @ correlationEntity event"

definition make_alert :: "int \<Rightarrow> CompiledRule \<Rightarrow> siem_event \<Rightarrow> siem_alert" where
  "make_alert now rule event =
     \<lparr>alID = ruRuleID rule @ ''-'' @ show_int now, alTitle = ruDescription rule, alSeverity = ruSeverity rule,
      alMITRE = ruMITRE rule, alSource = ''siem'', alEvent = event, alRuleID = ruRuleID rule, alActions = ruActions rule,
      alCreatedAt = now\<rparr>"

text \<open>The suppression of a matching rule: whether it is passed, and the engine after it.\<close>

definition pass_suppression :: "int \<Rightarrow> CompiledRule \<Rightarrow> string \<Rightarrow> RuleEngine \<Rightarrow> bool \<times> RuleEngine" where
  "pass_suppression now rule key re =
     (if ruSuppress rule > 0 then
        (if (case reSuppression re key of Some l \<Rightarrow> now - l < ruSuppress rule | None \<Rightarrow> False) then (False, re)
         else (True, re\<lparr>reSuppression := (reSuppression re)(key := Some now)\<rparr>))
      else (True, re))"

text \<open>The window of a threshold rule: whether the threshold is reached.\<close>

definition pass_threshold :: "int \<Rightarrow> CompiledRule \<Rightarrow> string \<Rightarrow> RuleEngine \<Rightarrow> bool \<times> RuleEngine" where
  "pass_threshold now rule key re =
     (if ruWindow rule > 0 \<and> ruThreshold rule > 1 then
        (let events = (case reCorrelation re key of Some ts \<Rightarrow> ts | None \<Rightarrow> []) @ [now];
             active = in_window (now - ruWindow rule) events in
         (int (length active) \<ge> ruThreshold rule,
          re\<lparr>reCorrelation := (reCorrelation re)(key := (if active = [] then None else Some active))\<rparr>))
      else (True, re))"

definition eval_one :: "rule_env \<Rightarrow> int \<Rightarrow> siem_event \<Rightarrow> CompiledRule \<Rightarrow> RuleEngine \<Rightarrow> siem_alert list \<times> RuleEngine" where
  "eval_one env now event rule re =
     (if \<not> matchesCondition env rule event then ([], re)
      else case pass_suppression now rule (rule_key rule event) re of
        (False, re1) \<Rightarrow> ([], re1)
      | (True, re1) \<Rightarrow>
          (case pass_threshold now rule (rule_key rule event) re1 of
             (ok, re2) \<Rightarrow> (if ok then [make_alert now rule event] else [], re2)))"

fun eval_rules :: "rule_env \<Rightarrow> int \<Rightarrow> siem_event \<Rightarrow> CompiledRule list \<Rightarrow> RuleEngine \<Rightarrow> siem_alert list \<times> RuleEngine" where
  "eval_rules env now event [] re = ([], re)"
| "eval_rules env now event (r # rs) re =
     (let (as, re1) = eval_one env now event r re; (bs, re2) = eval_rules env now event rs re1 in (as @ bs, re2))"

definition Evaluate :: "rule_env \<Rightarrow> int \<Rightarrow> siem_event \<Rightarrow> RuleEngine \<Rightarrow> siem_alert list \<times> RuleEngine" where
  "Evaluate env now event re = eval_rules env now event (reRules re) re"

section \<open>Parameters of the actions\<close>

text \<open>\<open>strings.ReplaceAll\<close> for a pattern that is not empty.\<close>

function ReplaceAll :: "string \<Rightarrow> string \<Rightarrow> string \<Rightarrow> string" where
  "ReplaceAll [] old new = []"
| "ReplaceAll (c # cs) old new =
     (if old \<noteq> [] \<and> HasPrefix (c # cs) old then new @ ReplaceAll (drop (length old) (c # cs)) old new
      else c # ReplaceAll cs old new)"
  by pat_completeness auto
termination by (relation "measure (\<lambda>(s, _, _). length s)") (auto simp: neq_Nil_conv)

text \<open>The fields of the event are visited in the order of the list.\<close>

definition interpolate_text :: "obj \<Rightarrow> string \<Rightarrow> string" where
  "interpolate_text flds str = fold (\<lambda>(k, v) s. ReplaceAll s (''${'' @ k @ ''}'') (go_sprint v)) flds str"

definition InterpolateParams :: "obj \<Rightarrow> siem_event \<Rightarrow> obj" where
  "InterpolateParams params event =
     map (\<lambda>(k, v). (k, case v of VStr s \<Rightarrow> VStr (interpolate_text (seFields event) s) | _ \<Rightarrow> v)) params"

end
