(* ===== verification/Siem_Decoders.thy ===== *)
theory Siem_Decoders
  imports Siem_Rules
begin

text \<open>
  The log decoders of the SIEM (\<open>internal/siem/decoder.go\<close>, \<open>k8s_decoder.go\<close>, \<open>suricata_decoder.go\<close>) and their
  registry (\<open>decoder_registry.go\<close>), with the entry of the engine that chooses among them (\<open>ingest\<close> and
  \<open>fastDecode\<close> of \<open>siem.go\<close>).

  What Go's \<open>encoding/json\<close>, \<open>encoding/xml\<close>, \<open>regexp\<close> and \<open>time\<close> make of a line is an input: the decoded
  structure, the submatches of an expression, the parsed instant.  A number of a JSON object is \<^term>\<open>VOther\<close> with the
  text that \<open>%v\<close> prints for it.
\<close>

section \<open>Inputs\<close>

record k8s_ref =
  krResource :: string
  krNamespace :: string
  krName :: string
  krAPIGroup :: string
  krAPIVersion :: string
  krSubresource :: string

record k8sAuditEvent =
  kaKind :: string
  kaLevel :: string
  kaAuditID :: string
  kaStage :: string
  kaRequestURI :: string
  kaVerb :: string
  kaUsername :: string
  kaImpersonated :: "string option"
  kaSourceIPs :: "string list"
  kaObjectRef :: "k8s_ref option"
  kaResponse :: "(int \<times> string) option"

record suricata_alert =
  saAction :: string
  saSID :: int
  saRule :: string
  saCategory :: string
  saSeverity :: int

record suricataEvent =
  suTimestamp :: string
  suEventType :: string
  suSrcIP :: string
  suSrcPort :: int
  suDestIP :: string
  suDestPort :: int
  suProto :: string
  suAlert :: "suricata_alert option"
  suDNS :: "(string \<times> string \<times> string) option"
  suHTTP :: "(string \<times> string \<times> string \<times> int) option"
  suTLS :: "(string \<times> string) option"

record evtxEvent =
  exEventID :: string
  exProvider :: string
  exLevel :: string
  exChannel :: string
  exComputer :: string
  exProcessID :: string
  exSystemTime :: string
  exEventData :: "(string \<times> string) list"
  exUserData :: "(string \<times> string) list"

record dec_env =
  dxNow :: int
  dxObject :: "string \<Rightarrow> obj option"
  dxWhole :: "string \<Rightarrow> int option"
  dxK8s :: "string \<Rightarrow> k8sAuditEvent option"
  dxSuricata :: "string \<Rightarrow> suricataEvent option"
  dxEvtx :: "string \<Rightarrow> evtxEvent option"
  dxApache :: "string \<Rightarrow> (string \<times> string \<times> string \<times> string \<times> string \<times> string) option"
  dxSyslog :: "string \<Rightarrow> (string \<times> string \<times> string \<times> string \<times> string) option"
  dxWinEvent :: "string \<Rightarrow> (string \<times> string \<times> string \<times> string) option"
  dxTime :: "string \<Rightarrow> string \<Rightarrow> int option"
  dxWazuhDefs :: "string list option"

text \<open>A field that holds a \<open>float64\<close>, cut to its whole part; and the zero \<open>time.Time\<close>.\<close>

definition float_field :: "dec_env \<Rightarrow> obj \<Rightarrow> string \<Rightarrow> int option" where
  "float_field env m k = (case map_of m k of Some (VOther t) \<Rightarrow> dxWhole env t | _ \<Rightarrow> None)"

definition text_field :: "obj \<Rightarrow> string \<Rightarrow> string option" where
  "text_field m k = (case map_of m k of Some (VStr s) \<Rightarrow> Some s | _ \<Rightarrow> None)"

definition zero_time :: int where "zero_time = - 62135596800 * Second"

definition RFC3339 :: string where "RFC3339 = ''2006-01-02T15:04:05Z07:00''"

definition plain_event :: "dec_env \<Rightarrow> string \<Rightarrow> string \<Rightarrow> obj \<Rightarrow> siem_event" where
  "plain_event env source raw flds =
     \<lparr>seTimestamp = dxNow env, seSource = source, seRaw = raw, seFields = flds, seTags = [], seSeverity = 0\<rparr>"

section \<open>Helpers\<close>

definition parseInt :: "string \<Rightarrow> int" where
  "parseInt s = (if s = '''' \<or> s = ''-'' then 0 else case go_Atoi s of Some n \<Rightarrow> n | None \<Rightarrow> 0)"

definition levelToSeverity :: "string \<Rightarrow> int" where
  "levelToSeverity level =
     (let l = ToLower level in
      if l \<in> {''critical'', ''fatal'', ''emergency''} then 5 else if l = ''error'' then 4
      else if l \<in> {''warn'', ''warning''} then 3 else if l = ''info'' then 1
      else if l \<in> {''debug'', ''trace''} then 0 else 2)"

definition extractLogonType :: "string \<Rightarrow> string" where
  "extractLogonType msg =
     (if Contains msg ''logontype: 10'' \<or> Contains msg ''logon type: 10'' then ''10''
      else if Contains msg ''logontype: 2'' \<or> Contains msg ''logon type: 2'' then ''2''
      else if Contains msg ''logontype: 3'' \<or> Contains msg ''logon type: 3'' then ''3'' else '''')"

definition extractField :: "string \<Rightarrow> string \<Rightarrow> string" where
  "extractField msg pre =
     (case Index (ToLower msg) pre of
        None \<Rightarrow> ''''
      | Some idx \<Rightarrow> takeWhile (\<lambda>c. c \<noteq> CHR '','' \<and> c \<noteq> CHR '' '' \<and> c \<noteq> CHR 0x0A)
                      (dropWhile (\<lambda>c. c = CHR '' '') (drop (idx + length pre) msg)))"

section \<open>Decoders\<close>

definition json_time :: "dec_env \<Rightarrow> obj \<Rightarrow> int" where
  "json_time env flds =
     (case text_field flds ''timestamp'' of
        Some ts \<Rightarrow> (case dxTime env RFC3339 ts of Some t \<Rightarrow> t | None \<Rightarrow> dxNow env)
      | None \<Rightarrow>
     (case text_field flds ''time'' of
        None \<Rightarrow> dxNow env
      | Some ts \<Rightarrow>
     (case dxTime env RFC3339 ts of
        Some t \<Rightarrow> t
      | None \<Rightarrow> (case dxTime env ''2006-01-02T15:04:05'' ts of Some t \<Rightarrow> t | None \<Rightarrow> dxNow env))))"

definition json_Decode :: "dec_env \<Rightarrow> string \<Rightarrow> siem_event result" where
  "json_Decode env raw =
     (case dxObject env raw of
        None \<Rightarrow> Inl ''json decode''
      | Some flds \<Rightarrow>
          Inr \<lparr>seTimestamp = json_time env flds, seSource = ''decoder:json'', seRaw = raw, seFields = flds,
               seTags = (case text_field flds ''source'' of Some src \<Rightarrow> [''source:'' @ src] | None \<Rightarrow> []),
               seSeverity = (case float_field env flds ''severity'' of
                               Some s \<Rightarrow> s
                             | None \<Rightarrow> (case text_field flds ''level'' of Some l \<Rightarrow> levelToSeverity l | None \<Rightarrow> 0))\<rparr>)"

definition http_class :: "int \<Rightarrow> int \<times> string" where
  "http_class status =
     (if status \<ge> 500 then (3, ''http_error'') else if status \<ge> 400 then (2, ''http_client_error'')
      else if status \<ge> 300 then (0, ''http_redirect'') else (0, ''http_success''))"

definition apache_Decode :: "dec_env \<Rightarrow> string \<Rightarrow> siem_event result" where
  "apache_Decode env raw =
     (case dxApache env raw of
        None \<Rightarrow> Inl ''not apache combined format''
      | Some (ip, ts, meth, path, status, bytes) \<Rightarrow>
          let (sev, tag) = http_class (parseInt status) in
          Inr \<lparr>seTimestamp = (case dxTime env ''02/Jan/2006:15:04:05 -0700'' ts of Some t \<Rightarrow> t | None \<Rightarrow> zero_time),
               seSource = ''decoder:apache'', seRaw = raw,
               seFields = [(''client_ip'', VStr ip), (''method'', VStr meth), (''path'', VStr path),
                 (''status'', VInt (parseInt status)), (''bytes'', VInt (parseInt bytes)), (''event_type'', VStr ''http_request'')],
               seTags = [tag], seSeverity = sev\<rparr>)"

definition syslog_class :: "string \<Rightarrow> int \<times> string list" where
  "syslog_class msg =
     (let lower = ToLower msg in
      if Contains lower ''failed password'' \<or> Contains lower ''authentication failure'' then (3, [''auth_failure'', ''security''])
      else if Contains lower ''accepted password'' then (0, [''auth_success'', ''security''])
      else if Contains lower ''error'' \<or> Contains lower ''panic'' then (2, [''error''])
      else if Contains lower ''warn'' then (1, [''warning'']) else (0, []))"

definition syslog_Decode :: "dec_env \<Rightarrow> string \<Rightarrow> siem_event result" where
  "syslog_Decode env raw =
     (case dxSyslog env raw of
        None \<Rightarrow> Inr (plain_event env ''decoder:syslog'' raw [(''message'', VStr raw)])
      | Some (facility, ts, host, app, msg) \<Rightarrow>
          let (sev, tags) = syslog_class msg in
          Inr \<lparr>seTimestamp = (case dxTime env ''Jan _2 15:04:05'' ts of Some t \<Rightarrow> t | None \<Rightarrow> dxNow env),
               seSource = ''decoder:syslog'', seRaw = raw,
               seFields = [(''facility'', VInt (parseInt facility)), (''timestamp'', VStr ts), (''hostname'', VStr host),
                 (''app'', VStr app), (''message'', VStr msg)],
               seTags = tags, seSeverity = sev\<rparr>)"

text \<open>\<open>strings.TrimRight\<close> of line ends; columns without a name are numbered.\<close>

definition csv_Decode :: "dec_env \<Rightarrow> string list \<Rightarrow> string \<Rightarrow> siem_event result" where
  "csv_Decode env names raw =
     (let line = rev (dropWhile (\<lambda>c. c = CHR 0x0D \<or> c = CHR 0x0A) (rev raw)); parts = Split CHR '','' line in
      Inr (plain_event env ''decoder:csv'' raw
        (fold (\<lambda>(i, v). put (if i < length names then names ! i else ''field_'' @ show_nat i) (VStr (TrimSpace v)))
          (zip [0..<length parts] parts) [])))"

definition has_any :: "string \<Rightarrow> string list \<Rightarrow> bool" where
  "has_any msg needles = list_ex (Contains msg) needles"

text \<open>Severity, tags and the additional field of a Windows message.\<close>

definition win_class :: "string \<Rightarrow> string \<Rightarrow> int \<times> string list \<times> obj" where
  "win_class msg orig =
     (if has_any msg [''4625'', ''failed logon'', ''logon failure'']
      then (3, [''security'', ''auth_failure''], [(''logontype'', VStr (extractLogonType orig))])
      else if has_any msg [''4624'', ''logon success''] then (0, [''security'', ''auth_success''], [])
      else if has_any msg [''4688'', ''process creation'']
      then (0, [''security'', ''process_creation''], [(''process_path'', VStr (extractField orig ''process:''))])
      else if has_any msg [''4698'', ''scheduled task''] then (3, [''security'', ''persistence''], [])
      else if has_any msg [''7045'', ''service install''] then (3, [''security'', ''service_install''], [])
      else if has_any msg [''1116'', ''defender'']
      then (5, [''security'', ''malware_detection''], [(''file_path'', VStr (extractField orig ''file:''))])
      else if has_any msg [''4104'', ''powershell''] then (2, [''security'', ''powershell''], [])
      else if has_any msg [''4657'', ''registry''] then (2, [''security'', ''registry_change''], [])
      else if has_any msg [''4740'', ''locked out''] then (3, [''security'', ''account_lockout''], [])
      else if has_any msg [''error''] then (2, [''error''], []) else (0, [], []))"

text \<open>A byte slice prints as the list of its bytes.\<close>

definition bytes_value :: "string \<Rightarrow> any" where
  "bytes_value s = VOther (''['' @ Join (map (\<lambda>c. show_nat (of_char c)) s) '' '' @ '']'')"

definition win_Decode :: "dec_env \<Rightarrow> string \<Rightarrow> siem_event result" where
  "win_Decode env raw =
     (case dxWinEvent env raw of
        None \<Rightarrow> Inl ''not windows event format''
      | Some (date, tm, src, msg) \<Rightarrow>
          let (sev, tags, extra) = win_class (ToLower msg) msg in
          Inr \<lparr>seTimestamp = (case dxTime env ''2006/01/02 15:04:05'' (date @ '' '' @ tm) of Some t \<Rightarrow> t | None \<Rightarrow> dxNow env),
               seSource = ''decoder:windows_event'', seRaw = raw,
               seFields = [(''date'', VStr date), (''time'', VStr tm), (''source'', VStr src), (''message'', VStr msg)] @ extra @
                 [(''event_id'', bytes_value tm)],
               seTags = tags, seSeverity = sev\<rparr>)"

definition sysmonEventMap :: "(string \<times> string \<times> int) list" where
  "sysmonEventMap =
     [(''1'', ''process_creation'', 2), (''3'', ''network_connection'', 2), (''7'', ''module_load'', 2), (''8'', ''remote_thread'', 4),
      (''10'', ''process_access'', 3), (''11'', ''file_create'', 2), (''12'', ''registry_change'', 3), (''13'', ''registry_value'', 3),
      (''15'', ''file_stream'', 2), (''17'', ''pipe_event'', 3), (''18'', ''pipe_connected'', 3), (''19'', ''wmi_event'', 3),
      (''20'', ''wmi_consumer'', 3), (''22'', ''dns_query'', 1)]"

text \<open>The tags and the least severity of an event identifier.\<close>

definition evtx_class :: "string \<Rightarrow> string list \<times> int" where
  "evtx_class i =
     (if i = ''4625'' then ([''auth_failure''], 3) else if i = ''4624'' then ([''auth_success''], 0)
      else if i = ''4688'' then ([''process_creation''], 0) else if i = ''4698'' then ([''persistence''], 3)
      else if i = ''7045'' then ([''service_install''], 3) else if i \<in> {''1116'', ''1117''} then ([''malware_detection''], 5)
      else if i \<in> {''4103'', ''4104''} then ([''powershell''], 0) else if i = ''4657'' then ([''registry_change''], 0)
      else if i = ''4740'' then ([''account_lockout''], 3)
      else if i \<in> {''4798'', ''4799''} then ([''user_enumeration'', ''reconnaissance''], 2) else ([], 0))"

definition evtx_fields :: "evtxEvent \<Rightarrow> obj" where
  "evtx_fields evt =
     fold (\<lambda>(n, v). put n (VStr v)) (exEventData evt @ exUserData evt)
       [(''event_id'', VStr (exEventID evt)), (''provider'', VStr (exProvider evt)), (''computer'', VStr (exComputer evt)),
        (''channel'', VStr (exChannel evt)), (''level_name'', VStr (exLevel evt)), (''pid'', VStr (exProcessID evt))]"

definition evtx_Decode :: "dec_env \<Rightarrow> string \<Rightarrow> siem_event result" where
  "evtx_Decode env raw =
     (if \<not> HasPrefix (TrimSpace raw) ''<Event'' then Inl ''not EVTX format''
      else case dxEvtx env raw of
        None \<Rightarrow> Inl ''evtx parse''
      | Some evt \<Rightarrow>
          if exEventID evt = '''' then Inl ''evtx: no EventID''
          else let (stags, ssev) = (if exProvider evt = ''Microsoft-Windows-Sysmon''
                     then (case map_of sysmonEventMap (exEventID evt) of Some (t, s) \<Rightarrow> ([t], s) | None \<Rightarrow> ([], 0)) else ([], 0));
                   (tags, least) = evtx_class (exEventID evt) in
               Inr \<lparr>seTimestamp = (if exSystemTime evt = '''' then dxNow env
                      else (case dxTime env ''2006-01-02T15:04:05.999999999Z07:00'' (exSystemTime evt) of Some t \<Rightarrow> t | None \<Rightarrow> dxNow env)),
                    seSource = ''decoder:evtx'', seRaw = raw, seFields = evtx_fields evt,
                    seTags = [''windows'', exChannel evt] @ stags @ tags, seSeverity = max ssev least\<rparr>)"

definition levelToK8sSeverity :: "string \<Rightarrow> int" where
  "levelToK8sSeverity level =
     (if level = ''RequestResponse'' then 2 else if level = ''Request'' then 1 else if level = ''Metadata'' then 0 else 1)"

definition k8s_resource :: "k8sAuditEvent \<Rightarrow> string" where
  "k8s_resource evt =
     (case kaObjectRef evt of
        None \<Rightarrow> ''''
      | Some ref \<Rightarrow> krResource ref @ (if krSubresource ref \<noteq> '''' then ''/'' @ krSubresource ref else ''''))"

definition k8s_class :: "k8sAuditEvent \<Rightarrow> string list \<times> int" where
  "k8s_class evt =
     (let res = k8s_resource evt; verb = kaVerb evt in
      if res = ''pods/exec'' \<and> verb = ''create'' then ([''k8s:exec''], 3)
      else if res = ''secrets'' \<and> verb = ''get'' then ([''k8s:secret-access''], 4)
      else if res = ''secrets'' \<and> verb = ''list'' then ([''k8s:secret-access''], 3)
      else if Contains res ''clusterrole'' then ([''k8s:rbac-change''], 4)
      else if Contains res ''rolebinding'' \<or> Contains res ''clusterrolebinding'' then ([''k8s:rbac-change''], 4)
      else if verb = ''impersonate'' then ([''k8s:impersonation''], 4)
      else if (case kaResponse evt of Some (code, _) \<Rightarrow> code \<ge> 403 | None \<Rightarrow> False) then ([''k8s:unauthorized''], 2)
      else if verb = ''create'' \<and> res = ''pods'' then ([''k8s:pod-create''], 0)
      else if verb = ''delete'' then ([''k8s:delete''], 0) else ([], 0))"

definition k8s_fields :: "k8sAuditEvent \<Rightarrow> obj" where
  "k8s_fields evt =
     [(''audit_id'', VStr (kaAuditID evt)), (''user'', VStr (kaUsername evt)), (''verb'', VStr (kaVerb evt)),
      (''request_uri'', VStr (kaRequestURI evt)), (''stage'', VStr (kaStage evt)), (''level'', VStr (kaLevel evt)),
      (''source_ips'', VList (map VStr (kaSourceIPs evt)))] @
     (case kaImpersonated evt of Some u \<Rightarrow> [(''impersonated_user'', VStr u)] | None \<Rightarrow> []) @
     (case kaObjectRef evt of
        None \<Rightarrow> []
      | Some ref \<Rightarrow>
          [(''resource'', VStr (krResource ref)), (''namespace'', VStr (krNamespace ref)), (''name'', VStr (krName ref)),
           (''api_group'', VStr (krAPIGroup ref)), (''api_version'', VStr (krAPIVersion ref))] @
          (if krSubresource ref \<noteq> '''' then [(''subresource'', VStr (krSubresource ref))] else [])) @
     (case kaResponse evt of
        Some (code, reason) \<Rightarrow> [(''response_code'', VInt code), (''response_reason'', VStr reason)] | None \<Rightarrow> []) @
     [(''k8s_resource'', VStr (k8s_resource evt))]"

definition k8s_Decode :: "dec_env \<Rightarrow> string \<Rightarrow> siem_event result" where
  "k8s_Decode env raw =
     (let line = TrimSpace raw; q = [CHR 0x22] in
      if \<not> HasPrefix line ''{'' then Inl ''not JSON''
      else if \<not> Contains line (q @ ''kind'' @ q @ '':'' @ q @ ''Event'' @ q) \<and>
              \<not> Contains line (q @ ''kind'' @ q @ '': '' @ q @ ''Event'' @ q) then Inl ''not K8s audit event''
      else case dxK8s env raw of
        None \<Rightarrow> Inl ''k8s parse''
      | Some evt \<Rightarrow>
          if kaKind evt \<noteq> ''Event'' \<or> kaAuditID evt = '''' then Inl ''not K8s audit event''
          else let (tags, least) = k8s_class evt in
               Inr \<lparr>seTimestamp = dxNow env, seSource = ''decoder:k8s_audit'', seRaw = raw, seFields = k8s_fields evt,
                    seTags = [''k8s'', ''kubernetes''] @ tags, seSeverity = max (levelToK8sSeverity (kaLevel evt)) least\<rparr>)"

definition suricata_formats :: "string list" where
  "suricata_formats =
     [''2006-01-02T15:04:05.999999-0700'', ''2006-01-02T15:04:05.999999Z07:00'', ''2006-01-02T15:04:05.999999999-0700'',
      ''2006-01-02T15:04:05.999999999Z07:00'', ''2006-01-02T15:04:05-0700'', ''2006-01-02T15:04:05Z07:00'',
      ''2006-01-02T15:04:05.999999999Z07:00'', RFC3339]"

fun first_time :: "dec_env \<Rightarrow> string list \<Rightarrow> string \<Rightarrow> int" where
  "first_time env [] ts = dxNow env"
| "first_time env (f # fs) ts = (case dxTime env f ts of Some t \<Rightarrow> t | None \<Rightarrow> first_time env fs ts)"

definition suricata_severity :: "suricata_alert \<Rightarrow> int" where
  "suricata_severity a = (if saSeverity a = 1 then 7 else if saSeverity a = 2 then 5 else if saSeverity a = 3 then 3 else 1)"

definition suricata_fields :: "suricataEvent \<Rightarrow> obj" where
  "suricata_fields s =
     [(''event_type'', VStr (suEventType s))] @
     (if suSrcIP s \<noteq> '''' then [(''src_ip'', VStr (suSrcIP s)), (''src_port'', VInt (suSrcPort s))] else []) @
     (if suDestIP s \<noteq> '''' then [(''dest_ip'', VStr (suDestIP s)), (''dest_port'', VInt (suDestPort s))] else []) @
     (if suProto s \<noteq> '''' then [(''protocol'', VStr (suProto s))] else []) @
     (case suAlert s of
        Some a \<Rightarrow> [(''rule'', VStr (saRule a)), (''category'', VStr (saCategory a)), (''action'', VStr (saAction a)),
                   (''sig_id'', VInt (saSID a))]
      | None \<Rightarrow> []) @
     (case suDNS s of
        Some (ty, query, rcode) \<Rightarrow> [(''dns_type'', VStr ty), (''dns_query'', VStr query), (''dns_rcode'', VStr rcode)] | None \<Rightarrow> []) @
     (case suHTTP s of
        Some (host, url, meth, status) \<Rightarrow>
          [(''http_hostname'', VStr host), (''http_url'', VStr url), (''http_method'', VStr meth), (''http_status'', VInt status)]
      | None \<Rightarrow> []) @
     (case suTLS s of Some (sni, subject) \<Rightarrow> [(''tls_sni'', VStr sni), (''tls_subject'', VStr subject)] | None \<Rightarrow> [])"

definition suricata_Decode :: "dec_env \<Rightarrow> string \<Rightarrow> siem_event result" where
  "suricata_Decode env raw =
     (case dxSuricata env raw of
        None \<Rightarrow> Inl ''json''
      | Some s \<Rightarrow>
          if suEventType s = '''' then Inl ''not a suricata event''
          else Inr \<lparr>seTimestamp = (if suTimestamp s = '''' then dxNow env else first_time env suricata_formats (suTimestamp s)),
                    seSource = ''suricata'', seRaw = raw, seFields = suricata_fields s,
                    seTags = [''nids'', suEventType s] @ (if suAlert s \<noteq> None then [''alert''] else []),
                    seSeverity = (case suAlert s of Some a \<Rightarrow> suricata_severity a | None \<Rightarrow> 1)\<rparr>)"

fun first_decoded :: "siem_event result list \<Rightarrow> siem_event option" where
  "first_decoded [] = None"
| "first_decoded (r # rs) = (case r of Inr e \<Rightarrow> Some e | Inl _ \<Rightarrow> first_decoded rs)"

definition auto_Decode :: "dec_env \<Rightarrow> string \<Rightarrow> siem_event result" where
  "auto_Decode env raw =
     (case first_decoded [k8s_Decode env raw, json_Decode env raw, apache_Decode env raw, syslog_Decode env raw, win_Decode env raw] of
        Some e \<Rightarrow> Inr e | None \<Rightarrow> Inr (plain_event env ''decoder:raw'' raw [(''message'', VStr raw)]))"

section \<open>The registry\<close>

datatype decoder = K8sAudit | Suricata | JSON | Apache | Syslog | EVTX | WindowsEvent | Wazuh | Auto

record decoderEntry =
  deName :: string
  dePriority :: int
  deFactory :: decoder

definition RegisterDecoder :: "string \<Rightarrow> int \<Rightarrow> decoder option \<Rightarrow> decoderEntry list \<Rightarrow> string option \<times> decoderEntry list" where
  "RegisterDecoder name priority factory reg =
     (if name = '''' then (Some ''decoder name is required'', reg)
      else case factory of
        None \<Rightarrow> (Some (''decoder '' @ go_quote name @ '': factory is nil''), reg)
      | Some d \<Rightarrow>
          if name \<in> deName ` set reg then (Some (''decoder '' @ go_quote name @ '' already registered''), reg)
          else (None, reg @ [\<lparr>deName = name, dePriority = priority, deFactory = d\<rparr>]))"

definition by_priority :: "decoderEntry list \<Rightarrow> decoderEntry list" where
  "by_priority reg = sort_key (\<lambda>e. (dePriority e, deName e)) reg"

definition RegisteredDecoders :: "decoderEntry list \<Rightarrow> string list" where
  "RegisteredDecoders reg = map deName (by_priority reg)"

definition buildDecoders :: "decoderEntry list \<Rightarrow> decoder list" where
  "buildDecoders reg = map deFactory (by_priority reg)"

definition registerDefaultDecoders :: "decoderEntry list \<Rightarrow> decoderEntry list" where
  "registerDefaultDecoders reg =
     fold (\<lambda>(n, p, d) reg. snd (RegisterDecoder n p (Some d) reg))
       [(''k8s'', 10, K8sAudit), (''suricata'', 20, Suricata), (''json'', 30, JSON), (''apache'', 40, Apache),
        (''syslog'', 50, Syslog), (''evtx'', 60, EVTX), (''windows_event'', 70, WindowsEvent), (''wazuh'', 80, Wazuh),
        (''auto'', 100, Auto)] reg"

section \<open>Decoding a line\<close>

datatype decode_outcome = Decoded siem_event | Rejected | Panicked

definition outcome :: "siem_event result \<Rightarrow> decode_outcome" where
  "outcome r = (case r of Inr e \<Rightarrow> Decoded e | Inl _ \<Rightarrow> Rejected)"

definition dec_name :: "decoder \<Rightarrow> string" where
  "dec_name d = (case d of K8sAudit \<Rightarrow> ''k8s_audit'' | Suricata \<Rightarrow> ''suricata'' | JSON \<Rightarrow> ''json'' | Apache \<Rightarrow> ''apache''
     | Syslog \<Rightarrow> ''syslog'' | EVTX \<Rightarrow> ''evtx'' | WindowsEvent \<Rightarrow> ''windows_event'' | Wazuh \<Rightarrow> ''wazuh'' | Auto \<Rightarrow> ''auto'')"

text \<open>The registered Wazuh decoder has no map for its nodes: its first node is written to a nil map, which panics;
  without nodes no line matches.\<close>

definition dec_Decode :: "dec_env \<Rightarrow> decoder \<Rightarrow> string \<Rightarrow> decode_outcome" where
  "dec_Decode env d raw =
     (case d of K8sAudit \<Rightarrow> outcome (k8s_Decode env raw) | Suricata \<Rightarrow> outcome (suricata_Decode env raw)
      | JSON \<Rightarrow> outcome (json_Decode env raw) | Apache \<Rightarrow> outcome (apache_Decode env raw)
      | Syslog \<Rightarrow> outcome (syslog_Decode env raw) | EVTX \<Rightarrow> outcome (evtx_Decode env raw)
      | WindowsEvent \<Rightarrow> outcome (win_Decode env raw)
      | Wazuh \<Rightarrow> (case dxWazuhDefs env of Some (_ # _) \<Rightarrow> Panicked | _ \<Rightarrow> Rejected)
      | Auto \<Rightarrow> outcome (auto_Decode env raw))"

definition fastDecode :: "dec_env \<Rightarrow> string \<Rightarrow> siem_event option" where
  "fastDecode env raw =
     (let trimmed = TrimSpace raw in
      if trimmed = '''' \<or> (hd trimmed \<noteq> CHR ''{'' \<and> hd trimmed \<noteq> CHR ''['') then None
      else case dxObject env trimmed of
        None \<Rightarrow> None
      | Some flds \<Rightarrow>
          Some \<lparr>seTimestamp = (case text_field flds ''timestamp'' of
                  Some ts \<Rightarrow> (case dxTime env RFC3339 ts of Some t \<Rightarrow> t | None \<Rightarrow> dxNow env) | None \<Rightarrow> dxNow env),
                seSource = ''decoder:json'', seRaw = raw, seFields = flds, seTags = [],
                seSeverity = (case float_field env flds ''severity'' of Some s \<Rightarrow> s | None \<Rightarrow> 0)\<rparr>)"

fun try_decoders :: "dec_env \<Rightarrow> decoder list \<Rightarrow> string \<Rightarrow> decode_outcome" where
  "try_decoders env [] raw = Rejected"
| "try_decoders env (d # ds) raw =
     (if dec_name d = ''auto'' \<or> dec_name d = ''json'' then try_decoders env ds raw
      else case dec_Decode env d raw of Rejected \<Rightarrow> try_decoders env ds raw | r \<Rightarrow> r)"

definition ingest_event :: "dec_env \<Rightarrow> decoder list \<Rightarrow> string \<Rightarrow> string \<Rightarrow> siem_event option" where
  "ingest_event env decoders raw source =
     (case (case fastDecode env raw of Some e \<Rightarrow> Decoded e | None \<Rightarrow> try_decoders env decoders raw) of
        Decoded e \<Rightarrow> Some (e\<lparr>seSource := source @ ''->'' @ seSource e\<rparr>)
      | Rejected \<Rightarrow> Some (plain_event env source raw [(''message'', VStr raw)])
      | Panicked \<Rightarrow> None)"

end
