(* ===== verification/Siem_Laws.thy ===== *)
theory Siem_Laws
  imports Siem_Rules
begin

text \<open>
  What the rule engine promises over a whole sequence of events: a threshold rule fires exactly when its
  window holds enough matching events of the same entity, rules do not disturb each other, and a rule
  whose suppression covers its window never fires.
\<close>

section \<open>Rules do not disturb each other\<close>

definition rules_apart :: "CompiledRule list \<Rightarrow> bool" where
  "rules_apart rs \<longleftrightarrow> distinct (map ruRuleID rs) \<and> list_all (\<lambda>r. CHR '':'' \<notin> set (ruRuleID r)) rs"

definition entity_key :: "CompiledRule \<Rightarrow> string \<Rightarrow> string" where
  "entity_key r ent = ruRuleID r @ '':'' @ ent"

lemma rule_key_entity: "rule_key r e = entity_key r (correlationEntity e)"
  by (simp add: rule_key_def entity_key_def)

lemma key_split: "CHR '':'' \<notin> set rid \<Longrightarrow> takeWhile (\<lambda>c. c \<noteq> CHR '':'') (rid @ '':'' @ ent) = rid"
  by (induction rid) auto

lemma entity_key_inject:
  assumes "CHR '':'' \<notin> set (ruRuleID r)" "CHR '':'' \<notin> set (ruRuleID r')" "entity_key r ent = entity_key r' ent'"
  shows "ruRuleID r = ruRuleID r'" "ent = ent'"
proof -
  show eq: "ruRuleID r = ruRuleID r'"
    using key_split [OF assms(1), of ent] key_split [OF assms(2), of ent'] assms(3) by (simp add: entity_key_def)
  show "ent = ent'" using assms(3) eq by (simp add: entity_key_def)
qed

definition same_at :: "string \<Rightarrow> RuleEngine \<Rightarrow> RuleEngine \<Rightarrow> bool" where
  "same_at k re re' \<longleftrightarrow> reCorrelation re' k = reCorrelation re k \<and> reSuppression re' k = reSuppression re k"

lemma pass_rules [simp]:
  "reRules (snd (pass_suppression now r key re)) = reRules re" "reRules (snd (pass_threshold now r key re)) = reRules re"
  by (simp_all add: pass_suppression_def pass_threshold_def Let_def)

lemma pass_frame:
  assumes "k \<noteq> key"
  shows "same_at k re (snd (pass_suppression now r key re))" "same_at k re (snd (pass_threshold now r key re))"
  using assms by (simp_all add: same_at_def pass_suppression_def pass_threshold_def Let_def)

lemma eval_one_alt:
  "eval_one env now e r re =
     (let ps = pass_suppression now r (rule_key r e) re; pt = pass_threshold now r (rule_key r e) (snd ps) in
      if \<not> matchesCondition env r e then ([], re) else if \<not> fst ps then ([], snd ps)
      else (if fst pt then [make_alert now r e] else [], snd pt))"
  by (cases "pass_suppression now r (rule_key r e) re") (auto simp: eval_one_def Let_def case_prod_beta split: bool.split)

lemma eval_one_rules [simp]: "reRules (snd (eval_one env now e r re)) = reRules re"
  by (simp add: eval_one_alt Let_def)

lemma eval_one_frame:
  assumes "k \<noteq> rule_key r e"
  shows "same_at k re (snd (eval_one env now e r re))"
proof -
  let ?re1 = "snd (pass_suppression now r (rule_key r e) re)"
  have "same_at k re ?re1" "same_at k ?re1 (snd (pass_threshold now r (rule_key r e) ?re1))"
    by (rule pass_frame [OF assms])+
  then show ?thesis by (simp add: eval_one_alt Let_def same_at_def)
qed

lemma eval_rules_rules [simp]: "reRules (snd (eval_rules env now e rs re)) = reRules re"
  by (induction rs arbitrary: re) (simp_all add: case_prod_beta Let_def)

lemma Evaluate_rules [simp]: "reRules (snd (Evaluate env now e re)) = reRules re"
  by (simp add: Evaluate_def)

lemma eval_rules_append:
  "eval_rules env now e (xs @ ys) re =
     (fst (eval_rules env now e xs re) @ fst (eval_rules env now e ys (snd (eval_rules env now e xs re))),
      snd (eval_rules env now e ys (snd (eval_rules env now e xs re))))"
  by (induction xs arbitrary: re) (simp_all add: case_prod_beta Let_def)

lemma eval_rules_frame:
  assumes "\<forall>r\<in>set rs. k \<noteq> rule_key r e"
  shows "same_at k re (snd (eval_rules env now e rs re))"
  using assms
proof (induction rs arbitrary: re)
  case Nil then show ?case by (simp add: same_at_def)
next
  case (Cons r rs)
  have "same_at k re (snd (eval_one env now e r re))" using Cons.prems by (intro eval_one_frame) simp
  moreover have "same_at k (snd (eval_one env now e r re)) (snd (eval_rules env now e rs (snd (eval_one env now e r re))))"
    using Cons by simp
  ultimately show ?case by (simp add: same_at_def case_prod_beta Let_def)
qed

lemma eval_one_alerts: "a \<in> set (fst (eval_one env now e r re)) \<Longrightarrow> alRuleID a = ruRuleID r"
  by (auto simp: eval_one_def make_alert_def split: prod.splits bool.splits if_splits)

lemma eval_rules_alerts: "a \<in> set (fst (eval_rules env now e rs re)) \<Longrightarrow> alRuleID a \<in> ruRuleID ` set rs"
  by (induction rs arbitrary: re) (auto simp: case_prod_beta Let_def dest: eval_one_alerts)

text \<open>For the keys of one rule, evaluating all rules is evaluating that one.\<close>

lemma Evaluate_one:
  assumes "rules_apart (reRules re)" "r \<in> set (reRules re)"
  obtains re1 where "\<And>ent. same_at (entity_key r ent) re re1"
    and "filter (\<lambda>a. alRuleID a = ruRuleID r) (fst (Evaluate env now e re)) = fst (eval_one env now e r re1)"
    and "\<And>ent. same_at (entity_key r ent) (snd (eval_one env now e r re1)) (snd (Evaluate env now e re))"
proof -
  obtain xs ys where rs: "reRules re = xs @ r # ys" using assms(2) by (meson split_list)
  let ?re1 = "snd (eval_rules env now e xs re)" and ?re2 = "snd (eval_one env now e r (snd (eval_rules env now e xs re)))"
  have apart: "CHR '':'' \<notin> set (ruRuleID r)" "\<forall>s\<in>set xs \<union> set ys. ruRuleID s \<noteq> ruRuleID r \<and> CHR '':'' \<notin> set (ruRuleID s)"
    using assms(1) unfolding rules_apart_def rs list_all_iff by (auto simp: image_iff)
  then have k: "\<forall>s\<in>set xs. entity_key r ent \<noteq> rule_key s e" "\<forall>s\<in>set ys. entity_key r ent \<noteq> rule_key s e" for ent
    using entity_key_inject(1) [of r _ ent "correlationEntity e"] by (metis UnI1 UnI2 rule_key_entity)+
  have none: "filter (\<lambda>a. alRuleID a = ruRuleID r) (fst (eval_rules env now e zs re')) = []" if "set zs \<subseteq> set xs \<union> set ys" for zs re'
    using eval_rules_alerts [of _ env now e zs re'] apart(2) that by (fastforce simp: filter_empty_conv)
  have mine: "filter (\<lambda>a. alRuleID a = ruRuleID r) (fst (eval_one env now e r ?re1)) = fst (eval_one env now e r ?re1)"
    using eval_one_alerts by (metis (mono_tags, lifting) filter_True)
  show thesis
  proof (rule that [of ?re1])
    show "same_at (entity_key r ent) re ?re1" for ent by (rule eval_rules_frame [OF k(1)])
    show "filter (\<lambda>a. alRuleID a = ruRuleID r) (fst (Evaluate env now e re)) = fst (eval_one env now e r ?re1)"
      by (simp add: Evaluate_def rs eval_rules_append none mine case_prod_beta Let_def)
    show "same_at (entity_key r ent) ?re2 (snd (Evaluate env now e re))" for ent
      using eval_rules_frame [OF k(2), where re = ?re2] by (simp add: Evaluate_def rs eval_rules_append case_prod_beta Let_def)
  qed
qed

section \<open>Runs\<close>

fun siem_run :: "rule_env \<Rightarrow> (int \<times> siem_event) list \<Rightarrow> RuleEngine \<Rightarrow> siem_alert list \<times> RuleEngine" where
  "siem_run env [] re = ([], re)"
| "siem_run env ((now, e) # calls) re =
     (let (as, re1) = Evaluate env now e re; (bs, re2) = siem_run env calls re1 in (as @ bs, re2))"

lemma siem_run_rules [simp]: "reRules (snd (siem_run env calls re)) = reRules re"
  by (induction calls arbitrary: re) (auto simp: case_prod_beta Let_def)

lemma siem_run_snoc: "snd (siem_run env (calls @ [(now, e)]) re) = snd (Evaluate env now e (snd (siem_run env calls re)))"
  by (induction calls arbitrary: re) (auto simp: case_prod_beta Let_def)

text \<open>The times of the events of a run that match a rule and concern an entity.\<close>

definition matching :: "rule_env \<Rightarrow> CompiledRule \<Rightarrow> string \<Rightarrow> (int \<times> siem_event) list \<Rightarrow> int list" where
  "matching env r ent calls = map fst (filter (\<lambda>(t, e). matchesCondition env r e \<and> correlationEntity e = ent) calls)"

lemma matching_snoc:
  "matching env r ent (calls @ [(now, e)]) =
     matching env r ent calls @ (if matchesCondition env r e \<and> correlationEntity e = ent then [now] else [])"
  by (simp add: matching_def)

definition rule_hits :: "RuleEngine \<Rightarrow> string \<Rightarrow> int list" where
  "rule_hits re k = (case reCorrelation re k of Some ts \<Rightarrow> ts | None \<Rightarrow> [])"

lemma rule_hits_same: "same_at k re re' \<Longrightarrow> rule_hits re' k = rule_hits re k"
  by (simp add: same_at_def rule_hits_def)

section \<open>Threshold rules count\<close>

definition counts :: "CompiledRule \<Rightarrow> bool" where
  "counts r \<longleftrightarrow> ruWindow r > 0 \<and> ruThreshold r > 1 \<and> ruSuppress r \<le> 0"

lemma eval_one_counts:
  assumes "counts r" "matchesCondition env r e"
  shows "fst (eval_one env now e r re) =
      (if int (length (in_window (now - ruWindow r) (rule_hits re (rule_key r e) @ [now]))) \<ge> ruThreshold r
       then [make_alert now r e] else [])"
    and "rule_hits (snd (eval_one env now e r re)) k =
      (if k = rule_key r e then in_window (now - ruWindow r) (rule_hits re k @ [now]) else rule_hits re k)"
  using assms
  by (auto simp: eval_one_def pass_suppression_def pass_threshold_def counts_def rule_hits_def Let_def in_window_def split: option.split)

lemma eval_one_unmatched: "\<not> matchesCondition env r e \<Longrightarrow> eval_one env now e r re = ([], re)"
  by (simp add: eval_one_def)

definition counted :: "rule_env \<Rightarrow> CompiledRule \<Rightarrow> (int \<times> siem_event) list \<Rightarrow> int \<Rightarrow> RuleEngine \<Rightarrow> bool" where
  "counted env r past recent re \<longleftrightarrow>
     (\<forall>ent. \<forall>now\<ge>recent. in_window (now - ruWindow r) (rule_hits re (entity_key r ent)) = in_window (now - ruWindow r) (matching env r ent past))"

lemma counted_step:
  assumes "rules_apart (reRules re)" "r \<in> set (reRules re)" "counts r" "counted env r past recent re" "recent \<le> now"
  shows "counted env r (past @ [(now, e)]) now (snd (Evaluate env now e re))"
    and "filter (\<lambda>a. alRuleID a = ruRuleID r) (fst (Evaluate env now e re)) =
      (if matchesCondition env r e \<and>
          int (length (in_window (now - ruWindow r) (matching env r (correlationEntity e) (past @ [(now, e)])))) \<ge> ruThreshold r
       then [make_alert now r e] else [])"
proof -
  obtain re1 where same: "\<And>ent. same_at (entity_key r ent) re re1"
    and alerts: "filter (\<lambda>a. alRuleID a = ruRuleID r) (fst (Evaluate env now e re)) = fst (eval_one env now e r re1)"
    and after: "\<And>ent. same_at (entity_key r ent) (snd (eval_one env now e r re1)) (snd (Evaluate env now e re))"
    using Evaluate_one [OF assms(1,2)] by blast
  have old: "in_window (n - ruWindow r) (rule_hits re1 (entity_key r ent)) = in_window (n - ruWindow r) (matching env r ent past)"
    if n: "n \<ge> recent" for n ent
    using assms(4) n rule_hits_same [OF same] by (simp add: counted_def)
  show "filter (\<lambda>a. alRuleID a = ruRuleID r) (fst (Evaluate env now e re)) =
      (if matchesCondition env r e \<and>
          int (length (in_window (now - ruWindow r) (matching env r (correlationEntity e) (past @ [(now, e)])))) \<ge> ruThreshold r
       then [make_alert now r e] else [])"
    using assms(3,5) old [of now]
    by (cases "matchesCondition env r e")
      (simp_all add: alerts eval_one_counts eval_one_unmatched rule_key_entity matching_snoc in_window_append)
  show "counted env r (past @ [(now, e)]) now (snd (Evaluate env now e re))"
    unfolding counted_def
  proof (intro allI impI)
    fix ent n assume n: "now \<le> n"
    have inj: "entity_key r ent = entity_key r (correlationEntity e) \<longleftrightarrow> ent = correlationEntity e" by (simp add: entity_key_def)
    show "in_window (n - ruWindow r) (rule_hits (snd (Evaluate env now e re)) (entity_key r ent)) =
        in_window (n - ruWindow r) (matching env r ent (past @ [(now, e)]))"
      using n assms(3,5) old [of n ent]
      by (cases "matchesCondition env r e")
        (auto simp: rule_hits_same [OF after] eval_one_counts eval_one_unmatched rule_key_entity inj matching_snoc in_window_append in_window_later in_window_def [of _ "[]"])
  qed
qed

lemma run_counted:
  assumes "rules_apart (reRules re)" "r \<in> set (reRules re)" "counts r" "counted env r past recent re"
    "sorted (map fst calls)" "\<forall>c\<in>set calls. recent \<le> fst c" "\<forall>c\<in>set calls. fst c \<le> now" "recent \<le> now"
  shows "counted env r (past @ calls) now (snd (siem_run env calls re))"
  using assms
proof (induction calls arbitrary: past recent re)
  case Nil then show ?case by (simp add: counted_def)
next
  case (Cons c calls)
  obtain t e where c: "c = (t, e)" by (cases c)
  have "counted env r (past @ [(t, e)]) t (snd (Evaluate env t e re))"
    using counted_step(1) [OF Cons.prems(1-4)] Cons.prems(6) c by simp
  then have "counted env r ((past @ [(t, e)]) @ calls) now (snd (siem_run env calls (snd (Evaluate env t e re))))"
    using Cons.prems c by (intro Cons.IH [of _ _ t]) auto
  then show ?case by (simp add: c case_prod_beta Let_def)
qed

text \<open>C14. A threshold rule counts exactly.  In a run from a fresh engine with a clock that does not go back, a rule with a
  window and a threshold and without suppression alerts on an event if and only if the event matches and the
  window that ends with it holds at least as many matching events of the same entity as the threshold asks for.\<close>

theorem Evaluate_counts:
  assumes "rules_apart (reRules re)" "r \<in> set (reRules re)" "ruWindow r > 0" "ruThreshold r > 1" "ruSuppress r \<le> 0"
    "\<forall>k. reCorrelation re k = None" "sorted (map fst (calls @ [(now, e)]))"
  shows "(\<exists>a\<in>set (fst (Evaluate env now e (snd (siem_run env calls re)))). alRuleID a = ruRuleID r) \<longleftrightarrow>
    matchesCondition env r e \<and>
    ruThreshold r \<le> int (length (in_window (now - ruWindow r) (matching env r (correlationEntity e) (calls @ [(now, e)]))))"
proof -
  have c: "counts r" using assms(3-5) by (simp add: counts_def)
  have "counted env r [] recent re" for recent
    using assms(6) by (simp add: counted_def rule_hits_def matching_def in_window_def)
  then have "counted env r ([] @ calls) now (snd (siem_run env calls re))"
    using assms(7) by (intro run_counted [OF assms(1,2) c, where recent = "case calls of [] \<Rightarrow> now | x # _ \<Rightarrow> fst x"])
      (fastforce simp: sorted_append split: list.split)+
  then have "filter (\<lambda>a. alRuleID a = ruRuleID r) (fst (Evaluate env now e (snd (siem_run env calls re)))) =
      (if matchesCondition env r e \<and>
          int (length (in_window (now - ruWindow r) (matching env r (correlationEntity e) (calls @ [(now, e)])))) \<ge> ruThreshold r
       then [make_alert now r e] else [])"
    using counted_step(2) [of "snd (siem_run env calls re)" r env calls now now e] assms(1,2) c by simp
  then show ?thesis by (metis (mono_tags, lifting) filter_empty_conv list.distinct(1))
qed

definition sample_rule_env :: rule_env where
  "sample_rule_env = \<lparr>rvCompile = (\<lambda>_. None), rvMatch = (\<lambda>_ _. False), rvDuration = (\<lambda>_. None), rvGreater = (\<lambda>_ _. False),
     rvIP = (\<lambda>_. None), rvCIDR = (\<lambda>_ _. None)\<rparr>"

definition failed_login :: "string \<Rightarrow> siem_event" where
  "failed_login ip = \<lparr>seTimestamp = 0, seSource = ''syslog'', seRaw = ''Failed password'', seFields = [(''client_ip'', VStr ip)],
     seTags = [''auth_failure''], seSeverity = 4\<rparr>"

definition login_rule :: CompiledRule where
  "login_rule = builtin ''FAILED_LOGINS'' ''Repeated failed logins'' 4 ''T1110'' ''tag:auth_failure'' 2 (60 * Second) []"

definition login_engine :: RuleEngine where
  "login_engine = \<lparr>reRules = [login_rule], reCorrelation = (\<lambda>_. None), reSuppression = (\<lambda>_. None)\<rparr>"

lemma failed_login_facts:
  "matchesCondition env login_rule (failed_login ip)" "ip \<noteq> '''' \<Longrightarrow> correlationEntity (failed_login ip) = ip"
  by (simp_all add: matchesCondition_def login_rule_def builtin_def failed_login_def correlationEntity_def str_field_def as_string_def
      HasPrefix_def TrimPrefix_def)

theorem Evaluate_counts_witness:
  "(\<exists>a\<in>set (fst (Evaluate sample_rule_env (50 * Second) (failed_login ''10.0.0.9'')
       (snd (siem_run sample_rule_env [(0, failed_login ''10.0.0.9''), (1, failed_login ''10.0.0.8'')] login_engine)))). alRuleID a = ''FAILED_LOGINS'') \<and>
   \<not> (\<exists>a\<in>set (fst (Evaluate sample_rule_env (60 * Second) (failed_login ''10.0.0.9'')
       (snd (siem_run sample_rule_env [(0, failed_login ''10.0.0.9''), (1, failed_login ''10.0.0.8'')] login_engine)))). alRuleID a = ''FAILED_LOGINS'')"
proof -
  let ?calls = "[(0, failed_login ''10.0.0.9''), (1, failed_login ''10.0.0.8'')]"
  have r: "rules_apart (reRules login_engine)" "login_rule \<in> set (reRules login_engine)" "ruWindow login_rule = 60 * Second"
    "ruThreshold login_rule = 2" "ruSuppress login_rule = 0" "ruRuleID login_rule = ''FAILED_LOGINS''"
    "\<forall>k. reCorrelation login_engine k = None"
    by (simp_all add: rules_apart_def login_engine_def login_rule_def builtin_def)
  show ?thesis
    using Evaluate_counts [of login_engine login_rule ?calls "50 * Second" "failed_login ''10.0.0.9''" sample_rule_env]
      Evaluate_counts [of login_engine login_rule ?calls "60 * Second" "failed_login ''10.0.0.9''" sample_rule_env]
    unfolding matching_def by (simp add: r failed_login_facts in_window_def Second_def)
qed

section \<open>Suppression that hides a threshold rule\<close>

definition before_last :: "int option \<Rightarrow> int list \<Rightarrow> bool" where
  "before_last s ts \<longleftrightarrow> (case s of None \<Rightarrow> ts = [] | Some l \<Rightarrow> \<forall>t\<in>set ts. t \<le> l)"

definition silent :: "CompiledRule \<Rightarrow> RuleEngine \<Rightarrow> bool" where
  "silent r re \<longleftrightarrow>
     (\<forall>ent. before_last (reSuppression re (entity_key r ent)) (rule_hits re (entity_key r ent)))"

lemma silent_same: "\<forall>ent. same_at (entity_key r ent) re re' \<Longrightarrow> silent r re' = silent r re"
proof -
  assume same: "\<forall>ent. same_at (entity_key r ent) re re'"
  have "rule_hits re' (entity_key r ent) = rule_hits re (entity_key r ent)" for ent using same rule_hits_same by blast
  moreover have "reSuppression re' (entity_key r ent) = reSuppression re (entity_key r ent)" for ent
    using same by (simp add: same_at_def)
  ultimately show ?thesis unfolding silent_def by (simp only:)
qed

lemma eval_one_silent:
  assumes "0 < ruWindow r" "ruWindow r \<le> ruSuppress r" "ruThreshold r > 1" "silent r re"
  shows "fst (eval_one env now e r re) = []" "silent r (snd (eval_one env now e r re))"
proof -
  let ?k = "rule_key r e" and ?s = "case reSuppression re (rule_key r e) of Some l \<Rightarrow> now - l < ruSuppress r | None \<Rightarrow> False"
  have one: "in_window (now - ruWindow r) (rule_hits re ?k @ [now]) = [now]" if pass: "\<not> ?s"
  proof -
    have "\<forall>t\<in>set (rule_hits re ?k). t \<le> now - ruWindow r"
      using assms(2,4) pass unfolding silent_def before_last_def rule_key_entity
      by (fastforce dest!: spec [of _ "correlationEntity e"] split: option.splits)
    then show ?thesis using assms(1) by (auto simp: in_window_def filter_empty_conv)
  qed
  have sup: "ruSuppress r > 0" using assms(1,2) by simp
  have step: "eval_one env now e r re =
      (if matchesCondition env r e \<and> \<not> ?s
       then ([], re\<lparr>reSuppression := (reSuppression re)(?k := Some now), reCorrelation := (reCorrelation re)(?k := Some [now])\<rparr>)
       else ([], re))"
    using assms(1,3) sup one by (auto simp: eval_one_def pass_suppression_def pass_threshold_def rule_hits_def Let_def split: option.splits)
  show "fst (eval_one env now e r re) = []" by (simp add: step)
  have "rule_hits (re\<lparr>reSuppression := s, reCorrelation := (reCorrelation re)(?k := Some [now])\<rparr>) k = (if k = ?k then [now] else rule_hits re k)" for s k
    by (simp add: rule_hits_def)
  moreover have "before_last (Some now) [now]" by (simp add: before_last_def)
  ultimately show "silent r (snd (eval_one env now e r re))" using assms(4) by (simp add: step silent_def)
qed

lemma Evaluate_silent:
  assumes "rules_apart (reRules re)" "r \<in> set (reRules re)" "0 < ruWindow r" "ruWindow r \<le> ruSuppress r" "ruThreshold r > 1" "silent r re"
  shows "filter (\<lambda>a. alRuleID a = ruRuleID r) (fst (Evaluate env now e re)) = []" "silent r (snd (Evaluate env now e re))"
proof -
  obtain re1 where "\<And>ent. same_at (entity_key r ent) re re1"
    and "filter (\<lambda>a. alRuleID a = ruRuleID r) (fst (Evaluate env now e re)) = fst (eval_one env now e r re1)"
    and "\<And>ent. same_at (entity_key r ent) (snd (eval_one env now e r re1)) (snd (Evaluate env now e re))"
    using Evaluate_one [OF assms(1,2)] by blast
  then show "filter (\<lambda>a. alRuleID a = ruRuleID r) (fst (Evaluate env now e re)) = []" "silent r (snd (Evaluate env now e re))"
    using eval_one_silent [OF assms(3-5), of re1 env now e] assms(6) silent_same by metis+
qed

text \<open>Suppression starts before the threshold is looked at, and events that arrive while it lasts are not counted: a rule
  whose suppression is at least as long as its window never alerts, however many events match.\<close>

theorem suppression_hides_threshold:
  assumes "rules_apart (reRules re)" "r \<in> set (reRules re)" "0 < ruWindow r" "ruWindow r \<le> ruSuppress r" "ruThreshold r > 1"
    "\<forall>k. reCorrelation re k = None" "\<forall>k. reSuppression re k = None"
  shows "\<forall>a\<in>set (fst (siem_run env calls re)). alRuleID a \<noteq> ruRuleID r"
proof -
  have "silent r re" using assms(6,7) by (simp add: silent_def before_last_def rule_hits_def)
  with assms(1,2) show ?thesis
  proof (induction env calls re rule: siem_run.induct)
    case (2 env now e calls re)
    note step = Evaluate_silent [OF 2(2,3) assms(3-5) 2(4), of env now e]
    have "\<forall>a\<in>set (fst (Evaluate env now e re)). alRuleID a \<noteq> ruRuleID r" using step(1) by (simp add: filter_empty_conv)
    moreover have "\<forall>a\<in>set (fst (siem_run env calls (snd (Evaluate env now e re)))). alRuleID a \<noteq> ruRuleID r"
      using 2(1) [OF refl prod.collapse] 2(2,3) step(2) by simp
    ultimately show ?case by (auto simp: case_prod_beta Let_def)
  qed simp
qed

section \<open>Disabled rules, fallbacks and interpolation\<close>

text \<open>A rule whose condition does not compile never matches.\<close>

lemma disabled_rule_silent: "ruReErr (finalize_rule env r) \<noteq> None \<Longrightarrow> \<not> matchesCondition env (finalize_rule env r) e"
  by (simp add: finalize_rule_def disable_bad_def matchesCondition_def Let_def)

text \<open>The controls for severities of seven and more are never given: severities are clamped to five first.\<close>

lemma finalize_severity: "ruSeverity (finalize_rule env r) = ClampSeverity (ruSeverity r)"
  by (simp add: finalize_rule_def disable_bad_def with_condition_def Let_def split: prod.split)

lemma severity_controls_reached:
  "severity_controls (ruSeverity (finalize_rule env r)) \<in> {[], [(''pci_dss_v3.2.1'', [''6.2'']), (''nist_sp_800-53'', [''AU-12''])]}"
  by (simp add: finalize_severity severity_controls_def ClampSeverity_def MinSeverity_def MaxSeverity_def)

text \<open>Replacements are done one field after the other, so a value that looks like a reference is replaced again, or not, depending on the
  order in which the map is visited.\<close>

lemma interpolation_order:
  "interpolate_text [(''user'', VStr ''${ip}''), (''ip'', VStr ''10.0.0.1'')] ''${user}'' = ''10.0.0.1''"
  "interpolate_text [(''ip'', VStr ''10.0.0.1''), (''user'', VStr ''${ip}'')] ''${user}'' = ''${ip}''"
  by code_simp+

end
