(* ===== verification/Siem_Engine.thy ===== *)
theory Siem_Engine
  imports Siem_Decoders Siem_Laws Case_Laws Go_Path
begin

text \<open>
  The SIEM engine around its rules (\<open>internal/siem/siem.go\<close>): ingestion into a bounded channel, evaluation, the
  suppression of repeated alerts, and the tailing of log files; and what the server does with
  an alert (\<open>cmd/trace/serve.go\<close>): the rate limit on automatic cases and their creation.

  Each channel operation is a step of its own.  What a check of a log file finds (its size, its content, its size
  after reading) is an input.
\<close>

section \<open>State\<close>

record siem_engine =
  enDecoders :: "decoder list"
  enRules :: RuleEngine
  enEvents :: "siem_event list"
  enAlerts :: "siem_alert list"
  enRecent :: "string \<Rightarrow> int option"
  enPositions :: "(string \<times> int) list"
  enTruncated :: nat
  enMaxLine :: nat

definition event_cap :: nat where "event_cap = 10000"

definition alert_cap :: nat where "alert_cap = 1000"

definition siem_New ::
  "rule_env \<Rightarrow> CompiledRule list \<Rightarrow> YAMLRule list \<Rightarrow> (string \<times> (nat \<times> YAMLRule list result) result) list \<Rightarrow> int \<Rightarrow> siem_engine" where
  "siem_New env external embedded files maxLine =
     (let re = LoadDefault env external embedded (NewRuleEngine env external embedded) in
      \<lparr>enDecoders = buildDecoders (registerDefaultDecoders []), enRules = snd (load_files env files re), enEvents = [], enAlerts = [],
       enRecent = (\<lambda>_. None), enPositions = [], enTruncated = 0, enMaxLine = (if maxLine \<le> 0 then 262144 else nat maxLine)\<rparr>)"

definition siem_Start :: "rule_env \<Rightarrow> CompiledRule list \<Rightarrow> YAMLRule list \<Rightarrow> siem_engine \<Rightarrow> siem_engine" where
  "siem_Start env external embedded en = en\<lparr>enRules := LoadDefault env external embedded (enRules en)\<rparr>"

section \<open>Ingestion and evaluation\<close>

text \<open>\<open>None\<close> when a decoder panics.\<close>

definition ingest :: "dec_env \<Rightarrow> string \<Rightarrow> string \<Rightarrow> siem_engine \<Rightarrow> siem_engine option" where
  "ingest env raw source en =
     (case ingest_event env (enDecoders en) raw source of
        None \<Rightarrow> None
      | Some e \<Rightarrow> Some (if length (enEvents en) < event_cap then en\<lparr>enEvents := enEvents en @ [e]\<rparr> else en))"

definition send_alert :: "siem_alert \<Rightarrow> siem_alert list \<Rightarrow> siem_alert list" where
  "send_alert a ch = (if length ch < alert_cap then ch @ [a] else ch)"

definition processEvent :: "rule_env \<Rightarrow> int \<Rightarrow> siem_engine \<Rightarrow> siem_engine" where
  "processEvent env now en =
     (case enEvents en of
        [] \<Rightarrow> en
      | e # es \<Rightarrow>
          (case Evaluate env now e (enRules en) of (alerts, re) \<Rightarrow>
             en\<lparr>enEvents := es, enRules := re, enAlerts := fold send_alert alerts (enAlerts en)\<rparr>))"

section \<open>Repeated alerts\<close>

definition dedup_window :: int where "dedup_window = 5 * Minute"

definition shouldSend :: "int \<Rightarrow> string \<Rightarrow> (string \<Rightarrow> int option) \<Rightarrow> bool \<times> (string \<Rightarrow> int option)" where
  "shouldSend now key recent =
     (if (case recent key of Some l \<Rightarrow> now - l < dedup_window | None \<Rightarrow> False) then (False, recent)
      else (True, \<lambda>k. case (recent(key := Some now)) k of
                        None \<Rightarrow> None | Some v \<Rightarrow> if now - v > dedup_window then None else Some v))"

definition dedup_key :: "siem_alert \<Rightarrow> string" where
  "dedup_key a = alTitle a @ ''|'' @ alRuleID a"

text \<open>The alert handed to the callback, if any.\<close>

definition dispatchAlert :: "int \<Rightarrow> siem_engine \<Rightarrow> siem_alert option \<times> siem_engine" where
  "dispatchAlert now en =
     (case enAlerts en of
        [] \<Rightarrow> (None, en)
      | a # as \<Rightarrow>
          (case shouldSend now (dedup_key a) (enRecent en) of (ok, recent) \<Rightarrow>
             (if ok then Some a else None, en\<lparr>enAlerts := as, enRecent := recent\<rparr>)))"

section \<open>Log files\<close>

text \<open>\<open>bufio.ScanLines\<close>: the lines without their ends, the last one also when it has no end; whether a line did not fit the buffer,
  which has 64 KiB at least.\<close>

definition raw_lines :: "string \<Rightarrow> string list" where
  "raw_lines s = (let ls = Split CHR 0x0A s in if last ls = [] then butlast ls else ls)"

definition drop_cr :: "string \<Rightarrow> string" where
  "drop_cr l = (if l \<noteq> [] \<and> last l = CHR 0x0D then butlast l else l)"

fun scan_lines :: "nat \<Rightarrow> string list \<Rightarrow> string list \<times> bool" where
  "scan_lines cap [] = ([], False)"
| "scan_lines cap (l # ls) =
     (if length l \<ge> cap then ([], True) else (case scan_lines cap ls of (ts, long) \<Rightarrow> (drop_cr l # ts, long)))"

record file_look =
  flSize :: "int option"
  flContent :: "string option"
  flAfter :: "int option"
  flEvict :: "(string \<times> int) list \<Rightarrow> string"

definition note_position :: "string \<Rightarrow> file_look \<Rightarrow> siem_engine \<Rightarrow> siem_engine" where
  "note_position path fl en =
     (case flAfter fl of
        None \<Rightarrow> en
      | Some n \<Rightarrow>
          let ps = put path n (enPositions en) in
          en\<lparr>enPositions := (if length ps > 1024 then filter (\<lambda>p. fst p \<noteq> flEvict fl ps) ps else ps)\<rparr>)"

definition ingestFile :: "string \<Rightarrow> int \<Rightarrow> file_look \<Rightarrow> siem_engine \<Rightarrow> string list \<times> siem_engine" where
  "ingestFile path offset fl en =
     (case flContent fl of
        None \<Rightarrow> ([], en)
      | Some c \<Rightarrow>
          (case scan_lines (max (enMaxLine en) 65536) (raw_lines (drop (nat offset) c)) of (ls, long) \<Rightarrow>
             (filter (\<lambda>l. l \<noteq> []) ls,
              note_position path fl (if long then en\<lparr>enTruncated := enTruncated en + 1\<rparr> else en))))"

definition check_file :: "string \<Rightarrow> file_look \<Rightarrow> siem_engine \<Rightarrow> string list \<times> siem_engine" where
  "check_file path fl en =
     (case flSize fl of
        None \<Rightarrow> ([], en)
      | Some sz \<Rightarrow>
          (case map_of (enPositions en) path of
             None \<Rightarrow> ingestFile path 0 fl (en\<lparr>enPositions := put path sz (enPositions en)\<rparr>)
           | Some lastPos \<Rightarrow> if sz \<le> lastPos then ([], en) else ingestFile path lastPos fl en))"

fun ingest_lines :: "dec_env \<Rightarrow> string \<Rightarrow> string list \<Rightarrow> siem_engine \<Rightarrow> siem_engine option" where
  "ingest_lines env source [] en = Some en"
| "ingest_lines env source (l # ls) en =
     (case ingest env l source en of None \<Rightarrow> None | Some en' \<Rightarrow> ingest_lines env source ls en')"

definition checkFile :: "dec_env \<Rightarrow> string \<Rightarrow> file_look \<Rightarrow> siem_engine \<Rightarrow> siem_engine option" where
  "checkFile env path fl en =
     (case check_file path fl en of (ls, en') \<Rightarrow> ingest_lines env (''file:'' @ path_Base path) ls en')"

section \<open>Automatic cases\<close>

definition autoCaseLimiter :: RateLimiter where "autoCaseLimiter = NewRateLimiter 5 Hour"

definition autoCaseSeverity :: "int \<Rightarrow> string" where
  "autoCaseSeverity sev =
     (if sev \<ge> 8 then ''critical'' else if sev \<ge> 5 then ''high'' else if sev \<ge> 3 then ''medium'' else ''low'')"

definition alert_entity :: "siem_alert \<Rightarrow> string" where
  "alert_entity a =
     (let e = str_field (seFields (alEvent a)) ''client_ip'' in if e = '''' then str_field (seFields (alEvent a)) ''host'' else e)"

definition open_case :: "case_env \<Rightarrow> siem_alert \<Rightarrow> case_db \<Rightarrow> string \<times> case_db" where
  "open_case env a db =
     (case CreateScoped env '''' (''SIEM: '' @ alTitle a) (alRuleID a) (autoCaseSeverity (alSeverity a)) db of
        (Inl _, db1) \<Rightarrow> ('''', db1)
      | (Inr c, db1) \<Rightarrow>
          let db2 = snd (AddEvent (later 4 env) (csID c) ''alert''
                      (''SIEM alert: '' @ alTitle a @ '' (severity: '' @ show_int (alSeverity a) @ '')'') ''siem'' db1);
              ent = alert_entity a in
          (csID c, if ent \<noteq> '''' \<and> ent \<noteq> ''<nil>'' then snd (AddIOC (later 5 env) (csID c) ''ip'' ent '''' db2) else db2))"

text \<open>The identifier of the new case is empty when none was opened.\<close>

definition on_alert :: "case_env \<Rightarrow> int \<Rightarrow> siem_alert \<Rightarrow> RateLimiter \<times> case_db \<Rightarrow> string \<times> RateLimiter \<times> case_db" where
  "on_alert env now a st =
     (case st of (rl, db) \<Rightarrow>
        if alSeverity a \<ge> 4 then
          (case Allow now (alRuleID a) (alert_entity a) rl of
             (False, rl1) \<Rightarrow> ('''', rl1, db)
           | (True, rl1) \<Rightarrow> (case open_case env a db of (cid, db1) \<Rightarrow> (cid, rl1, db1)))
        else ('''', rl, db))"

section \<open>Which decoders a line can reach\<close>

lemma default_decoders:
  "buildDecoders (registerDefaultDecoders []) = [K8sAudit, Suricata, JSON, Apache, Syslog, EVTX, WindowsEvent, Wazuh, Auto]"
  by code_simp

text \<open>What \<open>encoding/json\<close> documents: fields of a structure are filled from an object only, and an object also decodes as a
  map.\<close>

definition objects_only :: "dec_env \<Rightarrow> bool" where
  "objects_only env \<longleftrightarrow>
     (\<forall>raw s. dxSuricata env raw = Some s \<and> suEventType s \<noteq> '''' \<longrightarrow>
        HasPrefix (TrimSpace raw) ''{'' \<and> dxObject env (TrimSpace raw) \<noteq> None) \<and>
     (\<forall>raw k. dxK8s env raw = Some k \<and> HasPrefix (TrimSpace raw) ''{'' \<longrightarrow> dxObject env (TrimSpace raw) \<noteq> None)"

lemma fastDecode_object:
  assumes "HasPrefix (TrimSpace raw) ''{''" "dxObject env (TrimSpace raw) \<noteq> None"
  shows "fastDecode env raw \<noteq> None"
proof -
  have "TrimSpace raw \<noteq> []" "hd (TrimSpace raw) = CHR ''{''" using assms(1) by (cases "TrimSpace raw"; simp add: HasPrefix_def)+
  then show ?thesis using assms(2) by (auto simp: fastDecode_def Let_def)
qed

lemma json_decoders_unreached:
  assumes "objects_only env" "fastDecode env raw = None"
  shows "k8s_Decode env raw = Inl e \<or> (\<exists>e. k8s_Decode env raw = Inl e)" "\<exists>e. suricata_Decode env raw = Inl e"
proof -
  have "dxK8s env raw = None" if "HasPrefix (TrimSpace raw) ''{''"
    using assms that fastDecode_object unfolding objects_only_def by (metis not_None_eq)
  then show "k8s_Decode env raw = Inl e \<or> (\<exists>e. k8s_Decode env raw = Inl e)" by (auto simp: k8s_Decode_def Let_def)
  have "suEventType s = ''''" if "dxSuricata env raw = Some s" for s
    using assms that fastDecode_object unfolding objects_only_def by metis
  then show "\<exists>e. suricata_Decode env raw = Inl e" by (auto simp: suricata_Decode_def split: option.split)
qed

lemma syslog_always: "\<exists>e. syslog_Decode env raw = Inr e"
  by (auto simp: syslog_Decode_def split: option.split prod.split)

definition reached_tags :: "string list" where
  "reached_tags = [''http_error'', ''http_client_error'', ''http_redirect'', ''http_success'', ''auth_failure'', ''security'',
     ''auth_success'', ''error'', ''warning'']"

lemma apache_tags: "apache_Decode env raw = Inr e \<Longrightarrow> set (seTags e) \<subseteq> set reached_tags \<and> seSource e = ''decoder:apache''"
  by (auto simp: apache_Decode_def http_class_def reached_tags_def Let_def split: option.splits if_splits)

lemma syslog_class_tags: "set (snd (syslog_class msg)) \<subseteq> set reached_tags"
  by (simp add: syslog_class_def reached_tags_def Let_def)

lemma syslog_tags:
  assumes "syslog_Decode env raw = Inr e"
  shows "set (seTags e) \<subseteq> set reached_tags \<and> seSource e = ''decoder:syslog''"
proof (cases "dxSyslog env raw")
  case None
  then have "e = plain_event env ''decoder:syslog'' raw [(''message'', VStr raw)]" using assms by (simp add: syslog_Decode_def)
  then show ?thesis by (simp add: plain_event_def)
next
  case (Some x)
  obtain f ts h a m where x: "x = (f, ts, h, a, m)" by (cases x)
  obtain sev tags where c: "syslog_class m = (sev, tags)" by fastforce
  have e: "e = projr (syslog_Decode env raw)" by (simp add: assms)
  have "seTags e = tags" "seSource e = ''decoder:syslog''" unfolding e
    by (simp_all only: syslog_Decode_def Some x c option.case prod.case Let_def sum.sel siem_event.simps)
  then show ?thesis using syslog_class_tags [of m] c by simp
qed

lemma fast_tags: "fastDecode env raw = Some e \<Longrightarrow> seTags e = [] \<and> seSource e = ''decoder:json''"
  by (auto simp: fastDecode_def Let_def split: if_splits option.splits)

lemma try_default:
  assumes "objects_only env" "fastDecode env raw = None"
  shows "try_decoders env [K8sAudit, Suricata, JSON, Apache, Syslog, EVTX, WindowsEvent, Wazuh, Auto] raw =
    (case apache_Decode env raw of Inr e \<Rightarrow> Decoded e | Inl _ \<Rightarrow> outcome (syslog_Decode env raw))"
proof -
  obtain a b e where "k8s_Decode env raw = Inl a" "suricata_Decode env raw = Inl b" "syslog_Decode env raw = Inr e"
    using json_decoders_unreached [OF assms] syslog_always by blast
  then show ?thesis by (auto simp: dec_name_def dec_Decode_def outcome_def split: sum.split)
qed

lemma ingest_reaches:
  assumes "objects_only env"
  shows "\<exists>e. ingest_event env (buildDecoders (registerDefaultDecoders [])) raw source = Some e \<and>
    set (seTags e) \<subseteq> set reached_tags \<and>
    seSource e \<in> (\<lambda>d. source @ ''->decoder:'' @ d) ` {''json'', ''apache'', ''syslog''}"
proof (cases "fastDecode env raw")
  case (Some e)
  then show ?thesis using fast_tags [OF Some] by (simp add: ingest_event_def)
next
  case None
  obtain s where s: "syslog_Decode env raw = Inr s" using syslog_always by blast
  show ?thesis
  proof (cases "apache_Decode env raw")
    case (Inl x)
    then show ?thesis using None s syslog_tags [OF s] by (simp add: ingest_event_def default_decoders try_default [OF assms None] outcome_def
        del: try_decoders.simps)
  next
    case (Inr e)
    then show ?thesis using None apache_tags [OF Inr] by (simp add: ingest_event_def default_decoders try_default [OF assms None]
        del: try_decoders.simps)
  qed
qed

text \<open>Decoding ends and is not stopped by a panic; but every line becomes a JSON, an Apache or a syslog event: JSON lines are
  taken by the fast path, and the syslog decoder accepts every other line, so no event carries a
  tag of the Kubernetes, Suricata, Windows or Wazuh decoders.\<close>

theorem ingest_decoders:
  assumes "objects_only env"
  shows "\<exists>e. ingest_event env (buildDecoders (registerDefaultDecoders [])) raw source = Some e \<and>
    set (seTags e) \<subseteq> set reached_tags \<and>
    seSource e \<in> (\<lambda>d. source @ ''->decoder:'' @ d) ` {''json'', ''apache'', ''syslog''}"
  by (rule ingest_reaches [OF assms])

definition line_env :: dec_env where
  "line_env = \<lparr>dxNow = 0, dxObject = (\<lambda>s. if s = ''{}'' then Some [] else None), dxWhole = (\<lambda>_. None), dxK8s = (\<lambda>_. None),
     dxSuricata = (\<lambda>s. None), dxEvtx = (\<lambda>_. None), dxApache = (\<lambda>_. None), dxSyslog = (\<lambda>_. None), dxWinEvent = (\<lambda>_. None),
     dxTime = (\<lambda>_ _. None), dxWazuhDefs = None\<rparr>"

theorem ingest_decoders_witness:
  "\<exists>e. ingest_event line_env (buildDecoders (registerDefaultDecoders [])) ''4625'' ''file:x'' = Some e \<and>
    set (seTags e) \<subseteq> set reached_tags \<and>
    seSource e \<in> (\<lambda>d. ''file:x'' @ ''->decoder:'' @ d) ` {''json'', ''apache'', ''syslog''}"
  by (rule ingest_decoders) (simp add: objects_only_def line_env_def)

text \<open>So half of the built-in rules never match.\<close>

definition unreached_rules :: "string list" where
  "unreached_rules = [''SUSPICIOUS_PROCESS'', ''WIN_POWERSHELL_4104'', ''WIN_SCHEDULED_TASK_4698'', ''WIN_SERVICE_INSTALL_7045'',
     ''WIN_DEFENDER_1116'', ''WIN_PROCESS_4688_CREATION'', ''WIN_REGISTRY_PERSISTENCE'', ''WIN_ACCOUNT_LOCKOUT_4740'']"

lemma unreached_conditions:
  "list_all (\<lambda>r. ruRuleID r \<in> set unreached_rules \<longrightarrow>
     HasPrefix (ruCondition r) ''tag:'' \<and> TrimPrefix (ruCondition r) ''tag:'' \<notin> set reached_tags) builtinRules"
  by code_simp

theorem unreached_rules_silent:
  assumes "objects_only env" "ingest_event env (buildDecoders (registerDefaultDecoders [])) raw source = Some e"
    "r \<in> set builtinRules" "ruRuleID r \<in> set unreached_rules"
  shows "\<not> matchesCondition renv (finalize_rule renv r) e"
proof -
  have tags: "set (seTags e) \<subseteq> set reached_tags" using ingest_reaches [OF assms(1), of raw source] assms(2) by auto
  have c: "HasPrefix (ruCondition r) ''tag:''" "TrimPrefix (ruCondition r) ''tag:'' \<notin> set reached_tags"
    using unreached_conditions assms(3,4) by (auto simp: list_all_iff)
  have "ruCondition (finalize_rule renv r) \<in> {'''', ruCondition r}"
    by (auto simp: finalize_rule_def disable_bad_def with_condition_def Let_def split: prod.splits)
  then show ?thesis using c tags by (auto simp: matchesCondition_def Let_def)
qed

section \<open>Rules loaded before the start\<close>

lemma load_rules_same:
  "reRules re = reRules re' \<Longrightarrow> reRules (snd (load_rules env yrs re)) = reRules (snd (load_rules env yrs re'))"
  by (induction yrs arbitrary: re re') (auto simp: Let_def split: option.split)

text \<open>Starting the engine loads the default rules in place of all others.\<close>

lemma start_forgets_rules:
  "reRules (enRules (siem_Start env external embedded en)) = reRules (enRules (siem_Start env external embedded en'))"
proof -
  have "reRules (snd (load_rules env embedded ((enRules en)\<lparr>reRules := external @ builtinRules\<rparr>))) =
      reRules (snd (load_rules env embedded ((enRules en')\<lparr>reRules := external @ builtinRules\<rparr>)))"
    by (rule load_rules_same) simp
  then show ?thesis by (simp add: siem_Start_def LoadDefault_def Let_def)
qed

section \<open>Repeated alerts\<close>

lemma dedup_window_pos: "0 < dedup_window"
  by (simp add: dedup_window_def Minute_def Second_def)

abbreviation last_sent :: "string \<Rightarrow> (string \<Rightarrow> int option) \<Rightarrow> int list" where
  "last_sent key recent \<equiv> (case recent key of Some t \<Rightarrow> [t] | None \<Rightarrow> [])"

lemma shouldSend_fresh:
  "in_window (now - dedup_window) (last_sent key recent) = [] \<Longrightarrow>
    shouldSend now key recent = (True, \<lambda>k. case (recent(key := Some now)) k of
                        None \<Rightarrow> None | Some v \<Rightarrow> if now - v > dedup_window then None else Some v)"
  by (cases "recent key") (auto simp: shouldSend_def in_window_def split: if_splits)

lemma shouldSend_repeated:
  "in_window (now - dedup_window) (last_sent key recent) \<noteq> [] \<Longrightarrow> shouldSend now key recent = (False, recent)"
  by (cases "recent key") (auto simp: shouldSend_def in_window_def split: if_splits)

interpretation dedup: admission shouldSend last_sent "\<lambda>_. 1" "\<lambda>_. dedup_window"
proof
  fix now :: int and key k :: string and s :: "string \<Rightarrow> int option"
  let ?w = "in_window (now - dedup_window) (last_sent key s)"
  show "fst (shouldSend now key s) \<longleftrightarrow> length ?w < 1"
    by (cases "?w = []") (simp_all add: shouldSend_fresh shouldSend_repeated)
  show "last_sent key (snd (shouldSend now key s)) = ?w @ (if fst (shouldSend now key s) then [now] else [])"
  proof (cases "?w = []")
    case True then show ?thesis using dedup_window_pos by (simp add: shouldSend_fresh)
  next
    case False
    then show ?thesis by (cases "s key") (auto simp: shouldSend_repeated in_window_def split: if_splits)
  qed
  assume "k \<noteq> key"
  then show "in_window (now - dedup_window) (last_sent k (snd (shouldSend now key s))) = in_window (now - dedup_window) (last_sent k s)"
    by (cases "?w = []"; cases "s k") (auto simp: shouldSend_fresh shouldSend_repeated in_window_def)
qed (rule refl)+

text \<open>Alerts with the same title and rule that reach the callback are at least five minutes apart.\<close>

lemma dispatched_apart:
  assumes "sorted (map fst calls)"
  shows "spaced 1 dedup_window (times_of key (fst (admit_run shouldSend calls (\<lambda>_. None))))"
  using dedup.admitted_spaced [of "\<lambda>_. None" calls key] assms dedup_window_pos by simp

text \<open>The entity is not part of the key: an alert hides those of every other host for five minutes.\<close>

theorem dedup_hides_other_hosts:
  assumes "enAlerts en = a # b # as" "alTitle b = alTitle a" "alRuleID b = alRuleID a" "dispatchAlert t en = (Some a, en')"
    "t \<le> t'" "t' - t < dedup_window"
  shows "fst (dispatchAlert t' en') = None"
proof -
  obtain recent where r: "shouldSend t (dedup_key a) (enRecent en) = (True, recent)" "en' = en\<lparr>enAlerts := b # as, enRecent := recent\<rparr>"
    using assms(1,4) by (cases "shouldSend t (dedup_key a) (enRecent en)") (auto simp: dispatchAlert_def split: if_splits)
  have "recent = snd (shouldSend t (dedup_key a) (enRecent en))" "fst (shouldSend t (dedup_key a) (enRecent en))"
    by (simp_all add: r(1))
  then have "recent (dedup_key a) = Some t" using dedup_window_pos unfolding shouldSend_def by (simp split: if_splits)
  moreover have "dedup_key b = dedup_key a" using assms(2,3) by (simp add: dedup_key_def)
  ultimately show ?thesis using r assms(6) by (simp add: dispatchAlert_def shouldSend_def)
qed

section \<open>Tailing a file\<close>

definition whole :: "string \<Rightarrow> bool" where
  "whole s \<longleftrightarrow> s = [] \<or> last s = CHR 0x0A"

lemma Split_at: "Split c (a @ c # b) = Split c a @ Split c b"
proof (induction a)
  case (Cons x a)
  obtain p ps where "Split c a = p # ps" using Split_not_Nil [of c a] by (cases "Split c a") auto
  then show ?case using Cons by simp
qed simp

lemma raw_lines_append:
  assumes "whole a"
  shows "raw_lines (a @ b) = raw_lines a @ raw_lines b"
proof (cases "a = []")
  case False
  then obtain a' where a: "a = a' @ [CHR 0x0A]" using assms by (metis whole_def append_butlast_last_id)
  have "raw_lines a = Split CHR 0x0A a'" using Split_at [of "CHR 0x0A" a' "[]"] by (simp add: a raw_lines_def Let_def)
  moreover have "raw_lines (a @ b) = Split CHR 0x0A a' @ raw_lines b"
    using Split_at [of "CHR 0x0A" a' b] by (simp add: a raw_lines_def Let_def butlast_append)
  ultimately show ?thesis by simp
qed (simp add: raw_lines_def)

lemma scan_short: "list_all (\<lambda>l. length l < cap) ls \<Longrightarrow> scan_lines cap ls = (map drop_cr ls, False)"
  by (induction ls) auto

definition look :: "((string \<times> int) list \<Rightarrow> string) \<Rightarrow> string \<Rightarrow> file_look" where
  "look ev c = \<lparr>flSize = Some (int (length c)), flContent = Some c, flAfter = Some (int (length c)), flEvict = ev\<rparr>"

text \<open>Checks of a file that grows by one part before each of them.\<close>

fun grow_run :: "((string \<times> int) list \<Rightarrow> string) \<Rightarrow> string \<Rightarrow> string \<Rightarrow> string list \<Rightarrow> siem_engine \<Rightarrow> string list \<times> siem_engine" where
  "grow_run ev path c [] en = ([], en)"
| "grow_run ev path c (p # ps) en =
     (let (ls, en1) = check_file path (look ev (c @ p)) en; (rest, en2) = grow_run ev path (c @ p) ps en1 in (ls @ rest, en2))"

definition lines_of :: "string \<Rightarrow> string list" where
  "lines_of s = filter (\<lambda>l. l \<noteq> []) (map drop_cr (raw_lines s))"

lemma lines_of_append: "whole a \<Longrightarrow> lines_of (a @ b) = lines_of a @ lines_of b"
  by (simp add: lines_of_def raw_lines_append)

lemma length_put: "length (put k v m) = (if k \<in> fst ` set m then length m else Suc (length m))"
  by (induction k v m rule: put.induct) auto

lemma put_has_key: "k \<in> fst ` set (put k v m)"
  by (induction k v m rule: put.induct) auto

definition short_lines :: "siem_engine \<Rightarrow> string \<Rightarrow> bool" where
  "short_lines en s \<longleftrightarrow> list_all (\<lambda>l. length l < max (enMaxLine en) 65536) (raw_lines s)"

lemma ingest_new_part:
  assumes "short_lines en (drop (nat off) c)" "length (put path n (enPositions en)) \<le> 1024" "n = int (length c)"
  shows "ingestFile path off (look ev c) en = (lines_of (drop (nat off) c), en\<lparr>enPositions := put path n (enPositions en)\<rparr>)"
  using assms by (simp add: ingestFile_def look_def note_position_def scan_short lines_of_def short_lines_def Let_def)

lemma put_put [simp]: "put k v (put k w m) = put k v m"
  by (induction k w m rule: put.induct) auto

lemma check_known:
  assumes "map_of (enPositions en) path = Some (int (length c))" "length (enPositions en) \<le> 1024" "short_lines en p"
  shows "\<exists>en1. check_file path (look ev (c @ p)) en = (lines_of p, en1) \<and> map_of (enPositions en1) path = Some (int (length (c @ p))) \<and>
    length (enPositions en1) \<le> 1024 \<and> enMaxLine en1 = enMaxLine en"
proof (cases "p = []")
  case True
  then show ?thesis using assms by (simp add: check_file_def look_def lines_of_def raw_lines_def)
next
  case False
  have "path \<in> fst ` set (enPositions en)" using assms(1) by (force dest: map_of_SomeD)
  then have "length (put path n (enPositions en)) \<le> 1024" for n using assms(2) by (simp add: length_put)
  then have "ingestFile path (int (length c)) (look ev (c @ p)) en =
      (lines_of p, en\<lparr>enPositions := put path (int (length (c @ p))) (enPositions en)\<rparr>)"
    using ingest_new_part [of en "int (length c)" "c @ p" path "int (length (c @ p))" ev] assms(3) by simp
  then show ?thesis
    using False assms(1) \<open>\<And>n. length (put path n (enPositions en)) \<le> 1024\<close> by (simp add: check_file_def look_def)
qed

lemma grow_known:
  assumes "map_of (enPositions en) path = Some (int (length c))" "length (enPositions en) \<le> 1024" "list_all whole ps"
    "\<forall>p\<in>set ps. short_lines en p"
  shows "fst (grow_run ev path c ps en) = lines_of (concat ps)"
  using assms
proof (induction ps arbitrary: c en)
  case Nil then show ?case by (simp add: lines_of_def raw_lines_def)
next
  case (Cons p ps)
  obtain en1 where e: "check_file path (look ev (c @ p)) en = (lines_of p, en1)"
    "map_of (enPositions en1) path = Some (int (length (c @ p)))" "length (enPositions en1) \<le> 1024" "enMaxLine en1 = enMaxLine en"
    using check_known [of en path c p ev] Cons.prems by auto
  then have "fst (grow_run ev path (c @ p) ps en1) = lines_of (concat ps)"
    using Cons.prems by (intro Cons.IH) (auto simp: short_lines_def)
  then show ?case using Cons.prems(3) e(1) by (simp add: lines_of_append case_prod_beta Let_def)
qed


definition sample_engine :: siem_engine where
  "sample_engine = \<lparr>enDecoders = [], enRules = login_engine, enEvents = [], enAlerts = [], enRecent = (\<lambda>_. None), enPositions = [],
     enTruncated = 0, enMaxLine = 262144\<rparr>"


text \<open>A file that was replaced by a shorter one is not read, and after a line beyond the limit the rest is not read either, although
  the position moves to the end.\<close>

lemma rotated_file_unread:
  assumes "map_of (enPositions en) path = Some n" "int (length c) \<le> n"
  shows "check_file path (look ev c) en = ([], en)"
  using assms by (simp add: check_file_def look_def)

lemma long_line_hides_rest:
  assumes "map_of (enPositions en) path = None" "length (enPositions en) < 1024" "CHR 0x0A \<notin> set l" "length l \<ge> max (enMaxLine en) 65536"
  shows "fst (check_file path (look ev (l @ CHR 0x0A # rest)) en) = []"
    "map_of (enPositions (snd (check_file path (look ev (l @ CHR 0x0A # rest)) en))) path = Some (int (length l + 1 + length rest))"
proof -
  have "Split CHR 0x0A l = [l]" using assms(3) by (induction l) (auto split: list.split)
  then have sp: "Split CHR 0x0A (l @ CHR 0x0A # rest) = l # Split CHR 0x0A rest" by (simp add: Split_at)
  have "\<exists>ls. raw_lines (l @ CHR 0x0A # rest) = l # ls"
    using Split_not_Nil [of "CHR 0x0A" rest] by (simp add: raw_lines_def sp Let_def butlast.simps(2) del: butlast.simps(1))
  then obtain ls where ls: "raw_lines (l @ CHR 0x0A # rest) = l # ls" by blast
  then have s: "scan_lines (max (enMaxLine en) 65536) (raw_lines (l @ CHR 0x0A # rest)) = ([], True)" using assms(4) by simp
  then show "fst (check_file path (look ev (l @ CHR 0x0A # rest)) en) = []"
    using assms(1) by (simp add: check_file_def look_def ingestFile_def)
  show "map_of (enPositions (snd (check_file path (look ev (l @ CHR 0x0A # rest)) en))) path = Some (int (length l + 1 + length rest))"
    using assms(1,2) s by (simp add: check_file_def look_def ingestFile_def note_position_def length_put put_has_key Let_def)
qed

section \<open>Automatic cases are bounded\<close>

fun alert_run :: "(case_env \<times> int \<times> siem_alert) list \<Rightarrow> RateLimiter \<times> case_db \<Rightarrow> RateLimiter \<times> case_db" where
  "alert_run [] st = st"
| "alert_run ((env, now, a) # calls) st = alert_run calls (snd (on_alert env now a st))"

definition burst_key :: "siem_alert \<Rightarrow> string" where
  "burst_key a = limit_key (alRuleID a) (alert_entity a)"

lemma insert_case_rows: "length (cdCases (snd (insert_case flt row db))) \<le> length (cdCases db) + (if fst (insert_case flt row db) = None then 1 else 0)"
  by (auto simp: insert_case_def split: option.split)

lemma cm_Create_rows: "length (cdCases (snd (cm_Create env t d sv db))) \<le> length (cdCases db) + 1"
  using insert_case_rows [of "ceFail env 0" "new_case (ceUUID env 0) t d sv '''' (ceNow env 0)" db]
  by (auto simp: cm_Create_def Let_def split: prod.split option.split sum.split if_splits)

lemma CreateScoped_rows: "length (cdCases (snd (CreateScoped env org t d sv db))) \<le> length (cdCases db) + 1"
proof (cases "insert_case (ceFail env 0) (new_case (ceUUID env 0) t d sv org (ceNow env 0)) db")
  case (Pair e db1)
  then show ?thesis
    using insert_case_rows [of "ceFail env 0" "new_case (ceUUID env 0) t d sv org (ceNow env 0)" db]
      cm_Create_rows [of "later 1 env" t d sv db1]
    by (cases e) (auto simp: CreateScoped_def Let_def)
qed

lemma add_rows [simp]:
  "cdCases (snd (AddEvent env c ty content src db)) = cdCases db" "cdCases (snd (AddIOC env c ty v d db)) = cdCases db"
  by (auto simp: AddEvent_def AddIOC_def Let_def split: option.split)

lemma open_case_rows: "length (cdCases (snd (open_case env a db))) \<le> length (cdCases db) + 1"
  using CreateScoped_rows [of env "''''" "''SIEM: '' @ alTitle a" "alRuleID a" "autoCaseSeverity (alSeverity a)" db]
  by (auto simp: open_case_def Let_def split: prod.split sum.split)

lemma alert_run_rows:
  "length (cdCases (snd (alert_run calls (rl, db)))) \<le>
     length (cdCases db) + length (fst (admit_run allow_key (map (\<lambda>(_, now, a). (now, burst_key a)) (filter (\<lambda>(_, _, a). alSeverity a \<ge> 4) calls)) rl))"
proof (induction calls arbitrary: rl db)
  case (Cons c calls)
  obtain env now a where c: "c = (env, now, a)" by (cases c)
  obtain ok rl1 where r: "allow_key now (burst_key a) rl = (ok, rl1)" by fastforce
  then have "Allow now (alRuleID a) (alert_entity a) rl = (ok, rl1)" by (simp add: Allow_def burst_key_def)
  then show ?case
    using Cons [of rl db] Cons [of rl1 db] Cons [of rl1 "snd (open_case env a db)"] open_case_rows [of env a db] r
    by (cases ok) (auto simp: c on_alert_def case_prod_beta Let_def)
qed simp

lemma spaced_burst:
  assumes "spaced m w xs" "\<forall>x\<in>set xs. t \<le> x \<and> x < t + w"
  shows "length xs \<le> m"
proof (rule ccontr)
  assume "\<not> length xs \<le> m"
  then have "m < length xs" "xs \<noteq> []" by auto
  then have "xs ! (0 + m) - xs ! 0 \<ge> w" "xs ! m \<in> set xs" "xs ! 0 \<in> set xs"
    using assms(1) unfolding spaced_def by (metis add_0, simp_all)
  then show False using assms(2) by (smt (verit) add_0)
qed

lemma admit_run_subset: "set (fst (admit_run f calls s)) \<subseteq> set calls"
proof (induction calls arbitrary: s)
  case (Cons c calls)
  then show ?case using Cons [of "snd (f (fst c) (snd c) s)"] by (cases c) (auto simp: case_prod_beta Let_def)
qed simp


definition login_alert :: siem_alert where
  "login_alert = make_alert 0 login_rule (failed_login ''10.0.0.9'')"


text \<open>The label of an automatic case is taken from a scale of ten, while severities end at five: it disagrees with the
  package's own labels for every alert that opens a case.\<close>

lemma case_label_mismatch:
  "ShouldAutoCase sev \<Longrightarrow> sev = ClampSeverity sev \<Longrightarrow> autoCaseSeverity sev \<noteq> SeverityLabel sev"
  by (auto simp: ShouldAutoCase_def ClampSeverity_def autoCaseSeverity_def SeverityLabel_def MinSeverity_def MaxSeverity_def split: if_splits)

end
