(* ===== verification/Edr_Executor.thy ===== *)
theory Edr_Executor
  imports Response_Agent
begin

text \<open>
  The executor of the endpoint agent (\<open>internal/edr_agent/response/executor.go\<close>), which carries out the actions that the
  server hands to a host: kill a process, quarantine a file, block an address, isolate and release the host, collect forensics.

  Commands go through \<open>RunArgv\<close> of the response package, so the state is that of its commands (\<open>agent_state\<close>, whose table stays
  empty here) with the bounded channel of events.  What the executor reads from the host is the record \<open>host_env\<close>.
\<close>

record PendingAction =
  paID :: string
  paType :: string
  paTarget :: string
  paParams :: obj

record ('a, 'p) host_env =
  exResp :: "('a, 'p) resp_env"
  exMissing :: "string \<Rightarrow> bool"
  exSize :: "string \<Rightarrow> int"
  exNow :: int
  exTemp :: "string result"
  exTempWrite :: "string \<Rightarrow> string \<Rightarrow> string option"
  exProcUptime :: string

record executor =
  exAgent :: agent_state
  exEvents :: "int list"
  exEventCap :: nat

definition NewExecutor :: "string \<Rightarrow> nat \<Rightarrow> executor" where
  "NewExecutor tempDir cap =
     \<lparr>exAgent = \<lparr>asRows = [], asRun = [], asCalls = 0, asQuarantineDir = path_Join tempDir ''trace-quarantine''\<rparr>, exEvents = [], exEventCap = cap\<rparr>"

section \<open>Processes, files and addresses\<close>

definition paramPID :: "('a, 'p) host_env \<Rightarrow> obj \<Rightarrow> (int \<times> bool) result" where
  "paramPID env params =
     (case map_of params ''pid'' of
        None \<Rightarrow> Inr (0, False)
      | Some VNil \<Rightarrow> Inr (0, False)
      | Some (VInt n) \<Rightarrow> (case ValidatePID (exResp env) n of Some e \<Rightarrow> Inl e | None \<Rightarrow> Inr (n, True))
      | Some (VStr s) \<Rightarrow> (case ValidatePIDString (exResp env) s of Inl e \<Rightarrow> Inl e | Inr pid \<Rightarrow> Inr (pid, True))
      | Some v \<Rightarrow> Inl (''invalid pid '' @ go_sprint v))"

definition ex_kill_argv :: "('a, 'p) host_env \<Rightarrow> int \<Rightarrow> bool \<Rightarrow> string \<Rightarrow> string list result" where
  "ex_kill_argv env pid hasPID name =
     (if hasPID then Inr (if reGOOS (exResp env) = ''windows'' then TaskkillPIDArgv pid else KillPIDArgv pid)
      else (case ValidateProcessName name of
              Some e \<Rightarrow> Inl e
            | None \<Rightarrow> Inr (if reGOOS (exResp env) = ''windows'' then TaskkillNameArgv name else PkillArgv name)))"

definition ex_killProcess :: "('a, 'p) host_env \<Rightarrow> PendingAction \<Rightarrow> agent_state \<Rightarrow> obj result \<times> agent_state" where
  "ex_killProcess env action st =
     (case paramPID env (paParams action) of
        Inl e \<Rightarrow> (Inl e, st)
      | Inr (pid, hasPID) \<Rightarrow>
          let name = str_field (paParams action) ''name'' in
          if \<not> hasPID \<and> name = '''' then (Inl ''pid or name required'', st)
          else (case ex_kill_argv env pid hasPID name of
                  Inl e \<Rightarrow> (Inl e, st)
                | Inr argv \<Rightarrow>
                    let ((output, err), st1) = RunArgv (exResp env) argv st in
                    (Inr (case err of
                            Some e \<Rightarrow> [(''status'', VStr ''failed''), (''error'', VStr (e @ '': '' @ output)), (''pid'', VInt pid), (''name'', VStr name)]
                          | None \<Rightarrow> [(''status'', VStr ''killed''), (''output'', VStr output), (''pid'', VInt pid), (''name'', VStr name)]),
                     st1)))"

definition or_target :: "PendingAction \<Rightarrow> string \<Rightarrow> string" where
  "or_target action k = (let p = str_field (paParams action) k in if p = '''' then paTarget action else p)"

definition ex_quarantineFile :: "('a, 'p) host_env \<Rightarrow> PendingAction \<Rightarrow> agent_state \<Rightarrow> obj result \<times> agent_state" where
  "ex_quarantineFile env action st =
     (let path = or_target action ''path''; re = exResp env in
      case ValidateFilePath path of
        Some e \<Rightarrow> (Inl e, st)
      | None \<Rightarrow>
          if exMissing env path then (Inr [(''status'', VStr ''not_found''), (''path'', VStr path)], st)
          else (case reStat re path of
            Some e \<Rightarrow> (Inl e, st)
          | None \<Rightarrow>
         (case CheckSymlinkOrDevice re path of
            Some e \<Rightarrow> (Inl e, st)
          | None \<Rightarrow>
         (case ResolveQuarantineDest re (asCalls st) (asQuarantineDir st) path of
            Inl e \<Rightarrow> (Inl e, st)
          | Inr dest \<Rightarrow>
              let (argv, undo) = MoveArgv path dest; ((output, err), st1) = RunArgv re argv st in
              (Inr (case err of
                      Some e \<Rightarrow> [(''status'', VStr ''failed''), (''error'', VStr e), (''path'', VStr path)]
                    | None \<Rightarrow> [(''status'', VStr ''quarantined''), (''original_path'', VStr path), (''quarantine_path'', VStr dest),
                              (''rollback_command'', VStr (reEncode re undo argv)), (''output'', VStr output), (''size'', VInt (exSize env path))]),
               st1)))))"

definition block_error :: "string \<Rightarrow> string \<Rightarrow> string" where
  "block_error e output =
     (if output = '''' then e
      else if Contains output ''elevation'' \<or> Contains output ''Administrator''
      then ''requires administrator privileges '' @ [CHR 0xE2, CHR 0x80, CHR 0x94] @ '' run agent as admin''
      else output)"

definition ex_blockIP :: "('a, 'p) host_env \<Rightarrow> PendingAction \<Rightarrow> agent_state \<Rightarrow> obj result \<times> agent_state" where
  "ex_blockIP env action st =
     (let re = exResp env in
      case ValidateIP re (or_target action ''ip'') of
        Inl e \<Rightarrow> (Inl e, st)
      | Inr addr \<Rightarrow>
          let (argv, undo) = BlockIPArgv re addr; ((output, err), st1) = RunArgv re argv st in
          (Inr [(''status'', VStr (if err = None then ''blocked'' else ''failed'')), (''ip'', VStr (reAddrString re addr)),
                (''command'', VStr (reEncode re argv undo)), (''output'', VStr output), (''rollback_command'', VStr (reEncode re undo argv)),
                (''error'', VStr (case err of None \<Rightarrow> '''' | Some e \<Rightarrow> block_error e output))], st1))"

definition ex_runScript :: "('a, 'p) host_env \<Rightarrow> PendingAction \<Rightarrow> agent_state \<Rightarrow> obj result \<times> agent_state" where
  "ex_runScript env action st =
     (case CheckRunScriptGate (exResp env) (paParams action) of
        Some e \<Rightarrow> (Inl e, st)
      | None \<Rightarrow>
          if str_field (paParams action) ''script'' = '''' then (Inl ''script content required'', st)
          else (Inl ''run_script enabled but no script runner configured: refusing to execute script body on host'', st))"

section \<open>Isolation\<close>

definition validatedServerIP :: "('a, 'p) host_env \<Rightarrow> PendingAction \<Rightarrow> string result" where
  "validatedServerIP env action =
     (let ipStr = str_field (paParams action) ''server_ip'' in
      if ipStr = '''' then Inr ''127.0.0.1''
      else (case ValidateIP (exResp env) ipStr of Inl e \<Rightarrow> Inl e | Inr addr \<Rightarrow> Inr (reAddrString (exResp env) addr)))"

definition linux_isolate :: "string \<Rightarrow> string list list" where
  "linux_isolate serverIP =
     [[''iptables'', ''-P'', ''INPUT'', ''DROP''],
      [''iptables'', ''-P'', ''OUTPUT'', ''DROP''],
      [''iptables'', ''-P'', ''FORWARD'', ''DROP''],
      [''iptables'', ''-A'', ''OUTPUT'', ''-d'', serverIP, ''-j'', ''ACCEPT'']]"

definition windows_isolate :: "string \<Rightarrow> string list list" where
  "windows_isolate serverIP =
     [[''netsh'', ''advfirewall'', ''set'', ''allprofiles'', ''firewallpolicy'', ''blockinbound,blockoutbound''],
      [''netsh'', ''advfirewall'', ''firewall'', ''add'', ''rule'', ''name=trace-isolate-allow'', ''dir=out'', ''action=allow'', ''remoteip='' @ serverIP]]"

definition darwin_isolate :: "string \<Rightarrow> string list list" where
  "darwin_isolate tmp = [[''pfctl'', ''-e''], [''pfctl'', ''-f'', tmp]]"

definition isolate_steps :: "('a, 'p) host_env \<Rightarrow> string \<Rightarrow> string list list result" where
  "isolate_steps env serverIP =
     (let os = reGOOS (exResp env) in
      if os = ''windows'' then Inr (windows_isolate serverIP)
      else if os = ''linux'' then Inr (linux_isolate serverIP)
      else if os = ''darwin'' then
        (case exTemp env of
           Inl e \<Rightarrow> Inl e
         | Inr tmp \<Rightarrow>
             (case exTempWrite env tmp (''block all'' @ [CHR 0x0A] @ ''pass out to '' @ serverIP @ [CHR 0x0A]) of
                Some e \<Rightarrow> Inl e
              | None \<Rightarrow> Inr (darwin_isolate tmp)))
      else Inl (''unsupported OS: '' @ os))"

fun run_each :: "('a, 'p) host_env \<Rightarrow> string list list \<Rightarrow> agent_state \<Rightarrow> any list \<times> agent_state" where
  "run_each env [] st = ([], st)"
| "run_each env (argv # steps) st =
     (let ((output, err), st1) = RunArgv (exResp env) argv st;
          r = VMap ([(''command'', VList (map VStr argv)), (''output'', VStr output)] @
                (case err of Some e \<Rightarrow> [(''status'', VStr ''failed''), (''error'', VStr e)] | None \<Rightarrow> [(''status'', VStr ''executed'')]));
          (rs, st2) = run_each env steps st1 in
      (r # rs, st2))"

definition isolateHost :: "('a, 'p) host_env \<Rightarrow> PendingAction \<Rightarrow> agent_state \<Rightarrow> obj result \<times> agent_state" where
  "isolateHost env action st =
     (case validatedServerIP env action of
        Inl e \<Rightarrow> (Inl e, st)
      | Inr serverIP \<Rightarrow>
          (case isolate_steps env serverIP of
             Inl e \<Rightarrow> (Inl e, st)
           | Inr steps \<Rightarrow>
               let (rs, st1) = run_each env steps st in
               (Inr [(''status'', VStr ''isolated''), (''results'', VList rs)], st1)))"

definition release_steps :: "string \<Rightarrow> string list list result" where
  "release_steps os =
     (if os = ''windows'' then Inr [[''netsh'', ''advfirewall'', ''set'', ''allprofiles'', ''firewallpolicy'', ''allowinbound,allowoutbound'']]
      else if os = ''linux'' then
        Inr [[''iptables'', ''-P'', ''INPUT'', ''ACCEPT''], [''iptables'', ''-P'', ''OUTPUT'', ''ACCEPT''],
             [''iptables'', ''-P'', ''FORWARD'', ''ACCEPT''], [''iptables'', ''-F'']]
      else if os = ''darwin'' then Inr [[''pfctl'', ''-F'', ''all''], [''pfctl'', ''-d'']]
      else Inl (''unsupported OS: '' @ os))"

definition releaseHost :: "('a, 'p) host_env \<Rightarrow> agent_state \<Rightarrow> obj result \<times> agent_state" where
  "releaseHost env st =
     (case release_steps (reGOOS (exResp env)) of
        Inl e \<Rightarrow> (Inl e, st)
      | Inr steps \<Rightarrow> (Inr [(''status'', VStr ''released'')], snd (run_each env steps st)))"

section \<open>Forensics and snapshots\<close>

definition runFixed :: "('a, 'p) host_env \<Rightarrow> string list \<Rightarrow> agent_state \<Rightarrow> string \<times> agent_state" where
  "runFixed env argv st =
     (let ((out, _), st1) = RunArgv (exResp env) argv st in
      (Join (take 50 (Split CHR 0x0A out)) [CHR 0x0A], st1))"

definition forensic_argvs :: "string \<Rightarrow> (string \<times> string list) list" where
  "forensic_argvs os =
     (if os = ''windows'' then
        [(''process_list'', [''tasklist'']),
         (''network_connections'', [''netstat'', ''-ano'']),
         (''disk_usage'', [''wmic'', ''logicaldisk'', ''get'', ''name,freespace,size'']),
         (''memory_info'', [''wmic'', ''os'', ''get'', ''freephysicalmemory,totalvisiblememorysize'']),
         (''recent_events'', [''wevtutil'', ''qe'', ''System'', ''/c:50'', ''/f:text'', ''/q:*[System[TimeCreated[timediff(@SystemTime) <= 86400000]]]''])]
      else if os = ''linux'' then
        [(''process_list'', [''ps'', ''aux'']), (''network_connections'', [''ss'', ''-tunap'']),
         (''disk_usage'', [''df'', ''-h'', ''/'']), (''memory_info'', [''free'', ''-h''])]
      else
        [(''process_list'', [''ps'', ''aux'']), (''network_connections'', [''lsof'', ''-i'', ''-P'', ''-n'']),
         (''disk_usage'', [''df'', ''-h'', ''/'']), (''memory_info'', [''vm_stat''])])"

fun collect_all :: "('a, 'p) host_env \<Rightarrow> (string \<times> string list) list \<Rightarrow> agent_state \<Rightarrow> obj \<times> agent_state" where
  "collect_all env [] st = ([], st)"
| "collect_all env ((k, argv) # rest) st =
     (let (out, st1) = runFixed env argv st; (os, st2) = collect_all env rest st1 in ((k, VStr out) # os, st2))"

definition collectForensics :: "('a, 'p) host_env \<Rightarrow> agent_state \<Rightarrow> obj result \<times> agent_state" where
  "collectForensics env st =
     (let (forensics, st1) = collect_all env (forensic_argvs (reGOOS (exResp env))) st in
      (Inr [(''status'', VStr ''collected''), (''forensics'', VMap forensics)], st1))"

definition getUptime :: "('a, 'p) host_env \<Rightarrow> agent_state \<Rightarrow> string \<times> agent_state" where
  "getUptime env st =
     (let os = reGOOS (exResp env) in
      if os = ''windows'' then
        (let ((out, _), st1) = RunArgv (exResp env) [''net'', ''statistics'', ''workstation''] st in
         (case find (\<lambda>line. Contains (ToLower line) ''since'') (Split CHR 0x0A out) of Some line \<Rightarrow> TrimSpace line | None \<Rightarrow> ''unknown'', st1))
      else if os = ''linux'' then
        (case Fields (exProcUptime env) of p # _ \<Rightarrow> p @ ''s'' | [] \<Rightarrow> ''unknown'', st)
      else
        (let ((out, _), st1) = RunArgv (exResp env) [''uptime''] st in (if out = '''' then ''unknown'' else out, st1)))"

section \<open>Dispatch\<close>

definition on_agent :: "(agent_state \<Rightarrow> obj result \<times> agent_state) \<Rightarrow> executor \<Rightarrow> obj result \<times> executor" where
  "on_agent f x = (let (r, st) = f (exAgent x) in (r, x\<lparr>exAgent := st\<rparr>))"

definition systemSnapshot :: "('a, 'p) host_env \<Rightarrow> executor \<Rightarrow> obj result \<times> executor" where
  "systemSnapshot env x =
     (let x1 = (if length (exEvents x) < exEventCap x then x\<lparr>exEvents := exEvents x @ [exNow env]\<rparr> else x);
          (up, st) = getUptime env (exAgent x1) in
      (Inr [(''status'', VStr ''snapshot_taken''), (''platform'', VStr (reGOOS (exResp env))), (''uptime'', VStr up)], x1\<lparr>exAgent := st\<rparr>))"

definition executeSingle :: "('a, 'p) host_env \<Rightarrow> PendingAction \<Rightarrow> executor \<Rightarrow> obj result \<times> executor" where
  "executeSingle env action x =
     (let t = paType action in
      if t = ''kill_process'' then on_agent (ex_killProcess env action) x
      else if t = ''quarantine_file'' then on_agent (ex_quarantineFile env action) x
      else if t = ''block_ip'' then on_agent (ex_blockIP env action) x
      else if t = ''run_script'' then on_agent (ex_runScript env action) x
      else if t = ''isolate_host'' then on_agent (isolateHost env action) x
      else if t = ''release_host'' then on_agent (releaseHost env) x
      else if t = ''collect_forensics'' then on_agent (collectForensics env) x
      else if t = ''system_snapshot'' then systemSnapshot env x
      else (Inl (''unknown action type: '' @ t), x))"

text \<open>The number of calls supplies fresh random names to the next quarantine.\<close>

definition ex_Execute :: "('a, 'p) host_env \<Rightarrow> PendingAction \<Rightarrow> executor \<Rightarrow> obj result \<times> executor" where
  "ex_Execute env action x =
     (case CheckChainRejected (paParams action) of
        Some e \<Rightarrow> (Inl e, x)
      | None \<Rightarrow>
          let (r, x1) = executeSingle env action x in (r, x1\<lparr>exAgent := (exAgent x1)\<lparr>asCalls := Suc (asCalls (exAgent x1))\<rparr>\<rparr>))"

section \<open>What the executor runs\<close>

definition runs_only :: "(string list \<Rightarrow> bool) \<Rightarrow> agent_state \<Rightarrow> agent_state \<Rightarrow> bool" where
  "runs_only P st st' \<longleftrightarrow> asQuarantineDir st' = asQuarantineDir st \<and> (\<exists>new. asRun st' = asRun st @ new \<and> list_all P new)"

lemma runs_only_refl [simp]: "runs_only P st st"
  by (simp add: runs_only_def)

lemma runs_only_trans: "runs_only P a b \<Longrightarrow> runs_only P b c \<Longrightarrow> runs_only P a c"
  by (fastforce simp: runs_only_def)

lemma runs_only_RunArgv: "P argv \<Longrightarrow> runs_only P st (snd (RunArgv env argv st))"
  using RunArgv_run [of env argv st "fst (RunArgv env argv st)" "snd (RunArgv env argv st)"] by (auto simp: runs_only_def)

lemma runs_only_each: "\<forall>argv\<in>set steps. P argv \<Longrightarrow> runs_only P st (snd (run_each env steps st))"
proof (induction steps arbitrary: st)
  case (Cons argv steps)
  then have "runs_only P (snd (RunArgv (exResp env) argv st)) (snd (run_each env steps (snd (RunArgv (exResp env) argv st))))" by simp
  then have "runs_only P st (snd (run_each env steps (snd (RunArgv (exResp env) argv st))))"
    using runs_only_trans [OF runs_only_RunArgv] Cons.prems by (metis list.set_intros(1))
  then show ?case by (simp add: case_prod_beta Let_def)
qed simp

lemma runs_only_fixed: "P argv \<Longrightarrow> runs_only P st (snd (runFixed env argv st))"
  using runs_only_RunArgv [of P argv st "exResp env"] by (simp add: runFixed_def case_prod_beta Let_def)

lemma runs_only_collect: "\<forall>x\<in>set steps. P (snd x) \<Longrightarrow> runs_only P st (snd (collect_all env steps st))"
proof (induction steps arbitrary: st)
  case (Cons x steps)
  obtain k argv where x: "x = (k, argv)" by (cases x)
  have "runs_only P (snd (runFixed env argv st)) (snd (collect_all env steps (snd (runFixed env argv st))))" using Cons by simp
  then have "runs_only P st (snd (collect_all env steps (snd (runFixed env argv st))))"
    using runs_only_trans [OF runs_only_fixed] Cons.prems x by (metis list.set_intros(1) snd_conv)
  then show ?case by (simp add: x case_prod_beta Let_def)
qed simp

text \<open>The vectors without variable parts, and those of an isolation for a validated address.\<close>

definition fixed_argvs :: "string \<Rightarrow> string list set" where
  "fixed_argvs os =
     (case release_steps os of Inl _ \<Rightarrow> {} | Inr steps \<Rightarrow> set steps) \<union> snd ` set (forensic_argvs os) \<union>
     {[''net'', ''statistics'', ''workstation''], [''uptime'']}"

definition exec_argv :: "('a, 'p) host_env \<Rightarrow> string \<Rightarrow> string list \<Rightarrow> bool" where
  "exec_argv env dir argv \<longleftrightarrow>
     built_argv (exResp env) dir argv \<or>
     (\<exists>pid. ValidatePID (exResp env) pid = None \<and> argv \<in> {TaskkillPIDArgv pid, KillPIDArgv pid}) \<or>
     argv \<in> fixed_argvs (reGOOS (exResp env)) \<or>
     (\<exists>action ip steps. validatedServerIP env action = Inr ip \<and> isolate_steps env ip = Inr steps \<and> argv \<in> set steps)"

lemma paramPID_valid: "paramPID env params = Inr (pid, True) \<Longrightarrow> ValidatePID (exResp env) pid = None"
  by (auto simp: paramPID_def ValidatePIDString_def split: option.splits any.splits sum.splits if_splits)

lemma kill_argv_ok:
  assumes "paramPID env params = Inr (pid, hasPID)" "ex_kill_argv env pid hasPID name = Inr argv"
  shows "exec_argv env dir argv"
proof (cases hasPID)
  case True
  then have "ValidatePID (exResp env) pid = None" "argv \<in> {TaskkillPIDArgv pid, KillPIDArgv pid}"
    using assms paramPID_valid [of env params pid] by (auto simp: ex_kill_argv_def)
  then show ?thesis unfolding exec_argv_def by blast
next
  case False
  then have "ValidateProcessName name = None" "argv \<in> {TaskkillNameArgv name, PkillArgv name}"
    using assms(2) by (auto simp: ex_kill_argv_def split: option.splits)
  then show ?thesis unfolding exec_argv_def built_argv_def by blast
qed

lemma kill_runs: "runs_only (exec_argv env (asQuarantineDir st)) st (snd (ex_killProcess env action st))"
proof (cases "paramPID env (paParams action)")
  case (Inr p)
  then show ?thesis
    using kill_argv_ok [of env "paParams action" "fst p" "snd p" "str_field (paParams action) ''name''" _ "asQuarantineDir st"]
    by (cases "ex_kill_argv env (fst p) (snd p) (str_field (paParams action) ''name'')")
      (auto simp: ex_killProcess_def case_prod_beta Let_def intro: runs_only_RunArgv)
qed (simp add: ex_killProcess_def)

lemma quarantine_runs: "runs_only (exec_argv env (asQuarantineDir st)) st (snd (ex_quarantineFile env action st))"
proof -
  have "exec_argv env (asQuarantineDir st) (fst (MoveArgv p dest))"
    if "ValidateFilePath p = None" "ResolveQuarantineDest (exResp env) (asCalls st) (asQuarantineDir st) p = Inr dest" for p dest
    using that unfolding exec_argv_def built_argv_def by blast
  then show ?thesis
    by (auto simp: ex_quarantineFile_def case_prod_beta Let_def split: option.split sum.split intro: runs_only_RunArgv)
qed

lemma block_runs: "runs_only (exec_argv env (asQuarantineDir st)) st (snd (ex_blockIP env action st))"
proof -
  have "exec_argv env (asQuarantineDir st) (fst (BlockIPArgv (exResp env) addr))" if "ValidateIP (exResp env) s = Inr addr" for s addr
    using that unfolding exec_argv_def built_argv_def by blast
  then show ?thesis by (auto simp: ex_blockIP_def case_prod_beta Let_def split: sum.split intro: runs_only_RunArgv)
qed

lemma isolate_runs: "runs_only (exec_argv env (asQuarantineDir st)) st (snd (isolateHost env action st))"
proof -
  have "exec_argv env (asQuarantineDir st) argv"
    if "validatedServerIP env action = Inr ip" "isolate_steps env ip = Inr steps" "argv \<in> set steps" for ip steps argv
    using that unfolding exec_argv_def by blast
  then show ?thesis by (auto simp: isolateHost_def case_prod_beta Let_def split: sum.split intro!: runs_only_each)
qed

lemma fixed_ok: "argv \<in> fixed_argvs (reGOOS (exResp env)) \<Longrightarrow> exec_argv env dir argv"
  by (simp add: exec_argv_def)

lemma release_runs: "runs_only (exec_argv env (asQuarantineDir st)) st (snd (releaseHost env st))"
  by (auto simp: releaseHost_def fixed_argvs_def split: sum.split intro!: runs_only_each fixed_ok)

lemma forensics_runs: "runs_only (exec_argv env (asQuarantineDir st)) st (snd (collectForensics env st))"
proof -
  have "exec_argv env (asQuarantineDir st) (snd x)" if "x \<in> set (forensic_argvs (reGOOS (exResp env)))" for x
    using that by (intro fixed_ok) (simp add: fixed_argvs_def)
  then show ?thesis by (auto simp: collectForensics_def case_prod_beta Let_def intro!: runs_only_collect)
qed

lemma uptime_runs: "runs_only (exec_argv env (asQuarantineDir st)) st (snd (getUptime env st))"
  by (auto simp: getUptime_def case_prod_beta Let_def fixed_argvs_def intro!: runs_only_RunArgv fixed_ok)

lemma script_runs_nothing: "ex_runScript env action st = (r, st') \<Longrightarrow> st' = st \<and> isl r"
  by (auto simp: ex_runScript_def split: option.splits if_splits)

lemma executeSingle_runs:
  "runs_only (exec_argv env (asQuarantineDir (exAgent x))) (exAgent x) (exAgent (snd (executeSingle env action x)))"
  using script_runs_nothing [of env action "exAgent x" "fst (ex_runScript env action (exAgent x))" "snd (ex_runScript env action (exAgent x))"]
  by (auto simp: executeSingle_def systemSnapshot_def on_agent_def case_prod_beta Let_def kill_runs quarantine_runs block_runs
      isolate_runs release_runs forensics_runs uptime_runs)

text \<open>Whatever action the server sends, each command that the endpoint runs for it was built from validated arguments or is one of a
  fixed list; nothing is run for a chain of actions or for a script.\<close>

theorem executor_runs_only_built:
  assumes "ex_Execute env action x = (r, x')"
  shows "\<exists>new. asRun (exAgent x') = asRun (exAgent x) @ new \<and> list_all (exec_argv env (asQuarantineDir (exAgent x))) new \<and>
    (paType action = ''run_script'' \<or> map_of (paParams action) ''chain'' \<notin> {None, Some VNil} \<longrightarrow> new = [] \<and> isl r)"
proof (cases "CheckChainRejected (paParams action)")
  case None
  obtain x1 where x1: "executeSingle env action x = (r, x1)" "asRun (exAgent x') = asRun (exAgent x1)"
    using assms None by (auto simp: ex_Execute_def split: prod.splits)
  have "map_of (paParams action) ''chain'' \<in> {None, Some VNil}"
    using None by (auto simp: CheckChainRejected_def split: option.splits if_splits)
  moreover have "exAgent x1 = exAgent x \<and> isl r" if "paType action = ''run_script''"
    using x1(1) that script_runs_nothing [of env action "exAgent x"] by (auto simp: executeSingle_def on_agent_def split: prod.splits)
  moreover obtain new where "asRun (exAgent x1) = asRun (exAgent x) @ new" "list_all (exec_argv env (asQuarantineDir (exAgent x))) new"
    using executeSingle_runs [of env x action] x1(1) by (auto simp: runs_only_def)
  ultimately show ?thesis using x1(2) by auto
next
  case (Some e)
  then show ?thesis using assms by (auto simp: ex_Execute_def)
qed

definition sample_host_env :: "(string, string) host_env" where
  "sample_host_env = \<lparr>exResp = sample_resp_env, exMissing = (\<lambda>_. False), exSize = (\<lambda>_. 0), exNow = 0, exTemp = Inl ''no temporary file'',
     exTempWrite = (\<lambda>_ _. None), exProcUptime = ''12.5 7''\<rparr>"

definition sample_executor :: executor where
  "sample_executor = \<lparr>exAgent = \<lparr>asRows = [], asRun = [], asCalls = 0, asQuarantineDir = ''/q''\<rparr>, exEvents = [], exEventCap = 1\<rparr>"

definition sample_action :: "string \<Rightarrow> obj \<Rightarrow> PendingAction" where
  "sample_action t params = \<lparr>paID = ''a1'', paType = t, paTarget = '''', paParams = params\<rparr>"

theorem executor_runs_only_built_witness:
  "\<exists>new. asRun (exAgent (snd (ex_Execute sample_host_env (sample_action ''block_ip'' [(''ip'', VStr ''10.0.0.5'')]) sample_executor))) = new \<and>
     list_all (exec_argv sample_host_env ''/q'') new \<and> new = [[''iptables'', ''-A'', ''INPUT'', ''-s'', ''10.0.0.5'', ''-j'', ''DROP'']]"
proof -
  let ?run = "ex_Execute sample_host_env (sample_action ''block_ip'' [(''ip'', VStr ''10.0.0.5'')]) sample_executor"
  have "asRun (exAgent (snd ?run)) = [[''iptables'', ''-A'', ''INPUT'', ''-s'', ''10.0.0.5'', ''-j'', ''DROP'']]" by code_simp
  then show ?thesis
    using executor_runs_only_built [of sample_host_env "sample_action ''block_ip'' [(''ip'', VStr ''10.0.0.5'')]" sample_executor "fst ?run" "snd ?run"]
    by (auto simp: sample_executor_def)
qed

section \<open>Isolation that cannot be lifted\<close>

text \<open>On Linux no step of an isolation admits packets to the host: the policy of \<open>INPUT\<close> is \<open>DROP\<close>, so the answers of the server
  do not arrive, and neither does the action that would release the host.\<close>

lemma isolation_admits_no_input:
  "[''iptables'', ''-P'', ''INPUT'', ''DROP''] \<in> set (linux_isolate ip)"
  "argv \<in> set (linux_isolate ip) \<Longrightarrow> ''INPUT'' \<in> set argv \<Longrightarrow> ip \<noteq> ''INPUT'' \<Longrightarrow> ''ACCEPT'' \<notin> set argv"
  by (auto simp: linux_isolate_def)

text \<open>The status is \<open>isolated\<close> also when every command failed.\<close>

theorem failed_isolation_reported:
  assumes "validatedServerIP env action = Inr ip" "isolate_steps env ip = Inr steps"
  shows "\<exists>rs. fst (isolateHost env action st) = Inr [(''status'', VStr ''isolated''), (''results'', VList rs)]"
  using assms by (simp add: isolateHost_def case_prod_beta Let_def)

end
