(* ===== verification/Agent_Updater.thy ===== *)
theory Agent_Updater
  imports Approval_Store Go_Base64 Go_Path
begin

text \<open>
  The self-update of the endpoint agent (\<open>internal/edr_agent/updater/updater.go\<close>): check for a release, verify its signature, download
  it from the server's origin, verify the staged bytes, and swap the executable with a rollback.

  The state holds the verification key, the contents of the files and the addresses that were requested.  Outside are
  \<open>golang.org/x/mod/semver\<close>, SHA-256 and Ed25519, \<open>net/url\<close>, the decoder of JSON, the answers of the server and the faults of each file
  operation.  The texts of decoding errors are left out.  No other process changes the staged file between its verification and
  the swap.
\<close>

section \<open>State and inputs\<close>

record UpdateInfo =
  uiVersion :: string
  uiDownloadURL :: string
  uiSHA256 :: string
  uiSignature :: string

record Updater =
  upServerURL :: string
  upAPIKey :: string
  upCurrentVer :: string
  upDataDir :: string

record url =
  urlScheme :: string
  urlHost :: string
  urlHostname :: string
  urlPort :: string

record upd_env =
  ueValid :: "string \<Rightarrow> bool"
  ueCompare :: "string \<Rightarrow> string \<Rightarrow> int"
  ueSha :: "string \<Rightarrow> string"
  ueVerify :: "string \<Rightarrow> string \<Rightarrow> string \<Rightarrow> bool"
  ueKeyHex :: string
  ueGOOS :: string
  ueGOARCH :: string
  ueParse :: "string \<Rightarrow> url result"
  ueResolve :: "url \<Rightarrow> url \<Rightarrow> url"
  ueURLText :: "url \<Rightarrow> string"
  ueRedacted :: "url \<Rightarrow> string"
  ueQueryEscape :: "string \<Rightarrow> string"
  ueGet :: "string \<Rightarrow> (int \<times> string \<times> string) result"
  ueData :: "string \<Rightarrow> string option"
  ueInfo :: "string \<Rightarrow> UpdateInfo result"
  ueSymlink :: "string \<Rightarrow> bool"
  ueMkdir :: "string option"
  ueOpen :: "string option"
  ueCopy :: "string \<Rightarrow> string \<times> string option"
  ueSync :: "string option"
  ueClose :: "string option"
  ueRead :: "string option"
  ueChmod :: "string option"
  ueExecutable :: "string result"
  ueRename :: "nat \<Rightarrow> string option"
  ueRemove :: "string \<Rightarrow> bool"

record upd_state =
  usKey :: string
  usFiles :: "string \<Rightarrow> string option"
  usRequests :: "string list"

section \<open>Keys and versions\<close>

definition SetVerifyKeyFromHex :: "string \<Rightarrow> upd_state \<Rightarrow> string option \<times> upd_state" where
  "SetVerifyKeyFromHex s0 st =
     (let s = TrimSpace s0 in
      if s = '''' then (None, st\<lparr>usKey := ''''\<rparr>)
      else (case hex_decode s of
              None \<Rightarrow> (Some ''malformed update verify key: want 64 hex chars'', st)
            | Some b \<Rightarrow> if length b \<noteq> 32 then (Some ''malformed update verify key: want 64 hex chars'', st)
                       else (None, st\<lparr>usKey := b\<rparr>)))"

definition VerifyKeyConfigured :: "upd_state \<Rightarrow> bool" where
  "VerifyKeyConfigured st \<longleftrightarrow> length (usKey st) = 32"

definition loadVerifyKeyFromEnv :: "upd_env \<Rightarrow> upd_state \<Rightarrow> string option \<times> upd_state" where
  "loadVerifyKeyFromEnv env st =
     (if VerifyKeyConfigured st then (None, st)
      else let raw = TrimSpace (ueKeyHex env) in
           if raw = '''' then (None, st) else SetVerifyKeyFromHex raw st)"

definition canonicalVersion :: "string \<Rightarrow> string" where
  "canonicalVersion v0 = (let v = TrimSpace v0 in if v = '''' then v else if \<not> HasPrefix v ''v'' then ''v'' @ v else v)"

definition IsNewer :: "upd_env \<Rightarrow> string \<Rightarrow> string \<Rightarrow> bool" where
  "IsNewer env current candidate =
     (let cur = canonicalVersion current; cand = canonicalVersion candidate in
      if \<not> ueValid env cur \<or> \<not> ueValid env cand then False else ueCompare env cand cur > 0)"

section \<open>Addresses\<close>

definition isLoopbackHost :: "string \<Rightarrow> bool" where
  "isLoopbackHost h0 =
     (let h = ToLower (TrimSpace h0) in h = ''localhost'' \<or> h = ''127.0.0.1'' \<or> h = ''::1'' \<or> HasPrefix h ''127.'')"

definition secure_url :: "url \<Rightarrow> bool" where
  "secure_url u \<longleftrightarrow> urlScheme u = ''https'' \<and> urlHost u \<noteq> '''' \<or> urlScheme u = ''http'' \<and> isLoopbackHost (urlHostname u)"

definition requireHTTPSBase :: "upd_env \<Rightarrow> string \<Rightarrow> string option" where
  "requireHTTPSBase env raw =
     (case ueParse env raw of
        Inl e \<Rightarrow> Some (''invalid server URL: '' @ e)
      | Inr u \<Rightarrow> if secure_url u then None
                else Some (''refusing non-HTTPS update base '' @ go_quote raw @ '' (https required outside loopback)''))"

definition effectivePort :: "url \<Rightarrow> string" where
  "effectivePort u = (if urlPort u \<noteq> '''' then urlPort u else if EqualFold (urlScheme u) ''https'' then ''443'' else ''80'')"

definition equalOrigin :: "url \<Rightarrow> url \<Rightarrow> bool" where
  "equalOrigin a b \<longleftrightarrow> EqualFold (urlScheme a) (urlScheme b) \<and> EqualFold (urlHostname a) (urlHostname b) \<and> effectivePort a = effectivePort b"

definition confinedDownloadURL :: "upd_env \<Rightarrow> Updater \<Rightarrow> string \<Rightarrow> string result" where
  "confinedDownloadURL env u raw =
     (if TrimSpace raw = '''' then Inl ''refusing update: empty download URL''
      else case ueParse env (upServerURL u) of
        Inl e \<Rightarrow> Inl (''invalid server URL: '' @ e)
      | Inr base \<Rightarrow>
          (case ueParse env raw of
             Inl e \<Rightarrow> Inl (''refusing update: bad download URL: '' @ e)
           | Inr dl0 \<Rightarrow>
               let dl = (if urlScheme dl0 = '''' then ueResolve env base dl0 else dl0) in
               if \<not> equalOrigin base dl then
                 Inl (''refusing update: download origin '' @ go_quote (urlScheme dl @ ''://'' @ urlHost dl) @ '' not on server origin '' @
                      go_quote (urlScheme base @ ''://'' @ urlHost base))
               else if secure_url dl then Inr (ueURLText env dl)
               else Inl (''refusing update: download URL '' @ go_quote (ueRedacted env dl) @ '' not HTTPS'')))"

section \<open>Check\<close>

definition unwrapUpdatePayload :: "upd_env \<Rightarrow> string \<Rightarrow> string" where
  "unwrapUpdatePayload env raw = (case ueData env raw of None \<Rightarrow> raw | Some d \<Rightarrow> if d = '''' then raw else d)"

definition check_url :: "upd_env \<Rightarrow> Updater \<Rightarrow> string" where
  "check_url env u =
     TrimSuffix (upServerURL u) ''/'' @ ''/api/v1/edr/update/check?version='' @ ueQueryEscape env (upCurrentVer u) @
     ''&platform='' @ ueGOOS env @ ''&arch='' @ ueGOARCH env"

definition log_request :: "string \<Rightarrow> upd_state \<Rightarrow> upd_state" where
  "log_request url st = st\<lparr>usRequests := usRequests st @ [url]\<rparr>"

definition Check :: "upd_env \<Rightarrow> Updater \<Rightarrow> upd_state \<Rightarrow> UpdateInfo option result \<times> upd_state" where
  "Check env u st =
     (case requireHTTPSBase env (upServerURL u) of
        Some e \<Rightarrow> (Inl e, st)
      | None \<Rightarrow>
          let st1 = log_request (check_url env u) st in
          (case ueGet env (check_url env u) of
             Inl e \<Rightarrow> (Inl (''check update: '' @ e), st1)
           | Inr (status, _, body) \<Rightarrow>
               if status = 204 then (Inr None, st1)
               else if status \<noteq> 200 then (Inl (''check update: HTTP '' @ show_int status), st1)
               else (case ueInfo env (unwrapUpdatePayload env (take 65536 body)) of
                       Inl e \<Rightarrow> (Inl (''parse update info: '' @ e), st1)
                     | Inr info \<Rightarrow>
                         if uiVersion info = '''' \<or> uiVersion info = upCurrentVer u \<or> \<not> IsNewer env (upCurrentVer u) (uiVersion info)
                         then (Inr None, st1) else (Inr (Some info), st1))))"

section \<open>Verification\<close>

definition std_decode :: "string \<Rightarrow> string option" where
  "std_decode s =
     (if ContainsAny s ''-_'' then None
      else b64_decode (map (\<lambda>c. if c = CHR ''+'' then CHR ''-'' else if c = CHR ''/'' then CHR ''_'' else c) s))"

definition hex_char :: "nat \<Rightarrow> char" where
  "hex_char n = (if n < 10 then char_of (48 + n) else char_of (87 + n))"

definition hex_encode :: "string \<Rightarrow> string" where
  "hex_encode bs = concat (map (\<lambda>b. [hex_char (of_char b div 16), hex_char (of_char b mod 16)]) bs)"

definition verifySignatureHex :: "upd_env \<Rightarrow> string \<Rightarrow> string \<Rightarrow> upd_state \<Rightarrow> string option \<times> upd_state" where
  "verifySignatureHex env shaHex sigB64 st =
     (case loadVerifyKeyFromEnv env st of
        (Some e, st1) \<Rightarrow> (Some (''refusing: '' @ e), st1)
      | (None, st1) \<Rightarrow>
          if \<not> VerifyKeyConfigured st1 then (Some ''refusing: no update verify key configured (provision offline pubkey)'', st1)
          else if TrimSpace sigB64 = '''' then (Some ''refusing: update lacks signature'', st1)
          else (case hex_decode (TrimSpace shaHex) of
                  None \<Rightarrow> (Some ''refusing: malformed SHA256 for signature check'', st1)
                | Some raw \<Rightarrow>
                    if length raw \<noteq> 32 then (Some ''refusing: malformed SHA256 for signature check'', st1)
                    else (case std_decode (TrimSpace sigB64) of
                            None \<Rightarrow> (Some ''refusing: malformed signature'', st1)
                          | Some sg \<Rightarrow>
                              if length sg \<noteq> 64 then (Some ''refusing: malformed signature'', st1)
                              else if \<not> ueVerify env (usKey st1) raw sg then (Some ''refusing: signature verification failed'', st1)
                              else (None, st1))))"

definition verifyChecksum :: "upd_env \<Rightarrow> string \<Rightarrow> string \<Rightarrow> upd_state \<Rightarrow> string option" where
  "verifyChecksum env file expected0 st =
     (let expected = TrimSpace (ToLower expected0) in
      if expected = '''' then Some ''refusing: empty expected SHA256''
      else (case hex_decode expected of
              None \<Rightarrow> Some ''refusing: malformed expected SHA256''
            | Some want \<Rightarrow>
                if length want \<noteq> 32 then Some ''refusing: malformed expected SHA256''
                else (case usFiles st file of
                        None \<Rightarrow> Some ''no such file''
                      | Some bs \<Rightarrow>
                          (case ueRead env of
                             Some e \<Rightarrow> Some e
                           | None \<Rightarrow>
                               let got = hex_encode (ueSha env bs) in
                               if got \<noteq> expected then Some (''checksum mismatch: got '' @ got @ '', expected '' @ expected) else None))))"

section \<open>Staging and the swap\<close>

definition binaryExt :: "upd_env \<Rightarrow> string" where
  "binaryExt env = (if ueGOOS env = ''windows'' then ''.exe'' else '''')"

definition stageDir :: "upd_env \<Rightarrow> Updater \<Rightarrow> string \<Rightarrow> string result" where
  "stageDir env u version =
     (let safe = TrimSpace version in
      if safe = '''' \<or> safe = ''.'' \<or> ContainsAny safe [CHR ''/'', CHR 0x5C] \<or> Contains safe ''..''
      then Inl (''refusing update: unsafe version '' @ go_quote version)
      else let root = path_Join (upDataDir u) ''updates'' in
           if path_Rel root (path_Join root (''stage-'' @ safe)) \<noteq> Inr (''stage-'' @ safe)
           then Inl (''refusing update: version escapes stage dir: '' @ go_quote version)
           else if ueSymlink env root then Inl ''refusing update: stage root is a symlink''
           else Inr (path_Join root (''stage-'' @ safe)))"

definition put_file :: "string \<Rightarrow> string \<Rightarrow> upd_state \<Rightarrow> upd_state" where
  "put_file p c st = st\<lparr>usFiles := (usFiles st)(p \<mapsto> c)\<rparr>"

definition os_Remove :: "upd_env \<Rightarrow> string \<Rightarrow> upd_state \<Rightarrow> upd_state" where
  "os_Remove env p st = (if ueRemove env p then st\<lparr>usFiles := (usFiles st)(p := None)\<rparr> else st)"

text \<open>The \<open>k\<close>-th rename of an update.\<close>

definition os_Rename :: "upd_env \<Rightarrow> nat \<Rightarrow> string \<Rightarrow> string \<Rightarrow> upd_state \<Rightarrow> string option \<times> upd_state" where
  "os_Rename env k a b st =
     (case ueRename env k of
        Some e \<Rightarrow> (Some e, st)
      | None \<Rightarrow>
          (case usFiles st a of
             None \<Rightarrow> (Some ''no such file or directory'', st)
           | Some c \<Rightarrow> (None, st\<lparr>usFiles := (usFiles st)(a := None, b \<mapsto> c)\<rparr>)))"

definition maxBinary :: nat where "maxBinary = 256 * 2 ^ 20"

definition downloadBinary :: "upd_env \<Rightarrow> string \<Rightarrow> string \<Rightarrow> upd_state \<Rightarrow> string option \<times> upd_state" where
  "downloadBinary env rawURL dest st =
     (let st1 = log_request rawURL st in
      case ueGet env rawURL of
        Inl e \<Rightarrow> (Some e, st1)
      | Inr (status, location, body) \<Rightarrow>
          if status \<in> {301, 302, 307, 308} then (Some (''refusing redirect to '' @ go_quote location @ '' (downloads stay on server origin)''), st1)
          else if status \<noteq> 200 then (Some (''download failed: HTTP '' @ show_int status), st1)
          else if ueSymlink env dest then (Some ''refusing download: dest is a symlink'', st1)
          else (case ueOpen env of
                  Some e \<Rightarrow> (Some e, st1)
                | None \<Rightarrow>
                    let (written, cerr) = ueCopy env (take maxBinary body); st2 = put_file dest written st1 in
                    (case cerr of
                       Some e \<Rightarrow> (Some e, st2)
                     | None \<Rightarrow>
                         if length written < 1024 * 1024 then (Some (''binary suspiciously small: '' @ show_nat (length written) @ '' bytes''), st2)
                         else (case ueSync env of
                                 Some e \<Rightarrow> (Some (''fsync staged binary: '' @ e), st2)
                               | None \<Rightarrow> (case ueClose env of
                                           Some e \<Rightarrow> (Some (''close staged binary: '' @ e), st2)
                                         | None \<Rightarrow> (None, st2))))))"

definition swap_binary :: "upd_env \<Rightarrow> string \<Rightarrow> string \<Rightarrow> upd_state \<Rightarrow> string option \<times> upd_state" where
  "swap_binary env exe staged st =
     (let backup = exe @ ''.bak''; st1 = os_Remove env backup st in
      case os_Rename env 0 exe backup st1 of
        (Some e, st2) \<Rightarrow> (Some (''backup current binary: '' @ e), os_Remove env staged st2)
      | (None, st2) \<Rightarrow>
          (case os_Rename env 1 staged exe st2 of
             (Some e, st3) \<Rightarrow> (Some (''swap binary failed, restored backup: '' @ e), snd (os_Rename env 2 backup exe st3))
           | (None, st3) \<Rightarrow> (None, os_Remove env staged (os_Remove env backup st3))))"

definition install_staged :: "upd_env \<Rightarrow> UpdateInfo \<Rightarrow> string \<Rightarrow> upd_state \<Rightarrow> string option \<times> upd_state" where
  "install_staged env info staged st =
     (case verifyChecksum env staged (uiSHA256 info) st of
        Some e \<Rightarrow> (Some (''checksum: '' @ e), os_Remove env staged st)
      | None \<Rightarrow>
          (case verifySignatureHex env (uiSHA256 info) (uiSignature info) st of
             (Some e, st1) \<Rightarrow> (Some (''signature: '' @ e), os_Remove env staged st1)
           | (None, st1) \<Rightarrow>
               (case ueChmod env of
                  Some e \<Rightarrow> (Some (''chmod: '' @ e), os_Remove env staged st1)
                | None \<Rightarrow>
                    (case ueExecutable env of
                       Inl e \<Rightarrow> (Some (''get executable path: '' @ e), os_Remove env staged st1)
                     | Inr exe \<Rightarrow> swap_binary env exe staged st1))))"

definition staged_path :: "upd_env \<Rightarrow> string \<Rightarrow> string" where
  "staged_path env dir = path_Join dir (''trace-agent'' @ binaryExt env)"

definition Apply :: "upd_env \<Rightarrow> Updater \<Rightarrow> UpdateInfo option \<Rightarrow> upd_state \<Rightarrow> string option \<times> upd_state" where
  "Apply env u minfo st =
     (case minfo of
        None \<Rightarrow> (Some ''refusing nil update'', st)
      | Some info \<Rightarrow>
      if \<not> IsNewer env (upCurrentVer u) (uiVersion info) then
        (if uiVersion info = upCurrentVer u \<or> canonicalVersion (uiVersion info) = canonicalVersion (upCurrentVer u) then (None, st)
         else (Some (''refusing downgrade to '' @ go_quote (uiVersion info) @ '' from '' @ go_quote (upCurrentVer u)), st))
      else if TrimSpace (uiSHA256 info) = '''' then (Some (''refusing update '' @ go_quote (uiVersion info) @ '': empty SHA256''), st)
      else if hex_decode (TrimSpace (uiSHA256 info)) = None
      then (Some (''refusing update '' @ go_quote (uiVersion info) @ '': malformed SHA256''), st)
      else (case verifySignatureHex env (uiSHA256 info) (uiSignature info) st of
              (Some e, st1) \<Rightarrow> (Some (''signature: '' @ e), st1)
            | (None, st1) \<Rightarrow>
                (case confinedDownloadURL env u (uiDownloadURL info) of
                   Inl e \<Rightarrow> (Some e, st1)
                 | Inr dlURL \<Rightarrow>
                     (case stageDir env u (uiVersion info) of
                        Inl e \<Rightarrow> (Some e, st1)
                      | Inr dir \<Rightarrow>
                          (case ueMkdir env of
                             Some e \<Rightarrow> (Some (''create stage dir: '' @ e), st1)
                           | None \<Rightarrow>
                               let staged = staged_path env dir in
                               (case downloadBinary env dlURL staged st1 of
                                  (Some e, st2) \<Rightarrow> (Some (''download: '' @ e), os_Remove env staged st2)
                                | (None, st2) \<Rightarrow> install_staged env info staged st2))))))"

section \<open>Digests in hexadecimal\<close>

lemma of_lower: "(of_char (lower_char c) :: nat) = (if 65 \<le> (of_char c :: nat) \<and> (of_char c :: nat) \<le> 90 then of_char c + 32 else of_char c)"
  by (simp add: lower_char_def)

lemma hex_digit_lower [simp]: "hex_digit (lower_char c) = hex_digit c"
  by (simp add: hex_digit_def of_lower Let_def)

lemma hex_decode_lower: "hex_decode (ToLower s) = hex_decode s"
  unfolding ToLower_def by (induction s rule: hex_decode.induct) simp_all

lemma is_space_lower [simp]: "is_space (lower_char c) = is_space c"
  by (simp add: is_space_def of_lower)

lemma TrimSpace_lower: "TrimSpace (ToLower s) = ToLower (TrimSpace s)"
  by (simp add: TrimSpace_def ToLower_def dropWhile_map rev_map comp_def)

lemma hex_digit_char: "n < 16 \<Longrightarrow> hex_digit (hex_char n) = Some n"
  by (auto simp: hex_digit_def hex_char_def Let_def)

lemma hex_decode_encode: "hex_decode (hex_encode bs) = Some bs"
proof (induction bs)
  case (Cons b bs)
  have "(of_char b :: nat) div 16 < 16" "16 * ((of_char b :: nat) div 16) + of_char b mod 16 = of_char b"
    using nat_of_char_less_256 [of b] by (simp_all add: less_mult_imp_div_less)
  then show ?case using Cons by (simp add: hex_encode_def hex_digit_char)
qed (simp add: hex_encode_def)

section \<open>What verification establishes\<close>

lemma SetVerifyKey_frame: "SetVerifyKeyFromHex s st = (r, st') \<Longrightarrow> usFiles st' = usFiles st \<and> usRequests st' = usRequests st"
  by (auto simp: SetVerifyKeyFromHex_def Let_def split: if_splits option.splits)

lemma load_frame: "loadVerifyKeyFromEnv env st = (r, st') \<Longrightarrow> usFiles st' = usFiles st \<and> usRequests st' = usRequests st"
  by (auto simp: loadVerifyKeyFromEnv_def Let_def split: if_splits dest: SetVerifyKey_frame)

lemma signature_frame: "verifySignatureHex env sha sg st = (r, st') \<Longrightarrow> usFiles st' = usFiles st \<and> usRequests st' = usRequests st"
  using load_frame [of env st]
  by (cases "loadVerifyKeyFromEnv env st") (auto simp: verifySignatureHex_def split: if_splits option.splits)

lemma signature_ok:
  assumes "verifySignatureHex env sha sg st = (None, st')"
  shows "\<exists>raw b. hex_decode (TrimSpace sha) = Some raw \<and> std_decode (TrimSpace sg) = Some b \<and> ueVerify env (usKey st') raw b \<and>
    VerifyKeyConfigured st'"
  using assms by (cases "loadVerifyKeyFromEnv env st") (auto simp: verifySignatureHex_def split: if_splits option.splits)

lemma load_configured: "VerifyKeyConfigured st \<Longrightarrow> loadVerifyKeyFromEnv env st = (None, st)"
  by (simp add: loadVerifyKeyFromEnv_def)

lemma signature_configured: "VerifyKeyConfigured st \<Longrightarrow> verifySignatureHex env sha sg st = (r, st') \<Longrightarrow> st' = st"
  by (auto simp: verifySignatureHex_def load_configured split: if_splits option.splits)

lemma checksum_ok:
  assumes "verifyChecksum env file expected st = None"
  shows "\<exists>bs. usFiles st file = Some bs \<and> hex_decode (TrimSpace expected) = Some (ueSha env bs)"
proof -
  obtain bs where bs: "usFiles st file = Some bs" "hex_encode (ueSha env bs) = TrimSpace (ToLower expected)"
    using assms by (auto simp: verifyChecksum_def Let_def split: if_splits option.splits)
  then have "hex_decode (TrimSpace expected) = Some (ueSha env bs)"
    using hex_decode_encode [of "ueSha env bs"] by (simp add: TrimSpace_lower hex_decode_lower)
  then show ?thesis using bs(1) by blast
qed

text \<open>The bytes \<open>bs\<close> are those whose digest was signed with the key.\<close>

definition genuine :: "upd_env \<Rightarrow> string \<Rightarrow> UpdateInfo \<Rightarrow> string \<Rightarrow> bool" where
  "genuine env key info bs \<longleftrightarrow>
     length key = 32 \<and> (\<exists>sg. std_decode (TrimSpace (uiSignature info)) = Some sg \<and> ueVerify env key (ueSha env bs) sg)"

section \<open>The swap\<close>

lemma os_Remove_other [simp]: "p \<noteq> q \<Longrightarrow> usFiles (os_Remove env q st) p = usFiles st p"
  by (simp add: os_Remove_def)

lemma os_Remove_frame [simp]: "usKey (os_Remove env q st) = usKey st" "usRequests (os_Remove env q st) = usRequests st"
  by (simp_all add: os_Remove_def)

lemma bak_neq [simp]: "exe @ ''.bak'' \<noteq> exe" "exe \<noteq> exe @ ''.bak''"
  by simp_all

lemma os_Rename_frame: "os_Rename env k a b st = (r, st') \<Longrightarrow> usKey st' = usKey st \<and> usRequests st' = usRequests st"
  by (auto simp: os_Rename_def split: option.splits)

lemma swap_spec:
  assumes "swap_binary env exe staged st = (r, st')" "staged \<noteq> exe" "staged \<noteq> exe @ ''.bak''" "usFiles st staged = Some bs"
  shows "(if r = None then usFiles st' exe = Some bs
     else usFiles st' exe = usFiles st exe \<or> usFiles st' exe = None \<and> ueRename env 1 \<noteq> None \<and> ueRename env 2 \<noteq> None) \<and>
    usKey st' = usKey st \<and> usRequests st' = usRequests st"
proof -
  let ?st1 = "os_Remove env (exe @ ''.bak'') st"
  show ?thesis
  proof (cases "ueRename env 0")
    case (Some e)
    then show ?thesis using assms(1,2) by (auto simp: swap_binary_def os_Rename_def Let_def)
  next
    case None
    show ?thesis
    proof (cases "usFiles st exe")
      case n: None
      then show ?thesis using assms(1,2) None by (auto simp: swap_binary_def os_Rename_def Let_def)
    next
      case (Some old)
      then show ?thesis using assms None
        by (cases "ueRename env 1"; cases "ueRename env 2") (auto simp: swap_binary_def os_Rename_def Let_def)
    qed
  qed
qed

lemma download_frame:
  "downloadBinary env url dest st = (r, st') \<Longrightarrow>
     usKey st' = usKey st \<and> usRequests st' = usRequests st @ [url] \<and> (\<forall>p. p \<noteq> dest \<longrightarrow> usFiles st' p = usFiles st p)"
  by (auto simp: downloadBinary_def log_request_def put_file_def Let_def split: sum.splits prod.splits if_splits option.splits)

lemma install_spec:
  assumes "install_staged env info staged st = (r, st')" "ueExecutable env = Inr exe" "staged \<notin> {exe, exe @ ''.bak''}" "VerifyKeyConfigured st"
  shows "(usFiles st' exe = usFiles st exe \<or>
      (\<exists>bs. usFiles st' exe = Some bs \<and> r = None \<and> genuine env (usKey st) info bs) \<or>
      (usFiles st' exe = None \<and> r \<noteq> None \<and> ueRename env 1 \<noteq> None \<and> ueRename env 2 \<noteq> None)) \<and>
    usKey st' = usKey st \<and> usRequests st' = usRequests st"
proof (cases "verifyChecksum env staged (uiSHA256 info) st")
  case (Some e)
  then show ?thesis using assms(1,3) by (auto simp: install_staged_def)
next
  case None
  then obtain bs where bs: "usFiles st staged = Some bs" "hex_decode (TrimSpace (uiSHA256 info)) = Some (ueSha env bs)"
    using checksum_ok by blast
  obtain e st1 where v: "verifySignatureHex env (uiSHA256 info) (uiSignature info) st = (e, st1)" by fastforce
  have st1: "st1 = st" by (rule signature_configured [OF assms(4) v])
  show ?thesis
  proof (cases "e = None \<and> ueChmod env = None")
    case True
    then have "genuine env (usKey st) info bs"
      using signature_ok [of env "uiSHA256 info" "uiSignature info" st st1] v st1 bs(2)
      by (auto simp: genuine_def VerifyKeyConfigured_def)
    moreover have "swap_binary env exe staged st = (r, st')"
      using assms(1,2) None v st1 True by (simp add: install_staged_def)
    ultimately show ?thesis using swap_spec [OF _ _ _ bs(1), of env exe r st'] assms(3) by (auto split: if_splits)
  next
    case False
    then show ?thesis using assms(1,2,3) None v st1 by (auto simp: install_staged_def split: option.splits)
  qed
qed

text \<open>The part of an update after its signature was verified.\<close>

lemma Apply_cases:
  assumes "Apply env u (Some info) st = (r, st')"
  obtains (unverified) "usFiles st' = usFiles st" "usRequests st' = usRequests st"
  | (failed) st1 url dir e st2 where "VerifyKeyConfigured st1" "usFiles st1 = usFiles st" "usRequests st1 = usRequests st"
      "confinedDownloadURL env u (uiDownloadURL info) = Inr url" "stageDir env u (uiVersion info) = Inr dir"
      "downloadBinary env url (staged_path env dir) st1 = (Some e, st2)" "st' = os_Remove env (staged_path env dir) st2"
  | (loaded) st1 url dir st2 where "VerifyKeyConfigured st1" "usFiles st1 = usFiles st" "usRequests st1 = usRequests st"
      "IsNewer env (upCurrentVer u) (uiVersion info)"
      "confinedDownloadURL env u (uiDownloadURL info) = Inr url" "stageDir env u (uiVersion info) = Inr dir"
      "downloadBinary env url (staged_path env dir) st1 = (None, st2)" "install_staged env info (staged_path env dir) st2 = (r, st')"
proof -
  obtain e st1 where v: "verifySignatureHex env (uiSHA256 info) (uiSignature info) st = (e, st1)" by fastforce
  note fr = signature_frame [OF v]
  have conf: "VerifyKeyConfigured st1" if "e = None" using signature_ok v that by blast
  consider "usFiles st' = usFiles st \<and> usRequests st' = usRequests st"
    | url dir where "IsNewer env (upCurrentVer u) (uiVersion info)" "e = None" "confinedDownloadURL env u (uiDownloadURL info) = Inr url"
        "stageDir env u (uiVersion info) = Inr dir"
        "(case downloadBinary env url (staged_path env dir) st1 of
            (Some e, st2) \<Rightarrow> (Some (''download: '' @ e), os_Remove env (staged_path env dir) st2)
          | (None, st2) \<Rightarrow> install_staged env info (staged_path env dir) st2) = (r, st')"
    using assms v fr by (auto simp: Apply_def Let_def split: if_splits option.splits sum.splits)
  then show thesis
  proof cases
    case 1 then show thesis using unverified by blast
  next
    case 2
    then show thesis using failed loaded conf fr
      by (cases "downloadBinary env url (staged_path env dir) st1"; cases "fst (downloadBinary env url (staged_path env dir) st1)") auto
  qed
qed

text \<open>C11. Only signed releases are installed.  Whatever the server answers and whichever operation fails, after an update
  the executable is the one from before, or bytes whose digest was signed with the key of the agent under a version that
  is newer; it is missing only when both the swap and the rollback failed.\<close>

theorem update_installs_only_signed:
  assumes "Apply env u (Some info) st = (r, st')" "ueExecutable env = Inr exe"
    "\<forall>dir. stageDir env u (uiVersion info) = Inr dir \<longrightarrow> staged_path env dir \<notin> {exe, exe @ ''.bak''}"
  shows "usFiles st' exe = usFiles st exe \<or>
    (\<exists>bs. usFiles st' exe = Some bs \<and> r = None \<and> genuine env (usKey st') info bs \<and> IsNewer env (upCurrentVer u) (uiVersion info)) \<or>
    (usFiles st' exe = None \<and> r \<noteq> None \<and> ueRename env 1 \<noteq> None \<and> ueRename env 2 \<noteq> None)"
  using assms(1)
proof (cases rule: Apply_cases)
  case unverified then show ?thesis by simp
next
  case (failed st1 url dir e st2)
  then show ?thesis using assms(3) download_frame [OF failed(6)] by (auto simp: eq_commute [of exe])
next
  case (loaded st1 url dir st2)
  have d: "usKey st2 = usKey st1" "usFiles st2 exe = usFiles st exe" "staged_path env dir \<notin> {exe, exe @ ''.bak''}"
    using assms(3) loaded download_frame [OF loaded(7)] by auto
  then have "VerifyKeyConfigured st2" using loaded(1) by (simp add: VerifyKeyConfigured_def)
  then show ?thesis using install_spec [OF loaded(8) assms(2) d(3)] d(2) loaded(4) by auto
qed

text \<open>An update asks no other origin than the server's, over HTTPS or the loopback, and asks nothing before the signature was verified.\<close>

lemma confined_origin:
  assumes "confinedDownloadURL env u raw = Inr url"
  shows "\<exists>base dl. ueParse env (upServerURL u) = Inr base \<and> url = ueURLText env dl \<and> equalOrigin base dl \<and> secure_url dl"
  using assms by (auto simp: confinedDownloadURL_def Let_def split: if_splits sum.splits)

theorem update_requests_confined:
  assumes "Apply env u (Some info) st = (r, st')"
  shows "usRequests st' = usRequests st \<or>
    (\<exists>base dl. usRequests st' = usRequests st @ [ueURLText env dl] \<and> ueParse env (upServerURL u) = Inr base \<and> equalOrigin base dl \<and> secure_url dl)"
  using assms
proof (cases rule: Apply_cases)
  case unverified then show ?thesis by simp
next
  case (failed st1 url dir e st2)
  then show ?thesis using confined_origin [OF failed(4)] download_frame [OF failed(6)] by auto
next
  case (loaded st1 url dir st2)
  have "usRequests st' = usRequests st2"
  proof -
    have fr: "usRequests st'' = usRequests st2" if "verifySignatureHex env a b st2 = (x, st'')" for a b x st''
      using signature_frame [OF that] by simp
    show ?thesis
      using loaded(8) fr
      by (auto simp: install_staged_def swap_binary_def os_Rename_def Let_def split: option.splits prod.splits sum.splits)
  qed
  then show ?thesis using loaded confined_origin [OF loaded(5)] download_frame [OF loaded(7)] by auto
qed

section \<open>A release is installed\<close>

text \<open>What a good server and a good host give: the release \<open>bs\<close> under the confined address, no fault, and a staging path apart from
  the executable.\<close>

definition good_update :: "upd_env \<Rightarrow> Updater \<Rightarrow> UpdateInfo \<Rightarrow> string \<Rightarrow> string \<Rightarrow> bool" where
  "good_update env u info bs exe \<longleftrightarrow>
     (\<exists>url dir loc. confinedDownloadURL env u (uiDownloadURL info) = Inr url \<and> stageDir env u (uiVersion info) = Inr dir \<and>
        ueGet env url = Inr (200, loc, bs) \<and> staged_path env dir \<notin> {exe, exe @ ''.bak''} \<and> \<not> ueSymlink env (staged_path env dir)) \<and>
     1024 * 1024 \<le> length bs \<and> length bs \<le> maxBinary \<and> ueCopy env bs = (bs, None) \<and> ueMkdir env = None \<and> ueOpen env = None \<and>
     ueSync env = None \<and> ueClose env = None \<and> ueRead env = None \<and> ueChmod env = None \<and> ueExecutable env = Inr exe \<and>
     (\<forall>k. ueRename env k = None) \<and> length (ueSha env bs) = 32"

lemma hex_encode_lower: "ToLower (hex_encode bs) = hex_encode bs"
proof -
  have "lower_char (hex_char n) = hex_char n" if "n < 16" for n
    using that by (auto simp: lower_char_def hex_char_def)
  moreover have "(of_char b :: nat) div 16 < 16" for b :: char
    using nat_of_char_less_256 [of b] by (simp add: less_mult_imp_div_less)
  ultimately show ?thesis by (simp add: ToLower_def hex_encode_def map_concat comp_def)
qed

lemma swap_good:
  assumes "\<forall>k. ueRename env k = None" "staged \<notin> {exe, exe @ ''.bak''}" "usFiles st staged = Some bs" "usFiles st exe = Some old"
  shows "\<exists>st'. swap_binary env exe staged st = (None, st') \<and> usFiles st' exe = Some bs"
  using assms by (auto simp: swap_binary_def os_Rename_def Let_def)

lemma Apply_good:
  assumes "good_update env u info bs exe" "VerifyKeyConfigured st" "IsNewer env (upCurrentVer u) (uiVersion info)"
    "uiSHA256 info = hex_encode (ueSha env bs)" "TrimSpace (uiSHA256 info) = uiSHA256 info"
    "verifySignatureHex env (uiSHA256 info) (uiSignature info) st = (None, st)" "usFiles st exe = Some old"
  shows "\<exists>st'. Apply env u (Some info) st = (None, st') \<and> usFiles st' exe = Some bs"
proof -
  obtain url dir loc where g: "confinedDownloadURL env u (uiDownloadURL info) = Inr url" "stageDir env u (uiVersion info) = Inr dir"
    "ueGet env url = Inr (200, loc, bs)" "staged_path env dir \<notin> {exe, exe @ ''.bak''}" "\<not> ueSymlink env (staged_path env dir)"
    using assms(1) by (auto simp: good_update_def)
  have ok: "1024 * 1024 \<le> length bs" "take maxBinary bs = bs" "ueCopy env bs = (bs, None)" "ueMkdir env = None" "ueOpen env = None" "ueSync env = None"
    "ueClose env = None" "ueRead env = None" "ueChmod env = None" "ueExecutable env = Inr exe" "\<forall>k. ueRename env k = None" "length (ueSha env bs) = 32"
    using assms(1) by (auto simp: good_update_def)
  let ?staged = "staged_path env dir" and ?st2 = "put_file (staged_path env dir) bs (log_request url st)"
  have dl: "downloadBinary env url ?staged st = (None, ?st2)"
    using g(3,5) ok by (simp add: downloadBinary_def Let_def)
  have conf: "VerifyKeyConfigured ?st2" using assms(2) by (simp add: VerifyKeyConfigured_def put_file_def log_request_def)
  have sig: "verifySignatureHex env (uiSHA256 info) (uiSignature info) ?st2 = (None, ?st2)"
    using assms(2,6) conf
    by (auto simp: verifySignatureHex_def load_configured put_file_def log_request_def split: option.splits if_splits)
  have ne: "hex_encode (ueSha env bs) \<noteq> ''''" using ok(12) by (auto simp: hex_encode_def)
  have sum: "verifyChecksum env ?staged (uiSHA256 info) ?st2 = None"
    using assms(4,5) ok(8,12) ne by (simp add: verifyChecksum_def TrimSpace_lower hex_encode_lower hex_decode_encode put_file_def Let_def)
  obtain st' where "swap_binary env exe ?staged ?st2 = (None, st')" "usFiles st' exe = Some bs"
    using swap_good [OF ok(11) g(4), of ?st2 bs old] assms(7) g(4) by (auto simp: put_file_def log_request_def)
  then have "install_staged env info ?staged ?st2 = (None, st')" "usFiles st' exe = Some bs"
    using sum sig ok by (simp_all add: install_staged_def)
  then show ?thesis
    using assms(3,5,6) g(1,2) ok dl ne assms(4) by (simp add: Apply_def hex_decode_encode Let_def)
qed

text \<open>The signature covers the digest only, not the version.  Any release that was ever signed is installed again when the server
  offers it under the number of a newer one, so an old release can be brought back.\<close>

theorem signed_release_replayed:
  assumes "good_update env u (old\<lparr>uiVersion := v\<rparr>) bs exe" "VerifyKeyConfigured st" "IsNewer env (upCurrentVer u) v"
    "uiSHA256 old = hex_encode (ueSha env bs)" "TrimSpace (uiSHA256 old) = uiSHA256 old"
    "verifySignatureHex env (uiSHA256 old) (uiSignature old) st = (None, st)" "usFiles st exe = Some cur"
  shows "\<exists>st'. Apply env u (Some (old\<lparr>uiVersion := v\<rparr>)) st = (None, st') \<and> usFiles st' exe = Some bs"
  using Apply_good [OF assms(1,2)] assms(3-) by simp

text \<open>A host whose name only starts like the loopback network counts as loopback.\<close>

lemma loopback_by_prefix: "secure_url \<lparr>urlScheme = ''http'', urlHost = ''127.example.org'', urlHostname = ''127.example.org'', urlPort = ''''\<rparr>"
  by code_simp

section \<open>Instances\<close>

definition sample_release :: string where "sample_release = replicate (1024 * 1024) CHR ''x''"

definition sample_digest :: string where "sample_digest = replicate 32 CHR 0xAB"

definition release_url :: url where
  "release_url = \<lparr>urlScheme = ''https'', urlHost = ''srv'', urlHostname = ''srv'', urlPort = ''''\<rparr>"

definition env_offering :: "string \<Rightarrow> upd_env" where
  "env_offering rel = \<lparr>ueValid = (\<lambda>_. True), ueCompare = (\<lambda>a b. if a = b then 0 else 1), ueSha = (\<lambda>s. if s = rel then sample_digest else ''''),
     ueVerify = (\<lambda>k m s. m = sample_digest), ueKeyHex = '''', ueGOOS = ''linux'', ueGOARCH = ''amd64'', ueParse = (\<lambda>_. Inr release_url),
     ueResolve = (\<lambda>_ u. u), ueURLText = (\<lambda>_. ''https://srv/agent''), ueRedacted = (\<lambda>_. ''''), ueQueryEscape = (\<lambda>s. s),
     ueGet = (\<lambda>_. Inr (200, '''', rel)), ueData = (\<lambda>_. None), ueInfo = (\<lambda>_. Inl ''''), ueSymlink = (\<lambda>_. False), ueMkdir = None,
     ueOpen = None, ueCopy = (\<lambda>s. (s, None)), ueSync = None, ueClose = None, ueRead = None, ueChmod = None, ueExecutable = Inr ''/usr/bin/agent'',
     ueRename = (\<lambda>_. None), ueRemove = (\<lambda>_. True)\<rparr>"

abbreviation sample_upd_env :: upd_env where
  "sample_upd_env \<equiv> env_offering sample_release"

lemma length_release: "length sample_release = 1024 * 1024"
  by (simp only: sample_release_def length_replicate)

definition sample_updater :: Updater where
  "sample_updater = \<lparr>upServerURL = ''https://srv'', upAPIKey = '''', upCurrentVer = ''v1.0.0'', upDataDir = ''/data''\<rparr>"

definition sample_info :: UpdateInfo where
  "sample_info = \<lparr>uiVersion = ''v1.1.0'', uiDownloadURL = ''/agent'', uiSHA256 = concat (replicate 32 ''ab''),
     uiSignature = replicate 84 CHR ''A'' @ ''AA==''\<rparr>"

definition sample_upd_state :: upd_state where
  "sample_upd_state = \<lparr>usKey = replicate 32 CHR ''k'', usFiles = [''/usr/bin/agent'' \<mapsto> ''old''], usRequests = []\<rparr>"

lemma sample_upd_parts:
  "VerifyKeyConfigured sample_upd_state"
  "IsNewer (env_offering rel) (upCurrentVer sample_updater) (uiVersion sample_info)"
  "stageDir (env_offering rel) sample_updater (uiVersion sample_info) = Inr ''/data/updates/stage-v1.1.0''"
  "staged_path (env_offering rel) ''/data/updates/stage-v1.1.0'' = ''/data/updates/stage-v1.1.0/trace-agent''"
  "confinedDownloadURL (env_offering rel) sample_updater (uiDownloadURL sample_info) = Inr ''https://srv/agent''"
  by code_simp+

lemma TrimSpace_plain: "\<forall>c\<in>set s. \<not> is_space c \<Longrightarrow> TrimSpace s = s"
proof -
  assume s: "\<forall>c\<in>set s. \<not> is_space c"
  have "dropWhile is_space t = t" if "set t = set s" for t using s that by (cases t) auto
  from this [of s] this [of "rev s"] show ?thesis by (simp add: TrimSpace_def)
qed

lemma b64_encode_zeros: "b64_encode (replicate (3 * n) CHR 0x00 @ xs) = replicate (4 * n) CHR ''A'' @ b64_encode xs"
proof (induction n)
  case (Suc n)
  have "replicate (3 * Suc n) c @ xs = [c, c, c] @ replicate (3 * n) c @ xs" "replicate (4 * Suc n) d = [d, d, d, d] @ replicate (4 * n) d" for c d :: char
    by (simp_all add: numeral_eq_Suc)
  then show ?case using Suc by (simp add: b64_char_def b64_alphabet_def)
qed simp

lemma sample_signature: "std_decode (uiSignature sample_info) = Some (replicate 64 CHR 0x00)"
proof -
  have "replicate (64 :: nat) CHR 0x00 = replicate (3 * 21) CHR 0x00 @ [CHR 0x00]"
    by (simp add: replicate_append_same numeral_eq_Suc)
  then have e: "b64_encode (replicate 64 CHR 0x00) = uiSignature sample_info"
    using b64_encode_zeros [of 21 "[CHR 0x00]"]
    by (simp add: sample_info_def b64_char_def b64_alphabet_def)
  have "b64_decode (uiSignature sample_info) = Some (replicate 64 CHR 0x00)" unfolding e [symmetric] by (rule b64_roundtrip)
  then show ?thesis by (simp add: std_decode_def sample_info_def ContainsAny_iff)
qed

lemma sample_sha: "hex_encode sample_digest = uiSHA256 sample_info" "TrimSpace (uiSHA256 sample_info) = uiSHA256 sample_info"
  "TrimSpace (uiSignature sample_info) = uiSignature sample_info"
proof -
  have a: "hex_char 10 = CHR ''a''" and b: "hex_char 11 = CHR ''b''" by code_simp+
  show "hex_encode sample_digest = uiSHA256 sample_info"
    by (simp add: hex_encode_def sample_digest_def sample_info_def a b)
  show "TrimSpace (uiSHA256 sample_info) = uiSHA256 sample_info" "TrimSpace (uiSignature sample_info) = uiSignature sample_info"
    by (rule TrimSpace_plain; auto simp: sample_info_def is_space_def)+
qed

lemma sample_upd_verified:
  "verifySignatureHex sample_upd_env (uiSHA256 sample_info) (uiSignature sample_info) sample_upd_state = (None, sample_upd_state)"
proof -
  have v: "ueVerify sample_upd_env k sample_digest sg" for k sg by (simp add: env_offering_def)
  have "hex_decode (uiSHA256 sample_info) = Some sample_digest" "length sample_digest = 32"
    unfolding sample_sha(1) [symmetric] by (rule hex_decode_encode) (simp add: sample_digest_def)
  moreover have "uiSignature sample_info \<noteq> ''''" by (simp add: sample_info_def)
  ultimately show ?thesis
    by (simp add: verifySignatureHex_def load_configured sample_upd_parts(1) sample_sha(2,3) sample_signature v)
qed

lemma sample_upd_good: "good_update sample_upd_env sample_updater sample_info sample_release ''/usr/bin/agent''"
proof -
  have f: "ueGet sample_upd_env = (\<lambda>_. Inr (200, '''', sample_release))" "ueCopy sample_upd_env = (\<lambda>s. (s, None))"
    "ueSymlink sample_upd_env = (\<lambda>_. False)" "ueMkdir sample_upd_env = None" "ueOpen sample_upd_env = None" "ueSync sample_upd_env = None"
    "ueClose sample_upd_env = None" "ueRead sample_upd_env = None" "ueChmod sample_upd_env = None"
    "ueExecutable sample_upd_env = Inr ''/usr/bin/agent''" "ueRename sample_upd_env = (\<lambda>_. None)" "ueSha sample_upd_env sample_release = sample_digest"
    by (simp_all add: env_offering_def)
  have d: "length sample_digest = 32" by (simp only: sample_digest_def length_replicate)
  show ?thesis unfolding good_update_def
    by (simp add: f d length_release sample_upd_parts maxBinary_def)
qed

theorem update_installs_only_signed_witness:
  "\<exists>st'. Apply sample_upd_env sample_updater (Some sample_info) sample_upd_state = (None, st') \<and> usFiles st' ''/usr/bin/agent'' = Some sample_release \<and>
     genuine sample_upd_env (usKey st') sample_info sample_release"
proof -
  have e: "ueExecutable sample_upd_env = Inr ''/usr/bin/agent''" "usFiles sample_upd_state ''/usr/bin/agent'' = Some ''old''"
    "uiSHA256 sample_info = hex_encode (ueSha sample_upd_env sample_release)"
    by (simp_all add: env_offering_def sample_upd_state_def sample_sha(1))
  have ne: "sample_release \<noteq> ''old''"
  proof
    assume "sample_release = ''old''"
    then have "length sample_release = length ''old''" by (rule arg_cong)
    then show False unfolding length_release by simp
  qed
  obtain st' where a: "Apply sample_upd_env sample_updater (Some sample_info) sample_upd_state = (None, st')"
    "usFiles st' ''/usr/bin/agent'' = Some sample_release"
    using Apply_good [OF sample_upd_good sample_upd_parts(1,2) e(3) sample_sha(2) sample_upd_verified e(2)] by blast
  have s: "\<forall>dir. stageDir sample_upd_env sample_updater (uiVersion sample_info) = Inr dir \<longrightarrow>
      staged_path sample_upd_env dir \<notin> {''/usr/bin/agent'', ''/usr/bin/agent'' @ ''.bak''}"
    by (simp add: sample_upd_parts(3,4))
  show ?thesis using update_installs_only_signed [OF a(1) e(1) s] a e(2) ne by auto
qed

end
