(* ===== verification/Server_Events.thy ===== *)
theory Server_Events
  imports Server_Fleet Storage_Types
begin

text \<open>
  The events of the fleet on the server (\<open>internal/server/edr.go\<close>): ingestion from agents with the batch that goes on to the storage
  engine, the queries for events, vulnerabilities and agents, and the dismissal of alerts.

  Times are nanoseconds; \<open>eeNow k j\<close> is the \<open>j\<close>-th reading of the clock for the \<open>k\<close>-th event of a request.  The fields that SQLite
  extracts from the JSON of an event are inputs, as are its errors.
\<close>

record edr_event =
  evID :: string
  evAgentID :: string
  evType :: string
  evSeverity :: int
  evData :: string
  evOrg :: string
  evTimestamp :: string

record fp_counter =
  fpRule :: string
  fpProcess :: string
  fpDismissals :: int
  fpThrottled :: bool
  fpOrg :: string

record event_db =
  edEvents :: "edr_event list"
  edCounters :: "fp_counter list"
  edAgents :: "agent_row list"
  edSink :: bool
  edAudit :: "(string \<times> string \<times> string \<times> string \<times> string) list"

record event_env =
  eeBody :: "string list option"
  eeDecode :: "string \<Rightarrow> (string \<times> string \<times> int \<times> string) option"
  eeValidUUID :: "string \<Rightarrow> bool"
  eeMint :: "nat \<Rightarrow> string"
  eeParse :: "string \<Rightarrow> int option"
  eeFormat :: "int \<Rightarrow> string"
  eeNow :: "nat \<Rightarrow> nat \<Rightarrow> int"
  eeBegin :: "string option"
  eePrepare :: "string option"
  eeInsert :: "nat \<Rightarrow> string option"
  eeCommit :: "string option"
  eeQuery :: "string option"
  eeRuleName :: "string \<Rightarrow> string option"
  eeProcess :: "string \<Rightarrow> string option"
  eeSource :: "string \<Rightarrow> string option"
  eeAnnotations :: "string \<Rightarrow> (string \<Rightarrow> string) option"

section \<open>Ingestion\<close>

definition clampSeverity :: "int \<Rightarrow> int" where
  "clampSeverity s = (if s < 1 then 1 else if s > 10 then 10 else s)"

definition validateOrMintEventID :: "event_env \<Rightarrow> nat \<Rightarrow> string \<Rightarrow> string" where
  "validateOrMintEventID env k clientID = (if clientID \<noteq> '''' \<and> eeValidUUID env clientID then clientID else eeMint env k)"

definition year_ns :: int where "year_ns = 365 * 24 * Hour"

definition event_time :: "event_env \<Rightarrow> nat \<Rightarrow> string \<Rightarrow> string" where
  "event_time env k timestamp =
     (case (if timestamp = '''' then None else eeParse env timestamp) of
        None \<Rightarrow> eeFormat env (eeNow env k 0)
      | Some t \<Rightarrow>
          let now = eeNow env k 1; t1 = (if t > now + Hour then now else t); t2 = (if t1 < now - year_ns then now else t1) in
          eeFormat env t2)"

definition tse_event :: "event_env \<Rightarrow> nat \<Rightarrow> edr_event \<Rightarrow> event" where
  "tse_event env k e =
     \<lparr>ID = evID e, TenantID = evOrg e, AgentID = evAgentID e,
      Timestamp = (case eeParse env (evTimestamp e) of Some t \<Rightarrow> t div 1000 | None \<Rightarrow> eeNow env k 2 div 1000), IngestedAt = 0,
      EventType = evType e, Severity = evSeverity e, ProcessName = '''', Cmdline = '''', ParentPID = 0, SHA256 = '''', DestIP = '''',
      SrcIP = '''', UserName = '''', Hostname = '''', DataRaw = evData e, Annotations = []\<rparr>"

text \<open>The row of an event; \<open>None\<close> when the event is dropped.\<close>

definition event_row :: "event_env \<Rightarrow> string \<Rightarrow> string \<Rightarrow> nat \<Rightarrow> string \<Rightarrow> edr_event option" where
  "event_row env agentID orgID k raw =
     (if length raw > 65536 then None
      else case eeDecode env raw of
        None \<Rightarrow> None
      | Some (cid, ty, sev, timestamp) \<Rightarrow>
          if ty = '''' \<or> length ty > 64 then None
          else Some \<lparr>evID = validateOrMintEventID env k cid, evAgentID = agentID, evType = ty, evSeverity = clampSeverity sev, evData = raw,
                     evOrg = orgID, evTimestamp = event_time env k timestamp\<rparr>)"

text \<open>The inserts of a request: the rows stored so far and the batch for the storage engine.\<close>

fun store_events :: "event_env \<Rightarrow> string \<Rightarrow> string \<Rightarrow> nat \<Rightarrow> string list \<Rightarrow> edr_event list \<Rightarrow> edr_event list \<times> event list" where
  "store_events env agentID orgID k [] rows = ([], [])"
| "store_events env agentID orgID k (raw # raws) rows =
     (case event_row env agentID orgID k raw of
        None \<Rightarrow> store_events env agentID orgID (Suc k) raws rows
      | Some e \<Rightarrow>
          if eeInsert env k \<noteq> None \<or> evID e \<in> evID ` set rows then store_events env agentID orgID (Suc k) raws rows
          else (case store_events env agentID orgID (Suc k) raws (rows @ [e]) of
                  (es, batch) \<Rightarrow> (e # es, tse_event env k e # batch)))"

definition maxEventsPerPost :: nat where "maxEventsPerPost = 1000"

text \<open>The second component is the batch written to the storage engine after the answer; \<open>tse\<close> tells whether there is one.\<close>

definition post_events :: "event_env \<Rightarrow> bool \<Rightarrow> request \<Rightarrow> event_db \<Rightarrow> response \<times> event list \<times> event_db" where
  "post_events env tse r db =
     (if cxAgentID (rqCtx r) = '''' then (Failed 401 ''agent auth required'', [], db)
      else case eeBody env of
        None \<Rightarrow> (Failed 400 ''invalid json'', [], db)
      | Some raws \<Rightarrow>
          if length raws > maxEventsPerPost then (Failed 413 ''too many events (max 1000 per POST)'', [], db)
          else if eeBegin env \<noteq> None then (Failed 500 ''db error'', [], db)
          else if eePrepare env \<noteq> None then (Failed 500 ''prepare error'', [], db)
          else (case store_events env (cxAgentID (rqCtx r)) (cxOrg (rqCtx r)) 0 raws (edEvents db) of
                  (es, batch) \<Rightarrow>
                    if eeCommit env \<noteq> None then (Failed 500 ''commit error'', [], db)
                    else (Data [(''stored'', VInt (int (length es))), (''received'', VInt (int (length raws)))],
                          if tse then batch else [], db\<lparr>edEvents := edEvents db @ es\<rparr>)))"

section \<open>Queries\<close>

definition min_severity :: "string \<Rightarrow> int" where
  "min_severity s = (case go_Atoi s of Some n \<Rightarrow> if n > 0 then clampInt n 1 10 else 0 | None \<Rightarrow> 0)"

definition page :: "int \<Rightarrow> int \<Rightarrow> 'r list \<Rightarrow> 'r list \<times> string" where
  "page limit offset rows =
     (let got = take (nat limit + 1) (drop (nat offset) rows) in
      if length got > nat limit then (take (nat limit) got, encodeOffset (offset + limit)) else (got, ''''))"

text \<open>The agent whose events a request may see.\<close>

definition events_agent :: "request \<Rightarrow> (string \<Rightarrow> string) \<Rightarrow> event_db \<Rightarrow> (nat \<times> string) + string" where
  "events_agent r q db =
     (if cxAgentID (rqCtx r) \<noteq> '''' then Inr (cxAgentID (rqCtx r))
      else if \<not> HasPermission (cxRole (rqCtx r)) ''agent:read'' then Inl (403, ''insufficient permissions'')
      else let agentID = q ''agent_id'' in
           if \<not> validResourceID agentID then Inl (400, ''agent_id required'')
           else (case find (\<lambda>a. arID a = agentID) (edAgents db) of
                   None \<Rightarrow> Inl (404, ''agent not found'')
                 | Some a \<Rightarrow>
                     if cxOrg (rqCtx r) \<noteq> '''' \<and> arOrg a \<noteq> cxOrg (rqCtx r) then Inl (403, ''agent belongs to another organization'')
                     else Inr agentID))"

definition newest_first :: "('r \<Rightarrow> string) \<Rightarrow> 'r list \<Rightarrow> 'r list" where
  "newest_first f rows = rev (sort_key f rows)"

definition handleEDREventsQuery :: "event_env \<Rightarrow> request \<Rightarrow> (string \<Rightarrow> string) \<Rightarrow> event_db \<Rightarrow> (nat \<times> string) + edr_event list \<times> string" where
  "handleEDREventsQuery env r q db =
     (case events_agent r q db of
        Inl e \<Rightarrow> Inl e
      | Inr agentID \<Rightarrow>
          let eventType = take 64 (q ''type''); minSev = min_severity (q ''min_severity'') in
          if eeQuery env \<noteq> None then Inl (500, ''query error'')
          else Inr (page (parseLimit (q ''limit'')) (parseCursor (q ''cursor''))
                 (newest_first evTimestamp
                    (filter (\<lambda>e. evAgentID e = agentID \<and> (eventType = '''' \<or> evType e = eventType) \<and> (minSev > 0 \<longrightarrow> evSeverity e \<ge> minSev))
                       (edEvents db)))))"

definition vulnFeedQuery :: "event_env \<Rightarrow> (string \<Rightarrow> string) \<Rightarrow> string \<Rightarrow> event_db \<Rightarrow> obj list result" where
  "vulnFeedQuery env q agentID db =
     (case eeQuery env of
        Some e \<Rightarrow> Inl e
      | None \<Rightarrow>
          let minSev = min_severity (q ''min_severity''); limit = clampInt (parseLimit (q ''limit'')) 1 100 in
          Inr (concat (map (\<lambda>e. case eeAnnotations env (evData e) of
                                  None \<Rightarrow> []
                                | Some a \<Rightarrow> [[(''id'', VStr (evID e)), (''cve_id'', VStr (a ''cve_id'')), (''package'', VStr (a ''package'')),
                                    (''cvss'', VStr (a ''cvss'')), (''severity'', VStr (a ''severity'')), (''fixed_in'', VStr (a ''fixed_in'')),
                                    (''timestamp'', VStr (evTimestamp e))]])
                 (take (nat limit) (newest_first evTimestamp
                    (filter (\<lambda>e. evAgentID e = agentID \<and> evType e = ''alert'' \<and> eeSource env (evData e) = Some ''vuln_scan'' \<and>
                                  evSeverity e \<ge> minSev) (edEvents db)))))))"

definition handleEDRVulns :: "event_env \<Rightarrow> request \<Rightarrow> (string \<Rightarrow> string) \<Rightarrow> event_db \<Rightarrow> response" where
  "handleEDRVulns env r q db =
     (let agent = (if cxAgentID (rqCtx r) \<noteq> '''' then Inr (cxAgentID (rqCtx r))
                   else if \<not> HasPermission (cxRole (rqCtx r)) ''agent:read'' then Inl (403, ''insufficient permissions'')
                   else if \<not> validResourceID (q ''agent_id'') then Inl (400, ''agent_id required'')
                   else Inr (q ''agent_id'')) in
      case agent of
        Inl (code, msg) \<Rightarrow> Failed code msg
      | Inr agentID \<Rightarrow>
          (case vulnFeedQuery env q agentID db of
             Inl _ \<Rightarrow> Failed 500 ''query error''
           | Inr vulns \<Rightarrow> Data [(''vulns'', VList (map VMap vulns))]))"

definition handleEDREvents ::
  "event_env \<Rightarrow> bool \<Rightarrow> request \<Rightarrow> (string \<Rightarrow> string) \<Rightarrow> event_db \<Rightarrow> (response + edr_event list \<times> string) \<times> event list \<times> event_db" where
  "handleEDREvents env tse r q db =
     (if rqMethod r = ''GET'' then
        (case handleEDREventsQuery env r q db of
           Inl (code, msg) \<Rightarrow> (Inl (Failed code msg), [], db) | Inr p \<Rightarrow> (Inr p, [], db))
      else if rqMethod r \<noteq> ''POST'' then (Inl (Failed 405 ''POST or GET''), [], db)
      else (case post_events env tse r db of (resp, batch, db1) \<Rightarrow> (Inl resp, batch, db1)))"

definition orgPredicate :: "request \<Rightarrow> string \<Rightarrow> bool" where
  "orgPredicate r org \<longleftrightarrow> cxOrg (rqCtx r) = '''' \<or> org = cxOrg (rqCtx r)"

definition handleEDRAgentsList :: "event_env \<Rightarrow> request \<Rightarrow> (string \<Rightarrow> string) \<Rightarrow> event_db \<Rightarrow> (nat \<times> string) + agent_row list \<times> string" where
  "handleEDRAgentsList env r q db =
     (if rqMethod r \<noteq> ''GET'' then Inl (405, ''GET required'')
      else if eeQuery env \<noteq> None then Inl (500, ''query error'')
      else Inr (page (parseLimit (q ''limit'')) (parseCursor (q ''cursor''))
             (newest_first arLastHeartbeat
                (filter (\<lambda>a. (q ''all'' = ''true'' \<or> arStatus a = ''active'') \<and> orgPredicate r (arOrg a)) (edAgents db)))))"

section \<open>Dismissals\<close>

definition alert_names :: "event_env \<Rightarrow> string \<Rightarrow> event_db \<Rightarrow> string \<times> string" where
  "alert_names env alertID db =
     (let (rule0, proc0) = (case find (\<lambda>e. evID e = alertID) (edEvents db) of
            None \<Rightarrow> ('''', '''')
          | Some e \<Rightarrow> (case eeRuleName env (evData e) of Some n \<Rightarrow> n | None \<Rightarrow> evType e,
                      case eeProcess env (evData e) of Some p \<Rightarrow> p | None \<Rightarrow> ''unknown'')) in
      (if rule0 = '''' then ''manual_'' @ (if shortID alertID = '''' then ''unknown'' else shortID alertID) else rule0,
       if proc0 = '''' then ''unknown'' else proc0))"

fun count_dismissal :: "string \<Rightarrow> string \<Rightarrow> string \<Rightarrow> fp_counter list \<Rightarrow> fp_counter list" where
  "count_dismissal rule proc org [] = [\<lparr>fpRule = rule, fpProcess = proc, fpDismissals = 1, fpThrottled = False, fpOrg = org\<rparr>]"
| "count_dismissal rule proc org (c # cs) =
     (if fpRule c = rule \<and> fpProcess c = proc
      then c\<lparr>fpDismissals := fpDismissals c + 1, fpThrottled := fpDismissals c + 1 \<ge> 10\<rparr> # cs
      else c # count_dismissal rule proc org cs)"

definition handleEDRAlertDismiss :: "event_env \<Rightarrow> request \<Rightarrow> string option \<Rightarrow> event_db \<Rightarrow> response \<times> event_db" where
  "handleEDRAlertDismiss env r body db =
     (if rqMethod r \<noteq> ''POST'' then (Failed 405 ''POST required'', db)
      else case body of
        None \<Rightarrow> (Failed 400 ''alert_id required'', db)
      | Some alertID \<Rightarrow>
          if alertID = '''' then (Failed 400 ''alert_id required'', db)
          else if \<not> validResourceID (filter (\<lambda>c. c \<noteq> CHR ''/'') alertID) \<or> length alertID > maxResourceIDLen
          then (Failed 400 ''invalid alert_id'', db)
          else let (rule, proc) = alert_names env alertID db in
               if eeQuery env \<noteq> None then (Failed 500 ''dismiss failed'', db)
               else let cs = count_dismissal rule proc (cxOrg (rqCtx r)) (edCounters db);
                        (n, th) = (case find (\<lambda>c. fpRule c = rule \<and> fpProcess c = proc) cs of
                                     Some c \<Rightarrow> (fpDismissals c, fpThrottled c) | None \<Rightarrow> (0, False)) in
                    (Data [(''status'', VStr ''dismissed''), (''rule_name'', VStr rule), (''process_name'', VStr proc),
                           (''dismissals'', VInt n), (''throttled'', VBool th)],
                     db\<lparr>edCounters := cs, edAudit := edAudit db @ (if edSink db then [(auditActor r, ''alert.dismissed'', ''alert'', alertID,
                          ''rule='' @ rule @ '' process='' @ proc)] else [])\<rparr>))"

section \<open>What a request stores\<close>

definition event_ok :: "edr_event \<Rightarrow> bool" where
  "event_ok e \<longleftrightarrow> 1 \<le> evSeverity e \<and> evSeverity e \<le> 10 \<and> evType e \<noteq> '''' \<and> length (evType e) \<le> 64 \<and> length (evData e) \<le> 65536"

definition events_wf :: "edr_event list \<Rightarrow> bool" where
  "events_wf rows \<longleftrightarrow> distinct (map evID rows) \<and> list_all event_ok rows"

lemma clampSeverity_bounds: "1 \<le> clampSeverity s" "clampSeverity s \<le> 10"
  by (simp_all add: clampSeverity_def)

lemma event_row_ok:
  "event_row env a org k raw = Some e \<Longrightarrow> event_ok e \<and> evAgentID e = a \<and> evOrg e = org"
  by (auto simp: event_row_def event_ok_def clampSeverity_bounds split: if_splits option.splits)

lemma store_events_spec:
  assumes "store_events env a org k raws rows = (es, batch)" "events_wf rows"
  shows "events_wf (rows @ es) \<and> (\<forall>e\<in>set es. evAgentID e = a \<and> evOrg e = org) \<and>
    list_all2 (\<lambda>e b. ID b = evID e \<and> TenantID b = org \<and> AgentID b = a \<and> EventType b = evType e \<and> Severity b = evSeverity e \<and> DataRaw b = evData e) es batch"
  using assms
proof (induction env a org k raws rows arbitrary: es batch rule: store_events.induct)
  case (2 env a org k raw raws rows)
  show ?case
  proof (cases "event_row env a org k raw")
    case None
    then show ?thesis using 2 by simp
  next
    case (Some e)
    note e = event_row_ok [OF Some]
    show ?thesis
    proof (cases "eeInsert env k \<noteq> None \<or> evID e \<in> evID ` set rows")
      case True
      then show ?thesis using 2(2) [OF Some True] 2(4,5) Some by simp
    next
      case False
      obtain es' batch' where r: "store_events env a org (Suc k) raws (rows @ [e]) = (es', batch')" by fastforce
      then have eq: "es = e # es'" "batch = tse_event env k e # batch'" using 2(4) Some False by (auto split: if_splits)
      have "events_wf (rows @ [e])" using 2(5) e False by (auto simp: events_wf_def)
      then show ?thesis using 2(3) [OF Some False r] e by (simp add: eq tse_event_def)
    qed
  qed
qed simp

lemma post_events_result:
  assumes "post_events env tse r db = (resp, batch, db')"
  shows "batch = [] \<and> db' = db \<or>
    (\<exists>raws es b. eeBody env = Some raws \<and> store_events env (cxAgentID (rqCtx r)) (cxOrg (rqCtx r)) 0 raws (edEvents db) = (es, b) \<and>
      batch = (if tse then b else []) \<and> db' = db\<lparr>edEvents := edEvents db @ es\<rparr>)"
proof (cases "eeBody env")
  case None
  then show ?thesis using assms by (simp add: post_events_def split: if_splits)
next
  case (Some raws)
  obtain es b where s: "store_events env (cxAgentID (rqCtx r)) (cxOrg (rqCtx r)) 0 raws (edEvents db) = (es, b)" by fastforce
  show ?thesis
  proof (cases "batch = [] \<and> db' = db")
    case False
    then have "batch = (if tse then b else [])" "db' = db\<lparr>edEvents := edEvents db @ es\<rparr>"
      using assms unfolding post_events_def Some s option.case prod.case by (simp_all split: if_splits)
    then show ?thesis using Some s by blast
  qed simp
qed

lemma post_events_cases:
  assumes "post_events env tse r db = (resp, batch, db')"
  obtains (refused) "batch = []" "db' = db"
  | (stored) raws es b where "eeBody env = Some raws" "store_events env (cxAgentID (rqCtx r)) (cxOrg (rqCtx r)) 0 raws (edEvents db) = (es, b)"
      "batch = (if tse then b else [])" "db' = db\<lparr>edEvents := edEvents db @ es\<rparr>"
  using post_events_result [OF assms] by blast

text \<open>C12. Events are stored for their sender only.  Whatever a request contains, every row it adds carries the agent and the
  organisation of the authenticated key, its severity is between one and ten, identifiers stay unique, and the batch that goes on to the
  storage engine holds exactly the rows that were committed.\<close>

theorem posted_events_owned:
  assumes "post_events env True r db = (resp, batch, db')" "events_wf (edEvents db)"
  shows "\<exists>es. edEvents db' = edEvents db @ es \<and> events_wf (edEvents db') \<and>
    (\<forall>e\<in>set es. evAgentID e = cxAgentID (rqCtx r) \<and> evOrg e = cxOrg (rqCtx r)) \<and>
    list_all2 (\<lambda>e b. ID b = evID e \<and> TenantID b = cxOrg (rqCtx r) \<and> AgentID b = cxAgentID (rqCtx r) \<and> EventType b = evType e \<and>
      Severity b = evSeverity e \<and> DataRaw b = evData e) es batch"
  using assms(1)
proof (cases rule: post_events_cases)
  case refused
  then show ?thesis using assms(2) by (intro exI [of _ "[]"]) simp
next
  case (stored raws es b)
  then show ?thesis using store_events_spec [OF stored(2) assms(2)] by (intro exI [of _ es]) simp
qed

text \<open>A request that is repeated stores nothing again, when its events have identifiers of their own.\<close>

definition own_ids :: "event_env \<Rightarrow> string list \<Rightarrow> bool" where
  "own_ids env raws \<longleftrightarrow> (\<forall>raw\<in>set raws. \<forall>cid rest. eeDecode env raw = Some (cid, rest) \<longrightarrow> cid \<noteq> '''' \<and> eeValidUUID env cid)"

lemma event_row_id:
  assumes "own_ids env raws" "raw \<in> set raws" "event_row env a org k raw = Some e"
  shows "eeDecode env raw = Some (evID e, snd (the (eeDecode env raw)))"
  using assms by (auto simp: event_row_def own_ids_def validateOrMintEventID_def split: if_splits option.splits prod.splits)

lemma event_row_Some_iff: "(\<exists>e. event_row env a org k raw = Some e) \<longleftrightarrow>
    length raw \<le> 65536 \<and> (\<exists>cid ty sev ts. eeDecode env raw = Some (cid, ty, sev, ts) \<and> ty \<noteq> '''' \<and> length ty \<le> 64)"
  by (auto simp: event_row_def split: option.splits prod.splits)

lemma store_events_known:
  assumes "\<forall>raw\<in>set raws. \<forall>k e. event_row env a org k raw = Some e \<longrightarrow> evID e \<in> evID ` set rows"
  shows "store_events env a org k raws rows = ([], [])"
  using assms by (induction env a org k raws rows rule: store_events.induct) (auto split: option.split)

lemma store_events_ids:
  assumes "store_events env a org k raws rows = (es, batch)" "\<forall>j. eeInsert env j = None" "own_ids env raws" "raw \<in> set raws"
    "event_row env a org j raw = Some e"
  shows "evID e \<in> evID ` set (rows @ es)"
  using assms
proof (induction env a org k raws rows arbitrary: es batch rule: store_events.induct)
  case (2 env a org k raw' raws rows)
  have own: "own_ids env raws" using 2(6) by (simp add: own_ids_def)
  show ?case
  proof (cases "event_row env a org k raw'")
    case None
    then have "raw \<noteq> raw'" using 2(8) event_row_Some_iff by (metis option.distinct(1))
    then show ?thesis using 2(1) [OF None, of es batch] 2(4,5,7,8) own None by simp
  next
    case (Some e')
    have same: "evID e' = evID e" if "raw = raw'"
      using event_row_id [OF 2(6) _ Some] event_row_id [OF 2(6) _ 2(8)] that by (metis list.set_intros(1) option.inject prod.inject)
    show ?thesis
    proof (cases "evID e' \<in> evID ` set rows")
      case True
      have s: "store_events env a org (Suc k) raws rows = (es, batch)" using 2(4) Some True by simp
      show ?thesis using 2(2) [OF Some _ s 2(5) own _ 2(8)] 2(7) True same by (cases "raw = raw'") auto
    next
      case False
      obtain es' batch' where r: "store_events env a org (Suc k) raws (rows @ [e']) = (es', batch')" by fastforce
      have eq: "es = e' # es'" using 2(4,5) Some False r by simp
      show ?thesis using 2(3) [OF Some _ r 2(5) own _ 2(8)] 2(5,7) False same eq by (cases "raw = raw'") auto
    qed
  qed
qed simp

theorem resend_stores_nothing:
  assumes "post_events env tse r db = (Data d, batch, db1)" "\<forall>j. eeInsert env j = None" "eeBody env = Some raws" "own_ids env raws"
    "eeBody env' = eeBody env" "eeDecode env' = eeDecode env" "eeValidUUID env' = eeValidUUID env" "post_events env' tse r db1 = (resp, batch', db2)"
  shows "db2 = db1 \<and> batch' = []"
proof -
  let ?a = "cxAgentID (rqCtx r)" and ?o = "cxOrg (rqCtx r)"
  obtain es b where s: "store_events env ?a ?o 0 raws (edEvents db) = (es, b)" by fastforce
  then have db1: "edEvents db1 = edEvents db @ es"
    using assms(1) unfolding post_events_def assms(3) s option.case prod.case by (auto split: if_splits)
  have own: "own_ids env' raws" using assms(4,6,7) by (simp add: own_ids_def)
  have "evID e' \<in> evID ` set (edEvents db1)" if raw: "raw \<in> set raws" and e': "event_row env' ?a ?o k raw = Some e'" for raw k e'
  proof -
    obtain e where e: "event_row env ?a ?o 0 raw = Some e"
      using e' event_row_Some_iff [of env' ?a ?o k raw] event_row_Some_iff [of env ?a ?o 0 raw] assms(6) by metis
    have "evID e = evID e'" using event_row_id [OF assms(4) raw e] event_row_id [OF own raw e'] assms(6) by (metis option.inject prod.inject)
    then show ?thesis using store_events_ids [OF s assms(2,4) raw e] db1 by simp
  qed
  then have "store_events env' ?a ?o 0 raws (edEvents db1) = ([], [])" by (intro store_events_known) blast
  then show ?thesis using assms(3,5,8) by (cases rule: post_events_cases [OF assms(8)]) auto
qed

section \<open>Who sees what\<close>

lemma page_subset: "page limit offset rows = (xs, next) \<Longrightarrow> set xs \<subseteq> set rows"
  by (auto simp: page_def Let_def split: if_splits dest!: in_set_takeD in_set_dropD)

lemma set_newest_first [simp]: "set (newest_first f rows) = set rows"
  by (simp add: newest_first_def)


text \<open>The query for vulnerabilities lacks this check: a user of one organisation reads those of another one's agents.\<close>

theorem vulns_ignore_organisation:
  assumes "cxAgentID (rqCtx r) = ''''" "HasPermission (cxRole (rqCtx r)) ''agent:read''" "validResourceID (q ''agent_id'')"
    "vulnFeedQuery env q (q ''agent_id'') db = Inr vulns"
  shows "handleEDRVulns env (r\<lparr>rqCtx := (rqCtx r)\<lparr>cxOrg := org\<rparr>\<rparr>) q db = Data [(''vulns'', VList (map VMap vulns))]"
  using assms by (simp add: handleEDRVulns_def)

text \<open>The counters of dismissals are shared by all organisations: ten dismissals in one throttle the rule for every other one.\<close>

lemma count_dismissal_same:
  "find (\<lambda>c. fpRule c = rule \<and> fpProcess c = proc) (count_dismissal rule proc org cs) =
     Some (case find (\<lambda>c. fpRule c = rule \<and> fpProcess c = proc) cs of
             None \<Rightarrow> \<lparr>fpRule = rule, fpProcess = proc, fpDismissals = 1, fpThrottled = False, fpOrg = org\<rparr>
           | Some c \<Rightarrow> c\<lparr>fpDismissals := fpDismissals c + 1, fpThrottled := fpDismissals c + 1 \<ge> 10\<rparr>)"
  by (induction rule proc org cs rule: count_dismissal.induct) auto

lemma dismissals_shared:
  assumes "find (\<lambda>c. fpRule c = rule \<and> fpProcess c = proc) cs = Some c" "fpOrg c \<noteq> org" "fpDismissals c = 9"
  shows "\<exists>c'. find (\<lambda>c. fpRule c = rule \<and> fpProcess c = proc) (count_dismissal rule proc org cs) = Some c' \<and> fpThrottled c' \<and> fpOrg c' = fpOrg c"
  using assms by (simp add: count_dismissal_same)

theorem agents_list_scoped:
  assumes "handleEDRAgentsList env r q db = Inr (agents, next)" "a \<in> set agents"
  shows "a \<in> set (edAgents db) \<and> (cxOrg (rqCtx r) = '''' \<or> arOrg a = cxOrg (rqCtx r))"
  using assms by (auto simp: handleEDRAgentsList_def orgPredicate_def split: if_splits dest!: page_subset)

section \<open>Instances\<close>

definition sample_event_env :: event_env where
  "sample_event_env = \<lparr>eeBody = Some [''e1'', ''junk'', ''e1'', ''e2''],
     eeDecode = (\<lambda>s. if s = ''e1'' then Some (''u1'', ''process'', 99, '''') else if s = ''e2'' then Some ('''', ''file'', -3, '''') else None),
     eeValidUUID = (\<lambda>s. s = ''u1''), eeMint = (\<lambda>_. ''m''), eeParse = (\<lambda>_. None), eeFormat = (\<lambda>_. ''2026-01-01T00:00:00Z''),
     eeNow = (\<lambda>_ _. 0), eeBegin = None, eePrepare = None, eeInsert = (\<lambda>_. None), eeCommit = None, eeQuery = None, eeRuleName = (\<lambda>_. None),
     eeProcess = (\<lambda>_. None), eeSource = (\<lambda>_. None), eeAnnotations = (\<lambda>_. None)\<rparr>"

definition from_agent :: "string \<Rightarrow> string \<Rightarrow> request" where
  "from_agent a org = \<lparr>rqMethod = ''POST'', rqRemoteAddr = ''10.0.0.1:5'', rqQueryKey = '''', rqAuthorization = '''',
     rqCtx = \<lparr>cxRole = '''', cxUserID = '''', cxOrg = org, cxAgentID = a, cxScope = ''''\<rparr>\<rparr>"

definition no_events :: event_db where
  "no_events = \<lparr>edEvents = [], edCounters = [], edAgents = [], edSink = False, edAudit = []\<rparr>"

definition two_events :: "response \<times> event list \<times> event_db" where
  "two_events = post_events sample_event_env True (from_agent ''a1'' ''acme'') no_events"

lemma two_events_rows:
  "map evID (edEvents (snd (snd two_events))) = [''u1'', ''m'']" "map evAgentID (edEvents (snd (snd two_events))) = [''a1'', ''a1'']"
  "map evType (edEvents (snd (snd two_events))) = [''process'', ''file'']"
  by (simp_all add: two_events_def post_events_def no_events_def sample_event_env_def from_agent_def event_row_def validateOrMintEventID_def
      maxEventsPerPost_def)

theorem posted_events_owned_witness:
  "map evID (edEvents (snd (snd two_events))) = [''u1'', ''m''] \<and>
   list_all (\<lambda>e. evAgentID e = ''a1'' \<and> evOrg e = ''acme'') (edEvents (snd (snd two_events))) \<and> events_wf (edEvents (snd (snd two_events)))"
proof -
  have "events_wf (edEvents no_events)" "edEvents no_events = []" by (simp_all add: no_events_def events_wf_def)
  moreover have "cxAgentID (rqCtx (from_agent ''a1'' ''acme'')) = ''a1''" "cxOrg (rqCtx (from_agent ''a1'' ''acme'')) = ''acme''"
    by (simp_all add: from_agent_def)
  ultimately show ?thesis
    using posted_events_owned [of sample_event_env "from_agent ''a1'' ''acme''" no_events "fst two_events" "fst (snd two_events)" "snd (snd two_events)"]
      two_events_rows(1) by (auto simp: two_events_def list_all_iff)
qed


end
