(* ===== verification/Spec2Isabelle.thy ===== *)
theory Spec2Isabelle
  imports Flusher_Model Query_Router Ingest_Queue Batch_Writer Shard_Router Cold_Lifecycle Compactor_Model
    Storage_Engine Leader_Model Audit_Log Edr_Queue Task_Queue
    Playbook_Exec Response_Agent Alert_Manager Agent_Filters
    Case_Laws Server_Fleet Process_Tree Event_Correlator Siem_Engine Edr_Executor Agent_Updater Server_Events
begin

text \<open>
  Verification of the trace repository (Go): the event storage engine under \<open>src/internal/storage\<close>, the
  audit log, the endpoint agent's event queue, filters, process tree and correlator, the SIEM engine, cases,
  the server's authentication, its fleet of agents and the events they post, the agent's action executor and
  updater, the task queue, and the path of an automated response: alerts, playbooks, approvals and response
  actions.

  \<^bold>\<open>The program.\<close>  Endpoint events arrive in a bounded ingest queue that spills to disk
  (\<open>queue/queue.go\<close>), are batched (\<open>batch/writer.go\<close>, \<open>batch/writer_goroutine.go\<close>) and written to a hot
  store of hourly SQLite tables (\<open>sqlite/hot_store.go\<close>), possibly one of several shards
  (\<open>shard/router.go\<close>).  A flusher (\<open>flusher/flusher.go\<close>, \<open>flusher/groups.go\<close>) reads the hot store above a
  watermark, writes Parquet files (\<open>parquet/writer.go\<close>) and commits them with the new watermark to the
  manifest (\<open>manifest/manifest.go\<close>) in one transaction.  A compactor (\<open>compactor/compactor.go\<close>) merges
  hourly files into daily ones; garbage collection, TTL, retention and scrubbing (\<open>gc/\<close>) retire
  files and tables.  Queries go through a router (\<open>router/router.go\<close>, \<open>router/pagination.go\<close>) that merges the
  hot store with the cold reader (\<open>cold/parquet_reader.go\<close>, \<open>cold/reader.go\<close>).  Writes are gated on disk
  space (\<open>disk.go\<close>), and the nodes of a cluster elect a leader over a bucket (\<open>leader.go\<close>).  Beside the
  engine stand the chained audit log (\<open>src/internal/audit/logger.go\<close>), the agent's persistent event queue
  (\<open>src/internal/edr_agent/queue/queue.go\<close>) and the task queue with leases
  (\<open>src/internal/taskqueue/taskqueue.go\<close>).

  On the endpoint, events pass a priority queue, a flood control, a deduplicator, a learner of false
  positives and a cache of scanned files (\<open>src/internal/edr_agent/\<close>); a tree of processes with a write-ahead
  log and snapshots answers for their ancestry (\<open>monitor/tree.go\<close>), and a correlator counts related events
  (\<open>monitor/correlator.go\<close>).  The agent carries out the actions the server hands it (\<open>response/executor.go\<close>) and
  replaces its own binary by a signed release (\<open>updater/updater.go\<close>).  The server (\<open>src/internal/server/\<close>) authenticates users by hashed keys and roles
  with a lockout per address (\<open>auth.go\<close>, \<open>rbac.go\<close>), enrols agents against tokens that are used once
  (\<open>provision.go\<close>, \<open>edr.go\<close>), hands them actions, of which the destructive ones wait for an approval, and
  stores and lists the events they post (\<open>edr.go\<close>).
  The SIEM (\<open>src/internal/siem/\<close>) tails log files, decodes their lines, evaluates rules with suppression and
  thresholds over sliding windows, and drops repeated alerts; an alert of a high severity opens a case
  under a rate limit (\<open>src/cmd/trace/serve.go\<close>).  Cases (\<open>src/internal/cases/\<close>) belong to organisations and have a
  lifecycle, indicators, evidence, paged lists and exports.  Alerts are scored, throttled and
  suppressed (\<open>src/internal/siem/alertmgr\<close>).  An alert may start a playbook
  (\<open>src/internal/playbook/executor.go\<close>): the executor fills the templates of each step from its scope
  (\<open>interpolate.go\<close>), refuses untrusted values in sinks (\<open>taint.go\<close>), asks for approval where the
  step or its action requires it, waits for the row of the approval table to be decided
  (\<open>investigation.go\<close>, \<open>approval.go\<close>, \<open>src/cmd/trace/approval.go\<close>), and calls an agent.  The response
  agent (\<open>src/internal/response/response.go\<close>) validates the parameters, builds the argument vector of
  a fixed program (\<open>src/internal/response/executil.go\<close>), runs it and records how to undo it.

  \<^bold>\<open>Conventions.\<close>  Go strings are byte strings (\<open>string\<close>), 64-bit timestamps and counters are \<open>int\<close>, with
  wrap-around written out where it matters; hashes, epochs and drop counters are 64-bit words.
  Structures are records with the source's fields, errors are values (\<open>string option\<close> or the left of
  \<open>result\<close>), and every early return is a branch.  Whatever the code gets from outside is an
  argument: the clock, random identifiers, digests, JSON coding, the local time zone, the order in which a
  Go map is visited and the ready case a \<open>select\<close> takes, and for each call of the operating system, of SQLite or of S3
  whether it fails (\<open>fault\<close>, or a record of faults per operation).  Theorems quantify over these inputs
  and name the ones they need to be good.  Tables of the databases are lists of rows; files are
  maps from paths to rows.  Concurrency is explicit: each lock-protected section or channel
  operation is one step, and interleavings are sequences of steps.

  \<^bold>\<open>Theories.\<close>
  \<^item> \<open>Trace_Prelude\<close>, \<open>Go_Time\<close>: the Go primitives used (strings, numerals, grouping, sorting,
    calendar formats) with their lemmas, among them that printing and parsing numbers and hours
    are inverse.
  \<^item> \<open>Go_Heap\<close>, \<open>Go_Channel\<close>: \<open>container/heap\<close> and buffered channels, each behind a locale (\<open>min_queue\<close>, \<open>channel\<close>) that
    the query router, the ingest queue and the writer goroutine use.
  \<^item> \<open>Storage_Types\<close>, \<open>Manifest_Store\<close>, \<open>Parquet_Writer\<close>, \<open>Cold_Reader\<close>, \<open>Disk_Gate\<close>, \<open>Hot_Store\<close>: data model and
    the stores.  Every manifest operation keeps its keys unique, a failed transaction changes
    nothing, row-group pruning never skips a matching row, table pruning never changes an answer,
    and a batch reaches the hot store completely or not at all.
  \<^item> \<open>Flusher_Model\<close>: one flush cycle; what a successful flush stores, how the watermark moves,
    and when a group is ready.
  \<^item> \<open>Query_Router\<close>: caches, the split at the watermark, the k-way merge and paging; an answer
    holds the lowest matching identifiers of both tiers.
  \<^item> \<open>Ingest_Queue\<close>, \<open>Batch_Writer\<close>, \<open>Shard_Router\<close>: no event is lost without being counted, spilled
    events are replayed in order, batches are conserved, events reach the shard of their hash and
    the fan-in merges all answers.
  \<^item> \<open>Cold_Lifecycle\<close>, \<open>Compactor_Model\<close>: what each background job may remove, and that compaction
    keeps the rows it replaces.
  \<^item> \<open>Storage_Engine\<close>: all jobs as steps on one state, behind the locale \<open>background_job\<close>; its
    interpretation shows that every step keeps committed files on disk.
  \<^item> \<open>Leader_Model\<close>: the lease as a register (locale \<open>lease_register\<close>), ticks of a node, and a cluster of nodes
    under atomic ticks (\<open>cluster_reach\<close>), in which leaders are fenced by epochs.
  \<^item> \<open>Audit_Log\<close>: chained writes and paged verification; verification in pages is one scan, written logs
    verify, and a log that verifies with the same last signature was not changed.
  \<^item> \<open>Edr_Queue\<close>: the agent's queue; draining ends, delivers in order and deletes only what was sent.
  \<^item> \<open>Task_Queue\<close>: the task table under every operation (\<open>task_reach\<close>); attempts are bounded.
  \<^item> \<open>Go_Any\<close>, \<open>Go_Path\<close>: values of type \<open>any\<close> as they come from JSON and YAML, their formatting, further
    functions of \<open>strings\<close>, and the lexical functions of \<open>path/filepath\<close>.
  \<^item> \<open>Playbook_Scope\<close>, \<open>Playbook_Taint\<close>: scopes, templates and their interpolation, which fails on every
    unresolved placeholder; the checks of sink parameters, and the redaction of logged maps.
  \<^item> \<open>Approval_Store\<close>: the approval table behind the locale \<open>decision_table\<close>, interpreted on the
    operations of the store: a decided row is never decided again.  Tokens verify exactly for the
    nonce and parameters they were issued for.
  \<^item> \<open>Playbook_Exec\<close>: the executor; a gated step calls its agent only after an approval, the wait for it
    ends, and what reaches a sink has passed the checks.
  \<^item> \<open>Response_Guard\<close>, \<open>Response_Agent\<close>: validation, confinement of paths, argument vectors; the agent runs nothing but
    vectors built from validated parameters, and a rollback runs the recorded inverse.
  \<^item> \<open>Alert_Manager\<close>: scoring, suppression, throttling by entity and decay; entities do not affect each other.
  \<^item> \<open>Agent_Filters\<close>: the endpoint's filters; the priority queue over the locale \<open>channel\<close> accounts for
    every event.
  \<^item> \<open>Process_Tree\<close>: the tree with its index, LRU list, log and snapshot; index and list agree, ancestors are a finite chain
    without repetition, and loading a saved tree restores it.
  \<^item> \<open>Event_Correlator\<close>: buckets of recent events, rules and suppression.
  \<^item> \<open>Sliding_Window\<close>: the locale \<open>admission\<close> of limiters that count hits in a window, and what follows
    for every run; interpreted on the case limiter and the lockout guard (\<open>Server_Auth\<close>) and on the
    suppression of repeated alerts (\<open>Siem_Engine\<close>).
  \<^item> \<open>Go_Base64\<close>: the URL alphabet of \<open>encoding/base64\<close>, for cursors; decoding inverts encoding.
  \<^item> \<open>Case_Store\<close>, \<open>Case_Laws\<close>: the case tables and manager, keeping the tables well-formed; the locale \<open>scoped_store\<close> for
    tenant isolation, interpreted on the scoped operations; paging lists every case once, and exports can be read back.
  \<^item> \<open>Server_Auth\<close>: keys, roles, scopes, the lockout guard and the middleware; only authorised requests are served.
  \<^item> \<open>Server_Fleet\<close>: provision tokens, idempotency keys, registration, heartbeats, dispatch, results and deletion as
    steps on one server state; agents never outnumber redeemed tokens, and destructive actions are not handed out.
  \<^item> \<open>Siem_Rules\<close>, \<open>Siem_Laws\<close>: rules, the compliance table, evaluation; a threshold rule counts exactly.
  \<^item> \<open>Siem_Decoders\<close>, \<open>Siem_Engine\<close>: the decoders and the engine's channels, tailing and automatic cases; files are
    followed completely, and a burst of alerts opens at most five cases.
  \<^item> \<open>Edr_Executor\<close>: the endpoint's executor; every command it runs is built from validated arguments or is of a fixed list.
  \<^item> \<open>Agent_Updater\<close>: manifest, origin check, download, installation and rollback; only a release whose digest and
    signature verify replaces the binary.
  \<^item> \<open>Server_Events\<close>: ingest and queries of endpoint events; stored events belong to the agent and organisation that sent
    them, and an agent's query returns its own.
  \<^item> \<open>Sample_Data\<close>: concrete states at which the properties are instantiated.
  Properties of one component are in its theory; those below span components.

  \<^bold>\<open>Where the code does less than it says.\<close>  Several theorems pin down behaviour that differs from a comment
  or from the evident intent: the watermark that passes unready groups, time ranges
  taken from the first and last row, the sweep that races a flush, the hour that stays closed after retention,
  the lease that two nodes confirm, the rolled-back epoch, the missing heartbeat,
  the lease that ignores time, edits the audit chain does not notice, the undecodable row that blocks
  the agent's queue, the lock that is never released, the send on a closed channel, the grace
  period without effect and the tenant that compaction drops; the approval that the command line grants
  without its signature, parameters nested in maps that are not checked, lists that are not redacted, the process
  name that is read as an option, the built-in playbook that always fails, and the tenth dismissal, which never
  returns; the registration that cannot be retried, the result accepted for an unapproved action, the snapshot that
  makes a process its own child, decoders that no line reaches, rules whose suppression hides their threshold, the line
  that hides the rest of its file, and case labels on another scale; the release signature that does not cover
  the version, the isolation that drops the server's answers, and the query of vulnerabilities that does not check the
  organisation.

  \<^bold>\<open>Loops and bounds.\<close>  Every loop of the source is a total function: structural recursion, or a \<open>function\<close> with
  a measure (heap sifts, the merge loop, chunking, the page loop of the audit log, the drain loop, the search for the nearest existing
  directory, the split of a template into segments).  Three definitions have
  fuel.  The wait for an approval (\<open>wait_loop\<close>) polls every 500 ms under a deadline of 15 minutes: \<open>wait_ticks\<close> is 1801, one
  more than the ticks before the deadline, and \<open>waitForApproval_ends\<close> shows that the loop ends within them.  The
  walks over the process tree (\<open>marshal_node\<close>, \<open>walk_tree\<close>) take a depth, since the records can be linked to a
  cycle, which \<open>json.Marshal\<close> reports and \<open>Format\<close> follows without end; the result \<open>None\<close> stands for both.  The client
  that follows cursors (\<open>walk_pages\<close>) takes one page more than there are cases, which \<open>ListPage_complete\<close> shows to be enough.

  \<^bold>\<open>Not modelled.\<close>  Tickers and goroutine start and stop of the run loops (a cycle is a step), logging and metrics,
  the bytes of Parquet, JSON, YAML and SQLite files, S3 request signing, the DuckDB reader, backups and
  snapshots, and the rest of the repository: the server's dashboard, administration and synchronisation, the
  operating-system probes and transport of the endpoint agent, the sockets of the SIEM, the generated Wazuh
  tables, HTML and PDF exports, the graph of entities, hunting and reports, the dispatcher of language models,
  integrations, and the command line except for approvals and automatic cases.  These are I/O, generated tables,
  formatting or calls to external services.
\<close>


definition sample_ops :: "engine_op list" where
  "sample_ops = [FlushOp (sample_flush_env sample_now) sample_cfg, CollectOp (calm_env sample_now) (NewGC ''/data''),
     ScrubOp None (\<lambda>_. None) (\<lambda>_. []) (\<lambda>_. None) 0]"

definition sample_run :: tse where
  "sample_run = foldl (\<lambda>s e. engine_exec e s) (sample_tse early_events) sample_ops"


text \<open>
  The orphan sweep races the flusher.  A file that was written and is not yet in the manifest is removed
  by a garbage collection at that moment; the insertion that follows makes it a committed file that
  is not on disk.
\<close>

theorem sweep_before_commit_loses_file:
  assumes "WriteBatch enc env w events key f = (Inr r, f')" "pwS3 w = None"
    and "filepath_Ext (frPath r) = ''.parquet''" "frPath r \<in> set (gxListing g)" "gxRemove g (frPath r) = None"
    and "frPath r \<notin> pfPath ` set (parquet_files m)" "pfPath rec = frPath r" "AddFileTx None rec m = (None, m')"
  shows "\<exists>c\<in>set (parquet_files m'). pfStatus c = ''committed'' \<and> local_files f' (pfPath c) \<noteq> None \<and>
    local_files (sweep g m f') (pfPath c) = None"
proof -
  let ?c = "rec\<lparr>pfStatus := ''committed''\<rparr>"
  have "?c \<in> set (parquet_files m')" using assms(8) by (auto simp: AddFileTx_def insert_file_def split: if_splits)
  then show ?thesis using insert_after_sweep [OF assms(1-6)] WriteBatch_path [OF assms(1,2)] assms(7) by (intro bexI [of _ ?c]) simp_all
qed

definition raced_write :: "FileResult \<times> fsys" where
  "raced_write = (case WriteBatch no_annotations (no_write_faults 5) local_writer [sample_event ''00000001'' ''t'' ''a'' 1000] ''t'' no_files of
     (Inr r, f') \<Rightarrow> (r, f') | (Inl _, f') \<Rightarrow> (\<lparr>frPath = [], frRowCount = 0, frCompressedSize = 0, frUncompressedSize = 0, frSHA256 = [],
        frMinTimestampUs = 0, frMaxTimestampUs = 0, frMinEventID = [], frMaxEventID = []\<rparr>, f'))"

theorem sweep_before_commit_loses_file_witness:
  "\<exists>c\<in>set (parquet_files (snd (AddFileTx None ((day_file 0)\<lparr>pfPath := frPath (fst raced_write)\<rparr>) sample_manifest))).
     pfStatus c = ''committed'' \<and> local_files (snd raced_write) (pfPath c) \<noteq> None \<and>
     local_files (sweep ((calm_env 0)\<lparr>gxListing := [frPath (fst raced_write)]\<rparr>) sample_manifest (snd raced_write)) (pfPath c) = None"
proof -
  have w: "WriteBatch no_annotations (no_write_faults 5) local_writer [sample_event ''00000001'' ''t'' ''a'' 1000] ''t'' no_files =
      (Inr (fst raced_write), snd raced_write)"
  proof -
    have "\<not> isl (fst (WriteBatch no_annotations (no_write_faults 5) local_writer [sample_event ''00000001'' ''t'' ''a'' 1000] ''t'' no_files))"
      by code_simp
    then show ?thesis by (auto simp: raced_write_def split: prod.splits sum.splits)
  qed
  have a: "AddFileTx None ((day_file 0)\<lparr>pfPath := frPath (fst raced_write)\<rparr>) sample_manifest =
      (None, snd (AddFileTx None ((day_file 0)\<lparr>pfPath := frPath (fst raced_write)\<rparr>) sample_manifest))"
    by code_simp
  have "filepath_Ext (frPath (fst raced_write)) = ''.parquet''" "pwS3 local_writer = None" "parquet_files sample_manifest = []"
    by code_simp+
  then show ?thesis
    using sweep_before_commit_loses_file [OF w _ _ _ _ _ _ a, of "(calm_env 0)\<lparr>gxListing := [frPath (fst raced_write)]\<rparr>"]
    by (simp add: calm_env_def)
qed

text \<open>
  A dropped hour stays closed.  After a retention cycle dropped a table, every batch with an event of
  that hour is refused as a whole, whatever else it holds, until the process restarts: the store
  still believes the table exists.
\<close>

theorem retention_closes_hour:
  assumes "watermark_row m = Some wm" "t \<in> set (liveTables h)" "t \<in> set (ensured h)" "droppable (LastTS wm) window now t" "drp t = None"
    and "e \<in> set events" "hourlyTableName zone (Timestamp e) = t"
  shows "fst (HotWriteBatch enc zone env events (fst (retainOnce None drp mark hdrop window now (h, m)))) \<noteq> None"
  by (rule dropped_hour_rejected [OF _ _ assms(6,7)]) (use retained_away [of m wm t h window now drp mark hdrop] assms(1-5) in simp_all)

theorem retention_closes_hour_witness:
  "fst (HotWriteBatch no_annotations utc no_hot_faults [sample_event ''00000010'' ''t'' ''a'' 2000]
     (fst (retainOnce None (\<lambda>_. None) (\<lambda>_. None) (\<lambda>_. None) (2 * Hour) 20000000000 (late_hot, late_manifest)))) \<noteq> None"
proof -
  let ?t = "''edr_events_1970010100''"
  have "?t \<in> set (liveTables late_hot)" "?t \<in> set (ensured late_hot)" by code_simp+
  moreover have "droppable 4000000000 (2 * Hour) 20000000000 ?t" "hourlyTableName utc (Timestamp (sample_event ''00000010'' ''t'' ''a'' 2000)) = ?t"
    by code_simp+
  ultimately show ?thesis
    using retention_closes_hour [of late_manifest "\<lparr>LastID = ''00000005'', LastTS = 4000000000, wmUpdatedAt = 0\<rparr>" ?t late_hot]
    by (simp add: late_manifest_def)
qed

text \<open>
  A file can hide a matching row.  The recorded time range is that of the first and the last row in the
  order of agents: when the last agent's event is older than the start of a query and the first
  agent's is not, the manifest does not list the file for the query although the row matches.
\<close>

theorem time_range_hides_row:
  assumes "WriteBatch enc env w [e1, e2] key f = (Inr r, f')"
    and "AgentID e1 < AgentID e2" "Timestamp e2 < since" "since \<le> Timestamp e1" "0 < since"
    and "pfMaxTimestampUs rec = frMaxTimestampUs r"
  shows "row_matches (empty_query\<lparr>qSinceUs := since\<rparr>) (eventToParquet enc e1) \<and>
    eventToParquet enc e1 \<in> set (sorted_rows enc [e1, e2]) \<and> \<not> files_where [] since 0 ''committed'' rec"
proof -
  have "sorted_rows enc [e1, e2] = [eventToParquet enc e1, eventToParquet enc e2]"
    using assms(2) by (simp add: sorted_rows_def row_key_def less_imp_le)
  moreover have "frMaxTimestampUs r = pTimestampUs (last (sorted_rows enc [e1, e2]))"
    using arg_cong [OF WriteBatch_ok(3) [OF assms(1)], of frMaxTimestampUs] by (simp add: file_result_def)
  ultimately show ?thesis using assms(3-) by (simp add: row_matches_def empty_query_def files_where_def)
qed

theorem time_range_hides_row_witness:
  "row_matches (empty_query\<lparr>qSinceUs := 1500\<rparr>) (eventToParquet no_annotations (sample_event ''00000001'' ''t'' ''a'' 2000)) \<and>
   \<not> files_where [] 1500 0 ''committed'' ((day_file 0)\<lparr>pfMaxTimestampUs := 1000\<rparr>)"
proof -
  let ?e1 = "sample_event ''00000001'' ''t'' ''a'' 2000" and ?e2 = "sample_event ''00000002'' ''t'' ''b'' 1000"
  let ?w = "WriteBatch no_annotations (no_write_faults 5) local_writer [?e1, ?e2] ''t'' no_files"
  have "\<not> isl (fst ?w)" "map_sum id frMaxTimestampUs (fst ?w) = Inr 1000" by code_simp+
  then obtain r f' where w: "?w = (Inr r, f')" "frMaxTimestampUs r = 1000" by (cases ?w; cases "fst ?w") auto
  from time_range_hides_row [OF w(1), of 1500 "(day_file 0)\<lparr>pfMaxTimestampUs := 1000\<rparr>"] w(2)
  show ?thesis by (simp add: sample_event_def)
qed

end
